(* ===== verification/Mocha_Prelude.thy ===== *)
theory Mocha_Prelude
  imports Complex_Main "HOL-Library.Word" "HOL-Library.Signed_Division"
begin

text \<open>
  Shared vocabulary of the development: the machine types and error numbers the C++ sources use,
  C integer division, the two ways a raw pointer can be read (present or null), and the generic
  lemmas on lists, words and loops that the component theories rewrite with.
\<close>

unbundle bit_operations_syntax

named_theorems frame_simps \<open>which fields an operation leaves alone\<close>
named_theorems bound_intros \<open>range facts of C integer expressions\<close>

type_synonym byte = "8 word"
type_synonym u16 = "16 word"
type_synonym u32 = "32 word"

section \<open>Error numbers\<close>

text \<open>The Linux error numbers; the sources return them negated.\<close>

abbreviation (input) ENOENT :: int where "ENOENT \<equiv> 2"
abbreviation (input) EAGAIN :: int where "EAGAIN \<equiv> 11"
abbreviation (input) ENOMEM :: int where "ENOMEM \<equiv> 12"
abbreviation (input) EFAULT :: int where "EFAULT \<equiv> 14"
abbreviation (input) EBUSY :: int where "EBUSY \<equiv> 16"
abbreviation (input) ENODEV :: int where "ENODEV \<equiv> 19"
abbreviation (input) EINVAL :: int where "EINVAL \<equiv> 22"
abbreviation (input) ENOSPC :: int where "ENOSPC \<equiv> 28"
abbreviation (input) ENOSYS :: int where "ENOSYS \<equiv> 38"
abbreviation (input) ETIMEDOUT :: int where "ETIMEDOUT \<equiv> 110"

section \<open>Lists written in place\<close>

text \<open>\<open>write_at xs i ys\<close> is \<open>memcpy (xs + i, ys, length ys)\<close> into an array.\<close>

fun write_at :: "'a list \<Rightarrow> nat \<Rightarrow> 'a list \<Rightarrow> 'a list" where
  "write_at xs i [] = xs"
| "write_at xs i (y # ys) = write_at (xs[i := y]) (Suc i) ys"

lemma length_write_at [simp]: "length (write_at xs i ys) = length xs"
  by (induction xs i ys rule: write_at.induct) auto

lemma nth_write_at:
  "j < length xs \<Longrightarrow>
     write_at xs i ys ! j = (if i \<le> j \<and> j < i + length ys then ys ! (j - i) else xs ! j)"
proof (induction xs i ys rule: write_at.induct)
  case (1 xs i)
  then show ?case by auto
next
  case (2 xs i y ys)
  then show ?case
    by (cases "j = i") (auto simp: nth_Cons' Suc_le_eq)
qed

lemma map_upt_shift: "map f [a..<a + n] = map (\<lambda>i. f (a + i)) [0..<n]"
  by (rule nth_equalityI) auto

lemma map_upt_append: "map f [0..<m + n] = map f [0..<m] @ map (\<lambda>i. f (m + i)) [0..<n]"
  by (induction n) auto

section \<open>Loops over buffers\<close>

text \<open>
  \<open>for_loop k n i body\<close> is \<open>for (; i < n; i += k) body\<close>; \<open>stride_loop k n i body\<close> is
  \<open>for (; i + k <= n; i += k) body\<close> and also returns the final \<open>i\<close>, where the loop over the remaining
  elements takes over.
\<close>

function for_loop :: "nat \<Rightarrow> nat \<Rightarrow> nat \<Rightarrow> (nat \<Rightarrow> 's \<Rightarrow> 's) \<Rightarrow> 's \<Rightarrow> 's" where
  "for_loop k n i body s = (if 0 < k \<and> i < n then for_loop k n (i + k) body (body i s) else s)"
  by auto
termination for_loop
  by (relation "measure (\<lambda>(k, n, i, body, s). n - i)") auto

function stride_loop :: "nat \<Rightarrow> nat \<Rightarrow> nat \<Rightarrow> (nat \<Rightarrow> 's \<Rightarrow> 's) \<Rightarrow> 's \<Rightarrow> nat \<times> 's" where
  "stride_loop k n i body s =
     (if 0 < k \<and> i + k \<le> n then stride_loop k n (i + k) body (body i s) else (i, s))"
  by auto
termination stride_loop
  by (relation "measure (\<lambda>(k, n, i, body, s). n - i)") auto

declare for_loop.simps [simp del] stride_loop.simps [simp del]

text \<open>\<open>filled old new D f\<close>: exactly the cells of \<open>D\<close> were overwritten, cell \<open>k\<close> with \<open>f k\<close>.\<close>

definition filled :: "'a list \<Rightarrow> 'a list \<Rightarrow> nat set \<Rightarrow> (nat \<Rightarrow> 'a) \<Rightarrow> bool" where
  "filled old new D f \<longleftrightarrow>
     length new = length old \<and> (\<forall>k<length old. new ! k = (if k \<in> D then f k else old ! k))"

lemma filled_refl: "filled xs xs {} f"
  by (simp add: filled_def)

lemma filled_trans: "filled a b D f \<Longrightarrow> filled b c E f \<Longrightarrow> filled a c (D \<union> E) f"
  by (auto simp: filled_def)

lemma filled_length: "filled a b D f \<Longrightarrow> length b = length a"
  by (simp add: filled_def)

lemma filled_nth: "filled a b D f \<Longrightarrow> k < length a \<Longrightarrow> b ! k = (if k \<in> D then f k else a ! k)"
  by (simp add: filled_def)

lemma filled_set: "filled a b D f \<Longrightarrow> D = E \<Longrightarrow> filled a b E f"
  by simp

lemma filled_cong: "filled a b D f \<Longrightarrow> (\<And>k. k \<in> D \<Longrightarrow> f k = g k) \<Longrightarrow> filled a b D g"
  by (auto simp: filled_def)

lemma filled_update: "v = f p \<Longrightarrow> filled xs (xs[p := v]) {p} f"
  by (auto simp: filled_def nth_list_update)

lemma filled_write_at:
  assumes "\<And>i. i < length v \<Longrightarrow> v ! i = f (p + i)" "n = length v"
  shows "filled xs (write_at xs p v) {p..<p + n} f"
  using assms(1) [of "k - p" for k] assms(2) by (auto simp: filled_def nth_write_at)

lemma filled_write_to:
  assumes "length v = n" "q = p + n" "\<And>i. i < n \<Longrightarrow> v ! i = f (p + i)"
  shows "filled xs (write_at xs p v) {p..<q} f"
  unfolding assms(2) by (rule filled_write_at) (use assms in auto)

lemma filled_fold:
  assumes "\<And>i s. i \<in> set is \<Longrightarrow> filled s (body i s) (D i) f"
  shows "filled s (fold body is s) (\<Union>i\<in>set is. D i) f"
  using assms
proof (induction "is" arbitrary: s)
  case Nil
  then show ?case by (simp add: filled_refl)
next
  case (Cons i "is")
  have "filled s (body i s) (D i) f" using Cons.prems by simp
  moreover have "filled (body i s) (fold body is (body i s)) (\<Union>i\<in>set is. D i) f"
    using Cons by simp
  ultimately show ?case using filled_trans by fastforce
qed

lemma for_loop_1: "for_loop 1 n i body s = fold body [i..<n] s"
  by (induction "1 :: nat" n i body s rule: for_loop.induct)
    (subst for_loop.simps, auto simp: upt_rec)

lemma for_loop_2: "for_loop 2 n (2 * i) body s = fold body (map ((*) 2) [i..<(n + 1) div 2]) s"
proof (induction "(n + 1) div 2 - i" arbitrary: i s)
  case 0
  then show ?case by (subst for_loop.simps) auto
next
  case (Suc d)
  then have "for_loop 2 n (2 * Suc i) body (body (2 * i) s) =
      fold body (map ((*) 2) [Suc i..<(n + 1) div 2]) (body (2 * i) s)" by (metis Suc_diff_Suc diff_Suc_1' zero_less_Suc zero_less_diff)
  moreover have "2 * i < n" "i < (n + 1) div 2" using Suc.hyps(2) by auto
  ultimately show ?case by (subst for_loop.simps) (simp add: upt_conv_Cons)
qed

lemma stride_loop_end:
  assumes "i \<le> n" "0 < k"
  shows "fst (stride_loop k n i body s) \<le> n \<and> i \<le> fst (stride_loop k n i body s) \<and>
    n < fst (stride_loop k n i body s) + k \<and> k dvd fst (stride_loop k n i body s) - i"
  using assms
proof (induction k n i body s rule: stride_loop.induct)
  case (1 k n i body s)
  show ?case
  proof (cases "i + k \<le> n")
    case True
    define e where "e = fst (stride_loop k n (i + k) body (body i s))"
    have ih: "e \<le> n" "i + k \<le> e" "n < e + k" "k dvd e - (i + k)"
      using 1 True by (auto simp: e_def)
    have "e - i = k + (e - (i + k))" using ih by simp
    then have "k dvd e - i" using ih by (metis dvd_add dvd_refl)
    then show ?thesis using ih True 1 by (subst stride_loop.simps, subst (2) stride_loop.simps,
      subst (3) stride_loop.simps, subst (4) stride_loop.simps) (simp flip: e_def)
  next
    case False
    then show ?thesis using 1 by (simp add: stride_loop.simps)
  qed
qed

lemma filled_stride:
  assumes "\<And>i s. i + k \<le> n \<Longrightarrow> i0 \<le> i \<Longrightarrow> k dvd i - i0 \<Longrightarrow> filled s (body i s) {b + c * i..<b + c * (i + k)} f"
    "i0 \<le> i" "i \<le> n" "0 < k" "k dvd i - i0"
  shows "filled s (snd (stride_loop k n i body s))
    {b + c * i..<b + c * fst (stride_loop k n i body s)} f"
  using assms
proof (induction k n i body s rule: stride_loop.induct)
  case (1 k n i body s)
  show ?case
  proof (cases "i + k \<le> n")
    case True
    define e where "e = fst (stride_loop k n (i + k) body (body i s))"
    have "k dvd i + k - i0" using 1 by (metis Nat.add_diff_assoc2 dvd_add_triv_right_iff)
    then have ih: "filled (body i s) (snd (stride_loop k n (i + k) body (body i s)))
        {b + c * (i + k)..<b + c * e} f"
      using 1 True unfolding e_def by simp
    have st: "filled s (body i s) {b + c * i..<b + c * (i + k)} f"
      using 1 True by simp
    have "i + k \<le> e"
      using stride_loop_end [of "i + k" n k body "body i s"] True 1 by (simp add: e_def)
    then have un: "{b + c * i..<b + c * (i + k)} \<union> {b + c * (i + k)..<b + c * e} = {b + c * i..<b + c * e}"
      by (intro ivl_disj_un_two) (auto intro: mult_le_mono2)
    have "filled s (snd (stride_loop k n (i + k) body (body i s))) {b + c * i..<b + c * e} f"
      using filled_trans [OF st ih] unfolding un .
    then show ?thesis using True 1
      by (subst stride_loop.simps, subst (2) stride_loop.simps) (simp flip: e_def)
  next
    case False
    then show ?thesis by (simp add: stride_loop.simps filled_refl)
  qed
qed

lemma filled_stride_result:
  assumes "stride_loop k n i0 body s = (e, s')" "i0 \<le> n" "0 < k"
    and "\<And>i s. i + k \<le> n \<Longrightarrow> i0 \<le> i \<Longrightarrow> k dvd i - i0 \<Longrightarrow>
      filled s (body i s) {b + c * i..<b + c * (i + k)} f"
  shows "filled s s' {b + c * i0..<b + c * e} f"
proof -
  have "filled s (snd (stride_loop k n i0 body s)) {b + c * i0..<b + c * fst (stride_loop k n i0 body s)} f"
    by (rule filled_stride [where i0 = i0]) (use assms in auto)
  then show ?thesis by (simp add: assms(1))
qed

lemma filled_stride_unit:
  assumes "stride_loop k n i0 body s = (e, s')" "i0 \<le> n" "0 < k"
    and "\<And>i s. i + k \<le> n \<Longrightarrow> i0 \<le> i \<Longrightarrow> k dvd i - i0 \<Longrightarrow>
      filled s (body i s) {b + i..<b + (i + k)} f"
  shows "filled s s' {b + i0..<b + e} f"
  by (rule filled_stride_result [OF assms(1-3), where b = b and c = 1, unfolded mult_1]) (rule assms(4))

lemma filled_interval_trans:
  assumes "filled a b {i..<j} f" "filled b c {j..<k} f" "i \<le> j" "j \<le> k"
  shows "filled a c {i..<k} f"
  using filled_trans [OF assms(1,2)] ivl_disj_un_two(3) [OF assms(3,4)] by simp

lemma filled_for_unit:
  assumes "\<And>i s. i0 \<le> i \<Longrightarrow> i < n \<Longrightarrow> filled s (body i s) {b + c * i..<b + c * (i + 1)} f" "i0 \<le> n"
  shows "filled s (for_loop 1 n i0 body s) {b + c * i0..<b + c * n} f"
  using assms
proof (induction "n - i0" arbitrary: i0 s)
  case 0
  then show ?case by (simp add: for_loop.simps filled_refl)
next
  case (Suc d)
  have le: "i0 < n" "i0 + 1 \<le> n" using Suc.hyps(2) by auto
  have rest: "filled (body i0 s) (for_loop 1 n (i0 + 1) body (body i0 s)) {b + c * (i0 + 1)..<b + c * n} f"
    by (rule Suc.hyps) (use Suc in auto)
  have "filled s (body i0 s) {b + c * i0..<b + c * (i0 + 1)} f"
    by (rule Suc.prems) (use le in auto)
  then have "filled s (for_loop 1 n (i0 + 1) body (body i0 s)) {b + c * i0..<b + c * n} f"
    by (rule filled_interval_trans [OF _ rest]) (use mult_le_mono2 [OF le(2), of c] in auto)
  then show ?case using le by (subst for_loop.simps) simp
qed

lemma div_mod_pos: "x < w \<Longrightarrow> (y * w + x) div w = (y :: nat)" "x < w \<Longrightarrow> (y * w + x) mod w = (x :: nat)"
  by auto

lemma cell_less: "x < w \<Longrightarrow> y < h \<Longrightarrow> y * w + x < (h :: nat) * w"
proof -
  assume "x < w" "y < h"
  then have "y * w + x < Suc y * w" by simp
  also have "\<dots> \<le> h * w" using \<open>y < h\<close> by (intro mult_le_mono1) simp
  finally show ?thesis .
qed

lemma UN_rows: "(\<Union>y\<in>{0..<h}. {y * w..<y * w + w}) = {0..<h * (w :: nat)}"
proof (induction h)
  case (Suc h)
  have "(\<Union>y\<in>{0..<Suc h}. {y * w..<y * w + w}) = {0..<h * w} \<union> {h * w..<h * w + w}"
    unfolding atLeast0_lessThan_Suc using Suc by (simp add: Un_commute)
  also have "\<dots> = {0..<Suc h * w}"
    using ivl_disj_un_two(3) [of 0 "h * w" "h * w + w"] by (simp add: add.commute)
  finally show ?case .
qed simp

end
