(* ===== verification/Sensor_Queue.thy ===== *)
theory Sensor_Queue
  imports Mocha_Prelude
begin

text \<open>
  \<open>sensors/SensorEventQueue.cpp\<close>: the fixed-size circular queue between a sub-HAL's writer
  thread and the multihal's \<open>poll\<close>. The state is the class's four fields; the element type is a
  parameter, because the queue never looks into a \<open>sensors_event_t\<close>. The queue is shown to
  implement a bounded FIFO list, including when the reader dequeues while the writer fills a
  region without holding the lock.
\<close>

record 'e sensor_queue =
  mCapacity :: int
  mStart :: int
  mSize :: int
  mData :: "'e list"

text \<open>The constructor: \<open>new sensors_event_t[capacity]\<close> leaves the array's content unspecified.\<close>

definition SensorEventQueue :: "int \<Rightarrow> (nat \<Rightarrow> 'e) \<Rightarrow> 'e sensor_queue" where
  "SensorEventQueue capacity junk =
     \<lparr>mCapacity = capacity, mStart = 0, mSize = 0, mData = map junk [0..<nat capacity]\<rparr>"

text \<open>
  The length of the region and, as the out parameter, the index of its first slot in \<open>mData\<close>
  (\<open>None\<close> for \<open>NULL\<close>).
\<close>

definition getWritableRegion :: "'e sensor_queue \<Rightarrow> int \<Rightarrow> int \<times> int option" where
  "getWritableRegion q requestedLength =
     (if mSize q = mCapacity q \<or> requestedLength \<le> 0 then (0, None)
      else
        let firstWritable = (mStart q + mSize q) smod mCapacity q;
            lastWritable = firstWritable + requestedLength - 1;
            lastWritable = (if lastWritable > mCapacity q - 1 then mCapacity q - 1 else lastWritable);
            lastWritable = (if firstWritable < mStart q \<and> lastWritable \<ge> mStart q
                            then mStart q - 1 else lastWritable)
        in (lastWritable - firstWritable + 1, Some firstWritable))"

definition markAsWritten :: "'e sensor_queue \<Rightarrow> int \<Rightarrow> 'e sensor_queue" where
  "markAsWritten q count = q\<lparr>mSize := mSize q + count\<rparr>"

definition getSize :: "'e sensor_queue \<Rightarrow> int" where
  "getSize q = mSize q"

definition peek :: "'e sensor_queue \<Rightarrow> 'e option" where
  "peek q = (if mSize q = 0 then None else Some (mData q ! nat (mStart q)))"

text \<open>The flag is whether \<open>mSpaceAvailableCondition\<close> is broadcast.\<close>

definition dequeue :: "'e sensor_queue \<Rightarrow> bool \<times> 'e sensor_queue" where
  "dequeue q =
     (if mSize q = 0 then (False, q)
      else (mSize q = mCapacity q,
            q\<lparr>mSize := mSize q - 1, mStart := (mStart q + 1) smod mCapacity q\<rparr>))"

text \<open>
  One turn of the loop in \<open>waitForSpace\<close>: \<open>True\<close> when the thread blocks on the condition (the
  call then also reports that it waited), \<open>False\<close> when the call returns.
\<close>

definition waitForSpace_blocks :: "'e sensor_queue \<Rightarrow> bool" where
  "waitForSpace_blocks q \<longleftrightarrow> mSize q = mCapacity q"

text \<open>What \<open>device->poll\<close> does to the array: it stores its events from the region's first slot on.\<close>

definition fill_region :: "'e sensor_queue \<Rightarrow> int \<Rightarrow> 'e list \<Rightarrow> 'e sensor_queue" where
  "fill_region q first evs = q\<lparr>mData := write_at (mData q) (nat first) evs\<rparr>"

section \<open>Well-formed queues and the list they stand for\<close>

definition queue_ok :: "'e sensor_queue \<Rightarrow> bool" where
  "queue_ok q \<longleftrightarrow>
     0 < mCapacity q \<and> 0 \<le> mStart q \<and> mStart q < mCapacity q
     \<and> 0 \<le> mSize q \<and> mSize q \<le> mCapacity q \<and> length (mData q) = nat (mCapacity q)"

definition slot :: "'e sensor_queue \<Rightarrow> nat \<Rightarrow> nat" where
  "slot q i = nat ((mStart q + int i) mod mCapacity q)"

definition contents :: "'e sensor_queue \<Rightarrow> 'e list" where
  "contents q = map (\<lambda>i. mData q ! slot q i) [0..<nat (mSize q)]"

text \<open>A region handed out to the writer: inside the free slots, starting right after the readable
  ones, in one piece.\<close>

definition region_ok :: "'e sensor_queue \<Rightarrow> int \<Rightarrow> int \<Rightarrow> bool" where
  "region_ok q first len \<longleftrightarrow>
     0 \<le> len \<and> len \<le> mCapacity q - mSize q \<and> 0 \<le> first \<and> first + len \<le> mCapacity q
     \<and> first = (mStart q + mSize q) mod mCapacity q"

lemma smod_nonneg: "0 \<le> a \<Longrightarrow> 0 \<le> b \<Longrightarrow> a smod b = a mod (b :: int)"
  by (simp add: signed_modulo_int_def signed_divide_int_def sgn_if minus_div_mult_eq_mod)

lemma length_contents [simp]: "length (contents q) = nat (mSize q)"
  by (simp add: contents_def)

lemma new_queue_ok: "0 < c \<Longrightarrow> queue_ok (SensorEventQueue c junk)"
  by (simp add: queue_ok_def SensorEventQueue_def)

lemma new_queue_empty: "contents (SensorEventQueue c junk) = []"
  by (simp add: contents_def SensorEventQueue_def)

text \<open>The index arithmetic behind the region: \<open>mod\<close> by the capacity is one conditional
  subtraction, since start and size are both at most the capacity.\<close>

lemma wrap_mod:
  fixes s n c :: int
  assumes "0 \<le> s" "s < c" "0 \<le> n" "n \<le> c"
  shows "(s + n) mod c = (if s + n < c then s + n else s + n - c)"
proof (cases "s + n < c")
  case False
  have "(s + n) mod c = (s + n - c) mod c" by simp
  also have "\<dots> = s + n - c" using False assms by (intro mod_pos_pos_trivial) auto
  finally show ?thesis using False by simp
qed (use assms in \<open>simp add: mod_pos_pos_trivial\<close>)

lemma getWritableRegion_region:
  assumes "queue_ok q" "mSize q \<noteq> mCapacity q" "0 < req"
  shows "\<exists>len first. getWritableRegion q req = (len, Some first) \<and> region_ok q first len
           \<and> 1 \<le> len \<and> len \<le> req"
proof -
  have m: "(mStart q + mSize q) smod mCapacity q = (mStart q + mSize q) mod mCapacity q"
    using assms by (simp add: queue_ok_def smod_nonneg)
  have w: "(mStart q + mSize q) mod mCapacity q
      = (if mStart q + mSize q < mCapacity q then mStart q + mSize q
         else mStart q + mSize q - mCapacity q)"
    using assms by (intro wrap_mod) (auto simp: queue_ok_def)
  show ?thesis
    using assms unfolding getWritableRegion_def region_ok_def m w
    by (auto simp: Let_def queue_ok_def)
qed

lemma getWritableRegion_full:
  assumes "mSize q = mCapacity q \<or> req \<le> 0"
  shows "getWritableRegion q req = (0, None)"
  using assms by (simp add: getWritableRegion_def)

lemma peek_contents:
  assumes "queue_ok q"
  shows "peek q = (case contents q of [] \<Rightarrow> None | e # _ \<Rightarrow> Some e)"
proof (cases "mSize q = 0")
  case True
  then show ?thesis by (simp add: peek_def contents_def)
next
  case False
  then have "0 < nat (mSize q)" using assms by (simp add: queue_ok_def)
  then have "contents q = mData q ! slot q 0 # map (\<lambda>i. mData q ! slot q i) [1..<nat (mSize q)]"
    by (simp add: contents_def upt_conv_Cons)
  moreover have "slot q 0 = nat (mStart q)"
    using assms by (simp add: slot_def queue_ok_def mod_pos_pos_trivial)
  ultimately show ?thesis using False by (simp add: peek_def)
qed

lemma dequeue_ok:
  assumes "queue_ok q"
  shows "queue_ok (snd (dequeue q))"
  using assms by (auto simp: queue_ok_def dequeue_def smod_nonneg)

lemma dequeue_contents:
  assumes "queue_ok q"
  shows "contents (snd (dequeue q)) = tl (contents q)"
proof (cases "mSize q = 0")
  case True
  then show ?thesis by (simp add: dequeue_def contents_def)
next
  case False
  then have n: "0 < nat (mSize q)" using assms by (simp add: queue_ok_def)
  have shift: "((mStart q + 1) smod mCapacity q + int i) mod mCapacity q
      = (mStart q + int (Suc i)) mod mCapacity q" for i
    using assms by (simp add: queue_ok_def smod_nonneg mod_simps add.assoc)
  have "contents (snd (dequeue q))
      = map (\<lambda>i. mData q ! slot q (Suc i)) [0..<nat (mSize q) - 1]"
    using False n by (simp add: dequeue_def contents_def slot_def shift nat_diff_distrib)
  also have "\<dots> = tl (contents q)"
    using n by (cases "nat (mSize q)")
      (auto simp: contents_def upt_conv_Cons simp del: upt_Suc simp flip: map_Suc_upt)
  finally show ?thesis .
qed

text \<open>Dequeuing does not disturb a region already handed out.\<close>

lemma dequeue_region:
  assumes "queue_ok q" "region_ok q first len"
  shows "region_ok (snd (dequeue q)) first len"
proof (cases "mSize q = 0")
  case False
  have "((mStart q + 1) mod mCapacity q + (mSize q - 1)) mod mCapacity q
      = (mStart q + mSize q) mod mCapacity q"
    by (simp add: mod_simps)
  with False assms show ?thesis
    by (auto simp: region_ok_def dequeue_def smod_nonneg queue_ok_def)
qed (use assms in \<open>simp add: dequeue_def\<close>)

text \<open>Storing anywhere in a region leaves every readable slot alone.\<close>

lemma fill_region_slot:
  assumes "queue_ok q" "region_ok q first len" "i < nat (mSize q)"
    and "first \<le> pos" "pos + int (length evs) \<le> first + len"
  shows "mData (fill_region q pos evs) ! slot q i = mData q ! slot q i"
proof -
  have w: "(mStart q + int i) mod mCapacity q
      = (if mStart q + int i < mCapacity q then mStart q + int i
         else mStart q + int i - mCapacity q)"
    using assms by (intro wrap_mod) (auto simp: queue_ok_def)
  have f: "first = (if mStart q + mSize q < mCapacity q then mStart q + mSize q
         else mStart q + mSize q - mCapacity q)"
    using assms wrap_mod [of "mStart q" "mCapacity q" "mSize q"]
    by (auto simp: region_ok_def queue_ok_def)
  have "slot q i < length (mData q)"
    using assms by (auto simp: slot_def queue_ok_def nat_less_iff)
  moreover have "\<not> (nat pos \<le> slot q i \<and> slot q i < nat pos + length evs)"
    using assms by (auto simp: slot_def w f queue_ok_def region_ok_def split: if_splits)
  ultimately show ?thesis
    by (auto simp: fill_region_def nth_write_at)
qed

lemma fill_region_contents:
  assumes "queue_ok q" "region_ok q first len"
    and "first \<le> pos" "pos + int (length evs) \<le> first + len"
  shows "contents (fill_region q pos evs) = contents q"
  using fill_region_slot [OF assms(1,2) _ assms(3,4)] assms
  by (simp add: contents_def) (simp add: fill_region_def slot_def)

text \<open>The store the writer's device does one event at a time.\<close>

definition store_event :: "'e sensor_queue \<Rightarrow> int \<Rightarrow> 'e \<Rightarrow> 'e sensor_queue" where
  "store_event q i e = fill_region q i [e]"

lemma store_event_contents:
  assumes "queue_ok q" "region_ok q f n" "f \<le> i" "i < f + n"
  shows "contents (store_event q i e) = contents q"
  unfolding store_event_def using assms by (intro fill_region_contents) auto

text \<open>Marking what was written into the region as readable appends it.\<close>

lemma region_slot:
  assumes "queue_ok q" "region_ok q first len" "int i < len"
  shows "slot q (nat (mSize q) + i) = nat first + i"
proof -
  have "(mStart q + int (nat (mSize q) + i)) mod mCapacity q = (first + int i) mod mCapacity q"
    using assms by (simp add: region_ok_def queue_ok_def mod_simps add.assoc)
  also have "\<dots> = first + int i"
    using assms by (auto simp: region_ok_def intro!: mod_pos_pos_trivial)
  finally show ?thesis
    using assms by (simp add: slot_def region_ok_def nat_add_distrib)
qed

lemma commit_contents:
  assumes "queue_ok q" "region_ok q first len" "int n \<le> len"
  shows "contents (markAsWritten q (int n))
           = contents q @ map (\<lambda>i. mData q ! (nat first + i)) [0..<n]"
proof -
  have n: "nat (mSize q + int n) = nat (mSize q) + n"
    using assms by (simp add: queue_ok_def nat_add_distrib)
  have s: "slot (markAsWritten q (int n)) = slot q"
    by (simp add: fun_eq_iff slot_def markAsWritten_def)
  show ?thesis
    using region_slot [OF assms(1,2)] assms(3)
    by (simp add: contents_def markAsWritten_def n s [unfolded markAsWritten_def] map_upt_append)
qed

lemma commit_ok:
  assumes "queue_ok q" "region_ok q first len" "int n \<le> len"
  shows "queue_ok (markAsWritten q (int n))"
  using assms by (auto simp: queue_ok_def region_ok_def markAsWritten_def)

lemma fill_ok [simp]: "queue_ok (fill_region q first evs) = queue_ok q"
  by (simp add: queue_ok_def fill_region_def)

lemma fill_region_ok [simp]: "region_ok (fill_region q f evs) first len = region_ok q first len"
  by (simp add: region_ok_def fill_region_def)

section \<open>The interfaces the multihal relies on\<close>

text \<open>What \<open>poll\<close> uses of a queue: it peeks and dequeues, and sees a FIFO list.\<close>

locale fifo_reader =
  fixes ok :: "'q \<Rightarrow> bool"
    and items :: "'q \<Rightarrow> 'e list"
    and look :: "'q \<Rightarrow> 'e option"
    and drop_first :: "'q \<Rightarrow> 'q"
  assumes look_items: "ok q \<Longrightarrow> look q = (case items q of [] \<Rightarrow> None | e # _ \<Rightarrow> Some e)"
    and drop_items: "ok q \<Longrightarrow> items (drop_first q) = tl (items q)"
    and drop_ok: "ok q \<Longrightarrow> ok (drop_first q)"
begin

lemma look_None: "ok q \<Longrightarrow> look q = None \<longleftrightarrow> items q = []"
  by (simp add: look_items split: list.split)

lemma look_Some: "ok q \<Longrightarrow> look q = Some e \<longleftrightarrow> (\<exists>es. items q = e # es)"
  by (auto simp: look_items split: list.split)

lemma look_then_drop: "ok q \<Longrightarrow> look q = Some e \<Longrightarrow> items q = e # items (drop_first q)"
  by (auto simp: look_Some drop_items)

end

text \<open>
  What \<open>writerTask\<close> uses: a region stays valid while the reader dequeues and while the device
  stores into it, storing never changes the readable items, and committing appends what was stored.
\<close>

locale fifo_writer = fifo_reader ok items look drop_first
  for ok :: "'q \<Rightarrow> bool" and items :: "'q \<Rightarrow> 'e list"
    and look :: "'q \<Rightarrow> 'e option" and drop_first :: "'q \<Rightarrow> 'q" +
  fixes region :: "'q \<Rightarrow> int \<Rightarrow> int \<Rightarrow> bool"
    and cell :: "'q \<Rightarrow> nat \<Rightarrow> 'e"
    and store :: "'q \<Rightarrow> int \<Rightarrow> 'e \<Rightarrow> 'q"
    and commit :: "'q \<Rightarrow> int \<Rightarrow> 'q"
  assumes region_drop: "ok q \<Longrightarrow> region q f n \<Longrightarrow> region (drop_first q) f n"
    and cell_drop: "cell (drop_first q) j = cell q j"
    and store_ok: "ok q \<Longrightarrow> ok (store q i e)"
    and store_region: "region q f n \<Longrightarrow> region (store q i e) f n"
    and store_items: "ok q \<Longrightarrow> region q f n \<Longrightarrow> f \<le> i \<Longrightarrow> i < f + n \<Longrightarrow> items (store q i e) = items q"
    and store_cell: "ok q \<Longrightarrow> region q f n \<Longrightarrow> f \<le> i \<Longrightarrow> i < f + n \<Longrightarrow>
           cell (store q i e) j = (if j = nat i then e else cell q j)"
    and commit_ok: "ok q \<Longrightarrow> region q f n \<Longrightarrow> int k \<le> n \<Longrightarrow> ok (commit q (int k))"
    and commit_items: "ok q \<Longrightarrow> region q f n \<Longrightarrow> int k \<le> n \<Longrightarrow>
           items (commit q (int k)) = items q @ map (\<lambda>i. cell q (nat f + i)) [0..<k]"
begin

text \<open>The writer's view between \<open>getWritableRegion\<close> and \<open>markAsWritten\<close>: the events stored so
  far are in the region's first slots.\<close>

definition stored :: "'q \<Rightarrow> int \<Rightarrow> int \<Rightarrow> 'e list \<Rightarrow> bool" where
  "stored q f n evs \<longleftrightarrow>
     region q f n \<and> 0 \<le> f \<and> int (length evs) \<le> n \<and> (\<forall>i < length evs. cell q (nat f + i) = evs ! i)"

lemma stored_drop: "ok q \<Longrightarrow> stored q f n evs \<Longrightarrow> stored (drop_first q) f n evs"
  by (simp add: stored_def region_drop cell_drop)

lemma stored_store:
  assumes "ok q" "stored q f n evs" "int (length evs) < n"
  shows "stored (store q (f + int (length evs)) e) f n (evs @ [e])"
    and "items (store q (f + int (length evs)) e) = items q"
proof -
  have r: "region q f n" "0 \<le> f" using assms by (auto simp: stored_def)
  have c: "cell (store q (f + int (length evs)) e) j
      = (if j = nat f + length evs then e else cell q j)" for j
    using assms r by (simp add: store_cell [where f = f and n = n] nat_add_distrib)
  show "stored (store q (f + int (length evs)) e) f n (evs @ [e])"
    using assms r by (auto simp: stored_def store_region c nth_append less_Suc_eq)
  show "items (store q (f + int (length evs)) e) = items q"
    using assms r by (simp add: store_items)
qed

lemma stored_commit:
  assumes "ok q" "stored q f n evs"
  shows "items (commit q (int (length evs))) = items q @ evs"
    and "ok (commit q (int (length evs)))"
proof -
  have "map (\<lambda>i. cell q (nat f + i)) [0..<length evs] = evs"
    using assms by (intro nth_equalityI) (auto simp: stored_def)
  then show "items (commit q (int (length evs))) = items q @ evs"
    using assms by (auto simp: stored_def commit_items [where f = f and n = n])
  show "ok (commit q (int (length evs)))"
    using assms by (auto simp: stored_def intro: commit_ok)
qed

end

interpretation sq: fifo_writer queue_ok contents peek "\<lambda>q. snd (dequeue q)"
  region_ok "\<lambda>q j. mData q ! j" store_event markAsWritten
proof unfold_locales
  fix q :: "'e sensor_queue" and f n i :: int and j k :: nat and e :: 'e
  show "queue_ok q \<Longrightarrow> peek q = (case contents q of [] \<Rightarrow> None | e # _ \<Rightarrow> Some e)"
    by (rule peek_contents)
  show "queue_ok q \<Longrightarrow> contents (snd (dequeue q)) = tl (contents q)"
    by (rule dequeue_contents)
  show "queue_ok q \<Longrightarrow> queue_ok (snd (dequeue q))"
    by (rule dequeue_ok)
  show "queue_ok q \<Longrightarrow> region_ok q f n \<Longrightarrow> region_ok (snd (dequeue q)) f n"
    by (rule dequeue_region)
  show "mData (snd (dequeue q)) ! j = mData q ! j"
    by (simp add: dequeue_def)
  show "queue_ok q \<Longrightarrow> queue_ok (store_event q i e)"
    by (simp add: store_event_def)
  show "region_ok q f n \<Longrightarrow> region_ok (store_event q i e) f n"
    by (simp add: store_event_def)
  show "queue_ok q \<Longrightarrow> region_ok q f n \<Longrightarrow> f \<le> i \<Longrightarrow> i < f + n \<Longrightarrow> contents (store_event q i e) = contents q"
    by (rule store_event_contents)
  show "queue_ok q \<Longrightarrow> region_ok q f n \<Longrightarrow> f \<le> i \<Longrightarrow> i < f + n \<Longrightarrow>
      mData (store_event q i e) ! j = (if j = nat i then e else mData q ! j)"
    by (auto simp: store_event_def fill_region_def queue_ok_def region_ok_def)
  show "queue_ok q \<Longrightarrow> region_ok q f n \<Longrightarrow> int k \<le> n \<Longrightarrow> queue_ok (markAsWritten q (int k))"
    by (rule commit_ok)
  show "queue_ok q \<Longrightarrow> region_ok q f n \<Longrightarrow> int k \<le> n \<Longrightarrow>
      contents (markAsWritten q (int k)) = contents q @ map (\<lambda>i. mData q ! (nat f + i)) [0..<k]"
    by (rule commit_contents)
qed

text \<open>A full queue is the one state in which the writer blocks, and the dequeue that ends that state
  broadcasts the condition it waits on.\<close>

lemma blocked_writer_is_woken:
  assumes "queue_ok q" "waitForSpace_blocks q"
  shows "fst (dequeue q) \<and> \<not> waitForSpace_blocks (snd (dequeue q))"
  using assms by (auto simp: waitForSpace_blocks_def dequeue_def queue_ok_def)

end
