(* ===== verification/Multihal.thy ===== *)
theory Multihal
  imports Sensor_Queue
begin

text \<open>
  \<open>sensors/multihal.cpp\<close>: the sensor multihal. It renumbers the sensors of its sub-HALs with
  global handles, runs one writer thread per sub-HAL into a \<^typ>\<open>'e sensor_queue\<close>, and merges the
  queues round-robin in \<open>poll\<close>. Sub-HAL devices are parameters: their sensor lists, the result of
  opening them and the result of their operations.
\<close>

section \<open>Handles\<close>

datatype FullHandle = FullHandle (moduleIndex: int) (localHandle: int)

text \<open>\<open>operator<\<close>, by which \<open>std::map\<close> orders the handles: it is a linear order.\<close>

definition FullHandle_less :: "FullHandle \<Rightarrow> FullHandle \<Rightarrow> bool" where
  "FullHandle_less this that =
     (if moduleIndex this < moduleIndex that then True
      else if moduleIndex this > moduleIndex that then False
      else localHandle this < localHandle that)"

instantiation FullHandle :: linorder
begin

definition less_FullHandle :: "FullHandle \<Rightarrow> FullHandle \<Rightarrow> bool" where
  "less_FullHandle this that = FullHandle_less this that"

definition less_eq_FullHandle :: "FullHandle \<Rightarrow> FullHandle \<Rightarrow> bool" where
  "less_eq_FullHandle this that \<longleftrightarrow> this < that \<or> this = that"

instance
proof
  fix x y z :: FullHandle
  show "(x < y) = (x \<le> y \<and> \<not> y \<le> x)"
    by (cases x; cases y) (auto simp: less_eq_FullHandle_def less_FullHandle_def FullHandle_less_def split: if_splits)
  show "x \<le> x"
    by (simp add: less_eq_FullHandle_def)
  show "x \<le> y \<Longrightarrow> y \<le> z \<Longrightarrow> x \<le> z"
    by (cases x; cases y; cases z)
      (auto simp: less_eq_FullHandle_def less_FullHandle_def FullHandle_less_def split: if_splits)
  show "x \<le> y \<Longrightarrow> y \<le> x \<Longrightarrow> x = y"
    by (cases x; cases y) (auto simp: less_eq_FullHandle_def less_FullHandle_def FullHandle_less_def split: if_splits)
  show "x \<le> y \<or> y \<le> x"
    by (cases x; cases y) (auto simp: less_eq_FullHandle_def less_FullHandle_def FullHandle_less_def split: if_splits)
qed

end

text \<open>The two file-level \<open>std::map\<close>s and the counter.\<close>

record handles =
  global_to_full :: "int \<rightharpoonup> FullHandle"
  full_to_global :: "FullHandle \<rightharpoonup> int"
  next_global_handle :: int

definition no_handles :: handles where
  "no_handles = \<lparr>global_to_full = Map.empty, full_to_global = Map.empty, next_global_handle = 1\<rparr>"

definition assign_global_handle :: "handles \<Rightarrow> int \<Rightarrow> int \<Rightarrow> int \<times> handles" where
  "assign_global_handle H module_index local_handle =
     (let global_handle = next_global_handle H;
          full_handle = FullHandle module_index local_handle
      in (global_handle,
          H\<lparr>next_global_handle := next_global_handle H + 1,
            full_to_global := (full_to_global H)(full_handle \<mapsto> global_handle),
            global_to_full := (global_to_full H)(global_handle \<mapsto> full_handle)\<rparr>))"

definition get_local_handle :: "handles \<Rightarrow> int \<Rightarrow> int" where
  "get_local_handle H global_handle =
     (case global_to_full H global_handle of None \<Rightarrow> -1 | Some f \<Rightarrow> localHandle f)"

definition get_module_index :: "handles \<Rightarrow> int \<Rightarrow> int" where
  "get_module_index H global_handle =
     (case global_to_full H global_handle of None \<Rightarrow> -1 | Some f \<Rightarrow> moduleIndex f)"

definition get_global_handle :: "handles \<Rightarrow> FullHandle \<Rightarrow> int" where
  "get_global_handle H full_handle =
     (case full_to_global H full_handle of None \<Rightarrow> -1 | Some g \<Rightarrow> g)"

section \<open>Sensors\<close>

text \<open>The constants of \<open>hardware/sensors.h\<close> are kept symbolic; \<open>maxRange\<close> is only ever assigned.\<close>

datatype sensor_type =
  SENSOR_TYPE_META_DATA | SENSOR_TYPE_TILT_DETECTOR | SENSOR_TYPE_PROXIMITY | Sensor_type int

datatype sensor_flag = SENSOR_FLAG_WAKE_UP | SENSOR_FLAG_ON_CHANGE_MODE | Sensor_flag nat

record sensor_t =
  handle :: int
  s_type :: sensor_type
  s_flags :: "sensor_flag set"
  maxRange :: rat
  fifoReservedEventCount :: int
  fifoMaxEventCount :: int

definition fix_sensor_fields :: "sensor_t \<Rightarrow> sensor_t" where
  "fix_sensor_fields s =
     (let s = s\<lparr>fifoReservedEventCount := 0, fifoMaxEventCount := 0\<rparr>
      in case s_type s of
           SENSOR_TYPE_TILT_DETECTOR \<Rightarrow>
             s\<lparr>s_flags := {SENSOR_FLAG_WAKE_UP, SENSOR_FLAG_ON_CHANGE_MODE}\<rparr>
         | SENSOR_TYPE_PROXIMITY \<Rightarrow> s\<lparr>maxRange := 5\<rparr>
         | _ \<Rightarrow> s)"

text \<open>The inner loop of \<open>lazy_init_sensors_list\<close>: one sub-HAL's sensors.\<close>

fun init_module_sensors :: "int \<Rightarrow> sensor_t list \<Rightarrow> handles \<Rightarrow> sensor_t list \<times> handles" where
  "init_module_sensors module_index [] H = ([], H)"
| "init_module_sensors module_index (s # ss) H =
     (let (g, H) = assign_global_handle H module_index (handle s);
          (out, H) = init_module_sensors module_index ss H
      in (fix_sensor_fields (s\<lparr>handle := g\<rparr>) # out, H))"

fun init_modules_sensors :: "int \<Rightarrow> sensor_t list list \<Rightarrow> handles \<Rightarrow> sensor_t list \<times> handles" where
  "init_modules_sensors module_index [] H = ([], H)"
| "init_modules_sensors module_index (m # ms) H =
     (let (out1, H) = init_module_sensors module_index m H;
          (out2, H) = init_modules_sensors (module_index + 1) ms H
      in (out1 @ out2, H))"

text \<open>
  \<open>lazy_init_sensors_list\<close> and \<open>module__get_sensors_list\<close>: the list is built once and cached.
  \<open>modules\<close> gives each sub-HAL's sensor list.
\<close>

record sensor_globals =
  global_sensors_list :: "sensor_t list option"
  sensor_handles :: handles

definition lazy_init_sensors_list :: "sensor_t list list \<Rightarrow> sensor_globals \<Rightarrow> sensor_globals" where
  "lazy_init_sensors_list modules G =
     (case global_sensors_list G of
        Some _ \<Rightarrow> G
      | None \<Rightarrow>
          let (ss, H) = init_modules_sensors 0 modules (sensor_handles G)
          in \<lparr>global_sensors_list = Some ss, sensor_handles = H\<rparr>)"

definition module_get_sensors_list ::
    "sensor_t list list \<Rightarrow> sensor_globals \<Rightarrow> (int \<times> sensor_t list) \<times> sensor_globals" where
  "module_get_sensors_list modules G =
     (let G = lazy_init_sensors_list modules G;
          ss = (case global_sensors_list G of Some ss \<Rightarrow> ss | None \<Rightarrow> [])
      in ((int (length ss), ss), G))"

section \<open>Handle lemmas\<close>

text \<open>Every handle handed out so far is below the counter, and the two maps agree.\<close>

definition handles_ok :: "handles \<Rightarrow> bool" where
  "handles_ok H \<longleftrightarrow>
     1 \<le> next_global_handle H
     \<and> (\<forall>g f. global_to_full H g = Some f \<longrightarrow> 1 \<le> g \<and> g < next_global_handle H)
     \<and> (\<forall>f g. full_to_global H f = Some g \<longrightarrow> global_to_full H g = Some f)"

lemma no_handles_ok: "handles_ok no_handles"
  by (simp add: handles_ok_def no_handles_def)

lemma assign_ok:
  assumes "handles_ok H"
  shows "handles_ok (snd (assign_global_handle H m l))"
proof -
  have "full_to_global H f \<noteq> Some (next_global_handle H)" for f
    using assms by (fastforce simp: handles_ok_def)
  with assms show ?thesis
    by (auto simp: handles_ok_def assign_global_handle_def Let_def)
qed

text \<open>The handles one sub-HAL's sensors get, and what each of the two maps says of them.\<close>

lemma init_module_sensors_ok:
  "handles_ok H \<Longrightarrow> handles_ok (snd (init_module_sensors m ss H))"
proof (induction ss arbitrary: H)
  case (Cons s ss)
  then show ?case
    using assign_ok [of H m "handle s"] by (auto simp: split_beta Let_def)
qed simp

lemma init_modules_sensors_ok:
  "handles_ok H \<Longrightarrow> handles_ok (snd (init_modules_sensors m ms H))"
proof (induction ms arbitrary: m H)
  case (Cons x ms)
  then show ?case
    using init_module_sensors_ok [of H m x] by (auto simp: split_beta Let_def)
qed simp

lemma handle_fix [simp]: "handle (fix_sensor_fields s) = handle s"
  by (simp add: fix_sensor_fields_def Let_def split: sensor_type.split)

lemma init_module_sensors_next:
  "next_global_handle (snd (init_module_sensors m ss H)) = next_global_handle H + int (length ss)"
  by (induction ss arbitrary: H) (auto simp: split_beta Let_def assign_global_handle_def)

lemma init_module_sensors_length: "length (fst (init_module_sensors m ss H)) = length ss"
  by (induction ss arbitrary: H) (auto simp: split_beta Let_def)

lemma init_module_sensors_handles:
  "map handle (fst (init_module_sensors m ss H))
     = map (\<lambda>i. next_global_handle H + int i) [0..<length ss]"
proof (induction ss arbitrary: H)
  case (Cons s ss)
  have "[0..<Suc (length ss)] = 0 # map Suc [0..<length ss]"
    by (simp add: upt_conv_Cons map_Suc_upt del: upt_Suc)
  with Cons show ?case
    by (simp add: split_beta Let_def assign_global_handle_def del: upt_Suc)
qed simp

text \<open>Registering keeps what is already in \<open>global_to_full\<close>, and adds the new sensors to it.\<close>

lemma init_module_sensors_keeps:
  "g < next_global_handle H \<Longrightarrow>
     global_to_full (snd (init_module_sensors m ss H)) g = global_to_full H g"
  by (induction ss arbitrary: H) (auto simp: split_beta Let_def assign_global_handle_def)

lemma init_module_sensors_registers:
  "i < length ss \<Longrightarrow>
     global_to_full (snd (init_module_sensors m ss H)) (next_global_handle H + int i)
       = Some (FullHandle m (handle (ss ! i)))"
proof (induction ss arbitrary: H i)
  case (Cons s ss)
  show ?case
  proof (cases i)
    case 0
    then show ?thesis
      by (simp add: split_beta Let_def assign_global_handle_def init_module_sensors_keeps)
  next
    case (Suc j)
    then show ?thesis
      using Cons.IH [of j "snd (assign_global_handle H m (handle s))"] Cons.prems
      by (simp add: split_beta Let_def assign_global_handle_def add.commute add.left_commute)
  qed
qed simp

lemma init_module_sensors_dom:
  "dom (full_to_global (snd (init_module_sensors m ss H)))
     = dom (full_to_global H) \<union> (\<lambda>s. FullHandle m (handle s)) ` set ss"
  by (induction ss arbitrary: H) (auto simp: split_beta Let_def assign_global_handle_def)

text \<open>All sensors in the order they are registered, each with its module index.\<close>

fun registered :: "int \<Rightarrow> sensor_t list list \<Rightarrow> FullHandle list" where
  "registered m [] = []"
| "registered m (ss # ms) = map (\<lambda>s. FullHandle m (handle s)) ss @ registered (m + 1) ms"

lemma init_modules_sensors_next:
  "next_global_handle (snd (init_modules_sensors m ms H))
     = next_global_handle H + int (length (registered m ms))"
  by (induction ms arbitrary: m H)
    (auto simp: split_beta Let_def init_module_sensors_next)

lemma init_modules_sensors_handles:
  "map handle (fst (init_modules_sensors m ms H))
     = map (\<lambda>i. next_global_handle H + int i) [0..<length (registered m ms)]"
  by (induction ms arbitrary: m H)
    (auto simp: split_beta Let_def init_module_sensors_handles init_module_sensors_next
      map_upt_append add.assoc)

lemma init_modules_sensors_keeps:
  "g < next_global_handle H \<Longrightarrow>
     global_to_full (snd (init_modules_sensors m ms H)) g = global_to_full H g"
  by (induction ms arbitrary: m H)
    (auto simp: split_beta Let_def init_module_sensors_keeps init_module_sensors_next)

lemma init_modules_sensors_registers:
  "i < length (registered m ms) \<Longrightarrow>
     global_to_full (snd (init_modules_sensors m ms H)) (next_global_handle H + int i)
       = Some (registered m ms ! i)"
proof (induction ms arbitrary: m H i)
  case (Cons ss ms)
  let ?H = "snd (init_module_sensors m ss H)"
  show ?case
  proof (cases "i < length ss")
    case True
    then show ?thesis
      by (simp add: split_beta Let_def init_modules_sensors_keeps init_module_sensors_next
          init_module_sensors_registers nth_append)
  next
    case False
    then show ?thesis
      using Cons.IH [of "i - length ss" "m + 1" ?H] Cons.prems
      by (simp add: split_beta Let_def init_module_sensors_next nth_append)
  qed
qed simp

lemma init_modules_sensors_dom:
  "dom (full_to_global (snd (init_modules_sensors m ms H)))
     = dom (full_to_global H) \<union> set (registered m ms)"
  by (induction ms arbitrary: m H)
    (auto simp: split_beta Let_def init_module_sensors_dom simp del: dom_eq_empty_conv)

lemma full_to_global_registered:
  assumes d: "distinct (registered 0 ms)" and i: "i < length (registered 0 ms)"
  shows "full_to_global (snd (init_modules_sensors 0 ms no_handles)) (registered 0 ms ! i)
           = Some (1 + int i)"
proof -
  let ?H = "snd (init_modules_sensors 0 ms no_handles)" and ?r = "registered 0 ms"
  have ok: "handles_ok ?H" by (intro init_modules_sensors_ok no_handles_ok)
  have "?r ! i \<in> dom (full_to_global ?H)"
    using i by (simp add: init_modules_sensors_dom del: dom_eq_empty_conv)
  then obtain g where g: "full_to_global ?H (?r ! i) = Some g" by auto
  with ok have gf: "global_to_full ?H g = Some (?r ! i)" and "1 \<le> g" "g < next_global_handle ?H"
    by (auto simp: handles_ok_def)
  then have k: "nat (g - 1) < length ?r" "1 + int (nat (g - 1)) = g"
    by (auto simp: init_modules_sensors_next no_handles_def)
  then have "?r ! nat (g - 1) = ?r ! i"
    using init_modules_sensors_registers [of "nat (g - 1)" 0 ms no_handles] gf
    by (simp add: no_handles_def)
  with d i k show ?thesis using g by (metis nth_eq_iff_index_eq)
qed

section \<open>The writer thread of one sub-HAL against the reader\<close>

definition SENSOR_EVENT_QUEUE_CAPACITY :: int where
  "SENSOR_EVENT_QUEUE_CAPACITY = 36"

text \<open>
  Where \<open>writerTask\<close> stands: before the first lock, inside \<open>device->poll\<close> (which runs without the
  lock and has stored \<open>evs\<close> so far into the region), or between \<open>poll\<close>'s return and
  \<open>markAsWritten\<close>.
\<close>

datatype 'e writer_pc =
    W_loop
  | W_polling int int "'e list"
  | W_polled int int "'e list"

text \<open>\<open>committed\<close> and \<open>delivered\<close> are histories: what was marked as written and what the reader took.\<close>

record 'e channel =
  queue :: "'e sensor_queue"
  pc :: "'e writer_pc"
  committed :: "'e list"
  delivered :: "'e list"

text \<open>
  Each rule is one stretch of code between points where the other thread may run. The device stores
  one event at a time, so the reader can dequeue between two stores.
\<close>

inductive channel_step :: "'e channel \<Rightarrow> 'e channel \<Rightarrow> bool" where
  get_region:
    "pc c = W_loop \<Longrightarrow> \<not> waitForSpace_blocks (queue c) \<Longrightarrow>
     getWritableRegion (queue c) SENSOR_EVENT_QUEUE_CAPACITY = (len, Some first) \<Longrightarrow>
     channel_step c (c\<lparr>pc := W_polling first len []\<rparr>)"
| device_stores:
    "pc c = W_polling first len evs \<Longrightarrow> int (length evs) < len \<Longrightarrow>
     channel_step c (c\<lparr>queue := store_event (queue c) (first + int (length evs)) e,
                       pc := W_polling first len (evs @ [e])\<rparr>)"
| poll_failed:
    "pc c = W_polling first len evs \<Longrightarrow> channel_step c (c\<lparr>pc := W_loop\<rparr>)"
| poll_returned:
    "pc c = W_polling first len evs \<Longrightarrow> evs \<noteq> [] \<Longrightarrow>
     channel_step c (c\<lparr>pc := W_polled first len evs\<rparr>)"
| mark_written:
    "pc c = W_polled first len evs \<Longrightarrow>
     channel_step c (c\<lparr>queue := markAsWritten (queue c) (int (length evs)),
                       pc := W_loop, committed := committed c @ evs\<rparr>)"
| reader_takes:
    "peek (queue c) = Some e \<Longrightarrow>
     channel_step c (c\<lparr>queue := snd (dequeue (queue c)), delivered := delivered c @ [e]\<rparr>)"

inductive channel_reachable :: "'e channel \<Rightarrow> bool" where
  opened: "channel_reachable
     \<lparr>queue = SensorEventQueue SENSOR_EVENT_QUEUE_CAPACITY junk, pc = W_loop,
      committed = [], delivered = []\<rparr>"
| stepped: "channel_reachable c \<Longrightarrow> channel_step c d \<Longrightarrow> channel_reachable d"

definition pc_ok :: "'e sensor_queue \<Rightarrow> 'e writer_pc \<Rightarrow> bool" where
  "pc_ok q p = (case p of
       W_loop \<Rightarrow> True
     | W_polling first len evs \<Rightarrow> sq.stored q first len evs
     | W_polled first len evs \<Rightarrow> sq.stored q first len evs)"

definition channel_ok :: "'e channel \<Rightarrow> bool" where
  "channel_ok c \<longleftrightarrow>
     queue_ok (queue c) \<and> pc_ok (queue c) (pc c)
     \<and> committed c = delivered c @ contents (queue c)"

lemma channel_step_ok: "channel_step c d \<Longrightarrow> channel_ok c \<Longrightarrow> channel_ok d"
proof (induction rule: channel_step.induct)
  case (get_region c len first)
  then have "region_ok (queue c) first len"
    using getWritableRegion_region [of "queue c" SENSOR_EVENT_QUEUE_CAPACITY]
    by (auto simp: channel_ok_def waitForSpace_blocks_def SENSOR_EVENT_QUEUE_CAPACITY_def)
  with get_region show ?case
    by (auto simp: channel_ok_def pc_ok_def sq.stored_def region_ok_def)
next
  case (device_stores c first len evs e)
  then show ?case
    by (auto simp: channel_ok_def pc_ok_def sq.stored_store intro: sq.store_ok)
next
  case (mark_written c first len evs)
  then show ?case
    by (auto simp: channel_ok_def pc_ok_def sq.stored_commit)
next
  case (reader_takes c e)
  then have "contents (queue c) = e # contents (snd (dequeue (queue c)))"
    by (intro sq.look_then_drop) (auto simp: channel_ok_def)
  with reader_takes show ?case
    by (auto simp: channel_ok_def pc_ok_def sq.drop_ok sq.stored_drop split: writer_pc.split)
qed (auto simp: channel_ok_def pc_ok_def)

lemma channel_reachable_ok: "channel_reachable c \<Longrightarrow> channel_ok c"
proof (induction rule: channel_reachable.induct)
  case (opened junk)
  show ?case
    by (simp add: channel_ok_def pc_ok_def new_queue_ok new_queue_empty
        SENSOR_EVENT_QUEUE_CAPACITY_def)
next
  case (stepped c d)
  then show ?case by (blast intro: channel_step_ok)
qed

section \<open>Merging the queues: poll\<close>

record sensors_event =
  ev_type :: sensor_type
  sensor :: int
  meta_sensor :: int
  ev_data :: "int list"

definition copy_event_remap_handle :: "handles \<Rightarrow> sensors_event \<Rightarrow> int \<Rightarrow> sensors_event" where
  "copy_event_remap_handle H src sub_index =
     (if ev_type src = SENSOR_TYPE_META_DATA
      then src\<lparr>meta_sensor := get_global_handle H (FullHandle sub_index (meta_sensor src))\<rparr>
      else src\<lparr>sensor := get_global_handle H (FullHandle sub_index (sensor src))\<rparr>)"

text \<open>
  The two nested loops of \<open>poll\<close> under the lock. \<open>data\<close> holds the \<open>eventsRead\<close> events accepted so
  far. \<open>None\<close> would be a scan that never ends.
\<close>

type_synonym event_queues = "sensors_event sensor_queue list"

partial_function (option) poll_scan ::
    "handles \<Rightarrow> int \<Rightarrow> event_queues \<Rightarrow> int \<Rightarrow> int \<Rightarrow> sensors_event list
      \<Rightarrow> (sensors_event list \<times> event_queues \<times> int) option" where
  "poll_scan H maxReads queues nextReadIndex empties data =
     (if empties < int (length queues) \<and> int (length data) < maxReads then
        (let q = queues ! nat nextReadIndex; next = (nextReadIndex + 1) smod int (length queues)
         in case peek q of
              None \<Rightarrow> poll_scan H maxReads queues next (empties + 1) data
            | Some event \<Rightarrow>
                let e = copy_event_remap_handle H event nextReadIndex
                in poll_scan H maxReads (queues[nat nextReadIndex := snd (dequeue q)]) next 0
                     (if sensor e = -1 then data else data @ [e]))
      else Some (data, queues, nextReadIndex))"

text \<open>
  One round of \<open>poll\<close>: \<open>Inr data\<close> is the return of \<open>poll\<close>; \<open>Inl ()\<close> is the wait on
  \<open>data_available_cond\<close>, after which the next round starts again with \<open>empties = 0\<close>.
\<close>

definition poll_round ::
    "handles \<Rightarrow> int \<Rightarrow> event_queues \<Rightarrow> int
      \<Rightarrow> ((unit + sensors_event list) \<times> event_queues \<times> int) option" where
  "poll_round H maxReads queues nextReadIndex =
     map_option (\<lambda>(data, qs, n). (if data = [] then Inl () else Inr data, qs, n))
       (poll_scan H maxReads queues nextReadIndex 0 [])"

text \<open>
  A scan is described by its trace: which queue each event was taken from, in the order taken.
  \<open>accepted\<close> is what \<open>poll\<close> passes on of it.
\<close>

definition accepted :: "handles \<Rightarrow> (nat \<times> sensors_event) list \<Rightarrow> sensors_event list" where
  "accepted H tr =
     filter (\<lambda>e. sensor e \<noteq> -1) (map (\<lambda>(i, e). copy_event_remap_handle H e (int i)) tr)"

definition taken_from :: "nat \<Rightarrow> (nat \<times> sensors_event) list \<Rightarrow> sensors_event list" where
  "taken_from i tr = map snd (filter (\<lambda>(j, e). j = i) tr)"

definition scan_ok :: "event_queues \<Rightarrow> int \<Rightarrow> int \<Rightarrow> bool" where
  "scan_ok qs next empties \<longleftrightarrow>
     (\<forall>q \<in> set qs. queue_ok q) \<and> 0 \<le> empties \<and> empties \<le> int (length qs)
     \<and> (qs \<noteq> [] \<longrightarrow> 0 \<le> next \<and> next < int (length qs))
     \<and> (\<forall>k. 0 \<le> k \<and> k < empties \<longrightarrow>
            contents (qs ! nat ((next - 1 - k) mod int (length qs))) = [])"

definition scan_spec :: "handles \<Rightarrow> int \<Rightarrow> event_queues \<Rightarrow> sensors_event list
    \<Rightarrow> sensors_event list \<times> event_queues \<times> int \<Rightarrow> bool" where
  "scan_spec H maxReads qs data = (\<lambda>(data', qs', next').
     \<exists>tr. data' = data @ accepted H tr
       \<and> length qs' = length qs \<and> (\<forall>q \<in> set qs'. queue_ok q)
       \<and> (qs \<noteq> [] \<longrightarrow> 0 \<le> next' \<and> next' < int (length qs))
       \<and> int (length data') \<le> max maxReads (int (length data))
       \<and> (\<forall>i < length qs. contents (qs ! i) = taken_from i tr @ contents (qs' ! i))
       \<and> (int (length data') < maxReads \<longrightarrow> (\<forall>q \<in> set qs'. contents q = [])))"

definition scan_work :: "event_queues \<Rightarrow> int \<Rightarrow> nat" where
  "scan_work qs empties =
     (\<Sum>q \<leftarrow> qs. length (contents q)) * Suc (length qs) + (length qs - nat empties)"

lemma taken_from_Nil [simp]: "taken_from i [] = []"
  by (simp add: taken_from_def)

lemma taken_from_Cons:
  "taken_from i ((j, e) # tr) = (if j = i then e # taken_from i tr else taken_from i tr)"
  by (simp add: taken_from_def)

lemma accepted_Cons:
  "accepted H ((i, e) # tr) =
     (let e' = copy_event_remap_handle H e (int i)
      in if sensor e' = -1 then accepted H tr else e' # accepted H tr)"
  by (simp add: accepted_def Let_def)

text \<open>When a full turn found only empty queues, every queue is empty.\<close>

lemma full_turn_empty:
  assumes "scan_ok qs next (int (length qs))" "q \<in> set qs"
  shows "contents q = []"
proof -
  let ?n = "int (length qs)"
  from assms obtain i where i: "i < length qs" "q = qs ! i" by (auto simp: in_set_conv_nth)
  define k where "k = (next - 1 - int i) mod ?n"
  have "0 < ?n" using i by linarith
  then have "0 \<le> k" "k < ?n" by (simp_all add: k_def)
  then have "contents (qs ! nat ((next - 1 - k) mod ?n)) = []"
    using assms by (simp add: scan_ok_def)
  moreover have "(next - 1 - k) mod ?n = int i mod ?n"
    by (simp add: k_def mod_simps)
  ultimately show ?thesis using i by simp
qed

lemma scan_ok_skip:
  assumes "scan_ok qs next empties" "empties < int (length qs)" "contents (qs ! nat next) = []"
  shows "scan_ok qs ((next + 1) smod int (length qs)) (empties + 1)"
proof -
  let ?n = "int (length qs)"
  have n: "0 \<le> next" "next < ?n" "0 < ?n" using assms by (auto simp: scan_ok_def)
  have "contents (qs ! nat (((next + 1) mod ?n - 1 - k) mod ?n)) = []"
    if k: "0 \<le> k" "k < empties + 1" for k
  proof -
    have "((next + 1) mod ?n - (1 + k)) mod ?n = (next + 1 - (1 + k)) mod ?n"
      by (rule mod_diff_left_eq)
    then have e: "((next + 1) mod ?n - 1 - k) mod ?n = (next - k) mod ?n"
      by (simp add: diff_diff_eq)
    show ?thesis
    proof (cases "k = 0")
      case True
      with n e assms(3) show ?thesis by simp
    next
      case False
      then have "contents (qs ! nat ((next - 1 - (k - 1)) mod ?n)) = []"
        using assms(1) k unfolding scan_ok_def by (elim conjE allE [of _ "k - 1"]) simp
      with e show ?thesis by simp
    qed
  qed
  with assms n show ?thesis by (simp add: scan_ok_def smod_nonneg)
qed

lemma scan_ok_take:
  assumes "scan_ok qs next empties" "empties < int (length qs)"
  shows "scan_ok (qs[nat next := snd (dequeue (qs ! nat next))])
           ((next + 1) smod int (length qs)) 0"
proof -
  have "nat next < length qs" using assms by (auto simp: scan_ok_def)
  with assms show ?thesis
    by (auto simp: scan_ok_def smod_nonneg dest!: set_update_subset_insert [THEN subsetD]
        intro: dequeue_ok)
qed

lemma scan_work_skip:
  "0 \<le> empties \<Longrightarrow> empties < int (length qs) \<Longrightarrow> scan_work qs (empties + 1) < scan_work qs empties"
  by (simp add: scan_work_def nat_add_distrib)

lemma scan_work_take:
  assumes "i < length qs" "contents q' = tl (contents (qs ! i))" "contents (qs ! i) \<noteq> []"
  shows "scan_work (qs[i := q']) 0 < scan_work qs empties"
proof -
  let ?f = "\<lambda>q. length (contents q)"
  have "?f (qs ! i) \<le> sum_list (map ?f qs)"
    using assms(1) elem_le_sum_list [of i "map ?f qs"] by simp
  then have "sum_list (map ?f (qs[i := q'])) + ?f (qs ! i) = sum_list (map ?f qs) + ?f q'"
    using assms(1) by (simp add: map_update sum_list_update)
  moreover have "?f (qs ! i) = Suc (?f q')"
    using assms by (cases "contents (qs ! i)") auto
  ultimately have "sum_list (map ?f qs) = Suc (sum_list (map ?f (qs[i := q'])))" by simp
  then show ?thesis by (simp add: scan_work_def)
qed

lemma scan_spec_stop:
  assumes "scan_ok qs next empties" "\<not> (empties < int (length qs) \<and> int (length data) < maxReads)"
  shows "scan_spec H maxReads qs data (data, qs, next)"
proof -
  have "contents q = []" if "int (length data) < maxReads" "q \<in> set qs" for q
    using assms that full_turn_empty [of qs "next" q] by (auto simp: scan_ok_def)
  with assms show ?thesis
    by (auto simp: scan_spec_def scan_ok_def accepted_def intro!: exI [of _ "[]"])
qed

lemma scan_spec_take:
  assumes "i < length qs" "contents (qs ! i) = e # contents q'"
    and data': "data' = (let e' = copy_event_remap_handle H e (int i)
                    in if sensor e' = -1 then data else data @ [e'])"
    and "int (length data) < maxReads"
    and spec: "scan_spec H maxReads (qs[i := q']) data' r"
  shows "scan_spec H maxReads qs data r"
proof -
  obtain d qs' n where r1: "r = (d, qs', n)" by (cases r)
  obtain tr where r: "d = data' @ accepted H tr"
    and len: "length qs' = length qs" "\<forall>q \<in> set qs'. queue_ok q"
      "qs \<noteq> [] \<longrightarrow> 0 \<le> n \<and> n < int (length qs)"
    and max: "int (length d) \<le> max maxReads (int (length data'))"
    and c: "\<forall>j < length qs. contents (qs[i := q'] ! j) = taken_from j tr @ contents (qs' ! j)"
    and stop: "int (length d) < maxReads \<longrightarrow> (\<forall>q \<in> set qs'. contents q = [])"
    using spec unfolding r1 scan_spec_def by (simp only: prod.case length_list_update list_update_nonempty) blast
  have "d = data @ accepted H ((i, e) # tr)"
    using r data' by (auto simp: accepted_Cons Let_def)
  moreover have "int (length data') \<le> maxReads"
    using data' assms(4) by (auto simp: Let_def)
  moreover have "contents (qs ! j) = taken_from j ((i, e) # tr) @ contents (qs' ! j)"
    if "j < length qs" for j
    using c assms(1,2) that by (cases "j = i") (auto simp: taken_from_Cons)
  ultimately show ?thesis
    using r1 len max stop by (auto simp: scan_spec_def intro!: exI [of _ "(i, e) # tr"])
qed

text \<open>The scan ends, and its result satisfies the specification.\<close>

lemma poll_scan_correct:
  "scan_ok qs next empties \<Longrightarrow>
     \<exists>r. poll_scan H maxReads qs next empties data = Some r \<and> scan_spec H maxReads qs data r"
proof (induction "scan_work qs empties" arbitrary: qs "next" empties data rule: less_induct)
  case less
  let ?go = "empties < int (length qs) \<and> int (length data) < maxReads"
  let ?q = "qs ! nat next" and ?next = "(next + 1) smod int (length qs)"
  show ?case
  proof (cases ?go)
    case False
    with less.prems scan_spec_stop show ?thesis
      by (subst poll_scan.simps) auto
  next
    case True
    then have i: "nat next < length qs" "int (nat next) = next" and q: "queue_ok ?q"
      using less.prems by (auto simp: scan_ok_def)
    show ?thesis
    proof (cases "peek ?q")
      case None
      then have "contents ?q = []" using q sq.look_None by blast
      then have "scan_ok qs ?next (empties + 1)"
        using scan_ok_skip less.prems True by blast
      moreover have "scan_work qs (empties + 1) < scan_work qs empties"
        using True less.prems by (intro scan_work_skip) (auto simp: scan_ok_def)
      ultimately obtain r where
        "poll_scan H maxReads qs ?next (empties + 1) data = Some r \<and> scan_spec H maxReads qs data r"
        using less.hyps by blast
      with True None show ?thesis by (subst poll_scan.simps) (simp add: Let_def)
    next
      case (Some e)
      let ?q' = "snd (dequeue ?q)" and ?e = "copy_event_remap_handle H e next"
      let ?data = "if sensor ?e = -1 then data else data @ [?e]"
      have c: "contents ?q = e # contents ?q'" using q Some by (rule sq.look_then_drop)
      have "scan_work (qs[nat next := ?q']) 0 < scan_work qs empties"
        using i c by (intro scan_work_take) auto
      moreover have "scan_ok (qs[nat next := ?q']) ?next 0"
        using scan_ok_take less.prems True by blast
      ultimately obtain r where
        r: "poll_scan H maxReads (qs[nat next := ?q']) ?next 0 ?data = Some r"
           "scan_spec H maxReads (qs[nat next := ?q']) ?data r"
        using less.hyps by blast
      have "scan_spec H maxReads qs data r"
        using r(2) i True c by (intro scan_spec_take [of "nat next" qs e ?q' ?data]) (auto simp: Let_def)
      with r True Some show ?thesis by (subst poll_scan.simps) (simp add: Let_def)
    qed
  qed
qed

section \<open>The device: opening the sub-HALs and routing calls to them\<close>

record 'd sensors_poll_context =
  sub_hw_devices :: "'d list"
  queues :: event_queues
  nextReadIndex :: int

definition addSubHwDevice ::
    "(nat \<Rightarrow> sensors_event) \<Rightarrow> 'd \<Rightarrow> 'd sensors_poll_context \<Rightarrow> 'd sensors_poll_context" where
  "addSubHwDevice junk sub_hw_device ctx =
     ctx\<lparr>sub_hw_devices := sub_hw_devices ctx @ [sub_hw_device],
         queues := queues ctx @ [SensorEventQueue SENSOR_EVENT_QUEUE_CAPACITY junk]\<rparr>"

text \<open>
  \<open>open_sensors\<close>: \<open>opened\<close> lists, for each sub-module, the result of its \<open>open\<close> and the device it
  stored. A sub-module that fails to open is skipped.
\<close>

fun open_sub_modules ::
    "(nat \<Rightarrow> sensors_event) \<Rightarrow> (int \<times> 'd) list \<Rightarrow> 'd sensors_poll_context \<Rightarrow> 'd sensors_poll_context"
  where
  "open_sub_modules junk [] ctx = ctx"
| "open_sub_modules junk ((sub_open_result, d) # opened) ctx =
     open_sub_modules junk opened
       (if sub_open_result = 0 then addSubHwDevice junk d ctx else ctx)"

definition open_sensors :: "(nat \<Rightarrow> sensors_event) \<Rightarrow> (int \<times> 'd) list \<Rightarrow> 'd sensors_poll_context" where
  "open_sensors junk opened =
     open_sub_modules junk opened \<lparr>sub_hw_devices = [], queues = [], nextReadIndex = 0\<rparr>"

definition get_v0_device_by_handle :: "handles \<Rightarrow> 'd sensors_poll_context \<Rightarrow> int \<Rightarrow> 'd option" where
  "get_v0_device_by_handle H ctx global_handle =
     (let sub_index = get_module_index H global_handle
      in if sub_index < 0 \<or> sub_index \<ge> int (length (sub_hw_devices ctx)) then None
         else Some (sub_hw_devices ctx ! nat sub_index))"

definition get_v1_device_by_handle :: "handles \<Rightarrow> 'd sensors_poll_context \<Rightarrow> int \<Rightarrow> 'd option" where
  "get_v1_device_by_handle H ctx global_handle =
     (let sub_index = get_module_index H global_handle
      in if sub_index < 0 \<or> sub_index \<ge> int (length (sub_hw_devices ctx)) then None
         else Some (sub_hw_devices ctx ! nat sub_index))"

definition get_device_version_by_handle ::
    "('d \<Rightarrow> int) \<Rightarrow> handles \<Rightarrow> 'd sensors_poll_context \<Rightarrow> int \<Rightarrow> int" where
  "get_device_version_by_handle version H ctx h =
     (case get_v0_device_by_handle H ctx h of Some v0 \<Rightarrow> version v0 | None \<Rightarrow> -1)"

text \<open>The code calls through the device pointer without a test; a null pointer is a crash.\<close>

datatype 'r outcome = NullDeref | Returns 'r

text \<open>The sub-HAL's operation is the first argument: it takes its device and the local handle.\<close>

definition activate ::
    "('d \<Rightarrow> int \<Rightarrow> int \<Rightarrow> int) \<Rightarrow> handles \<Rightarrow> 'd sensors_poll_context \<Rightarrow> int \<Rightarrow> int \<Rightarrow> int outcome" where
  "activate dev_activate H ctx h enabled =
     (let local_handle = get_local_handle H h
      in case get_v0_device_by_handle H ctx h of
           None \<Rightarrow> NullDeref
         | Some v0 \<Rightarrow> Returns (dev_activate v0 local_handle enabled))"

definition setDelay ::
    "('d \<Rightarrow> int \<Rightarrow> int \<Rightarrow> int) \<Rightarrow> handles \<Rightarrow> 'd sensors_poll_context \<Rightarrow> int \<Rightarrow> int \<Rightarrow> int outcome" where
  "setDelay dev_setDelay H ctx h ns =
     (let local_handle = get_local_handle H h
      in case get_v0_device_by_handle H ctx h of
           None \<Rightarrow> NullDeref
         | Some v0 \<Rightarrow> Returns (dev_setDelay v0 local_handle ns))"

definition batch ::
    "('d \<Rightarrow> int \<Rightarrow> int \<Rightarrow> int \<Rightarrow> int \<Rightarrow> int) \<Rightarrow> handles \<Rightarrow> 'd sensors_poll_context
      \<Rightarrow> int \<Rightarrow> int \<Rightarrow> int \<Rightarrow> int \<Rightarrow> int outcome" where
  "batch dev_batch H ctx h flags period_ns timeout =
     (let local_handle = get_local_handle H h
      in case get_v1_device_by_handle H ctx h of
           None \<Rightarrow> NullDeref
         | Some v1 \<Rightarrow> Returns (dev_batch v1 local_handle flags period_ns timeout))"

definition flush_sensor ::
    "('d \<Rightarrow> int \<Rightarrow> int) \<Rightarrow> handles \<Rightarrow> 'd sensors_poll_context \<Rightarrow> int \<Rightarrow> int outcome" where
  "flush_sensor dev_flush H ctx h =
     (let local_handle = get_local_handle H h
      in case get_v1_device_by_handle H ctx h of
           None \<Rightarrow> NullDeref
         | Some v1 \<Rightarrow> Returns (dev_flush v1 local_handle))"

text \<open>The entries of the proxy device's function table.\<close>

definition device_batch ::
    "('d \<Rightarrow> int \<Rightarrow> int \<Rightarrow> int) \<Rightarrow> handles \<Rightarrow> 'd sensors_poll_context
      \<Rightarrow> int \<Rightarrow> int \<Rightarrow> int \<Rightarrow> int \<Rightarrow> int outcome" where
  "device_batch dev_setDelay H ctx h flags period_ns timeout =
     (case setDelay dev_setDelay H ctx h period_ns of
        NullDeref \<Rightarrow> NullDeref
      | Returns _ \<Rightarrow> Returns 0)"

definition device_flush :: "int \<Rightarrow> int" where
  "device_flush h = -EINVAL"

lemma open_sub_modules_devices:
  "sub_hw_devices (open_sub_modules junk opened ctx)
     = sub_hw_devices ctx @ map snd (filter (\<lambda>(r, d). r = 0) opened)"
  by (induction junk opened ctx rule: open_sub_modules.induct) (auto simp: addSubHwDevice_def)

lemma open_sub_modules_queues:
  "queues (open_sub_modules junk opened ctx)
     = queues ctx @ replicate (length (filter (\<lambda>(r, d). r = 0) opened))
         (SensorEventQueue SENSOR_EVENT_QUEUE_CAPACITY junk)"
  by (induction junk opened ctx rule: open_sub_modules.induct) (auto simp: addSubHwDevice_def)

lemma all_opened_devices:
  "\<forall>(r, d) \<in> set opened. r = 0 \<Longrightarrow> sub_hw_devices (open_sensors junk opened) = map snd opened"
  by (simp add: open_sensors_def open_sub_modules_devices filter_id_conv split_beta)

lemma registered_module:
  "f \<in> set (registered m ms) \<Longrightarrow> m \<le> moduleIndex f \<and> moduleIndex f < m + int (length ms)"
  by (induction ms arbitrary: m) fastforce+

section \<open>Properties of the multihal\<close>

text \<open>
  C8. The writer thread and the reader never lose, duplicate, reorder or overwrite an event: at any
  interleaving of the unlocked device stores, the commits and the dequeues, what was committed is
  exactly what was delivered followed by what the queue still holds, and the queue never holds more
  than its capacity.
\<close>

theorem channel_fifo:
  assumes "channel_reachable c"
  shows "committed c = delivered c @ contents (queue c)
    \<and> 0 \<le> getSize (queue c) \<and> getSize (queue c) \<le> mCapacity (queue c)"
  using channel_reachable_ok [OF assms] by (simp add: channel_ok_def queue_ok_def getSize_def)

text \<open>A run: the writer takes a region and its device stores one event that is not committed yet.\<close>

lemma channel_reachable_store:
  assumes "channel_reachable c" "pc c = W_loop" "\<not> waitForSpace_blocks (queue c)"
    "getWritableRegion (queue c) SENSOR_EVENT_QUEUE_CAPACITY = (len, Some first)" "0 < len"
  shows "channel_reachable
    (c\<lparr>queue := store_event (queue c) first e, pc := W_polling first len [e]\<rparr>)"
proof -
  let ?c = "c\<lparr>pc := W_polling first len []\<rparr>"
  have "channel_reachable ?c"
    using assms by (blast intro: channel_reachable.stepped channel_step.get_region)
  moreover have "channel_step ?c
      (?c\<lparr>queue := store_event (queue ?c) (first + int (length ([] :: 'a list))) e,
          pc := W_polling first len ([] @ [e])\<rparr>)"
    using assms by (intro channel_step.device_stores) auto
  ultimately show ?thesis
    using channel_reachable.stepped by fastforce
qed

definition channel_start :: "nat channel" where
  "channel_start =
     \<lparr>queue = SensorEventQueue SENSOR_EVENT_QUEUE_CAPACITY (\<lambda>_. 0), pc = W_loop,
      committed = [], delivered = []\<rparr>"

lemma channel_example_reachable:
  "channel_reachable
     (channel_start\<lparr>queue := store_event (queue channel_start) 0 7, pc := W_polling 0 36 [7]\<rparr>)"
proof (rule channel_reachable_store)
  show "channel_reachable channel_start"
    unfolding channel_start_def by (rule channel_reachable.opened)
qed (simp_all add: channel_start_def waitForSpace_blocks_def SensorEventQueue_def
      SENSOR_EVENT_QUEUE_CAPACITY_def getWritableRegion_def Let_def smod_nonneg)

theorem channel_fifo_witness:
  "let c = channel_start\<lparr>queue := store_event (queue channel_start) 0 7, pc := W_polling 0 36 [7]\<rparr>
   in committed c = delivered c @ contents (queue c) \<and> getSize (queue c) \<le> mCapacity (queue c)"
  using channel_fifo [OF channel_example_reachable] by (simp add: Let_def)

text \<open>
  C14. One round of \<open>poll\<close> always ends. It takes a prefix of every queue, in order; returns, in the
  order taken and at most \<open>maxReads\<close> of them, the remapped events whose handle is known; leaves
  every queue well-formed; and it stops short of \<open>maxReads\<close> (in particular, it goes to wait for
  data) only when every queue has been emptied.
\<close>

theorem poll_round_correct:
  assumes "\<forall>q \<in> set qs. queue_ok q" and "0 \<le> next" and "next < int (length qs)" and "0 < maxReads"
  shows "\<exists>data qs' next' tr.
    poll_round H maxReads qs next = Some (if data = [] then Inl () else Inr data, qs', next')
    \<and> data = accepted H tr \<and> int (length data) \<le> maxReads
    \<and> length qs' = length qs \<and> (\<forall>q \<in> set qs'. queue_ok q) \<and> 0 \<le> next' \<and> next' < int (length qs)
    \<and> (\<forall>i < length qs. contents (qs ! i) = taken_from i tr @ contents (qs' ! i))
    \<and> (int (length data) < maxReads \<longrightarrow> (\<forall>q \<in> set qs'. contents q = []))"
proof -
  have ok: "scan_ok qs next 0" and ne: "qs \<noteq> []" using assms by (auto simp: scan_ok_def)
  from poll_scan_correct [OF ok] obtain r where
    r: "poll_scan H maxReads qs next 0 [] = Some r" "scan_spec H maxReads qs [] r" by blast
  obtain data qs' next' where r': "r = (data, qs', next')" by (cases r)
  from r(2) ne assms(4) obtain tr where "data = accepted H tr" "length qs' = length qs"
      "\<forall>q \<in> set qs'. queue_ok q" "0 \<le> next'" "next' < int (length qs)"
      "int (length data) \<le> maxReads"
      "\<forall>i < length qs. contents (qs ! i) = taken_from i tr @ contents (qs' ! i)"
      "int (length data) < maxReads \<longrightarrow> (\<forall>q \<in> set qs'. contents q = [])"
    unfolding r' scan_spec_def by auto
  moreover from r(1) r' have "poll_round H maxReads qs next
      = Some (if data = [] then Inl () else Inr data, qs', next')"
    by (simp add: poll_round_def)
  ultimately show ?thesis by blast
qed

definition two_queues :: event_queues where
  "two_queues =
     (let e = \<lparr>ev_type = Sensor_type 1, sensor = 5, meta_sensor = 0, ev_data = []\<rparr>
      in [SensorEventQueue 4 (\<lambda>_. e), markAsWritten (SensorEventQueue 4 (\<lambda>_. e)) 2])"

theorem poll_round_correct_witness:
  "\<exists>data qs' next'.
     poll_round (snd (assign_global_handle no_handles 1 5)) 8 two_queues 0
       = Some (if data = [] then Inl () else Inr data, qs', next') \<and> length qs' = 2"
proof -
  have "\<forall>q \<in> set two_queues. queue_ok q" "(0::int) \<le> 0" "0 < int (length two_queues)" "(0::int) < 8"
    by (simp_all add: two_queues_def Let_def SensorEventQueue_def markAsWritten_def queue_ok_def)
  from poll_round_correct [OF this, of "snd (assign_global_handle no_handles 1 5)"]
  show ?thesis by (auto simp: two_queues_def Let_def)
qed

definition fresh_globals :: sensor_globals where
  "fresh_globals = \<lparr>global_sensors_list = None, sensor_handles = no_handles\<rparr>"

lemma get_sensors_list_fresh:
  "module_get_sensors_list modules fresh_globals
     = ((int (length (fst (init_modules_sensors 0 modules no_handles))),
         fst (init_modules_sensors 0 modules no_handles)),
        \<lparr>global_sensors_list = Some (fst (init_modules_sensors 0 modules no_handles)),
         sensor_handles = snd (init_modules_sensors 0 modules no_handles)\<rparr>)"
  by (simp add: module_get_sensors_list_def lazy_init_sensors_list_def fresh_globals_def split_beta Let_def)

text \<open>
  C38. The global numbering is a bijection: the sensors get the handles 1, 2, 3 and so on in the order
  the sub-HALs list them, each handle leads back to its module and local handle, and, where no
  sub-HAL uses a local handle twice, an event's module and local handle lead to exactly that global
  handle.
\<close>

theorem sensor_handles_roundtrip:
  assumes "module_get_sensors_list modules fresh_globals = ((n, sensors), G)"
    and "k < length (registered 0 modules)"
  shows "n = int (length (registered 0 modules)) \<and> handle (sensors ! k) = 1 + int k
    \<and> get_module_index (sensor_handles G) (1 + int k) = moduleIndex (registered 0 modules ! k)
    \<and> get_local_handle (sensor_handles G) (1 + int k) = localHandle (registered 0 modules ! k)
    \<and> (distinct (registered 0 modules) \<longrightarrow>
         get_global_handle (sensor_handles G) (registered 0 modules ! k) = 1 + int k)"
proof -
  let ?i = "init_modules_sensors 0 modules no_handles"
  have G: "n = int (length (fst ?i))" "sensors = fst ?i" "sensor_handles G = snd ?i"
    using assms(1) by (auto simp: get_sensors_list_fresh)
  have h: "map handle (fst ?i) = map (\<lambda>i. 1 + int i) [0..<length (registered 0 modules)]"
    by (simp add: init_modules_sensors_handles no_handles_def)
  have len: "length (fst ?i) = length (registered 0 modules)"
    using arg_cong [OF h, of length] by simp
  have "handle (fst ?i ! k) = 1 + int k"
    using arg_cong [OF h, of "\<lambda>hs. hs ! k"] len assms(2) by simp
  moreover have "global_to_full (snd ?i) (1 + int k) = Some (registered 0 modules ! k)"
    using init_modules_sensors_registers [OF assms(2), of no_handles] by (simp add: no_handles_def)
  ultimately show ?thesis
    using len full_to_global_registered [OF _ assms(2)]
    by (simp add: G get_module_index_def get_local_handle_def get_global_handle_def)
qed

definition two_modules :: "sensor_t list list" where
  "two_modules =
     (let s = \<lparr>handle = 0, s_type = SENSOR_TYPE_PROXIMITY, s_flags = {}, maxRange = 1,
               fifoReservedEventCount = 9, fifoMaxEventCount = 9\<rparr>
      in [[s, s\<lparr>handle := 4\<rparr>], [s\<lparr>handle := 4, s_type := SENSOR_TYPE_TILT_DETECTOR\<rparr>]])"

theorem sensor_handles_roundtrip_witness:
  "case module_get_sensors_list two_modules fresh_globals of
     ((n, sensors), G) \<Rightarrow> n = 3 \<and> handle (sensors ! 2) = 3
       \<and> get_global_handle (sensor_handles G) (FullHandle 1 4) = 3"
proof -
  obtain n ss G where m: "module_get_sensors_list two_modules fresh_globals = ((n, ss), G)"
    by (metis prod.exhaust)
  have "2 < length (registered 0 two_modules)" by (simp add: two_modules_def Let_def)
  from sensor_handles_roundtrip [OF m this] m show ?thesis
    by (simp add: two_modules_def Let_def)
qed

text \<open>
  Calls reach the right sensor: when every sub-module opened, \<open>activate\<close> with the global handle of
  a registered sensor calls the device of the sub-module that owns the sensor, with the handle that
  sub-module knows it by.
\<close>

theorem activate_routes_to_owner:
  assumes "module_get_sensors_list modules fresh_globals = ((n, sensors), G)"
    and "k < length (registered 0 modules)" and "length opened = length modules"
    and "\<forall>(r, d) \<in> set opened. r = 0"
  shows "activate dev_activate (sensor_handles G) (open_sensors junk opened) (1 + int k) enabled
    = Returns (dev_activate (snd (opened ! nat (moduleIndex (registered 0 modules ! k))))
                 (localHandle (registered 0 modules ! k)) enabled)"
proof -
  let ?f = "registered 0 modules ! k" and ?i = "init_modules_sensors 0 modules no_handles"
  have "global_to_full (snd ?i) (1 + int k) = Some ?f"
    using init_modules_sensors_registers [OF assms(2), of no_handles] by (simp add: no_handles_def)
  then have g: "global_to_full (sensor_handles G) (1 + int k) = Some ?f"
    using assms(1) by (auto simp: get_sensors_list_fresh)
  have "0 \<le> moduleIndex ?f" "moduleIndex ?f < int (length modules)"
    using registered_module [of ?f 0 modules] assms(2) by (auto intro: nth_mem)
  with g assms(3) show ?thesis
    by (simp add: activate_def get_v0_device_by_handle_def get_module_index_def
        get_local_handle_def all_opened_devices [OF assms(4)] nth_map nat_less_iff)
qed

theorem activate_routes_to_owner_witness:
  "\<exists>G :: sensor_globals. activate (\<lambda>d h e. 100 * d + 10 * h + e) (sensor_handles G)
         (open_sensors (\<lambda>_. undefined) [(0, 7 :: int), (0, 8)]) 3 1 = Returns 841"
proof -
  obtain n ss G where m: "module_get_sensors_list two_modules fresh_globals = ((n, ss), G)"
    by (metis prod.exhaust)
  have "2 < length (registered 0 two_modules)" "length [(0::int, 7::int), (0, 8)] = length two_modules"
    "\<forall>(r, d) \<in> set [(0::int, 7::int), (0, 8)]. r = 0"
    by (simp_all add: two_modules_def Let_def)
  from activate_routes_to_owner [OF m this, of "\<lambda>d h e. 100 * d + 10 * h + e" "\<lambda>_. undefined" 1]
  have "activate (\<lambda>d h e. 100 * d + 10 * h + e) (sensor_handles G)
      (open_sensors (\<lambda>_. undefined) [(0, 7 :: int), (0, 8)]) 3 1 = Returns 841"
    by (simp add: two_modules_def Let_def)
  then show ?thesis by blast
qed

end
