(* ===== verification/Multihal_Life.thy ===== *)
theory Multihal_Life
  imports Multihal "HOL-Library.Multiset"
begin

text \<open>
  \<open>sensors/multihal.cpp\<close>: loading the sub-HAL library, opening and closing the proxy device. What the dynamic linker finds and
  what the sub-HALs answer are parameters.
\<close>

datatype 'm library = NoLibrary | NoSymbol | NullModule | Loaded 'm

text \<open>The modules of the process, the devices of sub-HALs that are open, and the devices writer threads poll.\<close>

record ('m, 'd) sensor_process =
  sub_hw_modules :: "'m list option"
  open_devices :: "'d list"
  polled_devices :: "'d list"

definition add_so_module :: "(string \<Rightarrow> 'm library) \<Rightarrow> string \<Rightarrow> 'm list \<Rightarrow> 'm list" where
  "add_so_module dl path ms = (case dl path of Loaded m \<Rightarrow> ms @ [m] | _ \<Rightarrow> ms)"

definition lazy_init_modules :: "(string \<Rightarrow> 'm library) \<Rightarrow> ('m, 'd) sensor_process \<Rightarrow> ('m, 'd) sensor_process" where
  "lazy_init_modules dl P =
     (case sub_hw_modules P of
        Some _ \<Rightarrow> P
      | None \<Rightarrow> P\<lparr>sub_hw_modules := Some (add_so_module dl ''libsensors.lsm6db0.so'' [])\<rparr>)"

text \<open>Opening in the process: every device added to the proxy is open, and a new thread polls it.\<close>

definition open_proxy ::
  "(string \<Rightarrow> 'm library) \<Rightarrow> ('m \<Rightarrow> int \<times> 'd) \<Rightarrow> (nat \<Rightarrow> sensors_event) \<Rightarrow> ('m, 'd) sensor_process \<Rightarrow>
     'd sensors_poll_context \<times> ('m, 'd) sensor_process" where
  "open_proxy dl sub_open junk P =
     (let P = lazy_init_modules dl P;
          ctx = open_sensors junk (map sub_open (the (sub_hw_modules P)))
      in (ctx, P\<lparr>open_devices := sub_hw_devices ctx @ open_devices P, polled_devices := sub_hw_devices ctx @ polled_devices P\<rparr>))"

definition close_proxy :: "'d sensors_poll_context \<Rightarrow> ('m, 'd) sensor_process \<Rightarrow> int \<times> ('m, 'd) sensor_process" where
  "close_proxy ctx P = (0, fold (\<lambda>dev P. P\<lparr>open_devices := remove1 dev (open_devices P)\<rparr>) (sub_hw_devices ctx) P)"

definition device_close :: "'d sensors_poll_context option \<Rightarrow> ('m, 'd) sensor_process \<Rightarrow> int \<times> ('m, 'd) sensor_process" where
  "device_close dev P = (case dev of None \<Rightarrow> (0, P) | Some ctx \<Rightarrow> (0, snd (close_proxy ctx P)))"

lemma close_proxy_devices:
  "open_devices (snd (close_proxy ctx P)) = fold remove1 (sub_hw_devices ctx) (open_devices P)"
  "polled_devices (snd (close_proxy ctx P)) = polled_devices P" "sub_hw_modules (snd (close_proxy ctx P)) = sub_hw_modules P"
proof -
  have "open_devices (fold (\<lambda>dev P. P\<lparr>open_devices := remove1 dev (open_devices P)\<rparr>) ds P) = fold remove1 ds (open_devices P) \<and>
    polled_devices (fold (\<lambda>dev P. P\<lparr>open_devices := remove1 dev (open_devices P)\<rparr>) ds P) = polled_devices P \<and>
    sub_hw_modules (fold (\<lambda>dev P. P\<lparr>open_devices := remove1 dev (open_devices P)\<rparr>) ds P) = sub_hw_modules P" for ds
    by (induction ds arbitrary: P) simp_all
  then show "open_devices (snd (close_proxy ctx P)) = fold remove1 (sub_hw_devices ctx) (open_devices P)"
    "polled_devices (snd (close_proxy ctx P)) = polled_devices P" "sub_hw_modules (snd (close_proxy ctx P)) = sub_hw_modules P"
    by (simp_all add: close_proxy_def)
qed

lemma fold_remove1_mset: "mset (fold remove1 ds xs) = mset xs - mset ds"
  by (induction ds arbitrary: xs) simp_all

text \<open>
  Closing the proxy closes every device it opened, each once, and no device of another proxy; the library is looked up once in the
  life of the process. The writer threads outlive it: each device that was opened is still polled, though it is closed.
\<close>

theorem writers_outlive_the_device:
  assumes "open_proxy dl sub_open junk P = (ctx, P')" "device_close (Some ctx) P' = (r, P'')"
  shows "r = 0 \<and> mset (open_devices P'') = mset (open_devices P) \<and>
    polled_devices P'' = map snd (filter (\<lambda>(res, d). res = 0) (map sub_open (the (sub_hw_modules P')))) @ polled_devices P \<and>
    sub_hw_modules (snd (open_proxy other sub_open junk P'')) = sub_hw_modules P'"
proof -
  have ctx: "sub_hw_devices ctx = map snd (filter (\<lambda>(res, d). res = 0) (map sub_open (the (sub_hw_modules P'))))"
    and P': "open_devices P' = sub_hw_devices ctx @ open_devices P" "polled_devices P' = sub_hw_devices ctx @ polled_devices P"
      "sub_hw_modules P' \<noteq> None"
    using assms(1) by (auto simp: open_proxy_def lazy_init_modules_def Let_def open_sensors_def open_sub_modules_devices split: option.splits)
  have P'': "r = 0" "P'' = snd (close_proxy ctx P')" using assms(2) by (simp_all add: device_close_def)
  obtain ms where ms: "sub_hw_modules P' = Some ms" using P'(3) by blast
  have "mset (open_devices P'') = mset (open_devices P)"
    unfolding P''(2) close_proxy_devices P'(1) fold_remove1_mset by simp
  moreover have "sub_hw_modules (snd (open_proxy other sub_open junk P'')) = sub_hw_modules P'"
    using ms by (simp add: P''(2) close_proxy_devices open_proxy_def lazy_init_modules_def Let_def)
  ultimately show ?thesis using P''(1) ctx P'(2) by (simp add: P''(2) close_proxy_devices)
qed

end
