(* ===== verification/V4l2_Kernel.thy ===== *)
theory V4l2_Kernel
  imports Mocha_Prelude
begin

text \<open>
  The operating system as \<open>camera/CameraPipeline.cpp\<close> uses it: the requests it issues, in a log with the
  newest request first, and the answers, which are arbitrary functions of the log. A kernel is any
  value of the record \<open>kernel\<close>, so a theorem about all kernels covers every sequence of answers, timing
  and frame contents. The resources a log leaves open (file descriptors and buffer mappings) are
  computed from the log, independently of the state of the program.
\<close>

datatype v4l2_ctrl = CID_EXPOSURE | CID_GAIN | CID_FOCUS_ABSOLUTE

datatype sys =
    Open string
  | Close int
  | QueryCap int
  | I2cSlaveForce int int
  | SetCtrl int v4l2_ctrl int
  | GetCtrl int v4l2_ctrl
  | SetFmt int nat nat u32
  | ReqBufs int nat
  | QueryBuf int nat
  | Mmap int nat
  | Munmap nat nat
  | QBuf int nat
  | DQBuf int
  | StreamOn int
  | StreamOff int
  | Poll int int
  | I2cWrite int "byte list"
  | PropertyGet string
  | ClockMonotonic
  | Usleep nat

record dqbuf_answer =
  dq_index :: nat
  dq_bytesused :: nat
  dq_tv_sec :: int
  dq_tv_usec :: int
  dq_data :: "byte list"

text \<open>Every answer sees the log up to and including its own request. \<open>k_ret\<close> is the return value of
  a call, with \<open>- errno\<close> for a failure; \<open>k_new\<close> and \<open>k_realloc\<close> are the allocator, whose memory has
  unspecified contents, and \<open>k_powf\<close> the C library's power function.\<close>

record kernel =
  k_ret :: "sys list \<Rightarrow> int"
  k_caps :: "sys list \<Rightarrow> u32"
  k_count :: "sys list \<Rightarrow> nat"
  k_length :: "sys list \<Rightarrow> nat"
  k_mmap :: "sys list \<Rightarrow> nat option"
  k_ctrl :: "sys list \<Rightarrow> int"
  k_dqbuf :: "sys list \<Rightarrow> dqbuf_answer"
  k_revents :: "sys list \<Rightarrow> bool"
  k_property :: "sys list \<Rightarrow> string"
  k_time :: "sys list \<Rightarrow> int"
  k_new :: "nat \<Rightarrow> byte list"
  k_realloc :: "byte list option \<Rightarrow> nat \<Rightarrow> byte list option"
  k_powf :: "rat \<Rightarrow> rat \<Rightarrow> rat"

section \<open>Resources left open by a log\<close>

fun open_fds :: "kernel \<Rightarrow> sys list \<Rightarrow> int list" where
  "open_fds K [] = []"
| "open_fds K (Open path # l) =
     (let fd = k_ret K (Open path # l) in if fd < 0 then open_fds K l else fd # open_fds K l)"
| "open_fds K (Close fd # l) = remove1 fd (open_fds K l)"
| "open_fds K (_ # l) = open_fds K l"

fun mappings :: "kernel \<Rightarrow> sys list \<Rightarrow> nat list" where
  "mappings K [] = []"
| "mappings K (Mmap fd i # l) =
     (case k_mmap K (Mmap fd i # l) of None \<Rightarrow> mappings K l | Some a \<Rightarrow> a # mappings K l)"
| "mappings K (Munmap a n # l) = remove1 a (mappings K l)"
| "mappings K (_ # l) = mappings K l"

text \<open>Requests that neither open nor close anything.\<close>

fun neutral :: "sys \<Rightarrow> bool" where
  "neutral (Open _) = False"
| "neutral (Close _) = False"
| "neutral (Mmap _ _) = False"
| "neutral (Munmap _ _) = False"
| "neutral _ = True"

lemma neutral_resources [simp]:
  "neutral r \<Longrightarrow> open_fds K (r # l) = open_fds K l" "neutral r \<Longrightarrow> mappings K (r # l) = mappings K l"
  by (cases r; simp)+

text \<open>How often each buffer index was handed to the driver minus how often the driver gave it back.\<close>

fun queued :: "kernel \<Rightarrow> sys list \<Rightarrow> nat \<Rightarrow> int" where
  "queued K [] i = 0"
| "queued K (QBuf fd j # l) i =
     queued K l i + (if i = j \<and> 0 \<le> k_ret K (QBuf fd j # l) then 1 else 0)"
| "queued K (DQBuf fd # l) i =
     queued K l i - (if 0 \<le> k_ret K (DQBuf fd # l) \<and> dq_index (k_dqbuf K (DQBuf fd # l)) = i then 1 else 0)"
| "queued K (StreamOff fd # l) i = 0"
| "queued K (_ # l) i = queued K l i"

end
