(* ===== verification/Neon.thy ===== *)
theory Neon
  imports Mocha_Prelude
begin

text \<open>
  The ARM NEON intrinsics (\<open>arm_neon.h\<close>) the image kernels use, as functions on lists of lanes.
  Each follows the instruction's definition: widening, narrowing by truncation, saturating
  narrowing, rounding halving add, deinterleaving. The lemmas read the lanes back as integers, so
  that a kernel proof is arithmetic over ranges.
\<close>

definition vld1_u8 :: "byte list \<Rightarrow> nat \<Rightarrow> byte list" where
  "vld1_u8 mem p = map (\<lambda>i. mem ! (p + i)) [0..<8]"

text \<open>\<open>vld3\<close> deinterleaves: lane \<open>i\<close> of component \<open>c\<close> is byte \<open>3 i + c\<close>.\<close>

definition vld3_u8 :: "byte list \<Rightarrow> nat \<Rightarrow> nat \<Rightarrow> byte list" where
  "vld3_u8 mem p c = map (\<lambda>i. mem ! (p + 3 * i + c)) [0..<8]"

definition vld3q_u8 :: "byte list \<Rightarrow> nat \<Rightarrow> nat \<Rightarrow> byte list" where
  "vld3q_u8 mem p c = map (\<lambda>i. mem ! (p + 3 * i + c)) [0..<16]"

definition vst1_u8 :: "byte list \<Rightarrow> nat \<Rightarrow> byte list \<Rightarrow> byte list" where
  "vst1_u8 mem p v = write_at mem p v"

definition vst2_u8 :: "byte list \<Rightarrow> nat \<Rightarrow> byte list \<Rightarrow> byte list \<Rightarrow> byte list" where
  "vst2_u8 mem p a b = write_at mem p (concat (map2 (\<lambda>x y. [x, y]) a b))"

definition vst4_u8 ::
    "byte list \<Rightarrow> nat \<Rightarrow> byte list \<Rightarrow> byte list \<Rightarrow> byte list \<Rightarrow> byte list \<Rightarrow> byte list" where
  "vst4_u8 mem p a b c d =
     write_at mem p (concat (map (\<lambda>i. [a ! i, b ! i, c ! i, d ! i]) [0..<8]))"

definition vdup :: "nat \<Rightarrow> 'a \<Rightarrow> 'a list" where
  "vdup n x = replicate n x"

definition vget_low :: "'a list \<Rightarrow> 'a list" where
  "vget_low v = take (length v div 2) v"

definition vget_high :: "'a list \<Rightarrow> 'a list" where
  "vget_high v = drop (length v div 2) v"

definition vcombine :: "'a list \<Rightarrow> 'a list \<Rightarrow> 'a list" where
  "vcombine a b = a @ b"

text \<open>\<open>vuzp a b\<close>: the even-numbered and the odd-numbered lanes of \<open>a\<close> followed by \<open>b\<close>.\<close>

definition vuzp0 :: "'a list \<Rightarrow> 'a list \<Rightarrow> 'a list" where
  "vuzp0 a b = map (\<lambda>i. (a @ b) ! (2 * i)) [0..<length a]"

definition vuzp1 :: "'a list \<Rightarrow> 'a list \<Rightarrow> 'a list" where
  "vuzp1 a b = map (\<lambda>i. (a @ b) ! (2 * i + 1)) [0..<length a]"

definition vext :: "'a list \<Rightarrow> 'a list \<Rightarrow> nat \<Rightarrow> 'a list" where
  "vext a b n = take (length a) (drop n (a @ b))"

definition vmovl_u8 :: "byte list \<Rightarrow> 16 word list" where
  "vmovl_u8 = map ucast"

definition vmull_s16 :: "16 word list \<Rightarrow> 16 word list \<Rightarrow> 32 word list" where
  "vmull_s16 = map2 (\<lambda>a b. word_of_int (sint a * sint b))"

definition vmlal_s16 :: "32 word list \<Rightarrow> 16 word list \<Rightarrow> 16 word list \<Rightarrow> 32 word list" where
  "vmlal_s16 acc a b = map2 (+) acc (vmull_s16 a b)"

definition vaddq :: "'a::len word list \<Rightarrow> 'a word list \<Rightarrow> 'a word list" where
  "vaddq = map2 (+)"

definition vshrn_n_s32 :: "32 word list \<Rightarrow> nat \<Rightarrow> 16 word list" where
  "vshrn_n_s32 v n = map (\<lambda>a. word_of_int (sint (signed_drop_bit n a))) v"

definition vqmovun_s16 :: "16 word list \<Rightarrow> byte list" where
  "vqmovun_s16 = map (\<lambda>a. if sint a < 0 then 0 else if sint a > 255 then 255 else ucast a)"

definition vmull_u16 :: "16 word list \<Rightarrow> 16 word list \<Rightarrow> 32 word list" where
  "vmull_u16 = map2 (\<lambda>a b. word_of_int (uint a * uint b))"

definition vshrn_n_u32 :: "32 word list \<Rightarrow> nat \<Rightarrow> 16 word list" where
  "vshrn_n_u32 v n = map (\<lambda>a. ucast (drop_bit n a)) v"

definition vqmovn_u16 :: "16 word list \<Rightarrow> byte list" where
  "vqmovn_u16 = map (\<lambda>a. if uint a > 255 then 255 else ucast a)"

definition vaddl_u8 :: "byte list \<Rightarrow> byte list \<Rightarrow> 16 word list" where
  "vaddl_u8 = map2 (\<lambda>a b. ucast a + ucast b)"

definition vshrn_n_u16 :: "16 word list \<Rightarrow> nat \<Rightarrow> byte list" where
  "vshrn_n_u16 v n = map (\<lambda>a. ucast (drop_bit n a)) v"

definition vrhadd_u8 :: "byte list \<Rightarrow> byte list \<Rightarrow> byte list" where
  "vrhadd_u8 = map2 (\<lambda>a b. word_of_int ((uint a + uint b + 1) div 2))"

lemmas vec_defs =
  vld1_u8_def vld3_u8_def vld3q_u8_def vdup_def vget_low_def vget_high_def vcombine_def
  vmovl_u8_def vmull_s16_def vmlal_s16_def vaddq_def vshrn_n_s32_def vqmovun_s16_def
  vmull_u16_def vshrn_n_u32_def vqmovn_u16_def vaddl_u8_def vshrn_n_u16_def vrhadd_u8_def
  vuzp0_def vuzp1_def vext_def

section \<open>Reading lanes as integers\<close>

lemma sint_word_of_int_in_range:
  assumes "- (2 ^ (LENGTH('a) - 1)) \<le> k" "k < 2 ^ (LENGTH('a) - 1)"
  shows "sint (word_of_int k :: 'a::len word) = k"
  using assms by (simp add: signed_of_int signed_take_bit_int_eq_self)

lemma sint_32: "- 2147483648 \<le> k \<Longrightarrow> k < 2147483648 \<Longrightarrow> sint (word_of_int k :: 32 word) = k"
  by (rule sint_word_of_int_in_range) simp_all

lemma sint_16: "- 32768 \<le> k \<Longrightarrow> k < 32768 \<Longrightarrow> sint (word_of_int k :: 16 word) = k"
  by (rule sint_word_of_int_in_range) simp_all

lemma uint_32: "0 \<le> k \<Longrightarrow> k < 4294967296 \<Longrightarrow> uint (word_of_int k :: 32 word) = k"
  by (simp add: unsigned_of_int take_bit_int_eq_self)

lemma uint_16: "0 \<le> k \<Longrightarrow> k < 65536 \<Longrightarrow> uint (word_of_int k :: 16 word) = k"
  by (simp add: unsigned_of_int take_bit_int_eq_self)

lemma uint_8: "0 \<le> k \<Longrightarrow> k < 256 \<Longrightarrow> uint (word_of_int k :: byte) = k"
  by (simp add: unsigned_of_int take_bit_int_eq_self)

lemma byte_less [simp]: "uint (b :: byte) < 256"
  using uint_lt2p [of b] by simp

lemma byte_le [simp]: "uint (b :: byte) \<le> 255"
  using byte_less [of b] by linarith

lemma ucast_byte_16: "(ucast (b :: byte) :: 16 word) = word_of_int (uint b)"
  by (rule ucast_eq)

lemma sint_ucast_byte [simp]: "sint (ucast (b :: byte) :: 16 word) = uint b"
  unfolding ucast_byte_16 using byte_less [of b] uint_ge_0 [of b] by (intro sint_16) linarith+

lemma uint_ucast_byte [simp]: "uint (ucast (b :: byte) :: 16 word) = uint b"
  unfolding ucast_byte_16 using byte_less [of b] uint_ge_0 [of b] by (intro uint_16) linarith+

lemma uint_ucast_byte32 [simp]: "uint (ucast (b :: byte) :: 32 word) = uint b"
  unfolding ucast_eq using byte_less [of b] uint_ge_0 [of b] by (intro uint_32) linarith+

lemma word_eq_of_int: "uint (w :: byte) = k \<Longrightarrow> w = word_of_int k"
  by (metis word_of_int_uint)

end
