(* ===== verification/Demosaic.thy ===== *)
theory Demosaic
  imports Neon
begin

text \<open>
  \<open>camera/isp/DemosaicNEON.cpp\<close>: unpacking of 10-bit Bayer samples, the black/white level table, and
  the bilinear Bayer interpolation of a frame, with its vector loop, its scalar remainder and its
  border handling. Pointers into a frame are suffixes of the buffer (\<open>drop\<close>). Frames are assumed at
  least two rows high and two columns wide where the source subtracts 2 from a dimension.
\<close>

record DemosaicParams =
  dp_width :: u16
  dp_height :: u16
  dp_bayerPattern :: byte
  dp_offset_x :: byte
  dp_offset_y :: byte
  dp_blackLevel :: u16
  dp_whiteLevel :: u16

record DemosaicNEON =
  dm_mParams :: DemosaicParams
  dm_mInitialized :: bool
  dm_mBayerBuf :: "byte list option"
  dm_mBayerBufSize :: nat
  dm_mNormLut :: "byte list"

definition DemosaicNEON_new :: "byte list \<Rightarrow> DemosaicNEON" where
  "DemosaicNEON_new lut =
     \<lparr>dm_mParams = \<lparr>dp_width = 0, dp_height = 0, dp_bayerPattern = 0, dp_offset_x = 0, dp_offset_y = 0,
        dp_blackLevel = 0, dp_whiteLevel = 0\<rparr>,
      dm_mInitialized = False, dm_mBayerBuf = None, dm_mBayerBufSize = 0, dm_mNormLut = lut\<rparr>"

section \<open>Initialization\<close>

definition normLut_entry :: "int \<Rightarrow> int \<Rightarrow> nat \<Rightarrow> byte" where
  "normLut_entry bl wl i =
     (let den = wl - bl; den = (if den < 1 then 1 else den);
          v = int i - bl; v = (if v < 0 then 0 else v);
          v = v * 255 div den; v = (if v > 255 then 255 else v)
      in word_of_int v)"

text \<open>\<open>realloc\<close> is an argument: it may fail, and what it leaves in the added part is not specified.\<close>

definition dm_initialize ::
    "(byte list option \<Rightarrow> nat \<Rightarrow> byte list option) \<Rightarrow> DemosaicParams \<Rightarrow> DemosaicNEON \<Rightarrow> int \<times> DemosaicNEON"
where
  "dm_initialize realloc params d =
     (if dp_width params = 0 \<or> dp_height params = 0 then (- 1, d)
      else
        let d = d\<lparr>dm_mParams := params\<rparr>;
            bl = uint (dp_blackLevel params);
            wl = (if dp_whiteLevel params \<noteq> 0 then uint (dp_whiteLevel params) else 255);
            d = d\<lparr>dm_mNormLut := map (normLut_entry bl wl) [0..<256]\<rparr>;
            needed = unat (dp_width params) * unat (dp_height params) + 16
        in if needed > dm_mBayerBufSize d
           then (case realloc (dm_mBayerBuf d) (needed + 64) of
                   None \<Rightarrow> (- 1, d)
                 | Some buf \<Rightarrow> (0, d\<lparr>dm_mBayerBuf := Some buf, dm_mBayerBufSize := needed + 64,
                                    dm_mInitialized := True\<rparr>))
           else (0, d\<lparr>dm_mInitialized := True\<rparr>))"

section \<open>Sample unpacking\<close>

definition raw10_sample :: "byte list \<Rightarrow> nat \<Rightarrow> u32" where
  "raw10_sample inp i = (ucast (inp ! (i * 2)) OR push_bit 8 (ucast (inp ! (i * 2 + 1)))) AND 0x3FF"

definition raw10_to_8bit :: "byte list \<Rightarrow> byte list \<Rightarrow> nat \<Rightarrow> byte list \<Rightarrow> byte list" where
  "raw10_to_8bit inp out n lut =
     for_loop 1 n 0 (\<lambda>i out. out[i := lut ! unat (drop_bit 2 (raw10_sample inp i))]) out"

section \<open>One row\<close>

definition clamp :: "int \<Rightarrow> byte" where
  "clamp v = word_of_int (if drop_bit 8 v \<noteq> 0 then (if v < 0 then 0 else 255) else v)"

definition store_rgb :: "byte list \<Rightarrow> nat \<Rightarrow> byte \<times> byte \<times> byte \<Rightarrow> byte list" where
  "store_rgb rgb off px = (case px of (r, g, b) \<Rightarrow> rgb[off := r, off + 1 := g, off + 2 := b])"

text \<open>Bayer site types: 0 = red, 1 = green in a red row, 2 = green in a blue row, else blue.\<close>

definition edge_pixel :: "byte list \<Rightarrow> byte list \<Rightarrow> byte list \<Rightarrow> nat \<Rightarrow> byte \<times> byte \<times> byte" where
  "edge_pixel row up dn ev_type =
     (let R = (\<lambda>i. uint (row ! i)); U = (\<lambda>i. uint (up ! i)); D = (\<lambda>i. uint (dn ! i));
          val = R 0
      in if ev_type = 0 then
           (clamp val, clamp (drop_bit 2 (R 1 + R 1 + U 0 + D 0)), clamp (drop_bit 2 (U 1 + U 1 + D 1 + D 1)))
         else if ev_type = 1 then
           (clamp (drop_bit 1 (R 1 + R 1)), clamp val, clamp (drop_bit 1 (U 0 + D 0)))
         else if ev_type = 2 then
           (clamp (drop_bit 1 (U 0 + D 0)), clamp val, clamp (drop_bit 1 (R 1 + R 1)))
         else
           (clamp (drop_bit 2 (U 1 + U 1 + D 1 + D 1)), clamp (drop_bit 2 (R 1 + R 1 + U 0 + D 0)), clamp val))"

text \<open>The scalar interpolation at column \<open>c\<close>, whose four neighbours exist. Column 1 uses it at
  \<open>c = 1\<close>, the remainder loop at \<open>c = x\<close> with the even and at \<open>c = x + 1\<close> with the odd type.\<close>

definition scalar_pixel :: "byte list \<Rightarrow> byte list \<Rightarrow> byte list \<Rightarrow> nat \<Rightarrow> nat \<Rightarrow> byte \<times> byte \<times> byte" where
  "scalar_pixel row up dn ty c =
     (let R = (\<lambda>i. uint (row ! i)); U = (\<lambda>i. uint (up ! i)); D = (\<lambda>i. uint (dn ! i));
          val = R c;
          cross = drop_bit 2 (R (c - 1) + R (c + 1) + U c + D c);
          diag = drop_bit 2 (U (c - 1) + U (c + 1) + D (c - 1) + D (c + 1));
          horiz = drop_bit 1 (R (c - 1) + R (c + 1));
          vert = drop_bit 1 (U c + D c)
      in if ty = 0 then (clamp val, clamp cross, clamp diag)
         else if ty = 1 then (clamp horiz, clamp val, clamp vert)
         else if ty = 2 then (clamp vert, clamp val, clamp horiz)
         else (clamp diag, clamp cross, clamp val))"

text \<open>The vector batch at columns \<open>x .. x + 7\<close>: the red, green and blue lanes of the four even and of
  the four odd columns. The source switches on \<open>od_type\<close> twice; the first switch is repeated by the
  second.\<close>

definition neon_batch ::
    "byte list \<Rightarrow> byte list \<Rightarrow> byte list \<Rightarrow> nat \<Rightarrow> nat \<Rightarrow> nat \<Rightarrow>
     (byte list \<times> byte list \<times> byte list) \<times> (byte list \<times> byte list \<times> byte list)" where
  "neon_batch row up dn ev_type od_type x =
     (let r_lo = vld1_u8 row (x - 1); r_hi = vld1_u8 row (x + 1);
          u_v = vld1_u8 up x; d_v = vld1_u8 dn x;
          u_lo = vld1_u8 up (x - 1); d_lo = vld1_u8 dn (x - 1);
          ev_center = vuzp1 r_lo r_lo; ev_left = vuzp0 r_lo r_lo;
          od_center = vuzp0 r_hi r_hi; od_right = vuzp1 r_hi r_hi; ev_right = od_center;
          u_even = vuzp0 u_v u_v; u_odd = vuzp1 u_v u_v;
          d_even = vuzp0 d_v d_v; d_odd = vuzp1 d_v d_v;
          u_diag = vuzp0 u_lo u_lo; d_diag = vuzp0 d_lo d_lo;
          hv_g = vshrn_n_u16 (vaddq (vaddl_u8 ev_left ev_right) (vaddl_u8 u_even d_even)) 2;
          diag_b = vshrn_n_u16 (vaddq (vaddl_u8 u_diag d_diag) (vaddl_u8 u_odd d_odd)) 2;
          diag_r = diag_b;
          od_h_r = vrhadd_u8 ev_center (vext ev_center od_right 1);
          od_v_b = vshrn_n_u16 (vaddl_u8 u_odd d_odd) 1;
          od_h_b = od_v_b;
          ev_v_r = vshrn_n_u16 (vaddl_u8 u_even d_even) 1;
          od_h_sum = vaddl_u8 ev_center (vext ev_center od_right 1);
          od_hv_g = vshrn_n_u16 (vaddq od_h_sum (vaddl_u8 u_odd d_odd)) 2;
          od_diag_l = vaddl_u8 u_even d_even;
          od_diag_r = vaddl_u8 (vext u_even u_even 1) (vext d_even d_even 1);
          od_diag_r8 = vshrn_n_u16 (vaddq od_diag_l od_diag_r) 2;
          ev_h_b = vrhadd_u8 ev_left od_center;
          ev_c = take 4 ev_center; od_c = take 4 od_center
      in (if ev_type = 0 then (ev_c, take 4 hv_g, take 4 diag_b)
          else if ev_type = 1 then (take 4 od_h_r, ev_c, take 4 od_v_b)
          else if ev_type = 2 then (take 4 ev_v_r, ev_c, take 4 ev_h_b)
          else (take 4 diag_r, take 4 hv_g, ev_c),
          if od_type = 0 then (od_c, take 4 od_hv_g, take 4 od_diag_r8)
          else if od_type = 1 then (take 4 od_h_r, od_c, take 4 od_v_b)
          else if od_type = 2 then (take 4 od_v_b, od_c, take 4 od_h_b)
          else (take 4 od_diag_r8, take 4 od_hv_g, od_c)))"

definition lane3 :: "byte list \<times> byte list \<times> byte list \<Rightarrow> nat \<Rightarrow> byte \<times> byte \<times> byte" where
  "lane3 v i = (case v of (r, g, b) \<Rightarrow> (r ! i, g ! i, b ! i))"

definition store_batch :: "nat \<Rightarrow> nat \<Rightarrow>
    (byte list \<times> byte list \<times> byte list) \<times> (byte list \<times> byte list \<times> byte list) \<Rightarrow> byte list \<Rightarrow> byte list" where
  "store_batch out_base x v rgb =
     for_loop 1 4 0 (\<lambda>i rgb.
        let rgb = store_rgb rgb (out_base + (x + 2 * i) * 3) (lane3 (fst v) i)
        in store_rgb rgb (out_base + (x + 2 * i + 1) * 3) (lane3 (snd v) i)) rgb"

definition neon_row ::
    "byte list \<Rightarrow> byte list \<Rightarrow> byte list \<Rightarrow> nat \<Rightarrow> nat \<Rightarrow> nat \<Rightarrow> nat \<Rightarrow> byte list \<Rightarrow> byte list" where
  "neon_row row up dn w out_base ev_type od_type rgb =
     (let rgb = store_rgb rgb out_base (edge_pixel row up dn ev_type);
          rgb = store_rgb rgb (out_base + 3) (scalar_pixel row up dn od_type 1);
          (x, rgb) = stride_loop 8 (w - 2) 2
            (\<lambda>x rgb. store_batch out_base x (neon_batch row up dn ev_type od_type x) rgb) rgb
      in for_loop 2 (w - 2) x
           (\<lambda>x rgb. let rgb = store_rgb rgb (out_base + x * 3) (scalar_pixel row up dn ev_type x)
              in store_rgb rgb (out_base + (x + 1) * 3) (scalar_pixel row up dn od_type (x + 1))) rgb)"

section \<open>The frame\<close>

definition read_rgb :: "byte list \<Rightarrow> nat \<Rightarrow> byte \<times> byte \<times> byte" where
  "read_rgb rgb off = (rgb ! off, rgb ! (off + 1), rgb ! (off + 2))"

definition edge_row :: "nat \<Rightarrow> nat \<Rightarrow> byte list \<Rightarrow> byte list" where
  "edge_row w y rgb =
     (let off = y * (w * 3);
          rgb = rgb[off := rgb ! (off + 3)];
          rgb = rgb[off + 1 := rgb ! (off + 4)];
          rgb = rgb[off + 2 := rgb ! (off + 5)];
          rgb = rgb[off + (w - 1) * 3 := rgb ! (off + (w - 2) * 3)];
          rgb = rgb[off + (w - 1) * 3 + 1 := rgb ! (off + (w - 2) * 3 + 1)]
      in rgb[off + (w - 1) * 3 + 2 := rgb ! (off + (w - 2) * 3 + 2)])"

definition fill_edges :: "nat \<Rightarrow> nat \<Rightarrow> byte list \<Rightarrow> byte list" where
  "fill_edges w h rgb =
     (let s = w * 3;
          rgb = write_at rgb 0 (take s (drop s rgb));
          rgb = write_at rgb ((h - 1) * s) (take s (drop ((h - 2) * s) rgb))
      in for_loop 1 h 0 (edge_row w) rgb)"

definition pos_color :: "nat list list" where
  "pos_color = [[0, 1, 2, 3], [1, 0, 3, 2], [2, 3, 0, 1], [3, 2, 1, 0]]"

definition row_types :: "DemosaicParams \<Rightarrow> nat \<Rightarrow> nat \<times> nat" where
  "row_types p y =
     (let oy = unat (dp_offset_y p AND 1); ox = unat (dp_offset_x p AND 1);
          pat = unat (dp_bayerPattern p);
          r = (y + oy) mod 2; pe = r * 2 + ox; po = r * 2 + 1 - ox
      in (pos_color ! pat ! pe, pos_color ! pat ! po))"

definition process_row :: "DemosaicParams \<Rightarrow> byte list \<Rightarrow> nat \<Rightarrow> byte list \<Rightarrow> byte list" where
  "process_row p b8 y rgb =
     (let w = unat (dp_width p); (ev_type, od_type) = row_types p y
      in neon_row (drop (y * w) b8) (drop ((y - 1) * w) b8) (drop ((y + 1) * w) b8) w (y * (w * 3))
           ev_type od_type rgb)"

definition dm_process ::
    "DemosaicNEON \<Rightarrow> byte list option \<Rightarrow> byte list option \<Rightarrow> byte list option \<times> DemosaicNEON" where
  "dm_process d bayerInput rgbOutput =
     (case (dm_mInitialized d, bayerInput, rgbOutput, dm_mBayerBuf d) of
        (True, Some inp, Some rgb, Some buf) \<Rightarrow>
          let p = dm_mParams d; w = unat (dp_width p); h = unat (dp_height p);
              b8 = raw10_to_8bit inp buf (w * h) (dm_mNormLut d);
              rgb = for_loop 1 (h - 1) 1 (process_row p b8) rgb
          in (Some (fill_edges w h rgb), d\<lparr>dm_mBayerBuf := Some b8\<rparr>)
      | _ \<Rightarrow> (rgbOutput, d))"

section \<open>Which bytes a row writes\<close>

lemma store_rgb_filled:
  assumes "px = (f p, f (p + 1), f (p + 2))" "q = p + 3"
  shows "filled s (store_rgb s p px) {p..<q} f"
proof -
  have "filled s (s[p := f p, p + 1 := f (p + 1), p + 2 := f (p + 2)]) (({p} \<union> {p + 1}) \<union> {p + 2}) f"
    by (rule filled_trans [OF filled_trans [OF filled_update filled_update] filled_update]) (rule refl)+
  moreover have "({p} \<union> {p + 1}) \<union> {p + 2} = {p..<q}" using assms by auto
  ultimately show ?thesis by (simp add: store_rgb_def assms(1))
qed

text \<open>The bytes of an image whose pixel \<open>c\<close>, from offset \<open>b\<close> on, is \<open>px c\<close>.\<close>

definition rgb_byte :: "nat \<Rightarrow> (nat \<Rightarrow> byte \<times> byte \<times> byte) \<Rightarrow> nat \<Rightarrow> byte" where
  "rgb_byte b px k = (case px ((k - b) div 3) of (r, g, bl) \<Rightarrow>
     if (k - b) mod 3 = 0 then r else if (k - b) mod 3 = 1 then g else bl)"

lemma rgb_byte_at:
  "(rgb_byte b px (b + 3 * c), rgb_byte b px (b + 3 * c + 1), rgb_byte b px (b + 3 * c + 2)) = px c"
proof -
  have "(3 * c + 1) div 3 = c" "(3 * c + 2) div 3 = c" "(3 * c + 1) mod 3 = 1" "(3 * c + 2) mod 3 = 2" by presburger+
  then show ?thesis
    by (simp add: rgb_byte_def add.assoc split: prod.split del: add_2_eq_Suc' One_nat_def) 
qed

lemma store_pixel_filled:
  assumes "v = px c" "p = b + 3 * c" "q = b + 3 * (c + 1)"
  shows "filled s (store_rgb s p v) {p..<q} (rgb_byte b px)"
  using rgb_byte_at [of b px c] assms by (intro store_rgb_filled) auto

lemma filled_store2:
  assumes "v = px c" "u = px (c + 1)"
  shows "filled s (store_rgb (store_rgb s (b + c * 3) v) (b + (c + 1) * 3) u)
     {b + 3 * c..<b + 3 * (c + 2)} (rgb_byte b px)"
proof (rule filled_interval_trans)
  show "filled s (store_rgb s (b + c * 3) v) {b + 3 * c..<b + 3 * (c + 1)} (rgb_byte b px)"
    using store_pixel_filled [of v px c "b + c * 3" b] assms by (simp add: mult.commute)
  show "filled (store_rgb s (b + c * 3) v) (store_rgb (store_rgb s (b + c * 3) v) (b + (c + 1) * 3) u)
      {b + 3 * (c + 1)..<b + 3 * (c + 2)} (rgb_byte b px)"
    using store_pixel_filled [of u px "c + 1" "b + (c + 1) * 3" b "b + 3 * (c + 2)"] assms
    by (simp add: mult.commute)
qed simp_all

lemma store_batch_filled:
  assumes "\<And>i. i < 4 \<Longrightarrow> lane3 (fst v) i = px (x + 2 * i)" "\<And>i. i < 4 \<Longrightarrow> lane3 (snd v) i = px (x + 2 * i + 1)"
  shows "filled s (store_batch b x v s) {b + 3 * x..<b + 3 * (x + 8)} (rgb_byte b px)"
proof -
  have "filled s (store_batch b x v s) {(b + 3 * x) + 6 * 0..<(b + 3 * x) + 6 * 4} (rgb_byte b px)"
    unfolding store_batch_def Let_def
  proof (rule filled_for_unit)
    fix i s assume "i < (4 :: nat)"
    then show "filled s (store_rgb (store_rgb s (b + (x + 2 * i) * 3) (lane3 (fst v) i))
        (b + (x + 2 * i + 1) * 3) (lane3 (snd v) i)) {b + 3 * x + 6 * i..<b + 3 * x + 6 * (i + 1)} (rgb_byte b px)"
      using filled_store2 [of "lane3 (fst v) i" px "x + 2 * i" "lane3 (snd v) i" s b] assms
      by (simp add: algebra_simps)
  qed simp
  then show ?thesis by (simp add: algebra_simps)
qed

text \<open>The pixel that \<open>neon_row\<close> stores in column \<open>c\<close> of a row of width \<open>w\<close>.\<close>

definition batch_end :: "nat \<Rightarrow> nat" where
  "batch_end w = 2 + 8 * ((w - 4) div 8)"

definition batch_pixel ::
    "byte list \<Rightarrow> byte list \<Rightarrow> byte list \<Rightarrow> nat \<Rightarrow> nat \<Rightarrow> nat \<Rightarrow> byte \<times> byte \<times> byte" where
  "batch_pixel row up dn ev_type od_type c =
     (let x = 2 + 8 * ((c - 2) div 8); v = neon_batch row up dn ev_type od_type x; i = (c - x) div 2
      in lane3 (if even c then fst v else snd v) i)"

definition row_pixel ::
    "byte list \<Rightarrow> byte list \<Rightarrow> byte list \<Rightarrow> nat \<Rightarrow> nat \<Rightarrow> nat \<Rightarrow> nat \<Rightarrow> byte \<times> byte \<times> byte" where
  "row_pixel row up dn w ev_type od_type c =
     (if c = 0 then edge_pixel row up dn ev_type
      else if 2 \<le> c \<and> c < batch_end w then batch_pixel row up dn ev_type od_type c
      else scalar_pixel row up dn (if even c then ev_type else od_type) c)"

definition row_end :: "nat \<Rightarrow> nat" where
  "row_end w = (if even w then w - 2 else w - 1)"

lemma batch_pixel_at:
  assumes "8 dvd x - 2" "2 \<le> x" "i < 4"
  shows "batch_pixel row up dn ev od (x + 2 * i) = lane3 (fst (neon_batch row up dn ev od x)) i"
    "batch_pixel row up dn ev od (x + 2 * i + 1) = lane3 (snd (neon_batch row up dn ev od x)) i"
proof -
  obtain k where x: "x = 2 + 8 * k" using assms by (metis dvdE le_add_diff_inverse)
  have "(x + 2 * i - 2) div 8 = k" "(x + 2 * i + 1 - 2) div 8 = k" using x assms(3) by auto
  then show "batch_pixel row up dn ev od (x + 2 * i) = lane3 (fst (neon_batch row up dn ev od x)) i"
    "batch_pixel row up dn ev od (x + 2 * i + 1) = lane3 (snd (neon_batch row up dn ev od x)) i"
    using x by (simp_all add: batch_pixel_def Let_def)
qed

lemma filled_for_2:
  assumes "\<And>i s. i0 \<le> i \<Longrightarrow> i < n \<Longrightarrow> even (i - i0) \<Longrightarrow> filled s (body i s) {b + c * i..<b + c * (i + 2)} f"
  shows "filled s (for_loop 2 n i0 body s) {b + c * i0..<b + c * (i0 + 2 * ((n - i0 + 1) div 2))} f"
  using assms
proof (induction "n - i0" arbitrary: i0 s rule: less_induct)
  case less
  show ?case
  proof (cases "i0 < n")
    case True
    have rest: "filled (body i0 s) (for_loop 2 n (i0 + 2) body (body i0 s))
        {b + c * (i0 + 2)..<b + c * (i0 + 2 + 2 * ((n - (i0 + 2) + 1) div 2))} f"
    proof (rule less.hyps)
      fix i s assume "i0 + 2 \<le> i" "i < n" "even (i - (i0 + 2))"
      then show "filled s (body i s) {b + c * i..<b + c * (i + 2)} f" by (intro less.prems) auto
    qed (use True in simp)
    have "filled s (body i0 s) {b + c * i0..<b + c * (i0 + 2)} f" by (rule less.prems) (use True in auto)
    then have "filled s (for_loop 2 n (i0 + 2) body (body i0 s))
        {b + c * i0..<b + c * (i0 + 2 + 2 * ((n - (i0 + 2) + 1) div 2))} f"
      by (rule filled_interval_trans [OF _ rest]) (auto intro: mult_le_mono2)
    moreover have "i0 + 2 + 2 * ((n - (i0 + 2) + 1) div 2) = i0 + 2 * ((n - i0 + 1) div 2)"
      using True by presburger
    ultimately have "filled s (for_loop 2 n (i0 + 2) body (body i0 s))
        {b + c * i0..<b + c * (i0 + 2 * ((n - i0 + 1) div 2))} f" by (simp only:)
    moreover have "for_loop 2 n i0 body s = for_loop 2 n (i0 + 2) body (body i0 s)"
      using True by (subst for_loop.simps) simp
    ultimately show ?thesis by (simp only:)
  next
    case False
    then show ?thesis by (subst for_loop.simps) (simp add: filled_refl)
  qed
qed

lemma neon_row_filled:
  assumes "3 \<le> w"
  shows "filled rgb (neon_row row up dn w b ev od rgb) {b..<b + 3 * row_end w}
    (rgb_byte b (row_pixel row up dn w ev od))" (is "filled _ _ _ ?f")
proof -
  let ?px = "row_pixel row up dn w ev od"
  let ?A = "\<lambda>x rgb. store_batch b x (neon_batch row up dn ev od x) rgb"
  let ?B = "\<lambda>x rgb. store_rgb (store_rgb rgb (b + x * 3) (scalar_pixel row up dn ev x)) (b + (x + 1) * 3)
      (scalar_pixel row up dn od (x + 1))"
  define s1 where "s1 = store_rgb (store_rgb rgb (b + 0 * 3) (edge_pixel row up dn ev)) (b + (0 + 1) * 3) (scalar_pixel row up dn od 1)"
  obtain e s2 where e: "stride_loop 8 (w - 2) 2 ?A s1 = (e, s2)" by fastforce
  have first: "filled rgb s1 {b + 3 * 0..<b + 3 * 2} ?f"
    unfolding s1_def using filled_store2 [of _ ?px 0 _ rgb b] by (simp add: row_pixel_def)
  have en: "e = batch_end w \<and> 2 \<le> e \<and> even e \<and> (3 < w \<longrightarrow> e \<le> w - 2)"
  proof (cases "w = 3")
    case True
    then show ?thesis using e by (simp add: stride_loop.simps batch_end_def)
  next
    case False
    then have "e \<le> w - 2" "2 \<le> e" "w - 2 < e + 8" "8 dvd e - 2"
      using stride_loop_end [of 2 "w - 2" 8 ?A s1] assms e by simp_all
    moreover obtain k where "e = 2 + 8 * k" using calculation by (metis dvdE le_add_diff_inverse)
    ultimately show ?thesis using False assms by (auto simp: batch_end_def)
  qed
  have second: "filled s1 s2 {b + 3 * 2..<b + 3 * e} ?f"
  proof (cases "w = 3")
    case True
    then show ?thesis using e by (auto simp: stride_loop.simps filled_refl)
  next
    case False
    show ?thesis
    proof (rule filled_stride_result [OF e])
      fix x s assume x: "x + 8 \<le> w - 2" "2 \<le> x" "8 dvd x - 2"
      obtain k where k: "x = 2 + 8 * k" using x by (metis dvdE le_add_diff_inverse)
      then have "k + 1 \<le> (w - 4) div 8" using x by linarith
      then have "x + 8 \<le> batch_end w" using k by (simp add: batch_end_def)
      then show "filled s (?A x s) {b + 3 * x..<b + 3 * (x + 8)} ?f"
        using x batch_pixel_at [OF x(3,2)] by (intro store_batch_filled) (simp_all add: row_pixel_def)
    qed (use False assms in auto)
  qed
  have "filled s2 (for_loop 2 (w - 2) e ?B s2) {b + 3 * e..<b + 3 * (e + 2 * ((w - 2 - e + 1) div 2))} ?f"
  proof (rule filled_for_2)
    fix x s assume "e \<le> x" "x < w - 2" "even (x - e)"
    then show "filled s (?B x s) {b + 3 * x..<b + 3 * (x + 2)} ?f"
      using en by (intro filled_store2) (auto simp: row_pixel_def)
  qed
  moreover have "e + 2 * ((w - 2 - e + 1) div 2) = row_end w"
  proof (cases "w = 3")
    case True
    then show ?thesis using en by (simp add: row_end_def batch_end_def)
  next
    case False
    then show ?thesis using en assms unfolding row_end_def by (auto elim!: evenE oddE) presburger+
  qed
  ultimately have third: "filled s2 (for_loop 2 (w - 2) e ?B s2) {b + 3 * e..<b + 3 * row_end w} ?f" by (simp only:)
  have "e \<le> row_end w"
    using en assms by (cases "w = 3") (auto simp: row_end_def batch_end_def)
  have "neon_row row up dn w b ev od rgb = for_loop 2 (w - 2) e ?B s2"
    using e by (simp add: neon_row_def Let_def s1_def)
  moreover have "filled rgb (for_loop 2 (w - 2) e ?B s2) {b + 3 * 0..<b + 3 * row_end w} ?f"
    using filled_interval_trans [OF filled_interval_trans [OF first second] third] en \<open>e \<le> row_end w\<close> by simp
  ultimately show ?thesis by simp
qed

section \<open>Borders\<close>

lemma length_edge_row [simp]: "length (edge_row w y rgb) = length rgb"
  by (simp add: edge_row_def Let_def)

text \<open>Where \<open>edge_row\<close> takes byte \<open>j\<close> of a row of \<open>w\<close> pixels from.\<close>

definition edge_src :: "nat \<Rightarrow> nat \<Rightarrow> nat" where
  "edge_src w j = (if j < 3 then j + 3 else if (w - 1) * 3 \<le> j then j - 3 else j)"

lemma edge_src_less: "3 \<le> w \<Longrightarrow> j < w * 3 \<Longrightarrow> edge_src w j < w * 3"
  by (auto simp: edge_src_def)

lemma edge_row_same:
  assumes "3 \<le> w" "j < w * 3" "(y + 1) * (w * 3) \<le> length rgb"
  shows "edge_row w y rgb ! (y * (w * 3) + j) = rgb ! (y * (w * 3) + edge_src w j)"
proof -
  obtain v where v: "w = v + 3" using assms(1) by (metis le_add_diff_inverse2)
  define off where "off = y * (w * 3)"
  have w: "(w - 1) * 3 = v * 3 + 6" "(w - 2) * 3 = v * 3 + 3" "(y + 1) * (w * 3) = off + (v * 3 + 9)"
    by (simp_all add: v off_def algebra_simps)
  have len: "off + (v * 3 + 8) < length rgb" using assms(3) unfolding w by simp
  have e: "edge_row w y rgb = rgb[off := rgb ! (off + 3), off + 1 := rgb ! (off + 4), off + 2 := rgb ! (off + 5),
      off + (v * 3 + 6) := rgb ! (off + (v * 3 + 3)), off + (v * 3 + 6) + 1 := rgb ! (off + (v * 3 + 3) + 1),
      off + (v * 3 + 6) + 2 := rgb ! (off + (v * 3 + 3) + 2)]"
    unfolding edge_row_def Let_def w off_def [symmetric] by (simp add: nth_list_update_neq)
  have j: "j < v * 3 + 9" using assms(2) v by simp
  then consider "j = 0" | "j = 1" | "j = 2" | "j = v * 3 + 6" | "j = v * 3 + 7" | "j = v * 3 + 8"
    | "3 \<le> j" "j < v * 3 + 6" by linarith
  then show ?thesis unfolding off_def [symmetric] e edge_src_def w using len
    by cases (simp_all add: nth_list_update add.commute add.left_commute)
qed

lemma edge_row_other:
  assumes "y \<noteq> y'" "j < w * 3" "3 \<le> w"
  shows "edge_row w y rgb ! (y' * (w * 3) + j) = rgb ! (y' * (w * 3) + j)"
proof -
  have ne: "y * (w * 3) + i \<noteq> y' * (w * 3) + j" if "i < w * 3" for i
  proof
    assume "y * (w * 3) + i = y' * (w * 3) + j"
    then have "(y * (w * 3) + i) div (w * 3) = (y' * (w * 3) + j) div (w * 3)" by simp
    then show False using assms(1,2) that by (simp only: div_mod_pos)
  qed
  have "(w - 1) * 3 + 2 < w * 3" using assms(3) by simp
  then show ?thesis
    using ne [of 0] ne [of 1] ne [of 2] ne [of "(w - 1) * 3"] ne [of "(w - 1) * 3 + 1"] ne [of "(w - 1) * 3 + 2"] assms(3)
    by (simp add: edge_row_def Let_def)
qed

lemma edge_rows_nth:
  assumes "3 \<le> w" "h * (w * 3) \<le> length rgb" "n \<le> h" "j < w * 3"
  shows "fold (edge_row w) [0..<n] rgb ! (y * (w * 3) + j) =
    rgb ! (y * (w * 3) + (if y < n then edge_src w j else j))"
  using assms(3,4)
proof (induction n arbitrary: j)
  case (Suc n)
  let ?s = "fold (edge_row w) [0..<n] rgb"
  have len: "length ?s = length rgb" by (rule fold_invariant [where Q = "\<lambda>_. True"]) auto
  have "(n + 1) * (w * 3) \<le> length ?s"
    using mult_le_mono1 [of "n + 1" h "w * 3"] Suc.prems assms(2) len by simp
  then show ?case
    using Suc edge_row_same [OF assms(1), of _ n ?s] edge_row_other [of n y _ w ?s] assms(1)
    by (cases "y = n") (auto simp: edge_src_less)
qed simp

text \<open>Row or column from which position \<open>i\<close> of \<open>n\<close> is taken.\<close>

definition inner :: "nat \<Rightarrow> nat \<Rightarrow> nat" where
  "inner n i = (if i = 0 then 1 else if i = n - 1 then n - 2 else i)"

lemma pixel_offset: "(y * w + x) * 3 + c = y * (w * 3) + (x * 3 + c)" for y w x c :: nat
  by (simp add: algebra_simps)

lemma edge_src_inner: "3 \<le> w \<Longrightarrow> x < w \<Longrightarrow> c < 3 \<Longrightarrow> edge_src w (x * 3 + c) = inner w x * 3 + c"
  by (auto simp: edge_src_def inner_def)

lemma fill_edges_nth:
  assumes "3 \<le> w" "3 \<le> h" "h * (w * 3) \<le> length rgb" "x < w" "y < h" "c < 3"
  shows "fill_edges w h rgb ! ((y * w + x) * 3 + c) = rgb ! ((inner h y * w + inner w x) * 3 + c)"
proof -
  define s1 where "s1 = write_at rgb 0 (take (w * 3) (drop (w * 3) rgb))"
  define s2 where "s2 = write_at s1 ((h - 1) * (w * 3)) (take (w * 3) (drop ((h - 2) * (w * 3)) s1))"
  have row: "y' * (w * 3) + (w * 3) \<le> length rgb" if "y' < h" for y'
    using mult_le_mono1 [of "Suc y'" h "w * 3"] that assms(3) by simp
  have fe: "fill_edges w h rgb = fold (edge_row w) [0..<h] s2"
    by (simp only: fill_edges_def Let_def for_loop_1 s1_def s2_def)
  have len: "length s2 = length rgb" by (simp add: s1_def s2_def)
  have s1: "s1 ! (y' * (w * 3) + j) = rgb ! ((if y' = 0 then 1 else y') * (w * 3) + j)"
    if "y' < h" "j < w * 3" for y' j
  proof -
    have in_range: "y' * (w * 3) + j < length rgb" using row [OF that(1)] that(2) by linarith
    show ?thesis
    proof (cases "y' = 0")
      case True
      then show ?thesis using row [of 1] assms(2) in_range that(2) by (simp add: s1_def nth_write_at)
    next
      case False
      then have "w * 3 \<le> y' * (w * 3)" by simp
      then have "\<not> y' * (w * 3) + j < w * 3" by linarith
      then show ?thesis using False in_range by (simp add: s1_def nth_write_at)
    qed
  qed
  have s2: "s2 ! (y * (w * 3) + j) = rgb ! (inner h y * (w * 3) + j)" if "j < w * 3" for j
  proof (cases "y = h - 1")
    case True
    have "s2 ! (y * (w * 3) + j) = s1 ! ((h - 2) * (w * 3) + j)"
      using row [of "h - 1"] row [of "h - 2"] assms that True by (simp add: s2_def nth_write_at s1_def)
    then show ?thesis using s1 [of "h - 2" j] assms that True by (auto simp: inner_def)
  next
    case False
    then have "Suc y \<le> h - 1" using assms(5) by linarith
    then have "y * (w * 3) + w * 3 \<le> (h - 1) * (w * 3)"
      using mult_le_mono1 [of "Suc y" "h - 1" "w * 3"] by simp
    then have "y * (w * 3) + j < (h - 1) * (w * 3)" using that by linarith
    then have "s2 ! (y * (w * 3) + j) = s1 ! (y * (w * 3) + j)"
      using row [OF assms(5)] that by (simp add: s2_def nth_write_at s1_def)
    then show ?thesis using s1 [OF assms(5) that] False by (simp add: inner_def)
  qed
  have xc: "x * 3 + c < w * 3" using assms by linarith
  show ?thesis unfolding fe pixel_offset
    using edge_rows_nth [of w h s2 h "x * 3 + c" y] s2 [OF edge_src_less [OF assms(1) xc]]
      edge_src_inner [OF assms(1,4,6)] assms xc len by simp
qed

section \<open>The whole frame\<close>

text \<open>What a row of the frame holds before the borders are copied.\<close>

definition frame_pixel :: "DemosaicParams \<Rightarrow> byte list \<Rightarrow> nat \<Rightarrow> nat \<Rightarrow> byte \<times> byte \<times> byte" where
  "frame_pixel p b8 y x =
     (let w = unat (dp_width p); (ev, od) = row_types p y
      in row_pixel (drop (y * w) b8) (drop ((y - 1) * w) b8) (drop ((y + 1) * w) b8) w ev od x)"

definition frame_byte :: "DemosaicParams \<Rightarrow> byte list \<Rightarrow> nat \<Rightarrow> byte" where
  "frame_byte p b8 k =
     (let s = unat (dp_width p) * 3; y = k div s in rgb_byte (y * s) (frame_pixel p b8 y) k)"

lemma row_end_le: "row_end w \<le> w"
  by (simp add: row_end_def)

lemma process_rows_filled:
  assumes "3 \<le> unat (dp_width p)" "w = unat (dp_width p)"
  shows "filled rgb (for_loop 1 n 1 (process_row p b8) rgb)
    (\<Union>y\<in>{1..<n}. {y * (w * 3)..<y * (w * 3) + 3 * row_end w}) (frame_byte p b8)"
proof -
  have "filled s (process_row p b8 y s) {y * (w * 3)..<y * (w * 3) + 3 * row_end w} (frame_byte p b8)" for y s
  proof (rule filled_cong)
    obtain ev od where t: "row_types p y = (ev, od)" by fastforce
    then have "frame_pixel p b8 y = row_pixel (drop (y * w) b8) (drop ((y - 1) * w) b8) (drop ((y + 1) * w) b8) w ev od"
      by (intro ext) (simp add: frame_pixel_def assms(2) Let_def)
    then show "filled s (process_row p b8 y s) {y * (w * 3)..<y * (w * 3) + 3 * row_end w}
        (rgb_byte (y * (w * 3)) (frame_pixel p b8 y))"
      using neon_row_filled [OF assms(1)] assms(2) t by (simp add: process_row_def Let_def)
    fix k assume k: "k \<in> {y * (w * 3)..<y * (w * 3) + 3 * row_end w}"
    then obtain j where "k = y * (w * 3) + j" "j < w * 3"
      using row_end_le [of w] by (auto dest!: le_Suc_ex simp: nat_le_iff_add)
    then have "k div (w * 3) = y" by simp
    then show "rgb_byte (y * (w * 3)) (frame_pixel p b8 y) k = frame_byte p b8 k"
      using assms(2) by (simp add: frame_byte_def Let_def)
  qed
  then show ?thesis unfolding for_loop_1 using filled_fold [of "[1..<n]" "process_row p b8"] by simp
qed

lemma process_rows_pixel:
  assumes "3 \<le> w" "w = unat (dp_width p)" "h * (w * 3) \<le> length rgb" "1 \<le> y" "y < h - 1" "x < w"
  shows "read_rgb (for_loop 1 (h - 1) 1 (process_row p b8) rgb) ((y * w + x) * 3) =
    (if x < row_end w then frame_pixel p b8 y x else read_rgb rgb ((y * w + x) * 3))"
proof -
  let ?D = "\<Union>y\<in>{1..<h - 1}. {y * (w * 3)..<y * (w * 3) + 3 * row_end w}"
  have F: "filled rgb (for_loop 1 (h - 1) 1 (process_row p b8) rgb) ?D (frame_byte p b8)"
    using process_rows_filled [OF _ assms(2)] assms(1,2) by simp
  have byte: "for_loop 1 (h - 1) 1 (process_row p b8) rgb ! ((y * w + x) * 3 + c) =
      (if x < row_end w then frame_byte p b8 ((y * w + x) * 3 + c) else rgb ! ((y * w + x) * 3 + c))" if "c < 3" for c
  proof -
    have xc: "x * 3 + c < w * 3" using assms(6) that by linarith
    have "y < h" using assms by linarith
    then have k: "(y * w + x) * 3 + c < length rgb"
      using cell_less [OF xc \<open>y < h\<close>] assms(3) unfolding pixel_offset by linarith
    have "(y * w + x) * 3 + c \<in> ?D \<longleftrightarrow> x < row_end w"
    proof
      assume "(y * w + x) * 3 + c \<in> ?D"
      then obtain y' where y': "y' * (w * 3) \<le> y * (w * 3) + (x * 3 + c)"
          "y * (w * 3) + (x * 3 + c) < y' * (w * 3) + 3 * row_end w" unfolding pixel_offset by auto
      then obtain j where j: "y * (w * 3) + (x * 3 + c) = y' * (w * 3) + j" "j < 3 * row_end w"
        by (metis add_less_cancel_left le_iff_add)
      then have "j < w * 3" using row_end_le [of w] by linarith
      then have "(y * (w * 3) + (x * 3 + c)) mod (w * 3) = j" unfolding j(1) by simp
      then have "x * 3 + c = j" using xc by simp
      then show "x < row_end w" using j(2) by linarith
    next
      assume "x < row_end w"
      then have "(y * w + x) * 3 + c \<in> {y * (w * 3)..<y * (w * 3) + 3 * row_end w}"
        unfolding pixel_offset using that by simp
      then show "(y * w + x) * 3 + c \<in> ?D" using assms(4,5) by (intro UN_I [of y]) auto
    qed
    then show ?thesis using filled_nth [OF F k] by (simp only:)
  qed
  have fb: "frame_byte p b8 ((y * w + x) * 3 + c) = rgb_byte (y * (w * 3)) (frame_pixel p b8 y) (y * (w * 3) + 3 * x + c)" if "c < 3" for c
  proof -
    have "x * 3 + c < w * 3" using assms(6) that by linarith
    then have "(y * (w * 3) + (x * 3 + c)) div (w * 3) = y" by simp
    then show ?thesis unfolding frame_byte_def pixel_offset Let_def assms(2) [symmetric] by (simp add: algebra_simps)
  qed
  have "(frame_byte p b8 ((y * w + x) * 3 + 0), frame_byte p b8 ((y * w + x) * 3 + 1), frame_byte p b8 ((y * w + x) * 3 + 2)) =
      frame_pixel p b8 y x"
    unfolding fb [of 0, simplified] fb [of 1, simplified] fb [of 2, simplified]
    using rgb_byte_at [of "y * (w * 3)" "frame_pixel p b8 y" x] fb [of 0] fb [of 1] fb [of 2] by (simp only: add_0_right)
  then show ?thesis using byte [of 0] byte [of 1] byte [of 2] by (simp add: read_rgb_def)
qed

lemma fill_edges_pixel:
  assumes "3 \<le> w" "3 \<le> h" "h * (w * 3) \<le> length rgb" "x < w" "y < h"
  shows "read_rgb (fill_edges w h rgb) ((y * w + x) * 3) = read_rgb rgb ((inner h y * w + inner w x) * 3)"
  using fill_edges_nth [OF assms, of 0] fill_edges_nth [OF assms, of 1] fill_edges_nth [OF assms, of 2]
  by (simp add: read_rgb_def)

lemma inner_inner: "3 \<le> n \<Longrightarrow> inner n (inner n i) = inner n i"
  by (auto simp: inner_def)

lemma inner_less: "3 \<le> n \<Longrightarrow> i < n \<Longrightarrow> inner n i < n"
  by (auto simp: inner_def)

section \<open>Vector lanes against the scalar formulas\<close>

lemma uzp_lane:
  assumes "i < 4"
  shows "vuzp0 (vld1_u8 m p) (vld1_u8 m p) ! i = m ! (p + 2 * i)"
    "vuzp1 (vld1_u8 m p) (vld1_u8 m p) ! i = m ! (p + 2 * i + 1)"
    "vuzp0 (vld1_u8 m p) (vld1_u8 m p) ! (i + 4) = m ! (p + 2 * i)"
    "vuzp1 (vld1_u8 m p) (vld1_u8 m p) ! (i + 4) = m ! (p + 2 * i + 1)"
  using assms by (simp_all add: vuzp0_def vuzp1_def vld1_u8_def nth_append)

lemma length_uzp [simp]:
  "length (vuzp0 (vld1_u8 m p) v) = 8" "length (vuzp1 (vld1_u8 m p) v) = 8"
  by (simp_all add: vuzp0_def vuzp1_def vld1_u8_def)

lemma length_vext [simp]: "length a = 8 \<Longrightarrow> length b = 8 \<Longrightarrow> length (vext a b 1) = 8"
  by (simp add: vext_def)

lemma vext_lane:
  "length a = 8 \<Longrightarrow> i < 7 \<Longrightarrow> vext a b 1 ! i = a ! (i + 1)"
  by (simp add: vext_def nth_append)

lemma sum4_lane:
  assumes "length a = 8" "length b = 8" "length c = 8" "length d = 8" "i < 8"
  shows "vshrn_n_u16 (vaddq (vaddl_u8 a b) (vaddl_u8 c d)) 2 ! i =
    clamp (drop_bit 2 (uint (a ! i) + uint (b ! i) + uint (c ! i) + uint (d ! i)))"
proof -
  define k where "k = uint (a ! i) + uint (b ! i) + uint (c ! i) + uint (d ! i)"
  have k: "0 \<le> k" "k \<le> 1020" using byte_le [of "a ! i"] byte_le [of "b ! i"] byte_le [of "c ! i"] byte_le [of "d ! i"]
    unfolding k_def by (simp, linarith)
  have u: "uint ((ucast (a ! i) + ucast (b ! i)) + (ucast (c ! i) + ucast (d ! i)) :: u16) = k"
  proof -
    have "(ucast (a ! i) + ucast (b ! i)) + (ucast (c ! i) + ucast (d ! i)) = (word_of_int k :: u16)"
      by (simp add: k_def)
    then show ?thesis using uint_16 [of k] k by simp
  qed
  have "vshrn_n_u16 (vaddq (vaddl_u8 a b) (vaddl_u8 c d)) 2 ! i =
      ucast (drop_bit 2 ((ucast (a ! i) + ucast (b ! i)) + (ucast (c ! i) + ucast (d ! i)) :: u16))"
    using assms by (simp add: vshrn_n_u16_def vaddq_def vaddl_u8_def)
  also have "\<dots> = word_of_int (uint (drop_bit 2 ((ucast (a ! i) + ucast (b ! i)) + (ucast (c ! i) + ucast (d ! i)) :: u16)))"
    by (rule ucast_eq)
  also have "\<dots> = word_of_int (k div 4)"
    using k by (simp only: unsigned_drop_bit_eq u) (simp add: take_bit_int_eq_self drop_bit_eq_div)
  also have "\<dots> = clamp (drop_bit 2 k)"
  proof -
    have "drop_bit 2 k div 256 = 0" using k by (simp add: drop_bit_eq_div)
    then show ?thesis by (simp add: clamp_def drop_bit_eq_div)
  qed
  finally show ?thesis by (simp only: k_def)
qed

lemma sum2_lane:
  assumes "length a = 8" "length b = 8" "i < 8"
  shows "vshrn_n_u16 (vaddl_u8 a b) 1 ! i = clamp (drop_bit 1 (uint (a ! i) + uint (b ! i)))"
proof -
  define k where "k = uint (a ! i) + uint (b ! i)"
  have k: "0 \<le> k" "k \<le> 510" using byte_le [of "a ! i"] byte_le [of "b ! i"] unfolding k_def by (simp, linarith)
  have u: "uint (ucast (a ! i) + ucast (b ! i) :: u16) = k"
  proof -
    have "ucast (a ! i) + ucast (b ! i) = (word_of_int k :: u16)" by (simp add: k_def)
    then show ?thesis using uint_16 [of k] k by simp
  qed
  have "vshrn_n_u16 (vaddl_u8 a b) 1 ! i = ucast (drop_bit 1 (ucast (a ! i) + ucast (b ! i) :: u16))"
    using assms by (simp add: vshrn_n_u16_def vaddl_u8_def)
  also have "\<dots> = word_of_int (uint (drop_bit 1 (ucast (a ! i) + ucast (b ! i) :: u16)))" by (rule ucast_eq)
  also have "\<dots> = word_of_int (k div 2)"
    using k by (simp only: unsigned_drop_bit_eq u) (simp add: take_bit_int_eq_self drop_bit_eq_div)
  also have "\<dots> = clamp (drop_bit 1 k)"
  proof -
    have "drop_bit 1 k div 256 = 0" using k by (simp add: drop_bit_eq_div)
    then show ?thesis by (simp add: clamp_def drop_bit_eq_div)
  qed
  finally show ?thesis by (simp only: k_def)
qed

lemma rhadd_lane:
  assumes "length a = 8" "length b = 8" "i < 8"
  shows "vrhadd_u8 a b ! i = word_of_int ((uint (a ! i) + uint (b ! i) + 1) div 2)"
  using assms by (simp add: vrhadd_u8_def)

lemma clamp_byte: "clamp (uint b) = b"
proof -
  have "drop_bit 8 (uint b) = 0" using byte_less [of b] uint_ge_0 [of b] by (simp add: drop_bit_eq_div)
  then show ?thesis by (simp add: clamp_def)
qed

lemma rhadd_near: "\<bar>uint (word_of_int ((uint a + uint b + 1) div 2) :: byte) -
    uint (clamp (drop_bit 1 (uint a + uint b)))\<bar> \<le> 1" for a b :: byte
proof -
  define k where "k = uint a + uint b"
  have k: "0 \<le> k" "k \<le> 510" using byte_le [of a] byte_le [of b] unfolding k_def by (simp, linarith)
  have "drop_bit 8 (drop_bit 1 k) = 0" using k by (simp add: drop_bit_eq_div)
  then have "uint (clamp (drop_bit 1 k)) = k div 2"
    using k uint_8 [of "k div 2"] by (simp add: clamp_def drop_bit_eq_div)
  moreover have "uint (word_of_int ((k + 1) div 2) :: byte) = (k + 1) div 2" using k by (intro uint_8) auto
  moreover have "\<bar>(k + 1) div 2 - k div 2\<bar> \<le> 1" by linarith
  ultimately show ?thesis by (simp only: k_def [symmetric])
qed

text \<open>The lanes of the batch at \<open>x\<close> that read the samples their column calls for.\<close>

lemmas batch_simps = neon_batch_def Let_def lane3_def sum4_lane sum2_lane [unfolded One_nat_def] rhadd_lane
  vext_lane [unfolded One_nat_def] length_vext [unfolded One_nat_def] uzp_lane scalar_pixel_def

lemma batch_even_lane:
  assumes "2 \<le> x" "i < 4"
  shows "lane3 (fst (neon_batch row up dn 0 od x)) i = scalar_pixel row up dn 0 (x + 2 * i)"
    "lane3 (fst (neon_batch row up dn 3 od x)) i = scalar_pixel row up dn 3 (x + 2 * i)"
    "lane3 (fst (neon_batch row up dn 2 od x)) i =
       (clamp (drop_bit 1 (uint (up ! (x + 2 * i)) + uint (dn ! (x + 2 * i)))), row ! (x + 2 * i),
        word_of_int ((uint (row ! (x + 2 * i - 1)) + uint (row ! (x + 2 * i + 1)) + 1) div 2))"
    "i < 3 \<Longrightarrow> fst (lane3 (fst (neon_batch row up dn 1 od x)) i) =
       word_of_int ((uint (row ! (x + 2 * i)) + uint (row ! (x + 2 * i + 2)) + 1) div 2)"
proof -
  obtain v where x: "x = Suc (Suc v)" using assms(1) by (metis add_2_eq_Suc le_Suc_ex)
  show "lane3 (fst (neon_batch row up dn 0 od x)) i = scalar_pixel row up dn 0 (x + 2 * i)"
    "lane3 (fst (neon_batch row up dn 3 od x)) i = scalar_pixel row up dn 3 (x + 2 * i)"
    "lane3 (fst (neon_batch row up dn 2 od x)) i =
       (clamp (drop_bit 1 (uint (up ! (x + 2 * i)) + uint (dn ! (x + 2 * i)))), row ! (x + 2 * i),
        word_of_int ((uint (row ! (x + 2 * i - 1)) + uint (row ! (x + 2 * i + 1)) + 1) div 2))"
    using assms(2) by (simp_all add: batch_simps x clamp_byte algebra_simps)
  show "i < 3 \<Longrightarrow> fst (lane3 (fst (neon_batch row up dn 1 od x)) i) =
       word_of_int ((uint (row ! (x + 2 * i)) + uint (row ! (x + 2 * i + 2)) + 1) div 2)"
    by (simp add: batch_simps x algebra_simps)
qed

lemma batch_odd_lane:
  assumes "2 \<le> x" "i < 3"
  shows "lane3 (snd (neon_batch row up dn ev 0 x)) i = scalar_pixel row up dn 0 (x + 2 * i + 1)"
    "lane3 (snd (neon_batch row up dn ev 3 x)) i = scalar_pixel row up dn 3 (x + 2 * i + 1)"
    "lane3 (snd (neon_batch row up dn ev 1 x)) i =
       (word_of_int ((uint (row ! (x + 2 * i)) + uint (row ! (x + 2 * i + 2)) + 1) div 2), row ! (x + 2 * i + 1),
        clamp (drop_bit 1 (uint (up ! (x + 2 * i + 1)) + uint (dn ! (x + 2 * i + 1)))))"
proof -
  obtain v where x: "x = Suc (Suc v)" using assms(1) by (metis add_2_eq_Suc le_Suc_ex)
  show "lane3 (snd (neon_batch row up dn ev 0 x)) i = scalar_pixel row up dn 0 (x + 2 * i + 1)"
    "lane3 (snd (neon_batch row up dn ev 3 x)) i = scalar_pixel row up dn 3 (x + 2 * i + 1)"
    "lane3 (snd (neon_batch row up dn ev 1 x)) i =
       (word_of_int ((uint (row ! (x + 2 * i)) + uint (row ! (x + 2 * i + 2)) + 1) div 2), row ! (x + 2 * i + 1),
        clamp (drop_bit 1 (uint (up ! (x + 2 * i + 1)) + uint (dn ! (x + 2 * i + 1)))))"
    using assms(2) by (simp_all add: batch_simps x clamp_byte algebra_simps)
qed

lemma batch_odd_last_lane:
  assumes "2 \<le> x"
  shows "fst (lane3 (snd (neon_batch row up dn ev 1 x)) 3) =
    word_of_int ((uint (row ! (x + 6)) + uint (row ! x) + 1) div 2)"
proof -
  obtain v where x: "x = Suc (Suc v)" using assms(1) by (metis add_2_eq_Suc le_Suc_ex)
  have "vuzp1 (vld1_u8 row (x - 1)) (vld1_u8 row (x - 1)) ! 4 = row ! x"
    using uzp_lane(4) [of 0 row "x - 1"] assms by simp
  then show ?thesis by (simp add: batch_simps x algebra_simps)
qed

section \<open>Properties\<close>

definition near_rgb :: "byte \<times> byte \<times> byte \<Rightarrow> byte \<times> byte \<times> byte \<Rightarrow> bool" where
  "near_rgb p q = (case (p, q) of ((r, g, b), (r', g', b')) \<Rightarrow>
     \<bar>uint r - uint r'\<bar> \<le> 1 \<and> g = g' \<and> \<bar>uint b - uint b'\<bar> \<le> 1)"

lemma near_rgb_refl: "near_rgb p p"
  by (cases p) (simp add: near_rgb_def)

text \<open>
  C29. In a vector batch of the demosaic row loop, every even column of type R, B or G2 and every odd
  column but the last of type R, B or G1 gets the colour of the scalar remainder loop: exactly at red and
  blue sites, and within one grey level in one channel at green sites, where the vector code rounds
  the horizontal average up.
\<close>

theorem neon_batch_matches_scalar:
  assumes "2 \<le> x"
  shows "(ev \<in> {0, 3} \<and> i < 4 \<longrightarrow>
            lane3 (fst (neon_batch row up dn ev od x)) i = scalar_pixel row up dn ev (x + 2 * i)) \<and>
         (od \<in> {0, 3} \<and> i < 3 \<longrightarrow>
            lane3 (snd (neon_batch row up dn ev od x)) i = scalar_pixel row up dn od (x + 2 * i + 1)) \<and>
         (ev = 2 \<and> i < 4 \<longrightarrow>
            near_rgb (lane3 (fst (neon_batch row up dn ev od x)) i) (scalar_pixel row up dn ev (x + 2 * i))) \<and>
         (od = 1 \<and> i < 3 \<longrightarrow>
            near_rgb (lane3 (snd (neon_batch row up dn ev od x)) i) (scalar_pixel row up dn od (x + 2 * i + 1)))"
proof (intro conjI impI)
  assume "ev \<in> {0, 3} \<and> i < 4"
  then show "lane3 (fst (neon_batch row up dn ev od x)) i = scalar_pixel row up dn ev (x + 2 * i)"
    using batch_even_lane(1,2) [OF assms] by blast
next
  assume "od \<in> {0, 3} \<and> i < 3"
  then show "lane3 (snd (neon_batch row up dn ev od x)) i = scalar_pixel row up dn od (x + 2 * i + 1)"
    using batch_odd_lane(1,2) [OF assms] by blast
next
  assume "ev = 2 \<and> i < 4"
  then show "near_rgb (lane3 (fst (neon_batch row up dn ev od x)) i) (scalar_pixel row up dn ev (x + 2 * i))"
    using batch_even_lane(3) [OF assms, of i row up dn od] rhadd_near [of "row ! (x + 2 * i - 1)" "row ! (x + 2 * i + 1)"]
    by (simp add: near_rgb_def scalar_pixel_def clamp_byte)
next
  assume "od = 1 \<and> i < 3"
  then show "near_rgb (lane3 (snd (neon_batch row up dn ev od x)) i) (scalar_pixel row up dn od (x + 2 * i + 1))"
    using batch_odd_lane(3) [OF assms, of i row up dn ev] rhadd_near [of "row ! (x + 2 * i)" "row ! (x + 2 * i + 2)"]
    by (simp add: near_rgb_def scalar_pixel_def clamp_byte)
qed

theorem neon_batch_matches_scalar_witness:
  "lane3 (fst (neon_batch (replicate 16 40) (replicate 16 90) (replicate 16 10) 0 1 2)) 3 =
     scalar_pixel (replicate 16 40) (replicate 16 90) (replicate 16 10) 0 8"
  using neon_batch_matches_scalar [of 2 0 3 "replicate 16 40" "replicate 16 90" "replicate 16 10" 1] by simp

text \<open>
  Where the vector batch reads the wrong samples. At the last odd column of a batch of type G1 the
  red value averages the samples of columns \<open>x + 6\<close> and \<open>x\<close>, where the right-hand neighbour is column
  \<open>x + 8\<close>; at an even column of type G1 it averages the green samples of that column and of the next
  even column, where the red neighbours are the odd columns beside it; and at an odd column of type G2
  red and blue get the same, vertical, average. The statement exhibits rows on which the result is off
  by 200 grey levels.
\<close>

theorem neon_batch_wrong_samples:
  assumes "2 \<le> x"
  shows "fst (lane3 (snd (neon_batch row up dn ev 1 x)) 3) =
      word_of_int ((uint (row ! (x + 6)) + uint (row ! x) + 1) div 2) \<and>
    (\<forall>i<3. fst (lane3 (fst (neon_batch row up dn 1 od x)) i) =
      word_of_int ((uint (row ! (x + 2 * i)) + uint (row ! (x + 2 * i + 2)) + 1) div 2)) \<and>
    (\<forall>i<4. fst (lane3 (snd (neon_batch row up dn ev 2 x)) i) = snd (snd (lane3 (snd (neon_batch row up dn ev 2 x)) i))) \<and>
    (let row = [0, 0, 0, 200, 0, 200, 0, 200, 0, 200, 0, 200]; z = replicate 12 0
     in fst (lane3 (fst (neon_batch row z z 1 0 2)) 0) = 0 \<and> fst (scalar_pixel row z z 1 4) = 200)"
proof (intro conjI allI impI)
  show "fst (lane3 (snd (neon_batch row up dn ev 1 x)) 3) =
      word_of_int ((uint (row ! (x + 6)) + uint (row ! x) + 1) div 2)"
    by (rule batch_odd_last_lane [OF assms])
  show "fst (lane3 (fst (neon_batch row up dn 1 od x)) i) =
      word_of_int ((uint (row ! (x + 2 * i)) + uint (row ! (x + 2 * i + 2)) + 1) div 2)" if "i < 3" for i
    using batch_even_lane(4) [OF assms _ that] that by simp
  show "fst (lane3 (snd (neon_batch row up dn ev 2 x)) i) = snd (snd (lane3 (snd (neon_batch row up dn ev 2 x)) i))" for i
    by (simp add: neon_batch_def Let_def lane3_def)
  show "let row = [0, 0, 0, 200, 0, 200, 0, 200, 0, 200, 0, 200]; z = replicate 12 0
     in fst (lane3 (fst (neon_batch row z z 1 0 2)) 0) = 0 \<and> fst (scalar_pixel row z z 1 4) = 200"
  proof -
    have "fst (lane3 (fst (neon_batch [0, 0, 0, 200, 0, 200, 0, 200, 0, 200, 0, 200] (replicate 12 0) (replicate 12 0) 1 0 2)) 0) = 0"
      using batch_even_lane(4) [of 2 0 "[0, 0, 0, 200, 0, 200, 0, 200, 0, 200, 0, 200]" "replicate 12 0" "replicate 12 0" 0] by simp
    moreover have "fst (scalar_pixel [0, 0, 0, 200, 0, 200, 0, 200, 0, 200, 0, 200] (replicate 12 0) (replicate 12 0) 1 4) = 200"
      using clamp_byte [of 200] by (simp add: scalar_pixel_def drop_bit_eq_div)
    ultimately show ?thesis by (simp add: Let_def)
  qed
qed

theorem neon_batch_wrong_samples_witness:
  "fst (lane3 (snd (neon_batch [0, 0, 0, 0, 0, 0, 0, 0, 0, 0, 200, 0] (replicate 12 0) (replicate 12 0) 0 1 2)) 3) = 0"
  using neon_batch_wrong_samples [of 2 "[0, 0, 0, 0, 0, 0, 0, 0, 0, 0, 200, 0]" "replicate 12 0" "replicate 12 0" 0 0]
  by simp


definition sample_demosaic :: DemosaicNEON where
  "sample_demosaic =
     \<lparr>dm_mParams = \<lparr>dp_width = 4, dp_height = 3, dp_bayerPattern = 0, dp_offset_x = 0, dp_offset_y = 0,
        dp_blackLevel = 0, dp_whiteLevel = 255\<rparr>,
      dm_mInitialized = True, dm_mBayerBuf = Some (replicate 92 0), dm_mBayerBufSize = 92,
      dm_mNormLut = map (normLut_entry 0 255) [0..<256]\<rparr>"

lemma sample_demosaic_sel [simp]:
  "dm_mInitialized sample_demosaic" "dm_mBayerBuf sample_demosaic = Some (replicate 92 0)"
  "unat (dp_width (dm_mParams sample_demosaic)) = 4" "unat (dp_height (dm_mParams sample_demosaic)) = 3"
  "unat (dp_bayerPattern (dm_mParams sample_demosaic)) = 0"
  by (simp_all add: sample_demosaic_def)


text \<open>
  For an even width, as every sensor mode has, no loop of the demosaic stores column \<open>w - 2\<close>: after
  \<open>process\<close> the last two columns of every interior row hold the bytes column \<open>w - 2\<close> of the output
  buffer held before, not an interpolated colour.
\<close>

theorem process_leaves_last_columns_stale:
  assumes d: "dm_mInitialized d" "dm_mBayerBuf d = Some buf" "p = dm_mParams d"
    and w: "w = unat (dp_width p)" "4 \<le> w" "even w" and h: "h = unat (dp_height p)" "3 \<le> h"
    and len: "h * (w * 3) \<le> length rgb" and y: "1 \<le> y" "y < h - 1"
  shows "\<exists>out d'. dm_process d (Some inp) (Some rgb) = (Some out, d') \<and>
    read_rgb out ((y * w + (w - 2)) * 3) = read_rgb rgb ((y * w + (w - 2)) * 3) \<and>
    read_rgb out ((y * w + (w - 1)) * 3) = read_rgb rgb ((y * w + (w - 2)) * 3)"
proof -
  define b8 where "b8 = raw10_to_8bit inp buf (w * h) (dm_mNormLut d)"
  define s where "s = for_loop 1 (h - 1) 1 (process_row p b8) rgb"
  have r: "dm_process d (Some inp) (Some rgb) = (Some (fill_edges w h s), d\<lparr>dm_mBayerBuf := Some b8\<rparr>)"
    using d by (simp add: dm_process_def Let_def w h b8_def s_def)
  have w3: "3 \<le> w" using w by simp
  have slen: "h * (w * 3) \<le> length s"
    using len filled_length [OF process_rows_filled [of p w rgb "h - 1" b8]] w by (simp add: s_def)
  have "y < h" "inner h y = y" "inner w (w - 2) = w - 2" "inner w (w - 1) = w - 2"
    using y w by (auto simp: inner_def)
  then have "read_rgb (fill_edges w h s) ((y * w + (w - 2)) * 3) = read_rgb s ((y * w + (w - 2)) * 3)"
    "read_rgb (fill_edges w h s) ((y * w + (w - 1)) * 3) = read_rgb s ((y * w + (w - 2)) * 3)"
    using fill_edges_pixel [OF w3 h(2) slen, of "w - 2" y] fill_edges_pixel [OF w3 h(2) slen, of "w - 1" y] w by simp_all
  moreover have "read_rgb s ((y * w + (w - 2)) * 3) = read_rgb rgb ((y * w + (w - 2)) * 3)"
    using process_rows_pixel [OF w3 w(1) len y, of "w - 2" b8] w by (simp add: s_def row_end_def)
  ultimately show ?thesis using r by simp
qed

theorem process_leaves_last_columns_stale_witness:
  "\<exists>out d'. dm_process sample_demosaic (Some (replicate 24 1)) (Some (replicate 36 7)) = (Some out, d') \<and>
     read_rgb out ((1 * 4 + 3) * 3) = (7, 7, 7)"
proof -
  have "\<exists>out d'. dm_process sample_demosaic (Some (replicate 24 1)) (Some (replicate 36 7)) = (Some out, d') \<and>
      read_rgb out ((1 * 4 + (4 - 2)) * 3) = read_rgb (replicate 36 7) ((1 * 4 + (4 - 2)) * 3) \<and>
      read_rgb out ((1 * 4 + (4 - 1)) * 3) = read_rgb (replicate 36 7) ((1 * 4 + (4 - 2)) * 3)"
    by (rule process_leaves_last_columns_stale [of sample_demosaic "replicate 92 0" "dm_mParams sample_demosaic" 4 3]) simp_all
  moreover have "read_rgb (replicate 36 7 :: byte list) ((1 * 4 + (4 - 2)) * 3) = (7, 7, 7)"
    by (simp add: read_rgb_def nth_replicate)
  ultimately show ?thesis by force
qed

lemma raw10_sample_value:
  "uint (raw10_sample inp i) = (uint (inp ! (i * 2)) + 256 * uint (inp ! (i * 2 + 1))) mod 1024"
proof -
  define lo hi where "lo = uint (inp ! (i * 2))" and "hi = uint (inp ! (i * 2 + 1))"
  have r: "0 \<le> lo" "lo < 256" "0 \<le> hi" "hi < 256" by (simp_all add: lo_def hi_def)
  have "uint (ucast (inp ! (i * 2)) :: u32) = lo" "uint (ucast (inp ! (i * 2 + 1)) :: u32) = hi"
    by (simp_all add: lo_def hi_def)
  moreover have "take_bit 32 (push_bit 8 hi) = push_bit 8 hi"
    using r by (simp add: take_bit_int_eq_self push_bit_eq_mult)
  ultimately have "uint (raw10_sample inp i) = (lo OR push_bit 8 hi) AND 0x3FF"
    by (simp add: raw10_sample_def unsigned_and_eq unsigned_or_eq unsigned_push_bit_eq del: push_bit_numeral)
  moreover have "lo OR push_bit 8 hi = lo + push_bit 8 hi"
    using concat_bit_eq [of 8 lo hi] r by (simp add: concat_bit_def take_bit_int_eq_self)
  moreover have "k AND 0x3FF = k mod 1024" for k :: int
    using take_bit_eq_mask [of 10 k] by (simp add: take_bit_eq_mod mask_eq_exp_minus_1)
  ultimately show ?thesis by (simp add: lo_def hi_def push_bit_eq_mult mult.commute)
qed

lemma normLut_entry_value:
  assumes "0 \<le> bl" "bl < wl" "i < 256"
  shows "uint (normLut_entry bl wl i) =
    (if int i \<le> bl then 0 else if wl \<le> int i then 255 else (int i - bl) * 255 div (wl - bl))"
proof -
  define v where "v = (if int i - bl < 0 then 0 else int i - bl)"
  define q where "q = v * 255 div (wl - bl)"
  have n: "normLut_entry bl wl i = word_of_int (if q > 255 then 255 else q)"
    using assms by (simp add: normLut_entry_def Let_def q_def v_def)
  have "0 \<le> v" by (simp add: v_def)
  then have q0: "0 \<le> q" using assms by (simp add: q_def pos_imp_zdiv_nonneg_iff)
  consider "int i \<le> bl" | "wl \<le> int i" | "bl < int i" "int i < wl" by linarith
  then show ?thesis
  proof cases
    case 1
    then have "q = 0" by (simp add: q_def v_def)
    then show ?thesis using 1 by (simp add: n)
  next
    case 2
    then have "(wl - bl) * 255 \<le> v * 255" using assms by (simp add: v_def)
    moreover have "(wl - bl) * 255 div (wl - bl) = 255"
      using assms by (intro nonzero_mult_div_cancel_left) simp
    ultimately have "255 \<le> q"
      using assms zdiv_mono1 [of "(wl - bl) * 255" "v * 255" "wl - bl"] unfolding q_def by linarith
    then have "(if q > 255 then 255 else q) = 255" by simp
    then show ?thesis using 2 assms by (simp add: n)
  next
    case 3
    then have v: "v = int i - bl" "v * 255 \<le> (wl - bl) * 255" by (simp_all add: v_def)
    moreover have "(wl - bl) * 255 div (wl - bl) = 255"
      using assms by (intro nonzero_mult_div_cancel_left) simp
    ultimately have "q \<le> 255"
      using assms zdiv_mono1 [of "v * 255" "(wl - bl) * 255" "wl - bl"] unfolding q_def by linarith
    then have "uint (normLut_entry bl wl i) = q" using q0 unfolding n by (subst uint_8) auto
    then show ?thesis using 3 v(1) by (simp add: q_def)
  qed
qed

text \<open>
  After a successful \<open>initialize\<close> with a black level below the white level, the demosaicer's sample
  buffer holds at least \<open>width * height\<close> bytes, and unpacking maps the little-endian 16-bit word of
  sample \<open>i\<close> to its low ten bits divided by four, black level subtracted and stretched to 0..255: 0
  at or below the black level, 255 at or above the white level, and the linear ramp between.
\<close>

theorem initialize_and_unpack:
  assumes ok: "dm_initialize realloc params d = (0, d')"
    and realloc: "\<And>old n buf. realloc old n = Some buf \<Longrightarrow> length buf = n"
    and size: "\<forall>buf. dm_mBayerBuf d = Some buf \<longrightarrow> length buf = dm_mBayerBufSize d"
      "dm_mBayerBuf d = None \<longrightarrow> dm_mBayerBufSize d = 0"
    and bl: "bl = uint (dp_blackLevel params)"
    and wl: "wl = (if dp_whiteLevel params = 0 then 255 else uint (dp_whiteLevel params))" and "bl < wl"
    and n: "n = unat (dp_width params) * unat (dp_height params)" and i: "i < n"
  shows "\<exists>buf. dm_mInitialized d' \<and> dm_mParams d' = params \<and> dm_mBayerBuf d' = Some buf \<and> n \<le> length buf \<and>
    (let v = (uint (inp ! (i * 2)) + 256 * uint (inp ! (i * 2 + 1))) mod 1024 div 4 in
     uint (raw10_to_8bit inp buf n (dm_mNormLut d') ! i) =
       (if v \<le> bl then 0 else if wl \<le> v then 255 else (v - bl) * 255 div (wl - bl)))"
proof -
  have nz: "\<not> (dp_width params = 0 \<or> dp_height params = 0)" using ok by (auto simp: dm_initialize_def)
  have lut: "dm_mNormLut d' = map (normLut_entry bl wl) [0..<256]" and st: "dm_mInitialized d'" "dm_mParams d' = params"
    using ok nz unfolding dm_initialize_def by (auto simp: Let_def bl wl split: if_splits option.splits)
  obtain buf where buf: "dm_mBayerBuf d' = Some buf" "n + 16 \<le> length buf"
  proof (cases "n + 16 > dm_mBayerBufSize d")
    case True
    then obtain buf where "realloc (dm_mBayerBuf d) (n + 16 + 64) = Some buf" "dm_mBayerBuf d' = Some buf"
      using ok nz unfolding dm_initialize_def by (auto simp: Let_def n split: option.splits)
    then show ?thesis using that realloc by fastforce
  next
    case False
    then have "dm_mBayerBuf d' = dm_mBayerBuf d"
      using ok nz unfolding dm_initialize_def by (auto simp: Let_def n)
    moreover obtain buf where "dm_mBayerBuf d = Some buf" using False size(2) by (cases "dm_mBayerBuf d") auto
    ultimately show ?thesis using that False size(1) by auto
  qed
  define s where "s = raw10_sample inp i"
  have "uint (drop_bit 2 s) = uint s div 4"
    using uint_lt2p [of s]
    by (simp only: unsigned_drop_bit_eq) (simp add: take_bit_int_eq_self drop_bit_eq_div)
  then have v: "uint (drop_bit 2 s) = (uint (inp ! (i * 2)) + 256 * uint (inp ! (i * 2 + 1))) mod 1024 div 4"
    by (simp only: s_def raw10_sample_value)
  have lt: "unat (drop_bit 2 s) < 256"
  proof -
    have "uint (drop_bit 2 s) < 256" unfolding v by linarith
    then have "int (unat (drop_bit 2 s)) < 256" by (simp only: uint_nat)
    then show ?thesis by linarith
  qed
  have "filled buf (raw10_to_8bit inp buf n (dm_mNormLut d')) {0 + 1 * 0..<0 + 1 * n}
      (\<lambda>i. dm_mNormLut d' ! unat (drop_bit 2 (raw10_sample inp i)))"
    unfolding raw10_to_8bit_def by (rule filled_for_unit) (auto intro: filled_set [OF filled_update])
  from filled_nth [OF this, of i] have "raw10_to_8bit inp buf n (dm_mNormLut d') ! i = normLut_entry bl wl (unat (drop_bit 2 s))"
    using i buf(2) lt by (simp add: lut s_def)
  moreover have "int (unat (drop_bit 2 s)) = uint (drop_bit 2 s)" by simp
  ultimately have "uint (raw10_to_8bit inp buf n (dm_mNormLut d') ! i) =
      (let v = uint (drop_bit 2 s) in if v \<le> bl then 0 else if wl \<le> v then 255 else (v - bl) * 255 div (wl - bl))"
    using normLut_entry_value [OF _ \<open>bl < wl\<close> lt] bl by (simp add: Let_def)
  then show ?thesis using buf st unfolding v by (simp add: Let_def)
qed

theorem initialize_and_unpack_witness:
  "\<exists>d' buf. dm_initialize (\<lambda>old n. Some (replicate n 0)) (dm_mParams sample_demosaic) (DemosaicNEON_new []) = (0, d') \<and>
     dm_mBayerBuf d' = Some buf \<and> uint (raw10_to_8bit (replicate 24 2) buf 12 (dm_mNormLut d') ! 5) = 128"
proof -
  let ?p = "dm_mParams sample_demosaic" and ?r = "\<lambda>(old :: byte list option) n. Some (replicate n (0 :: byte))"
  obtain d' where d': "dm_initialize ?r ?p (DemosaicNEON_new []) = (0, d')"
    by (simp add: dm_initialize_def sample_demosaic_def DemosaicNEON_new_def Let_def)
  have lv: "0 = uint (dp_blackLevel ?p)" "255 = (if dp_whiteLevel ?p = 0 then 255 else uint (dp_whiteLevel ?p))"
    "(12 :: nat) = unat (dp_width ?p) * unat (dp_height ?p)" by (simp_all add: sample_demosaic_def)
  have "\<exists>buf. dm_mInitialized d' \<and> dm_mParams d' = ?p \<and> dm_mBayerBuf d' = Some buf \<and> 12 \<le> length buf \<and>
    (let v = (uint ((replicate 24 2 :: byte list) ! (5 * 2)) + 256 * uint ((replicate 24 2 :: byte list) ! (5 * 2 + 1))) mod 1024 div 4 in
     uint (raw10_to_8bit (replicate 24 2) buf 12 (dm_mNormLut d') ! 5) =
       (if v \<le> 0 then 0 else if 255 \<le> v then 255 else (v - 0) * 255 div (255 - 0)))"
    by (rule initialize_and_unpack [OF d' _ _ _ lv(1,2) _ lv(3)]) (simp_all add: DemosaicNEON_new_def)
  then show ?thesis using d' by (auto simp: nth_replicate)
qed

text \<open>
  When a second \<open>initialize\<close> needs a larger sample buffer and \<open>realloc\<close> fails, it returns -1 but has
  already taken over the new dimensions while the object stays initialized with the old buffer: the
  next \<open>process\<close> would unpack more samples than the buffer holds.
\<close>

theorem failed_reinitialize_keeps_small_buffer:
  assumes "dm_mInitialized d" "dm_mBayerBuf d = Some buf" "length buf = dm_mBayerBufSize d"
    and "dp_width params \<noteq> 0" "dp_height params \<noteq> 0"
    and "dm_mBayerBufSize d < unat (dp_width params) * unat (dp_height params)"
  shows "\<exists>d'. dm_initialize (\<lambda>old n. None) params d = (- 1, d') \<and> dm_mInitialized d' \<and>
    dm_mParams d' = params \<and> dm_mBayerBuf d' = Some buf \<and>
    length buf < unat (dp_width (dm_mParams d')) * unat (dp_height (dm_mParams d'))"
  using assms by (simp add: dm_initialize_def Let_def)

theorem failed_reinitialize_keeps_small_buffer_witness:
  "\<exists>d'. dm_initialize (\<lambda>old n. None) ((dm_mParams sample_demosaic)\<lparr>dp_width := 640, dp_height := 480\<rparr>)
      sample_demosaic = (- 1, d') \<and> dm_mInitialized d'"
  using failed_reinitialize_keeps_small_buffer [of sample_demosaic "replicate 92 0"
      "(dm_mParams sample_demosaic)\<lparr>dp_width := 640, dp_height := 480\<rparr>"]
  by (auto simp: sample_demosaic_def)

end
