(* ===== verification/Float32.thy ===== *)
theory Float32
  imports Mocha_Prelude
begin

text \<open>
  C's \<open>float\<close> and \<open>double\<close> on finite values: a value is a rational number, an operation is the exact
  operation followed by rounding to the nearest representable number, ties to even (IEEE 754
  binary32 and binary64, with gradual underflow). Infinities and NaNs are not represented, so a
  statement using these functions is about values inside the finite range. The rounding is executable,
  monotone, odd and the identity on representable numbers.
\<close>

fun bit_width :: "nat \<Rightarrow> nat" where
  "bit_width n = (if n = 0 then 0 else Suc (bit_width (n div 2)))"

declare bit_width.simps [simp del]

definition ilog2 :: "rat \<Rightarrow> int" where
  "ilog2 x = (let (p, q) = quotient_of x; k = int (bit_width (nat p)) - int (bit_width (nat q))
              in if 2 powi k \<le> x then k else k - 1)"

definition round_half_even :: "rat \<Rightarrow> int" where
  "round_half_even x =
     (let n = \<lfloor>x\<rfloor>; d = x - of_int n
      in if d < 1 / 2 then n else if 1 / 2 < d then n + 1 else if even n then n else n + 1)"

definition ulp_exp :: "int \<Rightarrow> int \<Rightarrow> rat \<Rightarrow> int" where
  "ulp_exp p emin x = max (ilog2 \<bar>x\<bar> - p) emin"

definition fround :: "int \<Rightarrow> int \<Rightarrow> rat \<Rightarrow> rat" where
  "fround p emin x =
     (if x = 0 then 0
      else of_int (round_half_even (x / 2 powi ulp_exp p emin x)) * 2 powi ulp_exp p emin x)"

definition f32 :: "rat \<Rightarrow> rat" where
  "f32 = fround 23 (- 149)"

definition f64 :: "rat \<Rightarrow> rat" where
  "f64 = fround 52 (- 1074)"

text \<open>Conversion to an integer type drops the fraction.\<close>

definition trunc :: "rat \<Rightarrow> int" where
  "trunc x = (if 0 \<le> x then \<lfloor>x\<rfloor> else - \<lfloor>- x\<rfloor>)"

definition fclamp :: "rat \<Rightarrow> rat \<Rightarrow> rat \<Rightarrow> rat" where
  "fclamp lo hi x = (let y = if x < lo then lo else x in if y > hi then hi else y)"

section \<open>Integer logarithm\<close>

lemma bit_width_upper: "n < 2 ^ bit_width n"
proof (induction n rule: bit_width.induct)
  case (1 n)
  then show ?case by (subst bit_width.simps) (auto simp: mult_2)
qed

lemma bit_width_lower: "n > 0 \<Longrightarrow> 2 ^ bit_width n \<le> 2 * n"
proof (induction n rule: bit_width.induct)
  case (1 n)
  show ?case
  proof (cases "n = 1")
    case True
    then show ?thesis by (simp add: bit_width.simps)
  next
    case False
    with 1 have "2 ^ bit_width (n div 2) \<le> 2 * (n div 2)" by auto
    then show ?thesis using 1 by (subst bit_width.simps) auto
  qed
qed

lemma powi_2_pos [simp]: "(0 :: rat) < 2 powi k"
  by (simp add: zero_less_power_int)

lemma powi_2_mono: "a \<le> b \<Longrightarrow> (2 :: rat) powi a \<le> 2 powi b"
  by (simp add: power_int_increasing)

lemma powi_2_int: "0 \<le> k \<Longrightarrow> (2 :: rat) powi k = of_int (2 ^ nat k)"
  by (simp add: power_int_def)

lemma ilog2_bounds:
  assumes "0 < x"
  shows "2 powi ilog2 x \<le> x" "x < 2 powi (ilog2 x + 1)"
proof -
  obtain p q where pq: "quotient_of x = (p, q)" by (cases "quotient_of x")
  define a b where "a = bit_width (nat p)" and "b = bit_width (nat q)"
  have q: "0 < q" and x: "x = of_int p / of_int q"
    using pq quotient_of_denom_pos quotient_of_div by auto
  with assms have p: "0 < p" by (simp add: zero_less_divide_iff)
  have "int (nat p) < int (2 ^ a)" "int (2 ^ a) \<le> int (2 * nat p)"
      "int (nat q) < int (2 ^ b)" "int (2 ^ b) \<le> int (2 * nat q)"
    using bit_width_upper [of "nat p"] bit_width_lower [of "nat p"] bit_width_upper [of "nat q"]
      bit_width_lower [of "nat q"] p q unfolding a_def b_def of_nat_less_iff of_nat_le_iff
    by simp_all
  then have "p < 2 ^ a" "2 ^ a \<le> 2 * p" "q < 2 ^ b" "2 ^ b \<le> 2 * q"
    using p q by simp_all
  then have "(of_int p :: rat) < of_int (2 ^ a)" "(of_int (2 ^ a) :: rat) \<le> of_int (2 * p)"
      "(of_int q :: rat) < of_int (2 ^ b)" "(of_int (2 ^ b) :: rat) \<le> of_int (2 * q)"
    by (simp_all only: of_int_less_iff of_int_le_iff)
  then have r: "(of_int p :: rat) < 2 ^ a" "(2 :: rat) ^ a \<le> 2 * of_int p"
      "(of_int q :: rat) < 2 ^ b" "(2 :: rat) ^ b \<le> 2 * of_int q"
    by simp_all
  have k: "(2 :: rat) powi (int a - int b) = 2 ^ a / 2 ^ b"
    by (simp add: power_int_diff)
  have "x * 2 ^ b < 2 * 2 ^ a"
  proof -
    have "x * 2 ^ b \<le> x * (2 * of_int q)" using r assms by (simp add: mult_left_mono)
    also have "\<dots> = 2 * of_int p" using x q by simp
    also have "\<dots> < 2 * 2 ^ a" using r by simp
    finally show ?thesis .
  qed
  then have "x < 2 powi (int a - int b) * 2" by (simp add: k field_simps)
  then have up: "x < 2 powi (int a - int b + 1)" by (subst power_int_add_1) simp_all
  have "2 ^ a \<le> 2 * (x * 2 ^ b)"
  proof -
    have "2 ^ a \<le> 2 * (of_int p :: rat)" by (rule r)
    also have "\<dots> = 2 * (x * of_int q)" using x q by simp
    also have "\<dots> \<le> 2 * (x * 2 ^ b)" using r assms by (simp add: mult_left_mono)
    finally show ?thesis .
  qed
  then have "2 powi (int a - int b) / 2 \<le> x" by (simp add: k field_simps)
  then have lo: "2 powi (int a - int b - 1) \<le> x" by (simp add: power_int_diff)
  have l: "ilog2 x = (if 2 powi (int a - int b) \<le> x then int a - int b else int a - int b - 1)"
    by (simp add: ilog2_def pq a_def b_def)
  show "2 powi ilog2 x \<le> x" using lo by (simp add: l)
  show "x < 2 powi (ilog2 x + 1)" using up by (simp add: l)
qed

lemma ilog2_mono:
  assumes "0 < x" "x \<le> y"
  shows "ilog2 x \<le> ilog2 y"
proof (rule ccontr)
  assume "\<not> ?thesis"
  then have "(2 :: rat) powi (ilog2 y + 1) \<le> 2 powi ilog2 x" by (intro powi_2_mono) simp
  then show False using ilog2_bounds [of x] ilog2_bounds [of y] assms by linarith
qed

section \<open>Rounding\<close>

lemma round_half_even_of_int [simp]: "round_half_even (of_int n) = n"
  by (simp add: round_half_even_def)

lemma round_half_even_mono: "x \<le> y \<Longrightarrow> round_half_even x \<le> round_half_even y"
proof -
  assume xy: "x \<le> y"
  then have "\<lfloor>x\<rfloor> \<le> \<lfloor>y\<rfloor>" by (rule floor_mono)
  then consider "\<lfloor>x\<rfloor> = \<lfloor>y\<rfloor>" | "\<lfloor>x\<rfloor> + 1 \<le> \<lfloor>y\<rfloor>" by linarith
  then show ?thesis
  proof cases
    case 1
    then show ?thesis using xy by (auto simp: round_half_even_def Let_def)
  next
    case 2
    have "round_half_even x \<le> \<lfloor>x\<rfloor> + 1" "\<lfloor>y\<rfloor> \<le> round_half_even y"
      by (auto simp: round_half_even_def Let_def)
    then show ?thesis using 2 by linarith
  qed
qed

lemma round_half_even_minus: "round_half_even (- x) = - round_half_even x"
proof (cases "x = of_int \<lfloor>x\<rfloor>")
  case True
  then show ?thesis by (metis of_int_minus round_half_even_of_int)
next
  case False
  then have "\<lfloor>- x\<rfloor> = - \<lfloor>x\<rfloor> - 1"
    using floor_correct [of x] by (intro floor_unique) (auto simp: less_le)
  then show ?thesis
    by (auto simp: round_half_even_def Let_def) 
qed

lemma round_half_even_near: "\<bar>of_int (round_half_even x) - x\<bar> \<le> 1 / 2"
  using floor_correct [of x] by (auto simp: round_half_even_def Let_def abs_le_iff)

lemma ulp_exp_minus [simp]: "ulp_exp p emin (- x) = ulp_exp p emin x"
  by (simp add: ulp_exp_def)

lemma fround_minus: "fround p emin (- x) = - fround p emin x"
  by (simp add: fround_def round_half_even_minus)

lemma fround_0 [simp]: "fround p emin 0 = 0"
  by (simp add: fround_def)

lemma fround_le_multiple:
  assumes "0 < x" "x \<le> of_int n * 2 powi ulp_exp p emin x"
  shows "fround p emin x \<le> of_int n * 2 powi ulp_exp p emin x"
proof -
  have "x / 2 powi ulp_exp p emin x \<le> of_int n" using assms by (simp add: divide_le_eq)
  then have "round_half_even (x / 2 powi ulp_exp p emin x) \<le> n"
    using round_half_even_mono by fastforce
  then show ?thesis using assms by (simp add: fround_def)
qed

lemma fround_ge_multiple:
  assumes "0 < x" "of_int n * 2 powi ulp_exp p emin x \<le> x"
  shows "of_int n * 2 powi ulp_exp p emin x \<le> fround p emin x"
proof -
  have "of_int n \<le> x / 2 powi ulp_exp p emin x" using assms by (simp add: le_divide_eq)
  then have "n \<le> round_half_even (x / 2 powi ulp_exp p emin x)"
    using round_half_even_mono by fastforce
  then show ?thesis using assms by (simp add: fround_def)
qed

lemma powi_2_multiple: "e \<le> k \<Longrightarrow> \<exists>n. (2 :: rat) powi k = of_int n * 2 powi e"
proof -
  assume "e \<le> k"
  then have "(2 :: rat) powi k = of_int (2 ^ nat (k - e)) * 2 powi e"
    using power_int_add [of "2 :: rat" "k - e" e] powi_2_int [of "k - e"] by simp
  then show ?thesis by blast
qed

lemma fround_nonneg: "0 \<le> x \<Longrightarrow> 0 \<le> fround p emin x"
  using fround_ge_multiple [of x 0 p emin] by (cases "x = 0") auto

lemma fround_mono_pos:
  assumes "0 < x" "x \<le> y" "0 \<le> p"
  shows "fround p emin x \<le> fround p emin y"
proof -
  have le: "ulp_exp p emin x \<le> ulp_exp p emin y"
    using ilog2_mono [OF assms(1,2)] assms by (simp add: ulp_exp_def)
  show ?thesis
  proof (cases "ulp_exp p emin x = ulp_exp p emin y")
    case True
    have "x / 2 powi ulp_exp p emin y \<le> y / 2 powi ulp_exp p emin y"
      using assms by (simp add: divide_right_mono)
    then show ?thesis using assms True by (auto simp: fround_def intro: round_half_even_mono)
  next
    case False
    with le have lt: "ulp_exp p emin x < ulp_exp p emin y" by simp
    then have ey: "ulp_exp p emin y = ilog2 y - p" using assms by (auto simp: ulp_exp_def)
    have lxy: "ilog2 x < ilog2 y" using lt assms by (auto simp: ulp_exp_def)
    have "x \<le> 2 powi ilog2 y"
      using ilog2_bounds(2) [OF assms(1)] powi_2_mono [of "ilog2 x + 1" "ilog2 y"] lxy by linarith
    moreover obtain n where "(2 :: rat) powi ilog2 y = of_int n * 2 powi ulp_exp p emin x"
      using powi_2_multiple [of "ulp_exp p emin x" "ilog2 y"] lt ey assms by auto
    ultimately have "fround p emin x \<le> 2 powi ilog2 y"
      using fround_le_multiple [OF assms(1)] by metis
    moreover obtain m where "(2 :: rat) powi ilog2 y = of_int m * 2 powi ulp_exp p emin y"
      using powi_2_multiple [of "ulp_exp p emin y" "ilog2 y"] ey assms by auto
    then have "2 powi ilog2 y \<le> fround p emin y"
      using fround_ge_multiple [of y m p emin] ilog2_bounds(1) [of y] assms by auto
    ultimately show ?thesis by linarith
  qed
qed

theorem fround_mono:
  assumes "x \<le> y" "0 \<le> p"
  shows "fround p emin x \<le> fround p emin y"
proof -
  consider "0 < x" | "x \<le> 0" "0 \<le> y" | "y < 0" using assms by linarith
  then show ?thesis
  proof cases
    case 1
    then show ?thesis using fround_mono_pos assms by blast
  next
    case 2
    then have "0 \<le> fround p emin y" "0 \<le> fround p emin (- x)" by (simp_all add: fround_nonneg)
    then show ?thesis by (simp add: fround_minus)
  next
    case 3
    then have "fround p emin (- y) \<le> fround p emin (- x)"
      using fround_mono_pos [of "- y" "- x"] assms by simp
    then show ?thesis by (simp add: fround_minus)
  qed
qed

lemma fround_exact_pos:
  assumes "0 < m" "m < 2 ^ nat (p + 1)" "emin \<le> e" "0 \<le> p"
  shows "fround p emin (of_int m * 2 powi e) = of_int m * 2 powi e"
proof -
  define x :: rat where "x = of_int m * 2 powi e"
  have x: "0 < x" using assms by (simp add: x_def)
  have "(of_int m :: rat) < of_int (2 ^ nat (p + 1))" using assms(2) by (simp only: of_int_less_iff)
  then have "x < 2 powi (p + 1) * 2 powi e"
    using assms by (simp add: x_def powi_2_int)
  then have "x < 2 powi (p + 1 + e)" by (simp add: power_int_add)
  then have "\<not> p + 1 + e \<le> ilog2 x"
    using ilog2_bounds(1) [OF x] powi_2_mono [of "p + 1 + e" "ilog2 x"] by linarith
  then have "ulp_exp p emin x \<le> e" using assms x by (simp add: ulp_exp_def)
  then obtain n where "(2 :: rat) powi e = of_int n * 2 powi ulp_exp p emin x"
    using powi_2_multiple by blast
  then have "x = of_int (m * n) * 2 powi ulp_exp p emin x" by (simp add: x_def)
  then have "fround p emin x = x"
    using fround_le_multiple [OF x, of "m * n" p emin] fround_ge_multiple [OF x, of "m * n" p emin]
    by (metis order_antisym order_refl)
  then show ?thesis by (simp add: x_def)
qed

text \<open>A number with at most \<open>p + 1\<close> significant bits and an exponent in range is not changed.\<close>

theorem fround_exact:
  assumes "\<bar>m\<bar> < 2 ^ nat (p + 1)" "emin \<le> e" "0 \<le> p"
  shows "fround p emin (of_int m * 2 powi e) = of_int m * 2 powi e"
proof -
  consider "m = 0" | "0 < m" | "0 < - m" by linarith
  then show ?thesis
  proof cases
    case 3
    then have "fround p emin (of_int (- m) * 2 powi e) = of_int (- m) * 2 powi e"
      using assms by (intro fround_exact_pos) auto
    then show ?thesis by (simp add: fround_minus)
  qed (use assms fround_exact_pos in auto)
qed

lemma fround_mantissa:
  assumes "x \<noteq> 0" "0 \<le> p"
  shows "\<bar>round_half_even (x / 2 powi ulp_exp p emin x)\<bar> \<le> 2 ^ nat (p + 1)"
proof -
  let ?e = "ulp_exp p emin x"
  have "\<bar>x\<bar> < 2 powi (ilog2 \<bar>x\<bar> + 1)" using ilog2_bounds(2) [of "\<bar>x\<bar>"] assms by simp
  also have "\<dots> \<le> 2 powi (?e + (p + 1))" by (rule powi_2_mono) (simp add: ulp_exp_def)
  also have "\<dots> = 2 powi (p + 1) * 2 powi ?e" by (simp add: power_int_add)
  finally have "\<bar>x\<bar> / 2 powi ?e \<le> 2 powi (p + 1)" by (simp add: divide_le_eq)
  then have le: "\<bar>x / 2 powi ?e\<bar> \<le> of_int (2 ^ nat (p + 1))"
    using powi_2_int [of "p + 1"] assms(2) by (simp add: abs_divide)
  have "x / 2 powi ?e \<le> of_int (2 ^ nat (p + 1))" "of_int (- (2 ^ nat (p + 1))) \<le> x / 2 powi ?e"
    using le unfolding abs_le_iff of_int_minus by linarith+
  then have "round_half_even (x / 2 powi ?e) \<le> round_half_even (of_int (2 ^ nat (p + 1)))"
    "round_half_even (of_int (- (2 ^ nat (p + 1)))) \<le> round_half_even (x / 2 powi ?e)"
    by (simp_all only: round_half_even_mono)
  then show ?thesis unfolding round_half_even_of_int abs_le_iff by linarith
qed

theorem fround_idem:
  assumes "0 \<le> p"
  shows "fround p emin (fround p emin x) = fround p emin x"
proof (cases "x = 0")
  case False
  define e m where "e = ulp_exp p emin x" and "m = round_half_even (x / 2 powi ulp_exp p emin x)"
  have f: "fround p emin x = of_int m * 2 powi e" using False by (simp add: fround_def e_def m_def)
  have emin: "emin \<le> e" by (simp add: e_def ulp_exp_def)
  have "\<bar>m\<bar> \<le> 2 ^ nat (p + 1)" using fround_mantissa [OF False assms] by (simp add: m_def)
  then consider "\<bar>m\<bar> < 2 ^ nat (p + 1)" | "\<bar>m\<bar> = 2 ^ nat (p + 1)" by linarith
  then show ?thesis
  proof cases
    case 1
    then show ?thesis unfolding f by (rule fround_exact [OF _ emin assms])
  next
    case 2
    have "(of_int \<bar>m\<bar> :: rat) = 2 powi (p + 1)" unfolding 2 using powi_2_int [of "p + 1"] assms by simp
    moreover have "(of_int m :: rat) = of_int (sgn m) * of_int \<bar>m\<bar>"
      by (metis of_int_mult sgn_mult_abs)
    ultimately have om: "(of_int m :: rat) = of_int (sgn m) * 2 powi (p + 1)" by (simp only:)
    have "fround p emin x = of_int (sgn m) * (2 powi (p + 1)) * 2 powi e" unfolding f om ..
    then have fx: "fround p emin x = of_int (sgn m) * 2 powi (e + (p + 1))"
    proof -
      have "(2 :: rat) powi (e + (p + 1)) = 2 powi e * 2 powi (p + 1)" by (rule power_int_add) simp
      then show ?thesis using \<open>fround p emin x = of_int (sgn m) * (2 powi (p + 1)) * 2 powi e\<close> by (simp only: ac_simps)
    qed
    have "fround p emin (of_int (sgn m) * 2 powi (e + (p + 1))) = of_int (sgn m) * 2 powi (e + (p + 1))"
    proof (rule fround_exact)
      have "1 < (2 :: int) ^ nat (p + 1)" using assms by (intro one_less_power) auto
      moreover have "\<bar>sgn m\<bar> \<le> 1" by (simp add: sgn_if)
      ultimately show "\<bar>sgn m\<bar> < 2 ^ nat (p + 1)" by linarith
    qed (use emin assms in auto)
    then show ?thesis unfolding fx .
  qed
qed simp

lemmas f32_idem = fround_idem [where p = 23 and emin = "- 149", folded f32_def, simplified]

lemmas f32_mono = fround_mono [where p = 23 and emin = "- 149", folded f32_def, simplified]
lemmas f64_mono = fround_mono [where p = 52 and emin = "- 1074", folded f64_def, simplified]

lemma f32_int: "\<bar>m\<bar> < 2 ^ 24 \<Longrightarrow> f32 (of_int m) = of_int m"
  using fround_exact [of m 23 "- 149" 0] by (simp add: f32_def)

lemma f32_ge_int: "of_int a \<le> x \<Longrightarrow> \<bar>a\<bar> < 2 ^ 24 \<Longrightarrow> of_int a \<le> f32 x"
  using f32_mono [of "of_int a" x] f32_int [of a] by simp

lemma f32_le_int: "x \<le> of_int b \<Longrightarrow> \<bar>b\<bar> < 2 ^ 24 \<Longrightarrow> f32 x \<le> of_int b"
  using f32_mono [of x "of_int b"] f32_int [of b] by simp

lemma f32_int_quarter: "\<bar>m\<bar> < 2 ^ 24 \<Longrightarrow> f32 (of_int m / 4) = of_int m / 4"
  using fround_exact [of m 23 "- 149" "- 2"] by (simp add: f32_def power_int_minus)

lemma f64_int: "\<bar>m\<bar> < 2 ^ 53 \<Longrightarrow> f64 (of_int m) = of_int m"
  using fround_exact [of m 52 "- 1074" 0] by (simp add: f64_def)

lemma ilog2_unique:
  assumes "2 powi k \<le> x" "x < 2 powi (k + 1)"
  shows "ilog2 x = k"
proof -
  have x: "0 < x" using assms(1) powi_2_pos [of k] by linarith
  note b = ilog2_bounds [OF x]
  have "\<not> k + 1 \<le> ilog2 x" using powi_2_mono [of "k + 1" "ilog2 x"] b assms by linarith
  moreover have "\<not> ilog2 x + 1 \<le> k" using powi_2_mono [of "ilog2 x + 1" k] b assms by linarith
  ultimately show ?thesis by linarith
qed

text \<open>Evaluation of a rounding by its binade and its mantissa.\<close>

lemma f32_value:
  assumes "2 powi k \<le> x" "x < 2 powi (k + 1)" "- 126 \<le> k" "round_half_even (x / 2 powi (k - 23)) = m"
  shows "f32 x = of_int m * 2 powi (k - 23)"
proof -
  have x: "0 < x" using assms(1) powi_2_pos [of k] by linarith
  then have "ulp_exp 23 (- 149) x = k - 23" using ilog2_unique [OF assms(1,2)] assms(3) by (simp add: ulp_exp_def)
  then show ?thesis using x assms(4) by (simp add: f32_def fround_def)
qed

lemma floor_rat_numeral: "\<lfloor>(numeral a :: rat) / numeral b\<rfloor> = numeral a div numeral b"
  using floor_divide_of_int_eq [of "numeral a" "numeral b", where ?'a = rat] by simp

lemmas f32_eval = round_half_even_def power_int_def power_divide Let_def floor_rat_numeral

lemma fclamp_range: "lo \<le> hi \<Longrightarrow> lo \<le> fclamp lo hi x \<and> fclamp lo hi x \<le> hi"
  by (auto simp: fclamp_def Let_def)

lemma trunc_mono: "x \<le> y \<Longrightarrow> trunc x \<le> trunc y"
proof -
  assume "x \<le> y"
  moreover have "- \<lfloor>- x\<rfloor> \<le> \<lfloor>y\<rfloor>" if "x < 0" "0 \<le> y"
  proof (rule order_trans [where y = 0])
    show "- \<lfloor>- x\<rfloor> \<le> 0" using that by simp
    show "0 \<le> \<lfloor>y\<rfloor>" using that by simp
  qed
  ultimately show ?thesis
    by (cases "0 \<le> x"; cases "0 \<le> y") (auto simp: trunc_def intro: floor_mono)
qed

lemma trunc_of_int [simp]: "trunc (of_int n) = n"
  by (simp add: trunc_def flip: of_int_minus)

lemma trunc_nonneg: "0 \<le> x \<Longrightarrow> 0 \<le> trunc x"
  by (simp add: trunc_def)

end
