(* ===== verification/Color_Conv.thy ===== *)
theory Color_Conv
  imports Neon Float32
begin

text \<open>
  \<open>camera/isp/ColorConvNEON.cpp\<close>: the RGB to NV12 and RGB to RGBA converters. A buffer is a list of
  bytes, a pointer argument is an option (\<open>None\<close> is the null pointer), an output buffer is returned
  updated. The vector loops are written with the intrinsics of \<open>Neon\<close>; the lemmas show that a lane
  computes the BT.601 formula of the scalar remainder loop, and from there the whole planes.
\<close>

section \<open>The converter object\<close>

record ColorConvNEON =
  cc_mWidth :: u16
  cc_mHeight :: u16
  cc_mInitialized :: bool

definition ColorConvNEON_new :: ColorConvNEON where
  "ColorConvNEON_new = \<lparr>cc_mWidth = 0, cc_mHeight = 0, cc_mInitialized = False\<rparr>"

definition cc_initialize :: "u16 \<Rightarrow> u16 \<Rightarrow> ColorConvNEON \<Rightarrow> int \<times> ColorConvNEON" where
  "cc_initialize width height c =
     (if width = 0 \<or> height = 0 then (- 1, c)
      else (0, c\<lparr>cc_mWidth := width, cc_mHeight := height, cc_mInitialized := True\<rparr>))"

section \<open>RGB to NV12\<close>

text \<open>The weighted sum of three 8-lane vectors, rounded, shifted and biased: the sequence of
  \<open>vmull_s16\<close>, \<open>vmlal_s16\<close>, \<open>vshrn_n_s32\<close> and \<open>vqmovun_s16\<close> that the Y, U and V code repeat.\<close>

definition weighted_half ::
    "int \<Rightarrow> int \<Rightarrow> int \<Rightarrow> u16 list \<Rightarrow> u16 list \<Rightarrow> u16 list \<Rightarrow> u16 list" where
  "weighted_half cr cg cb r g b =
     (let c_r = vdup 4 (word_of_int cr); c_g = vdup 4 (word_of_int cg); c_b = vdup 4 (word_of_int cb);
          s = vmull_s16 c_r r;
          s = vmlal_s16 s c_g g;
          s = vmlal_s16 s c_b b
      in vshrn_n_s32 (vaddq s (vdup 4 128)) 8)"

definition weighted_lanes ::
    "int \<Rightarrow> int \<Rightarrow> int \<Rightarrow> int \<Rightarrow> byte list \<Rightarrow> byte list \<Rightarrow> byte list \<Rightarrow> byte list" where
  "weighted_lanes cr cg cb bias r g b =
     (let r16 = vmovl_u8 r; g16 = vmovl_u8 g; b16 = vmovl_u8 b;
          s16 = vcombine (weighted_half cr cg cb (vget_low r16) (vget_low g16) (vget_low b16))
                         (weighted_half cr cg cb (vget_high r16) (vget_high g16) (vget_high b16))
      in vqmovun_s16 (vaddq s16 (vdup 8 (word_of_int bias))))"

definition y_chunk :: "byte list \<Rightarrow> nat \<Rightarrow> byte list" where
  "y_chunk rgb p =
     weighted_lanes 66 129 25 16 (vld3_u8 rgb p 0) (vld3_u8 rgb p 1) (vld3_u8 rgb p 2)"

text \<open>The scalar formulas of the remainder loops; \<open>>>\<close> on a negative \<open>int\<close> is an arithmetic shift.\<close>

definition y_scalar :: "int \<Rightarrow> int \<Rightarrow> int \<Rightarrow> int" where
  "y_scalar r g b = drop_bit 8 (66 * r + 129 * g + 25 * b + 128) + 16"

definition u_scalar :: "int \<Rightarrow> int \<Rightarrow> int \<Rightarrow> int" where
  "u_scalar r g b = drop_bit 8 (- 38 * r - 74 * g + 112 * b + 128) + 128"

definition v_scalar :: "int \<Rightarrow> int \<Rightarrow> int \<Rightarrow> int" where
  "v_scalar r g b = drop_bit 8 (112 * r - 94 * g - 18 * b + 128) + 128"

definition on_pixel :: "(int \<Rightarrow> int \<Rightarrow> int \<Rightarrow> int) \<Rightarrow> byte list \<Rightarrow> nat \<Rightarrow> byte" where
  "on_pixel f rgb p = word_of_int (f (uint (rgb ! p)) (uint (rgb ! (p + 1))) (uint (rgb ! (p + 2))))"

definition y_row :: "byte list \<Rightarrow> nat \<Rightarrow> nat \<Rightarrow> byte list \<Rightarrow> byte list" where
  "y_row rgb width y yPlane =
     (let row_base = y * width;
          (x, yPlane) = stride_loop 8 width 0
            (\<lambda>x out. vst1_u8 out (row_base + x) (y_chunk rgb ((row_base + x) * 3))) yPlane
      in for_loop 1 width x
           (\<lambda>x out. out[row_base + x := on_pixel y_scalar rgb ((row_base + x) * 3)]) yPlane)"

text \<open>The chroma of 16 pixels of the even row: \<open>vuzp\<close> keeps the 8 even columns.\<close>

definition even_columns :: "byte list \<Rightarrow> byte list" where
  "even_columns v = vuzp0 (vget_low v) (vget_high v)"

definition uv_chunk :: "byte list \<Rightarrow> nat \<Rightarrow> byte list \<times> byte list" where
  "uv_chunk rgb p =
     (let r = even_columns (vld3q_u8 rgb p 0);
          g = even_columns (vld3q_u8 rgb p 1);
          b = even_columns (vld3q_u8 rgb p 2)
      in (weighted_lanes (- 38) (- 74) 112 128 r g b, weighted_lanes 112 (- 94) (- 18) 128 r g b))"

text \<open>The remainder loop steps by two columns and breaks at a last unpaired one.\<close>

definition uv_row :: "byte list \<Rightarrow> nat \<Rightarrow> nat \<Rightarrow> byte list \<Rightarrow> byte list" where
  "uv_row rgb width y uvPlane =
     (let uv_base = y div 2 * width;
          (x, uvPlane) = stride_loop 16 width 0
            (\<lambda>x out. case uv_chunk rgb ((y * width + x) * 3) of
               (u8, v8) \<Rightarrow> vst2_u8 out (uv_base + x) u8 v8) uvPlane
      in snd (stride_loop 2 width x
           (\<lambda>x out. let p = (y * width + x) * 3
              in out[uv_base + x := on_pixel u_scalar rgb p,
                     uv_base + x + 1 := on_pixel v_scalar rgb p]) uvPlane))"

definition rgbToNv12 ::
    "ColorConvNEON \<Rightarrow> byte list option \<Rightarrow> byte list option \<Rightarrow> byte list option \<Rightarrow>
     byte list option \<times> byte list option" where
  "rgbToNv12 c rgb yPlane uvPlane =
     (case (cc_mInitialized c, rgb, yPlane, uvPlane) of
        (True, Some src, Some ys, Some uvs) \<Rightarrow>
          let width = unat (cc_mWidth c); height = unat (cc_mHeight c)
          in (Some (for_loop 1 height 0 (y_row src width) ys),
              Some (for_loop 2 height 0 (uv_row src width) uvs))
      | _ \<Rightarrow> (yPlane, uvPlane))"

section \<open>RGB to RGBA\<close>

text \<open>Offsets are \<open>uint32_t\<close> and wrap.\<close>

definition off32 :: "nat \<Rightarrow> nat" where
  "off32 n = n mod 2 ^ 32"

definition rgbToRgba ::
    "byte list option \<Rightarrow> byte list option \<Rightarrow> u32 \<Rightarrow> u32 \<Rightarrow> byte list option" where
  "rgbToRgba rgb rgba width height =
     (case (rgb, rgba) of
        (Some src, Some dst) \<Rightarrow>
          let total = unat (width * height);
              (i, dst) = stride_loop 8 total 0
                (\<lambda>i out. vst4_u8 out (off32 (i * 4)) (vld3_u8 src (off32 (i * 3)) 0)
                   (vld3_u8 src (off32 (i * 3)) 1) (vld3_u8 src (off32 (i * 3)) 2) (vdup 8 255)) dst
          in Some (for_loop 1 total i
               (\<lambda>i out. out[off32 (i * 4) := src ! off32 (i * 3),
                            off32 (i * 4 + 1) := src ! off32 (i * 3 + 1),
                            off32 (i * 4 + 2) := src ! off32 (i * 3 + 2),
                            off32 (i * 4 + 3) := 255]) dst)
      | _ \<Rightarrow> rgba)"

section \<open>RGB to RGBA with white balance and gamma\<close>

definition fixed_gain :: "rat \<Rightarrow> int" where
  "fixed_gain gain = trunc (f32 (f32 (gain * 256) + 1 / 2))"

definition gain_half :: "u16 list \<Rightarrow> u16 list \<Rightarrow> u16 list" where
  "gain_half v gv = vshrn_n_u32 (vaddq (vmull_u16 v gv) (vdup 4 128)) 8"

definition gain_lanes :: "int \<Rightarrow> byte list \<Rightarrow> byte list" where
  "gain_lanes G v =
     (let v16 = vmovl_u8 v; gv = vdup 8 (word_of_int G)
      in vqmovn_u16 (vcombine (gain_half (vget_low v16) (vget_low gv))
                              (gain_half (vget_high v16) (vget_high gv))))"

definition gain_scalar :: "int \<Rightarrow> byte \<Rightarrow> int" where
  "gain_scalar G b = drop_bit 8 (uint b * G + 128)"

definition wbgamma_row ::
    "byte list \<Rightarrow> byte list \<Rightarrow> int \<Rightarrow> int \<Rightarrow> int \<Rightarrow> nat \<Rightarrow> nat \<Rightarrow> nat \<Rightarrow> byte list \<Rightarrow> byte list" where
  "wbgamma_row src lut rG gG bG width srcRow y rgba =
     (let stride = off32 (width * 4);
          (x, rgba) = stride_loop 8 width 0
            (\<lambda>x out. let p = off32 (off32 (srcRow * width * 3) + x * 3);
                 rC = gain_lanes rG (vld3_u8 src p 0);
                 gC = gain_lanes gG (vld3_u8 src p 1);
                 bC = gain_lanes bG (vld3_u8 src p 2)
               in write_at out (off32 (off32 (y * stride) + x * 4))
                    (concat (map (\<lambda>i. [lut ! unat (rC ! i), lut ! unat (gC ! i), lut ! unat (bC ! i), 255])
                       [0..<8]))) rgba
      in for_loop 1 width x
           (\<lambda>x out. let si = off32 (srcRow * width + x) * 3; di = off32 (y * stride + x * 4);
                 r = gain_scalar rG (src ! si);
                 g = gain_scalar gG (src ! (si + 1));
                 b = gain_scalar bG (src ! (si + 2))
               in out[di := lut ! nat (if r > 255 then 255 else r),
                      di + 1 := lut ! nat (if g > 255 then 255 else g),
                      di + 2 := lut ! nat (if b > 255 then 255 else b),
                      di + 3 := 255]) rgba)"

definition rgbToRgbaWbGamma ::
    "byte list option \<Rightarrow> byte list option \<Rightarrow> u32 \<Rightarrow> u32 \<Rightarrow> rat \<Rightarrow> rat \<Rightarrow> rat \<Rightarrow> byte list option \<Rightarrow>
     bool \<Rightarrow> byte list option" where
  "rgbToRgbaWbGamma rgb rgba width height rGain gGain bGain gammaLut flipV =
     (case (rgb, rgba, gammaLut) of
        (Some src, Some dst, Some lut) \<Rightarrow>
          Some (for_loop 1 (unat height) 0
            (\<lambda>y. wbgamma_row src lut (fixed_gain rGain) (fixed_gain gGain) (fixed_gain bGain)
                   (unat width) (if flipV then unat height - 1 - y else y) y) dst)
      | _ \<Rightarrow> rgba)"

section \<open>A lane computes the scalar formula\<close>

lemma length_lanes [simp]:
  "length (vld3_u8 m p c) = 8" "length (vld3q_u8 m p c) = 16" "length (vmovl_u8 v) = length v"
  "length (even_columns v) = length v div 2"
  by (simp_all add: vec_defs even_columns_def)

lemma weighted_half_lane:
  assumes "length r = 4" "length g = 4" "length b = 4" "i < 4"
    and "\<bar>cr\<bar> \<le> 129" "\<bar>cg\<bar> \<le> 129" "\<bar>cb\<bar> \<le> 129"
    and "0 \<le> sint (r ! i)" "sint (r ! i) \<le> 255" "0 \<le> sint (g ! i)" "sint (g ! i) \<le> 255"
      "0 \<le> sint (b ! i)" "sint (b ! i) \<le> 255"
  shows "weighted_half cr cg cb r g b ! i =
    word_of_int (drop_bit 8 (cr * sint (r ! i) + cg * sint (g ! i) + cb * sint (b ! i) + 128))"
proof -
  define R G B where "R = sint (r ! i)" and "G = sint (g ! i)" and "B = sint (b ! i)"
  have s: "sint (word_of_int cr :: u16) = cr" "sint (word_of_int cg :: u16) = cg"
    "sint (word_of_int cb :: u16) = cb" using assms by (auto intro!: sint_16)
  have bnd: "\<bar>c * X\<bar> \<le> 129 * 255" if "\<bar>c\<bar> \<le> 129" "0 \<le> X" "X \<le> 255" for c X :: int
    using mult_mono [of "\<bar>c\<bar>" 129 "\<bar>X\<bar>" 255] that by (simp add: abs_mult)
  have "sint (word_of_int (cr * R + cg * G + cb * B + 128) :: u32) = cr * R + cg * G + cb * B + 128"
    using bnd [of cr R] bnd [of cg G] bnd [of cb B] assms
    unfolding R_def G_def B_def by (intro sint_32) linarith+
  then have "sint (word_of_int (cr * R + cg * G + cb * B) + 128 :: u32) = cr * R + cg * G + cb * B + 128"
    by (simp only: of_int_add of_int_numeral)
  then show ?thesis using assms
    by (simp add: weighted_half_def vec_defs s sint_signed_drop_bit_eq
        flip: R_def G_def B_def of_int_add of_int_mult)
qed

lemma narrow_lane:
  assumes "0 \<le> k" "k \<le> 255"
  shows "(if sint (word_of_int k :: u16) < 0 then 0 else if sint (word_of_int k :: u16) > 255 then 255
    else ucast (word_of_int k :: u16)) = (word_of_int k :: byte)"
proof -
  have "sint (word_of_int k :: u16) = k" using assms by (intro sint_16) auto
  moreover have "(ucast (word_of_int k :: u16) :: byte) = word_of_int (uint (word_of_int k :: u16))"
    by (rule ucast_eq)
  moreover have "uint (word_of_int k :: u16) = k" using assms by (intro uint_16) auto
  ultimately show ?thesis using assms by auto
qed

lemma weighted_lane:
  assumes "length r = 8" "length g = 8" "length b = 8" "i < 8"
    and "\<bar>cr\<bar> \<le> 129" "\<bar>cg\<bar> \<le> 129" "\<bar>cb\<bar> \<le> 129"
    and "k = drop_bit 8 (cr * uint (r ! i) + cg * uint (g ! i) + cb * uint (b ! i) + 128) + bias"
    and "0 \<le> k" "k \<le> 255"
  shows "weighted_lanes cr cg cb bias r g b ! i = word_of_int k"
proof -
  let ?lo = "weighted_half cr cg cb (map ucast (take 4 r)) (map ucast (take 4 g)) (map ucast (take 4 b))"
  let ?hi = "weighted_half cr cg cb (map ucast (drop 4 r)) (map ucast (drop 4 g)) (map ucast (drop 4 b))"
  have len: "length (weighted_half cr cg cb x y z) = 4"
    if "length x = 4" "length y = 4" "length z = 4" for x y z
    using that by (simp add: weighted_half_def vec_defs)
  have "(?lo @ ?hi) ! i =
      word_of_int (drop_bit 8 (cr * uint (r ! i) + cg * uint (g ! i) + cb * uint (b ! i) + 128))"
  proof (cases "i < 4")
    case True
    then have "?lo ! i =
        word_of_int (drop_bit 8 (cr * uint (r ! i) + cg * uint (g ! i) + cb * uint (b ! i) + 128))"
      using assms by (subst weighted_half_lane) auto
    then show ?thesis using True assms by (simp add: nth_append len)
  next
    case False
    then have "?hi ! (i - 4) =
        word_of_int (drop_bit 8 (cr * uint (r ! i) + cg * uint (g ! i) + cb * uint (b ! i) + 128))"
      using assms by (subst weighted_half_lane) auto
    then show ?thesis using False assms by (simp add: nth_append len)
  qed
  then have "weighted_lanes cr cg cb bias r g b ! i =
      (\<lambda>a. if sint a < 0 then 0 else if sint a > 255 then 255 else ucast a) (word_of_int k :: u16)"
    using assms by (simp add: weighted_lanes_def vget_low_def vget_high_def vmovl_u8_def take_map
        drop_map vcombine_def vaddq_def vqmovun_s16_def vdup_def len flip: of_int_add)
  then show ?thesis using narrow_lane [OF assms(9,10)] by simp
qed

lemma length_weighted_lanes [simp]:
  assumes "length r = 8" "length g = 8" "length b = 8"
  shows "length (weighted_lanes cr cg cb bias r g b) = 8"
  using assms by (simp add: weighted_lanes_def weighted_half_def vec_defs Let_def)

lemma drop_bit_8_int: "drop_bit 8 (k :: int) = k div 256"
  by (simp add: drop_bit_eq_div)

lemma y_scalar_range:
  assumes "0 \<le> r" "r \<le> 255" "0 \<le> g" "g \<le> 255" "0 \<le> b" "b \<le> 255"
  shows "16 \<le> y_scalar r g b" "y_scalar r g b \<le> 235"
  using assms by (simp_all add: y_scalar_def drop_bit_8_int)

lemma u_scalar_range:
  assumes "0 \<le> r" "r \<le> 255" "0 \<le> g" "g \<le> 255" "0 \<le> b" "b \<le> 255"
  shows "16 \<le> u_scalar r g b" "u_scalar r g b \<le> 240"
  using assms by (simp_all add: u_scalar_def drop_bit_8_int)

lemma v_scalar_range:
  assumes "0 \<le> r" "r \<le> 255" "0 \<le> g" "g \<le> 255" "0 \<le> b" "b \<le> 255"
  shows "16 \<le> v_scalar r g b" "v_scalar r g b \<le> 240"
  using assms by (simp_all add: v_scalar_def drop_bit_8_int)

lemma y_chunk_lane: "i < 8 \<Longrightarrow> y_chunk rgb p ! i = on_pixel y_scalar rgb (p + 3 * i)"
  using y_scalar_range [of "uint (rgb ! (p + 3 * i))" "uint (rgb ! (p + 3 * i + 1))" "uint (rgb ! (p + 3 * i + 2))"]
  unfolding y_chunk_def on_pixel_def
  by (intro weighted_lane) (auto simp: y_scalar_def vld3_u8_def)

lemma even_columns_nth: "i < 8 \<Longrightarrow> even_columns (vld3q_u8 rgb p c) ! i = rgb ! (p + 6 * i + c)"
  by (simp add: even_columns_def vec_defs)

lemma uv_chunk_lane:
  assumes "i < 8"
  shows "fst (uv_chunk rgb p) ! i = on_pixel u_scalar rgb (p + 6 * i)"
    "snd (uv_chunk rgb p) ! i = on_pixel v_scalar rgb (p + 6 * i)"
  using assms
    u_scalar_range [of "uint (rgb ! (p + 6 * i))" "uint (rgb ! (p + 6 * i + 1))" "uint (rgb ! (p + 6 * i + 2))"]
    v_scalar_range [of "uint (rgb ! (p + 6 * i))" "uint (rgb ! (p + 6 * i + 1))" "uint (rgb ! (p + 6 * i + 2))"]
  unfolding uv_chunk_def on_pixel_def Let_def fst_conv snd_conv
  by (intro weighted_lane; auto simp: u_scalar_def v_scalar_def even_columns_nth)+

section \<open>Whole planes\<close>

lemma y_row_filled:
  "filled out (y_row rgb w y out) {y * w..<y * w + w} (\<lambda>k. on_pixel y_scalar rgb (k * 3))"
    (is "filled _ _ _ ?f")
proof -
  let ?body = "\<lambda>x out. vst1_u8 out (y * w + x) (y_chunk rgb ((y * w + x) * 3))"
  obtain e out' where e: "stride_loop 8 w 0 ?body out = (e, out')" by fastforce
  have en: "e \<le> w" using stride_loop_end [of 0 w 8 ?body out] e by simp
  have len: "length (y_chunk rgb p) = 8" for p by (simp add: y_chunk_def)
  have "filled s (?body x s) {y * w + x..<y * w + (x + 8)} ?f" for x s
    unfolding vst1_u8_def
  proof (rule filled_write_to [where n = 8])
    show "y_chunk rgb ((y * w + x) * 3) ! i = ?f (y * w + x + i)" if "i < 8" for i
      using that y_chunk_lane [of i rgb "(y * w + x) * 3"] by (simp add: algebra_simps)
  qed (simp_all add: len)
  then have "filled out out' {y * w + 0..<y * w + e} ?f"
    by (intro filled_stride_unit [OF e]) simp_all
  moreover have "filled out' (for_loop 1 w e
      (\<lambda>x out. out[y * w + x := on_pixel y_scalar rgb ((y * w + x) * 3)]) out')
      {y * w + 1 * e..<y * w + 1 * w} ?f"
    using en by (intro filled_for_unit) (auto intro: filled_set [OF filled_update])
  ultimately show ?thesis
    unfolding y_row_def Let_def e prod.case mult_1 add_0_right
    by (rule filled_interval_trans) (use en in simp_all)
qed

lemma concat_pairs_nth:
  "i < 2 * length a \<Longrightarrow> length a = length b \<Longrightarrow>
     concat (map2 (\<lambda>x y. [x, y]) a b) ! i = (if even i then a ! (i div 2) else b ! (i div 2))"
proof (induction a b arbitrary: i rule: list_induct2')
  case (4 x xs y ys)
  show ?case
  proof (cases "i < 2")
    case True
    then have "i = 0 \<or> i = 1" by auto
    then show ?thesis by auto
  next
    case False
    then obtain j where "i = j + 2" by (metis add.commute le_Suc_ex not_less)
    then show ?thesis using 4 by simp
  qed
qed auto

lemma length_concat_pairs: "length a = length b \<Longrightarrow> length (concat (map2 (\<lambda>x y. [x, y]) a b)) = 2 * length a"
  by (induction a b rule: list_induct2) auto

text \<open>Cell \<open>k\<close> of the chroma plane: row \<open>k div w\<close>, U at even and V at odd columns, sampled at the
  even pixel of the even row.\<close>

definition uv_cell :: "byte list \<Rightarrow> nat \<Rightarrow> nat \<Rightarrow> byte" where
  "uv_cell rgb w k =
     (let cy = k div w; x = k mod w; p = (2 * cy * w + 2 * (x div 2)) * 3
      in if even x then on_pixel u_scalar rgb p else on_pixel v_scalar rgb p)"

lemma uv_cell_at:
  "x < w \<Longrightarrow> uv_cell rgb w (cy * w + x) =
     on_pixel (if even x then u_scalar else v_scalar) rgb ((2 * cy * w + 2 * (x div 2)) * 3)"
  by (simp add: uv_cell_def)

lemma uv_chunk_filled:
  assumes "even x" "x + 16 \<le> w"
  shows "filled s (case uv_chunk rgb ((2 * cy * w + x) * 3) of (u8, v8) \<Rightarrow> vst2_u8 s (cy * w + x) u8 v8)
    {cy * w + x..<cy * w + (x + 16)} (uv_cell rgb w)"
proof -
  let ?p = "(2 * cy * w + x) * 3"
  obtain u v where uv: "uv_chunk rgb ?p = (u, v)" by fastforce
  have len: "length u = 8" "length v = 8"
    using uv by (auto simp: uv_chunk_def Let_def)
  have "concat (map2 (\<lambda>x y. [x, y]) u v) ! i = uv_cell rgb w (cy * w + x + i)" if "i < 16" for i
  proof -
    have "i div 2 < 8" using that by auto
    then have "u ! (i div 2) = on_pixel u_scalar rgb (?p + 6 * (i div 2))"
      "v ! (i div 2) = on_pixel v_scalar rgb (?p + 6 * (i div 2))"
      using uv_chunk_lane [of "i div 2" rgb ?p] uv by simp_all
    moreover
    have "2 * ((x + i) div 2) = x + 2 * (i div 2)" using assms by auto
    then have p: "(2 * cy * w + 2 * ((x + i) div 2)) * 3 = ?p + 6 * (i div 2)" by simp
    have "uv_cell rgb w (cy * w + (x + i)) =
        on_pixel (if even i then u_scalar else v_scalar) rgb (?p + 6 * (i div 2))"
      using that assms uv_cell_at [of "x + i" w rgb cy] unfolding p by simp
    ultimately show ?thesis
      using that len by (simp add: concat_pairs_nth add.assoc)
  qed
  then show ?thesis
    unfolding uv prod.case vst2_u8_def
    by (intro filled_write_to [where n = 16]) (simp_all add: len length_concat_pairs)
qed

lemma uv_pair_filled:
  assumes "even x" "x + 2 \<le> w" "p = (2 * cy * w + x) * 3"
  shows "filled s (s[cy * w + x := on_pixel u_scalar rgb p, cy * w + x + 1 := on_pixel v_scalar rgb p])
    {cy * w + x..<cy * w + (x + 2)} (uv_cell rgb w)"
proof -
  have "filled s (s[cy * w + x := on_pixel u_scalar rgb p]) {cy * w + x} (uv_cell rgb w)"
    using assms by (intro filled_update) (simp add: uv_cell_at)
  moreover have "uv_cell rgb w (cy * w + (x + 1)) = on_pixel v_scalar rgb p"
    using assms by (subst uv_cell_at) auto
  then have "filled (s[cy * w + x := on_pixel u_scalar rgb p])
      (s[cy * w + x := on_pixel u_scalar rgb p, cy * w + x + 1 := on_pixel v_scalar rgb p])
      {cy * w + x + 1} (uv_cell rgb w)"
    by (intro filled_update) (simp add: add.assoc)
  moreover have "{cy * w + x} \<union> {cy * w + x + 1} = {cy * w + x..<cy * w + (x + 2)}" by auto
  ultimately show ?thesis using filled_trans by metis
qed

lemma uv_row_filled:
  "filled out (uv_row rgb w (2 * cy) out) {cy * w..<cy * w + 2 * (w div 2)} (uv_cell rgb w)"
proof -
  let ?A = "\<lambda>x out. case uv_chunk rgb ((2 * cy * w + x) * 3) of (u8, v8) \<Rightarrow> vst2_u8 out (cy * w + x) u8 v8"
  let ?B = "\<lambda>x out. out[cy * w + x := on_pixel u_scalar rgb ((2 * cy * w + x) * 3),
       cy * w + x + 1 := on_pixel v_scalar rgb ((2 * cy * w + x) * 3)]"
  obtain e out' where e: "stride_loop 16 w 0 ?A out = (e, out')" by fastforce
  obtain e2 out2 where e2: "stride_loop 2 w e ?B out' = (e2, out2)" by fastforce
  have en: "e \<le> w" "16 dvd e" using stride_loop_end [of 0 w 16 ?A out] e by auto
  have ev: "even e" using dvd_trans [OF _ en(2), of 2] by simp
  have en2: "e2 \<le> w" "w < e2 + 2" "e \<le> e2" "2 dvd e2 - e" using stride_loop_end [of e w 2 ?B out'] en e2 by auto
  then have "even e2" using ev by auto
  then have e2w: "e2 = 2 * (w div 2)" using en2 by auto
  have "filled out out' {cy * w + 0..<cy * w + e} (uv_cell rgb w)"
  proof (rule filled_stride_unit [OF e])
    fix x s assume "x + 16 \<le> w" "16 dvd x - 0"
    then show "filled s (?A x s) {cy * w + x..<cy * w + (x + 16)} (uv_cell rgb w)"
      using dvd_trans [of 2 16 x] by (intro uv_chunk_filled) simp_all
  qed simp_all
  moreover have "filled out' out2 {cy * w + e..<cy * w + e2} (uv_cell rgb w)"
  proof (rule filled_stride_unit [OF e2])
    fix x s assume "x + 2 \<le> w" "2 dvd x - e" "e \<le> x"
    then show "filled s (?B x s) {cy * w + x..<cy * w + (x + 2)} (uv_cell rgb w)"
      using ev by (intro uv_pair_filled) auto
  qed (use en in simp_all)
  ultimately have "filled out out2 {cy * w + 0..<cy * w + e2} (uv_cell rgb w)"
    by (rule filled_interval_trans) (use en2 in simp_all)
  moreover have "uv_row rgb w (2 * cy) out = out2"
    using e e2 by (simp add: uv_row_def Let_def)
  ultimately show ?thesis by (simp add: e2w)
qed

lemma y_plane_filled:
  "filled ys (for_loop 1 h 0 (y_row rgb w) ys) {0..<h * w} (\<lambda>k. on_pixel y_scalar rgb (k * 3))"
  using filled_fold [of "[0..<h]" "y_row rgb w" "\<lambda>y. {y * w..<y * w + w}", OF y_row_filled]
  by (simp add: for_loop_1 [unfolded One_nat_def] UN_rows)

lemma uv_plane_filled:
  "filled uvs (for_loop 2 h 0 (uv_row rgb w) uvs)
     (\<Union>cy\<in>{0..<(h + 1) div 2}. {cy * w..<cy * w + 2 * (w div 2)}) (uv_cell rgb w)"
proof -
  have "filled uvs (fold (\<lambda>cy. uv_row rgb w (2 * cy)) [0..<(h + 1) div 2] uvs)
     (\<Union>cy\<in>set [0..<(h + 1) div 2]. {cy * w..<cy * w + 2 * (w div 2)}) (uv_cell rgb w)"
    by (rule filled_fold) (rule uv_row_filled)
  then show ?thesis using for_loop_2 [of h 0 "uv_row rgb w" uvs] by (simp add: fold_map comp_def)
qed

text \<open>The value a converter must put into the planes: pixel \<open>(x, y)\<close> of a \<open>w\<close> pixels wide image.\<close>

definition pixel_at :: "byte list \<Rightarrow> nat \<Rightarrow> nat \<Rightarrow> nat \<Rightarrow> int \<times> int \<times> int" where
  "pixel_at rgb w x y =
     (let p = (y * w + x) * 3 in (uint (rgb ! p), uint (rgb ! (p + 1)), uint (rgb ! (p + 2))))"

lemma on_pixel_at: "on_pixel f rgb ((y * w + x) * 3) = word_of_int (case pixel_at rgb w x y of (r, g, b) \<Rightarrow> f r g b)"
  by (simp add: on_pixel_def pixel_at_def Let_def)

lemma uv_columns_inj:
  fixes w :: nat
  assumes "x < w" "cy * w \<le> cy' * w + x" "cy' * w + x < cy * w + v" "v \<le> w"
  shows "cy = cy' \<and> x < v"
proof -
  have "cy = (cy' * w + x) div w"
    using assms by (intro div_nat_eqI [symmetric]) (auto simp: algebra_simps)
  then have "cy = cy'" using assms(1) by simp
  then show ?thesis using assms by simp
qed

text \<open>
  C27. \<open>rgbToNv12\<close> on an initialized converter writes, for every pixel of the image, the BT.601 luma of
  that pixel into the Y plane, and for every pair of columns of every even row the BT.601 U and V of the
  even pixel into the interleaved chroma plane, whichever of the vector loop and the remainder loop
  handles the column; every other byte of the two planes (bytes after the image, and the last chroma
  column when the width is odd) keeps its value.
\<close>

theorem rgbToNv12_correct:
  assumes init: "cc_mInitialized c" and w: "w = unat (cc_mWidth c)" and h: "h = unat (cc_mHeight c)"
    and "3 * (h * w) \<le> length rgb" and ylen: "h * w \<le> length ys" and uvlen: "(h + 1) div 2 * w \<le> length uvs"
  shows "\<exists>ys' uvs'. rgbToNv12 c (Some rgb) (Some ys) (Some uvs) = (Some ys', Some uvs') \<and>
     length ys' = length ys \<and> length uvs' = length uvs \<and>
     (\<forall>x<w. \<forall>y<h. ys' ! (y * w + x) = word_of_int (case pixel_at rgb w x y of (r, g, b) \<Rightarrow> y_scalar r g b)) \<and>
     (\<forall>k<length ys. h * w \<le> k \<longrightarrow> ys' ! k = ys ! k) \<and>
     (\<forall>cx<w div 2. \<forall>cy<(h + 1) div 2.
        uvs' ! (cy * w + 2 * cx) =
          word_of_int (case pixel_at rgb w (2 * cx) (2 * cy) of (r, g, b) \<Rightarrow> u_scalar r g b) \<and>
        uvs' ! (cy * w + 2 * cx + 1) =
          word_of_int (case pixel_at rgb w (2 * cx) (2 * cy) of (r, g, b) \<Rightarrow> v_scalar r g b)) \<and>
     (\<forall>k<length uvs. (h + 1) div 2 * w \<le> k \<or> 2 * (w div 2) \<le> k mod w \<longrightarrow> uvs' ! k = uvs ! k)"
proof -
  define ys' where "ys' = for_loop 1 h 0 (y_row rgb w) ys"
  define uvs' where "uvs' = for_loop 2 h 0 (uv_row rgb w) uvs"
  let ?H = "(h + 1) div 2"
  let ?D = "\<Union>cy\<in>{0..<?H}. {cy * w..<cy * w + 2 * (w div 2)}"
  note Y = y_plane_filled [of ys h rgb w, folded ys'_def]
  note UV = uv_plane_filled [of uvs h rgb w, folded uvs'_def]
  have "rgbToNv12 c (Some rgb) (Some ys) (Some uvs) = (Some ys', Some uvs')"
    using init by (simp add: rgbToNv12_def ys'_def uvs'_def w h Let_def)
  moreover have "length ys' = length ys" "length uvs' = length uvs"
    using Y UV by (auto dest: filled_length)
  moreover have "ys' ! (y * w + x) = word_of_int (case pixel_at rgb w x y of (r, g, b) \<Rightarrow> y_scalar r g b)"
    if "x < w" "y < h" for x y
    using filled_nth [OF Y, of "y * w + x"] cell_less [OF that] ylen by (simp flip: on_pixel_at)
  moreover have "ys' ! k = ys ! k" if "k < length ys" "h * w \<le> k" for k
    using filled_nth [OF Y that(1)] that(2) by simp
  moreover have "uvs' ! (cy * w + 2 * cx) =
          word_of_int (case pixel_at rgb w (2 * cx) (2 * cy) of (r, g, b) \<Rightarrow> u_scalar r g b) \<and>
        uvs' ! (cy * w + 2 * cx + 1) =
          word_of_int (case pixel_at rgb w (2 * cx) (2 * cy) of (r, g, b) \<Rightarrow> v_scalar r g b)"
    if "cx < w div 2" "cy < ?H" for cx cy
  proof -
    have "2 * cx + 1 < w" using that by auto
    then have in_plane: "cy * w + (2 * cx + 1) < length uvs"
      using cell_less [of "2 * cx + 1" w cy ?H] that uvlen by linarith
    have "cy * w + 2 * cx \<in> ?D" "cy * w + (2 * cx + 1) \<in> ?D"
      by (rule UN_I [of cy]; use that in auto)+
    then have "uvs' ! (cy * w + 2 * cx) = uv_cell rgb w (cy * w + 2 * cx)"
        "uvs' ! (cy * w + (2 * cx + 1)) = uv_cell rgb w (cy * w + (2 * cx + 1))"
      using filled_nth [OF UV, of "cy * w + 2 * cx"] filled_nth [OF UV, of "cy * w + (2 * cx + 1)"] in_plane
      by simp_all
    moreover have "uv_cell rgb w (cy * w + 2 * cx) = on_pixel u_scalar rgb ((2 * cy * w + 2 * cx) * 3)"
        "uv_cell rgb w (cy * w + (2 * cx + 1)) = on_pixel v_scalar rgb ((2 * cy * w + 2 * cx) * 3)"
      using \<open>2 * cx + 1 < w\<close> by (subst uv_cell_at; simp)+
    ultimately show ?thesis by (simp only: on_pixel_at add.assoc simp_thms)
  qed
  moreover have "uvs' ! k = uvs ! k"
    if "k < length uvs" "?H * w \<le> k \<or> 2 * (w div 2) \<le> k mod w" for k
  proof -
    have "k \<notin> ?D"
    proof
      assume "k \<in> ?D"
      then obtain cy where cy: "cy < ?H" "cy * w \<le> k" "k < cy * w + 2 * (w div 2)" by auto
      then have "k < cy * w + w" by linarith
      moreover have "cy * w + w \<le> ?H * w" using cy(1) mult_le_mono1 [of "Suc cy" ?H w] by simp
      moreover have "w > 0" using cy by (cases w) auto
      then have "k mod w < 2 * (w div 2)"
        using uv_columns_inj [of "k mod w" w cy "k div w" "2 * (w div 2)"] cy by simp
      ultimately show False using that(2) by linarith
    qed
    then show ?thesis using filled_nth [OF UV that(1)] by (simp only: if_False)
  qed
  ultimately show ?thesis by blast
qed

theorem rgbToNv12_correct_witness:
  "\<exists>ys' uvs'. rgbToNv12 \<lparr>cc_mWidth = 2, cc_mHeight = 1, cc_mInitialized = True\<rparr>
       (Some [255, 0, 0, 0, 255, 0]) (Some [7, 7, 7]) (Some [0, 0]) = (Some ys', Some uvs') \<and>
     ys' ! 0 = 82 \<and> ys' ! 1 = 144 \<and> ys' ! 2 = 7 \<and> uvs' ! 0 = 90 \<and> uvs' ! 1 = 240"
proof -
  let ?rgb = "[255, 0, 0, 0, 255, 0] :: byte list"
  have px: "pixel_at ?rgb 2 0 0 = (255, 0, 0)" "pixel_at ?rgb 2 (Suc 0) 0 = (0, 255, 0)"
    by (simp_all add: pixel_at_def)
  have val: "y_scalar 255 0 0 = 82" "y_scalar 0 255 0 = 144" "u_scalar 255 0 0 = 90" "v_scalar 255 0 0 = 240"
    by (simp_all add: y_scalar_def u_scalar_def v_scalar_def drop_bit_8_int)
  obtain ys' uvs' where r: "rgbToNv12 \<lparr>cc_mWidth = 2, cc_mHeight = 1, cc_mInitialized = True\<rparr>
       (Some ?rgb) (Some [7, 7, 7]) (Some [0, 0]) = (Some ys', Some uvs')"
    and Y: "\<forall>x<2. \<forall>y<1. ys' ! (y * 2 + x) =
      word_of_int (case pixel_at ?rgb 2 x y of (r, g, b) \<Rightarrow> y_scalar r g b)"
    and K: "\<forall>k<length ([7, 7, 7] :: byte list). 1 * 2 \<le> k \<longrightarrow> ys' ! k = [7, 7, 7] ! k"
    and UV: "\<forall>cx<2 div 2. \<forall>cy<(1 + 1) div 2.
      uvs' ! (cy * 2 + 2 * cx) =
        word_of_int (case pixel_at ?rgb 2 (2 * cx) (2 * cy) of (r, g, b) \<Rightarrow> u_scalar r g b) \<and>
      uvs' ! (cy * 2 + 2 * cx + 1) =
        word_of_int (case pixel_at ?rgb 2 (2 * cx) (2 * cy) of (r, g, b) \<Rightarrow> v_scalar r g b)"
    using rgbToNv12_correct [of "\<lparr>cc_mWidth = 2, cc_mHeight = 1, cc_mInitialized = True\<rparr>" 2 1
        ?rgb "[7, 7, 7]" "[0, 0]"] by auto
  have "ys' ! 0 = 82" using Y [rule_format, of 0 0] by (simp add: px val)
  moreover have "ys' ! 1 = 144" using Y [rule_format, of 1 0] by (simp add: px val)
  moreover have "ys' ! 2 = 7" using K [rule_format, of 2] by simp
  moreover have "uvs' ! 0 = 90" "uvs' ! 1 = 240" using UV [rule_format, of 0 0] by (simp_all add: px val)
  ultimately show ?thesis using r by blast
qed

text \<open>
  C28. The eight lanes of the vectorised luma and chroma code hold, for every input, exactly the value of
  the scalar BT.601 formula used by the remainder loops, without saturating or wrapping in the 16-bit
  and 32-bit intermediates; luma stays in 16..235 and chroma in 16..240.
\<close>

theorem bt601_lanes_studio_range:
  assumes "i < 8" and "(r, g, b) = (uint (rgb ! (p + 3 * i)), uint (rgb ! (p + 3 * i + 1)), uint (rgb ! (p + 3 * i + 2)))"
    and "(r', g', b') = (uint (rgb ! (p + 6 * i)), uint (rgb ! (p + 6 * i + 1)), uint (rgb ! (p + 6 * i + 2)))"
  shows "uint (y_chunk rgb p ! i) = y_scalar r g b \<and> 16 \<le> y_scalar r g b \<and> y_scalar r g b \<le> 235 \<and>
    uint (fst (uv_chunk rgb p) ! i) = u_scalar r' g' b' \<and> 16 \<le> u_scalar r' g' b' \<and> u_scalar r' g' b' \<le> 240 \<and>
    uint (snd (uv_chunk rgb p) ! i) = v_scalar r' g' b' \<and> 16 \<le> v_scalar r' g' b' \<and> v_scalar r' g' b' \<le> 240"
proof -
  have ranges: "16 \<le> y_scalar r g b" "y_scalar r g b \<le> 235" "16 \<le> u_scalar r' g' b'" "u_scalar r' g' b' \<le> 240"
      "16 \<le> v_scalar r' g' b'" "v_scalar r' g' b' \<le> 240"
    using assms(2,3) by (simp_all add: y_scalar_range u_scalar_range v_scalar_range)
  have "y_chunk rgb p ! i = word_of_int (y_scalar r g b)"
    "fst (uv_chunk rgb p) ! i = word_of_int (u_scalar r' g' b')"
    "snd (uv_chunk rgb p) ! i = word_of_int (v_scalar r' g' b')"
    using assms by (simp_all add: y_chunk_lane uv_chunk_lane on_pixel_def)
  then show ?thesis using ranges by (auto intro!: uint_8)
qed

theorem bt601_lanes_studio_range_witness:
  "uint (y_chunk (replicate 48 255) 0 ! 7) = 235 \<and> uint (fst (uv_chunk (replicate 48 255) 0) ! 7) = 128"
proof -
  let ?w = "replicate 48 255 :: byte list"
  have px: "uint (?w ! k) = 255" if "k < 48" for k
    using that by (simp add: nth_replicate)
  have "y_scalar 255 255 255 = 235" "u_scalar 255 255 255 = 128"
    by (simp_all add: y_scalar_def u_scalar_def drop_bit_8_int)
  moreover have p: "(255, 255, 255) = (uint (?w ! (0 + 3 * 7)), uint (?w ! (0 + 3 * 7 + 1)), uint (?w ! (0 + 3 * 7 + 2)))"
    "(255, 255, 255) = (uint (?w ! (0 + 6 * 7)), uint (?w ! (0 + 6 * 7 + 1)), uint (?w ! (0 + 6 * 7 + 2)))"
    by (subst px px; simp)+
  have "(7 :: nat) < 8" by simp
  note bt601_lanes_studio_range [OF this p]
  ultimately show ?thesis by simp
qed

section \<open>RGBA images\<close>

lemma length_concat_quads: "length (concat (map (\<lambda>i. [a i, b i, c i, d i]) [0..<n])) = 4 * n"
  by (induction n) auto

lemma concat_quads_nth:
  "k < 4 * n \<Longrightarrow> concat (map (\<lambda>i. [q i 0, q i 1, q i 2, q i 3]) [0..<n]) ! k = q (k div 4) (k mod (4 :: nat))"
proof (induction n)
  case (Suc n)
  have len: "length (concat (map (\<lambda>i. [q i 0, q i 1, q i 2, q i 3]) [0..<n])) = 4 * n"
    by (rule length_concat_quads)
  show ?case
  proof (cases "k < 4 * n")
    case True
    then show ?thesis using Suc len by (simp add: nth_append)
  next
    case False
    then obtain j where j: "k = 4 * n + j" "j < 4" using Suc.prems by (metis add_less_cancel_left le_iff_add mult_Suc_right not_less add.commute)
    then have "j = 0 \<or> j = 1 \<or> j = 2 \<or> j = 3" by linarith
    then show ?thesis using j len by (auto simp: nth_append)
  qed
qed simp

lemma filled_quad:
  assumes "a = f p" "b = f (p + 1)" "c = f (p + 2)" "d = f (p + 3)" "q = p + 4"
  shows "filled s (s[p := a, p + 1 := b, p + 2 := c, p + 3 := d]) {p..<q} f"
proof -
  have "filled s (s[p := a, p + 1 := b, p + 2 := c, p + 3 := d])
      ((({p} \<union> {p + 1}) \<union> {p + 2}) \<union> {p + 3}) f"
    by (rule filled_trans [OF filled_trans [OF filled_trans [OF filled_update filled_update]
          filled_update] filled_update]) (rule assms)+
  moreover have "(({p} \<union> {p + 1}) \<union> {p + 2}) \<union> {p + 3} = {p..<q}" using assms by auto
  ultimately show ?thesis by simp
qed

lemma filled_quads_chunk:
  assumes "\<And>i j. i < n \<Longrightarrow> j < 4 \<Longrightarrow> q i j = f (p + 4 * i + j)" "e = p + 4 * n"
  shows "filled s (write_at s p (concat (map (\<lambda>i. [q i 0, q i 1, q i 2, q i 3]) [0..<n]))) {p..<e} f"
proof (rule filled_write_to)
  show "length (concat (map (\<lambda>i. [q i 0, q i 1, q i 2, q i 3]) [0..<n])) = 4 * n"
    by (rule length_concat_quads)
  show "concat (map (\<lambda>i. [q i 0, q i 1, q i 2, q i 3]) [0..<n]) ! k = f (p + k)" if "k < 4 * n" for k
    using concat_quads_nth [OF that, of q] assms(1) [of "k div 4" "k mod 4"] that
    by (simp add: less_mult_imp_div_less mult.commute add.assoc)
qed (use assms in simp)

definition rgba_cell :: "byte list \<Rightarrow> nat \<Rightarrow> byte" where
  "rgba_cell src k = (if k mod 4 = 3 then 255 else src ! (3 * (k div 4) + k mod 4))"

lemma off32_id: "n < 2 ^ 32 \<Longrightarrow> off32 n = n"
  by (simp add: off32_def)

lemma rgba_cell_at: "j < 4 \<Longrightarrow> rgba_cell src (4 * i + j) = (if j = 3 then 255 else src ! (3 * i + j))"
  by (simp add: rgba_cell_def)

lemma four_div_mod: "j < 4 \<Longrightarrow> (4 * i + j) div 4 = (i :: nat)" "j < 4 \<Longrightarrow> (4 * i + j) mod 4 = (j :: nat)"
  by auto

lemma rgba_chunk_filled:
  assumes "(i + 8) * 4 \<le> 2 ^ 32"
  shows "filled s (vst4_u8 s (off32 (i * 4)) (vld3_u8 src (off32 (i * 3)) 0)
      (vld3_u8 src (off32 (i * 3)) 1) (vld3_u8 src (off32 (i * 3)) 2) (vdup 8 255))
    {0 + 4 * i..<0 + 4 * (i + 8)} (rgba_cell src)"
proof -
  have o: "off32 (i * 4) = 4 * i" "off32 (i * 3) = 3 * i" using assms by (simp_all add: off32_id)
  let ?q = "\<lambda>k j. if j = (3 :: nat) then (255 :: byte) else src ! (3 * (i + k) + j)"
  have q: "concat (map (\<lambda>k. [vld3_u8 src (3 * i) 0 ! k, vld3_u8 src (3 * i) 1 ! k,
      vld3_u8 src (3 * i) 2 ! k, vdup 8 255 ! k]) [0..<8]) =
    concat (map (\<lambda>k. [?q k 0, ?q k 1, ?q k 2, ?q k 3]) [0..<8])"
    by (intro arg_cong [where f = concat] map_cong) (auto simp: vld3_u8_def vdup_def algebra_simps)
  have "?q k j = rgba_cell src (4 * i + 4 * k + j)" if "k < 8" "j < 4" for k j
    using rgba_cell_at [OF that(2), of src "i + k"] by (simp add: algebra_simps)
  then have "filled s (write_at s (4 * i) (concat (map (\<lambda>k. [?q k 0, ?q k 1, ?q k 2, ?q k 3]) [0..<8])))
      {4 * i..<4 * (i + 8)} (rgba_cell src)"
    by (intro filled_quads_chunk) simp_all
  then show ?thesis unfolding vst4_u8_def o q by simp
qed

lemma rgba_pixel_filled:
  assumes "4 * i + 3 < 2 ^ 32"
  shows "filled s (s[off32 (i * 4) := src ! off32 (i * 3), off32 (i * 4 + 1) := src ! off32 (i * 3 + 1),
       off32 (i * 4 + 2) := src ! off32 (i * 3 + 2), off32 (i * 4 + 3) := 255])
    {0 + 4 * i..<0 + 4 * (i + 1)} (rgba_cell src)"
proof -
  have "off32 (i * 4) = 4 * i" "off32 (i * 4 + 1) = 4 * i + 1" "off32 (i * 4 + 2) = 4 * i + 2"
    "off32 (i * 4 + 3) = 4 * i + 3" "off32 (i * 3) = 3 * i" "off32 (i * 3 + 1) = 3 * i + 1"
    "off32 (i * 3 + 2) = 3 * i + 2"
    using assms by (simp_all add: off32_id)
  then show ?thesis
    using rgba_cell_at [of 0 src i] rgba_cell_at [of 1 src i] rgba_cell_at [of 2 src i] rgba_cell_at [of 3 src i]
    by (simp only: add_0_left) (rule filled_quad; simp)
qed

lemma rgbToRgba_spec:
  assumes size: "unat width * unat height * 4 < 2 ^ 32"
    and "unat width * unat height * 3 \<le> length src" and dlen: "unat width * unat height * 4 \<le> length dst"
  shows "\<exists>out. rgbToRgba (Some src) (Some dst) width height = Some out \<and> length out = length dst \<and>
    (\<forall>i<unat width * unat height. out ! (4 * i) = src ! (3 * i) \<and> out ! (4 * i + 1) = src ! (3 * i + 1) \<and>
       out ! (4 * i + 2) = src ! (3 * i + 2) \<and> out ! (4 * i + 3) = 255) \<and>
    (\<forall>k<length dst. unat width * unat height * 4 \<le> k \<longrightarrow> out ! k = dst ! k)"
proof -
  define total where "total = unat width * unat height"
  have total: "unat (width * height) = total"
    using size unfolding total_def by (subst unat_mult_lem [THEN iffD1]) (simp_all add: mult.commute)
  let ?A = "\<lambda>i out. vst4_u8 out (off32 (i * 4)) (vld3_u8 src (off32 (i * 3)) 0)
      (vld3_u8 src (off32 (i * 3)) 1) (vld3_u8 src (off32 (i * 3)) 2) (vdup 8 255)"
  let ?B = "\<lambda>i out. out[off32 (i * 4) := src ! off32 (i * 3), off32 (i * 4 + 1) := src ! off32 (i * 3 + 1),
       off32 (i * 4 + 2) := src ! off32 (i * 3 + 2), off32 (i * 4 + 3) := 255]"
  obtain e dst' where e: "stride_loop 8 total 0 ?A dst = (e, dst')" by fastforce
  have en: "e \<le> total" using stride_loop_end [of 0 total 8 ?A dst] e by simp
  define out where "out = for_loop 1 total e ?B dst'"
  have fit: "4 * total < 2 ^ 32" using size by (simp add: total_def)
  have "filled dst dst' {0 + 4 * 0..<0 + 4 * e} (rgba_cell src)"
    by (rule filled_stride_result [OF e]) (use fit in \<open>auto intro!: rgba_chunk_filled [simplified]\<close>)
  moreover have "filled dst' out {0 + 4 * e..<0 + 4 * total} (rgba_cell src)"
    unfolding out_def using fit en by (intro filled_for_unit rgba_pixel_filled) auto
  ultimately have F: "filled dst out {0 + 4 * 0..<0 + 4 * total} (rgba_cell src)"
    by (rule filled_interval_trans) (use en in auto)
  have r: "rgbToRgba (Some src) (Some dst) width height = Some out"
    by (simp only: rgbToRgba_def prod.case option.case total Let_def e out_def)
  have px: "out ! (4 * i + j) = (if j = 3 then 255 else src ! (3 * i + j))" if "i < total" "j < 4" for i j
    using filled_nth [OF F, of "4 * i + j"] that dlen rgba_cell_at [of j src i] by (simp add: total_def)
  have "out ! (4 * i) = src ! (3 * i) \<and> out ! (4 * i + 1) = src ! (3 * i + 1) \<and>
       out ! (4 * i + 2) = src ! (3 * i + 2) \<and> out ! (4 * i + 3) = 255" if "i < total" for i
    using px [OF that, of 0] px [OF that, of 1] px [OF that, of 2] px [OF that, of 3] by simp
  moreover have "out ! k = dst ! k" if "k < length dst" "total * 4 \<le> k" for k
    using filled_nth [OF F that(1)] that(2) by simp
  ultimately show ?thesis using r filled_length [OF F] unfolding total_def by blast
qed

text \<open>
  For images whose RGBA size fits 32 bits, \<open>rgbToRgba\<close> sets every destination pixel to the
  source pixel's three bytes followed by alpha 255, in the vector loop and in the remainder loop alike,
  and leaves the destination after the image alone.
\<close>

theorem rgbToRgba_correct:
  assumes size: "unat width * unat height * 4 < 2 ^ 32"
    and "unat width * unat height * 3 \<le> length src" and dlen: "unat width * unat height * 4 \<le> length dst"
  shows "\<exists>out. rgbToRgba (Some src) (Some dst) width height = Some out \<and> length out = length dst \<and>
    (\<forall>i<unat width * unat height. out ! (4 * i) = src ! (3 * i) \<and> out ! (4 * i + 1) = src ! (3 * i + 1) \<and>
       out ! (4 * i + 2) = src ! (3 * i + 2) \<and> out ! (4 * i + 3) = 255) \<and>
    (\<forall>k<length dst. unat width * unat height * 4 \<le> k \<longrightarrow> out ! k = dst ! k)"
  by (rule rgbToRgba_spec [OF assms])

theorem rgbToRgba_correct_witness:
  "\<exists>out. rgbToRgba (Some [1, 2, 3, 4, 5, 6]) (Some (replicate 9 0)) 2 1 = Some out \<and>
     out ! (4 * 1) = 4 \<and> out ! (4 * 1 + 3) = 255"
proof -
  obtain out where "rgbToRgba (Some [1, 2, 3, 4, 5, 6]) (Some (replicate 9 0)) 2 1 = Some out"
    "\<forall>i<unat (2 :: u32) * unat (1 :: u32). out ! (4 * i) = [1, 2, 3, 4, 5, 6] ! (3 * i) \<and>
       out ! (4 * i + 1) = [1, 2, 3, 4, 5, 6] ! (3 * i + 1) \<and>
       out ! (4 * i + 2) = [1, 2, 3, 4, 5, 6] ! (3 * i + 2) \<and> out ! (4 * i + 3) = 255"
    using rgbToRgba_correct [of 2 1 "[1, 2, 3, 4, 5, 6]" "replicate 9 0"] by auto
  then show ?thesis by (auto dest: spec [of _ 1])
qed

section \<open>White balance and gamma\<close>

lemma gain_half_lane:
  assumes "length v = 4" "i < 4" "0 \<le> G" "G < 65536" "uint (v ! i) \<le> 255"
  shows "uint (gain_half v (vdup 4 (word_of_int G)) ! i) = drop_bit 8 (uint (v ! i) * G + 128)"
proof -
  define k where "k = uint (v ! i) * G + 128"
  have "uint (v ! i) * G \<le> 255 * 65535" using assms by (intro mult_mono) auto
  then have k: "0 \<le> k" "k < 16777216" using assms by (auto simp: k_def)
  have g: "uint (word_of_int G :: u16) = G" using assms by (intro uint_16) auto
  have w: "uint (word_of_int (uint (v ! i) * G) + 128 :: u32) = k"
    using uint_32 [of k] k by (simp add: k_def)
  have l: "gain_half v (vdup 4 (word_of_int G)) ! i =
      ucast (drop_bit 8 (word_of_int (uint (v ! i) * G) + 128 :: u32))"
    using assms g by (simp add: gain_half_def vshrn_n_u32_def vaddq_def vmull_u16_def vdup_def
        del: of_int_mult)
  have "k div 256 < 65536" using k by linarith
  then have "uint (ucast (drop_bit 8 (word_of_int (uint (v ! i) * G) + 128 :: u32)) :: u16) = k div 256"
    using k by (simp only: unsigned_ucast_eq unsigned_drop_bit_eq w) (simp add: take_bit_int_eq_self drop_bit_8_int)
  then show ?thesis unfolding l k_def drop_bit_8_int .
qed

lemma gain_lane:
  assumes "length v = 8" "i < 8" "0 \<le> G" "G < 65536"
  shows "uint (gain_lanes G v ! i) = min 255 (gain_scalar G (v ! i))"
proof -
  let ?g = "vdup 4 (word_of_int G) :: u16 list"
  let ?lo = "gain_half (map ucast (take 4 v)) ?g" and ?hi = "gain_half (map ucast (drop 4 v)) ?g"
  have len: "length (gain_half x ?g) = 4" if "length x = 4" for x
    using that by (simp add: gain_half_def vec_defs)
  have lane: "uint ((?lo @ ?hi) ! i) = gain_scalar G (v ! i)"
  proof (cases "i < 4")
    case True
    then show ?thesis using assms gain_half_lane [of "map ucast (take 4 v)" i G]
      by (simp add: nth_append len gain_scalar_def)
  next
    case False
    then show ?thesis using assms gain_half_lane [of "map ucast (drop 4 v)" "i - 4" G]
      by (simp add: nth_append len gain_scalar_def)
  qed
  have "gain_lanes G v ! i =
      (\<lambda>a. if uint a > 255 then 255 else ucast a) ((?lo @ ?hi) ! i)"
    using assms by (simp add: gain_lanes_def vget_low_def vget_high_def vmovl_u8_def take_map drop_map
        vcombine_def vqmovn_u16_def vdup_def len [unfolded vdup_def] del: map_append)
  moreover have "0 \<le> gain_scalar G (v ! i)"
    using assms by (simp add: gain_scalar_def)
  ultimately show ?thesis using lane
    by (auto simp: unsigned_ucast_eq take_bit_int_eq_self min_def)
qed

definition wb_channel :: "byte list \<Rightarrow> byte list \<Rightarrow> int \<Rightarrow> nat \<Rightarrow> byte" where
  "wb_channel src lut G p = lut ! nat (min 255 (gain_scalar G (src ! p)))"

definition wb_quad :: "byte list \<Rightarrow> byte list \<Rightarrow> int \<Rightarrow> int \<Rightarrow> int \<Rightarrow> nat \<Rightarrow> nat \<Rightarrow> byte" where
  "wb_quad src lut rG gG bG p j =
     (if j = 0 then wb_channel src lut rG p else if j = 1 then wb_channel src lut gG (p + 1)
      else if j = 2 then wb_channel src lut bG (p + 2) else 255)"

lemma wbgamma_row_filled:
  assumes fit: "h * w * 4 < 2 ^ 32" and rows: "y < h" "srcRow < h"
    and gains: "0 \<le> rG" "rG < 65536" "0 \<le> gG" "gG < 65536" "0 \<le> bG" "bG < 65536"
  shows "filled out (wbgamma_row src lut rG gG bG w srcRow y out) {y * w * 4..<y * w * 4 + w * 4}
    (\<lambda>k. wb_quad src lut rG gG bG ((srcRow * w + (k div 4 - y * w)) * 3) (k mod 4))"
    (is "filled _ _ _ ?f")
proof -
  let ?A = "\<lambda>x out. write_at out (off32 (off32 (y * off32 (w * 4)) + x * 4))
      (concat (map (\<lambda>i.
        [lut ! unat (gain_lanes rG (vld3_u8 src (off32 (off32 (srcRow * w * 3) + x * 3)) 0) ! i),
         lut ! unat (gain_lanes gG (vld3_u8 src (off32 (off32 (srcRow * w * 3) + x * 3)) 1) ! i),
         lut ! unat (gain_lanes bG (vld3_u8 src (off32 (off32 (srcRow * w * 3) + x * 3)) 2) ! i), 255])
         [0..<8]))"
  have cell: "y * w + x < h * w" "srcRow * w + x < h * w" if "x < w" for x
    using cell_less that rows by auto
  have o: "off32 (off32 (y * off32 (w * 4)) + x * 4) = y * w * 4 + 4 * x"
      "off32 (off32 (srcRow * w * 3) + x * 3) = (srcRow * w + x) * 3"
      "off32 (srcRow * w + x) = srcRow * w + x"
      "off32 (y * off32 (w * 4) + x * 4) = y * w * 4 + 4 * x" if "x < w" for x
  proof -
    have "w * 4 < 2 ^ 32" using fit rows by (cases h) auto
    then show "off32 (off32 (y * off32 (w * 4)) + x * 4) = y * w * 4 + 4 * x"
      "off32 (off32 (srcRow * w * 3) + x * 3) = (srcRow * w + x) * 3"
      "off32 (srcRow * w + x) = srcRow * w + x"
      "off32 (y * off32 (w * 4) + x * 4) = y * w * 4 + 4 * x"
      using fit cell [OF that] by (simp_all add: off32_id algebra_simps)
  qed
  have f: "?f (y * w * 4 + 4 * x + j) = wb_quad src lut rG gG bG ((srcRow * w + x) * 3) j" if "j < 4" for x j
  proof -
    have "y * w * 4 + 4 * x + j = 4 * (y * w + x) + j" by simp
    then show ?thesis using that by (simp only: four_div_mod diff_add_inverse)
  qed
  have "filled s (?A x s) {y * w * 4 + 4 * x..<y * w * 4 + 4 * (x + 8)} ?f" if "x + 8 \<le> w" for x s
  proof -
    let ?q = "\<lambda>i j. wb_quad src lut rG gG bG ((srcRow * w + (x + i)) * 3) j"
    have lane: "lut ! unat (gain_lanes G (vld3_u8 src ((srcRow * w + x) * 3) c) ! i) =
        wb_channel src lut G ((srcRow * w + (x + i)) * 3 + c)" if "i < 8" "0 \<le> G" "G < 65536" for i c G
      using gain_lane [of "vld3_u8 src ((srcRow * w + x) * 3) c" i G] that
      by (simp add: wb_channel_def vld3_u8_def algebra_simps flip: nat_uint_eq)
    have "?A x s = write_at s (y * w * 4 + 4 * x) (concat (map (\<lambda>i. [?q i 0, ?q i 1, ?q i 2, ?q i 3]) [0..<8]))"
    proof -
      have "x < w" using that by simp
      then show ?thesis using gains
        by (intro arg_cong2 [where f = "write_at s"] arg_cong [where f = concat] map_cong)
          (simp_all add: o wb_quad_def lane lane [where c = 0, simplified add_0_right]
            del: distrib_right_numeral One_nat_def add_2_eq_Suc')
    qed
    then show ?thesis
    proof (simp only:, intro filled_quads_chunk)
      fix i j :: nat assume "j < 4"
      have "y * w * 4 + 4 * x + 4 * i + j = y * w * 4 + 4 * (x + i) + j" by simp
      then show "?q i j = ?f (y * w * 4 + 4 * x + 4 * i + j)" using f [OF \<open>j < 4\<close>, of "x + i"] by (simp only:)
    qed simp
  qed
  note chunk = this
  obtain e out' where e: "stride_loop 8 w 0 ?A out = (e, out')" by fastforce
  have en: "e \<le> w" using stride_loop_end [of 0 w 8 ?A out] e by simp
  have "filled out out' {y * w * 4 + 4 * 0..<y * w * 4 + 4 * e} ?f"
    by (rule filled_stride_result [OF e _ _ chunk]) simp_all
  moreover have "filled out' (wbgamma_row src lut rG gG bG w srcRow y out) {y * w * 4 + 4 * e..<y * w * 4 + 4 * w} ?f"
    unfolding wbgamma_row_def Let_def e prod.case
  proof (rule filled_for_unit)
    fix x s assume "e \<le> x" "x < w"
    then show "filled s (s[off32 (y * off32 (w * 4) + x * 4) :=
           lut ! nat (if 255 < gain_scalar rG (src ! (off32 (srcRow * w + x) * 3)) then 255
                      else gain_scalar rG (src ! (off32 (srcRow * w + x) * 3))),
         off32 (y * off32 (w * 4) + x * 4) + 1 :=
           lut ! nat (if 255 < gain_scalar gG (src ! (off32 (srcRow * w + x) * 3 + 1)) then 255
                      else gain_scalar gG (src ! (off32 (srcRow * w + x) * 3 + 1))),
         off32 (y * off32 (w * 4) + x * 4) + 2 :=
           lut ! nat (if 255 < gain_scalar bG (src ! (off32 (srcRow * w + x) * 3 + 2)) then 255
                      else gain_scalar bG (src ! (off32 (srcRow * w + x) * 3 + 2))),
         off32 (y * off32 (w * 4) + x * 4) + 3 := 255])
        {y * w * 4 + 4 * x..<y * w * 4 + 4 * (x + 1)} ?f"
      using f [of 0 x] f [of 1 x] f [of 2 x] f [of 3 x]
      by (simp only: o, intro filled_quad) (simp_all add: wb_quad_def wb_channel_def min_def)
  qed (rule en)
  ultimately have "filled out (wbgamma_row src lut rG gG bG w srcRow y out)
      {y * w * 4 + 4 * 0..<y * w * 4 + 4 * w} ?f"
    by (rule filled_interval_trans) (use en in auto)
  then show ?thesis by (simp add: mult.commute)
qed

lemma fixed_gain_range:
  assumes "0 \<le> gain" "gain \<le> 255"
  shows "0 \<le> fixed_gain gain" "fixed_gain gain < 65536"
proof -
  have a: "0 \<le> f32 (gain * 256)" "f32 (gain * 256) \<le> 65280"
    using f32_ge_int [of 0 "gain * 256"] f32_le_int [of "gain * 256" 65280] assms by simp_all
  have b: "0 \<le> f32 (f32 (gain * 256) + 1 / 2)" "f32 (f32 (gain * 256) + 1 / 2) \<le> of_int 65281"
    using f32_ge_int [of 0 "f32 (gain * 256) + 1 / 2"] f32_le_int [of "f32 (gain * 256) + 1 / 2" 65281] a
    by simp_all
  show "0 \<le> fixed_gain gain" using b(1) by (simp add: fixed_gain_def trunc_nonneg)
  show "fixed_gain gain < 65536" using trunc_mono [OF b(2)] unfolding trunc_of_int by (simp add: fixed_gain_def)
qed

text \<open>
  For gains between 0 and 255 and images whose RGBA size fits 32 bits, \<open>rgbToRgbaWbGamma\<close> sets
  pixel \<open>(x, y)\<close> of the output to the gamma table entries of the source pixel's channels, each
  multiplied by its Q8 gain, rounded and clamped to 255, and alpha to 255; the source row is \<open>y\<close>, or its
  mirror image when \<open>flipV\<close> is set. Vector and remainder columns agree, and bytes after the image keep
  their value.
\<close>

theorem rgbToRgbaWbGamma_correct:
  assumes w: "w = unat width" and h: "h = unat height" and fit: "h * w * 4 < 2 ^ 32"
    and "h * w * 3 \<le> length src" and dlen: "h * w * 4 \<le> length dst" and "length lut = 256"
    and gains: "0 \<le> rGain" "rGain \<le> 255" "0 \<le> gGain" "gGain \<le> 255" "0 \<le> bGain" "bGain \<le> 255"
  shows "\<exists>out. rgbToRgbaWbGamma (Some src) (Some dst) width height rGain gGain bGain (Some lut) flipV = Some out \<and>
    length out = length dst \<and>
    (\<forall>x<w. \<forall>y<h. let s = ((if flipV then h - 1 - y else y) * w + x) * 3; d = (y * w + x) * 4 in
       out ! d = lut ! nat (min 255 (gain_scalar (fixed_gain rGain) (src ! s))) \<and>
       out ! (d + 1) = lut ! nat (min 255 (gain_scalar (fixed_gain gGain) (src ! (s + 1)))) \<and>
       out ! (d + 2) = lut ! nat (min 255 (gain_scalar (fixed_gain bGain) (src ! (s + 2)))) \<and>
       out ! (d + 3) = 255) \<and>
    (\<forall>k<length dst. h * w * 4 \<le> k \<longrightarrow> out ! k = dst ! k)"
proof -
  let ?R = "fixed_gain rGain" and ?G = "fixed_gain gGain" and ?B = "fixed_gain bGain"
  let ?row = "\<lambda>y. if flipV then h - 1 - y else y"
  let ?f = "\<lambda>k. wb_quad src lut ?R ?G ?B ((?row (k div 4 div w) * w + k div 4 mod w) * 3) (k mod 4)"
  let ?body = "\<lambda>y. wbgamma_row src lut ?R ?G ?B w (?row y) y"
  define out where "out = for_loop 1 h 0 ?body dst"
  have r: "rgbToRgbaWbGamma (Some src) (Some dst) width height rGain gGain bGain (Some lut) flipV = Some out"
    by (simp only: rgbToRgbaWbGamma_def out_def prod.case option.case w h)
  have row: "filled s (?body y s) {0 + w * 4 * y..<0 + w * 4 * (y + 1)} ?f" if "y < h" for y s
  proof -
    have "filled s (?body y s) {y * w * 4..<y * w * 4 + w * 4}
        (\<lambda>k. wb_quad src lut ?R ?G ?B ((?row y * w + (k div 4 - y * w)) * 3) (k mod 4))"
      using that fit gains by (intro wbgamma_row_filled [of h]) (auto simp: fixed_gain_range)
    moreover have "k div 4 div w = y \<and> k div 4 mod w = k div 4 - y * w" if "k \<in> {y * w * 4..<y * w * 4 + w * 4}" for k
    proof -
      have k: "y * w \<le> k div 4" "k div 4 < y * w + w" using that by auto
      then obtain x where "k div 4 = y * w + x" "x < w" by (metis add_less_cancel_left le_iff_add)
      then show ?thesis by simp
    qed
    ultimately have "filled s (?body y s) {y * w * 4..<y * w * 4 + w * 4} ?f"
      unfolding filled_def by auto
    then show ?thesis by (simp add: algebra_simps)
  qed
  have "filled dst out {0 + w * 4 * 0..<0 + w * 4 * h} ?f"
    unfolding out_def by (rule filled_for_unit [OF row]) simp_all
  then have F: "filled dst out {0..<h * w * 4} ?f" by (simp add: algebra_simps)
  have px: "out ! ((y * w + x) * 4 + j) = wb_quad src lut ?R ?G ?B ((?row y * w + x) * 3) j"
    if "x < w" "y < h" "j < 4" for x y j
  proof -
    have "(y * w + x) * 4 + j < h * w * 4" using cell_less [OF that(1,2)] that(3) by simp
    then have "out ! ((y * w + x) * 4 + j) = ?f (4 * (y * w + x) + j)"
      using filled_nth [OF F, of "(y * w + x) * 4 + j"] dlen by (simp add: mult.commute)
    then show ?thesis using that(1) by (simp only: four_div_mod [OF that(3)] div_mod_pos)
  qed
  have "let s = (?row y * w + x) * 3; d = (y * w + x) * 4 in
       out ! d = lut ! nat (min 255 (gain_scalar ?R (src ! s))) \<and>
       out ! (d + 1) = lut ! nat (min 255 (gain_scalar ?G (src ! (s + 1)))) \<and>
       out ! (d + 2) = lut ! nat (min 255 (gain_scalar ?B (src ! (s + 2)))) \<and> out ! (d + 3) = 255"
    if "x < w" "y < h" for x y
    using px [OF that, of 0] px [OF that, of 1] px [OF that, of 2] px [OF that, of 3]
    by (simp add: wb_quad_def wb_channel_def Let_def)
  moreover have "out ! k = dst ! k" if "k < length dst" "h * w * 4 \<le> k" for k
    using filled_nth [OF F that(1)] that(2) by simp
  ultimately show ?thesis using r filled_length [OF F] by blast
qed

theorem rgbToRgbaWbGamma_correct_witness:
  "\<exists>out. rgbToRgbaWbGamma (Some [10, 20, 30, 40, 50, 60]) (Some (replicate 8 0)) 1 2 2 1 1
      (Some (map of_nat [0..<256])) True = Some out \<and> length out = 8"
proof -
  have "length (map of_nat [0..<256] :: byte list) = 256" by simp
  moreover have "(1 :: nat) = unat (1 :: u32)" "(2 :: nat) = unat (2 :: u32)" by simp_all
  ultimately show ?thesis
    using rgbToRgbaWbGamma_correct [of 1 1 2 2 "[10, 20, 30, 40, 50, 60]" "replicate 8 0"
        "map of_nat [0..<256]" 2 1 1 True] by auto
qed

end
