(* ===== verification/Pipeline.thy ===== *)
theory Pipeline
  imports V4l2_Kernel Demosaic Color_Conv "HOL-Library.Multiset"
begin

text \<open>
  \<open>camera/CameraPipeline.cpp\<close>, the object and its life cycle: opening and closing the video node and
  the sensor's I2C bus, configuring format, buffers, image processor and anti-banding, starting and
  stopping the stream, and the exposure, gain and focus controls. The log of requests is part of the
  state. The methods that look at a frame are in \<open>Auto_Control\<close> and \<open>Capture\<close>.
\<close>

datatype PipelineState = PIPELINE_CLOSED | PIPELINE_OPENED | PIPELINE_STREAMING

record PipelineConfig =
  cfg_width :: u32
  cfg_height :: u32
  cfg_pixelFormat :: u32
  cfg_bayerPattern :: byte
  cfg_offset_x :: byte
  cfg_offset_y :: byte
  cfg_flipV :: bool
  cfg_enableISP :: bool
  cfg_blackLevel :: u16
  cfg_whiteLevel :: u16
  cfg_wbGain :: "rat list"
  cfg_ccm :: "rat list"
  cfg_gamma :: rat
  cfg_enableAE :: bool
  cfg_enableAWB :: bool
  cfg_targetLuma :: rat
  cfg_digitalGain :: rat

record V4l2Buffer =
  vb_start :: "nat option"
  vb_length :: nat
  vb_allocated :: bool

record CameraPipeline =
  mFd :: int
  mSensorFd :: int
  mCameraId :: int
  mState :: PipelineState
  mStreaming :: bool
  mDemosaic :: "DemosaicNEON option"
  mColorConv :: "ColorConvNEON option"
  mConfig :: PipelineConfig
  mBuffers :: "V4l2Buffer list"
  mBufferCount :: nat
  mRgbBuffer :: "byte list option"
  mRgbBufferSize :: nat
  mCurrentExposure :: int
  mCurrentGain :: int
  mExposureStepLines :: int
  mMainHalfNs :: int
  mVtsLines :: int
  mExpMin :: int
  mExpMax :: int
  mExpUnitsPerLine :: int
  mLinePeriodNs :: int
  mFramePeriodNs :: int
  mPrevFrameTsNs :: int
  mTsDeltas :: "int list"
  mDeltaCount :: nat
  mTimingFrozen :: bool
  mAeHoldFrames :: int
  mAwbGains :: "rat list"
  mHasAwbInit :: bool
  mGammaLut :: "byte list"
  mLastGamma :: rat
  mFocusPosition :: int
  mAfState :: int
  mAfLastScanNs :: int
  p_log :: "sys list"

text \<open>The constructor leaves \<open>mCameraId\<close>, \<open>mConfig\<close>, \<open>mTsDeltas\<close> and \<open>mGammaLut\<close> unset: they are
  arguments here.\<close>

definition CameraPipeline_new :: "int \<Rightarrow> PipelineConfig \<Rightarrow> int list \<Rightarrow> byte list \<Rightarrow> CameraPipeline" where
  "CameraPipeline_new camera config deltas lut =
     \<lparr>mFd = - 1, mSensorFd = - 1, mCameraId = camera, mState = PIPELINE_CLOSED, mStreaming = False,
      mDemosaic = None, mColorConv = None, mConfig = config,
      mBuffers = replicate 4 \<lparr>vb_start = None, vb_length = 0, vb_allocated = False\<rparr>, mBufferCount = 0,
      mRgbBuffer = None, mRgbBufferSize = 0, mCurrentExposure = 800, mCurrentGain = 60,
      mExposureStepLines = 0, mMainHalfNs = 10000000, mVtsLines = 2510, mExpMin = 10, mExpMax = 2500,
      mExpUnitsPerLine = 1, mLinePeriodNs = 0, mFramePeriodNs = 0, mPrevFrameTsNs = 0,
      mTsDeltas = deltas, mDeltaCount = 0, mTimingFrozen = False, mAeHoldFrames = 0,
      mAwbGains = [1, 1, 1, 1], mHasAwbInit = False, mGammaLut = lut, mLastGamma = 0,
      mFocusPosition = 0, mAfState = 0, mAfLastScanNs = 0, p_log = []\<rparr>"

section \<open>System calls\<close>

definition issue :: "sys \<Rightarrow> CameraPipeline \<Rightarrow> CameraPipeline" where
  "issue r p = p\<lparr>p_log := r # p_log p\<rparr>"

definition syscall :: "kernel \<Rightarrow> sys \<Rightarrow> CameraPipeline \<Rightarrow> int \<times> CameraPipeline" where
  "syscall K r p = (let p = issue r p in (k_ret K (p_log p), p))"

section \<open>Open and close\<close>

definition V4L2_CAP_VIDEO_CAPTURE :: u32 where "V4L2_CAP_VIDEO_CAPTURE = 0x1"
definition V4L2_CAP_STREAMING :: u32 where "V4L2_CAP_STREAMING = 0x4000000"

definition initFocuser :: "CameraPipeline \<Rightarrow> int \<times> CameraPipeline" where
  "initFocuser p = (0, p\<lparr>mFocusPosition := - 1\<rparr>)"

definition close_video :: "CameraPipeline \<Rightarrow> CameraPipeline" where
  "close_video p = (issue (Close (mFd p)) p)\<lparr>mFd := - 1\<rparr>"

definition close_sensor :: "CameraPipeline \<Rightarrow> CameraPipeline" where
  "close_sensor p = (issue (Close (mSensorFd p)) p)\<lparr>mSensorFd := - 1\<rparr>"

definition open_sensor_bus :: "kernel \<Rightarrow> CameraPipeline \<Rightarrow> CameraPipeline" where
  "open_sensor_bus K p =
     (let (fd, p) = syscall K (Open ''/dev/i2c-2'') p; p = p\<lparr>mSensorFd := if fd < 0 then - 1 else fd\<rparr>
      in if fd < 0 then p
         else let (r, p) = syscall K (I2cSlaveForce fd 0x36) p
              in if r < 0 then close_sensor p else p)"

definition pipeline_open :: "kernel \<Rightarrow> int \<Rightarrow> CameraPipeline \<Rightarrow> int \<times> CameraPipeline" where
  "pipeline_open K cameraId p =
     (if mState p \<noteq> PIPELINE_CLOSED then (- EBUSY, p)
      else
        let p = p\<lparr>mCameraId := cameraId\<rparr>;
            (fd, p) = syscall K (Open (if cameraId = 0 then ''/dev/video0'' else ''/dev/video1'')) p;
            p = p\<lparr>mFd := if fd < 0 then - 1 else fd\<rparr>
        in if fd < 0 then (- ENODEV, p)
           else
             let (r, p) = syscall K (QueryCap fd) p; caps = k_caps K (p_log p)
             in if r < 0 then (- ENODEV, close_video p)
                else if caps AND V4L2_CAP_VIDEO_CAPTURE = 0 \<or> caps AND V4L2_CAP_STREAMING = 0
                then (- ENODEV, close_video p)
                else
                  let p = (if cameraId = 0 then snd (initFocuser p) else open_sensor_bus K p)
                  in (0, p\<lparr>mState := PIPELINE_OPENED\<rparr>))"

definition unmap_buffer :: "nat \<Rightarrow> CameraPipeline \<Rightarrow> CameraPipeline" where
  "unmap_buffer i p =
     (case vb_start (mBuffers p ! i) of
        None \<Rightarrow> p
      | Some a \<Rightarrow>
          (issue (Munmap a (vb_length (mBuffers p ! i))) p)
            \<lparr>mBuffers := (mBuffers p)[i := (mBuffers p ! i)\<lparr>vb_start := None, vb_allocated := False\<rparr>]\<rparr>)"

definition stopStreaming :: "kernel \<Rightarrow> CameraPipeline \<Rightarrow> int \<times> CameraPipeline" where
  "stopStreaming K p =
     (if \<not> mStreaming p then (0, p)
      else
        let (_, p) = syscall K (StreamOff (mFd p)) p;
            p = for_loop 1 (mBufferCount p) 0 unmap_buffer p
        in (0, p\<lparr>mBufferCount := 0, mStreaming := False, mState := PIPELINE_OPENED\<rparr>))"

definition pipeline_close :: "kernel \<Rightarrow> CameraPipeline \<Rightarrow> int \<times> CameraPipeline" where
  "pipeline_close K p =
     (let (_, p) = stopStreaming K p;
          p = for_loop 1 (mBufferCount p) 0
                (\<lambda>i p. if vb_allocated (mBuffers p ! i) then unmap_buffer i p else p) p;
          p = p\<lparr>mBufferCount := 0\<rparr>;
          p = (case mRgbBuffer p of None \<Rightarrow> p | Some _ \<Rightarrow> p\<lparr>mRgbBuffer := None, mRgbBufferSize := 0\<rparr>);
          p = (if mFd p \<ge> 0 then close_video p else p);
          p = (if mSensorFd p \<ge> 0 then close_sensor p else p)
      in (0, p\<lparr>mState := PIPELINE_CLOSED\<rparr>))"

section \<open>Controls\<close>

text \<open>The three setters return what \<open>ioctl\<close> returns: -1 on failure, whatever the error.\<close>

definition ioctl_result :: "int \<Rightarrow> int" where
  "ioctl_result r = (if r < 0 then - 1 else r)"

definition setExposure :: "kernel \<Rightarrow> int \<Rightarrow> CameraPipeline \<Rightarrow> int \<times> CameraPipeline" where
  "setExposure K exposure p =
     (let (ret, p) = syscall K (SetCtrl (mFd p) CID_EXPOSURE exposure) p
      in (ioctl_result ret, if ret = 0 then p\<lparr>mCurrentExposure := exposure\<rparr> else p))"

definition setGain :: "kernel \<Rightarrow> int \<Rightarrow> CameraPipeline \<Rightarrow> int \<times> CameraPipeline" where
  "setGain K gain p =
     (let (ret, p) = syscall K (SetCtrl (mFd p) CID_GAIN gain) p
      in (ioctl_result ret, if ret = 0 then p\<lparr>mCurrentGain := gain\<rparr> else p))"

definition getExposure :: "kernel \<Rightarrow> CameraPipeline \<Rightarrow> int \<times> CameraPipeline" where
  "getExposure K p =
     (let (ret, p) = syscall K (GetCtrl (mFd p) CID_EXPOSURE) p
      in if ret = 0 then (k_ctrl K (p_log p), p\<lparr>mCurrentExposure := k_ctrl K (p_log p)\<rparr>)
         else (mCurrentExposure p, p))"

definition getGain :: "kernel \<Rightarrow> CameraPipeline \<Rightarrow> int \<times> CameraPipeline" where
  "getGain K p =
     (let (ret, p) = syscall K (GetCtrl (mFd p) CID_GAIN) p
      in if ret = 0 then (k_ctrl K (p_log p), p\<lparr>mCurrentGain := k_ctrl K (p_log p)\<rparr>)
         else (mCurrentGain p, p))"

definition getExposureNs :: "CameraPipeline \<Rightarrow> int" where
  "getExposureNs p =
     (let lineNs = (if mLinePeriodNs p > 0 then mLinePeriodNs p else 15780);
          lines = mCurrentExposure p sdiv mExpUnitsPerLine p;
          lines = (if lines < 1 then 1 else lines)
      in lines * lineNs)"

definition setFocus :: "kernel \<Rightarrow> int \<Rightarrow> CameraPipeline \<Rightarrow> int \<times> CameraPipeline" where
  "setFocus K position p =
     (let position = (if position < 0 then 0 else position);
          position = (if position > 1023 then 1023 else position);
          (ret, p) = syscall K (SetCtrl (mFd p) CID_FOCUS_ABSOLUTE position) p
      in (ioctl_result ret, if ret = 0 then p\<lparr>mFocusPosition := position\<rparr> else p))"

section \<open>Configuration\<close>

text \<open>Exposure range of the sensor and reset of the timing measurement.\<close>

definition sensor_ranges :: "CameraPipeline \<Rightarrow> CameraPipeline" where
  "sensor_ranges p =
     (if mCameraId p = 0
      then p\<lparr>mVtsLines := 2510, mExpUnitsPerLine := 1, mExpMin := 10, mExpMax := 2500\<rparr>
      else p\<lparr>mVtsLines := 992, mExpUnitsPerLine := 16, mExpMin := 160, mExpMax := 15800\<rparr>)"

definition reset_timing :: "CameraPipeline \<Rightarrow> CameraPipeline" where
  "reset_timing p = p\<lparr>mTimingFrozen := False, mDeltaCount := 0, mPrevFrameTsNs := 0, mFramePeriodNs := 0,
     mLinePeriodNs := 0, mExposureStepLines := 0, mMainHalfNs := 0, mAeHoldFrames := 0\<rparr>"

definition antibanding :: "kernel \<Rightarrow> CameraPipeline \<Rightarrow> CameraPipeline" where
  "antibanding K p =
     (let p = issue (PropertyGet ''persist.vendor.camera.antibanding'') p;
          abProp = k_property K (p_log p)
      in if abProp = ''off'' \<or> abProp = ''0'' then p
         else p\<lparr>mMainHalfNs := 500000000 div (if abProp = ''60'' then 60 else 50)\<rparr>)"

text \<open>The buffer loop of \<open>configure\<close>: query and map buffer \<open>i\<close>, or undo the buffers before it.\<close>

definition unmap_first :: "nat \<Rightarrow> CameraPipeline \<Rightarrow> CameraPipeline" where
  "unmap_first i p =
     (for_loop 1 i 0 (\<lambda>j p. let p = unmap_buffer j p
        in p\<lparr>mBuffers := (mBuffers p)[j := (mBuffers p ! j)\<lparr>vb_start := None, vb_allocated := False\<rparr>]\<rparr>) p)
     \<lparr>mBufferCount := 0\<rparr>"

text \<open>\<open>mBuffers\<close> has four elements and the driver says how many buffers there are: \<open>None\<close> is the write to
  \<open>mBuffers[i]\<close> past its end, after which nothing is defined.\<close>

definition map_buffer :: "kernel \<Rightarrow> nat \<Rightarrow> CameraPipeline \<Rightarrow> (int \<times> CameraPipeline) option" where
  "map_buffer K i p =
     (let (r, p) = syscall K (QueryBuf (mFd p) i) p; len = k_length K (p_log p)
      in if r < 0 then Some (r, unmap_first i p)
         else if i \<ge> length (mBuffers p) then None
         else
           let p = p\<lparr>mBuffers := (mBuffers p)[i := (mBuffers p ! i)\<lparr>vb_length := len\<rparr>]\<rparr>;
               p = issue (Mmap (mFd p) i) p;
               p = p\<lparr>mBuffers := (mBuffers p)[i := (mBuffers p ! i)\<lparr>vb_start := k_mmap K (p_log p)\<rparr>]\<rparr>
           in if vb_start (mBuffers p ! i) = None then Some (- ENOMEM, unmap_first i p)
              else Some (0, p\<lparr>mBuffers := (mBuffers p)[i := (mBuffers p ! i)\<lparr>vb_allocated := True\<rparr>]\<rparr>))"

function map_buffers :: "kernel \<Rightarrow> nat \<Rightarrow> nat \<Rightarrow> CameraPipeline \<Rightarrow> (int \<times> CameraPipeline) option" where
  "map_buffers K i n p =
     (if i < n
      then case map_buffer K i p of
             None \<Rightarrow> None
           | Some (r, p) \<Rightarrow> if r < 0 then Some (r, p) else map_buffers K (i + 1) n p
      else Some (0, p))"
  by auto
termination map_buffers
  by (relation "measure (\<lambda>(K, i, n, p). n - i)") auto

declare map_buffers.simps [simp del]

definition request_buffers :: "kernel \<Rightarrow> CameraPipeline \<Rightarrow> (int \<times> CameraPipeline) option" where
  "request_buffers K p =
     (let (r, p) = syscall K (ReqBufs (mFd p) 4) p; count = k_count K (p_log p)
      in if r < 0 then Some (r, p)
         else if count < 2 then Some (- ENOMEM, p)
         else map_buffers K 0 count (p\<lparr>mBufferCount := count\<rparr>))"

text \<open>The gamma table: \<open>(uint8_t)(powf(i / 255.0f, gamma) * 255.0f + 0.5f)\<close>.\<close>

definition gamma_entry :: "(rat \<Rightarrow> rat \<Rightarrow> rat) \<Rightarrow> rat \<Rightarrow> nat \<Rightarrow> byte" where
  "gamma_entry powf gamma i =
     word_of_int (trunc (f32 (f32 (powf (f32 (of_nat i / 255)) gamma * 255) + 1 / 2)))"

definition gamma_lut :: "(rat \<Rightarrow> rat \<Rightarrow> rat) \<Rightarrow> rat \<Rightarrow> byte list" where
  "gamma_lut powf gamma = map (gamma_entry powf gamma) [0..<256]"

definition setup_isp :: "kernel \<Rightarrow> PipelineConfig \<Rightarrow> CameraPipeline \<Rightarrow> int \<times> CameraPipeline" where
  "setup_isp K config p =
     (let params = \<lparr>dp_width = ucast (cfg_width config), dp_height = ucast (cfg_height config),
            dp_bayerPattern = cfg_bayerPattern config, dp_offset_x = cfg_offset_x config,
            dp_offset_y = cfg_offset_y config, dp_blackLevel = cfg_blackLevel config,
            dp_whiteLevel = (if cfg_whiteLevel config \<noteq> 0 then cfg_whiteLevel config else 255)\<rparr>;
          (ret, d) = dm_initialize (k_realloc K) params (DemosaicNEON_new (k_new K 256));
          p = p\<lparr>mDemosaic := Some d\<rparr>
      in if ret \<noteq> 0 then (ret, p)
         else
           let (ret, c) = cc_initialize (ucast (cfg_width config)) (ucast (cfg_height config)) ColorConvNEON_new;
               p = p\<lparr>mColorConv := Some c\<rparr>
           in if ret \<noteq> 0 then (ret, p)
              else let size = unat (cfg_width config * cfg_height config * 3)
                   in (0, p\<lparr>mRgbBufferSize := size, mRgbBuffer := Some (k_new K size)\<rparr>))"

definition finish_configure :: "kernel \<Rightarrow> PipelineConfig \<Rightarrow> CameraPipeline \<Rightarrow> CameraPipeline" where
  "finish_configure K config p =
     (let p = p\<lparr>mHasAwbInit := False\<rparr>
      in if mLastGamma p \<noteq> cfg_gamma config
         then p\<lparr>mGammaLut := gamma_lut (k_powf K) (cfg_gamma config), mLastGamma := cfg_gamma config\<rparr>
         else p)"

definition configure :: "kernel \<Rightarrow> PipelineConfig \<Rightarrow> CameraPipeline \<Rightarrow> (int \<times> CameraPipeline) option" where
  "configure K config p =
     (if mState p = PIPELINE_STREAMING then Some (- EBUSY, p)
      else
        let p = antibanding K (reset_timing (sensor_ranges (p\<lparr>mConfig := config\<rparr>)))
        in if mFd p < 0 then Some (- ENODEV, p)
           else
             let (r, p) = syscall K
                   (SetFmt (mFd p) (unat (cfg_width config)) (unat (cfg_height config)) (cfg_pixelFormat config)) p
             in if r < 0 then Some (r, p)
                else
                  case request_buffers K p of
                    None \<Rightarrow> None
                  | Some (r, p) \<Rightarrow>
                      if r < 0 then Some (r, p)
                      else
                        let (r, p) = (if cfg_enableISP config then setup_isp K config p else (0, p))
                        in if r \<noteq> 0 then Some (r, p) else Some (0, finish_configure K config p))"

section \<open>Streaming\<close>

function queue_buffers :: "kernel \<Rightarrow> nat \<Rightarrow> CameraPipeline \<Rightarrow> int \<times> CameraPipeline" where
  "queue_buffers K i p =
     (if i < mBufferCount p
      then case syscall K (QBuf (mFd p) i) p of
             (r, p) \<Rightarrow> if r < 0 then (r, p) else queue_buffers K (i + 1) p
      else (0, p))"
  by auto
termination queue_buffers
  by (relation "measure (\<lambda>(K, i, p). mBufferCount p - i)") (auto simp: syscall_def issue_def Let_def)

declare queue_buffers.simps [simp del]

text \<open>The OV5693 register table: 16-bit address and value, in write order.\<close>

definition ov5693_regs_1280x720 :: "(u16 \<times> byte) list" where
  "ov5693_regs_1280x720 = [
     (0x0100, 0x00), (0x0103, 0x01), (0x3001, 0x0a), (0x3002, 0x80), (0x3006, 0x00), (0x3011, 0x21),
     (0x3012, 0x09), (0x3013, 0x10), (0x3014, 0x00), (0x3015, 0x08), (0x3016, 0xf0), (0x3017, 0xf0),
     (0x3018, 0xf0), (0x301b, 0xb4), (0x301d, 0x02), (0x3021, 0x00), (0x3022, 0x01), (0x3028, 0x44),
     (0x3098, 0x03), (0x3099, 0x1e), (0x309a, 0x02), (0x309b, 0x01), (0x309c, 0x00), (0x30a0, 0xd2),
     (0x30a2, 0x01), (0x30b2, 0x00), (0x30b3, 0x68), (0x30b4, 0x03), (0x30b5, 0x04), (0x30b6, 0x01),
     (0x3104, 0x21), (0x3106, 0x00), (0x3406, 0x01), (0x3500, 0x00), (0x3501, 0x2e), (0x3502, 0x80),
     (0x3503, 0x07), (0x3504, 0x00), (0x3505, 0x00), (0x3506, 0x00), (0x3507, 0x02), (0x3508, 0x00),
     (0x3509, 0x10), (0x350a, 0x00), (0x350b, 0x40), (0x3601, 0x0a), (0x3602, 0x38), (0x3612, 0x80),
     (0x3620, 0x54), (0x3621, 0xc7), (0x3622, 0x0f), (0x3625, 0x10), (0x3630, 0x55), (0x3631, 0xf4),
     (0x3632, 0x00), (0x3633, 0x34), (0x3634, 0x02), (0x364d, 0x0d), (0x364f, 0xdd), (0x3660, 0x04),
     (0x3662, 0x10), (0x3663, 0xf1), (0x3665, 0x00), (0x3666, 0x20), (0x3667, 0x00), (0x366a, 0x80),
     (0x3680, 0xe0), (0x3681, 0x00), (0x3700, 0x42), (0x3701, 0x14), (0x3702, 0xa0), (0x3703, 0xd8),
     (0x3704, 0x78), (0x3705, 0x02), (0x3708, 0xe6), (0x3709, 0xc7), (0x370a, 0x00), (0x370b, 0x20),
     (0x370c, 0x0c), (0x370d, 0x11), (0x370e, 0x00), (0x370f, 0x40), (0x3710, 0x00), (0x371a, 0x1c),
     (0x371b, 0x05), (0x371c, 0x01), (0x371e, 0xa1), (0x371f, 0x0c), (0x3721, 0x00), (0x3724, 0x10),
     (0x3726, 0x00), (0x372a, 0x01), (0x3730, 0x10), (0x3738, 0x22), (0x3739, 0xe5), (0x373a, 0x50),
     (0x373b, 0x02), (0x373c, 0x41), (0x373f, 0x02), (0x3740, 0x42), (0x3741, 0x02), (0x3742, 0x18),
     (0x3743, 0x01), (0x3744, 0x02), (0x3747, 0x10), (0x374c, 0x04), (0x3751, 0xf0), (0x3752, 0x00),
     (0x3753, 0x00), (0x3754, 0xc0), (0x3755, 0x00), (0x3756, 0x1a), (0x3758, 0x00), (0x3759, 0x0f),
     (0x376b, 0x44), (0x375c, 0x04), (0x3774, 0x10), (0x3776, 0x00), (0x377f, 0x08), (0x3780, 0x22),
     (0x3781, 0x0c), (0x3784, 0x2c), (0x3785, 0x1e), (0x378f, 0xf5), (0x3791, 0xb0), (0x3795, 0x00),
     (0x3796, 0x64), (0x3797, 0x11), (0x3798, 0x30), (0x3799, 0x41), (0x379a, 0x07), (0x379b, 0xb0),
     (0x379c, 0x0c), (0x37c5, 0x00), (0x37c6, 0x00), (0x37c7, 0x00), (0x37c9, 0x00), (0x37ca, 0x00),
     (0x37cb, 0x00), (0x37de, 0x00), (0x37df, 0x00), (0x3800, 0x00), (0x3801, 0x00), (0x3802, 0x00),
     (0x3803, 0xf4), (0x3804, 0x0a), (0x3805, 0x3f), (0x3806, 0x06), (0x3807, 0xab), (0x3808, 0x05),
     (0x3809, 0x00), (0x380a, 0x02), (0x380b, 0xd0), (0x380c, 0x06), (0x380d, 0xd8), (0x380e, 0x02),
     (0x380f, 0xf8), (0x3810, 0x00), (0x3811, 0x02), (0x3812, 0x00), (0x3813, 0x02), (0x3814, 0x31),
     (0x3815, 0x31), (0x3820, 0x04), (0x3821, 0x1f), (0x3823, 0x00), (0x3824, 0x00), (0x3825, 0x00),
     (0x3826, 0x00), (0x3827, 0x00), (0x382a, 0x04), (0x3a04, 0x06), (0x3a05, 0x14), (0x3a06, 0x00),
     (0x3a07, 0xfe), (0x3b00, 0x00), (0x3b02, 0x00), (0x3b03, 0x00), (0x3b04, 0x00), (0x3b05, 0x00),
     (0x3e07, 0x20), (0x4000, 0x08), (0x4001, 0x04), (0x4002, 0x45), (0x4004, 0x08), (0x4005, 0x18),
     (0x4006, 0x20), (0x4008, 0x24), (0x4009, 0x10), (0x400c, 0x00), (0x400d, 0x00), (0x4058, 0x00),
     (0x404e, 0x37), (0x404f, 0x8f), (0x4058, 0x00), (0x4101, 0xb2), (0x4303, 0x00), (0x4304, 0x08),
     (0x4307, 0x30), (0x4311, 0x04), (0x4315, 0x01), (0x4511, 0x05), (0x4512, 0x00), (0x4800, 0x20),
     (0x4806, 0x00), (0x4816, 0x52), (0x481f, 0x30), (0x4826, 0x2c), (0x4831, 0x64), (0x4d00, 0x04),
     (0x4d01, 0x71), (0x4d02, 0xfd), (0x4d03, 0xf5), (0x4d04, 0x0c), (0x4d05, 0xcc), (0x4837, 0x0a),
     (0x5000, 0x06), (0x5001, 0x01), (0x5002, 0x00), (0x5003, 0x20), (0x5046, 0x0a), (0x5013, 0x00),
     (0x5046, 0x0a), (0x5780, 0x1c), (0x5786, 0x20), (0x5787, 0x10), (0x5788, 0x18), (0x578a, 0x04),
     (0x578b, 0x02), (0x578c, 0x02), (0x578e, 0x06), (0x578f, 0x02), (0x5790, 0x02), (0x5791, 0xff),
     (0x5842, 0x01), (0x5843, 0x2b), (0x5844, 0x01), (0x5845, 0x92), (0x5846, 0x01), (0x5847, 0x8f),
     (0x5848, 0x01), (0x5849, 0x0c), (0x5e00, 0x00), (0x5e10, 0x0c), (0x3011, 0x11), (0x3015, 0x28),
     (0x380c, 0x0a), (0x380d, 0x80), (0x380e, 0x03), (0x380f, 0xe0), (0x0100, 0x01)]"

text \<open>Each register is one three-byte I2C write; a failed write is logged and the loop goes on.\<close>

definition i2c_bytes :: "u16 \<times> byte \<Rightarrow> byte list" where
  "i2c_bytes rv = (case rv of (reg, val) \<Rightarrow> [ucast (drop_bit 8 reg AND 0xff), ucast (reg AND 0xff), val])"

definition ov5693_init_via_i2c :: "int \<Rightarrow> CameraPipeline \<Rightarrow> CameraPipeline" where
  "ov5693_init_via_i2c i2c_fd p =
     (if i2c_fd < 0 then p
      else fold (\<lambda>rv. issue (I2cWrite i2c_fd (i2c_bytes rv))) ov5693_regs_1280x720 p)"

definition startStreaming :: "kernel \<Rightarrow> CameraPipeline \<Rightarrow> int \<times> CameraPipeline" where
  "startStreaming K p =
     (if mState p \<noteq> PIPELINE_OPENED then (- EINVAL, p)
      else
        let (r, p) = queue_buffers K 0 p
        in if r < 0 then (r, p)
           else
             let (r, p) = syscall K (StreamOn (mFd p)) p
             in if r < 0 then (r, p)
                else
                  let p = (if mCameraId p = 0
                           then let p = p\<lparr>mCurrentExposure := 800, mCurrentGain := 60\<rparr>;
                                    (_, p) = setExposure K (mCurrentExposure p) p;
                                    (_, p) = setGain K (mCurrentGain p) p
                                in p
                           else let p = issue (Usleep 300000) p;
                                    p = ov5693_init_via_i2c (mSensorFd p) p
                                in p\<lparr>mCurrentExposure := 11904, mCurrentGain := 64\<rparr>)
                  in (0, p\<lparr>mStreaming := True, mState := PIPELINE_STREAMING\<rparr>))"

end
