(* ===== verification/Pipeline_Resources.thy ===== *)
theory Pipeline_Resources
  imports Pipeline
begin

text \<open>
  The resource invariant of the camera pipeline: what the log of system calls leaves open is exactly
  what the object's fields still name. It is preserved by every life-cycle method, so closing the
  pipeline releases every descriptor and every buffer mapping.
\<close>

section \<open>What the object names\<close>

definition fd_mset :: "int \<Rightarrow> int multiset" where
  "fd_mset fd = (if fd < 0 then {#} else {#fd#})"

definition addr_mset :: "V4l2Buffer list \<Rightarrow> nat multiset" where
  "addr_mset bs = image_mset (the \<circ> vb_start) (filter_mset (\<lambda>b. vb_start b \<noteq> None) (mset bs))"

definition owns_resources :: "kernel \<Rightarrow> CameraPipeline \<Rightarrow> bool" where
  "owns_resources K p \<longleftrightarrow>
     mset (open_fds K (p_log p)) = fd_mset (mFd p) + fd_mset (mSensorFd p) \<and>
     mset (mappings K (p_log p)) = addr_mset (mBuffers p) \<and> length (mBuffers p) = 4"

definition no_buffers_from :: "nat \<Rightarrow> CameraPipeline \<Rightarrow> bool" where
  "no_buffers_from n p \<longleftrightarrow> (\<forall>i<4. n \<le> i \<longrightarrow> vb_start (mBuffers p ! i) = None)"

definition flags_ok :: "CameraPipeline \<Rightarrow> bool" where
  "flags_ok p \<longleftrightarrow> (\<forall>i<4. vb_allocated (mBuffers p ! i) \<longleftrightarrow> vb_start (mBuffers p ! i) \<noteq> None)"

definition pipeline_inv :: "kernel \<Rightarrow> CameraPipeline \<Rightarrow> bool" where
  "pipeline_inv K p \<longleftrightarrow>
     owns_resources K p \<and> mBufferCount p \<le> 4 \<and> no_buffers_from (mBufferCount p) p \<and> flags_ok p \<and>
     (mStreaming p \<longleftrightarrow> mState p = PIPELINE_STREAMING) \<and>
     (mState p = PIPELINE_CLOSED \<longleftrightarrow> mFd p < 0) \<and>
     (mState p = PIPELINE_CLOSED \<longrightarrow> mSensorFd p < 0 \<and> mBufferCount p = 0)"

lemma addr_mset_update_none:
  assumes "i < length bs" "vb_start b = None"
  shows "addr_mset (bs[i := b]) =
    (case vb_start (bs ! i) of None \<Rightarrow> addr_mset bs | Some a \<Rightarrow> addr_mset bs - {#a#})"
proof -
  have "bs ! i \<in># mset bs" using assms by simp
  then obtain M where M: "mset bs = add_mset (bs ! i) M" by (meson mset_add)
  then show ?thesis using assms by (simp add: addr_mset_def mset_update split: option.split)
qed

lemma addr_mset_update_some:
  assumes "i < length bs" "vb_start (bs ! i) = None" "vb_start b = Some a"
  shows "addr_mset (bs[i := b]) = add_mset a (addr_mset bs)"
proof -
  have "bs ! i \<in># mset bs" using assms by simp
  then obtain M where M: "mset bs = add_mset (bs ! i) M" by (meson mset_add)
  then show ?thesis using assms by (simp add: addr_mset_def mset_update)
qed

lemma addr_mset_same:
  assumes "i < length bs" "vb_start b = vb_start (bs ! i)"
  shows "addr_mset (bs[i := b]) = addr_mset bs"
proof -
  have "bs ! i \<in># mset bs" using assms by simp
  then obtain M where M: "mset bs = add_mset (bs ! i) M" by (meson mset_add)
  then show ?thesis using assms by (simp add: addr_mset_def mset_update)
qed

lemma addr_mset_none: "(\<forall>b\<in>set bs. vb_start b = None) \<Longrightarrow> addr_mset bs = {#}"
  by (auto simp: addr_mset_def filter_mset_eq_conv)

section \<open>Calls that touch no resource\<close>

text \<open>The log grows by requests that neither open nor close, and the fields naming resources stay.\<close>

definition quiet :: "CameraPipeline \<Rightarrow> CameraPipeline \<Rightarrow> bool" where
  "quiet p p' \<longleftrightarrow> mFd p' = mFd p \<and> mSensorFd p' = mSensorFd p \<and> mBuffers p' = mBuffers p \<and>
     mBufferCount p' = mBufferCount p \<and> mState p' = mState p \<and> mStreaming p' = mStreaming p \<and>
     mCameraId p' = mCameraId p \<and>
     (\<exists>rs. p_log p' = rs @ p_log p \<and> (\<forall>r\<in>set rs. neutral r))"

lemma quiet_refl [simp, intro]: "quiet p p"
  by (auto simp: quiet_def)

lemma quiet_trans [trans]: "quiet p q \<Longrightarrow> quiet q r \<Longrightarrow> quiet p r"
  unfolding quiet_def by (metis (no_types, lifting) Un_iff append.assoc set_append)

lemma quiet_issue: "neutral r \<Longrightarrow> quiet p (issue r p)"
  by (auto simp: quiet_def issue_def intro!: exI [of _ "[r]"])

lemma quiet_syscall: "neutral r \<Longrightarrow> syscall K r p = (v, p') \<Longrightarrow> quiet p p'"
  using quiet_issue by (auto simp: syscall_def Let_def)

lemma quiet_same:
  "p_log p' = p_log p \<Longrightarrow> mFd p' = mFd p \<Longrightarrow> mSensorFd p' = mSensorFd p \<Longrightarrow> mBuffers p' = mBuffers p \<Longrightarrow>
   mBufferCount p' = mBufferCount p \<Longrightarrow> mState p' = mState p \<Longrightarrow> mStreaming p' = mStreaming p \<Longrightarrow>
   mCameraId p' = mCameraId p \<Longrightarrow> quiet p p'"
  by (auto simp: quiet_def)

lemma neutral_append:
  "\<forall>r\<in>set rs. neutral r \<Longrightarrow> open_fds K (rs @ l) = open_fds K l \<and> mappings K (rs @ l) = mappings K l"
  by (induction rs) auto

lemma quiet_owns: "quiet p p' \<Longrightarrow> owns_resources K p' = owns_resources K p"
  by (auto simp: quiet_def owns_resources_def neutral_append)

lemma quiet_inv: "quiet p p' \<Longrightarrow> pipeline_inv K p' = pipeline_inv K p"
  using quiet_owns [of p p' K]
  by (auto simp: quiet_def pipeline_inv_def no_buffers_from_def flags_ok_def)

lemma quiet_setExposure: "quiet p (snd (setExposure K e p))"
  by (auto simp: setExposure_def syscall_def issue_def Let_def quiet_def intro!: exI [of _ "[SetCtrl (mFd p) CID_EXPOSURE e]"])

lemma quiet_setGain: "quiet p (snd (setGain K g p))"
  by (auto simp: setGain_def syscall_def issue_def Let_def quiet_def intro!: exI [of _ "[SetCtrl (mFd p) CID_GAIN g]"])

lemma quiet_setFocus: "quiet p (snd (setFocus K f p))"
  by (auto simp: setFocus_def syscall_def issue_def Let_def quiet_def)

lemma quiet_getExposure: "quiet p (snd (getExposure K p))"
  by (auto simp: getExposure_def syscall_def issue_def Let_def quiet_def)

lemma quiet_getGain: "quiet p (snd (getGain K p))"
  by (auto simp: getGain_def syscall_def issue_def Let_def quiet_def)

section \<open>Unmapping buffers\<close>

lemma unmap_buffer_owns:
  assumes "owns_resources K p" "i < 4"
  shows "owns_resources K (unmap_buffer i p)"
proof (cases "vb_start (mBuffers p ! i)")
  case None
  then show ?thesis using assms by (simp add: unmap_buffer_def)
next
  case (Some a)
  then show ?thesis using assms
    by (simp add: unmap_buffer_def issue_def owns_resources_def addr_mset_update_none)
qed

lemma unmap_buffer_frame:
  "mFd (unmap_buffer i p) = mFd p" "mSensorFd (unmap_buffer i p) = mSensorFd p"
  "mState (unmap_buffer i p) = mState p" "mStreaming (unmap_buffer i p) = mStreaming p"
  "mBufferCount (unmap_buffer i p) = mBufferCount p" "mCameraId (unmap_buffer i p) = mCameraId p"
  "mRgbBuffer (unmap_buffer i p) = mRgbBuffer p"
  by (auto simp: unmap_buffer_def issue_def split: option.split)

lemma unmap_buffer_start:
  "i < 4 \<Longrightarrow> j < 4 \<Longrightarrow> length (mBuffers p) = 4 \<Longrightarrow>
     vb_start (mBuffers (unmap_buffer i p) ! j) = (if j = i then None else vb_start (mBuffers p ! j))"
  by (auto simp: unmap_buffer_def issue_def nth_list_update split: option.split)

lemma unmap_buffer_flags: "i < 4 \<Longrightarrow> length (mBuffers p) = 4 \<Longrightarrow> flags_ok p \<Longrightarrow> flags_ok (unmap_buffer i p)"
  by (auto simp: flags_ok_def unmap_buffer_def issue_def nth_list_update split: option.split)

text \<open>A loop whose body unmaps buffer \<open>i\<close> and keeps the rest.\<close>

lemma unmap_loop:
  assumes "n \<le> 4" "owns_resources K p" "flags_ok p"
    and step: "\<And>i q. i < n \<Longrightarrow> flags_ok q \<Longrightarrow> length (mBuffers q) = 4 \<Longrightarrow> body i q = unmap_buffer i q"
  shows "owns_resources K (for_loop 1 n 0 body p) \<and> flags_ok (for_loop 1 n 0 body p) \<and>
    (\<forall>j<4. vb_start (mBuffers (for_loop 1 n 0 body p) ! j) = (if j < n then None else vb_start (mBuffers p ! j))) \<and>
    mFd (for_loop 1 n 0 body p) = mFd p \<and> mSensorFd (for_loop 1 n 0 body p) = mSensorFd p \<and>
    mState (for_loop 1 n 0 body p) = mState p \<and> mStreaming (for_loop 1 n 0 body p) = mStreaming p \<and>
    mBufferCount (for_loop 1 n 0 body p) = mBufferCount p \<and> mCameraId (for_loop 1 n 0 body p) = mCameraId p"
  unfolding for_loop_1 using assms
proof (induction n)
  case (Suc n)
  let ?q = "fold body [0..<n] p"
  have len: "length (mBuffers ?q) = 4" using Suc by (simp add: owns_resources_def)
  have "body n ?q = unmap_buffer n ?q" using Suc len by simp
  then have "fold body [0..<Suc n] p = unmap_buffer n ?q" by simp
  then show ?case
    using Suc len
    by (simp add: unmap_buffer_owns unmap_buffer_flags unmap_buffer_frame unmap_buffer_start less_Suc_eq)
qed simp

lemma unmap_guarded:
  "i < n \<Longrightarrow> n \<le> 4 \<Longrightarrow> flags_ok q \<Longrightarrow> length (mBuffers q) = 4 \<Longrightarrow>
     (if vb_allocated (mBuffers q ! i) then unmap_buffer i q else q) = unmap_buffer i q"
  by (cases "vb_start (mBuffers q ! i)") (auto simp: flags_ok_def unmap_buffer_def)

section \<open>The life-cycle methods keep the invariant\<close>

lemma new_inv: "pipeline_inv K (CameraPipeline_new camera config deltas lut)"
  by (auto simp: pipeline_inv_def CameraPipeline_new_def owns_resources_def fd_mset_def no_buffers_from_def
      flags_ok_def addr_mset_none)

lemma close_video_owns:
  assumes "owns_resources K p" "0 \<le> mFd p"
  shows "owns_resources K (close_video p)"
  using assms by (simp add: close_video_def issue_def owns_resources_def fd_mset_def)

lemma close_sensor_owns:
  assumes "owns_resources K p" "0 \<le> mSensorFd p"
  shows "owns_resources K (close_sensor p)"
  using assms by (simp add: close_sensor_def issue_def owns_resources_def fd_mset_def)

lemma syscall_open_owns:
  assumes "syscall K (Open path) p = (fd, q)" "owns_resources K p"
  shows "mset (open_fds K (p_log q)) = fd_mset fd + (fd_mset (mFd p) + fd_mset (mSensorFd p)) \<and>
    mset (mappings K (p_log q)) = addr_mset (mBuffers p) \<and> q = p\<lparr>p_log := Open path # p_log p\<rparr>"
  using assms by (auto simp: syscall_def issue_def Let_def owns_resources_def fd_mset_def)

lemma open_sensor_bus_owns:
  assumes "owns_resources K p" "mSensorFd p < 0"
  shows "owns_resources K (open_sensor_bus K p) \<and> mFd (open_sensor_bus K p) = mFd p \<and>
    mBuffers (open_sensor_bus K p) = mBuffers p \<and> mBufferCount (open_sensor_bus K p) = mBufferCount p \<and>
    mStreaming (open_sensor_bus K p) = mStreaming p"
proof -
  obtain fd q where q: "syscall K (Open ''/dev/i2c-2'') p = (fd, q)" by fastforce
  note r = syscall_open_owns [OF q assms(1)]
  define q1 where "q1 = q\<lparr>mSensorFd := if fd < 0 then - 1 else fd\<rparr>"
  have o1: "owns_resources K q1"
    using r assms by (auto simp: q1_def owns_resources_def fd_mset_def)
  show ?thesis
  proof (cases "fd < 0")
    case True
    then have "open_sensor_bus K p = q1" by (simp add: open_sensor_bus_def q q1_def)
    then show ?thesis using o1 r by (simp add: q1_def)
  next
    case False
    obtain v q2 where q2: "syscall K (I2cSlaveForce fd 0x36) q1 = (v, q2)" by fastforce
    have qt: "quiet q1 q2" by (rule quiet_syscall [OF _ q2]) simp
    then have o2: "owns_resources K q2" using o1 quiet_owns by blast
    have f: "mFd q2 = mFd p" "mBuffers q2 = mBuffers p" "mBufferCount q2 = mBufferCount p"
        "mStreaming q2 = mStreaming p" "mSensorFd q2 = fd"
      using qt r False by (auto simp: quiet_def q1_def)
    have e: "open_sensor_bus K p = (if v < 0 then close_sensor q2 else q2)"
      using False q2 by (simp add: open_sensor_bus_def q q1_def)
    show ?thesis unfolding e using o2 f False close_sensor_owns [OF o2]
      by (simp add: close_sensor_def issue_def)
  qed
qed

lemma pipeline_open_inv:
  assumes inv: "pipeline_inv K p" and r: "pipeline_open K cam p = (ret, p')"
  shows "pipeline_inv K p'"
proof (cases "mState p = PIPELINE_CLOSED")
  case False
  then show ?thesis using inv r by (simp add: pipeline_open_def)
next
  case True
  define path where "path = (if cam = 0 then ''/dev/video0'' else ''/dev/video1'')"
  define p0 where "p0 = p\<lparr>mCameraId := cam\<rparr>"
  have o0: "owns_resources K p0" and c: "mFd p < 0" "mSensorFd p < 0" "mBufferCount p = 0" "\<not> mStreaming p"
      "flags_ok p" "no_buffers_from 0 p"
    using inv True by (auto simp: pipeline_inv_def p0_def owns_resources_def)
  obtain fd q where q: "syscall K (Open path) p0 = (fd, q)" by fastforce
  note o = syscall_open_owns [OF q o0]
  define q1 where "q1 = q\<lparr>mFd := if fd < 0 then - 1 else fd\<rparr>"
  have o1: "owns_resources K q1"
    using o c o0 by (auto simp: q1_def owns_resources_def fd_mset_def p0_def)
  have f1: "mBuffers q1 = mBuffers p" "mBufferCount q1 = 0" "\<not> mStreaming q1" "mState q1 = PIPELINE_CLOSED"
      "mSensorFd q1 = mSensorFd p"
    using o c True by (simp_all add: q1_def p0_def)
  obtain v q2 where q2: "syscall K (QueryCap fd) q1 = (v, q2)" by fastforce
  have qt: "quiet q1 q2" by (rule quiet_syscall [OF _ q2]) simp
  have o2: "owns_resources K q2" using o1 quiet_owns [OF qt] by blast
  have f2: "mBuffers q2 = mBuffers p" "mBufferCount q2 = 0" "\<not> mStreaming q2" "mState q2 = PIPELINE_CLOSED"
      "mSensorFd q2 = mSensorFd p" "mFd q2 = mFd q1"
    using qt f1 by (simp_all add: quiet_def)
  have bufs: "flags_ok x" "no_buffers_from 0 x" if "mBuffers x = mBuffers p" for x
    using c that by (simp_all add: flags_ok_def no_buffers_from_def)
  show ?thesis
  proof (cases "fd < 0")
    case True
    then have "p' = q1" using r \<open>mState p = PIPELINE_CLOSED\<close> by (simp add: pipeline_open_def path_def [symmetric] p0_def [symmetric] q q1_def)
    then show ?thesis using o1 f1 c True bufs [of q1] by (simp add: pipeline_inv_def q1_def)
  next
    case False
    define p3 where "p3 = (if cam = 0 then snd (initFocuser q2) else open_sensor_bus K q2)"
    have "p' = close_video q2 \<or> p' = p3\<lparr>mState := PIPELINE_OPENED\<rparr>"
      using r False \<open>mState p = PIPELINE_CLOSED\<close> q2
      by (auto simp: pipeline_open_def path_def [symmetric] p0_def [symmetric] q q1_def p3_def Let_def split: if_splits)
    moreover have "pipeline_inv K (close_video q2)"
      using close_video_owns [OF o2] f2 False c bufs [of "close_video q2"]
      by (simp add: pipeline_inv_def close_video_def issue_def q1_def)
    moreover have "pipeline_inv K (p3\<lparr>mState := PIPELINE_OPENED\<rparr>)"
    proof -
      have "owns_resources K p3 \<and> mFd p3 = mFd q2 \<and> mBuffers p3 = mBuffers q2 \<and> mBufferCount p3 = mBufferCount q2 \<and>
          mStreaming p3 = mStreaming q2"
        using open_sensor_bus_owns [OF o2] o2 f2 c
        by (auto simp: p3_def initFocuser_def owns_resources_def)
      then show ?thesis using f2 False c bufs [of "p3\<lparr>mState := PIPELINE_OPENED\<rparr>"]
        by (auto simp: pipeline_inv_def owns_resources_def q1_def)
    qed
    ultimately show ?thesis by blast
  qed
qed

lemma stopStreaming_inv:
  assumes inv: "pipeline_inv K p" and r: "stopStreaming K p = (ret, p')"
  shows "pipeline_inv K p' \<and> ret = 0 \<and> mState p' \<noteq> PIPELINE_STREAMING \<and> (mStreaming p \<longrightarrow> mBufferCount p' = 0)"
proof (cases "mStreaming p")
  case False
  then show ?thesis using inv r by (auto simp: stopStreaming_def pipeline_inv_def)
next
  case True
  obtain v q where q: "syscall K (StreamOff (mFd p)) p = (v, q)" by fastforce
  have qt: "quiet p q" by (rule quiet_syscall [OF _ q]) simp
  have o: "owns_resources K q" "flags_ok q" "mBufferCount q \<le> 4" "no_buffers_from (mBufferCount q) q" "mFd q \<ge> 0"
    using inv True quiet_owns [OF qt, of K] qt
    by (auto simp: pipeline_inv_def quiet_def flags_ok_def no_buffers_from_def)
  define u where "u = for_loop 1 (mBufferCount q) 0 unmap_buffer q"
  have "owns_resources K u \<and> flags_ok u \<and>
      (\<forall>j<4. vb_start (mBuffers u ! j) = (if j < mBufferCount q then None else vb_start (mBuffers q ! j))) \<and>
      mFd u = mFd q \<and> mSensorFd u = mSensorFd q \<and> mState u = mState q \<and> mStreaming u = mStreaming q \<and>
      mBufferCount u = mBufferCount q \<and> mCameraId u = mCameraId q"
    unfolding u_def by (rule unmap_loop [OF o(3,1,2)]) simp
  moreover have "ret = 0" "p' = u\<lparr>mBufferCount := 0, mStreaming := False, mState := PIPELINE_OPENED\<rparr>"
    using r True q by (auto simp: stopStreaming_def u_def)
  ultimately show ?thesis using o
    by (auto simp: pipeline_inv_def owns_resources_def flags_ok_def no_buffers_from_def)
qed

lemma pipeline_close_inv:
  assumes inv: "pipeline_inv K p" and r: "pipeline_close K p = (ret, p')"
  shows "pipeline_inv K p' \<and> mState p' = PIPELINE_CLOSED \<and> mRgbBuffer p' = None"
proof -
  obtain v q where q: "stopStreaming K p = (v, q)" by fastforce
  have inv': "pipeline_inv K q" "mState q \<noteq> PIPELINE_STREAMING" using stopStreaming_inv [OF inv q] by auto
  let ?b = "\<lambda>i p. if vb_allocated (mBuffers p ! i) then unmap_buffer i p else p"
  define u where "u = for_loop 1 (mBufferCount q) 0 ?b q"
  have o: "owns_resources K q" "flags_ok q" "mBufferCount q \<le> 4" using inv' by (auto simp: pipeline_inv_def)
  have u: "owns_resources K u \<and> flags_ok u \<and>
      (\<forall>j<4. vb_start (mBuffers u ! j) = (if j < mBufferCount q then None else vb_start (mBuffers q ! j))) \<and>
      mFd u = mFd q \<and> mSensorFd u = mSensorFd q \<and> mState u = mState q \<and> mStreaming u = mStreaming q \<and>
      mBufferCount u = mBufferCount q \<and> mCameraId u = mCameraId q"
    unfolding u_def by (rule unmap_loop [OF o(3,1,2)]) (rule unmap_guarded [OF _ o(3)])
  define u1 where "u1 = (case mRgbBuffer (u\<lparr>mBufferCount := 0\<rparr>) of None \<Rightarrow> u\<lparr>mBufferCount := 0\<rparr>
      | Some _ \<Rightarrow> (u\<lparr>mBufferCount := 0\<rparr>)\<lparr>mRgbBuffer := None, mRgbBufferSize := 0\<rparr>)"
  have u1: "owns_resources K u1" "flags_ok u1" "no_buffers_from 0 u1" "mBufferCount u1 = 0" "mRgbBuffer u1 = None"
      "mStreaming u1 \<longleftrightarrow> False" "mSensorFd u1 = mSensorFd q" "mFd u1 = mFd q"
    using u inv' by (auto simp: u1_def owns_resources_def flags_ok_def no_buffers_from_def pipeline_inv_def split: option.split)
  define u2 where "u2 = (if mFd u1 \<ge> 0 then close_video u1 else u1)"
  have u2: "owns_resources K u2" "flags_ok u2" "no_buffers_from 0 u2" "mBufferCount u2 = 0" "mRgbBuffer u2 = None"
      "\<not> mStreaming u2" "mFd u2 < 0"
    using u1 close_video_owns [OF u1(1)]
    by (auto simp: u2_def close_video_def issue_def flags_ok_def no_buffers_from_def)
  define u3 where "u3 = (if mSensorFd u2 \<ge> 0 then close_sensor u2 else u2)"
  have u3: "owns_resources K u3" "flags_ok u3" "no_buffers_from 0 u3" "mBufferCount u3 = 0" "mRgbBuffer u3 = None"
      "\<not> mStreaming u3" "mFd u3 < 0" "mSensorFd u3 < 0"
    using u2 close_sensor_owns [OF u2(1)]
    by (auto simp: u3_def close_sensor_def issue_def flags_ok_def no_buffers_from_def)
  have "pipeline_close K p = (0, u3\<lparr>mState := PIPELINE_CLOSED\<rparr>)"
    by (simp only: pipeline_close_def Let_def q prod.case u_def u1_def u2_def u3_def)
  then have "p' = u3\<lparr>mState := PIPELINE_CLOSED\<rparr>" using r by simp
  then show ?thesis using u3 by (auto simp: pipeline_inv_def owns_resources_def flags_ok_def no_buffers_from_def)
qed

section \<open>Configuring and starting\<close>

lemma unmap_twice:
  assumes "i < n" "n \<le> 4" "flags_ok q" "length (mBuffers q) = 4"
  shows "(let p = unmap_buffer i q
      in p\<lparr>mBuffers := (mBuffers p)[i := (mBuffers p ! i)\<lparr>vb_start := None, vb_allocated := False\<rparr>]\<rparr>) = unmap_buffer i q"
proof (cases "vb_start (mBuffers q ! i)")
  case None
  then have "\<not> vb_allocated (mBuffers q ! i)" using assms by (simp add: flags_ok_def)
  then have "(mBuffers q ! i)\<lparr>vb_start := None, vb_allocated := False\<rparr> = mBuffers q ! i" using None by simp
  then show ?thesis using None by (simp add: unmap_buffer_def Let_def)
next
  case (Some a)
  then show ?thesis using assms by (simp add: unmap_buffer_def issue_def Let_def)
qed

text \<open>State of the buffer loop of \<open>configure\<close> before buffer \<open>i\<close> of \<open>n\<close>.\<close>

definition loading :: "kernel \<Rightarrow> nat \<Rightarrow> CameraPipeline \<Rightarrow> CameraPipeline \<Rightarrow> bool" where
  "loading K i p0 p \<longleftrightarrow> owns_resources K p \<and> flags_ok p \<and> no_buffers_from i p \<and>
     mFd p = mFd p0 \<and> mSensorFd p = mSensorFd p0 \<and> mState p = mState p0 \<and> mStreaming p = mStreaming p0"

lemma unmap_first_loading:
  assumes "loading K j p0 p" "j \<le> i" "i \<le> 4"
  shows "loading K 0 p0 (unmap_first i p) \<and> mBufferCount (unmap_first i p) = 0"
proof -
  let ?b = "\<lambda>j p. let p = unmap_buffer j p
    in p\<lparr>mBuffers := (mBuffers p)[j := (mBuffers p ! j)\<lparr>vb_start := None, vb_allocated := False\<rparr>]\<rparr>"
  have "owns_resources K (for_loop 1 i 0 ?b p) \<and> flags_ok (for_loop 1 i 0 ?b p) \<and>
    (\<forall>j<4. vb_start (mBuffers (for_loop 1 i 0 ?b p) ! j) = (if j < i then None else vb_start (mBuffers p ! j))) \<and>
    mFd (for_loop 1 i 0 ?b p) = mFd p \<and> mSensorFd (for_loop 1 i 0 ?b p) = mSensorFd p \<and>
    mState (for_loop 1 i 0 ?b p) = mState p \<and> mStreaming (for_loop 1 i 0 ?b p) = mStreaming p \<and>
    mBufferCount (for_loop 1 i 0 ?b p) = mBufferCount p \<and> mCameraId (for_loop 1 i 0 ?b p) = mCameraId p"
    using assms by (intro unmap_loop unmap_twice [OF _ assms(3)]) (auto simp: loading_def)
  then show ?thesis using assms
    by (auto simp: unmap_first_def loading_def owns_resources_def flags_ok_def no_buffers_from_def)
qed

lemma loading_quiet: "loading K i p0 p \<Longrightarrow> quiet p q \<Longrightarrow> loading K i p0 q"
  using quiet_owns [of p q K] by (auto simp: loading_def quiet_def flags_ok_def no_buffers_from_def)

lemma map_buffer_loading:
  assumes l: "loading K i p0 p" and i: "i \<le> 4" and r: "map_buffer K i p = Some (ret, p')"
  shows "if ret < 0 then loading K 0 p0 p' \<and> mBufferCount p' = 0
    else ret = 0 \<and> i < 4 \<and> loading K (Suc i) p0 p' \<and> mBufferCount p' = mBufferCount p"
proof -
  obtain v q where q: "syscall K (QueryBuf (mFd p) i) p = (v, q)" by fastforce
  have qt: "quiet p q" by (rule quiet_syscall [OF _ q]) simp
  have lq: "loading K i p0 q" "mBufferCount q = mBufferCount p" using loading_quiet [OF l qt] qt by (auto simp: quiet_def)
  define len where "len = k_length K (p_log q)"
  define q1 where "q1 = q\<lparr>mBuffers := (mBuffers q)[i := (mBuffers q ! i)\<lparr>vb_length := len\<rparr>]\<rparr>"
  define q2 where "q2 = issue (Mmap (mFd q1) i) q1"
  define start where "start = k_mmap K (p_log q2)"
  define q3 where "q3 = q2\<lparr>mBuffers := (mBuffers q2)[i := (mBuffers q2 ! i)\<lparr>vb_start := start\<rparr>]\<rparr>"
  define q4 where "q4 = q3\<lparr>mBuffers := (mBuffers q3)[i := (mBuffers q3 ! i)\<lparr>vb_allocated := True\<rparr>]\<rparr>"
  have four: "length (mBuffers q) = 4" using lq by (simp add: loading_def owns_resources_def)
  have e: "map_buffer K i p = (if v < 0 then Some (v, unmap_first i q) else if length (mBuffers q) \<le> i then None
      else if vb_start (mBuffers q3 ! i) = None then Some (- ENOMEM, unmap_first i q3) else Some (0, q4))"
    by (simp only: map_buffer_def Let_def q prod.case len_def q1_def q2_def start_def q3_def q4_def)
  show ?thesis
  proof (cases "v < 0")
    case True
    then show ?thesis using r e unmap_first_loading [OF lq(1)] i by (auto split: if_splits)
  next
    case False
    then have i4: "i < 4" using r e four i by (auto split: if_splits)
    have l1: "loading K i p0 q1"
      using lq i4 by (auto simp: loading_def q1_def owns_resources_def flags_ok_def no_buffers_from_def addr_mset_same nth_list_update)
    have none: "vb_start (mBuffers q1 ! i) = None" "\<not> vb_allocated (mBuffers q1 ! i)" and len4: "length (mBuffers q1) = 4"
      using l1 i4 by (auto simp: loading_def no_buffers_from_def flags_ok_def owns_resources_def)
    have o3: "owns_resources K q3"
    proof (cases start)
      case None
      then show ?thesis using l1 none i4 start_def
        by (simp add: q3_def q2_def issue_def loading_def owns_resources_def addr_mset_same)
    next
      case (Some a)
      then show ?thesis using l1 none i4 start_def
        by (simp add: q3_def q2_def issue_def loading_def owns_resources_def addr_mset_update_some)
    qed
    have st: "vb_start (mBuffers q3 ! i) = start" using len4 i4 by (simp add: q3_def q2_def issue_def)
    show ?thesis
    proof (cases start)
      case None
      then have "loading K i p0 q3"
        using l1 o3 none i4 len4
        by (auto simp: loading_def q3_def q2_def issue_def flags_ok_def no_buffers_from_def nth_list_update)
      then show ?thesis using r e st False None four i4 unmap_first_loading [of K i p0 q3 i] by auto
    next
      case (Some a)
      then have "ret = 0" "p' = q4" using r e st False four i4 by auto
      moreover have "owns_resources K q4" using o3 i4 by (simp add: q4_def owns_resources_def addr_mset_same)
      then have "loading K (Suc i) p0 q4"
        using l1 none i4 len4 Some
        by (auto simp: loading_def q4_def q3_def q2_def issue_def flags_ok_def no_buffers_from_def nth_list_update)
      moreover have "mBufferCount q4 = mBufferCount p" using lq by (simp add: q4_def q3_def q2_def q1_def issue_def)
      ultimately show ?thesis using i4 by simp
    qed
  qed
qed

text \<open>The whole loop: it stays within the array unless the driver granted more than four buffers.\<close>

lemma map_buffers_loading:
  assumes "loading K i p0 p" "i \<le> n" "i \<le> 4" "mBufferCount p = n"
  shows "case map_buffers K i n p of
      None \<Rightarrow> 4 < n
    | Some (ret, p') \<Rightarrow> if ret < 0 then loading K 0 p0 p' \<and> mBufferCount p' = 0
        else ret = 0 \<and> n \<le> 4 \<and> loading K n p0 p' \<and> mBufferCount p' = n"
  using assms
proof (induction K i n p rule: map_buffers.induct)
  case (1 K i n p)
  show ?case
  proof (cases "i < n")
    case False
    then have "i = n" using 1 by simp
    then show ?thesis using 1 by (auto simp: map_buffers.simps)
  next
    case True
    show ?thesis
    proof (cases "map_buffer K i p")
      case None
      have "length (mBuffers (snd (syscall K (QueryBuf (mFd p) i) p))) = 4"
        using 1 by (simp add: syscall_def issue_def Let_def loading_def owns_resources_def)
      then have "4 \<le> i" using None by (auto simp: map_buffer_def Let_def split: prod.splits if_splits)
      then show ?thesis using None True by (subst map_buffers.simps) simp
    next
      case (Some vq)
      then obtain v q where q: "map_buffer K i p = Some (v, q)" by (cases vq) auto
      note m = map_buffer_loading [OF "1.prems"(1,3) q]
      have e: "map_buffers K i n p = (if v < 0 then Some (v, q) else map_buffers K (i + 1) n q)"
        using True by (subst map_buffers.simps) (simp add: q)
      show ?thesis
      proof (cases "v < 0")
        case True
        then show ?thesis using m e by simp
      next
        case False
        then show ?thesis using m e "1.IH" [OF \<open>i < n\<close> q refl False] 1 True by simp
      qed
    qed
  qed
qed

lemma quiet_reset: "quiet (p\<lparr>mCameraId := mCameraId p\<rparr>) (antibanding K (reset_timing (sensor_ranges (p\<lparr>mConfig := config\<rparr>))))"
  by (auto simp: quiet_def antibanding_def reset_timing_def sensor_ranges_def issue_def Let_def)

lemma setup_isp_frame:
  assumes "setup_isp K config p = (r, q)"
  shows "quiet p q \<and> (r = 0 \<longrightarrow> mDemosaic q \<noteq> None \<and> mColorConv q \<noteq> None \<and> mRgbBuffer q \<noteq> None)"
  using assms by (auto simp: setup_isp_def Let_def quiet_def split: prod.splits if_splits)

lemma quiet_finish: "quiet p (finish_configure K config p)"
  by (auto simp: finish_configure_def Let_def quiet_def)

text \<open>The newest request of the log asked for buffers and the driver granted more than it asked for.\<close>

definition over_granted :: "kernel \<Rightarrow> sys list \<Rightarrow> bool" where
  "over_granted K l \<longleftrightarrow> (case l of ReqBufs fd n # _ \<Rightarrow> 0 \<le> k_ret K l \<and> n < k_count K l | _ \<Rightarrow> False)"

lemma request_buffers_inv:
  assumes inv: "pipeline_inv K p" and none: "mBufferCount p = 0" and up: "mState p \<noteq> PIPELINE_CLOSED"
  shows "case request_buffers K p of
      None \<Rightarrow> over_granted K (ReqBufs (mFd p) 4 # p_log p)
    | Some (ret, p') \<Rightarrow> pipeline_inv K p'"
proof -
  define q where "q = issue (ReqBufs (mFd p) 4) p"
  define n where "n = k_count K (p_log q)"
  have r: "request_buffers K p = (if k_ret K (p_log q) < 0 then Some (k_ret K (p_log q), q)
      else if n < 2 then Some (- ENOMEM, q) else map_buffers K 0 n (q\<lparr>mBufferCount := n\<rparr>))"
    by (simp add: request_buffers_def syscall_def Let_def q_def n_def)
  have "quiet p q" unfolding q_def by (rule quiet_issue) simp
  then have i: "pipeline_inv K q" "mBufferCount q = 0" "mState q \<noteq> PIPELINE_CLOSED"
    using inv none up quiet_inv [of p q K] by (simp_all add: quiet_def)
  have "loading K 0 q (q\<lparr>mBufferCount := n\<rparr>)"
    using i by (simp add: loading_def pipeline_inv_def owns_resources_def flags_ok_def no_buffers_from_def)
  from map_buffers_loading [OF this] have
    l: "case map_buffers K 0 n (q\<lparr>mBufferCount := n\<rparr>) of None \<Rightarrow> 4 < n
      | Some (ret, p') \<Rightarrow> if ret < 0 then loading K 0 q p' \<and> mBufferCount p' = 0
          else ret = 0 \<and> n \<le> 4 \<and> loading K n q p' \<and> mBufferCount p' = n" by simp
  have log: "p_log q = ReqBufs (mFd p) 4 # p_log p" by (simp add: q_def issue_def)
  show ?thesis using r l i log
    by (auto simp: over_granted_def n_def pipeline_inv_def loading_def split: option.splits if_splits)
qed

lemma configure_inv:
  assumes inv: "pipeline_inv K p" and none: "mBufferCount p = 0"
  shows "case configure K config p of None \<Rightarrow> \<exists>rs. over_granted K (ReqBufs (mFd p) 4 # rs @ p_log p) | Some (ret, p') \<Rightarrow> pipeline_inv K p'"
proof (cases "mState p = PIPELINE_STREAMING")
  case True
  then show ?thesis using inv by (simp add: configure_def)
next
  case False
  define p1 where "p1 = antibanding K (reset_timing (sensor_ranges (p\<lparr>mConfig := config\<rparr>)))"
  have q1: "quiet p p1" using quiet_reset [of p K config] by (simp add: p1_def)
  have i1: "pipeline_inv K p1" using inv quiet_inv [OF q1] by simp
  show ?thesis
  proof (cases "mFd p1 < 0")
    case True
    then show ?thesis using i1 False unfolding configure_def p1_def [symmetric] by (simp add: Let_def)
  next
    case fd: False
    obtain v p2 where p2: "syscall K (SetFmt (mFd p1) (unat (cfg_width config)) (unat (cfg_height config)) (cfg_pixelFormat config)) p1 = (v, p2)"
      by fastforce
    have q2: "quiet p1 p2" by (rule quiet_syscall [OF _ p2]) simp
    then have i2: "pipeline_inv K p2" using i1 quiet_inv by blast
    have "mBufferCount p2 = 0" "mState p2 \<noteq> PIPELINE_CLOSED"
      using q1 q2 none fd i1 by (auto simp: quiet_def pipeline_inv_def)
    note rb = request_buffers_inv [OF i2 this]
    have e: "configure K config p = (if v < 0 then Some (v, p2) else
        case request_buffers K p2 of None \<Rightarrow> None
        | Some (r, p) \<Rightarrow> if r < 0 then Some (r, p) else
            let (r, p) = (if cfg_enableISP config then setup_isp K config p else (0, p))
            in if r \<noteq> 0 then Some (r, p) else Some (0, finish_configure K config p))"
      using False fd unfolding configure_def p1_def [symmetric] by (simp add: Let_def p2)
    show ?thesis
    proof (cases "request_buffers K p2")
      case None
      have "quiet p p2" by (rule quiet_trans [OF q1 q2])
      then obtain rs where "p_log p2 = rs @ p_log p" "mFd p2 = mFd p" by (auto simp: quiet_def)
      then show ?thesis using None rb i2 unfolding e by auto
    next
      case (Some rp)
      obtain r4 p4 where 4: "request_buffers K p2 = Some (r4, p4)" using Some by (cases rp) auto
      then have i4: "pipeline_inv K p4" using rb by simp
      obtain v5 p5 where p5: "(if cfg_enableISP config then setup_isp K config p4 else (0, p4)) = (v5, p5)" by fastforce
      have "quiet p4 p5" using p5 setup_isp_frame [of K config p4 v5 p5] by (auto split: if_splits)
      then have i5: "pipeline_inv K p5" using i4 quiet_inv by blast
      then have "pipeline_inv K (finish_configure K config p5)" using quiet_inv [OF quiet_finish] by blast
      then show ?thesis using i2 i4 i5 unfolding e 4 by (simp add: p5 Let_def)
    qed
  qed
qed

lemma queue_buffers_quiet: "queue_buffers K i p = (r, q) \<Longrightarrow> quiet p q"
proof (induction K i p rule: queue_buffers.induct)
  case (1 K i p)
  show ?case
  proof (cases "i < mBufferCount p")
    case False
    then show ?thesis using 1 by (simp add: queue_buffers.simps)
  next
    case True
    obtain v p1 where p1: "syscall K (QBuf (mFd p) i) p = (v, p1)" by fastforce
    have q1: "quiet p p1" by (rule quiet_syscall [OF _ p1]) simp
    have e: "queue_buffers K i p = (if v < 0 then (v, p1) else queue_buffers K (i + 1) p1)"
      using True by (subst queue_buffers.simps) (simp add: p1)
    show ?thesis
    proof (cases "v < 0")
      case True
      then show ?thesis using e q1 1 by simp
    next
      case False
      then show ?thesis using e q1 quiet_trans 1(1) [OF \<open>i < mBufferCount p\<close> p1 [symmetric] False] 1(2) by auto
    qed
  qed
qed

lemma fold_issue_quiet: "\<forall>r\<in>set rs. neutral (f r) \<Longrightarrow> quiet p (fold (\<lambda>r. issue (f r)) rs p)"
proof (induction rs arbitrary: p)
  case (Cons r rs)
  have "quiet p (issue (f r) p)" using Cons.prems by (intro quiet_issue) simp
  then show ?case using Cons quiet_trans by fastforce
qed simp

lemma quiet_ov5693: "quiet p (ov5693_init_via_i2c fd p)"
  by (simp add: ov5693_init_via_i2c_def fold_issue_quiet)

lemma startStreaming_inv:
  assumes inv: "pipeline_inv K p" and r: "startStreaming K p = (ret, p')"
  shows "pipeline_inv K p' \<and> (ret = 0 \<longrightarrow> mState p' = PIPELINE_STREAMING)"
proof (cases "mState p = PIPELINE_OPENED")
  case False
  then show ?thesis using inv r by (auto simp: startStreaming_def)
next
  case True
  obtain v p1 where p1: "queue_buffers K 0 p = (v, p1)" by fastforce
  obtain v2 p2 where p2: "syscall K (StreamOn (mFd p1)) p1 = (v2, p2)" by fastforce
  have q1: "quiet p p1" by (rule queue_buffers_quiet [OF p1])
  have "quiet p1 p2" by (rule quiet_syscall [OF _ p2]) simp
  then have q2: "quiet p p2" using q1 quiet_trans by blast
  define p3 where "p3 = (if mCameraId p2 = 0
       then let p = p2\<lparr>mCurrentExposure := 800, mCurrentGain := 60\<rparr>;
                (_, p) = setExposure K (mCurrentExposure p) p; (_, p) = setGain K (mCurrentGain p) p in p
       else let p = issue (Usleep 300000) p2; p = ov5693_init_via_i2c (mSensorFd p) p
            in p\<lparr>mCurrentExposure := 11904, mCurrentGain := 64\<rparr>)"
  have "quiet p2 p3"
  proof (cases "mCameraId p2 = 0")
    case True
    define a where "a = p2\<lparr>mCurrentExposure := 800, mCurrentGain := 60\<rparr>"
    have "p3 = snd (setGain K (mCurrentGain (snd (setExposure K (mCurrentExposure a) a))) (snd (setExposure K (mCurrentExposure a) a)))"
      using True by (simp add: p3_def a_def Let_def split: prod.split)
    moreover have "quiet p2 a" by (rule quiet_same) (simp_all add: a_def)
    ultimately show ?thesis using quiet_setExposure quiet_setGain quiet_trans by metis
  next
    case False
    define a where "a = ov5693_init_via_i2c (mSensorFd (issue (Usleep 300000) p2)) (issue (Usleep 300000) p2)"
    have "quiet p2 (issue (Usleep 300000) p2)" by (rule quiet_issue) simp
    then have "quiet p2 a" using quiet_ov5693 quiet_trans unfolding a_def by blast
    moreover have "quiet a p3" using False by (intro quiet_same) (simp_all add: p3_def a_def Let_def)
    ultimately show ?thesis using quiet_trans by blast
  qed
  then have q3: "quiet p p3" using q2 quiet_trans by blast
  have "startStreaming K p = (if v < 0 then (v, p1) else if v2 < 0 then (v2, p2)
      else (0, p3\<lparr>mStreaming := True, mState := PIPELINE_STREAMING\<rparr>))"
    using True by (simp add: startStreaming_def p1 p2 p3_def Let_def)
  moreover have "pipeline_inv K (p3\<lparr>mStreaming := True, mState := PIPELINE_STREAMING\<rparr>)"
    using q3 inv quiet_inv [OF q3, of K] True
    by (auto simp: pipeline_inv_def owns_resources_def flags_ok_def no_buffers_from_def quiet_def)
  ultimately show ?thesis using r inv quiet_inv [OF q1, of K] quiet_inv [OF q2, of K] by (auto split: if_splits)
qed

lemma closed_owns_nothing:
  assumes "pipeline_inv K p" "mState p = PIPELINE_CLOSED"
  shows "open_fds K (p_log p) = [] \<and> mappings K (p_log p) = []"
proof -
  have "\<forall>b\<in>set (mBuffers p). vb_start b = None"
    using assms by (auto simp: pipeline_inv_def no_buffers_from_def owns_resources_def in_set_conv_nth)
  then have "addr_mset (mBuffers p) = {#}" by (rule addr_mset_none)
  then show ?thesis using assms by (auto simp: pipeline_inv_def owns_resources_def fd_mset_def)
qed

end
