(* ===== verification/Auto_Control.thy ===== *)
theory Auto_Control
  imports Pipeline_Resources
begin

text \<open>
  \<open>camera/CameraPipeline.cpp\<close>, the methods that look at a frame: auto exposure with its anti-banding
  grid, auto white balance, the frame timing measurement, colour correction and gamma, the vertical
  flip and the autofocus metrics. Floating point values are rounded after every operation (\<open>f32\<close>).
\<close>

section \<open>Auto exposure\<close>

definition ae_luma :: "byte list \<Rightarrow> nat \<Rightarrow> int" where
  "ae_luma rgb off =
     drop_bit 8 (uint (rgb ! off) * 77 + uint (rgb ! (off + 1)) * 150 + uint (rgb ! (off + 2)) * 29)"

definition ae_stats :: "byte list \<Rightarrow> nat \<Rightarrow> nat \<Rightarrow> int \<times> int" where
  "ae_stats rgb w h =
     for_loop 8 h 0 (\<lambda>y. for_loop 8 w 0 (\<lambda>x (lumaSum, samples).
       (lumaSum + ae_luma rgb ((y * w + x) * 3), samples + 1))) (0, 0)"

definition ae_average :: "int \<Rightarrow> int \<Rightarrow> rat" where
  "ae_average lumaSum samples = f32 (f32 (f32 (of_int lumaSum) / f32 (of_int samples)) / 255)"

text \<open>The damped correction factor.\<close>

definition ae_ratio :: "rat \<Rightarrow> rat \<Rightarrow> rat" where
  "ae_ratio target avgLuma =
     (let low = f32 (1 / 1000);
          ratio = f32 (target / (if avgLuma > low then avgLuma else low));
          ratio = (if ratio < f32 (6 / 10) then f32 (6 / 10) else ratio)
      in if ratio > f32 (17 / 10) then f32 (17 / 10) else ratio)"

definition gain_min :: "CameraPipeline \<Rightarrow> int" where
  "gain_min p = (if mCameraId p = 0 then 1 else 16)"

definition clamp_gain :: "CameraPipeline \<Rightarrow> int \<Rightarrow> int" where
  "clamp_gain p g = (let g = (if g < gain_min p then gain_min p else g) in if g > 240 then 240 else g)"

definition ae_effective :: "CameraPipeline \<Rightarrow> rat \<Rightarrow> int" where
  "ae_effective p ratio =
     trunc (f32 (f32 (f32 (of_int (mCurrentExposure p)) * f32 (of_int (mCurrentGain p))) * ratio))"

text \<open>C's \<open>(int)(a / b + 0.5f)\<close> with an integer division.\<close>

definition half_up :: "int \<Rightarrow> int \<Rightarrow> int" where
  "half_up a b = trunc (f32 (f32 (of_int (a sdiv b)) + 1 / 2))"

definition ae_split :: "CameraPipeline \<Rightarrow> int \<Rightarrow> int \<times> int" where
  "ae_split p newEff =
     (let newExp = half_up newEff (mCurrentGain p);
          (newExp, newGain) =
            (if newExp > mExpMax p then (mExpMax p, half_up newEff (mExpMax p))
             else if newExp < mExpMin p then (mExpMin p, half_up newEff (mExpMin p))
             else (newExp, mCurrentGain p))
      in (newExp, clamp_gain p newGain))"

text \<open>Nearest multiple of the anti-banding step, and the gain that makes up for the difference.\<close>

definition snap_exposure :: "int \<Rightarrow> int \<Rightarrow> int \<Rightarrow> int" where
  "snap_exposure s expMax newExp =
     (let q = ((newExp + s sdiv 2) sdiv s) * s;
          qMax = (expMax sdiv s) * s;
          q = (if q > qMax then qMax else q)
      in if q < s then s else q)"

definition snap_gain :: "CameraPipeline \<Rightarrow> int \<Rightarrow> int \<Rightarrow> int" where
  "snap_gain p newEff newExp =
     (let g = (newEff + newExp sdiv 2) sdiv newExp;
          gCapUp = mCurrentGain p + mCurrentGain p * 7 sdiv 10;
          gCapDn = mCurrentGain p * 10 sdiv 17;
          g = (if g > gCapUp then gCapUp else g);
          g = (if g < gCapDn \<and> g < mCurrentGain p then gCapDn else g)
      in clamp_gain p g)"

definition ae_quantize :: "CameraPipeline \<Rightarrow> int \<Rightarrow> int \<times> int \<Rightarrow> int \<times> int" where
  "ae_quantize p newEff eg =
     (case eg of (newExp, newGain) \<Rightarrow>
        if mMainHalfNs p > 0 \<and> mExposureStepLines p > 1 then
          let q = snap_exposure (mExposureStepLines p) (mExpMax p) newExp
          in if q \<noteq> newExp then (q, snap_gain p newEff q) else (newExp, newGain)
        else (newExp, newGain))"

definition ae_apply :: "kernel \<Rightarrow> int \<times> int \<Rightarrow> CameraPipeline \<Rightarrow> CameraPipeline" where
  "ae_apply K eg p =
     (case eg of (newExp, newGain) \<Rightarrow>
        if newExp \<noteq> mCurrentExposure p \<or> newGain \<noteq> mCurrentGain p then
          let p' = (if newGain \<noteq> mCurrentGain p then snd (setGain K newGain p) else p);
              p' = (if newExp \<noteq> mCurrentExposure p' then snd (setExposure K newExp p') else p')
          in p'\<lparr>mAeHoldFrames := 6\<rparr>
        else p)"

text \<open>Metering: the correction that is due, if one is, and the hold counter.\<close>

definition ae_meter :: "byte list option \<Rightarrow> CameraPipeline \<Rightarrow> rat option \<times> CameraPipeline" where
  "ae_meter rgbBuffer p =
     (case rgbBuffer of
        None \<Rightarrow> (None, p)
      | Some rgb \<Rightarrow>
          if \<not> cfg_enableAE (mConfig p) then (None, p)
          else
            let (lumaSum, samples) = ae_stats rgb (unat (cfg_width (mConfig p))) (unat (cfg_height (mConfig p)))
            in if samples = 0 then (None, p)
               else
                 let avgLuma = ae_average lumaSum samples;
                     target = cfg_targetLuma (mConfig p)
                 in if avgLuma > f32 (target * f32 (85 / 100)) \<and> avgLuma < f32 (target * f32 (115 / 100))
                    then (None, p\<lparr>mAeHoldFrames := 0\<rparr>)
                    else
                      let hold = mAeHoldFrames p > 0;
                          p = (if hold then p\<lparr>mAeHoldFrames := mAeHoldFrames p - 1\<rparr> else p)
                      in if hold \<and> avgLuma > f32 (target * f32 (25 / 100)) \<and> avgLuma < f32 (target * 4) then (None, p)
                         else (Some (ae_ratio target avgLuma), p))"

text \<open>A correction divides by the gain last recorded. With a gain of 0 that is a division by zero, whose outcome is
  not defined: then the result of \<open>doAutoExposure\<close> means nothing, and \<open>ae_divides_by_zero\<close> tells.\<close>

definition ae_divides_by_zero :: "byte list option \<Rightarrow> CameraPipeline \<Rightarrow> bool" where
  "ae_divides_by_zero rgbBuffer p \<longleftrightarrow> fst (ae_meter rgbBuffer p) \<noteq> None \<and> mCurrentGain p = 0"

definition doAutoExposure :: "kernel \<Rightarrow> byte list option \<Rightarrow> CameraPipeline \<Rightarrow> CameraPipeline" where
  "doAutoExposure K rgbBuffer p =
     (case ae_meter rgbBuffer p of
        (None, p) \<Rightarrow> p
      | (Some ratio, p) \<Rightarrow>
          let newEff = ae_effective p ratio in ae_apply K (ae_quantize p newEff (ae_split p newEff)) p)"

section \<open>Auto white balance\<close>

definition awb_stats :: "byte list \<Rightarrow> nat \<Rightarrow> nat \<Rightarrow> int \<times> int \<times> int \<times> int" where
  "awb_stats rgb w h =
     for_loop 16 h 0 (\<lambda>y. for_loop 16 w 0 (\<lambda>x (sumR, sumG, sumB, n).
       let off = (y * w + x) * 3;
           r = uint (rgb ! off); g = uint (rgb ! (off + 1)); b = uint (rgb ! (off + 2));
           lum = r + g + b
       in if lum < 60 \<or> lum > 690 then (sumR, sumG, sumB, n)
          else (sumR + r, sumG + g, sumB + b, n + 1))) (0, 0, 0, 0)"

definition awb_clamp :: "rat \<Rightarrow> rat" where
  "awb_clamp g = (if g < 1 / 2 then 1 / 2 else if g > 4 then 4 else g)"

definition awb_alpha :: rat where
  "awb_alpha = f32 (15 / 100)"

definition awb_smooth :: "rat \<Rightarrow> rat \<Rightarrow> rat" where
  "awb_smooth old new = f32 (f32 (old * f32 (1 - awb_alpha)) + f32 (new * awb_alpha))"

definition doAutoWhiteBalance :: "byte list option \<Rightarrow> CameraPipeline \<Rightarrow> CameraPipeline" where
  "doAutoWhiteBalance rgbBuffer p =
     (case rgbBuffer of
        None \<Rightarrow> p
      | Some rgb \<Rightarrow>
          if \<not> cfg_enableAWB (mConfig p) then p
          else
            let (sumR, sumG, sumB, n) =
                  awb_stats rgb (unat (cfg_width (mConfig p))) (unat (cfg_height (mConfig p)))
            in if n < 100 then p
               else
                 let avgR = f32 (f32 (of_int sumR) / f32 (of_int n));
                     avgG = f32 (f32 (of_int sumG) / f32 (of_int n));
                     avgB = f32 (f32 (of_int sumB) / f32 (of_int n))
                 in if avgR < 5 \<or> avgG < 5 \<or> avgB < 5 then p
                    else
                      let rGain = awb_clamp (f32 (avgG / avgR));
                          bGain = awb_clamp (f32 (avgG / avgB));
                          gains = mAwbGains p
                      in if \<not> mHasAwbInit p
                         then p\<lparr>mAwbGains := [rGain, 1, bGain, 1], mHasAwbInit := True\<rparr>
                         else p\<lparr>mAwbGains := [awb_smooth (gains ! 0) rGain, 1, awb_smooth (gains ! 2) bGain, 1]\<rparr>)"

section \<open>Frame timing\<close>

text \<open>One round of the insertion sort: the new last element sinks by swaps.\<close>

fun sink :: "int list \<Rightarrow> nat \<Rightarrow> int list" where
  "sink xs 0 = xs"
| "sink xs (Suc j) =
     (if xs ! j > xs ! Suc j then sink (xs[Suc j := xs ! j, j := xs ! Suc j]) j else xs)"

definition sort_deltas :: "int list \<Rightarrow> int list" where
  "sort_deltas ds = fold (\<lambda>d sorted. sink (sorted @ [d]) (length sorted)) ds []"

definition freeze_period :: "CameraPipeline \<Rightarrow> CameraPipeline" where
  "freeze_period p =
     (let sorted = sort_deltas (take (mDeltaCount p) (mTsDeltas p));
          p = p\<lparr>mFramePeriodNs := sorted ! (mDeltaCount p div 2), mTimingFrozen := True\<rparr>
      in p\<lparr>mLinePeriodNs := mFramePeriodNs p sdiv mVtsLines p\<rparr>)"

definition mains_step :: "CameraPipeline \<Rightarrow> int" where
  "mains_step p =
     (let lines = (mMainHalfNs p + mLinePeriodNs p sdiv 2) sdiv mLinePeriodNs p;
          lines = (if lines < 1 then 1 else lines)
      in lines * mExpUnitsPerLine p)"

definition nearest_step :: "CameraPipeline \<Rightarrow> int \<Rightarrow> int" where
  "nearest_step p s =
     (let q = ((mCurrentExposure p + s sdiv 2) sdiv s) * s;
          q = (if q > mExpMax p then (mExpMax p sdiv s) * s else q)
      in if q < s then s else q)"

definition snap_current :: "kernel \<Rightarrow> CameraPipeline \<Rightarrow> CameraPipeline" where
  "snap_current K p =
     (if mMainHalfNs p > 0 \<and> mLinePeriodNs p > 0 then
        let s = mains_step p; q = nearest_step p s; p = p\<lparr>mExposureStepLines := s\<rparr>
        in if q \<noteq> mCurrentExposure p then snd (setExposure K q p) else p
      else p)"

definition freeze_timing :: "kernel \<Rightarrow> CameraPipeline \<Rightarrow> CameraPipeline" where
  "freeze_timing K p = snap_current K (freeze_period p)"

definition frame_timestamp :: "dqbuf_answer \<Rightarrow> int" where
  "frame_timestamp b = dq_tv_sec b * 1000000000 + dq_tv_usec b * 1000"

definition record_timestamp :: "kernel \<Rightarrow> dqbuf_answer \<Rightarrow> CameraPipeline \<Rightarrow> CameraPipeline" where
  "record_timestamp K b p =
     (if mTimingFrozen p then p\<lparr>mPrevFrameTsNs := frame_timestamp b\<rparr>
      else
        let delta = frame_timestamp b - mPrevFrameTsNs p;
            p = p\<lparr>mPrevFrameTsNs := frame_timestamp b\<rparr>
        in if delta > 5000000 \<and> delta < 200000000 then
             let p = (if mDeltaCount p < 16
                      then p\<lparr>mTsDeltas := (mTsDeltas p)[mDeltaCount p := delta], mDeltaCount := mDeltaCount p + 1\<rparr>
                      else p)
             in if mDeltaCount p \<ge> 12 then freeze_timing K p else p
           else p)"

section \<open>Colour correction, gamma and flip\<close>

definition to_byte :: "rat \<Rightarrow> byte" where
  "to_byte v = word_of_int (if v > 255 then 255 else if v < 0 then 0 else trunc v)"

definition ccm_identity :: "rat list \<Rightarrow> bool" where
  "ccm_identity m \<longleftrightarrow> m ! 0 = 1 \<and> m ! 4 = 1 \<and> m ! 8 = 1 \<and> m ! 1 = 0 \<and> m ! 2 = 0 \<and> m ! 3 = 0 \<and>
     m ! 5 = 0 \<and> m ! 6 = 0 \<and> m ! 7 = 0"

definition ccm_row :: "rat list \<Rightarrow> nat \<Rightarrow> rat \<Rightarrow> rat \<Rightarrow> rat \<Rightarrow> rat" where
  "ccm_row m k r g b = f32 (f32 (f32 (m ! k * r) + f32 (m ! (k + 1) * g)) + f32 (m ! (k + 2) * b))"

definition wb_ccm_pixel :: "rat list \<Rightarrow> rat \<Rightarrow> rat \<Rightarrow> rat \<Rightarrow> byte \<times> byte \<times> byte \<Rightarrow> byte \<times> byte \<times> byte" where
  "wb_ccm_pixel m rG gG bG px =
     (case px of (pr, pg, pb) \<Rightarrow>
        let r = f32 (of_int (uint pr) * rG); g = f32 (of_int (uint pg) * gG); b = f32 (of_int (uint pb) * bG)
        in if ccm_identity m then (to_byte r, to_byte g, to_byte b)
           else (to_byte (ccm_row m 0 r g b), to_byte (ccm_row m 3 r g b), to_byte (ccm_row m 6 r g b)))"

definition applyWbAndCcm :: "rat list \<Rightarrow> nat \<Rightarrow> rat \<Rightarrow> rat \<Rightarrow> rat \<Rightarrow> byte list \<Rightarrow> byte list" where
  "applyWbAndCcm m n rG gG bG rgb =
     for_loop 1 n 0 (\<lambda>i rgb. store_rgb rgb (i * 3) (wb_ccm_pixel m rG gG bG (read_rgb rgb (i * 3)))) rgb"

definition applyGamma :: "(rat \<Rightarrow> rat \<Rightarrow> rat) \<Rightarrow> nat \<Rightarrow> nat \<Rightarrow> rat \<Rightarrow> byte list \<Rightarrow> byte list" where
  "applyGamma powf width height gamma rgb =
     (let lut = gamma_lut powf gamma
      in for_loop 1 (width * height * 3) 0 (\<lambda>i rgb. rgb[i := lut ! unat (rgb ! i)]) rgb)"

definition flipVertical :: "nat \<Rightarrow> nat \<Rightarrow> nat \<Rightarrow> byte list \<Rightarrow> byte list" where
  "flipVertical width height bpp buf =
     (let rowSize = width * bpp
      in for_loop 1 (height div 2) 0 (\<lambda>y buf.
           let topOff = y * rowSize; botOff = (height - 1 - y) * rowSize;
               tmp = take rowSize (drop topOff buf);
               buf = write_at buf topOff (take rowSize (drop botOff buf))
           in write_at buf botOff tmp) buf)"

section \<open>Autofocus metrics\<close>

definition grad :: "byte list \<Rightarrow> nat \<Rightarrow> nat \<Rightarrow> int" where
  "grad rgb a b = \<bar>uint (rgb ! a) - uint (rgb ! b)\<bar>"

definition sobelEnergy :: "byte list option \<Rightarrow> nat \<Rightarrow> nat \<Rightarrow> int" where
  "sobelEnergy rgb w h =
     (case rgb of
        None \<Rightarrow> 0
      | Some rgb \<Rightarrow>
          if w < 3 \<or> h < 3 then 0
          else for_loop 1 (h - 1) 1 (\<lambda>y.
                 let row = y * (w * 3)
                 in for_loop 1 (w - 1) 1 (\<lambda>x energy.
                      energy + grad rgb (row + (x + 1) * 3 + 1) (row + (x - 1) * 3 + 1))) 0)"

text \<open>The loop \<open>while (x + 8 < w - 1)\<close> of the 8-wide variant is \<open>x + 9 <= w - 1\<close> with a step of 8.\<close>

function sobel_chunks :: "byte list \<Rightarrow> nat \<Rightarrow> nat \<Rightarrow> nat \<Rightarrow> int \<Rightarrow> nat \<times> int" where
  "sobel_chunks rgb row w x energy =
     (if x + 8 < w - 1 then
        sobel_chunks rgb row w (x + 8)
          (energy + (grad rgb (row + (x + 1) * 3 + 1) (row + (x - 1) * 3 + 1) +
                    grad rgb (row + (x + 2) * 3 + 1) (row + (x + 0) * 3 + 1) +
                    grad rgb (row + (x + 3) * 3 + 1) (row + (x + 1) * 3 + 1) +
                    grad rgb (row + (x + 4) * 3 + 1) (row + (x + 2) * 3 + 1) +
                    grad rgb (row + (x + 5) * 3 + 1) (row + (x + 3) * 3 + 1) +
                    grad rgb (row + (x + 6) * 3 + 1) (row + (x + 4) * 3 + 1) +
                    grad rgb (row + (x + 7) * 3 + 1) (row + (x + 5) * 3 + 1) +
                    grad rgb (row + (x + 8) * 3 + 1) (row + (x + 6) * 3 + 1)))
      else (x, energy))"
  by auto
termination sobel_chunks
  by (relation "measure (\<lambda>(rgb, row, w, x, energy). w - x)") auto

declare sobel_chunks.simps [simp del]

definition sobelEnergyNw :: "byte list option \<Rightarrow> nat \<Rightarrow> nat \<Rightarrow> int" where
  "sobelEnergyNw rgb w h =
     (case rgb of
        None \<Rightarrow> 0
      | Some rgb \<Rightarrow>
          if w < 3 \<or> h < 3 then 0
          else for_loop 1 (h - 1) 1 (\<lambda>y energy.
                 let row = y * (w * 3); (x, energy) = sobel_chunks rgb row w 1 energy
                 in for_loop 1 (w - 1) x (\<lambda>x energy.
                      energy + grad rgb (row + (x + 1) * 3 + 1) (row + (x - 1) * 3 + 1)) energy) 0)"

definition afSharpness :: "byte list option \<Rightarrow> nat \<Rightarrow> nat \<Rightarrow> int" where
  "afSharpness rgb w h =
     (case rgb of
        None \<Rightarrow> 0
      | Some rgb \<Rightarrow>
          if w < 64 \<or> h < 64 then 0
          else
            let stride = w * 3; x0 = w div 5; x1 = w - w div 5; y0 = h div 5; y1 = h - h div 5;
                (energy, valid) = for_loop 2 (y1 - 1) (y0 + 1) (\<lambda>y.
                  for_loop 2 (x1 - 1) (x0 + 1) (\<lambda>x (energy, valid).
                    let i = y * stride + (x * 3 + 1); c = uint (rgb ! i)
                    in if c \<ge> 250 \<or> c \<le> 6 then (energy, valid)
                       else (energy + (grad rgb (i + 3) (i - 3) + grad rgb (i + stride) (i - stride)), valid + 1)))
                  (0, 0 :: int)
            in if valid < 2000 then 0 else if energy > 0x7fffffff then 0x7fffffff else energy)"

section \<open>Auto exposure stays in range and on the mains grid\<close>

lemma sdiv_nonneg: "0 \<le> a \<Longrightarrow> 0 \<le> b \<Longrightarrow> a sdiv b = a div b" for a b :: int
  by (cases "a = 0"; cases "b = 0") (auto simp: signed_divide_int_def)

lemma floor_multiple: "0 < s \<Longrightarrow> x div s * s \<le> x \<and> x < x div s * s + s" for x s :: int
  using div_mult_mod_eq [of x s] pos_mod_sign [of s x] pos_mod_bound [of s x] by linarith

lemma gain_min_bounds: "1 \<le> gain_min p" "gain_min p \<le> 16"
  by (simp_all add: gain_min_def)

lemma clamp_gain_range: "gain_min p \<le> clamp_gain p g" "clamp_gain p g \<le> 240"
  using gain_min_bounds [of p] by (auto simp: clamp_gain_def Let_def)

lemma snap_exposure_grid:
  assumes "0 < s" "0 \<le> e" "0 \<le> m"
  shows "s dvd snap_exposure s m e" "s \<le> snap_exposure s m e" "s \<le> m \<Longrightarrow> snap_exposure s m e \<le> m"
proof -
  have d: "s sdiv 2 = s div 2" "(e + s div 2) sdiv s = (e + s div 2) div s" "m sdiv s = m div s"
    using assms by (auto intro!: sdiv_nonneg)
  show "s dvd snap_exposure s m e" "s \<le> snap_exposure s m e"
    using assms by (auto simp: snap_exposure_def Let_def d)
  have "m div s * s \<le> m" using floor_multiple [OF assms(1)] by blast
  then show "s \<le> m \<Longrightarrow> snap_exposure s m e \<le> m"
    by (auto simp: snap_exposure_def Let_def d)
qed

lemma snap_exposure_near:
  assumes "0 < s" "s \<le> e" "e \<le> m div s * s" "0 \<le> m"
  shows "2 * \<bar>snap_exposure s m e - e\<bar> \<le> s"
proof -
  define k where "k = (e + s div 2) div s"
  have d: "s sdiv 2 = s div 2" "(e + s div 2) sdiv s = k" "m sdiv s = m div s"
    using assms by (auto intro!: sdiv_nonneg simp: k_def)
  have ks: "k * s \<le> e + s div 2" "e + s div 2 < k * s + s"
    using floor_multiple [OF assms(1), of "e + s div 2"] by (simp_all add: k_def)
  have "s div s \<le> k" unfolding k_def using assms by (intro zdiv_mono1) linarith+
  then have "1 \<le> k" using assms(1) by simp
  have "k \<le> m div s"
  proof -
    have "e + s div 2 < (m div s + 1) * s" using assms(1,3) by (simp add: algebra_simps)
    then have "k < m div s + 1" using ks(1) assms(1) by (smt (verit) mult_less_cancel_right)
    then show ?thesis by simp
  qed
  then have "k * s \<le> m div s * s" using assms(1) by (simp add: mult_right_mono)
  then have "snap_exposure s m e = k * s"
    using \<open>1 \<le> k\<close> assms(1) by (auto simp: snap_exposure_def Let_def d)
  moreover have "2 * (s div 2) \<le> s" "s \<le> 2 * (s div 2) + 1" by linarith+
  ultimately show ?thesis using ks by (simp add: abs_if)
qed

lemma ae_split_range:
  assumes "mExpMin p \<le> mExpMax p"
  shows "mExpMin p \<le> fst (ae_split p eff)" "fst (ae_split p eff) \<le> mExpMax p"
    "gain_min p \<le> snd (ae_split p eff)" "snd (ae_split p eff) \<le> 240"
  using assms clamp_gain_range [of p] by (auto simp: ae_split_def Let_def)

text \<open>The exposure and gain that auto exposure asks for.\<close>

definition ae_request :: "CameraPipeline \<Rightarrow> rat \<Rightarrow> int \<times> int" where
  "ae_request p ratio = (let newEff = ae_effective p ratio in ae_quantize p newEff (ae_split p newEff))"

lemma ae_request_range:
  assumes "0 < mExpMin p" "mExpMin p \<le> mExpMax p"
  shows "gain_min p \<le> snd (ae_request p ratio) \<and> snd (ae_request p ratio) \<le> 240"
    "mMainHalfNs p > 0 \<and> mExposureStepLines p > 1 \<Longrightarrow>
       mExposureStepLines p dvd fst (ae_request p ratio) \<and> mExposureStepLines p \<le> fst (ae_request p ratio) \<and>
       (mExposureStepLines p \<le> mExpMax p \<longrightarrow> fst (ae_request p ratio) \<le> mExpMax p)"
    "\<not> (mMainHalfNs p > 0 \<and> mExposureStepLines p > 1) \<Longrightarrow>
       mExpMin p \<le> fst (ae_request p ratio) \<and> fst (ae_request p ratio) \<le> mExpMax p"
proof -
  define eff where "eff = ae_effective p ratio"
  obtain e g where eg: "ae_split p eff = (e, g)" by fastforce
  have r: "mExpMin p \<le> e" "e \<le> mExpMax p" "gain_min p \<le> g" "g \<le> 240"
    using ae_split_range [OF assms(2), of eff] by (simp_all add: eg)
  have q: "ae_request p ratio = ae_quantize p eff (e, g)" by (simp add: ae_request_def eff_def [symmetric] eg)
  show "gain_min p \<le> snd (ae_request p ratio) \<and> snd (ae_request p ratio) \<le> 240"
    using r clamp_gain_range by (auto simp: q ae_quantize_def Let_def snap_gain_def)
  show "\<not> (mMainHalfNs p > 0 \<and> mExposureStepLines p > 1) \<Longrightarrow>
       mExpMin p \<le> fst (ae_request p ratio) \<and> fst (ae_request p ratio) \<le> mExpMax p"
    using r by (auto simp: q ae_quantize_def)
  assume band: "mMainHalfNs p > 0 \<and> mExposureStepLines p > 1"
  define s where "s = mExposureStepLines p"
  have "fst (ae_request p ratio) = snap_exposure s (mExpMax p) e"
    using band by (simp add: q ae_quantize_def Let_def s_def)
  then show "mExposureStepLines p dvd fst (ae_request p ratio) \<and> mExposureStepLines p \<le> fst (ae_request p ratio) \<and>
       (mExposureStepLines p \<le> mExpMax p \<longrightarrow> fst (ae_request p ratio) \<le> mExpMax p)"
    using snap_exposure_grid [of s e "mExpMax p"] band r assms by (auto simp: s_def)
qed

text \<open>Two states that differ in the hold counter only.\<close>

definition same_but_hold :: "CameraPipeline \<Rightarrow> CameraPipeline \<Rightarrow> bool" where
  "same_but_hold p q \<longleftrightarrow> (\<exists>n. q = p\<lparr>mAeHoldFrames := n\<rparr>)"

lemma same_but_hold_refl: "same_but_hold p p"
  unfolding same_but_hold_def by (rule exI [of _ "mAeHoldFrames p"]) simp

lemma doAutoExposure_cases:
  "\<exists>q ratio. same_but_hold p q \<and>
     (doAutoExposure K rgb p = q \<or> doAutoExposure K rgb p = ae_apply K (ae_request q ratio) q)"
proof (cases rgb)
  case None
  then show ?thesis using same_but_hold_refl by (auto simp: doAutoExposure_def ae_meter_def)
next
  case (Some buf)
  define q where "q = (if mAeHoldFrames p > 0 then p\<lparr>mAeHoldFrames := mAeHoldFrames p - 1\<rparr> else p)"
  obtain l n where st: "ae_stats buf (unat (cfg_width (mConfig p))) (unat (cfg_height (mConfig p))) = (l, n)" by fastforce
  define ratio where "ratio = ae_ratio (cfg_targetLuma (mConfig p)) (ae_average l n)"
  have "doAutoExposure K rgb p \<in> {p, p\<lparr>mAeHoldFrames := 0\<rparr>, q, ae_apply K (ae_request q ratio) q}"
    unfolding Some doAutoExposure_def ae_meter_def option.case st Let_def prod.case ae_request_def q_def [symmetric] ratio_def
    by (simp split: if_split)
  moreover have "same_but_hold p (p\<lparr>mAeHoldFrames := 0\<rparr>)" "same_but_hold p q"
    using same_but_hold_refl by (auto simp: same_but_hold_def q_def)
  ultimately show ?thesis using same_but_hold_refl by blast
qed

text \<open>The control requests a log asks for, newest first.\<close>

fun ctrl_requests :: "v4l2_ctrl \<Rightarrow> sys list \<Rightarrow> int list" where
  "ctrl_requests c [] = []"
| "ctrl_requests c (r # l) =
     (case r of SetCtrl fd c' v \<Rightarrow> if c' = c then v # ctrl_requests c l else ctrl_requests c l
      | _ \<Rightarrow> ctrl_requests c l)"

definition gain_ok :: "CameraPipeline \<Rightarrow> int \<Rightarrow> bool" where
  "gain_ok p v \<longleftrightarrow> gain_min p \<le> v \<and> v \<le> 240"

definition exposure_ok :: "CameraPipeline \<Rightarrow> int \<Rightarrow> bool" where
  "exposure_ok p v \<longleftrightarrow>
     (if mMainHalfNs p > 0 \<and> mExposureStepLines p > 1
      then mExposureStepLines p dvd v \<and> mExposureStepLines p \<le> v \<and>
           (mExposureStepLines p \<le> mExpMax p \<longrightarrow> v \<le> mExpMax p)
      else mExpMin p \<le> v \<and> v \<le> mExpMax p)"

definition in_deadband :: "CameraPipeline \<Rightarrow> byte list \<Rightarrow> bool" where
  "in_deadband p rgb \<longleftrightarrow>
     (case ae_stats rgb (unat (cfg_width (mConfig p))) (unat (cfg_height (mConfig p))) of (lumaSum, samples) \<Rightarrow>
        f32 (cfg_targetLuma (mConfig p) * f32 (85 / 100)) < ae_average lumaSum samples \<and>
        ae_average lumaSum samples < f32 (cfg_targetLuma (mConfig p) * f32 (115 / 100)))"

lemma deadband_quiet: "in_deadband p rgb \<Longrightarrow> p_log (doAutoExposure K (Some rgb) p) = p_log p"
  by (auto simp: doAutoExposure_def ae_meter_def in_deadband_def Let_def)

text \<open>A request for an exposure or a gain that is in range.\<close>

fun request_ok :: "CameraPipeline \<Rightarrow> sys \<Rightarrow> bool" where
  "request_ok p (SetCtrl fd CID_EXPOSURE v) \<longleftrightarrow> fd = mFd p \<and> exposure_ok p v"
| "request_ok p (SetCtrl fd CID_GAIN v) \<longleftrightarrow> fd = mFd p \<and> gain_ok p v"
| "request_ok p _ \<longleftrightarrow> False"

lemma ae_apply_effect:
  assumes "exposure_ok p e" "gain_ok p g"
  shows "(\<exists>rs. p_log (ae_apply K (e, g) p) = rs @ p_log p \<and> length rs \<le> 2 \<and> list_all (request_ok p) rs) \<and>
    mCurrentExposure (ae_apply K (e, g) p) \<in> {e, mCurrentExposure p} \<and> mCurrentGain (ae_apply K (e, g) p) \<in> {g, mCurrentGain p}"
  using assms by (auto simp: ae_apply_def setGain_def setExposure_def syscall_def issue_def Let_def)


text \<open>A correction never makes a gain of 0 out of another one.\<close>

lemma auto_exposure_keeps_gain: "mCurrentGain p \<noteq> 0 \<Longrightarrow> mCurrentGain (doAutoExposure K rgb p) \<noteq> 0"
proof -
  assume g: "mCurrentGain p \<noteq> 0"
  obtain q ratio where q: "same_but_hold p q" "doAutoExposure K rgb p = q \<or> doAutoExposure K rgb p = ae_apply K (ae_request q ratio) q"
    using doAutoExposure_cases by blast
  have pos: "gain_min q \<le> snd (ae_request q ratio)"
    using clamp_gain_range [of q] by (auto simp: ae_request_def ae_quantize_def ae_split_def snap_gain_def Let_def split: prod.splits)
  then have "snd (ae_request q ratio) \<noteq> 0" by (auto simp: gain_min_def split: if_splits)
  moreover have "mCurrentGain (ae_apply K eg q) \<in> {snd eg, mCurrentGain q}" for eg
    by (cases eg) (auto simp: ae_apply_def setGain_def setExposure_def syscall_def issue_def Let_def)
  moreover have "mCurrentGain q \<noteq> 0" using q(1) g by (auto simp: same_but_hold_def)
  ultimately show ?thesis using q(2) by (metis insertE singletonD)
qed

definition sample_config :: PipelineConfig where
  "sample_config = \<lparr>cfg_width = 8, cfg_height = 8, cfg_pixelFormat = 0, cfg_bayerPattern = 0, cfg_offset_x = 0,
     cfg_offset_y = 0, cfg_flipV = False, cfg_enableISP = True, cfg_blackLevel = 16, cfg_whiteLevel = 255,
     cfg_wbGain = [1, 1, 1, 1], cfg_ccm = [1, 0, 0, 0, 1, 0, 0, 0, 1], cfg_gamma = 1, cfg_enableAE = True,
     cfg_enableAWB = True, cfg_targetLuma = 1 / 2, cfg_digitalGain = 1\<rparr>"

definition sample_kernel :: kernel where
  "sample_kernel = \<lparr>k_ret = \<lambda>l. 0, k_caps = \<lambda>l. 0x4000001, k_count = \<lambda>l. 4, k_length = \<lambda>l. 128,
     k_mmap = \<lambda>l. Some (length l), k_ctrl = \<lambda>l. 0,
     k_dqbuf = \<lambda>l. \<lparr>dq_index = 0, dq_bytesused = 128, dq_tv_sec = 0, dq_tv_usec = 0, dq_data = replicate 128 0\<rparr>,
     k_revents = \<lambda>l. True, k_property = \<lambda>l. ''auto'', k_time = \<lambda>l. 0, k_new = \<lambda>n. replicate n 0,
     k_realloc = \<lambda>old n. Some (replicate n 0), k_powf = \<lambda>x g. x\<rparr>"

definition sample_pipeline :: CameraPipeline where
  "sample_pipeline = CameraPipeline_new 0 sample_config (replicate 16 0) (replicate 256 0)"


section \<open>White balance gains stay in range\<close>

definition gain_in_range :: "rat \<Rightarrow> bool" where
  "gain_in_range g \<longleftrightarrow> 1 / 2 \<le> g \<and> g \<le> 4"

definition awb_ok :: "CameraPipeline \<Rightarrow> bool" where
  "awb_ok p \<longleftrightarrow> length (mAwbGains p) = 4 \<and> mAwbGains p ! 1 = 1 \<and> mAwbGains p ! 3 = 1 \<and>
     gain_in_range (mAwbGains p ! 0) \<and> gain_in_range (mAwbGains p ! 2)"

lemma awb_clamp_range: "gain_in_range (awb_clamp g)"
  by (auto simp: awb_clamp_def gain_in_range_def)

lemma awb_weights: "awb_alpha = 10066330 / 67108864" "f32 (1 - awb_alpha) = 14260634 / 16777216"
proof -
  show a: "awb_alpha = 10066330 / 67108864"
    unfolding awb_alpha_def by (subst f32_value [where k = "- 3" and m = 10066330]) (simp_all add: f32_eval)
  show "f32 (1 - awb_alpha) = 14260634 / 16777216"
    unfolding a by (subst f32_value [where k = "- 1" and m = 14260634]) (simp_all add: f32_eval)
qed

lemma awb_smooth_ends: "awb_smooth (1 / 2) (1 / 2) = 1 / 2" "awb_smooth 4 4 = 4"
proof -
  have "f32 (4 * (14260634 / 16777216)) = 14260634 / 4194304" "f32 (1 / 2 * (14260634 / 16777216)) = 14260634 / 33554432"
    "f32 (4 * (10066330 / 67108864)) = 10066330 / 16777216" "f32 (1 / 2 * (10066330 / 67108864)) = 10066330 / 134217728"
    by (subst f32_value [where k = 1 and m = 14260634] f32_value [where k = "- 2" and m = 14260634]
          f32_value [where k = "- 1" and m = 10066330] f32_value [where k = "- 4" and m = 10066330];
        simp add: f32_eval)+
  moreover have "f32 (14260634 / 4194304 + 10066330 / 16777216) = 4"
    by (subst f32_value [where k = 2 and m = 8388608]) (simp_all add: f32_eval)
  moreover have "f32 (14260634 / 33554432 + 10066330 / 134217728) = 1 / 2"
    by (subst f32_value [where k = "- 1" and m = 8388608]) (simp_all add: f32_eval)
  ultimately show "awb_smooth (1 / 2) (1 / 2) = 1 / 2" "awb_smooth 4 4 = 4"
    unfolding awb_smooth_def awb_weights(2) unfolding awb_weights(1) by (simp_all only:)
qed

lemma awb_weights_nonneg: "0 \<le> awb_alpha" "0 \<le> f32 (1 - awb_alpha)"
  unfolding awb_weights(2) unfolding awb_weights(1) by simp_all

lemma awb_smooth_mono: "a \<le> b \<Longrightarrow> c \<le> d \<Longrightarrow> awb_smooth a c \<le> awb_smooth b d"
  unfolding awb_smooth_def using awb_weights_nonneg
  by (intro f32_mono add_mono mult_right_mono) auto

lemma awb_smooth_range:
  assumes "gain_in_range a" "gain_in_range b"
  shows "gain_in_range (awb_smooth a b)"
  using awb_smooth_mono [of "1 / 2" a "1 / 2" b] awb_smooth_mono [of a 4 b 4] assms
  unfolding gain_in_range_def by (simp only: awb_smooth_ends simp_thms)

text \<open>
  C37. The white balance gains stay within 0.5..4 for red and blue and equal to 1 for green, frame after
  frame: the exponential smoothing in single precision never leaves the interval although its two
  weights, 0.85 and 0.15 rounded to \<open>float\<close>, add up to more than 1.
\<close>

theorem white_balance_gains_bounded:
  "awb_ok (CameraPipeline_new camera config deltas lut) \<and>
   (awb_ok p \<longrightarrow> awb_ok (doAutoWhiteBalance rgb p)) \<and> 1 < f32 (1 - awb_alpha) + awb_alpha"
proof (intro conjI impI)
  show "awb_ok (CameraPipeline_new camera config deltas lut)"
    by (simp add: awb_ok_def CameraPipeline_new_def gain_in_range_def)
  show "1 < f32 (1 - awb_alpha) + awb_alpha"
    unfolding awb_weights(2) unfolding awb_weights(1) by simp
  assume ok: "awb_ok p"
  then show "awb_ok (doAutoWhiteBalance rgb p)"
    unfolding doAutoWhiteBalance_def
    by (auto simp: awb_ok_def Let_def awb_clamp_range awb_smooth_range split: option.split prod.split)
qed

theorem white_balance_gains_bounded_witness:
  "awb_ok sample_pipeline \<and> awb_ok (doAutoWhiteBalance (Some (replicate 192 200)) sample_pipeline)"
proof
  have "awb_ok (CameraPipeline_new 0 sample_config (replicate 16 0) (replicate 256 0))"
    using white_balance_gains_bounded by blast
  then show a: "awb_ok sample_pipeline" by (simp add: sample_pipeline_def)
  then show "awb_ok (doAutoWhiteBalance (Some (replicate 192 200)) sample_pipeline)"
    using white_balance_gains_bounded by blast
qed

section \<open>Frame timing\<close>

lemma sink_mset: "j < length xs \<Longrightarrow> mset (sink xs j) = mset xs \<and> length (sink xs j) = length xs"
proof (induction xs j rule: sink.induct)
  case (2 xs j)
  have "mset (xs[Suc j := xs ! j, j := xs ! Suc j]) = mset xs"
    using "2.prems" by (intro mset_swap) auto
  then show ?case using 2 by simp
qed simp

text \<open>Everything but position \<open>j\<close> sorted, and everything after \<open>j\<close> above it: then sinking sorts.\<close>

lemma sink_sorted:
  assumes "j < length xs" "\<And>a b. a < b \<Longrightarrow> b < length xs \<Longrightarrow> b \<noteq> j \<Longrightarrow> xs ! a \<le> xs ! b"
  shows "sorted (sink xs j)"
  using assms
proof (induction xs j rule: sink.induct)
  case (1 xs)
  have "xs ! a \<le> xs ! b" if "a < b" "b < length xs" for a b
    using 1(2) [OF that] that by simp
  then show ?case by (simp add: sorted_iff_nth_mono_less)
next
  case (2 xs j)
  show ?case
  proof (cases "xs ! j > xs ! Suc j")
    case True
    let ?ys = "xs[Suc j := xs ! j, j := xs ! Suc j]"
    have len: "j < length ?ys" "Suc j < length xs" using 2 by auto
    have "?ys ! a \<le> ?ys ! b" if ab: "a < b" "b < length ?ys" "b \<noteq> j" for a b
    proof -
      have le: "xs ! c \<le> xs ! d" if "c < d" "d < length xs" "d \<noteq> Suc j" for c d using "2.prems"(2) that by blast
      have y: "?ys ! i = (if i = j then xs ! Suc j else if i = Suc j then xs ! j else xs ! i)" if "i < length xs" for i
        using that by (auto simp: nth_list_update)
      consider "b = Suc j" "a = j" | "b = Suc j" "a < j" | "b \<noteq> Suc j" using ab by linarith
      then show ?thesis
      proof cases
        case 1
        then show ?thesis using True len by (simp add: y)
      next
        case 2
        then show ?thesis using le [of a j] len by (simp add: y)
      next
        case 3
        then show ?thesis using le [of a b] le [of j b] le [of "Suc j" b] ab len
          by (auto simp: y)
      qed
    qed
    then have "sorted (sink ?ys j)" using "2.IH" [OF True len(1)] by blast
    then show ?thesis using True by simp
  next
    case False
    have "xs ! a \<le> xs ! b" if "a < b" "b < length xs" for a b
    proof (cases "b = Suc j")
      case True
      show ?thesis
      proof (cases "a = j")
        case True
        then show ?thesis using \<open>b = Suc j\<close> False by simp
      next
        case f: False
        then have "xs ! a \<le> xs ! j" using "2.prems" that \<open>b = Suc j\<close> by auto
        then show ?thesis using False \<open>b = Suc j\<close> by simp
      qed
    next
      case False
      then show ?thesis using "2.prems"(2) that by blast
    qed
    then show ?thesis using False by (simp add: sorted_iff_nth_mono_less)
  qed
qed

lemma sort_deltas_step:
  assumes "sorted ys"
  shows "sink (ys @ [d]) (length ys) = insort d ys"
proof -
  have "sorted (sink (ys @ [d]) (length ys))"
    by (rule sink_sorted) (use assms in \<open>auto simp: nth_append sorted_iff_nth_mono_less\<close>)
  moreover have "mset (sink (ys @ [d]) (length ys)) = mset (insort d ys)"
    using sink_mset [of "length ys" "ys @ [d]"] by (simp add: union_commute)
  ultimately show ?thesis using assms by (metis properties_for_sort sorted_insort sorted_sort_id)
qed

lemma fold_sort_deltas:
  "sorted ys \<Longrightarrow> fold (\<lambda>d sorted. sink (sorted @ [d]) (length sorted)) ds ys = fold insort ds ys"
proof (induction ds arbitrary: ys)
  case (Cons d ds)
  then show ?case using sort_deltas_step [of ys d] sorted_insort [of d ys] by simp
qed simp

lemma sort_deltas_sort: "sort_deltas ds = sort ds"
proof -
  have "mset (fold insort ds ys) = mset ds + mset ys \<and> (sorted ys \<longrightarrow> sorted (fold insort ds ys))" for ys
    by (induction ds arbitrary: ys) (auto simp: sorted_insort)
  from this [of "[]"] have "sort ds = fold insort ds []" by (intro properties_for_sort) auto
  then show ?thesis by (simp add: sort_deltas_def fold_sort_deltas)
qed

text \<open>The measurement: up to twelve plausible frame deltas, then frozen at their median.\<close>

definition timing_ok :: "CameraPipeline \<Rightarrow> bool" where
  "timing_ok p \<longleftrightarrow> length (mTsDeltas p) = 16 \<and> mDeltaCount p \<le> 12 \<and> (\<not> mTimingFrozen p \<longrightarrow> mDeltaCount p < 12) \<and>
     (\<forall>i<mDeltaCount p. 5000000 < mTsDeltas p ! i \<and> mTsDeltas p ! i < 200000000) \<and>
     (mTimingFrozen p \<longrightarrow> mDeltaCount p = 12 \<and> mFramePeriodNs p = sort (take 12 (mTsDeltas p)) ! 6 \<and>
        mLinePeriodNs p = mFramePeriodNs p sdiv mVtsLines p)"

lemma snap_current_cases:
  "snap_current K p = p \<or> (\<exists>s. snap_current K p = p\<lparr>mExposureStepLines := s\<rparr>) \<or>
   (\<exists>s q. snap_current K p = snd (setExposure K q (p\<lparr>mExposureStepLines := s\<rparr>)))"
  unfolding snap_current_def Let_def by auto

lemma snap_current_frame:
  "mTsDeltas (snap_current K p) = mTsDeltas p" "mDeltaCount (snap_current K p) = mDeltaCount p"
  "mTimingFrozen (snap_current K p) = mTimingFrozen p" "mVtsLines (snap_current K p) = mVtsLines p"
  "mFramePeriodNs (snap_current K p) = mFramePeriodNs p" "mLinePeriodNs (snap_current K p) = mLinePeriodNs p"
  "mMainHalfNs (snap_current K p) = mMainHalfNs p" "mExpUnitsPerLine (snap_current K p) = mExpUnitsPerLine p"
  "mExpMin (snap_current K p) = mExpMin p" "mExpMax (snap_current K p) = mExpMax p"
  using snap_current_cases [of K p] by (auto simp: setExposure_def syscall_def issue_def Let_def split: if_splits)

lemma freeze_timing_frame:
  "mTsDeltas (freeze_timing K p) = mTsDeltas p" "mDeltaCount (freeze_timing K p) = mDeltaCount p"
  "mTimingFrozen (freeze_timing K p)" "mVtsLines (freeze_timing K p) = mVtsLines p"
  "mFramePeriodNs (freeze_timing K p) = sort (take (mDeltaCount p) (mTsDeltas p)) ! (mDeltaCount p div 2)"
  "mLinePeriodNs (freeze_timing K p) = mFramePeriodNs (freeze_timing K p) sdiv mVtsLines p"
  by (simp_all add: freeze_timing_def snap_current_frame freeze_period_def Let_def sort_deltas_sort)

lemma record_timestamp_ok:
  assumes "timing_ok p"
  shows "timing_ok (record_timestamp K b p)"
proof (cases "mTimingFrozen p")
  case True
  then show ?thesis using assms by (simp add: record_timestamp_def timing_ok_def)
next
  case False
  define d where "d = frame_timestamp b - mPrevFrameTsNs p"
  define q where "q = p\<lparr>mPrevFrameTsNs := frame_timestamp b, mTsDeltas := (mTsDeltas p)[mDeltaCount p := d],
      mDeltaCount := mDeltaCount p + 1\<rparr>"
  have c: "mDeltaCount p < 12" "length (mTsDeltas p) = 16" using assms False by (auto simp: timing_ok_def)
  have r: "record_timestamp K b p =
      (if d > 5000000 \<and> d < 200000000 then (if mDeltaCount q \<ge> 12 then freeze_timing K q else q)
       else p\<lparr>mPrevFrameTsNs := frame_timestamp b\<rparr>)"
    using False c by (simp add: record_timestamp_def d_def q_def Let_def)
  show ?thesis
  proof (cases "d > 5000000 \<and> d < 200000000")
    case out: False
    then have "record_timestamp K b p = p\<lparr>mPrevFrameTsNs := frame_timestamp b\<rparr>" unfolding r by (rule if_not_P)
    then show ?thesis using assms False by (simp add: timing_ok_def)
  next
    case ok: True
    have deltas: "\<forall>i<mDeltaCount q. 5000000 < mTsDeltas q ! i \<and> mTsDeltas q ! i < 200000000"
      using assms ok c by (auto simp: q_def timing_ok_def nth_list_update less_Suc_eq)
    show ?thesis
    proof (cases "mDeltaCount q \<ge> 12")
      case True
      then have "mDeltaCount q = 12" using c by (simp add: q_def)
      then show ?thesis using ok True deltas c unfolding r
        by (simp add: timing_ok_def freeze_timing_frame) (simp add: q_def)
    next
      case less: False
      then show ?thesis using ok deltas c False unfolding r by (simp add: timing_ok_def) (simp add: q_def)
    qed
  qed
qed

lemma median_bounds:
  assumes "\<forall>i<12. a < xs ! i \<and> xs ! i < b" "12 \<le> length xs"
  shows "a < sort (take 12 xs) ! 6 \<and> sort (take 12 xs) ! 6 < (b :: int)"
proof -
  have "sort (take 12 xs) ! 6 \<in> set (sort (take 12 xs))" using assms by (intro nth_mem) simp
  then have "sort (take 12 xs) ! 6 \<in> set (take 12 xs)" by simp
  then show ?thesis using assms by (auto simp: in_set_conv_nth)
qed

text \<open>
  The frame period is the median of exactly twelve frame intervals, each between 5 and 200 ms, so
  it lies in that range; it is frozen from then on, whatever later timestamps say. The invariant
  holds after \<open>configure\<close>'s reset and is kept by every frame.
\<close>

theorem frame_period_is_median:
  assumes ok: "timing_ok p" and p': "p' = fold (record_timestamp K) bs p" and frozen: "mTimingFrozen p'"
  shows "mFramePeriodNs p' = sort (take 12 (mTsDeltas p')) ! 6 \<and>
    (\<forall>i<12. 5000000 < mTsDeltas p' ! i \<and> mTsDeltas p' ! i < 200000000) \<and>
    5000000 < mFramePeriodNs p' \<and> mFramePeriodNs p' < 200000000 \<and>
    mFramePeriodNs (fold (record_timestamp K) bs' p') = mFramePeriodNs p'"
proof -
  have "timing_ok (fold (record_timestamp K) bs p)" for bs
    using ok by (induction bs arbitrary: p) (auto intro: record_timestamp_ok)
  then have t: "timing_ok p'" using p' by simp
  then have m: "mFramePeriodNs p' = sort (take 12 (mTsDeltas p')) ! 6"
      "\<forall>i<12. 5000000 < mTsDeltas p' ! i \<and> mTsDeltas p' ! i < 200000000" "length (mTsDeltas p') = 16"
    using frozen by (auto simp: timing_ok_def)
  have "mFramePeriodNs (fold (record_timestamp K) bs' q) = mFramePeriodNs q" if "mTimingFrozen q" for q
    using that by (induction bs' arbitrary: q) (auto simp: record_timestamp_def)
  then show ?thesis using m frozen median_bounds [OF m(2)] by simp
qed

theorem frame_period_is_median_witness:
  "mFramePeriodNs (fold (record_timestamp sample_kernel)
      (map (\<lambda>i. \<lparr>dq_index = 0, dq_bytesused = 0, dq_tv_sec = 1, dq_tv_usec = 40000 * int i, dq_data = []\<rparr>) [0..<13])
      sample_pipeline) < 200000000"
proof -
  let ?bs = "map (\<lambda>i. \<lparr>dq_index = 0, dq_bytesused = 0, dq_tv_sec = 1, dq_tv_usec = 40000 * int i, dq_data = []\<rparr>) [0..<13]"
  have ok: "timing_ok sample_pipeline" by (simp add: timing_ok_def sample_pipeline_def CameraPipeline_new_def)
  have "mTimingFrozen (fold (record_timestamp sample_kernel) ?bs sample_pipeline)"
    by (simp add: upt_rec record_timestamp_def frame_timestamp_def Let_def freeze_timing_frame sample_pipeline_def
        CameraPipeline_new_def)
  from frame_period_is_median [OF ok refl this] show ?thesis by blast
qed

text \<open>
  When the timing freezes with anti-banding on, the exposure step is the whole number of sensor lines
  nearest to one mains half-period (within half a line), at least one line, times the control's units
  per line; the current exposure is moved to a positive multiple of the step, at most the maximum
  exposure when one step fits, unless the control request is refused.
\<close>

theorem mains_step_is_nearest:
  assumes "mMainHalfNs p > 0" "mLinePeriodNs p > 0" "mExpUnitsPerLine p > 0" "0 \<le> mCurrentExposure p" "0 \<le> mExpMax p"
    and s: "s = mExposureStepLines (snap_current K p)"
  shows "\<exists>lines\<ge>1. s = lines * mExpUnitsPerLine p \<and>
      (lines = 1 \<or> 2 * \<bar>lines * mLinePeriodNs p - mMainHalfNs p\<bar> \<le> mLinePeriodNs p) \<and>
      (mCurrentExposure (snap_current K p) = mCurrentExposure p \<or>
       (s dvd mCurrentExposure (snap_current K p) \<and> s \<le> mCurrentExposure (snap_current K p) \<and>
        (s \<le> mExpMax p \<longrightarrow> mCurrentExposure (snap_current K p) \<le> mExpMax p)))"
proof -
  define L where "L = mLinePeriodNs p"
  define k where "k = (mMainHalfNs p + L div 2) div L"
  define lines where "lines = (if k < 1 then 1 else k)"
  have L: "0 < L" using assms by (simp add: L_def)
  have kb: "k * L \<le> mMainHalfNs p + L div 2" "mMainHalfNs p + L div 2 < k * L + L"
    using floor_multiple [OF L, of "mMainHalfNs p + L div 2"] by (simp_all add: k_def)
  have half: "2 * (L div 2) \<le> L" "L \<le> 2 * (L div 2) + 1" by linarith+
  have ms: "mains_step p = lines * mExpUnitsPerLine p"
    using assms L by (simp add: mains_step_def Let_def sdiv_nonneg L_def [symmetric] k_def lines_def)
  have near: "lines = 1 \<or> 2 * \<bar>lines * L - mMainHalfNs p\<bar> \<le> L"
    using kb half by (auto simp: lines_def abs_if)
  have "1 \<le> lines" by (simp add: lines_def)
  then have pos: "0 < lines * mExpUnitsPerLine p" using assms by simp
  have st: "s = lines * mExpUnitsPerLine p"
    using assms(1,2) by (simp add: s snap_current_def Let_def setExposure_def syscall_def issue_def ms)
  define q where "q = nearest_step p s"
  have cur: "mCurrentExposure (snap_current K p) \<in> {mCurrentExposure p, q}"
    using assms(1,2) by (simp add: snap_current_def Let_def setExposure_def syscall_def issue_def ms st q_def)
  have spos: "0 < s" using pos st by simp
  have "s dvd q" "s \<le> q" "s \<le> mExpMax p \<longrightarrow> q \<le> mExpMax p"
    using spos assms floor_multiple [OF spos, of "mExpMax p"] by (auto simp: q_def nearest_step_def Let_def sdiv_nonneg)
  then show ?thesis using cur near st \<open>1 \<le> lines\<close> unfolding L_def [symmetric] by blast
qed

theorem mains_step_is_nearest_witness:
  "\<exists>lines\<ge>1. mExposureStepLines (snap_current sample_kernel (sample_pipeline\<lparr>mLinePeriodNs := 15780\<rparr>)) = lines * 1 \<and>
     (lines = 1 \<or> 2 * \<bar>lines * 15780 - 10000000\<bar> \<le> (15780 :: int))"
  using mains_step_is_nearest [of "sample_pipeline\<lparr>mLinePeriodNs := 15780\<rparr>" _ sample_kernel, OF _ _ _ _ _ refl]
  by (simp add: sample_pipeline_def CameraPipeline_new_def)

section \<open>Colour correction, gamma and flip\<close>

lemma f32_zero: "f32 0 = 0"
  by (simp add: f32_def)

lemma ccm_row_identity:
  assumes "ccm_identity m"
  shows "ccm_row m 0 (f32 r) (f32 g) (f32 b) = f32 r" "ccm_row m 3 (f32 r) (f32 g) (f32 b) = f32 g"
    "ccm_row m 6 (f32 r) (f32 g) (f32 b) = f32 b"
  using assms by (simp_all add: ccm_row_def ccm_identity_def f32_idem f32_zero numeral_2_eq_2)

text \<open>Loops that rewrite a buffer cell by cell from the cell's own old contents.\<close>

lemma inplace_filled:
  assumes "\<And>i s. i < n \<Longrightarrow> filled xs s {0..<c * i} G \<Longrightarrow> filled s (body i s) {c * i..<c * (i + 1)} G"
  shows "filled xs (for_loop 1 n 0 body xs) {0..<c * n} G"
  unfolding for_loop_1 using assms
proof (induction n)
  case 0
  then show ?case by (simp add: filled_refl)
next
  case (Suc n)
  have "filled xs (fold body [0..<n] xs) {0..<c * n} G" using Suc by simp
  moreover have "filled (fold body [0..<n] xs) (body n (fold body [0..<n] xs)) {c * n..<c * (n + 1)} G"
    using Suc.prems calculation by simp
  ultimately have "filled xs (body n (fold body [0..<n] xs)) {0..<c * (n + 1)} G"
    by (rule filled_interval_trans) simp_all
  then show ?case by simp
qed

lemma filled_untouched: "filled xs s D G \<Longrightarrow> k \<notin> D \<Longrightarrow> k < length xs \<Longrightarrow> s ! k = xs ! k"
  by (simp add: filled_def)

lemma applyWbAndCcm_filled:
  assumes "n * 3 \<le> length rgb"
  shows "filled rgb (applyWbAndCcm m n rG gG bG rgb) {0..<3 * n}
    (rgb_byte 0 (\<lambda>i. wb_ccm_pixel m rG gG bG (read_rgb rgb (i * 3))))"
  unfolding applyWbAndCcm_def
proof (rule inplace_filled)
  fix i s assume i: "i < n" and s: "filled rgb s {0..<3 * i} (rgb_byte 0 (\<lambda>i. wb_ccm_pixel m rG gG bG (read_rgb rgb (i * 3))))"
  have "s ! (i * 3 + c) = rgb ! (i * 3 + c)" if "c < 3" for c
    by (rule filled_untouched [OF s]) (use i that assms in auto)
  from this [of 0] this [of 1] this [of 2] have "read_rgb s (i * 3) = read_rgb rgb (i * 3)"
    by (simp add: read_rgb_def)
  then show "filled s (store_rgb s (i * 3) (wb_ccm_pixel m rG gG bG (read_rgb s (i * 3)))) {3 * i..<3 * (i + 1)}
      (rgb_byte 0 (\<lambda>i. wb_ccm_pixel m rG gG bG (read_rgb rgb (i * 3))))"
    using store_pixel_filled [of "wb_ccm_pixel m rG gG bG (read_rgb rgb (i * 3))"
        "\<lambda>i. wb_ccm_pixel m rG gG bG (read_rgb rgb (i * 3))" i "i * 3" 0 "3 * (i + 1)" s, OF refl]
    by (simp add: mult.commute)
qed

lemma applyWbAndCcm_pixel:
  assumes len: "n * 3 \<le> length rgb" and "i < n"
  shows "read_rgb (applyWbAndCcm m n rG gG bG rgb) (3 * i) = wb_ccm_pixel m rG gG bG (read_rgb rgb (3 * i))"
proof -
  note F = applyWbAndCcm_filled [OF len, of m rG gG bG]
  let ?px = "\<lambda>i. wb_ccm_pixel m rG gG bG (read_rgb rgb (i * 3))"
  have "applyWbAndCcm m n rG gG bG rgb ! (3 * i + c) = rgb_byte 0 ?px (0 + 3 * i + c)" if "c < 3" for c
    using filled_nth [OF F, of "3 * i + c"] \<open>i < n\<close> that len by simp
  from this [of 0] this [of 1] this [of 2] show ?thesis
    using rgb_byte_at [of 0 ?px i] by (simp add: read_rgb_def mult.commute)
qed

text \<open>
  \<open>applyWbAndCcm\<close> replaces every pixel by its white-balanced and colour-corrected value, clamped to
  a byte, and nothing else; for an identity matrix its fast path gives exactly what the matrix product
  in single precision would give.
\<close>

theorem applyWbAndCcm_correct:
  assumes len: "n * 3 \<le> length rgb"
  shows "length (applyWbAndCcm m n rG gG bG rgb) = length rgb \<and>
    (\<forall>i<n. read_rgb (applyWbAndCcm m n rG gG bG rgb) (3 * i) = wb_ccm_pixel m rG gG bG (read_rgb rgb (3 * i))) \<and>
    (\<forall>k<length rgb. 3 * n \<le> k \<longrightarrow> applyWbAndCcm m n rG gG bG rgb ! k = rgb ! k) \<and>
    (ccm_identity m \<longrightarrow>
       (let r = f32 (of_int (uint pr) * rG); g = f32 (of_int (uint pg) * gG); b = f32 (of_int (uint pb) * bG) in
        wb_ccm_pixel m rG gG bG (pr, pg, pb) =
          (to_byte (ccm_row m 0 r g b), to_byte (ccm_row m 3 r g b), to_byte (ccm_row m 6 r g b))))"
proof (intro conjI allI impI)
  note F = applyWbAndCcm_filled [OF len, of m rG gG bG]
  show "length (applyWbAndCcm m n rG gG bG rgb) = length rgb" by (rule filled_length [OF F])
  show "applyWbAndCcm m n rG gG bG rgb ! k = rgb ! k" if "k < length rgb" "3 * n \<le> k" for k
    using filled_nth [OF F that(1)] that(2) by simp
  show "read_rgb (applyWbAndCcm m n rG gG bG rgb) (3 * i) = wb_ccm_pixel m rG gG bG (read_rgb rgb (3 * i))" if "i < n" for i
    using len that by (rule applyWbAndCcm_pixel)
  show "let r = f32 (of_int (uint pr) * rG); g = f32 (of_int (uint pg) * gG); b = f32 (of_int (uint pb) * bG) in
        wb_ccm_pixel m rG gG bG (pr, pg, pb) =
          (to_byte (ccm_row m 0 r g b), to_byte (ccm_row m 3 r g b), to_byte (ccm_row m 6 r g b))"
    if "ccm_identity m"
    using that by (simp add: wb_ccm_pixel_def Let_def ccm_row_identity)
qed

theorem applyWbAndCcm_correct_witness:
  "read_rgb (applyWbAndCcm [1, 0, 0, 0, 1, 0, 0, 0, 1] 1 2 1 1 [10, 20, 30]) (3 * 0) =
     wb_ccm_pixel [1, 0, 0, 0, 1, 0, 0, 0, 1] 2 1 1 (10, 20, 30)"
  using applyWbAndCcm_correct [of 1 "[10, 20, 30]" "[1, 0, 0, 0, 1, 0, 0, 0, 1]" 2 1 1] by (simp add: read_rgb_def)

lemma gamma_entry_value:
  assumes "0 \<le> powf (f32 (of_nat i / 255)) gamma" "powf (f32 (of_nat i / 255)) gamma \<le> 1"
  shows "uint (gamma_entry powf gamma i) = trunc (f32 (f32 (powf (f32 (of_nat i / 255)) gamma * 255) + 1 / 2))"
proof -
  let ?v = "powf (f32 (of_nat i / 255)) gamma"
  have a: "0 \<le> f32 (?v * 255)" "f32 (?v * 255) \<le> 255"
    using f32_ge_int [of 0 "?v * 255"] f32_le_int [of "?v * 255" 255] assms by simp_all
  have b: "f32 (f32 (?v * 255) + 1 / 2) \<le> 255 + 1 / 2"
  proof -
    have "f32 (f32 (?v * 255) + 1 / 2) \<le> f32 (of_int 1022 / 4)" using a by (intro f32_mono) simp
    also have "\<dots> = of_int 1022 / 4" by (rule f32_int_quarter) simp
    finally show ?thesis by simp
  qed
  have c: "0 \<le> f32 (f32 (?v * 255) + 1 / 2)" using f32_ge_int [of 0 "f32 (?v * 255) + 1 / 2"] a by simp
  have "trunc (f32 (f32 (?v * 255) + 1 / 2)) \<le> trunc (255 + 1 / 2)" by (rule trunc_mono [OF b])
  also have "trunc (255 + 1 / 2) = 255" by (simp add: trunc_def floor_rat_numeral)
  finally show ?thesis unfolding gamma_entry_def using trunc_nonneg [OF c] by (intro uint_8) auto
qed

lemma applyGamma_filled:
  assumes len: "width * height * 3 \<le> length rgb"
  shows "filled rgb (applyGamma powf width height gamma rgb) {0..<1 * (width * height * 3)}
      (\<lambda>k. gamma_lut powf gamma ! unat (rgb ! k))"
  unfolding applyGamma_def Let_def
proof (rule inplace_filled)
  fix i s assume "i < width * height * 3" and s: "filled rgb s {0..<1 * i} (\<lambda>k. gamma_lut powf gamma ! unat (rgb ! k))"
  then have "s ! i = rgb ! i" using filled_untouched [OF s, of i] len by simp
  then show "filled s (s[i := gamma_lut powf gamma ! unat (s ! i)]) {1 * i..<1 * (i + 1)} (\<lambda>k. gamma_lut powf gamma ! unat (rgb ! k))"
    by (auto intro: filled_set [OF filled_update])
qed

lemma applyGamma_nth:
  assumes len: "width * height * 3 \<le> length rgb" and "k < width * height * 3"
  shows "applyGamma powf width height gamma rgb ! k = gamma_lut powf gamma ! unat (rgb ! k)"
  using filled_nth [OF applyGamma_filled [OF len], of k powf gamma] assms by simp

text \<open>
  The gamma table is monotone, maps 0 to 0 and 255 to 255, provided the C library's \<open>powf\<close> is
  monotone in its first argument with \<open>powf 0 g = 0\<close> and \<open>powf 1 g = 1\<close>; \<open>applyGamma\<close> sends every byte
  of the image through that table.
\<close>

theorem gamma_table_monotone:
  assumes mono: "\<And>x y. 0 \<le> x \<Longrightarrow> x \<le> y \<Longrightarrow> powf x gamma \<le> powf y gamma"
    and ends: "powf 0 gamma = 0" "powf 1 gamma = 1"
    and len: "width * height * 3 \<le> length rgb"
  shows "(\<forall>i j. i \<le> j \<and> j < 256 \<longrightarrow> uint (gamma_lut powf gamma ! i) \<le> uint (gamma_lut powf gamma ! j)) \<and>
    uint (gamma_lut powf gamma ! 0) = 0 \<and> uint (gamma_lut powf gamma ! 255) = 255 \<and>
    (\<forall>k<width * height * 3. applyGamma powf width height gamma rgb ! k = gamma_lut powf gamma ! unat (rgb ! k))"
proof -
  let ?x = "\<lambda>i. f32 (of_nat i / 255)"
  have x0: "0 \<le> ?x i" for i using f32_ge_int [of 0 "of_nat i / 255"] by simp
  have x1: "?x i \<le> 1" if "i < 256" for i
    using f32_le_int [of "of_nat i / 255" 1] that by (simp add: divide_le_eq)
  have x255: "?x 255 = 1" "?x 0 = 0" using f32_int [of 1] by (simp_all add: f32_zero)
  have r: "0 \<le> powf (?x i) gamma" "powf (?x i) gamma \<le> 1" if "i < 256" for i
    using mono [of 0 "?x i"] mono [of "?x i" 1] x0 x1 [OF that] ends by auto
  have v: "uint (gamma_lut powf gamma ! i) = trunc (f32 (f32 (powf (?x i) gamma * 255) + 1 / 2))" if "i < 256" for i
    using that gamma_entry_value [of powf i gamma] r [OF that] by (simp add: gamma_lut_def)
  have m: "uint (gamma_lut powf gamma ! i) \<le> uint (gamma_lut powf gamma ! j)" if "i \<le> j" "j < 256" for i j
  proof -
    have "?x i \<le> ?x j" using that by (intro f32_mono) (simp add: divide_right_mono)
    then have "powf (?x i) gamma \<le> powf (?x j) gamma" using mono x0 by blast
    then show ?thesis using that by (simp add: v) (intro trunc_mono f32_mono; simp add: f32_mono)
  qed
  have z: "f32 (1 / 2) = 1 / 2" "f32 (255 + 1 / 2) = 255 + 1 / 2" "f32 (511 / 2) = 511 / 2"
    using f32_int_quarter [of 2] f32_int_quarter [of 1022] by simp_all
  have e0: "uint (gamma_lut powf gamma ! 0) = 0"
    using v [of 0] by (simp add: x255 ends f32_zero z trunc_def floor_eq_iff)
  have e1: "uint (gamma_lut powf gamma ! 255) = 255"
    using v [of 255] f32_int [of 255] f32_int [of 1] by (simp add: x255 ends z trunc_def floor_rat_numeral)
  have "applyGamma powf width height gamma rgb ! k = gamma_lut powf gamma ! unat (rgb ! k)" if "k < width * height * 3" for k
    using len that by (rule applyGamma_nth)
  then show ?thesis using m e0 e1 by blast
qed

theorem gamma_table_monotone_witness:
  "uint (gamma_lut (\<lambda>x g. x) 1 ! 255) = 255 \<and> applyGamma (\<lambda>x g. x) 1 1 1 [5, 6, 7] ! 0 = gamma_lut (\<lambda>x g. x) 1 ! unat (5 :: byte)"
  using gamma_table_monotone [of "\<lambda>x g. x" 1 1 1 "[5, 6, 7]"] by fastforce

section \<open>Vertical flip\<close>

definition swap_rows :: "nat \<Rightarrow> nat \<Rightarrow> nat \<Rightarrow> byte list \<Rightarrow> byte list" where
  "swap_rows R h y buf =
     write_at (write_at buf (y * R) (take R (drop ((h - 1 - y) * R) buf))) ((h - 1 - y) * R) (take R (drop (y * R) buf))"

lemma length_swap_rows [simp]: "length (swap_rows R h y buf) = length buf"
  by (simp add: swap_rows_def)

lemma row_fits: "y < h \<Longrightarrow> h * R \<le> n \<Longrightarrow> y * R + R \<le> (n :: nat)"
  using mult_le_mono1 [of "Suc y" h R] by simp

lemma row_disjoint: "y \<noteq> z \<Longrightarrow> j < R \<Longrightarrow> \<not> (z * R \<le> y * R + j \<and> y * R + j < z * R + R)" for y z j R :: nat
proof
  assume a: "y \<noteq> z" "j < R" "z * R \<le> y * R + j \<and> y * R + j < z * R + R"
  then have "(y * R + j) div R = z" by (intro div_nat_eqI) (auto simp: algebra_simps)
  then show False using a by simp
qed

lemma swap_rows_nth:
  assumes "h * R \<le> length buf" "y < h" "z < h" "j < R" "2 * y < h"
  shows "swap_rows R h y buf ! (z * R + j) =
    buf ! ((if z = y then h - 1 - y else if z = h - 1 - y then y else z) * R + j)"
proof -
  let ?b = "h - 1 - y"
  have "?b < h" using assms by simp
  note fit = row_fits [OF assms(2) assms(1)] row_fits [OF assms(3) assms(1)] row_fits [OF \<open>?b < h\<close> assms(1)]
  have k: "z * R + j < length buf" using fit(2) assms(4) by linarith
  have lens: "length (take R (drop (?b * R) buf)) = R" "length (take R (drop (y * R) buf)) = R" using fit by simp_all
  have inner: "write_at buf (y * R) (take R (drop (?b * R) buf)) ! (z * R + j) =
      (if z = y then buf ! (?b * R + j) else buf ! (z * R + j))"
    using row_disjoint [of z y j R] k assms(4) fit lens by (auto simp: nth_write_at)
  show ?thesis unfolding swap_rows_def
    using row_disjoint [of z ?b j R] k assms fit lens inner by (auto simp: nth_write_at)
qed

lemma flip_rows:
  assumes "h * R \<le> length buf" "n \<le> h div 2" "z < h" "j < R"
  shows "fold (swap_rows R h) [0..<n] buf ! (z * R + j) =
    buf ! ((if z < n \<or> h - 1 - z < n then h - 1 - z else z) * R + j)"
  using assms(2-4)
proof (induction n arbitrary: z)
  case (Suc n)
  let ?s = "fold (swap_rows R h) [0..<n] buf"
  have len: "length ?s = length buf" by (rule fold_invariant [where Q = "\<lambda>_. True"]) auto
  have n: "n < h" "2 * n < h" "n \<le> h div 2" "h - 1 - n < h" using Suc.prems by auto
  have "fold (swap_rows R h) [0..<Suc n] buf ! (z * R + j) =
      ?s ! ((if z = n then h - 1 - n else if z = h - 1 - n then n else z) * R + j)"
    using swap_rows_nth [of h R ?s n z j] len assms(1) n Suc.prems by simp
  moreover have "(if z = n then h - 1 - n else if z = h - 1 - n then n else z) < h" using n Suc.prems by simp
  ultimately show ?case
    using Suc.IH [OF n(3), of "if z = n then h - 1 - n else if z = h - 1 - n then n else z"] Suc.prems n
    by (auto split: if_splits)
qed simp

lemma flipVertical_swaps: "flipVertical w h bpp b = fold (swap_rows (w * bpp) h) [0..<h div 2] b"
  by (simp only: flipVertical_def Let_def for_loop_1 swap_rows_def [abs_def])

lemma length_flipVertical [simp]: "length (flipVertical w h bpp b) = length b"
  unfolding flipVertical_swaps by (rule fold_invariant [where Q = "\<lambda>_. True"]) auto

lemma flipVertical_nth:
  assumes "h * (w * bpp) \<le> length b" "z < h" "j < w * bpp"
  shows "flipVertical w h bpp b ! (z * (w * bpp) + j) = b ! ((h - 1 - z) * (w * bpp) + j)"
proof -
  have "(if z < h div 2 \<or> h - 1 - z < h div 2 then h - 1 - z else z) = h - 1 - z" using assms by auto
  then show ?thesis using flip_rows [OF assms(1) le_refl assms(2,3)] unfolding flipVertical_swaps by simp
qed

text \<open>
  \<open>flipVertical\<close> reverses the order of the rows of an image in place, for odd heights too, and
  applying it twice gives the image back.
\<close>

theorem flipVertical_reverses_rows:
  assumes len: "h * (w * bpp) \<le> length buf" and y: "y < h" "j < w * bpp"
  shows "flipVertical w h bpp buf ! (y * (w * bpp) + j) = buf ! ((h - 1 - y) * (w * bpp) + j) \<and>
    flipVertical w h bpp (flipVertical w h bpp buf) ! (y * (w * bpp) + j) = buf ! (y * (w * bpp) + j) \<and>
    length (flipVertical w h bpp buf) = length buf"
  using flipVertical_nth [OF len y] flipVertical_nth [of h w bpp "flipVertical w h bpp buf" y j]
    flipVertical_nth [OF len, of "h - 1 - y" j] len y by simp

theorem flipVertical_reverses_rows_witness:
  "flipVertical 1 3 4 [1, 1, 1, 1, 2, 2, 2, 2, 3, 3, 3, 3] ! 0 = 3"
  using flipVertical_reverses_rows [of 3 1 4 "[1, 1, 1, 1, 2, 2, 2, 2, 3, 3, 3, 3]" 0 0] by simp

section \<open>The unrolled gradient sum\<close>

lemma fold_sum: "fold (\<lambda>x t. t + g x) xs (t :: int) = t + sum_list (map g xs)"
  by (induction xs arbitrary: t) auto

definition row_grad :: "byte list \<Rightarrow> nat \<Rightarrow> nat \<Rightarrow> int" where
  "row_grad rgb row x = grad rgb (row + (x + 1) * 3 + 1) (row + (x - 1) * 3 + 1)"

lemma upt_8: "[x..<x + 8] = [x, x + 1, x + 2, x + 3, x + 4, x + 5, x + 6, x + 7]"
  by (simp add: upt_rec)

lemma sobel_chunks_sum:
  "1 \<le> x \<Longrightarrow> x \<le> w - 1 \<Longrightarrow> \<exists>e. sobel_chunks rgb row w x t = (e, t + sum_list (map (row_grad rgb row) [x..<e])) \<and> x \<le> e \<and> e \<le> w - 1"
proof (induction rgb row w x t rule: sobel_chunks.induct)
  case (1 rgb row w x t)
  show ?case
  proof (cases "x + 8 < w - 1")
    case False
    then show ?thesis using 1 by (subst sobel_chunks.simps) auto
  next
    case True
    let ?S = "sum_list (map (row_grad rgb row) [x..<x + 8])"
    have e: "sobel_chunks rgb row w x t = sobel_chunks rgb row w (x + 8) (t + ?S)"
      using True "1.prems" by (subst sobel_chunks.simps) (simp add: upt_8 row_grad_def add.assoc)
    have S: "grad rgb (row + (x + 1) * 3 + 1) (row + (x - 1) * 3 + 1) +
        grad rgb (row + (x + 2) * 3 + 1) (row + (x + 0) * 3 + 1) +
        grad rgb (row + (x + 3) * 3 + 1) (row + (x + 1) * 3 + 1) +
        grad rgb (row + (x + 4) * 3 + 1) (row + (x + 2) * 3 + 1) +
        grad rgb (row + (x + 5) * 3 + 1) (row + (x + 3) * 3 + 1) +
        grad rgb (row + (x + 6) * 3 + 1) (row + (x + 4) * 3 + 1) +
        grad rgb (row + (x + 7) * 3 + 1) (row + (x + 5) * 3 + 1) +
        grad rgb (row + (x + 8) * 3 + 1) (row + (x + 6) * 3 + 1) = ?S"
      using "1.prems" by (simp add: upt_8 row_grad_def)
    obtain e' where e': "sobel_chunks rgb row w (x + 8) (t + ?S) =
        (e', t + ?S + sum_list (map (row_grad rgb row) [x + 8..<e']))" "x + 8 \<le> e'" "e' \<le> w - 1"
      using "1.IH" [OF True] 1 True unfolding S by auto
    have "[x..<e'] = [x..<x + 8] @ [x + 8..<e']" using e'(2) by (metis le_add1 upt_add_eq_append le_Suc_ex)
    then show ?thesis using e e' by auto
  qed
qed

text \<open>
  The 8-wide unrolled gradient sum \<open>sobelEnergyNw\<close> equals the plain \<open>sobelEnergy\<close> for every image
  and every size, and both are non-negative.
\<close>

theorem sobelEnergyNw_eq: "sobelEnergyNw rgb w h = sobelEnergy rgb w h \<and> 0 \<le> sobelEnergy rgb w h"
proof (cases rgb)
  case None
  then show ?thesis by (simp add: sobelEnergyNw_def sobelEnergy_def)
next
  case (Some buf)
  show ?thesis
  proof (cases "w < 3 \<or> h < 3")
    case True
    then show ?thesis using Some by (auto simp: sobelEnergyNw_def sobelEnergy_def)
  next
    case False
    let ?R = "\<lambda>y. sum_list (map (row_grad buf (y * (w * 3))) [1..<w - 1])"
    have plain: "(let row = y * (w * 3) in for_loop 1 (w - 1) 1 (\<lambda>x t. t + grad buf (row + (x + 1) * 3 + 1) (row + (x - 1) * 3 + 1)))
        = (\<lambda>t. t + ?R y)" for y
      unfolding for_loop_1 using fold_sum [of "row_grad buf (y * (w * 3))"] by (simp add: row_grad_def fun_eq_iff Let_def)
    have wide: "(let row = y * (w * 3); (x, t) = sobel_chunks buf row w 1 t
        in for_loop 1 (w - 1) x (\<lambda>x t. t + grad buf (row + (x + 1) * 3 + 1) (row + (x - 1) * 3 + 1)) t) = t + ?R y" for y t
    proof -
      have w1: "1 \<le> w - 1" using False by linarith
      obtain e where e: "sobel_chunks buf (y * (w * 3)) w 1 t = (e, t + sum_list (map (row_grad buf (y * (w * 3))) [1..<e]))"
          "1 \<le> e" "e \<le> w - 1"
        using sobel_chunks_sum [of 1 w buf "y * (w * 3)" t] w1 by auto
      have "[1..<w - 1] = [1..<e] @ [e..<w - 1]" using e by (metis upt_add_eq_append le_Suc_ex)
      then show ?thesis using fold_sum [of "row_grad buf (y * (w * 3))" "[e..<w - 1]"] e(1)
        unfolding for_loop_1 by (simp add: row_grad_def Let_def)
    qed
    have nw: "sobelEnergyNw rgb w h = for_loop 1 (h - 1) 1 (\<lambda>y t. t + ?R y) 0"
      unfolding sobelEnergyNw_def Some option.case wide using False by (simp only: if_False)
    have s: "sobelEnergy rgb w h = for_loop 1 (h - 1) 1 (\<lambda>y t. t + ?R y) 0"
      unfolding sobelEnergy_def Some option.case plain using False by (simp only: if_False)
    have "0 \<le> g" if "g \<in> set (map (row_grad buf r) xs)" for g r xs
      using that by (auto simp: row_grad_def grad_def)
    then have R: "0 \<le> ?R y" for y by (intro sum_list_nonneg) blast
    have "0 \<le> fold (\<lambda>y t. t + f y) ys t" if "0 \<le> t" "\<And>y. 0 \<le> f y" for ys and f :: "nat \<Rightarrow> int" and t
      unfolding fold_sum using that by (intro add_nonneg_nonneg sum_list_nonneg) auto
    from this [of 0 ?R, OF _ R] show ?thesis unfolding nw s for_loop_1 by blast
  qed
qed

end
