(* ===== verification/Capture.thy ===== *)
theory Capture
  imports Auto_Control Pipeline_Resources
begin

text \<open>
  \<open>camera/CameraPipeline.cpp\<close>, the methods that take a frame: \<open>captureFrame\<close> with its poll and retry
  loop, \<open>processBayerToYuv\<close>, \<open>captureForAf\<close>, the contrast autofocus scan and \<open>afAgeMs\<close>; then the life
  cycle of the whole object as a step relation over all of its public methods. Log output is left out.
\<close>

section \<open>From the raw frame to the output buffer\<close>

definition HAL_PIXEL_FORMAT_RGBA_8888 :: u32 where "HAL_PIXEL_FORMAT_RGBA_8888 = 0x1"
definition HAL_PIXEL_FORMAT_IMPLEMENTATION_DEFINED :: u32 where "HAL_PIXEL_FORMAT_IMPLEMENTATION_DEFINED = 0x22"
definition HAL_PIXEL_FORMAT_YCBCR_420_888 :: u32 where "HAL_PIXEL_FORMAT_YCBCR_420_888 = 0x23"

definition isp_gain :: "CameraPipeline \<Rightarrow> nat \<Rightarrow> rat" where
  "isp_gain p i =
     f32 ((if cfg_enableAWB (mConfig p) then mAwbGains p ! i else cfg_wbGain (mConfig p) ! i) * cfg_digitalGain (mConfig p))"

text \<open>The luma plane starts the output buffer and the chroma plane follows it in the same memory: the luma
  loop runs over the whole buffer first, the chroma loop over its tail.\<close>

definition write_nv12 :: "ColorConvNEON \<Rightarrow> byte list option \<Rightarrow> nat \<Rightarrow> byte list \<Rightarrow> byte list" where
  "write_nv12 c rgb n out =
     (let out = (case rgbToNv12 c rgb (Some out) (Some (drop n out)) of (Some ys, _) \<Rightarrow> ys | _ \<Rightarrow> out)
      in take n out @ (case rgbToNv12 c rgb (Some out) (Some (drop n out)) of (_, Some uvs) \<Rightarrow> uvs | _ \<Rightarrow> drop n out))"

definition write_output ::
    "ColorConvNEON \<Rightarrow> PipelineConfig \<Rightarrow> u32 \<Rightarrow> byte list option \<Rightarrow> nat \<Rightarrow> byte list \<Rightarrow> byte list" where
  "write_output c config outputFormat rgb rgbSize out =
     (let w = cfg_width config; h = cfg_height config
      in if outputFormat = HAL_PIXEL_FORMAT_YCBCR_420_888 then write_nv12 c rgb (unat (w * h)) out
         else if outputFormat = HAL_PIXEL_FORMAT_RGBA_8888 \<or> outputFormat = HAL_PIXEL_FORMAT_IMPLEMENTATION_DEFINED
         then let out = (case rgbToRgba rgb (Some out) w h of Some o' \<Rightarrow> o' | None \<Rightarrow> out)
              in if cfg_flipV config then flipVertical (unat w) (unat h) 4 out else out
         else case rgb of Some src \<Rightarrow> write_at out 0 (take rgbSize src) | None \<Rightarrow> out)"

definition correct_colours :: "kernel \<Rightarrow> CameraPipeline \<Rightarrow> CameraPipeline" where
  "correct_colours K p =
     (let config = mConfig p; w = cfg_width config; h = cfg_height config
      in p\<lparr>mRgbBuffer := map_option
             (\<lambda>rgb. applyGamma (k_powf K) (unat w) (unat h) (cfg_gamma config)
                (applyWbAndCcm (cfg_ccm config) (nat (sint (w * h))) (isp_gain p 0) (isp_gain p 1) (isp_gain p 2) rgb))
             (mRgbBuffer p)\<rparr>)"

definition processBayerToYuv ::
    "kernel \<Rightarrow> byte list option \<Rightarrow> byte list option \<Rightarrow> u32 \<Rightarrow> CameraPipeline \<Rightarrow> int \<times> byte list option \<times> CameraPipeline" where
  "processBayerToYuv K bayerData output outputFormat p =
     (case (bayerData, output, mDemosaic p, mColorConv p) of
        (Some bayer, Some out, Some d, Some c) \<Rightarrow>
          let (rgb, d) = dm_process d (Some bayer) (mRgbBuffer p);
              p = p\<lparr>mRgbBuffer := rgb, mDemosaic := Some d\<rparr>;
              p = (if cfg_enableAE (mConfig p) then doAutoExposure K (mRgbBuffer p) p else p);
              p = (if cfg_enableAWB (mConfig p) then doAutoWhiteBalance (mRgbBuffer p) p else p);
              p = correct_colours K p
          in (0, Some (write_output c (mConfig p) outputFormat (mRgbBuffer p) (mRgbBufferSize p) out), p)
      | _ \<Rightarrow> (- EINVAL, output, p))"

section \<open>Taking a frame\<close>

text \<open>The poll loop: \<open>retry\<close> counts the timeouts so far.\<close>

function poll_frame :: "kernel \<Rightarrow> nat \<Rightarrow> CameraPipeline \<Rightarrow> int \<times> CameraPipeline" where
  "poll_frame K retry p =
     (case syscall K (Poll (mFd p) 300) p of
        (pollRet, p) \<Rightarrow>
          if pollRet < 0 then (pollRet, p)
          else if pollRet = 0 then if retry + 1 \<ge> 6 then (- EAGAIN, p) else poll_frame K (retry + 1) p
          else if \<not> k_revents K (p_log p) then (- EAGAIN, p)
          else (0, p))"
  by auto
termination poll_frame
  by (relation "measure (\<lambda>(K, retry, p). 6 - retry)") auto

declare poll_frame.simps [simp del]

definition frame_data :: "dqbuf_answer \<Rightarrow> CameraPipeline \<Rightarrow> byte list option" where
  "frame_data b p = (case vb_start (mBuffers p ! dq_index b) of None \<Rightarrow> None | Some _ \<Rightarrow> Some (dq_data b))"

definition convert_frame ::
    "kernel \<Rightarrow> dqbuf_answer \<Rightarrow> byte list \<Rightarrow> u32 \<Rightarrow> CameraPipeline \<Rightarrow> int \<times> byte list option \<times> CameraPipeline" where
  "convert_frame K b out outputFormat p =
     (if cfg_enableISP (mConfig p) \<and> mDemosaic p \<noteq> None \<and> mColorConv p \<noteq> None
      then processBayerToYuv K (frame_data b p) (Some out) outputFormat p
      else (0, Some (write_at out 0 (take (dq_bytesused b) (dq_data b))), p))"

definition captureFrame ::
    "kernel \<Rightarrow> byte list option \<Rightarrow> u32 \<Rightarrow> CameraPipeline \<Rightarrow> int \<times> byte list option \<times> CameraPipeline" where
  "captureFrame K outputBuffer outputFormat p =
     (case outputBuffer of
        None \<Rightarrow> (- EINVAL, None, p)
      | Some out \<Rightarrow>
          if mState p \<noteq> PIPELINE_STREAMING then (- EINVAL, Some out, p)
          else
            let (r, p) = poll_frame K 0 p
            in if r < 0 then (r, Some out, p)
               else
                 let (r, p) = syscall K (DQBuf (mFd p)) p; b = k_dqbuf K (p_log p)
                 in if r < 0 then (r, Some out, p)
                    else
                      let p = record_timestamp K b p
                      in if dq_index b \<ge> mBufferCount p then (- EINVAL, Some out, p)
                         else
                           let (ret, out, p) = convert_frame K b out outputFormat p;
                               (r, p) = syscall K (QBuf (mFd p) (dq_index b)) p
                           in if r < 0 then (r, out, p) else (ret, out, p))"

section \<open>Autofocus\<close>

definition af_energy :: "dqbuf_answer \<Rightarrow> CameraPipeline \<Rightarrow> int \<times> CameraPipeline" where
  "af_energy b p =
     (case mDemosaic p of
        Some d \<Rightarrow>
          if cfg_enableISP (mConfig p)
          then let (rgb, d) = dm_process d (frame_data b p) (mRgbBuffer p);
                   p = p\<lparr>mRgbBuffer := rgb, mDemosaic := Some d\<rparr>
               in (afSharpness (mRgbBuffer p) (unat (cfg_width (mConfig p))) (unat (cfg_height (mConfig p))), p)
          else (0, p)
      | None \<Rightarrow> (0, p))"

definition captureForAf :: "kernel \<Rightarrow> CameraPipeline \<Rightarrow> int \<times> CameraPipeline" where
  "captureForAf K p =
     (if mState p \<noteq> PIPELINE_STREAMING then (- EINVAL, p)
      else
        let (pollRet, p) = syscall K (Poll (mFd p) 500) p
        in if pollRet \<le> 0 then (- EAGAIN, p)
           else if \<not> k_revents K (p_log p) then (- EAGAIN, p)
           else
             let (r, p) = syscall K (DQBuf (mFd p)) p; b = k_dqbuf K (p_log p)
             in if r < 0 then (r, p)
                else if dq_index b \<ge> mBufferCount p then (- EINVAL, p)
                else
                  let (energy, p) = af_energy b p;
                      (r, p) = syscall K (QBuf (mFd p) (dq_index b)) p
                  in if r < 0 then (r, p) else (energy, p))"

text \<open>The local variables of the scan.\<close>

record af_scan =
  bestEnergy :: int
  bestPos :: int
  energies :: "int list"
  fails :: nat

definition settle :: "kernel \<Rightarrow> int \<Rightarrow> CameraPipeline \<Rightarrow> CameraPipeline" where
  "settle K pos p = issue (Usleep 60000) (snd (setFocus K pos p))"

definition note_energy :: "int \<Rightarrow> int \<Rightarrow> af_scan \<Rightarrow> af_scan" where
  "note_energy pos energy s =
     (let s = s\<lparr>fails := 0, energies := (if length (energies s) < 40 then energies s @ [energy] else energies s)\<rparr>
      in if energy > bestEnergy s then s\<lparr>bestEnergy := energy, bestPos := pos\<rparr> else s)"

text \<open>Both sweeps: the fine one skips the position that is the best so far.\<close>

fun af_sweep :: "kernel \<Rightarrow> bool \<Rightarrow> int list \<Rightarrow> af_scan \<Rightarrow> CameraPipeline \<Rightarrow> af_scan \<times> CameraPipeline" where
  "af_sweep K fine [] s p = (s, p)"
| "af_sweep K fine (pos # rest) s p =
     (if fine \<and> pos = bestPos s then af_sweep K fine rest s p
      else
        case captureForAf K (settle K pos p) of
          (energy, p) \<Rightarrow>
            if energy \<le> 0 then
              let s = s\<lparr>fails := fails s + 1\<rparr>
              in if fails s \<ge> 4 then (s, p) else af_sweep K fine rest s p
            else af_sweep K fine rest (note_energy pos energy s) p)"

definition positions :: "int \<Rightarrow> int \<Rightarrow> int \<Rightarrow> int list" where
  "positions lo hi step = map (\<lambda>i. lo + int i * step) [0..<nat ((hi - lo) div step + 1)]"

definition fine_positions :: "int \<Rightarrow> int list" where
  "fine_positions best =
     (let fineStart = (if best - 50 < 140 then 140 else best - 50);
          fineEnd = (if best + 50 > 640 then 640 else best + 50)
      in positions fineStart fineEnd 10)"

text \<open>The insertion sort of the energies: \<open>v\<close> moves down from position \<open>k\<close> while larger values move up.\<close>

fun shift_in :: "int list \<Rightarrow> int \<Rightarrow> nat \<Rightarrow> int list" where
  "shift_in xs v 0 = xs[0 := v]"
| "shift_in xs v (Suc j) = (if xs ! j > v then shift_in (xs[Suc j := xs ! j]) v j else xs[Suc j := v])"

definition sort_energies :: "int list \<Rightarrow> int list" where
  "sort_energies xs = fold (\<lambda>i xs. shift_in xs (xs ! i) i) [1..<length xs] xs"

definition conclude_scan :: "kernel \<Rightarrow> af_scan \<Rightarrow> CameraPipeline \<Rightarrow> CameraPipeline" where
  "conclude_scan K s p =
     (if bestEnergy s > 0 \<and> length (energies s) \<ge> 5 then
        let median = sort_energies (energies s) ! (length (energies s) div 2)
        in if bestEnergy s \<ge> median + median sdiv 3 then (settle K (bestPos s) p)\<lparr>mAfState := 2\<rparr>
           else if mAfState p \<noteq> 2 then p\<lparr>mAfState := 3\<rparr> else p
      else if bestEnergy s > 0 then (settle K (bestPos s) p)\<lparr>mAfState := 2\<rparr>
      else p\<lparr>mAfState := 3\<rparr>)"

text \<open>The coarse sweep over the working range, then the fine one around the best position.\<close>

definition af_sweeps :: "kernel \<Rightarrow> CameraPipeline \<Rightarrow> af_scan \<times> CameraPipeline" where
  "af_sweeps K p =
     (let s = \<lparr>bestEnergy = 0, bestPos = 400, energies = [], fails = 0\<rparr>;
          (s, p) = af_sweep K False (positions 140 640 50) s p
      in af_sweep K True (fine_positions (bestPos s)) s p)"

definition startAfScan :: "kernel \<Rightarrow> CameraPipeline \<Rightarrow> CameraPipeline" where
  "startAfScan K p =
     (if mState p \<noteq> PIPELINE_STREAMING then p\<lparr>mAfState := 0\<rparr>
      else
        let (s, p) = af_sweeps K (p\<lparr>mAfState := 1\<rparr>);
            p = issue ClockMonotonic p;
            p = p\<lparr>mAfLastScanNs := k_time K (p_log p)\<rparr>
        in conclude_scan K s p)"

definition cancelAf :: "CameraPipeline \<Rightarrow> CameraPipeline" where
  "cancelAf p = p\<lparr>mAfState := 0\<rparr>"

definition afAgeMs :: "kernel \<Rightarrow> CameraPipeline \<Rightarrow> int \<times> CameraPipeline" where
  "afAgeMs K p =
     (if mAfLastScanNs p = 0 then (0x7fffffffffffffff, p)
      else let p = issue ClockMonotonic p; age = (k_time K (p_log p) - mAfLastScanNs p) sdiv 1000000
           in (if age > 0 then age else 0, p))"

section \<open>None of these methods opens or closes anything\<close>

text \<open>Stronger than \<open>quiet\<close>: the only requests are control settings.\<close>

fun is_SetCtrl :: "sys \<Rightarrow> bool" where
  "is_SetCtrl (SetCtrl _ _ _) = True"
| "is_SetCtrl _ = False"

definition adjusts :: "CameraPipeline \<Rightarrow> CameraPipeline \<Rightarrow> bool" where
  "adjusts p p' \<longleftrightarrow> quiet p p' \<and> (\<exists>rs. p_log p' = rs @ p_log p \<and> (\<forall>r\<in>set rs. is_SetCtrl r))"

lemma adjusts_refl [simp, intro]: "adjusts p p"
  by (simp add: adjusts_def)

lemma adjusts_trans: "adjusts p q \<Longrightarrow> adjusts q r \<Longrightarrow> adjusts p r"
  unfolding adjusts_def using quiet_trans [of p q r]
  by (elim conjE exE, intro conjI exI [of _ "rs @ rs'" for rs rs']) auto

lemma adjusts_same:
  "p_log p' = p_log p \<Longrightarrow> mFd p' = mFd p \<Longrightarrow> mSensorFd p' = mSensorFd p \<Longrightarrow> mBuffers p' = mBuffers p \<Longrightarrow>
   mBufferCount p' = mBufferCount p \<Longrightarrow> mState p' = mState p \<Longrightarrow> mStreaming p' = mStreaming p \<Longrightarrow>
   mCameraId p' = mCameraId p \<Longrightarrow> adjusts p p'"
  by (simp add: adjusts_def quiet_same)

lemma adjusts_setExposure: "adjusts p (snd (setExposure K e p))"
  unfolding adjusts_def using quiet_setExposure by (simp add: setExposure_def syscall_def issue_def Let_def)

lemma adjusts_setGain: "adjusts p (snd (setGain K g p))"
  unfolding adjusts_def using quiet_setGain by (simp add: setGain_def syscall_def issue_def Let_def)

lemma adjusts_quiet: "adjusts p q \<Longrightarrow> quiet p q"
  by (simp add: adjusts_def)

lemma adjusts_queued:
  assumes "adjusts p q"
  shows "queued K (p_log q) i = queued K (p_log p) i"
proof -
  have "queued K (rs @ l) i = queued K l i" if "\<forall>r\<in>set rs. is_SetCtrl r" for rs l
    using that by (induction rs) (auto elim: is_SetCtrl.elims)
  then show ?thesis using assms by (auto simp: adjusts_def)
qed

lemma adjusts_snap_current: "adjusts p (snap_current K p)"
proof -
  have step: "adjusts p (p\<lparr>mExposureStepLines := s\<rparr>)" for s by (simp add: adjusts_same)
  consider "snap_current K p = p" | s where "snap_current K p = p\<lparr>mExposureStepLines := s\<rparr>"
    | s q where "snap_current K p = snd (setExposure K q (p\<lparr>mExposureStepLines := s\<rparr>))"
    using snap_current_cases [of K p] by blast
  then show ?thesis
  proof cases
    case 1
    show ?thesis unfolding 1 by (rule adjusts_refl)
  next
    case 2
    show ?thesis unfolding 2 by (rule step)
  next
    case 3
    show ?thesis unfolding 3 by (rule adjusts_trans [OF step adjusts_setExposure])
  qed
qed

lemma adjusts_record_timestamp: "adjusts p (record_timestamp K b p)"
proof -
  have fp: "adjusts q (freeze_period q)" for q by (simp add: adjusts_same freeze_period_def Let_def)
  have ft: "adjusts q (freeze_timing K q)" for q
    unfolding freeze_timing_def by (rule adjusts_trans [OF fp adjusts_snap_current])
  have step: "adjusts p (p\<lparr>mPrevFrameTsNs := t\<rparr>)" "adjusts p (p\<lparr>mPrevFrameTsNs := t, mTsDeltas := ds, mDeltaCount := n\<rparr>)" for t ds n
    by (simp_all add: adjusts_same)
  show ?thesis unfolding record_timestamp_def Let_def
    by (simp add: step adjusts_trans [OF step(1) ft] adjusts_trans [OF step(2) ft])
qed

lemma adjusts_ae: "adjusts p (doAutoExposure K rgb p)"
proof -
  have hold: "adjusts p (p\<lparr>mAeHoldFrames := n\<rparr>)" for p n by (simp add: adjusts_same)
  have ap: "adjusts p (ae_apply K eg p)" for p eg
    unfolding ae_apply_def Let_def
    by (cases eg) (auto intro: adjusts_trans [OF _ hold] adjusts_trans [OF adjusts_setGain adjusts_setExposure]
        adjusts_setGain adjusts_setExposure hold)
  obtain q ratio where q: "same_but_hold p q" "doAutoExposure K rgb p = q \<or> doAutoExposure K rgb p = ae_apply K (ae_request q ratio) q"
    using doAutoExposure_cases [of p K rgb] by auto
  have "adjusts p q" using q(1) hold by (auto simp: same_but_hold_def)
  then show ?thesis using q(2) adjusts_trans [OF _ ap] by (elim disjE) simp_all
qed

text \<open>No capture makes a gain of 0 out of another one, and neither starting the stream nor a scan does.\<close>

lemma timestamp_gain: "mCurrentGain (record_timestamp K b p) = mCurrentGain p"
proof -
  have "mCurrentGain (snap_current K q) = mCurrentGain q" for q
    using snap_current_cases [of K q] by (auto simp: setExposure_def syscall_def issue_def Let_def)
  then show ?thesis by (simp add: record_timestamp_def freeze_timing_def freeze_period_def Let_def)
qed

lemma convert_keeps_gain: "mCurrentGain p \<noteq> 0 \<Longrightarrow> mCurrentGain (snd (snd (convert_frame K b out fmt p))) \<noteq> 0"
proof -
  assume g: "mCurrentGain p \<noteq> 0"
  have awb: "mCurrentGain (doAutoWhiteBalance rgb q) = mCurrentGain q" for rgb q
    by (auto simp: doAutoWhiteBalance_def Let_def split: option.split prod.split)
  show ?thesis using g
    by (auto simp: convert_frame_def processBayerToYuv_def correct_colours_def awb Let_def auto_exposure_keeps_gain case_prod_unfold split: option.split)
qed

lemma poll_gain: "mCurrentGain (snd (poll_frame K retry p)) = mCurrentGain p"
proof (induction K retry p rule: poll_frame.induct)
  case (1 K retry p)
  then show ?case unfolding poll_frame.simps [of K retry p]
    by (auto simp: syscall_def issue_def Let_def)
qed

lemma captureFrame_keeps_gain: "captureFrame K out fmt p = (ret, out', p') \<Longrightarrow> mCurrentGain p \<noteq> 0 \<Longrightarrow> mCurrentGain p' \<noteq> 0"
proof (cases out)
  case (Some buf)
  assume run: "captureFrame K out fmt p = (ret, out', p')" and g: "mCurrentGain p \<noteq> 0"
  obtain r1 q1 where 1: "poll_frame K 0 p = (r1, q1)" by fastforce
  have g1: "mCurrentGain q1 \<noteq> 0" using poll_gain [of K 0 p] g 1 by simp
  obtain r2 q2 where 2: "syscall K (DQBuf (mFd q1)) q1 = (r2, q2)" by fastforce
  have g2: "mCurrentGain q2 \<noteq> 0" using g1 2 by (auto simp: syscall_def issue_def Let_def)
  define q3 where "q3 = record_timestamp K (k_dqbuf K (p_log q2)) q2"
  have g3: "mCurrentGain q3 \<noteq> 0" using g2 by (simp add: q3_def timestamp_gain)
  obtain r4 o4 q4 where 4: "convert_frame K (k_dqbuf K (p_log q2)) buf fmt q3 = (r4, o4, q4)" by (metis prod_cases3)
  have g4: "mCurrentGain q4 \<noteq> 0" using convert_keeps_gain [OF g3, of K "k_dqbuf K (p_log q2)" buf fmt] by (simp add: 4)
  show ?thesis using run g g1 g2 g3 g4 unfolding captureFrame_def Some option.case 1 2 Let_def prod.case q3_def [symmetric] 4
    by (auto simp: syscall_def issue_def Let_def split: if_splits)
qed (simp add: captureFrame_def)

lemma startStreaming_keeps_gain: "mCurrentGain p \<noteq> 0 \<Longrightarrow> mCurrentGain (snd (startStreaming K p)) \<noteq> 0"
proof -
  assume g: "mCurrentGain p \<noteq> 0"
  have "mCurrentGain (snd (queue_buffers K i q)) = mCurrentGain q" for i q
    by (induction K i q rule: queue_buffers.induct) (auto simp: queue_buffers.simps syscall_def issue_def Let_def split: prod.splits)
  moreover have "mCurrentGain (snd (setExposure K e q)) = mCurrentGain q" for e q
    by (simp add: setExposure_def syscall_def issue_def Let_def)
  moreover have "mCurrentGain q \<noteq> 0 \<Longrightarrow> mCurrentGain (snd (setGain K 60 q)) \<noteq> 0" for q
    by (simp add: setGain_def syscall_def issue_def Let_def)
  ultimately show ?thesis using g
    by (auto simp: startStreaming_def Let_def case_prod_unfold syscall_def issue_def)
qed

lemma startAfScan_gain: "mCurrentGain (startAfScan K p) = mCurrentGain p"
proof -
  have settle: "mCurrentGain (settle K pos q) = mCurrentGain q" for K pos q
    by (simp add: settle_def setFocus_def syscall_def issue_def Let_def)
  have capture: "mCurrentGain (snd (captureForAf K q)) = mCurrentGain q" for K q
    by (auto simp: captureForAf_def af_energy_def syscall_def issue_def Let_def case_prod_unfold split: option.split)
  have sweep: "mCurrentGain (snd (af_sweep K fine ps s q)) = mCurrentGain q" for fine ps s q
  proof (induction K fine ps s q rule: af_sweep.induct)
    case (2 K fine pos rest s p)
    obtain e q where q: "captureForAf K (settle K pos p) = (e, q)" by fastforce
    have g: "mCurrentGain q = mCurrentGain p" using capture [of K "settle K pos p"] settle [of K pos p] by (simp add: q)
    show ?case
    proof (cases "fine \<and> pos = bestPos s")
      case True
      then show ?thesis using 2(1) by simp
    next
      case False
      then show ?thesis using 2(2) [OF False q [symmetric] _ refl] 2(3) [OF False q [symmetric]] g unfolding af_sweep.simps(2) if_not_P [OF False] by (simp add: q Let_def)
    qed
  qed simp
  show ?thesis
    by (auto simp: startAfScan_def af_sweeps_def conclude_scan_def settle sweep issue_def Let_def case_prod_unfold)
qed

lemma adjusts_awb: "adjusts p (doAutoWhiteBalance rgb p)"
  by (auto simp: doAutoWhiteBalance_def Let_def adjusts_same split: option.split prod.split)

lemma adjusts_isp_state: "adjusts p (p\<lparr>mRgbBuffer := rgb, mDemosaic := d\<rparr>)" "adjusts p (correct_colours K p)"
  "adjusts p (p\<lparr>mAfState := n\<rparr>)" "adjusts p (p\<lparr>mAfLastScanNs := t\<rparr>)"
  by (simp_all add: adjusts_same correct_colours_def Let_def)

lemma adjusts_if: "(\<And>q. adjusts q (f q)) \<Longrightarrow> adjusts p q \<Longrightarrow> adjusts p (if b then f q else q)"
  using adjusts_trans by fastforce

lemma adjusts_processBayerToYuv: "adjusts p (snd (snd (processBayerToYuv K bayer out fmt p)))"
proof -
  have "adjusts p (snd (snd (let (rgb, d) = dm_process d x (mRgbBuffer p);
              p = p\<lparr>mRgbBuffer := rgb, mDemosaic := Some d\<rparr>;
              p = (if cfg_enableAE (mConfig p) then doAutoExposure K (mRgbBuffer p) p else p);
              p = (if cfg_enableAWB (mConfig p) then doAutoWhiteBalance (mRgbBuffer p) p else p);
              p = correct_colours K p
          in (0 :: int, Some (write_output c (mConfig p) fmt (mRgbBuffer p) (mRgbBufferSize p) o'), p))))" for d x c o'
    unfolding Let_def split_def snd_conv
    by (rule adjusts_trans [OF _ adjusts_isp_state(2)], rule adjusts_if [OF adjusts_awb], rule adjusts_if [OF adjusts_ae], rule adjusts_isp_state)
  then show ?thesis unfolding processBayerToYuv_def by (simp split: option.split)
qed

lemma adjusts_convert_frame: "adjusts p (snd (snd (convert_frame K b out fmt p)))"
  by (simp add: convert_frame_def adjusts_processBayerToYuv)

lemma quiet_syscall_snd: "neutral r \<Longrightarrow> quiet p (snd (syscall K r p))"
  by (simp add: syscall_def Let_def quiet_issue)

lemma quiet_poll_frame: "quiet p (snd (poll_frame K retry p))"
proof (induction K retry p rule: poll_frame.induct)
  case (1 K retry p)
  obtain r q where rq: "syscall K (Poll (mFd p) 300) p = (r, q)" by fastforce
  have q: "quiet p q" using quiet_syscall [OF _ rq] by simp
  show ?case
    using "1.IH" [OF rq [symmetric]] q quiet_trans [OF q]
    by (subst poll_frame.simps) (simp add: rq)
qed

section \<open>A captured frame goes back to the driver\<close>

text \<open>The calls of \<open>captureFrame\<close> while streaming, and where it stops.\<close>

lemma captureFrame_run:
  assumes st: "mState p = PIPELINE_STREAMING"
  obtains r1 p1 r2 p2 b p3 ret4 out4 p4 r5 p5 where "poll_frame K 0 p = (r1, p1)" "quiet p p1"
    "p_log p2 = DQBuf (mFd p1) # p_log p1" "r2 = k_ret K (p_log p2)" "b = k_dqbuf K (p_log p2)"
    "adjusts p2 p3" "adjusts p3 p4" "p_log p5 = QBuf (mFd p4) (dq_index b) # p_log p4" "r5 = k_ret K (p_log p5)"
    "quiet p p2" "quiet p p3" "quiet p p5"
    "captureFrame K (Some out) fmt p =
       (if r1 < 0 then (r1, Some out, p1) else if r2 < 0 then (r2, Some out, p2)
        else if mBufferCount p \<le> dq_index b then (- EINVAL, Some out, p3)
        else if r5 < 0 then (r5, out4, p5) else (ret4, out4, p5))"
proof -
  obtain r1 p1 where p1: "poll_frame K 0 p = (r1, p1)" by fastforce
  have q1: "quiet p p1" using quiet_poll_frame [of p K 0] by (simp add: p1)
  obtain r2 p2 where p2: "syscall K (DQBuf (mFd p1)) p1 = (r2, p2)" by fastforce
  have l2: "p_log p2 = DQBuf (mFd p1) # p_log p1" "r2 = k_ret K (p_log p2)" "quiet p1 p2"
    using p2 quiet_syscall [OF _ p2] by (auto simp: syscall_def issue_def Let_def)
  define b where "b = k_dqbuf K (p_log p2)"
  define p3 where "p3 = record_timestamp K b p2"
  have a3: "adjusts p2 p3" by (simp add: p3_def adjusts_record_timestamp)
  obtain ret4 out4 p4 where p4: "convert_frame K b out fmt p3 = (ret4, out4, p4)" by (metis prod_cases3)
  have a4: "adjusts p3 p4" using adjusts_convert_frame [of p3 K b out fmt] by (simp add: p4)
  obtain r5 p5 where p5: "syscall K (QBuf (mFd p4) (dq_index b)) p4 = (r5, p5)" by fastforce
  have l5: "p_log p5 = QBuf (mFd p4) (dq_index b) # p_log p4" "r5 = k_ret K (p_log p5)" "quiet p4 p5"
    using p5 quiet_syscall [OF _ p5] by (auto simp: syscall_def issue_def Let_def)
  have quiets: "quiet p p2" "quiet p p3" "quiet p p5"
    using q1 l2 l5 a3 a4 by (meson quiet_trans adjusts_quiet)+
  have n: "mBufferCount p3 = mBufferCount p" using quiets by (simp add: quiet_def)
  have "captureFrame K (Some out) fmt p =
      (if r1 < 0 then (r1, Some out, p1) else if r2 < 0 then (r2, Some out, p2)
       else if mBufferCount p \<le> dq_index b then (- EINVAL, Some out, p3)
       else if r5 < 0 then (r5, out4, p5) else (ret4, out4, p5))"
    unfolding captureFrame_def option.case using st
    by (simp add: p1 p2 b_def [symmetric] p3_def [symmetric] p4 p5 n)
  then show thesis using that p1 q1 l2(1,2) b_def a3 a4 l5(1,2) quiets by blast
qed

lemma captureFrame_steps:
  assumes "captureFrame K (Some out) fmt p = (ret, out', p')"
  obtains (idle) "ret < 0" "quiet p p'" "\<And>i. queued K (p_log p') i = queued K (p_log p) i"
  | (lost) b :: dqbuf_answer where "quiet p p'" "ret = - EINVAL" "mBufferCount p \<le> dq_index b"
      "\<And>i. queued K (p_log p') i = queued K (p_log p) i - (if i = dq_index b then 1 else 0)"
  | (kept) b :: dqbuf_answer where "quiet p p'" "ret < 0" "dq_index b < mBufferCount p"
      "\<And>i. queued K (p_log p') i = queued K (p_log p) i - (if i = dq_index b then 1 else 0)"
  | (balanced) "quiet p p'" "mState p = PIPELINE_STREAMING" "\<And>i. queued K (p_log p') i = queued K (p_log p) i"
proof -
  have polls: "queued K (p_log (snd (poll_frame K n q))) i = queued K (p_log q) i" for n q i
  proof (induction K n q rule: poll_frame.induct)
    case (1 K n q)
    obtain r q' where rq: "syscall K (Poll (mFd q) 300) q = (r, q')" by fastforce
    then have "p_log q' = Poll (mFd q) 300 # p_log q" by (auto simp: syscall_def issue_def Let_def)
    then show ?case using "1.IH" [OF rq [symmetric]] by (subst poll_frame.simps) (simp add: rq)
  qed
  show thesis
  proof (cases "mState p = PIPELINE_STREAMING")
    case False
    then show thesis using assms idle by (simp add: captureFrame_def)
  next
    case True
    obtain r1 p1 r2 p2 b p3 ret4 out4 p4 r5 p5 where p1: "poll_frame K 0 p = (r1, p1)" and qq1: "quiet p p1"
      and l2: "p_log p2 = DQBuf (mFd p1) # p_log p1" "r2 = k_ret K (p_log p2)" "b = k_dqbuf K (p_log p2)"
      and a3: "adjusts p2 p3" and a4: "adjusts p3 p4"
      and l5: "p_log p5 = QBuf (mFd p4) (dq_index b) # p_log p4" "r5 = k_ret K (p_log p5)"
      and quiets: "quiet p p2" "quiet p p3" "quiet p p5"
      and run: "captureFrame K (Some out) fmt p =
        (if r1 < 0 then (r1, Some out, p1) else if r2 < 0 then (r2, Some out, p2)
         else if mBufferCount p \<le> dq_index b then (- EINVAL, Some out, p3)
         else if r5 < 0 then (r5, out4, p5) else (ret4, out4, p5))"
      by (rule captureFrame_run [OF True, of K out fmt])
    have q1: "quiet p p1" "\<And>i. queued K (p_log p1) i = queued K (p_log p) i"
      using qq1 polls [of 0 p] by (simp_all add: p1)
    have returned: "queued K (p_log p3) i = queued K (p_log p) i - (if i = dq_index b then 1 else 0)" if "0 \<le> r2" for i
      using that adjusts_queued [OF a3] by (auto simp: l2 q1(2))
    consider "r1 < 0" | "0 \<le> r1" "r2 < 0" | "0 \<le> r1" "0 \<le> r2" "mBufferCount p \<le> dq_index b"
      | "0 \<le> r1" "0 \<le> r2" "dq_index b < mBufferCount p" by linarith
    then show thesis
    proof cases
      case 1
      then show thesis using assms run idle q1 by simp
    next
      case 2
      then show thesis using assms run idle quiets q1(2) l2 by auto
    next
      case 3
      then show thesis using assms run lost [of b] quiets returned by simp
    next
      case 4
      then have f: "p' = p5" "ret = (if r5 < 0 then r5 else ret4)" using assms run by (auto split: if_splits)
      have "queued K (p_log p5) i = queued K (p_log p3) i + (if i = dq_index b \<and> 0 \<le> r5 then 1 else 0)" for i
        using adjusts_queued [OF a4] l5 by simp
      then have "queued K (p_log p') i = queued K (p_log p) i - (if i = dq_index b \<and> r5 < 0 then 1 else 0)" for i
        using returned [OF 4(2)] f(1) by simp
      then show thesis
        using kept [of b] balanced f quiets(3) True 4(3) by (cases "r5 < 0") simp_all
    qed
  qed
qed

lemma quiet_captureFrame: "captureFrame K out fmt p = (ret, out', p') \<Longrightarrow> quiet p p'"
proof (cases out)
  case None
  then show "captureFrame K out fmt p = (ret, out', p') \<Longrightarrow> ?thesis" by (simp add: captureFrame_def)
next
  case (Some o')
  assume "captureFrame K out fmt p = (ret, out', p')"
  then show ?thesis unfolding Some by (cases rule: captureFrame_steps) simp_all
qed

text \<open>
  C11. Buffer accounting of \<open>captureFrame\<close>, for any kernel: the invariant of the pipeline is kept; a call that
  succeeds was made while streaming and leaves the number of times every buffer is queued unchanged,
  so the frame taken went back to the driver. A call that fails loses at most one buffer, and only
  when the driver named a buffer beyond the mapped ones (then the result is \<open>-EINVAL\<close>) or refused the
  \<open>QBUF\<close>.
\<close>

theorem capture_returns_the_buffer:
  assumes r: "captureFrame K (Some out) fmt p = (ret, out', p')" and inv: "pipeline_inv K p"
  shows "pipeline_inv K p' \<and>
    (0 \<le> ret \<longrightarrow> mState p = PIPELINE_STREAMING \<and> (\<forall>i. queued K (p_log p') i = queued K (p_log p) i)) \<and>
    ((\<forall>i. queued K (p_log p') i = queued K (p_log p) i) \<or>
     (\<exists>j. (mBufferCount p \<le> j \<longrightarrow> ret = - EINVAL) \<and> ret < 0 \<and>
        (\<forall>i. queued K (p_log p') i = queued K (p_log p) i - (if i = j then 1 else 0))))"
  using r
proof (cases rule: captureFrame_steps)
  case idle
  then show ?thesis using quiet_inv [OF idle(2), of K] inv by auto
next
  case (lost b)
  then show ?thesis using quiet_inv [OF lost(1), of K] inv by auto
next
  case (kept b)
  then have "pipeline_inv K p'" using quiet_inv [OF kept(1), of K] inv by auto
  moreover have "\<not> mBufferCount p \<le> dq_index b" using kept(3) by simp
  ultimately show ?thesis using kept(2,4) by (intro conjI disjI2 exI [of _ "dq_index b"]) auto
next
  case balanced
  then show ?thesis using quiet_inv [OF balanced(1), of K] inv by auto
qed

section \<open>The wait for a frame is bounded\<close>

fun polls :: "sys list \<Rightarrow> nat" where
  "polls [] = 0"
| "polls (Poll _ _ # l) = Suc (polls l)"
| "polls (_ # l) = polls l"

lemma poll_frame_polls:
  assumes "poll_frame K retry p = (ret, q)" "retry < 6"
  shows "ret \<le> 0 \<and> (\<exists>n. 1 \<le> n \<and> n + retry \<le> 6 \<and> p_log q = replicate n (Poll (mFd p) 300) @ p_log p \<and>
    ((\<forall>l. k_ret K (Poll (mFd p) 300 # l) = 0) \<longrightarrow> ret = - EAGAIN \<and> n + retry = 6)) \<and>
    (ret = 0 \<longrightarrow> 0 < k_ret K (p_log q) \<and> k_revents K (p_log q))"
  using assms
proof (induction K retry p arbitrary: ret q rule: poll_frame.induct)
  case (1 K retry p)
  define p1 where "p1 = issue (Poll (mFd p) 300) p"
  define r where "r = k_ret K (p_log p1)"
  have sc: "syscall K (Poll (mFd p) 300) p = (r, p1)" by (simp add: syscall_def p1_def r_def Let_def)
  have l1: "p_log p1 = Poll (mFd p) 300 # p_log p" "mFd p1 = mFd p" by (simp_all add: p1_def issue_def)
  have z: "(\<forall>l. k_ret K (Poll (mFd p) 300 # l) = 0) \<Longrightarrow> r = 0" by (simp add: r_def l1)
  show ?case
  proof (cases "r = 0 \<and> retry + 1 < 6")
    case False
    then have e: "ret \<le> 0" "q = p1" "r = 0 \<Longrightarrow> ret = - EAGAIN \<and> retry = 5"
        "ret = 0 \<Longrightarrow> 0 < r \<and> k_revents K (p_log q)"
      using "1.prems" by (auto simp: poll_frame.simps [of K retry p] sc split: if_splits)
    show ?thesis
      using e l1 z "1.prems"(2) by (intro conjI exI [of _ 1]) (auto simp: r_def)
  next
    case True
    have rec: "poll_frame K (retry + 1) p1 = (ret, q)"
      using "1.prems"(1) True by (simp add: poll_frame.simps [of K retry p] sc)
    from True have "\<not> r < 0" "r = 0" "\<not> 6 \<le> retry + 1" "retry + 1 < 6" by auto
    from "1.IH" [OF sc [symmetric] this(1-3) rec this(4)] obtain n where
      n: "ret \<le> 0" "1 \<le> n" "n + (retry + 1) \<le> 6" "p_log q = replicate n (Poll (mFd p) 300) @ p_log p1"
        "(\<forall>l. k_ret K (Poll (mFd p) 300 # l) = 0) \<longrightarrow> ret = - EAGAIN \<and> n + (retry + 1) = 6"
        "ret = 0 \<longrightarrow> 0 < k_ret K (p_log q) \<and> k_revents K (p_log q)"
      unfolding l1(2) by blast
    show ?thesis using n
      by (intro conjI exI [of _ "Suc n"]) (auto simp: l1(1) replicate_app_Cons_same)
  qed
qed

lemma adjusts_polls:
  assumes "adjusts p q"
  shows "polls (p_log q) = polls (p_log p)"
proof -
  have "polls (rs @ l) = polls l" if "\<forall>r\<in>set rs. is_SetCtrl r" for rs l
    using that by (induction rs) (auto elim: is_SetCtrl.elims)
  then show ?thesis using assms by (auto simp: adjusts_def)
qed

text \<open>
  C31. A call of \<open>captureFrame\<close> while streaming always returns and waits at most six times 300 ms: it polls
  between one and six times. When no poll ever reports a frame it polls exactly six times, takes
  nothing from the driver, leaves the output untouched and returns \<open>-EAGAIN\<close>.
\<close>

theorem capture_wait_bounded:
  assumes st: "mState p = PIPELINE_STREAMING" and r: "captureFrame K (Some out) fmt p = (ret, out', p')"
  shows "polls (p_log p) < polls (p_log p') \<and> polls (p_log p') \<le> polls (p_log p) + 6 \<and>
    ((\<forall>l. k_ret K (Poll (mFd p) 300 # l) = 0) \<longrightarrow>
       ret = - EAGAIN \<and> out' = Some out \<and> p_log p' = replicate 6 (Poll (mFd p) 300) @ p_log p)"
proof -
  obtain r1 p1 r2 p2 b p3 ret4 out4 p4 r5 p5 where p1: "poll_frame K 0 p = (r1, p1)" and "quiet p p1"
    and l2: "p_log p2 = DQBuf (mFd p1) # p_log p1" and "r2 = k_ret K (p_log p2)" "b = k_dqbuf K (p_log p2)"
    and a3: "adjusts p2 p3" and a4: "adjusts p3 p4"
    and l5: "p_log p5 = QBuf (mFd p4) (dq_index b) # p_log p4" and "r5 = k_ret K (p_log p5)"
    and "quiet p p2" "quiet p p3" "quiet p p5"
    and run: "captureFrame K (Some out) fmt p =
        (if r1 < 0 then (r1, Some out, p1) else if r2 < 0 then (r2, Some out, p2)
         else if mBufferCount p \<le> dq_index b then (- EINVAL, Some out, p3)
         else if r5 < 0 then (r5, out4, p5) else (ret4, out4, p5))"
    by (rule captureFrame_run [OF st, of K out fmt])
  obtain n where n: "1 \<le> n" "n \<le> 6" "p_log p1 = replicate n (Poll (mFd p) 300) @ p_log p"
    and timeout: "(\<forall>l. k_ret K (Poll (mFd p) 300 # l) = 0) \<longrightarrow> r1 = - EAGAIN \<and> n = 6"
    using poll_frame_polls [OF p1] by auto
  have "polls (replicate n (Poll (mFd p) 300) @ l) = n + polls l" for n l by (induction n) auto
  then have "polls (p_log p1) = n + polls (p_log p)" by (simp add: n(3))
  then have all: "polls (p_log q) = n + polls (p_log p)" if "q \<in> {p1, p2, p3, p4, p5}" for q
    using that l2 l5 adjusts_polls [OF a3] adjusts_polls [OF a4] by auto
  have "p' \<in> {p1, p2, p3, p4, p5}" using run r by (auto split: if_splits)
  then have "polls (p_log p') = n + polls (p_log p)" by (rule all)
  moreover have "(\<forall>l. k_ret K (Poll (mFd p) 300 # l) = 0) \<longrightarrow>
       ret = - EAGAIN \<and> out' = Some out \<and> p_log p' = replicate 6 (Poll (mFd p) 300) @ p_log p"
    using timeout run r n(3) by auto
  ultimately show ?thesis using n(1,2) by simp
qed

section \<open>The autofocus scan\<close>

lemma shift_in_sink: "k < length xs \<Longrightarrow> shift_in xs v k = sink (xs[k := v]) k"
proof (induction xs v k rule: shift_in.induct)
  case (2 xs v j)
  have "(xs[Suc j := v])[Suc j := xs ! j, j := v] = (xs[Suc j := xs ! j])[j := v]" by simp
  then show ?case using 2 by simp
qed simp

lemma sink_append: "j < length ys \<Longrightarrow> sink (ys @ zs) j = sink ys j @ zs"
proof (induction ys j rule: sink.induct)
  case (2 xs j)
  then have "(xs @ zs)[Suc j := xs ! j, j := xs ! Suc j] = xs[Suc j := xs ! j, j := xs ! Suc j] @ zs"
    by (simp add: list_update_append)
  then show ?case using 2 by (simp add: nth_append)
qed simp

lemma sort_step:
  assumes "i < length xs"
  shows "shift_in (sort (take i xs) @ drop i xs) ((sort (take i xs) @ drop i xs) ! i) i =
    sort (take (Suc i) xs) @ drop (Suc i) xs"
proof -
  let ?s = "sort (take i xs)"
  have d: "drop i xs = xs ! i # drop (Suc i) xs" using assms by (simp add: Cons_nth_drop_Suc)
  have li: "length ?s = i" using assms by simp
  have "shift_in (?s @ drop i xs) ((?s @ drop i xs) ! i) i = sink ((?s @ [xs ! i]) @ drop (Suc i) xs) i"
    using assms by (subst shift_in_sink) (auto simp: d nth_append list_update_append)
  also have "\<dots> = sink (?s @ [xs ! i]) (length ?s) @ drop (Suc i) xs"
    using li by (subst sink_append) auto
  also have "sink (?s @ [xs ! i]) (length ?s) = insort (xs ! i) ?s" by (rule sort_deltas_step) simp
  also have "insort (xs ! i) ?s = sort (take (Suc i) xs)"
    using assms by (intro properties_for_sort [symmetric]) (auto simp: take_Suc_conv_app_nth sorted_insort)
  finally show ?thesis .
qed

lemma sort_energies_sort: "sort_energies xs = sort xs"
proof -
  have "fold (\<lambda>i xs. shift_in xs (xs ! i) i) [1..<n] xs = sort (take n xs) @ drop n xs" if "1 \<le> n" "n \<le> length xs" for n
    using that
  proof (induction n rule: dec_induct)
    case base
    then show ?case by (cases xs) auto
  next
    case (step m)
    then show ?case using sort_step [of m xs] by simp
  qed
  from this [of "length xs"] show ?thesis by (cases xs) (auto simp: sort_energies_def)
qed

abbreviation focus_requests :: "CameraPipeline \<Rightarrow> int list" where
  "focus_requests p \<equiv> ctrl_requests CID_FOCUS_ABSOLUTE (p_log p)"

lemma settle_effect:
  assumes "0 \<le> pos" "pos \<le> 1023"
  shows "quiet p (settle K pos p)" "focus_requests (settle K pos p) = pos # focus_requests p"
    "mAfState (settle K pos p) = mAfState p"
proof -
  show "quiet p (settle K pos p)"
    unfolding settle_def by (rule quiet_trans [OF quiet_setFocus quiet_issue]) simp
  show "focus_requests (settle K pos p) = pos # focus_requests p" "mAfState (settle K pos p) = mAfState p"
    using assms by (auto simp: settle_def setFocus_def syscall_def issue_def Let_def)
qed

lemma af_energy_frame:
  "adjusts p (snd (af_energy b p))" "p_log (snd (af_energy b p)) = p_log p" "mAfState (snd (af_energy b p)) = mAfState p"
  by (auto simp: af_energy_def Let_def split: option.split prod.split intro: adjusts_same)

lemma captureForAf_effect:
  assumes "captureForAf K p = (e, q)"
  shows "quiet p q \<and> focus_requests q = focus_requests p \<and> mAfState q = mAfState p"
proof (cases "mState p = PIPELINE_STREAMING")
  case False
  then show ?thesis using assms by (simp add: captureForAf_def)
next
  case True
  define p1 where "p1 = issue (Poll (mFd p) 500) p"
  define p2 where "p2 = issue (DQBuf (mFd p1)) p1"
  define b where "b = k_dqbuf K (p_log p2)"
  define p3 where "p3 = snd (af_energy b p2)"
  define p4 where "p4 = issue (QBuf (mFd p3) (dq_index b)) p3"
  have "q \<in> {p1, p2, p4}"
    using assms True
    by (auto simp: captureForAf_def syscall_def Let_def p1_def p2_def b_def p3_def p4_def split: if_splits prod.splits)
  moreover have "quiet p p1" "quiet p1 p2" "quiet p2 p3" "quiet p3 p4"
    using adjusts_quiet af_energy_frame(1) by (auto simp: p1_def p2_def p3_def p4_def intro: quiet_issue)
  moreover have "focus_requests p1 = focus_requests p" "focus_requests p2 = focus_requests p" "focus_requests p4 = focus_requests p"
    "mAfState p1 = mAfState p" "mAfState p2 = mAfState p" "mAfState p4 = mAfState p"
    by (simp_all add: p1_def p2_def p3_def p4_def issue_def af_energy_frame)
  ultimately show ?thesis by (metis insertE quiet_trans singletonD)
qed

text \<open>What a scan knows: the best energy is the largest of the recorded ones, which are all positive.\<close>

definition scan_ok :: "af_scan \<Rightarrow> bool" where
  "scan_ok s \<longleftrightarrow> (\<forall>e\<in>set (energies s). 0 < e \<and> e \<le> bestEnergy s) \<and>
     (if energies s = [] then bestEnergy s = 0 else bestEnergy s \<in> set (energies s)) \<and>
     140 \<le> bestPos s \<and> bestPos s \<le> 640"

lemma note_energy_ok:
  assumes "scan_ok s" "0 < energy" "140 \<le> pos" "pos \<le> 640" "length (energies s) < 40"
  shows "scan_ok (note_energy pos energy s) \<and> length (energies (note_energy pos energy s)) = length (energies s) + 1"
  using assms by (auto simp: scan_ok_def note_energy_def Let_def split: if_splits)

lemma af_sweep_ok:
  assumes "scan_ok s" "\<forall>pos\<in>set ps. 140 \<le> pos \<and> pos \<le> 640" "length (energies s) + length ps \<le> 40"
    and "af_sweep K fine ps s p = (s', p')"
  shows "scan_ok s' \<and> length (energies s') \<le> length (energies s) + length ps \<and> quiet p p' \<and> mAfState p' = mAfState p \<and>
    (\<exists>vs. focus_requests p' = vs @ focus_requests p \<and> set vs \<subseteq> {140..640} \<and> length vs \<le> length ps \<and> (\<not> fine \<and> ps \<noteq> [] \<longrightarrow> vs \<noteq> []))"
  using assms
proof (induction K fine ps s p rule: af_sweep.induct)
  case (1 K fine s p)
  then show ?case by simp
next
  case (2 K fine pos rest s p)
  have pos: "140 \<le> pos" "pos \<le> 640" using "2.prems" by auto
  show ?case
  proof (cases "fine \<and> pos = bestPos s")
    case True
    then show ?thesis using "2.IH"(1) [OF True] "2.prems" by fastforce
  next
    case False
    obtain e q where q: "captureForAf K (settle K pos p) = (e, q)" by fastforce
    have eff: "quiet p q" "focus_requests q = pos # focus_requests p" "mAfState q = mAfState p"
      using captureForAf_effect [OF q] settle_effect [where pos = pos and p = p and K = K] pos quiet_trans by auto
    define s1 where "s1 = (if e \<le> 0 then s\<lparr>fails := fails s + 1\<rparr> else note_energy pos e s)"
    have s1: "scan_ok s1" "length (energies s1) \<le> length (energies s) + 1"
      using note_energy_ok [of s e pos] "2.prems" pos by (auto simp: s1_def scan_ok_def)
    have unroll: "af_sweep K fine (pos # rest) s p =
        (if e \<le> 0 \<and> 4 \<le> fails s1 then (s1, q) else af_sweep K fine rest s1 q)"
      unfolding af_sweep.simps(2) if_not_P [OF False] q by (simp add: s1_def Let_def)
    consider "s' = s1" "p' = q" | "af_sweep K fine rest s1 q = (s', p')" "e \<le> 0 \<longrightarrow> \<not> 4 \<le> fails s1"
      using "2.prems"(4) unfolding unroll by (cases "e \<le> 0 \<and> 4 \<le> fails s1") auto
    then show ?thesis
    proof cases
      case 1
      then show ?thesis using s1 eff pos by (intro conjI exI [of _ "[pos]"]) auto
    next
      case rec: 2
      have "scan_ok s' \<and> length (energies s') \<le> length (energies s1) + length rest \<and> quiet q p' \<and> mAfState p' = mAfState q \<and>
        (\<exists>vs. focus_requests p' = vs @ focus_requests q \<and> set vs \<subseteq> {140..640} \<and> length vs \<le> length rest \<and> (\<not> fine \<and> rest \<noteq> [] \<longrightarrow> vs \<noteq> []))"
      proof (cases "e \<le> 0")
        case True
        then show ?thesis
          using "2.IH"(2) [OF False q [symmetric] True refl] rec s1 "2.prems" by (simp add: s1_def)
      next
        case nz: False
        then show ?thesis using "2.IH"(3) [OF False q [symmetric] nz] rec s1 "2.prems" by (simp add: s1_def)
      qed
      then obtain vs where "scan_ok s'" "length (energies s') \<le> length (energies s1) + length rest" "quiet q p'"
        "mAfState p' = mAfState q" "focus_requests p' = vs @ focus_requests q" "set vs \<subseteq> {140..640}" "length vs \<le> length rest" by blast
      then show ?thesis using s1(2) eff pos quiet_trans [OF eff(1)]
        by (intro conjI exI [of _ "vs @ [pos]"]) auto
    qed
  qed
qed

lemma positions_range:
  assumes "0 < step" "pos \<in> set (positions lo hi step)"
  shows "lo \<le> pos \<and> pos \<le> hi"
proof -
  obtain i where i: "pos = lo + int i * step" "i < nat ((hi - lo) div step + 1)" using assms by (auto simp: positions_def)
  then have "int i \<le> (hi - lo) div step" by linarith
  then have "int i * step \<le> (hi - lo) div step * step" using assms by (intro mult_right_mono) auto
  moreover have "0 \<le> int i * step" using assms by simp
  ultimately show ?thesis using i(1) floor_multiple [OF assms(1), of "hi - lo"] by linarith
qed

lemma length_positions: "length (positions lo hi step) = nat ((hi - lo) div step + 1)"
  by (simp add: positions_def)

lemma fine_positions_ok:
  assumes "140 \<le> best" "best \<le> 640"
  shows "\<forall>pos\<in>set (fine_positions best). 140 \<le> pos \<and> pos \<le> 640" "length (fine_positions best) \<le> 11"
proof -
  define lo hi where "lo = (if best - 50 < 140 then 140 else best - 50)" "hi = (if best + 50 > 640 then 640 else best + 50)"
  have f: "fine_positions best = positions lo hi 10" by (simp add: fine_positions_def lo_hi_def)
  have b: "140 \<le> lo" "hi \<le> 640" "hi - lo \<le> 100" using assms by (auto simp: lo_hi_def)
  then show "\<forall>pos\<in>set (fine_positions best). 140 \<le> pos \<and> pos \<le> 640"
    using positions_range [of 10 _ lo hi] unfolding f by fastforce
  have "(hi - lo) div 10 \<le> 100 div 10" using b(3) by (intro zdiv_mono1) auto
  then show "length (fine_positions best) \<le> 11" by (simp add: f length_positions)
qed

lemma af_sweeps_ok:
  assumes "af_sweeps K p = (s, q)"
  shows "scan_ok s \<and> length (energies s) \<le> 22 \<and> quiet p q \<and> mAfState q = mAfState p \<and>
    (\<exists>vs. focus_requests q = vs @ focus_requests p \<and> set vs \<subseteq> {140..640} \<and> length vs \<le> 22 \<and> vs \<noteq> [])"
proof -
  let ?s0 = "\<lparr>bestEnergy = 0, bestPos = 400, energies = [], fails = 0\<rparr>"
  obtain s1 p1 where 1: "af_sweep K False (positions 140 640 50) ?s0 p = (s1, p1)" by fastforce
  have 2: "af_sweep K True (fine_positions (bestPos s1)) s1 p1 = (s, q)"
    using assms by (simp add: af_sweeps_def 1 Let_def)
  have len: "length (positions 140 640 50) = 11" by (simp add: length_positions)
  have "scan_ok ?s0" by (simp add: scan_ok_def)
  from af_sweep_ok [OF this _ _ 1] obtain vs1 where
    a: "scan_ok s1" "length (energies s1) \<le> 11" "quiet p p1" "mAfState p1 = mAfState p"
      "focus_requests p1 = vs1 @ focus_requests p" "set vs1 \<subseteq> {140..640}" "length vs1 \<le> 11" "vs1 \<noteq> []"
    using positions_range [of 50 _ 140 640] len by fastforce
  have best: "140 \<le> bestPos s1" "bestPos s1 \<le> 640" using a(1) by (auto simp: scan_ok_def)
  note fine = fine_positions_ok [OF best]
  have "length (energies s1) + length (fine_positions (bestPos s1)) \<le> 40" using a(2) fine(2) by simp
  from af_sweep_ok [OF a(1) fine(1) this 2] obtain vs2 where
    b: "scan_ok s" "length (energies s) \<le> length (energies s1) + length (fine_positions (bestPos s1))" "quiet p1 q"
      "mAfState q = mAfState p1" "focus_requests q = vs2 @ focus_requests p1" "set vs2 \<subseteq> {140..640}"
      "length vs2 \<le> length (fine_positions (bestPos s1))"
    by blast
  then show ?thesis using a fine(2) quiet_trans [OF a(3) b(3)]
    by (intro conjI exI [of _ "vs2 @ vs1"]) auto
qed

text \<open>A history of measurements: the lens is moved to a position, settles, and a frame is measured there.\<close>

inductive visits :: "kernel \<Rightarrow> CameraPipeline \<Rightarrow> (int \<times> int) list \<Rightarrow> CameraPipeline \<Rightarrow> bool" for K where
  none: "visits K p [] p"
| visit: "captureForAf K (settle K pos p) = (e, q) \<Longrightarrow> visits K q ms r \<Longrightarrow> visits K p ((pos, e) # ms) r"

lemma visits_append: "visits K p ms q \<Longrightarrow> visits K q ns r \<Longrightarrow> visits K p (ms @ ns) r"
  by (induction rule: visits.induct) (auto intro: visits.visit)

lemma visits_requests:
  "visits K p ms q \<Longrightarrow> fst ` set ms \<subseteq> {140..640} \<Longrightarrow> focus_requests q = rev (map fst ms) @ focus_requests p \<and> quiet p q \<and> mAfState q = mAfState p"
proof (induction rule: visits.induct)
  case (none p)
  then show ?case by (simp add: quiet_same)
next
  case (visit pos p e q ms r)
  have "0 \<le> pos" "pos \<le> 1023" using visit.prems by auto
  note eff = settle_effect [OF this, where p = p and K = K] captureForAf_effect [OF visit(1)]
  show ?case using visit.IH visit.prems eff quiet_trans [OF eff(1)] quiet_trans by auto
qed

text \<open>The usable measurements, the position of the first largest one, and the peak test of the scan.\<close>

definition usable :: "(int \<times> int) list \<Rightarrow> int list" where
  "usable ms = filter (\<lambda>e. 0 < e) (map snd ms)"

definition sharpest :: "(int \<times> int) list \<Rightarrow> int option" where
  "sharpest ms = map_option fst (find (\<lambda>m. snd m = Max (set (usable ms))) ms)"

definition dominant :: "int list \<Rightarrow> bool" where
  "dominant es \<longleftrightarrow> (let med = sort es ! (length es div 2) in med + med div 3 \<le> Max (set es))"

text \<open>What the scan has kept of its history.\<close>

definition kept :: "(int \<times> int) list \<Rightarrow> af_scan \<Rightarrow> bool" where
  "kept ms s \<longleftrightarrow> energies s = usable ms \<and> (\<forall>e\<in>set (usable ms). e \<le> bestEnergy s) \<and>
     (if usable ms = [] then bestEnergy s = 0 else find (\<lambda>m. snd m = bestEnergy s) ms = Some (bestPos s, bestEnergy s))"

lemma find_snoc: "find P (xs @ [x]) = (case find P xs of None \<Rightarrow> (if P x then Some x else None) | Some y \<Rightarrow> Some y)"
  by (induction xs) auto

lemma kept_failed: "kept ms s \<Longrightarrow> e \<le> 0 \<Longrightarrow> kept (ms @ [(pos, e)]) (s\<lparr>fails := n\<rparr>)"
  by (auto simp: kept_def usable_def find_snoc)

lemma kept_noted:
  assumes "kept ms s" "0 < e" "length (energies s) < 40"
  shows "kept (ms @ [(pos, e)]) (note_energy pos e s)"
proof -
  have u: "usable (ms @ [(pos, e)]) = usable ms @ [e]" using assms(2) by (simp add: usable_def)
  have new: "find (\<lambda>m. snd m = e) ms = None" if "bestEnergy s < e"
    using that assms(1,2) by (force simp: find_None_iff kept_def usable_def)
  show ?thesis
  proof (cases "bestEnergy s < e")
    case True
    then show ?thesis using assms u new by (auto simp: kept_def note_energy_def find_snoc Let_def)
  next
    case False
    then have "usable ms \<noteq> []" using assms(1,2) by (auto simp: kept_def)
    then show ?thesis using False assms u by (auto simp: kept_def note_energy_def find_snoc Let_def)
  qed
qed

lemma af_sweep_history:
  assumes "af_sweep K fine ps s p = (s', p')" "kept ms s" "length (energies s) + length ps \<le> 40"
  shows "\<exists>ns. visits K p ns p' \<and> kept (ms @ ns) s' \<and> set (map fst ns) \<subseteq> set ps \<and> length ns \<le> length ps \<and>
    (\<not> fine \<longrightarrow> map fst ns = take (length ns) ps) \<and> (\<not> fine \<and> ps \<noteq> [] \<longrightarrow> ns \<noteq> [])"
  using assms
proof (induction K fine ps s p arbitrary: ms rule: af_sweep.induct)
  case (1 K fine s p)
  then show ?case by (auto intro!: exI [of _ "[]"] visits.none)
next
  case (2 K fine pos rest s p)
  show ?case
  proof (cases "fine \<and> pos = bestPos s")
    case True
    then have "af_sweep K fine rest s p = (s', p')" "length (energies s) + length rest \<le> 40" using "2.prems" by simp_all
    from "2.IH"(1) [OF True this(1) "2.prems"(2) this(2)] obtain ns where
      "visits K p ns p'" "kept (ms @ ns) s'" "set (map fst ns) \<subseteq> set rest" "length ns \<le> length rest" by blast
    then show ?thesis using True by (intro exI [of _ ns]) auto
  next
    case False
    obtain e q where q: "captureForAf K (settle K pos p) = (e, q)" by fastforce
    define s1 where "s1 = (if e \<le> 0 then s\<lparr>fails := fails s + 1\<rparr> else note_energy pos e s)"
    have room: "length (energies s) < 40" using "2.prems"(3) by simp
    have s1: "kept (ms @ [(pos, e)]) s1" "length (energies s1) + length rest \<le> 40"
      using kept_failed [OF "2.prems"(2)] kept_noted [OF "2.prems"(2) _ room] apply (simp add: s1_def)
      using "2.prems"(3) by (simp add: s1_def note_energy_def Let_def)
    have unroll: "af_sweep K fine (pos # rest) s p =
        (if e \<le> 0 \<and> 4 \<le> fails s1 then (s1, q) else af_sweep K fine rest s1 q)"
      unfolding af_sweep.simps(2) if_not_P [OF False] q by (simp add: s1_def Let_def)
    show ?thesis
    proof (cases "e \<le> 0 \<and> 4 \<le> fails s1")
      case True
      then have "s' = s1" "p' = q" using "2.prems"(1) unfolding unroll by simp_all
      then show ?thesis using s1(1) visits.visit [OF q visits.none] by (intro exI [of _ "[(pos, e)]"]) auto
    next
      case go: False
      then have rec: "af_sweep K fine rest s1 q = (s', p')" using "2.prems"(1) unfolding unroll by (simp only: if_False)
      have "\<exists>ns. visits K q ns p' \<and> kept ((ms @ [(pos, e)]) @ ns) s' \<and> set (map fst ns) \<subseteq> set rest \<and> length ns \<le> length rest \<and>
        (\<not> fine \<longrightarrow> map fst ns = take (length ns) rest)"
      proof (cases "e \<le> 0")
        case True
        then have s1': "s1 = s\<lparr>fails := fails s + 1\<rparr>" "\<not> 4 \<le> fails s1" using go by (simp_all add: s1_def)
        show ?thesis using "2.IH"(2) [OF False q [symmetric] True s1' rec s1] by blast
      next
        case nz: False
        then have s1': "s1 = note_energy pos e s" by (simp add: s1_def)
        show ?thesis using "2.IH"(3) [OF False q [symmetric] nz] rec s1 unfolding s1' by blast
      qed
      then obtain ns where "visits K q ns p'" "kept (ms @ (pos, e) # ns) s'" "set (map fst ns) \<subseteq> set rest" "length ns \<le> length rest"
        "\<not> fine \<longrightarrow> map fst ns = take (length ns) rest" by auto
      then show ?thesis using visits.visit [OF q] by (intro exI [of _ "(pos, e) # ns"]) auto
    qed
  qed
qed

lemma af_sweeps_history:
  assumes "af_sweeps K p = (s, q)"
  shows "\<exists>cs fs. visits K p (cs @ fs) q \<and> kept (cs @ fs) s \<and> cs \<noteq> [] \<and> map fst cs = take (length cs) (positions 140 640 50) \<and>
    length cs \<le> 11 \<and> length fs \<le> 11 \<and> fst ` set (cs @ fs) \<subseteq> {140..640}"
proof -
  let ?s0 = "\<lparr>bestEnergy = 0, bestPos = 400, energies = [], fails = 0\<rparr>"
  obtain s1 p1 where 1: "af_sweep K False (positions 140 640 50) ?s0 p = (s1, p1)" by fastforce
  have 2: "af_sweep K True (fine_positions (bestPos s1)) s1 p1 = (s, q)" using assms by (simp add: af_sweeps_def 1 Let_def)
  have coarse: "length (positions 140 640 50) = 11" "positions 140 640 50 \<noteq> []" "set (positions 140 640 50) \<subseteq> {140..640}"
    using positions_range [of 50 _ 140 640] by (auto simp: length_positions positions_def)
  have "kept [] ?s0" by (simp add: kept_def usable_def)
  from af_sweep_history [OF 1 this] coarse(1) obtain cs where
    c: "visits K p cs p1" "kept cs s1" "cs \<noteq> []" "map fst cs = take (length cs) (positions 140 640 50)" "length cs \<le> 11"
      "set (map fst cs) \<subseteq> set (positions 140 640 50)"
    using coarse(2) by (auto simp del: set_map)
  have ok: "scan_ok ?s0" by (simp add: scan_ok_def)
  have "\<forall>pos\<in>set (positions 140 640 50). 140 \<le> pos \<and> pos \<le> 640" using coarse(3) by auto
  from af_sweep_ok [OF ok this _ 1] have "scan_ok s1" "length (energies s1) \<le> 11" using coarse(1) by auto
  then have best: "140 \<le> bestPos s1" "bestPos s1 \<le> 640" by (auto simp: scan_ok_def)
  note fine = fine_positions_ok [OF best]
  have "length (energies s1) + length (fine_positions (bestPos s1)) \<le> 40" using \<open>length (energies s1) \<le> 11\<close> fine(2) by simp
  from af_sweep_history [OF 2 c(2) this] obtain fs where
    f: "visits K p1 fs q" "kept (cs @ fs) s" "set (map fst fs) \<subseteq> set (fine_positions (bestPos s1))" "length fs \<le> 11"
    using fine(2) by (meson le_trans)
  have "fst ` set (cs @ fs) \<subseteq> {140..640}" using c(6) coarse(3) f(3) fine(1) by auto
  then show ?thesis using visits_append [OF c(1) f(1)] c(3-5) f(2,4) by blast
qed

lemma kept_concludes:
  assumes "kept ms s" "mAfState p = 1"
  shows "conclude_scan K s p =
    (if usable ms \<noteq> [] \<and> (5 \<le> length (usable ms) \<longrightarrow> dominant (usable ms))
     then (settle K (bestPos s) p)\<lparr>mAfState := 2\<rparr> else p\<lparr>mAfState := 3\<rparr>) \<and>
    (usable ms \<noteq> [] \<longrightarrow> sharpest ms = Some (bestPos s))"
proof (cases "usable ms = []")
  case True
  then show ?thesis using assms by (simp add: kept_def conclude_scan_def)
next
  case False
  let ?es = "usable ms" and ?med = "sort_energies (usable ms) ! (length (usable ms) div 2)"
  have f: "find (\<lambda>m. snd m = bestEnergy s) ms = Some (bestPos s, bestEnergy s)" "energies s = ?es" "\<forall>e\<in>set ?es. e \<le> bestEnergy s"
    using assms(1) False by (auto simp: kept_def)
  obtain e where e: "e \<in> set ?es" "0 < e" using False last_in_set [of ?es] by (auto simp: usable_def)
  then have pos: "0 < bestEnergy s" using f(3) by auto
  have "(bestPos s, bestEnergy s) \<in> set ms" using f(1) by (metis find_Some_iff nth_mem)
  then have "bestEnergy s \<in> set ?es" using pos by (force simp: usable_def)
  then have mx: "Max (set ?es) = bestEnergy s" using f(3) by (intro Max_eqI) auto
  have "?med \<in> set ?es" using False nth_mem [of "length ?es div 2" "sort ?es"] by (simp add: sort_energies_sort)
  then have "0 < ?med" by (simp add: usable_def)
  then have dom: "dominant ?es \<longleftrightarrow> ?med + ?med sdiv 3 \<le> bestEnergy s"
    using sdiv_nonneg [of ?med 3] by (simp add: dominant_def sort_energies_sort mx Let_def)
  show ?thesis using False pos f(1,2) dom mx assms(2) by (auto simp: conclude_scan_def sharpest_def Let_def)
qed



section \<open>The life cycle of the pipeline object\<close>

text \<open>Every public method, in any order, with any arguments. \<open>configure\<close> may be called once no buffer is
  mapped: before the first \<open>configure\<close> after \<open>open\<close>, or after \<open>stopStreaming\<close> or \<open>close\<close>.\<close>

inductive life_step :: "kernel \<Rightarrow> CameraPipeline \<Rightarrow> CameraPipeline \<Rightarrow> bool" for K where
  open_step: "pipeline_open K cameraId p = (r, p') \<Longrightarrow> life_step K p p'"
| close_step: "pipeline_close K p = (r, p') \<Longrightarrow> life_step K p p'"
| configure_step: "mBufferCount p = 0 \<Longrightarrow> configure K config p = Some (r, p') \<Longrightarrow> life_step K p p'"
| start_step: "startStreaming K p = (r, p') \<Longrightarrow> life_step K p p'"
| stop_step: "stopStreaming K p = (r, p') \<Longrightarrow> life_step K p p'"
| capture_step: "captureFrame K out fmt p = (r, out', p') \<Longrightarrow> life_step K p p'"
| exposure_step: "setExposure K e p = (r, p') \<Longrightarrow> life_step K p p'"
| gain_step: "setGain K g p = (r, p') \<Longrightarrow> life_step K p p'"
| get_exposure_step: "getExposure K p = (r, p') \<Longrightarrow> life_step K p p'"
| get_gain_step: "getGain K p = (r, p') \<Longrightarrow> life_step K p p'"
| focus_step: "setFocus K pos p = (r, p') \<Longrightarrow> life_step K p p'"
| scan_step: "life_step K p (startAfScan K p)"
| cancel_step: "life_step K p (cancelAf p)"
| age_step: "afAgeMs K p = (r, p') \<Longrightarrow> life_step K p p'"

inductive alive :: "kernel \<Rightarrow> CameraPipeline \<Rightarrow> bool" for K where
  born: "alive K (CameraPipeline_new camera config deltas lut)"
| step: "alive K p \<Longrightarrow> life_step K p p' \<Longrightarrow> alive K p'"

lemma quiet_startAfScan: "quiet p (startAfScan K p)"
proof (cases "mState p = PIPELINE_STREAMING")
  case False
  then show ?thesis by (simp add: startAfScan_def quiet_same)
next
  case True
  have start: "quiet p (p\<lparr>mAfState := n\<rparr>)" for p n by (simp add: quiet_same)
  obtain s q where sw: "af_sweeps K (p\<lparr>mAfState := 1\<rparr>) = (s, q)" by fastforce
  have ok: "scan_ok s" "quiet (p\<lparr>mAfState := 1\<rparr>) q" using af_sweeps_ok [OF sw] by auto
  then have pos: "0 \<le> bestPos s" "bestPos s \<le> 1023" by (auto simp: scan_ok_def)
  have "quiet q ((settle K (bestPos s) q)\<lparr>mAfState := 2\<rparr>)" for q
    by (rule quiet_trans [OF settle_effect(1) [OF pos] start])
  then have "quiet q (conclude_scan K s q)" for q
    using start [of q] by (simp add: conclude_scan_def Let_def)
  moreover have "quiet q ((issue ClockMonotonic q)\<lparr>mAfLastScanNs := t\<rparr>)" for t
    by (auto simp: quiet_def issue_def)
  moreover have "startAfScan K p =
      conclude_scan K s ((issue ClockMonotonic q)\<lparr>mAfLastScanNs := k_time K (p_log (issue ClockMonotonic q))\<rparr>)"
    using True sw by (simp add: startAfScan_def Let_def)
  ultimately show ?thesis using quiet_trans [OF quiet_trans [OF start ok(2)]] quiet_trans by metis
qed

lemma life_step_inv:
  assumes "life_step K p p'" "pipeline_inv K p"
  shows "pipeline_inv K p'"
  using assms(1)
proof cases
  case (open_step cameraId r)
  then show ?thesis using assms(2) pipeline_open_inv by blast
next
  case (close_step r)
  then show ?thesis using assms(2) pipeline_close_inv by blast
next
  case (configure_step config r)
  then show ?thesis using configure_inv [OF assms(2), of config] by simp
next
  case (start_step r)
  then show ?thesis using assms(2) startStreaming_inv by blast
next
  case (stop_step r)
  then show ?thesis using assms(2) stopStreaming_inv by blast
next
  case (capture_step out fmt r out')
  then show ?thesis using assms(2) quiet_inv [OF quiet_captureFrame] by blast
next
  case (exposure_step e r)
  then show ?thesis using assms(2) quiet_inv [OF quiet_setExposure [of p K e], of K] by simp
next
  case (gain_step g r)
  then show ?thesis using assms(2) quiet_inv [OF quiet_setGain [of p K g], of K] by simp
next
  case (get_exposure_step r)
  then show ?thesis using assms(2) quiet_inv [OF quiet_getExposure [of p K], of K] by simp
next
  case (get_gain_step r)
  then show ?thesis using assms(2) quiet_inv [OF quiet_getGain [of p K], of K] by simp
next
  case (focus_step pos r)
  then show ?thesis using assms(2) quiet_inv [OF quiet_setFocus [of p K pos], of K] by simp
next
  case scan_step
  then show ?thesis using assms(2) quiet_inv [OF quiet_startAfScan] by blast
next
  case cancel_step
  then show ?thesis using assms(2) quiet_inv [of p "cancelAf p" K] by (simp add: cancelAf_def quiet_same)
next
  case (age_step r)
  have "quiet p p'" using age_step quiet_issue [of ClockMonotonic p] by (auto simp: afAgeMs_def Let_def split: if_splits)
  then show ?thesis using assms(2) quiet_inv by blast
qed

lemma alive_inv: "alive K p \<Longrightarrow> pipeline_inv K p"
  by (induction rule: alive.induct) (auto intro: new_inv life_step_inv)


end
