(* ===== verification/Preview.thy ===== *)
theory Preview
  imports Capture
begin

text \<open>
  The preview image end to end, and runs of the pipeline object from its construction: what
  \<open>processBayerToYuv\<close> puts in an RGBA buffer in terms of the demosaiced frame, a streaming session as a
  concrete execution, and the two sequences of calls that leave the pipeline unable to deliver.
\<close>

section \<open>The RGBA image\<close>

lemma length_fill_edges: "length (fill_edges w h rgb) = length rgb"
  unfolding fill_edges_def Let_def for_loop_1
  by (rule fold_invariant [where Q = "\<lambda>_. True" and P = "\<lambda>s. length s = length rgb"]) auto

lemma dm_process_length:
  assumes "dm_process d (Some bayer) (Some rgb) = (Some lin, d')" "3 \<le> unat (dp_width (dm_mParams d))"
  shows "length lin = length rgb"
proof (cases "dm_mInitialized d \<and> dm_mBayerBuf d \<noteq> None")
  case False
  then show ?thesis using assms(1) by (auto simp: dm_process_def split: bool.splits option.splits)
next
  case True
  then obtain b8 where "lin = fill_edges (unat (dp_width (dm_mParams d))) (unat (dp_height (dm_mParams d)))
      (for_loop 1 (unat (dp_height (dm_mParams d)) - 1) 1 (process_row (dm_mParams d) b8) rgb)"
    using assms(1) by (auto simp: dm_process_def Let_def)
  then show ?thesis using filled_length [OF process_rows_filled [OF assms(2) refl]] by (simp add: length_fill_edges)
qed

lemma ae_awb_config:
  "mConfig (doAutoExposure K rgb p) = mConfig p" "mRgbBuffer (doAutoExposure K rgb p) = mRgbBuffer p"
  "mConfig (doAutoWhiteBalance rgb p) = mConfig p" "mRgbBuffer (doAutoWhiteBalance rgb p) = mRgbBuffer p"
proof -
  obtain q ratio where q: "same_but_hold p q"
    "doAutoExposure K rgb p = q \<or> doAutoExposure K rgb p = ae_apply K (ae_request q ratio) q"
    using doAutoExposure_cases [of p K rgb] by auto
  obtain e g where eg: "ae_request q ratio = (e, g)" by fastforce
  have "mConfig (ae_apply K (e, g) q) = mConfig q" "mRgbBuffer (ae_apply K (e, g) q) = mRgbBuffer q"
    by (simp_all add: ae_apply_def setGain_def setExposure_def syscall_def issue_def Let_def)
  then show "mConfig (doAutoExposure K rgb p) = mConfig p" "mRgbBuffer (doAutoExposure K rgb p) = mRgbBuffer p"
    using q by (auto simp: same_but_hold_def eg)
  show "mConfig (doAutoWhiteBalance rgb p) = mConfig p" "mRgbBuffer (doAutoWhiteBalance rgb p) = mRgbBuffer p"
    by (auto simp: doAutoWhiteBalance_def Let_def split: option.split prod.split)
qed

lemma sint_small:
  assumes "n < 2 ^ 31" "unat (w :: u32) = n"
  shows "nat (sint w) = n"
proof -
  have "uint w = int n" using assms by (simp add: uint_nat)
  then have "sint w = int n"
    using assms(1) by (simp add: sint_uint signed_take_bit_int_eq_self)
  then show ?thesis by simp
qed

text \<open>What the colour science makes of one linear pixel.\<close>

definition final_pixel :: "kernel \<Rightarrow> CameraPipeline \<Rightarrow> byte \<times> byte \<times> byte \<Rightarrow> byte \<times> byte \<times> byte" where
  "final_pixel K p px =
     (case wb_ccm_pixel (cfg_ccm (mConfig p)) (isp_gain p 0) (isp_gain p 1) (isp_gain p 2) px of
        (r, g, b) \<Rightarrow> let lut = gamma_lut (k_powf K) (cfg_gamma (mConfig p)) in (lut ! unat r, lut ! unat g, lut ! unat b))"

lemma correct_colours_pixel:
  assumes rgb: "mRgbBuffer p = Some lin" and W: "W = unat (cfg_width (mConfig p))" and H: "H = unat (cfg_height (mConfig p))"
    and small: "W * H < 2 ^ 31" and len: "W * H * 3 \<le> length lin" and i: "i < W * H"
  shows "\<exists>out. mRgbBuffer (correct_colours K p) = Some out \<and> length out = length lin \<and>
    read_rgb out (3 * i) = final_pixel K p (read_rgb lin (3 * i))"
proof -
  let ?c = "mConfig p"
  define m where "m = applyWbAndCcm (cfg_ccm ?c) (W * H) (isp_gain p 0) (isp_gain p 1) (isp_gain p 2) lin"
  define out where "out = applyGamma (k_powf K) W H (cfg_gamma ?c) m"
  have "unat (cfg_width ?c * cfg_height ?c) = W * H"
    using small by (simp add: unat_word_ariths W H)
  then have "nat (sint (cfg_width ?c * cfg_height ?c)) = W * H" by (rule sint_small [OF small])
  then have o: "mRgbBuffer (correct_colours K p) = Some out"
    by (simp add: correct_colours_def Let_def rgb out_def m_def W H)
  have lm: "length m = length lin" using filled_length [OF applyWbAndCcm_filled, of "W * H" lin] len by (simp add: m_def)
  have lo: "length out = length lin" using filled_length [OF applyGamma_filled, of W H m] len lm by (simp add: out_def)
  have px: "read_rgb m (3 * i) = wb_ccm_pixel (cfg_ccm ?c) (isp_gain p 0) (isp_gain p 1) (isp_gain p 2) (read_rgb lin (3 * i))"
    unfolding m_def by (rule applyWbAndCcm_pixel) (use len i in auto)
  have "out ! k = gamma_lut (k_powf K) (cfg_gamma ?c) ! unat (m ! k)" if "k < W * H * 3" for k
    unfolding out_def by (rule applyGamma_nth) (use len lm that in auto)
  from this [of "3 * i"] this [of "3 * i + 1"] this [of "3 * i + 2"]
  have "read_rgb out (3 * i) = final_pixel K p (read_rgb lin (3 * i))"
    using i unfolding final_pixel_def px [symmetric] by (simp add: read_rgb_def Let_def)
  then show ?thesis using o lo by blast
qed

lemma write_output_copy:
  assumes W: "W = unat (cfg_width config)" and H: "H = unat (cfg_height config)" and small: "W * H * 4 < 2 ^ 31"
    and fmt: "fmt = HAL_PIXEL_FORMAT_RGBA_8888 \<or> fmt = HAL_PIXEL_FORMAT_IMPLEMENTATION_DEFINED"
    and len: "W * H * 3 \<le> length src" "W * H * 4 \<le> length out"
  obtains d where "write_output c config fmt (Some src) n out = (if cfg_flipV config then flipVertical W H 4 d else d)"
    "length d = length out" "\<forall>i<W * H. read_rgb d (4 * i) = read_rgb src (3 * i) \<and> d ! (4 * i + 3) = 255"
proof -
  obtain d where d: "rgbToRgba (Some src) (Some out) (cfg_width config) (cfg_height config) = Some d" "length d = length out"
    "\<And>i. i < W * H \<Longrightarrow> d ! (4 * i) = src ! (3 * i) \<and> d ! (4 * i + 1) = src ! (3 * i + 1) \<and>
       d ! (4 * i + 2) = src ! (3 * i + 2) \<and> d ! (4 * i + 3) = 255"
    using rgbToRgba_spec [of "cfg_width config" "cfg_height config" src out] small len W H by auto
  have "write_output c config fmt (Some src) n out = (if cfg_flipV config then flipVertical W H 4 d else d)"
    using fmt d(1) by (auto simp: write_output_def Let_def W H HAL_PIXEL_FORMAT_RGBA_8888_def
        HAL_PIXEL_FORMAT_IMPLEMENTATION_DEFINED_def HAL_PIXEL_FORMAT_YCBCR_420_888_def)
  then show thesis using that [of d] d(2,3) by (simp add: read_rgb_def)
qed

lemma flip_rgba:
  assumes "W * H * 4 \<le> length d" "x < W" "y < H" "k < 4"
  shows "flipVertical W H 4 d ! (4 * ((H - 1 - y) * W + x) + k) = d ! (4 * (y * W + x) + k)"
proof -
  have "flipVertical W H 4 d ! ((H - 1 - y) * (W * 4) + (4 * x + k)) = d ! ((H - 1 - (H - 1 - y)) * (W * 4) + (4 * x + k))"
    using assms by (intro flipVertical_nth) (auto simp: mult.commute mult.left_commute)
  moreover have "(H - 1 - y) * (W * 4) + (4 * x + k) = 4 * ((H - 1 - y) * W + x) + k"
    "y * (W * 4) + (4 * x + k) = 4 * (y * W + x) + k" by (simp_all add: algebra_simps)
  moreover have "H - 1 - (H - 1 - y) = y" using assms by simp
  ultimately show ?thesis by (simp only:)
qed

lemma write_output_rgba:
  assumes "W = unat (cfg_width config)" "H = unat (cfg_height config)" "W * H * 4 < 2 ^ 31"
    and "fmt = HAL_PIXEL_FORMAT_RGBA_8888 \<or> fmt = HAL_PIXEL_FORMAT_IMPLEMENTATION_DEFINED"
    and len: "W * H * 3 \<le> length src" "W * H * 4 \<le> length out"
  shows "length (write_output c config fmt (Some src) n out) = length out"
    and "x < W \<Longrightarrow> y < H \<Longrightarrow> let o' = write_output c config fmt (Some src) n out;
      row = (if cfg_flipV config then H - 1 - y else y); ofs = 4 * (row * W + x) in
    read_rgb o' ofs = read_rgb src (3 * (y * W + x)) \<and> o' ! (ofs + 3) = 255"
proof -
  obtain d where d: "write_output c config fmt (Some src) n out = (if cfg_flipV config then flipVertical W H 4 d else d)"
    "length d = length out" "\<forall>i<W * H. read_rgb d (4 * i) = read_rgb src (3 * i) \<and> d ! (4 * i + 3) = 255"
    by (rule write_output_copy [OF assms, of c n])
  show "length (write_output c config fmt (Some src) n out) = length out" by (simp add: d)
  assume xy: "x < W" "y < H"
  then have i: "y * W + x < W * H" using cell_less [OF xy] by (simp add: mult.commute)
  have row: "flipVertical W H 4 d ! (4 * ((H - 1 - y) * W + x) + k) = d ! (4 * (y * W + x) + k)" if "k < 4" for k
    using flip_rgba [OF _ xy that] len d(2) by simp
  show "let o' = write_output c config fmt (Some src) n out;
      row = (if cfg_flipV config then H - 1 - y else y); ofs = 4 * (row * W + x) in
    read_rgb o' ofs = read_rgb src (3 * (y * W + x)) \<and> o' ! (ofs + 3) = 255"
    using d(3) [rule_format, OF i] row [of 0] row [of 1] row [of 2] row [of 3] by (simp add: d(1) Let_def read_rgb_def)
qed

text \<open>
  C12. The preview image: with the image processor set up and buffers of sufficient size,
  \<open>processBayerToYuv\<close> for an RGBA format succeeds, and every pixel of the output is the demosaiced linear
  pixel with white balance and digital gain applied, colour-corrected, clamped and passed through
  the gamma table, with alpha 255, in the mirrored row when \<open>flipV\<close> is set. The gains are the ones left
  after this very frame's white balance update.
\<close>

theorem preview_image:
  assumes isp: "mDemosaic p = Some d" "mColorConv p = Some c" "mRgbBuffer p = Some rgb"
    and dm: "dm_process d (Some bayer) (Some rgb) = (Some lin, d')" "3 \<le> unat (dp_width (dm_mParams d))"
    and W: "W = unat (cfg_width (mConfig p))" and H: "H = unat (cfg_height (mConfig p))" and small: "W * H * 4 < 2 ^ 31"
    and fmt: "fmt = HAL_PIXEL_FORMAT_RGBA_8888 \<or> fmt = HAL_PIXEL_FORMAT_IMPLEMENTATION_DEFINED"
    and len: "W * H * 3 \<le> length rgb" "W * H * 4 \<le> length out"
  shows "\<exists>out' p'. processBayerToYuv K (Some bayer) (Some out) fmt p = (0, Some out', p') \<and> length out' = length out \<and>
    mConfig p' = mConfig p \<and>
    (\<forall>x<W. \<forall>y<H. let row = (if cfg_flipV (mConfig p) then H - 1 - y else y); ofs = 4 * (row * W + x) in
       read_rgb out' ofs = final_pixel K p' (read_rgb lin (3 * (y * W + x))) \<and> out' ! (ofs + 3) = 255)"
proof -
  define p1 where "p1 = p\<lparr>mRgbBuffer := Some lin, mDemosaic := Some d'\<rparr>"
  define p2 where "p2 = (if cfg_enableAE (mConfig p1) then doAutoExposure K (mRgbBuffer p1) p1 else p1)"
  define p3 where "p3 = (if cfg_enableAWB (mConfig p2) then doAutoWhiteBalance (mRgbBuffer p2) p2 else p2)"
  define p4 where "p4 = correct_colours K p3"
  have c3: "mConfig p3 = mConfig p" "mRgbBuffer p3 = Some lin"
    by (simp_all add: p3_def p2_def p1_def ae_awb_config)
  have c4: "mConfig p4 = mConfig p" "final_pixel K p4 = final_pixel K p3"
    by (simp_all add: p4_def correct_colours_def Let_def c3 final_pixel_def isp_gain_def fun_eq_iff)
  have W3: "W = unat (cfg_width (mConfig p3))" and H3: "H = unat (cfg_height (mConfig p3))"
    using W H by (simp_all add: c3)
  have llin: "length lin = length rgb" by (rule dm_process_length [OF dm])
  have run: "processBayerToYuv K (Some bayer) (Some out) fmt p =
      (0, Some (write_output c (mConfig p4) fmt (mRgbBuffer p4) (mRgbBufferSize p4) out), p4)"
    unfolding processBayerToYuv_def isp option.case prod.case dm(1) Let_def
      p1_def [symmetric] p2_def [symmetric] p3_def [symmetric] p4_def [symmetric] by (rule refl)
  have small': "W * H < 2 ^ 31" using small by linarith
  obtain src where src: "mRgbBuffer p4 = Some src"
    by (simp add: p4_def correct_colours_def Let_def c3(2))
  have px: "read_rgb src (3 * i) = final_pixel K p4 (read_rgb lin (3 * i)) \<and> length src = length lin" if "i < W * H" for i
  proof -
    have "W * H * 3 \<le> length lin" using len(1) llin by simp
    from correct_colours_pixel [OF c3(2) W3 H3 small' this that, of K] show ?thesis
      using src unfolding c4(2) p4_def [symmetric] by auto
  qed
  have "let o' = write_output c (mConfig p) fmt (Some src) (mRgbBufferSize p4) out;
        row = (if cfg_flipV (mConfig p) then H - 1 - y else y); ofs = 4 * (row * W + x) in
      read_rgb o' ofs = final_pixel K p4 (read_rgb lin (3 * (y * W + x))) \<and> o' ! (ofs + 3) = 255" if "x < W" "y < H" for x y
  proof -
    have "y * W + x < W * H" using cell_less [OF that] by (simp add: mult.commute)
    note px = px [OF this]
    then have "W * H * 3 \<le> length src" using len(1) llin by simp
    from write_output_rgba(2) [OF W H small fmt this len(2) that] px show ?thesis by (simp add: Let_def)
  qed
  moreover have "length (write_output c (mConfig p) fmt (Some src) (mRgbBufferSize p4) out) = length out"
  proof (rule write_output_rgba(1) [OF W H small fmt _ len(2)])
    show "W * H * 3 \<le> length src" using px [of 0] len(1) llin by (cases "W * H = 0") auto
  qed
  ultimately show ?thesis using run src c4(1) by (simp add: Let_def)
qed

definition sample_isp :: CameraPipeline where
  "sample_isp = sample_pipeline\<lparr>mDemosaic := Some sample_demosaic,
     mColorConv := Some \<lparr>cc_mWidth = 4, cc_mHeight = 3, cc_mInitialized = True\<rparr>, mRgbBuffer := Some (replicate 36 7),
     mConfig := sample_config\<lparr>cfg_width := 4, cfg_height := 3, cfg_flipV := True\<rparr>\<rparr>"

theorem preview_image_witness:
  "\<exists>out' p'. processBayerToYuv sample_kernel (Some (replicate 24 1)) (Some (replicate 48 0)) 1 sample_isp = (0, Some out', p') \<and>
     out' ! (4 * ((3 - 1 - 0) * 4 + 1) + 3) = 255"
proof -
  obtain lin d' where dm: "dm_process sample_demosaic (Some (replicate 24 1)) (Some (replicate 36 7)) = (Some lin, d')"
    by (simp add: dm_process_def Let_def)
  have isp: "mDemosaic sample_isp = Some sample_demosaic" "mColorConv sample_isp = Some \<lparr>cc_mWidth = 4, cc_mHeight = 3, cc_mInitialized = True\<rparr>"
    "mRgbBuffer sample_isp = Some (replicate 36 7)" and w: "3 \<le> unat (dp_width (dm_mParams sample_demosaic))"
    and W: "4 = unat (cfg_width (mConfig sample_isp))" and H: "3 = unat (cfg_height (mConfig sample_isp))"
    and flip: "cfg_flipV (mConfig sample_isp)"
    by (simp_all add: sample_isp_def)
  have fmt: "(1 :: u32) = HAL_PIXEL_FORMAT_RGBA_8888 \<or> (1 :: u32) = HAL_PIXEL_FORMAT_IMPLEMENTATION_DEFINED"
    by (simp add: HAL_PIXEL_FORMAT_RGBA_8888_def)
  obtain out' p' where "processBayerToYuv sample_kernel (Some (replicate 24 1)) (Some (replicate 48 0)) 1 sample_isp = (0, Some out', p')"
    and px: "\<forall>x<4. \<forall>y<3. let row = (if cfg_flipV (mConfig sample_isp) then 3 - 1 - y else y); ofs = 4 * (row * 4 + x) in
       read_rgb out' ofs = final_pixel sample_kernel p' (read_rgb lin (3 * (y * 4 + x))) \<and> out' ! (ofs + 3) = 255"
    using preview_image [OF isp dm w W H _ fmt, of "replicate 48 0" sample_kernel] by auto
  moreover have "out' ! (4 * ((3 - 1 - 0) * 4 + 1) + 3) = 255"
    using px [rule_format, of 1 0] flip by (simp add: Let_def)
  ultimately show ?thesis by blast
qed

section \<open>A session\<close>

text \<open>Camera 0 opened, configured for raw frames and started, on the kernel that always succeeds.\<close>

definition raw_config :: PipelineConfig where
  "raw_config = sample_config\<lparr>cfg_enableISP := False, cfg_gamma := 0\<rparr>"

definition sample_opened :: CameraPipeline where
  "sample_opened = snd (pipeline_open sample_kernel 0 sample_pipeline)"

definition sample_configured :: CameraPipeline where
  "sample_configured = snd (the (configure sample_kernel raw_config sample_opened))"

definition sample_streaming :: CameraPipeline where
  "sample_streaming = snd (startStreaming sample_kernel sample_configured)"

lemma sample_opened_unmapped: "mBufferCount sample_opened = 0"
  by (simp add: sample_opened_def pipeline_open_def sample_pipeline_def CameraPipeline_new_def syscall_def issue_def
      Let_def sample_kernel_def initFocuser_def close_video_def V4L2_CAP_VIDEO_CAPTURE_def V4L2_CAP_STREAMING_def)

lemma sample_configures:
  "configure sample_kernel raw_config sample_opened = Some (fst (the (configure sample_kernel raw_config sample_opened)),
     snd (the (configure sample_kernel raw_config sample_opened)))"
proof -
  have "\<not> Option.is_none (configure sample_kernel raw_config sample_opened)" by code_simp
  then show ?thesis by (auto simp: Option.is_none_def)
qed

lemma sample_streaming_alive: "alive sample_kernel sample_streaming"
proof -
  have "alive sample_kernel sample_pipeline" unfolding sample_pipeline_def by (rule alive.born)
  then have "alive sample_kernel sample_opened"
    unfolding sample_opened_def by (rule alive.step) (rule life_step.open_step [OF surjective_pairing])
  then have "alive sample_kernel sample_configured"
    unfolding sample_configured_def
    by (rule alive.step) (rule life_step.configure_step [OF sample_opened_unmapped sample_configures])
  then show ?thesis
    unfolding sample_streaming_def by (rule alive.step) (rule life_step.start_step [OF surjective_pairing])
qed


theorem capture_returns_the_buffer_witness:
  "pipeline_inv sample_kernel (snd (snd (captureFrame sample_kernel (Some (replicate 128 0)) 1 sample_streaming)))"
proof -
  obtain ret out' p' where r: "captureFrame sample_kernel (Some (replicate 128 0)) 1 sample_streaming = (ret, out', p')"
    by (metis prod_cases3)
  have "pipeline_inv sample_kernel sample_streaming"
    by (rule alive_inv [OF sample_streaming_alive])
  from capture_returns_the_buffer [OF r this] show ?thesis by (simp add: r)
qed

theorem capture_wait_bounded_witness:
  "polls (p_log (snd (snd (captureFrame sample_kernel (Some []) 1 (sample_pipeline\<lparr>mState := PIPELINE_STREAMING\<rparr>))))) \<le> 6"
proof -
  let ?p = "sample_pipeline\<lparr>mState := PIPELINE_STREAMING\<rparr>"
  have st: "mState ?p = PIPELINE_STREAMING" by simp
  obtain ret out' p' where r: "captureFrame sample_kernel (Some []) 1 ?p = (ret, out', p')" by (metis prod_cases3)
  have "polls (p_log ?p) = 0" by (simp add: sample_pipeline_def CameraPipeline_new_def)
  with capture_wait_bounded [OF st r] show ?thesis by (simp add: r)
qed

section \<open>Sequences of calls that end badly\<close>

text \<open>
  Configuring twice without stopping in between leaks the first set of mappings: after open, configure,
  configure and close no descriptor is open but four mappings are still alive, and no field names them.
\<close>

theorem reconfigure_leaks_mappings:
  "let p = snd (pipeline_close sample_kernel (snd (the (configure sample_kernel raw_config sample_configured)))) in
   open_fds sample_kernel (p_log p) = [] \<and> length (mappings sample_kernel (p_log p)) = 4 \<and>
   list_all (\<lambda>b. vb_start b = None) (mBuffers p)"
  by code_simp

lemma issue_simps [simp]:
  "p_log (issue r p) = r # p_log p" "mFd (issue r p) = mFd p" "mSensorFd (issue r p) = mSensorFd p"
  "mBufferCount (issue r p) = mBufferCount p" "mCameraId (issue r p) = mCameraId p" "mState (issue r p) = mState p"
  "mCurrentExposure (issue r p) = mCurrentExposure p" "mCurrentGain (issue r p) = mCurrentGain p"
  by (simp_all add: issue_def)

lemma unmap_loop_log:
  "\<exists>rs. p_log (fold unmap_buffer is p) = rs @ p_log p \<and> (\<forall>r\<in>set rs. \<exists>a n. r = Munmap a n)"
proof (induction "is" arbitrary: p)
  case (Cons i "is")
  obtain rs where rs: "p_log (fold unmap_buffer is (unmap_buffer i p)) = rs @ p_log (unmap_buffer i p)"
      "\<forall>r\<in>set rs. \<exists>a n. r = Munmap a n"
    using Cons.IH by blast
  obtain us where "p_log (unmap_buffer i p) = us @ p_log p" "\<forall>r\<in>set us. \<exists>a n. r = Munmap a n"
    by (cases "vb_start (mBuffers p ! i)") (auto simp: unmap_buffer_def issue_def)
  then show ?case using rs by (intro exI [of _ "rs @ us"]) auto
qed simp

lemma ov5693_log: "\<exists>rs. p_log (ov5693_init_via_i2c fd p) = rs @ p_log p \<and> (\<forall>r\<in>set rs. \<exists>b. r = I2cWrite fd b)"
proof -
  have "\<exists>rs. p_log (fold (\<lambda>rv. issue (I2cWrite fd (i2c_bytes rv))) regs p) = rs @ p_log p \<and> (\<forall>r\<in>set rs. \<exists>b. r = I2cWrite fd b)" for regs
  proof (induction regs arbitrary: p)
    case (Cons rv regs)
    obtain rs where "p_log (fold (\<lambda>rv. issue (I2cWrite fd (i2c_bytes rv))) regs (issue (I2cWrite fd (i2c_bytes rv)) p)) =
        rs @ p_log (issue (I2cWrite fd (i2c_bytes rv)) p)" "\<forall>r\<in>set rs. \<exists>b. r = I2cWrite fd b" using Cons.IH by blast
    then show ?case by (intro exI [of _ "rs @ [I2cWrite fd (i2c_bytes rv)]"]) auto
  qed simp
  then show ?thesis by (simp add: ov5693_init_via_i2c_def)
qed

lemma stopped_forgets:
  assumes "mStreaming p" "stopStreaming K p = (r, p1)"
  shows "mBufferCount p1 = 0 \<and> mState p1 = PIPELINE_OPENED \<and> queued K (p_log p1) i = 0"
proof -
  let ?q = "fold unmap_buffer [0..<mBufferCount p] (issue (StreamOff (mFd p)) p)"
  have p1: "p1 = ?q\<lparr>mBufferCount := 0, mStreaming := False, mState := PIPELINE_OPENED\<rparr>"
    using assms by (auto simp: stopStreaming_def syscall_def Let_def for_loop_1 [unfolded One_nat_def])
  obtain rs where rs: "p_log ?q = rs @ StreamOff (mFd p) # p_log p" "\<forall>r\<in>set rs. \<exists>a n. r = Munmap a n"
    using unmap_loop_log [of "[0..<mBufferCount p]" "issue (StreamOff (mFd p)) p"] by auto
  have "queued K (rs @ l) i = queued K l i" for l using rs(2) by (induction rs) auto
  then show ?thesis by (simp add: p1 rs(1))
qed

lemma start_without_buffers:
  assumes "mBufferCount p = 0" "startStreaming K p = (0, q)"
  shows "mBufferCount q = 0 \<and> mState q = PIPELINE_STREAMING \<and> queued K (p_log q) i = queued K (p_log p) i"
proof -
  have op: "mState p = PIPELINE_OPENED" using assms(2) by (auto simp: startStreaming_def split: if_splits)
  have nq: "queue_buffers K 0 p = (0, p)" using assms(1) by (simp add: queue_buffers.simps)
  define p1 where "p1 = issue (StreamOn (mFd p)) p"
  obtain rs where rs: "p_log (ov5693_init_via_i2c (mSensorFd p1) (issue (Usleep 300000) p1)) = rs @ p_log (issue (Usleep 300000) p1)"
      "\<forall>r\<in>set rs. \<exists>b. r = I2cWrite (mSensorFd p1) b" using ov5693_log by blast
  have w: "queued K (rs @ l) i = queued K l i" for l using rs(2) by (induction rs) auto
  have c: "mBufferCount (ov5693_init_via_i2c fd (issue (Usleep 300000) p1)) = mBufferCount p" for fd
    using quiet_ov5693 [of "issue (Usleep 300000) p1" fd] by (simp add: quiet_def p1_def)
  define p2 where "p2 = (if mCameraId p = 0 then snd (setGain K 60 (snd (setExposure K 800 (p1\<lparr>mCurrentExposure := 800, mCurrentGain := 60\<rparr>))))
      else (ov5693_init_via_i2c (mSensorFd p1) (issue (Usleep 300000) p1))\<lparr>mCurrentExposure := 11904, mCurrentGain := 64\<rparr>)"
  have id: "mCameraId p1 = mCameraId p" by (simp add: p1_def)
  have q: "q = p2\<lparr>mStreaming := True, mState := PIPELINE_STREAMING\<rparr>"
    using assms(2) op nq
    by (cases "mCameraId p = 0")
      (auto simp: startStreaming_def syscall_def p1_def [symmetric] p2_def Let_def setExposure_def setGain_def id split: if_splits)
  have "mBufferCount p2 = 0 \<and> queued K (p_log p2) i = queued K (p_log p) i"
    using assms(1) rs(1) c w by (simp add: p2_def p1_def setExposure_def setGain_def syscall_def Let_def)
  then show ?thesis by (simp add: q)
qed

text \<open>
  A stream that was stopped cannot be restarted without a new \<open>configure\<close>: \<open>stopStreaming\<close> forgets the
  buffers, so a second \<open>startStreaming\<close> succeeds with no buffer queued, and from then on every
  \<open>captureFrame\<close> fails.
\<close>

theorem restart_delivers_nothing:
  assumes "mStreaming p" "stopStreaming K p = (r, p1)" "startStreaming K p1 = (0, p2)"
    and c: "captureFrame K (Some out) fmt p2 = (ret, out', p3)"
  shows "mState p2 = PIPELINE_STREAMING \<and> (\<forall>i. queued K (p_log p2) i = 0) \<and> ret < 0 \<and> out' = Some out"
proof -
  have p1: "mBufferCount p1 = 0" "\<And>i. queued K (p_log p1) i = 0" using stopped_forgets [OF assms(1,2)] by auto
  have p2: "mBufferCount p2 = 0" "mState p2 = PIPELINE_STREAMING" "\<And>i. queued K (p_log p2) i = 0"
    using start_without_buffers [OF p1(1) assms(3)] p1(2) by auto
  obtain r1 q1 r2 q2 b q3 ret4 out4 q4 r5 q5 where "poll_frame K 0 p2 = (r1, q1)" "quiet p2 q1"
    "p_log q2 = DQBuf (mFd q1) # p_log q1" "r2 = k_ret K (p_log q2)" "b = k_dqbuf K (p_log q2)"
    "adjusts q2 q3" "adjusts q3 q4" "p_log q5 = QBuf (mFd q4) (dq_index b) # p_log q4" "r5 = k_ret K (p_log q5)"
    "quiet p2 q2" "quiet p2 q3" "quiet p2 q5"
    and run: "captureFrame K (Some out) fmt p2 =
        (if r1 < 0 then (r1, Some out, q1) else if r2 < 0 then (r2, Some out, q2)
         else if mBufferCount p2 \<le> dq_index b then (- EINVAL, Some out, q3)
         else if r5 < 0 then (r5, out4, q5) else (ret4, out4, q5))"
    by (rule captureFrame_run [OF p2(2), of K out fmt])
  show ?thesis using p2 c unfolding run by (auto split: if_splits)
qed

theorem restart_delivers_nothing_witness:
  "\<exists>p1 p2. stopStreaming sample_kernel sample_streaming = (0, p1) \<and> startStreaming sample_kernel p1 = (0, p2) \<and>
     fst (captureFrame sample_kernel (Some [0]) 1 p2) < 0"
proof -
  have st: "mStreaming sample_streaming" by code_simp
  have r: "fst (stopStreaming sample_kernel sample_streaming) = 0"
    "fst (startStreaming sample_kernel (snd (stopStreaming sample_kernel sample_streaming))) = 0" by code_simp+
  obtain p1 where p1: "stopStreaming sample_kernel sample_streaming = (0, p1)" using r(1) by (metis prod.collapse)
  obtain p2 where p2: "startStreaming sample_kernel p1 = (0, p2)" using r(2) p1 by (metis prod.collapse snd_conv)
  obtain ret out' p3 where c: "captureFrame sample_kernel (Some [0]) 1 p2 = (ret, out', p3)" by (metis prod_cases3)
  show ?thesis using restart_delivers_nothing [OF st p1 p2 c] p1 p2 c by auto
qed

end
