(* ===== verification/In_Flight.thy ===== *)
theory In_Flight
  imports Mocha_Prelude
begin

text \<open>
  \<open>camera/InFlightTracker.h\<close>: the table of capture requests in flight, a \<open>std::map\<close> from frame numbers,
  held here as the list of its entries in key order. Every method takes the tracker's mutex for its
  whole body, so each is one step. The interface \<open>request_table\<close> is what the camera device relies on.
\<close>

record InFlightRequest =
  rq_frameNumber :: u32
  rq_outputBuffer :: "nat option"
  rq_markedError :: bool

type_synonym InFlightTracker = "(u32 \<times> InFlightRequest) list"

text \<open>\<open>mContexts[key] = value\<close>\<close>

fun map_assign :: "u32 \<Rightarrow> 'v \<Rightarrow> (u32 \<times> 'v) list \<Rightarrow> (u32 \<times> 'v) list" where
  "map_assign k v [] = [(k, v)]"
| "map_assign k v ((k', v') # m) =
     (if k < k' then (k, v) # (k', v') # m
      else if k = k' then (k, v) # m
      else (k', v') # map_assign k v m)"

definition tracker_add :: "u32 \<Rightarrow> nat option \<Rightarrow> InFlightTracker \<Rightarrow> InFlightTracker" where
  "tracker_add frameNumber outputBuffer t =
     map_assign frameNumber
       \<lparr>rq_frameNumber = frameNumber, rq_outputBuffer = outputBuffer, rq_markedError = False\<rparr> t"

definition tracker_remove :: "u32 \<Rightarrow> InFlightTracker \<Rightarrow> bool \<times> InFlightTracker" where
  "tracker_remove frameNumber t =
     (map_of t frameNumber \<noteq> None, filter (\<lambda>e. fst e \<noteq> frameNumber) t)"

definition markAllAsError :: "InFlightTracker \<Rightarrow> InFlightTracker" where
  "markAllAsError t = map (\<lambda>(k, r). (k, r\<lparr>rq_markedError := True\<rparr>)) t"

definition isError :: "u32 \<Rightarrow> InFlightTracker \<Rightarrow> bool" where
  "isError frameNumber t = (case map_of t frameNumber of None \<Rightarrow> False | Some r \<Rightarrow> rq_markedError r)"

definition tracker_count :: "InFlightTracker \<Rightarrow> nat" where
  "tracker_count t = length t"

definition drainAll :: "InFlightTracker \<Rightarrow> u32 list \<times> InFlightTracker" where
  "drainAll t = (map fst t, [])"

section \<open>The table as a map\<close>

text \<open>The map invariant of \<open>std::map\<close>: keys strictly increasing.\<close>

definition table_ok :: "InFlightTracker \<Rightarrow> bool" where
  "table_ok t \<longleftrightarrow> sorted_wrt (<) (map fst t)"

text \<open>What the device sees of a frame: not in flight, or in flight with its error mark.\<close>

definition in_flight :: "InFlightTracker \<Rightarrow> u32 \<Rightarrow> bool option" where
  "in_flight t frame = map_option rq_markedError (map_of t frame)"

lemma set_map_assign: "fst ` set (map_assign k v m) = insert k (fst ` set m)"
  by (induction k v m rule: map_assign.induct) auto

lemma map_assign_sorted: "sorted_wrt (<) (map fst m) \<Longrightarrow> sorted_wrt (<) (map fst (map_assign k v m))"
proof (induction k v m rule: map_assign.induct)
  case (2 k v k' v' m)
  have "\<forall>x\<in>fst ` set (map_assign k v m). k' < x" if "k' < k"
    using 2 that by (auto simp: set_map_assign)
  then show ?case using 2 by (auto simp: not_less_iff_gr_or_eq less_trans)
qed simp

lemma map_of_assign:
  "sorted_wrt (<) (map fst m) \<Longrightarrow> map_of (map_assign k v m) = (map_of m)(k \<mapsto> v)"
proof (induction k v m rule: map_assign.induct)
  case (2 k v k' v' m)
  then show ?case by (auto simp: fun_eq_iff)
qed auto

lemma map_of_remove: "map_of (filter (\<lambda>e. fst e \<noteq> k) m) = (map_of m)(k := None)"
  by (induction m) (auto simp: fun_eq_iff)

locale request_table =
  fixes ok :: "'t \<Rightarrow> bool" and look :: "'t \<Rightarrow> 'k \<Rightarrow> bool option"
    and add :: "'k \<Rightarrow> 'b \<Rightarrow> 't \<Rightarrow> 't" and remove :: "'k \<Rightarrow> 't \<Rightarrow> 't" and flag :: "'t \<Rightarrow> 't"
    and drain :: "'t \<Rightarrow> 'k list \<times> 't" and size_of :: "'t \<Rightarrow> nat"
  assumes add_ok: "ok t \<Longrightarrow> ok (add k b t)"
    and remove_ok: "ok t \<Longrightarrow> ok (remove k t)"
    and flag_ok: "ok t \<Longrightarrow> ok (flag t)"
    and look_add: "ok t \<Longrightarrow> look (add k b t) = (look t)(k \<mapsto> False)"
    and look_remove: "ok t \<Longrightarrow> look (remove k t) = (look t)(k := None)"
    and look_flag: "ok t \<Longrightarrow> look (flag t) k = map_option (\<lambda>_. True) (look t k)"
    and drain_keys: "ok t \<Longrightarrow> set (fst (drain t)) = dom (look t) \<and> distinct (fst (drain t))"
    and drain_empty: "look (snd (drain t)) = Map.empty \<and> ok (snd (drain t))"
    and size_dom: "ok t \<Longrightarrow> size_of t = card (dom (look t))"
begin

text \<open>Nothing in flight.\<close>

definition idle :: "'t \<Rightarrow> bool" where
  "idle t \<longleftrightarrow> ok t \<and> look t = Map.empty"

lemma idle_after_request: "idle t \<Longrightarrow> idle (remove k (add k b t))"
  by (simp add: idle_def add_ok remove_ok look_add look_remove)

lemma idle_not_flagged: "idle t \<Longrightarrow> look t k = None"
  by (simp add: idle_def)

lemma added_not_flagged: "idle t \<Longrightarrow> look (add k b t) k = Some False"
  by (simp add: idle_def look_add)

lemma idle_drain: "idle t \<Longrightarrow> fst (drain (flag t)) = [] \<and> idle (snd (drain (flag t)))"
  using drain_keys [of "flag t"] drain_empty [of "flag t"] look_flag [of t]
  by (auto simp: idle_def flag_ok fun_eq_iff dom_def)

lemma idle_size: "idle t \<longleftrightarrow> ok t \<and> size_of t = 0 \<and> finite (dom (look t))"
  using size_dom by (auto simp: idle_def)

end

interpretation tracker: request_table table_ok in_flight tracker_add "\<lambda>k t. snd (tracker_remove k t)"
  markAllAsError drainAll tracker_count
proof unfold_locales
  have keys: "dom (in_flight t) = fst ` set t" for t
    by (auto simp: in_flight_def dom_map_of_conv_image_fst [symmetric] dom_def)
  show "table_ok (tracker_add k b t)" if "table_ok t" for k b t
    using that by (simp add: table_ok_def tracker_add_def map_assign_sorted)
  show "table_ok (snd (tracker_remove k t))" if "table_ok t" for k t
    using that by (auto simp: table_ok_def tracker_remove_def sorted_wrt_map intro: sorted_wrt_filter)
  show "table_ok (markAllAsError t)" if "table_ok t" for t
    using that by (simp add: table_ok_def markAllAsError_def comp_def case_prod_unfold)
  show "in_flight (tracker_add k b t) = (in_flight t)(k \<mapsto> False)" if "table_ok t" for k b t
    using that by (auto simp: in_flight_def tracker_add_def table_ok_def map_of_assign fun_eq_iff)
  show "in_flight (snd (tracker_remove k t)) = (in_flight t)(k := None)" for k t
    by (auto simp: in_flight_def tracker_remove_def map_of_remove fun_eq_iff)
  show "in_flight (markAllAsError t) k = map_option (\<lambda>_. True) (in_flight t k)" for t k
    by (induction t) (auto simp: in_flight_def markAllAsError_def)
  show "set (fst (drainAll t)) = dom (in_flight t) \<and> distinct (fst (drainAll t))" if "table_ok t" for t
    using that keys by (auto simp: drainAll_def table_ok_def strict_sorted_iff)
  show "in_flight (snd (drainAll t)) = Map.empty \<and> table_ok (snd (drainAll t))" for t
    by (simp add: drainAll_def in_flight_def table_ok_def fun_eq_iff)
  show "tracker_count t = card (dom (in_flight t))" if "table_ok t" for t
    using that keys [of t] distinct_card [of "map fst t"] by (simp add: tracker_count_def table_ok_def strict_sorted_iff)
qed

lemma isError_in_flight: "isError f t \<longleftrightarrow> in_flight t f = Some True"
  by (auto simp: isError_def in_flight_def split: option.split)

end
