(* ===== verification/Still_Image.thy ===== *)
theory Still_Image
  imports Auto_Control
begin

text \<open>
  The still image path: \<open>camera/JpegEncoder.cpp\<close>, which feeds an RGBA image to libjpeg row by row through a
  destination manager over a fixed buffer, and the helpers of \<open>camera/MochaCameraHAL.cpp\<close> that resize the
  image (\<open>upscaleRGBA\<close>) and splice an EXIF segment into a JPEG (\<open>insertExifApp1\<close>). libjpeg itself is a
  parameter: the calls the encoder makes, as functions of the library's state.
\<close>

section \<open>The destination manager\<close>

record jpeg_dest_mgr =
  jd_next :: nat
  jd_free :: nat
  jd_buffer :: "byte list"
  jd_bufferSize :: nat
  jd_overflow :: bool

definition dest_init_destination :: "jpeg_dest_mgr \<Rightarrow> jpeg_dest_mgr" where
  "dest_init_destination dest = dest\<lparr>jd_next := 0, jd_free := jd_bufferSize dest, jd_overflow := False\<rparr>"

definition dest_empty_output_buffer :: "jpeg_dest_mgr \<Rightarrow> bool \<times> jpeg_dest_mgr" where
  "dest_empty_output_buffer dest = (False, dest\<lparr>jd_overflow := True\<rparr>)"

text \<open>The library: \<open>lj_start\<close> stands for the calls up to \<open>jpeg_start_compress\<close>, which run \<open>init_destination\<close>;
  the others for the call of that name. Each may move bytes into the destination and may call the
  destination manager's \<open>empty_output_buffer\<close>, and each may run into an error: the encoder keeps the
  handlers of \<open>jpeg_std_error\<close>, whose \<open>error_exit\<close> ends the process.\<close>

datatype 'a call = Returned 'a | Exited

record 'c libjpeg =
  lj_start :: "nat \<Rightarrow> nat \<Rightarrow> int \<Rightarrow> jpeg_dest_mgr \<Rightarrow> ('c \<times> jpeg_dest_mgr) call"
  lj_next_scanline :: "'c \<Rightarrow> nat"
  lj_write_scanlines :: "byte list \<Rightarrow> 'c \<Rightarrow> jpeg_dest_mgr \<Rightarrow> ('c \<times> jpeg_dest_mgr) call"
  lj_finish :: "'c \<Rightarrow> jpeg_dest_mgr \<Rightarrow> ('c \<times> jpeg_dest_mgr) call"

section \<open>The encoder\<close>

definition rgb_row :: "byte list \<Rightarrow> nat \<Rightarrow> nat \<Rightarrow> byte list \<Rightarrow> byte list" where
  "rgb_row rgba width src rgbRow =
     for_loop 1 width 0 (\<lambda>x row.
       row[x * 3 + 0 := rgba ! (src + (x * 4 + 0)), x * 3 + 1 := rgba ! (src + (x * 4 + 1)),
           x * 3 + 2 := rgba ! (src + (x * 4 + 2))]) rgbRow"

partial_function (option) encode_rows ::
    "('c, 'x) libjpeg_scheme \<Rightarrow> byte list \<Rightarrow> nat \<Rightarrow> nat \<Rightarrow> byte list \<Rightarrow> 'c \<Rightarrow> jpeg_dest_mgr \<Rightarrow> ('c \<times> jpeg_dest_mgr) call option" where
  "encode_rows lj rgba width height rgbRow c dest =
     (if lj_next_scanline lj c < height then
        let rgbRow = rgb_row rgba width (lj_next_scanline lj c * (width * 4)) rgbRow
        in case lj_write_scanlines lj rgbRow c dest of
             Exited \<Rightarrow> Some Exited
           | Returned (c, dest) \<Rightarrow>
               if jd_overflow dest then Some (Returned (c, dest)) else encode_rows lj rgba width height rgbRow c dest
      else Some (Returned (c, dest)))"

text \<open>\<open>malloc\<close> is the result of allocating the row. The value is the return code, the destination buffer
  and \<open>*jpegSize\<close>, which an allocation failure leaves as it was. Not returning is \<open>None\<close>, ending the
  process \<open>Exited\<close>.\<close>

definition encodeRGBA ::
    "('c, 'x) libjpeg_scheme \<Rightarrow> byte list option \<Rightarrow> byte list \<Rightarrow> nat \<Rightarrow> nat \<Rightarrow> int \<Rightarrow> byte list \<Rightarrow> nat \<Rightarrow> nat \<Rightarrow>
     (int \<times> byte list \<times> nat) call option" where
  "encodeRGBA lj malloc rgba width height quality out outputSize jpegSize =
     (let dest = \<lparr>jd_next = 0, jd_free = 0, jd_buffer = out, jd_bufferSize = outputSize, jd_overflow = False\<rparr>
      in case lj_start lj width height quality dest of
           Exited \<Rightarrow> Some Exited
         | Returned (c, dest) \<Rightarrow>
             (case malloc of
                None \<Rightarrow> Some (Returned (- ENOMEM, jd_buffer dest, jpegSize))
              | Some rgbRow \<Rightarrow>
                  (case encode_rows lj rgba width height rgbRow c dest of
                     None \<Rightarrow> None
                   | Some Exited \<Rightarrow> Some Exited
                   | Some (Returned (c, dest)) \<Rightarrow>
                       (case lj_finish lj c dest of
                          Exited \<Rightarrow> Some Exited
                        | Returned (c, dest) \<Rightarrow>
                            let jpegSize = outputSize - jd_free dest
                            in Some (Returned (if jd_overflow dest then - ENOSPC else 0, jd_buffer dest, jpegSize))))))"

section \<open>Resizing\<close>

text \<open>\<open>dst\<close> is the result of \<open>malloc\<close>. The products fit in an \<open>int\<close> for the sizes the device uses.\<close>

definition upscaleRGBA :: "byte list option \<Rightarrow> byte list \<Rightarrow> nat \<Rightarrow> nat \<Rightarrow> nat \<Rightarrow> nat \<Rightarrow> byte list option" where
  "upscaleRGBA dst src srcW srcH dstW dstH =
     (case dst of
        None \<Rightarrow> None
      | Some dst \<Rightarrow>
          Some (for_loop 1 dstH 0 (\<lambda>y dst.
            let srcY = y * srcH div dstH
            in for_loop 1 dstW 0 (\<lambda>x dst.
                 let srcX = x * srcW div dstW
                 in write_at dst ((y * dstW + x) * 4) (take 4 (drop ((srcY * srcW + srcX) * 4) src))) dst) dst))"

section \<open>EXIF\<close>

definition exif_segment :: "int \<Rightarrow> int \<Rightarrow> byte list" where
  "exif_segment width height =
     [0xFF, 0xE1, 0x2E, 0x00, 0x45, 0x78, 0x69, 0x66, 0x00, 0x00,
      0x49, 0x49, 0x2A, 0x00, 0x08, 0x00, 0x00, 0x00, 0x02, 0x00,
      0x12, 0x01, 0x03, 0x00, 0x01, 0x00, 0x00, 0x00,
      word_of_int (width AND 0xFF), word_of_int (drop_bit 8 width AND 0xFF), 0x00, 0x00,
      0x13, 0x01, 0x03, 0x00, 0x01, 0x00, 0x00, 0x00,
      word_of_int (height AND 0xFF), word_of_int (drop_bit 8 height AND 0xFF), 0x00, 0x00,
      0x00, 0x00, 0x00, 0x00]"

text \<open>\<open>tmp\<close> tells whether the temporary buffer could be allocated.\<close>

definition insertExifApp1 :: "bool \<Rightarrow> int \<Rightarrow> int \<Rightarrow> byte list \<times> nat \<Rightarrow> byte list \<times> nat" where
  "insertExifApp1 tmp width height jpeg =
     (case jpeg of (buf, jpegSize) \<Rightarrow>
        if jpegSize < 2 \<or> buf ! 0 \<noteq> 0xFF \<or> buf ! 1 \<noteq> 0xD8 then (buf, jpegSize)
        else if tmp
        then (write_at buf 0 (take 2 buf @ exif_segment width height @ take (jpegSize - 2) (drop 2 buf)), jpegSize + 48)
        else (buf, jpegSize))"

section \<open>The encoder feeds every row, in order\<close>

text \<open>The reference: compress a list of rows, stopping when the destination is full.\<close>

fun compress_rows :: "('c, 'x) libjpeg_scheme \<Rightarrow> byte list list \<Rightarrow> 'c \<Rightarrow> jpeg_dest_mgr \<Rightarrow> ('c \<times> jpeg_dest_mgr) call" where
  "compress_rows lj [] c dest = Returned (c, dest)"
| "compress_rows lj (row # rows) c dest =
     (case lj_write_scanlines lj row c dest of
        Exited \<Rightarrow> Exited
      | Returned (c, dest) \<Rightarrow> if jd_overflow dest then Returned (c, dest) else compress_rows lj rows c dest)"

text \<open>What the library documents of its counter of scanlines: a call of \<open>jpeg_write_scanlines\<close> with one row
  advances it by one, or leaves it when the destination is full; \<open>jpeg_finish_compress\<close> is an error while
  the counter is below the height of the image.\<close>

definition counts_scanlines :: "('c, 'x) libjpeg_scheme \<Rightarrow> bool" where
  "counts_scanlines lj \<longleftrightarrow>
     (\<forall>row c dest c' dest'. lj_write_scanlines lj row c dest = Returned (c', dest') \<longrightarrow>
        lj_next_scanline lj c' = (if jd_overflow dest' then lj_next_scanline lj c else Suc (lj_next_scanline lj c)))"

definition finishes_complete_images :: "('c, 'x) libjpeg_scheme \<Rightarrow> nat \<Rightarrow> bool" where
  "finishes_complete_images lj height \<longleftrightarrow> (\<forall>c dest. lj_next_scanline lj c < height \<longrightarrow> lj_finish lj c dest = Exited)"

definition image_row :: "byte list \<Rightarrow> nat \<Rightarrow> nat \<Rightarrow> byte list" where
  "image_row rgba width y = concat (map (\<lambda>x. map (\<lambda>c. rgba ! ((y * width + x) * 4 + c)) [0, 1, 2]) [0..<width])"

lemma length_image_row: "length (image_row rgba width y) = width * 3"
  by (simp add: image_row_def length_concat comp_def sum_list_triv)

lemma image_row_nth:
  assumes "x < width" "c < 3"
  shows "image_row rgba width y ! (3 * x + c) = rgba ! ((y * width + x) * 4 + c)"
proof -
  have "concat (map (\<lambda>x. map (\<lambda>c. f x c) [0, 1, 2]) [0..<n]) ! (3 * x + c) = f x c"
    if "x < n" "c < 3" for f :: "nat \<Rightarrow> nat \<Rightarrow> byte" and n x c
    using that
  proof (induction n)
    case (Suc n)
    have len: "length (concat (map (\<lambda>x. map (\<lambda>c. f x c) [0, 1, 2]) [0..<n])) = n * 3"
      by (simp add: length_concat comp_def sum_list_triv)
    show ?case
    proof (cases "x < n")
      case True
      then show ?thesis using Suc len by (simp add: nth_append)
    next
      case False
      then have "x = n" using Suc by simp
      then show ?thesis using Suc.prems(2) len by (auto simp: nth_append less_Suc_eq numeral_3_eq_3 numeral_2_eq_2)
    qed
  qed simp
  from this [OF assms, of "\<lambda>x c. rgba ! ((y * width + x) * 4 + c)"] show ?thesis by (simp add: image_row_def)
qed

lemma rgb_row_image:
  assumes "length rgbRow = width * 3"
  shows "rgb_row rgba width (y * (width * 4)) rgbRow = image_row rgba width y"
proof (rule nth_equalityI)
  let ?px = "\<lambda>x. read_rgb rgba ((y * width + x) * 4)"
  have F: "filled rgbRow (rgb_row rgba width (y * (width * 4)) rgbRow) {0 + 3 * 0..<0 + 3 * width} (rgb_byte 0 ?px)"
    unfolding rgb_row_def
  proof (rule filled_for_unit)
    fix x s
    have "s[x * 3 + 0 := rgba ! (y * (width * 4) + (x * 4 + 0)), x * 3 + 1 := rgba ! (y * (width * 4) + (x * 4 + 1)),
        x * 3 + 2 := rgba ! (y * (width * 4) + (x * 4 + 2))] = store_rgb s (0 + 3 * x) (?px x)"
      by (simp add: store_rgb_def read_rgb_def algebra_simps)
    then show "filled s (s[x * 3 + 0 := rgba ! (y * (width * 4) + (x * 4 + 0)),
        x * 3 + 1 := rgba ! (y * (width * 4) + (x * 4 + 1)), x * 3 + 2 := rgba ! (y * (width * 4) + (x * 4 + 2))])
        {0 + 3 * x..<0 + 3 * (x + 1)} (rgb_byte 0 ?px)"
      using store_pixel_filled [of "?px x" ?px x "0 + 3 * x" 0 "0 + 3 * (x + 1)" s] by simp
  qed simp
  show len: "length (rgb_row rgba width (y * (width * 4)) rgbRow) = length (image_row rgba width y)"
    using filled_length [OF F] assms by (simp add: length_image_row)
  fix k assume "k < length (rgb_row rgba width (y * (width * 4)) rgbRow)"
  then have k: "k < width * 3" using filled_length [OF F] assms by simp
  define x c where "x = k div 3" "c = k mod 3"
  have xc: "k = 3 * x + c" "x < width" "c < 3" using k by (auto simp: x_c_def)
  have "rgb_row rgba width (y * (width * 4)) rgbRow ! k = rgb_byte 0 ?px (0 + 3 * x + c)"
    using filled_nth [OF F, of k] k assms xc(1) by simp
  also have "\<dots> = rgba ! ((y * width + x) * 4 + c)"
    using rgb_byte_at [of 0 ?px x] xc(3) by (auto simp: less_Suc_eq numeral_3_eq_3 read_rgb_def)
  finally show "rgb_row rgba width (y * (width * 4)) rgbRow ! k = image_row rgba width y ! k"
    using image_row_nth [OF xc(2,3)] xc(1) by simp
qed

lemma length_rgb_row:
  assumes "length rgbRow = width * 3"
  shows "length (rgb_row rgba width (y * (width * 4)) rgbRow) = width * 3"
  using rgb_row_image [OF assms] by (simp add: length_image_row)

lemma encode_rows_compress:
  assumes counts: "counts_scanlines lj" and "length rgbRow = width * 3"
  shows "encode_rows lj rgba width height rgbRow c dest =
    Some (compress_rows lj (map (image_row rgba width) [lj_next_scanline lj c..<height]) c dest)"
  using assms(2)
proof (induction "height - lj_next_scanline lj c" arbitrary: c dest rgbRow)
  case 0
  then show ?case by (simp add: encode_rows.simps)
next
  case (Suc n)
  let ?y = "lj_next_scanline lj c"
  have y: "?y < height" using Suc.hyps(2) by simp
  have row: "rgb_row rgba width (?y * (width * 4)) rgbRow = image_row rgba width ?y" by (rule rgb_row_image [OF Suc.prems])
  show ?case
  proof (cases "lj_write_scanlines lj (image_row rgba width ?y) c dest")
    case Exited
    then show ?thesis using y row by (simp add: encode_rows.simps upt_conv_Cons)
  next
    case (Returned cd)
    then obtain c' dest' where w: "lj_write_scanlines lj (image_row rgba width ?y) c dest = Returned (c', dest')" by (cases cd) auto
    show ?thesis
    proof (cases "jd_overflow dest'")
      case True
      then show ?thesis using y row w by (simp add: encode_rows.simps upt_conv_Cons)
    next
      case False
      have n: "lj_next_scanline lj c' = Suc ?y" using counts w False by (auto simp: counts_scanlines_def)
      then have "n = height - lj_next_scanline lj c'" using Suc.hyps(2) by simp
      from Suc.hyps(1) [OF this, of "image_row rgba width ?y" dest'] show ?thesis
        using y row w False n by (subst encode_rows.simps) (simp add: upt_conv_Cons length_image_row)
    qed
  qed
qed

lemma encodeRGBA_ends:
  assumes "counts_scanlines lj" "\<forall>row. malloc = Some row \<longrightarrow> length row = width * 3"
  shows "encodeRGBA lj malloc rgba width height quality out outputSize jpegSize \<noteq> None"
  using assms encode_rows_compress [OF assms(1)]
  by (auto simp: encodeRGBA_def Let_def split: option.splits call.splits)

text \<open>A destination that fills up has not taken the whole image.\<close>

lemma overflow_incomplete:
  assumes "counts_scanlines lj" "compress_rows lj rows c dest = Returned (c', dest')" "jd_overflow dest'" "\<not> jd_overflow dest"
  shows "lj_next_scanline lj c' < lj_next_scanline lj c + length rows"
  using assms(2-)
proof (induction rows arbitrary: c dest)
  case (Cons row rows)
  obtain c1 dest1 where w: "lj_write_scanlines lj row c dest = Returned (c1, dest1)"
    using Cons.prems(1) by (auto split: call.splits)
  have n: "lj_next_scanline lj c1 = (if jd_overflow dest1 then lj_next_scanline lj c else Suc (lj_next_scanline lj c))"
    using assms(1) w unfolding counts_scanlines_def by blast
  show ?case
  proof (cases "jd_overflow dest1")
    case True
    then show ?thesis using Cons.prems(1) w n by simp
  next
    case False
    then show ?thesis using Cons.IH [of c1 dest1] Cons.prems w n by simp
  qed
qed simp


text \<open>A library that stores the rows as they are: it stands for an uncompressed format. Its state is the
  counter and the height of the image.\<close>

definition plain_jpeg :: "(nat \<times> nat) libjpeg" where
  "plain_jpeg = \<lparr>lj_start = \<lambda>w h q dest. Returned ((0, h), dest_init_destination dest), lj_next_scanline = fst,
     lj_write_scanlines = \<lambda>row c dest.
       if jd_free dest < length row then Returned (c, snd (dest_empty_output_buffer dest))
       else Returned ((Suc (fst c), snd c), dest\<lparr>jd_buffer := write_at (jd_buffer dest) (jd_next dest) row,
          jd_next := jd_next dest + length row, jd_free := jd_free dest - length row, jd_overflow := False\<rparr>),
     lj_finish = \<lambda>c dest. if fst c < snd c then Exited else Returned (c, dest)\<rparr>"

lemma plain_jpeg_counts: "counts_scanlines plain_jpeg"
  by (auto simp: counts_scanlines_def plain_jpeg_def dest_empty_output_buffer_def)

text \<open>The same library for images of two rows.\<close>

definition plain_jpeg2 :: "(nat \<times> nat) libjpeg" where
  "plain_jpeg2 = plain_jpeg\<lparr>lj_finish := \<lambda>c dest. if fst c < 2 then Exited else Returned (c, dest)\<rparr>"


section \<open>Resizing picks the nearest pixel above and to the left\<close>

lemma scale_less: "x < d \<Longrightarrow> 0 < s \<Longrightarrow> x * s div d < (s :: nat)"
  by (metis div_less_iff_less_mult mult.commute mult_less_mono1 zero_less_iff_neq_zero not_less0)

definition scaled_byte :: "byte list \<Rightarrow> nat \<Rightarrow> nat \<Rightarrow> nat \<Rightarrow> nat \<Rightarrow> nat \<Rightarrow> byte" where
  "scaled_byte src srcW srcH dstW dstH k =
     (let x = k div 4 mod dstW; y = k div 4 div dstW
      in src ! ((y * srcH div dstH * srcW + x * srcW div dstW) * 4 + k mod 4))"

text \<open>
  \<open>upscaleRGBA\<close> fills the whole destination: pixel (x, y) is the source pixel at (x * srcW / dstW,
  y * srcH / dstH), which always lies inside the source image.
\<close>

theorem upscaleRGBA_nearest:
  assumes src: "srcW * srcH * 4 \<le> length src" "0 < srcW" "0 < srcH" and dst: "length dst = dstW * dstH * 4"
  shows "\<exists>out. upscaleRGBA (Some dst) src srcW srcH dstW dstH = Some out \<and> length out = dstW * dstH * 4 \<and>
    (\<forall>x<dstW. \<forall>y<dstH. x * srcW div dstW < srcW \<and> y * srcH div dstH < srcH \<and>
       (\<forall>c<4. out ! ((y * dstW + x) * 4 + c) = src ! ((y * srcH div dstH * srcW + x * srcW div dstW) * 4 + c)))"
proof -
  let ?f = "scaled_byte src srcW srcH dstW dstH"
  let ?pix = "\<lambda>y x dst. write_at dst ((y * dstW + x) * 4) (take 4 (drop ((y * srcH div dstH * srcW + x * srcW div dstW) * 4) src))"
  have at: "?f ((y * dstW + x) * 4 + c) = src ! ((y * srcH div dstH * srcW + x * srcW div dstW) * 4 + c)"
    if "x < dstW" "c < 4" for x y c
    by (simp only: scaled_byte_def Let_def div_mod_pos [OF that(2)] div_mod_pos [OF that(1)])
  have fit: "(y * srcH div dstH * srcW + x * srcW div dstW) * 4 + 4 \<le> length src" if "x < dstW" "y < dstH" for x y
    using cell_less [OF scale_less [OF that(1) src(2)] scale_less [OF that(2) src(3)]] src(1)
    by (simp add: mult.commute)
  have pix: "filled s (?pix y x s) {(y * dstW) * 4 + 4 * x..<(y * dstW) * 4 + 4 * (x + 1)} ?f" if "x < dstW" "y < dstH" for x y s
  proof -
    have "filled s (?pix y x s) {(y * dstW + x) * 4..<(y * dstW + x) * 4 + 4} ?f"
      by (rule filled_write_to) (use fit [OF that] at [OF that(1)] in auto)
    then show ?thesis by (simp add: algebra_simps)
  qed
  have "filled dst (for_loop 1 dstH 0 (\<lambda>y. for_loop 1 dstW 0 (?pix y)) dst) {0 + (dstW * 4) * 0..<0 + (dstW * 4) * dstH} ?f"
  proof (rule filled_for_unit)
    fix y s assume "y < dstH"
    then have "filled s (for_loop 1 dstW 0 (?pix y) s) {(y * dstW) * 4 + 4 * 0..<(y * dstW) * 4 + 4 * dstW} ?f"
      by (intro filled_for_unit pix) auto
    then show "filled s (for_loop 1 dstW 0 (?pix y) s) {0 + dstW * 4 * y..<0 + dstW * 4 * (y + 1)} ?f"
      by (rule filled_set) (simp add: algebra_simps)
  qed simp
  moreover have "upscaleRGBA (Some dst) src srcW srcH dstW dstH = Some (for_loop 1 dstH 0 (\<lambda>y. for_loop 1 dstW 0 (?pix y)) dst)"
    by (simp add: upscaleRGBA_def Let_def)
  ultimately obtain out where out: "upscaleRGBA (Some dst) src srcW srcH dstW dstH = Some out"
    and F: "filled dst out {0..<dstW * 4 * dstH} ?f" by simp
  have "out ! ((y * dstW + x) * 4 + c) = src ! ((y * srcH div dstH * srcW + x * srcW div dstW) * 4 + c)"
    if "x < dstW" "y < dstH" "c < 4" for x y c
  proof -
    have "(y * dstW + x) * 4 + c < dstW * 4 * dstH" using cell_less [OF that(1,2)] that(3) by (simp add: algebra_simps)
    moreover have "length dst = dstW * 4 * dstH" using dst by simp
    ultimately have "out ! ((y * dstW + x) * 4 + c) = ?f ((y * dstW + x) * 4 + c)"
      using filled_nth [OF F, of "(y * dstW + x) * 4 + c"] by (simp only: atLeastLessThan_iff le0 simp_thms if_True)
    then show ?thesis unfolding at [OF that(1,3)] .
  qed
  then show ?thesis using out filled_length [OF F] dst scale_less src by auto
qed

theorem upscaleRGBA_nearest_witness:
  "\<exists>out. upscaleRGBA (Some (replicate 16 0)) [1, 2, 3, 4] 1 1 2 2 = Some out \<and> out ! ((1 * 2 + 1) * 4 + 2) = 3"
proof -
  have a: "1 * 1 * 4 \<le> length [1, 2, 3, 4 :: byte]" "0 < (1 :: nat)" "0 < (1 :: nat)"
    "length (replicate 16 (0 :: byte)) = 2 * 2 * 4" by simp_all
  from upscaleRGBA_nearest [OF a] obtain out where
    "upscaleRGBA (Some (replicate 16 0)) [1, 2, 3, 4] 1 1 2 2 = Some out"
    "\<forall>x<2. \<forall>y<2. \<forall>c<4. out ! ((y * 2 + x) * 4 + c) = [1, 2, 3, 4] ! ((y * 1 div 2 * 1 + x * 1 div 2) * 4 + c)" by blast
  moreover from this(2) [rule_format, of 1 1 2] have "out ! ((1 * 2 + 1) * 4 + 2) = 3" by simp
  ultimately show ?thesis by blast
qed

text \<open>
  \<open>insertExifApp1\<close> on a JPEG in a buffer with room: start-of-image, then the 48-byte segment, then the rest
  of the JPEG. The segment's length field is stored low byte first, so a JPEG reader, which takes it
  high byte first, skips 11776 bytes of the image instead of the 46 that follow the marker.
\<close>

theorem insertExifApp1_layout:
  assumes "2 \<le> n" "n + 48 \<le> length buf" "buf ! 0 = 0xFF" "buf ! 1 = 0xD8"
  shows "\<exists>out. insertExifApp1 True width height (buf, n) = (out, n + 48) \<and> length out = length buf \<and>
    take 2 out = take 2 buf \<and> take 48 (drop 2 out) = exif_segment width height \<and>
    (\<forall>k. 2 \<le> k \<and> k < n \<longrightarrow> out ! (k + 48) = buf ! k) \<and>
    256 * uint (out ! 4) + uint (out ! 5) = 11776 \<and> uint (out ! 4) + 256 * uint (out ! 5) = 48 - 2"
proof -
  let ?seg = "exif_segment width height"
  let ?v = "take 2 buf @ ?seg @ take (n - 2) (drop 2 buf)"
  let ?out = "write_at buf 0 ?v"
  have ls: "length ?seg = 48" by (simp add: exif_segment_def)
  have lv: "length ?v = n + 48" using assms ls by simp
  have at: "?out ! k = ?v ! k" if "k < n + 48" for k
    using nth_write_at [of k buf 0 ?v] that assms lv by simp
  have o: "insertExifApp1 True width height (buf, n) = (?out, n + 48)"
    using assms by (simp add: insertExifApp1_def)
  have "take 2 ?out = take 2 buf"
    by (rule nth_equalityI) (use at assms in \<open>auto simp: nth_append\<close>)
  moreover have seg: "take 48 (drop 2 ?out) = ?seg"
    by (rule nth_equalityI) (use at assms ls in \<open>auto simp: nth_append\<close>)
  moreover have "?out ! (k + 48) = buf ! k" if "2 \<le> k" "k < n" for k
  proof -
    have "Suc (Suc (k - 2)) = k" using that by simp
    then show ?thesis using at [of "k + 48"] that assms ls by (simp add: nth_append)
  qed
  moreover have "?out ! 4 = ?seg ! 2" "?out ! 5 = ?seg ! 3"
    using at [of 4] at [of 5] assms ls by (auto simp: nth_append)
  ultimately show ?thesis using o by (simp add: exif_segment_def)
qed

theorem insertExifApp1_layout_witness:
  "\<exists>out. insertExifApp1 True 1280 720 ([0xFF, 0xD8, 7] @ replicate 60 0, 3) = (out, 3 + 48) \<and> out ! (2 + 48) = 7"
proof -
  let ?b = "[0xFF, 0xD8, 7] @ replicate 60 0 :: byte list"
  have a: "2 \<le> (3 :: nat)" "3 + 48 \<le> length ?b" "?b ! 0 = 0xFF" "?b ! 1 = 0xD8" by simp_all
  from insertExifApp1_layout [OF a, of 1280 720] obtain out where
    "insertExifApp1 True 1280 720 (?b, 3) = (out, 3 + 48)" "\<forall>k. 2 \<le> k \<and> k < 3 \<longrightarrow> out ! (k + 48) = ?b ! k" by blast
  moreover from this(2) have "out ! (2 + 48) = 7" by (auto dest: spec [of _ 2])
  ultimately show ?thesis by blast
qed

end
