(* ===== verification/Hal_Device.thy ===== *)
theory Hal_Device
  imports Preview In_Flight Still_Image
begin

text \<open>
  \<open>camera/MochaCameraHAL.cpp\<close>, the camera device: opening, initializing, configuring the streams, processing
  capture requests, flushing and closing, on top of the pipeline, the in-flight table and the JPEG
  encoder. Every operation holds the device's \<open>pipelineLock\<close> from its first access to the pipeline to its
  end, so an operation is one step of the device; the unlocked write of \<open>closing\<close> by a concurrent
  \<open>close\<close> is an argument of the capture operation. What the framework sees (notifications, results,
  bytes written to its buffers, fences closed) is a list of events, newest first.
\<close>

section \<open>Streams, requests and what the framework sees\<close>

definition HAL_PIXEL_FORMAT_BLOB :: u32 where "HAL_PIXEL_FORMAT_BLOB = 0x21"

record camera3_stream =
  st_output :: bool
  st_width :: u32
  st_height :: u32
  st_format :: u32
  st_max_buffers :: nat

record stream_buffer =
  sb_stream :: "camera3_stream option"
  sb_buffer :: "nat option"
  sb_acquire_fence :: int

text \<open>The entries of the request settings the device looks up; \<open>None\<close> when an entry is absent.\<close>

record request_settings =
  rs_af_mode :: "byte option"
  rs_af_trigger :: "byte option"
  rs_capture_intent :: "byte option"

record capture_request =
  cr_frame_number :: u32
  cr_settings :: "request_settings option"
  cr_output_buffers :: "stream_buffer list"

text \<open>Metadata values as the code writes them: numbers, or named constants of the framework's headers,
  kept as names without their \<open>ANDROID_\<close> prefix.\<close>

datatype c_value = Num int | Sym string

datatype meta_value =
    U8 "c_value list"
  | I32 "c_value list"
  | I64 "c_value list"
  | Flt "rat list"
  | Rational "(int \<times> int) list"

type_synonym metadata = "(string \<times> meta_value) list"

datatype hal_event =
    Shutter u32 int
  | Error_Device u32
  | Result u32 "metadata option" "(stream_buffer \<times> bool) list"
  | Wrote nat "byte list"
  | Wrote_File "byte list"
  | Close_Fence int

record mocha_camera_device =
  d_camera_id :: int
  d_callback_ops :: bool
  d_is_initialized :: bool
  d_streams_configured :: bool
  d_pipeline :: "CameraPipeline option"
  d_inflight_tracker :: "InFlightTracker option"
  d_output_stream :: "camera3_stream option"
  d_pipeline_width :: u32
  d_pipeline_height :: u32
  d_last_config_width :: u32
  d_last_config_height :: u32
  d_jpeg_encoder :: bool
  d_temp_rgba :: "byte list option"
  d_temp_rgba_size :: nat
  d_af_mode :: byte
  d_af_trigger :: byte
  d_af_trigger_handled :: bool
  d_af_auto_scanned :: bool
  d_blob_stream :: "camera3_stream option"
  d_closing :: bool
  d_log :: "sys list"
  d_events :: "hal_event list"

text \<open>
  The surroundings of the device: the kernel, gralloc (whether the module loads and how a lock of a
  buffer handle answers: a fault caught by the SIGSEGV guard, a failure, or the mapped memory), \<open>malloc\<close>
  (the contents of the memory, when there is any), libjpeg, the clock, whether the framework set \<open>notify\<close>,
  the two padding bytes of the JPEG trailer, whether result metadata can be allocated, whether the frame
  taken last is one of those the diagnostics of \<open>captureFrame\<close> look at (every hundredth, by a static
  counter of the process), and the fields a new pipeline leaves unset. Answers depend on the requests made so far.
\<close>

datatype lock_answer = Fault | Lock_Failed | Mapped "byte list"

record 'c hal_env =
  e_kernel :: kernel
  e_gralloc :: bool
  e_lock :: "nat \<Rightarrow> sys list \<Rightarrow> lock_answer"
  e_lock_ycbcr :: "nat \<Rightarrow> sys list \<Rightarrow> lock_answer"
  e_malloc :: "nat \<Rightarrow> (nat \<Rightarrow> byte) option"
  e_jpeg :: "'c libjpeg"
  e_clock :: "sys list \<Rightarrow> int"
  e_notify :: bool
  e_padding :: "byte \<times> byte"
  e_metadata :: bool
  e_diagnosed :: "sys list \<Rightarrow> bool"
  e_unset :: "int \<times> PipelineConfig \<times> int list \<times> byte list"

definition malloc :: "('c, 'x) hal_env_scheme \<Rightarrow> nat \<Rightarrow> byte list option" where
  "malloc E n = map_option (\<lambda>fill. map fill [0..<n]) (e_malloc E n)"

text \<open>How an operation ends: a return value, a call that never returns, or a fault, after which nothing is
  defined. The faults are a null stream pointer, an access to \<open>need\<close> bytes of memory that has \<open>have\<close>, also
  where the SIGSEGV guard might still catch it, auto exposure dividing by a gain of 0, and libjpeg's \<open>error_exit\<close>, which ends the process.\<close>

datatype fault = Null_Stream | Out_Of_Bounds nat nat | Zero_Gain | Process_Exit

datatype hal_result = Returns int | Crashes fault | Hangs

definition shortfall :: "nat \<Rightarrow> nat \<Rightarrow> fault option" where
  "shortfall need have = (if need \<le> have then None else Some (Out_Of_Bounds need have))"

fun first_fault :: "fault option list \<Rightarrow> fault option" where
  "first_fault [] = None"
| "first_fault (f # fs) = (case f of None \<Rightarrow> first_fault fs | Some x \<Rightarrow> Some x)"

section \<open>Opening and initializing\<close>

definition ANDROID_CONTROL_AF_MODE_AUTO :: byte where "ANDROID_CONTROL_AF_MODE_AUTO = 1"
definition ANDROID_CONTROL_AF_MODE_CONTINUOUS_PICTURE :: byte where "ANDROID_CONTROL_AF_MODE_CONTINUOUS_PICTURE = 4"
definition ANDROID_CONTROL_AF_TRIGGER_IDLE :: byte where "ANDROID_CONTROL_AF_TRIGGER_IDLE = 0"
definition ANDROID_CONTROL_AF_TRIGGER_START :: byte where "ANDROID_CONTROL_AF_TRIGGER_START = 1"
definition ANDROID_CONTROL_AF_TRIGGER_CANCEL :: byte where "ANDROID_CONTROL_AF_TRIGGER_CANCEL = 2"
definition ANDROID_CONTROL_CAPTURE_INTENT_STILL_CAPTURE :: byte where "ANDROID_CONTROL_CAPTURE_INTENT_STILL_CAPTURE = 2"

definition camera_device_init :: mocha_camera_device where
  "camera_device_init =
     \<lparr>d_camera_id = 0, d_callback_ops = False, d_is_initialized = False, d_streams_configured = False,
      d_pipeline = None, d_inflight_tracker = Some [], d_output_stream = None, d_pipeline_width = 0,
      d_pipeline_height = 0, d_last_config_width = 0, d_last_config_height = 0, d_jpeg_encoder = False,
      d_temp_rgba = None, d_temp_rgba_size = 0, d_af_mode = ANDROID_CONTROL_AF_MODE_CONTINUOUS_PICTURE,
      d_af_trigger = ANDROID_CONTROL_AF_TRIGGER_IDLE, d_af_trigger_handled = False, d_af_auto_scanned = False,
      d_blob_stream = None, d_closing = False, d_log = [], d_events = []\<rparr>"

record MochaCameraInfo =
  ci_cameraId :: int
  ci_sensorName :: string
  ci_facing_front :: bool
  ci_orientation :: int
  ci_maxResolution :: int
  ci_supportsZSL :: bool

definition kCameras :: "MochaCameraInfo list" where
  "kCameras =
     [\<lparr>ci_cameraId = 0, ci_sensorName = ''IMX179'', ci_facing_front = False, ci_orientation = 90, ci_maxResolution = 3280, ci_supportsZSL = False\<rparr>,
      \<lparr>ci_cameraId = 1, ci_sensorName = ''OV5693'', ci_facing_front = True, ci_orientation = 270, ci_maxResolution = 2592, ci_supportsZSL = False\<rparr>]"

definition openCamera :: "int \<Rightarrow> int \<times> mocha_camera_device option" where
  "openCamera cameraId =
     (if cameraId < 0 \<or> cameraId \<ge> int (length kCameras) then (- EINVAL, None)
      else (0, Some (camera_device_init\<lparr>d_camera_id := cameraId\<rparr>)))"

definition camera_device_initialize :: "bool \<Rightarrow> mocha_camera_device \<Rightarrow> int \<times> mocha_camera_device" where
  "camera_device_initialize ops d =
     (if \<not> ops then (- EINVAL, d) else (0, d\<lparr>d_callback_ops := True, d_is_initialized := True\<rparr>))"

section \<open>The pipeline of the device\<close>

definition new_pipeline :: "'c hal_env \<Rightarrow> sys list \<Rightarrow> CameraPipeline" where
  "new_pipeline E l =
     (case e_unset E of (camera, config, deltas, lut) \<Rightarrow> (CameraPipeline_new camera config deltas lut)\<lparr>p_log := l\<rparr>)"

text \<open>\<open>pipeline->close(); delete pipeline\<close>: the destructor closes once more.\<close>

definition delete_pipeline :: "kernel \<Rightarrow> CameraPipeline \<Rightarrow> sys list" where
  "delete_pipeline K p = p_log (snd (pipeline_close K p))"

definition drop_pipeline :: "kernel \<Rightarrow> mocha_camera_device \<Rightarrow> mocha_camera_device" where
  "drop_pipeline K d =
     (case d_pipeline d of
        None \<Rightarrow> d
      | Some p \<Rightarrow> d\<lparr>d_pipeline := None, d_log := delete_pipeline K (snd (pipeline_close K p))\<rparr>)"

definition camera_device_close :: "'c hal_env \<Rightarrow> mocha_camera_device \<Rightarrow> int \<times> mocha_camera_device" where
  "camera_device_close E d =
     (let d = d\<lparr>d_closing := True, d_jpeg_encoder := False\<rparr>;
          d = (case d_temp_rgba d of None \<Rightarrow> d | Some _ \<Rightarrow> d\<lparr>d_temp_rgba := None, d_temp_rgba_size := 0\<rparr>);
          d = d\<lparr>d_inflight_tracker := None\<rparr>
      in (0, drop_pipeline (e_kernel E) d))"

section \<open>Configuring the streams\<close>

record selection =
  sel_pipeline :: "camera3_stream option"
  sel_output :: "camera3_stream option"
  sel_rgba :: "camera3_stream option"
  sel_blob :: "camera3_stream option"

definition select_stream :: "camera3_stream \<Rightarrow> selection \<Rightarrow> selection" where
  "select_stream s sel =
     (if \<not> st_output s then sel
      else
        let sel = sel\<lparr>sel_output := Some s\<rparr>;
            sel = (if st_format s = HAL_PIXEL_FORMAT_BLOB then sel\<lparr>sel_blob := Some s\<rparr> else sel)
        in if sel_pipeline sel = None \<and> st_format s \<noteq> HAL_PIXEL_FORMAT_BLOB then
             if st_format s = HAL_PIXEL_FORMAT_RGBA_8888 then sel\<lparr>sel_pipeline := Some s, sel_rgba := Some s\<rparr>
             else if sel_rgba sel = None \<and> st_format s = HAL_PIXEL_FORMAT_IMPLEMENTATION_DEFINED
             then sel\<lparr>sel_rgba := Some s\<rparr>
             else sel\<lparr>sel_pipeline := Some s\<rparr>
           else sel)"

text \<open>The loop over the streams: every output stream gets two buffers; a stream without a size stops it.\<close>

fun scan_streams :: "camera3_stream list \<Rightarrow> selection \<Rightarrow> selection option" where
  "scan_streams [] sel = Some sel"
| "scan_streams (s # ss) sel =
     (if st_width s = 0 \<or> st_height s = 0 then None
      else scan_streams ss (select_stream (if st_output s then s\<lparr>st_max_buffers := 2\<rparr> else s) sel))"

definition no_selection :: selection where
  "no_selection = \<lparr>sel_pipeline = None, sel_output = None, sel_rgba = None, sel_blob = None\<rparr>"

definition pipeline_stream :: "selection \<Rightarrow> camera3_stream option" where
  "pipeline_stream sel = (case sel_rgba sel of Some s \<Rightarrow> Some s | None \<Rightarrow> sel_pipeline sel)"

definition override_format :: "camera3_stream \<Rightarrow> camera3_stream" where
  "override_format s =
     (if st_output s \<and> st_format s = HAL_PIXEL_FORMAT_IMPLEMENTATION_DEFINED
      then s\<lparr>st_format := HAL_PIXEL_FORMAT_RGBA_8888\<rparr> else s)"

definition V4L2_PIX_FMT_SRGGB10 :: u32 where "V4L2_PIX_FMT_SRGGB10 = 0x30314752"
definition V4L2_PIX_FMT_SBGGR10 :: u32 where "V4L2_PIX_FMT_SBGGR10 = 0x30314742"

definition device_config :: "int \<Rightarrow> camera3_stream \<Rightarrow> PipelineConfig" where
  "device_config cameraId s =
     \<lparr>cfg_width = st_width s, cfg_height = st_height s,
      cfg_pixelFormat = (if cameraId = 0 then V4L2_PIX_FMT_SRGGB10 else V4L2_PIX_FMT_SBGGR10),
      cfg_bayerPattern = (if cameraId = 0 then 0 else 3), cfg_offset_x = 0, cfg_offset_y = 0, cfg_flipV = False,
      cfg_enableISP = True, cfg_blackLevel = (if cameraId = 0 then 16 else 3), cfg_whiteLevel = 255,
      cfg_wbGain = [1, 1, 1, 1], cfg_ccm = [1, 0, 0, 0, 1, 0, 0, 0, 1], cfg_gamma = f32 (4545 / 10000),
      cfg_enableAE = True, cfg_enableAWB = True, cfg_targetLuma = f32 (42 / 100), cfg_digitalGain = 1\<rparr>"

text \<open>Requests still in flight are completed with an empty result before the pipeline goes.\<close>

definition drain_in_flight :: "mocha_camera_device \<Rightarrow> mocha_camera_device" where
  "drain_in_flight d =
     (case d_inflight_tracker d of
        None \<Rightarrow> d
      | Some t \<Rightarrow>
          if tracker_count t > 0
          then let (frames, t) = drainAll t
               in d\<lparr>d_inflight_tracker := Some t,
                    d_events := rev (map (\<lambda>f. Result f None []) frames) @ d_events d\<rparr>
          else d)"

definition same_capture :: "camera3_stream \<Rightarrow> mocha_camera_device \<Rightarrow> bool" where
  "same_capture s d \<longleftrightarrow>
     d_last_config_width d = st_width s \<and> d_last_config_height d = st_height s \<and> d_streams_configured d \<and>
     (case d_pipeline d of None \<Rightarrow> False | Some p \<Rightarrow> mState p = PIPELINE_STREAMING)"

text \<open>Open, configure and start a new pipeline; on any failure it is destroyed again. \<open>None\<close> is the write
  past the end of the pipeline's array of buffers.\<close>

definition start_pipeline :: "kernel \<Rightarrow> int \<Rightarrow> camera3_stream \<Rightarrow> CameraPipeline \<Rightarrow> (int \<times> CameraPipeline option \<times> sys list) option" where
  "start_pipeline K cameraId s p =
     (let (ret, p) = pipeline_open K cameraId p
      in if ret \<noteq> 0 then Some (- ENODEV, None, delete_pipeline K p)
         else
           case configure K (device_config cameraId s) p of
             None \<Rightarrow> None
           | Some (ret, p) \<Rightarrow>
               if ret \<noteq> 0 then Some (ret, None, delete_pipeline K (snd (pipeline_close K p)))
               else
                 let (ret, p) = startStreaming K p
                 in if ret \<noteq> 0 then Some (ret, None, delete_pipeline K (snd (pipeline_close K p)))
                    else Some (0, Some p, p_log p))"

definition streams_ready :: "camera3_stream \<Rightarrow> selection \<Rightarrow> CameraPipeline \<Rightarrow> mocha_camera_device \<Rightarrow> mocha_camera_device" where
  "streams_ready s sel p d =
     d\<lparr>d_pipeline := Some p, d_output_stream := map_option override_format (sel_output sel),
       d_pipeline_width := st_width s, d_pipeline_height := st_height s,
       d_last_config_width := st_width s, d_last_config_height := st_height s,
       d_af_trigger_handled := False, d_af_auto_scanned := False, d_af_trigger := ANDROID_CONTROL_AF_TRIGGER_IDLE,
       d_streams_configured := True\<rparr>"

definition camera_device_configure_streams ::
    "'c hal_env \<Rightarrow> camera3_stream list \<Rightarrow> mocha_camera_device \<Rightarrow> hal_result \<times> mocha_camera_device" where
  "camera_device_configure_streams E streams d =
     (if streams = [] \<or> length streams > 20 then (Returns (- EINVAL), d)
      else
        case scan_streams streams no_selection of
          None \<Rightarrow> (Returns (- EINVAL), d)
        | Some sel \<Rightarrow>
            let d = d\<lparr>d_blob_stream := sel_blob sel\<rparr>
            in case pipeline_stream sel of
                 None \<Rightarrow> (Crashes Null_Stream, d)
               | Some s \<Rightarrow>
                   if same_capture s d then (Returns 0, d)
                   else
                     let d = drop_pipeline (e_kernel E) (drain_in_flight d)
                     in case start_pipeline (e_kernel E) (d_camera_id d) s (new_pipeline E (d_log d)) of
                          None \<Rightarrow> (Crashes (Out_Of_Bounds 5 4), d)
                        | Some (ret, None, l) \<Rightarrow> (Returns ret, d\<lparr>d_log := l\<rparr>)
                        | Some (ret, Some p, l) \<Rightarrow> (Returns 0, streams_ready s sel p d))"

section \<open>Capture requests: autofocus\<close>

definition apply_settings :: "request_settings option \<Rightarrow> mocha_camera_device \<Rightarrow> mocha_camera_device" where
  "apply_settings settings d =
     (case settings of
        None \<Rightarrow> d
      | Some rs \<Rightarrow>
          let d = (case rs_af_mode rs of None \<Rightarrow> d | Some v \<Rightarrow> d\<lparr>d_af_mode := v\<rparr>)
          in (case rs_af_trigger rs of None \<Rightarrow> d | Some v \<Rightarrow> d\<lparr>d_af_trigger := v\<rparr>))"

definition af_trigger_action :: "kernel \<Rightarrow> mocha_camera_device \<times> CameraPipeline \<Rightarrow> mocha_camera_device \<times> CameraPipeline" where
  "af_trigger_action K dp =
     (case dp of (d, p) \<Rightarrow>
        if d_af_trigger d = ANDROID_CONTROL_AF_TRIGGER_START \<and> \<not> d_af_trigger_handled d
        then (d\<lparr>d_af_auto_scanned := True, d_af_trigger_handled := True\<rparr>, startAfScan K p)
        else if d_af_trigger d = ANDROID_CONTROL_AF_TRIGGER_CANCEL
        then (d\<lparr>d_af_trigger_handled := False, d_af_auto_scanned := False\<rparr>, cancelAf p)
        else if \<not> d_af_auto_scanned d then (d\<lparr>d_af_auto_scanned := True\<rparr>, startAfScan K p)
        else (d, p))"

definition wants_blob :: "stream_buffer list \<Rightarrow> bool" where
  "wants_blob bs =
     list_ex (\<lambda>b. case sb_stream b of None \<Rightarrow> False | Some st \<Rightarrow> st_format st = HAL_PIXEL_FORMAT_BLOB) bs"

text \<open>The log message of the pre-shutter rescan asks for the age a second time.\<close>

definition preshutter_scan :: "kernel \<Rightarrow> stream_buffer list \<Rightarrow> CameraPipeline \<Rightarrow> CameraPipeline" where
  "preshutter_scan K bs p =
     (if wants_blob bs
      then let (age, p) = afAgeMs K p
           in if age > 3000 then startAfScan K (snd (afAgeMs K p)) else p
      else p)"

definition af_control :: "kernel \<Rightarrow> stream_buffer list \<Rightarrow> mocha_camera_device \<Rightarrow> mocha_camera_device" where
  "af_control K bs d =
     (case d_pipeline d of
        None \<Rightarrow> d
      | Some p \<Rightarrow>
          if d_af_mode d = ANDROID_CONTROL_AF_MODE_AUTO \<or> d_af_mode d = ANDROID_CONTROL_AF_MODE_CONTINUOUS_PICTURE
          then let (d, p) = af_trigger_action K (d, p)
               in d\<lparr>d_pipeline := Some (preshutter_scan K bs p)\<rparr>
          else d)"

section \<open>Capture requests: how far the pipeline reaches\<close>

text \<open>The frames a method of the pipeline took and used, from the log it left behind: the buffers dequeued
  within the newest \<open>n\<close> requests whose index is valid.\<close>

fun frames_in :: "kernel \<Rightarrow> nat \<Rightarrow> nat \<Rightarrow> sys list \<Rightarrow> dqbuf_answer list" where
  "frames_in K buffers 0 l = []"
| "frames_in K buffers (Suc n) [] = []"
| "frames_in K buffers (Suc n) (DQBuf fd # l) =
     (let b = k_dqbuf K (DQBuf fd # l)
      in if 0 \<le> k_ret K (DQBuf fd # l) \<and> dq_index b < buffers then b # frames_in K buffers n l
         else frames_in K buffers n l)"
| "frames_in K buffers (Suc n) (_ # l) = frames_in K buffers n l"

definition new_frames :: "kernel \<Rightarrow> CameraPipeline \<Rightarrow> CameraPipeline \<Rightarrow> dqbuf_answer list" where
  "new_frames K p p' = frames_in K (mBufferCount p) (length (p_log p') - length (p_log p)) (p_log p')"

text \<open>The demosaicing reads two bytes of the raw frame per pixel; it and the colour correction write three
  bytes of the RGB buffer per pixel.\<close>

definition demosaic_fault :: "CameraPipeline \<Rightarrow> dqbuf_answer \<Rightarrow> fault option" where
  "demosaic_fault p b =
     (case mDemosaic p of
        None \<Rightarrow> None
      | Some d \<Rightarrow>
          let n = unat (dp_width (dm_mParams d)) * unat (dp_height (dm_mParams d));
              m = unat (cfg_width (mConfig p)) * unat (cfg_height (mConfig p))
          in if cfg_enableISP (mConfig p)
             then first_fault [shortfall (2 * n) (length (dq_data b)),
                    case mRgbBuffer p of None \<Rightarrow> None | Some rgb \<Rightarrow> shortfall (3 * max n m) (length rgb)]
             else None)"

text \<open>What is written to the output: luma and chroma planes, four bytes per pixel, the RGB buffer, or the raw frame.\<close>

definition output_extent :: "CameraPipeline \<Rightarrow> u32 \<Rightarrow> dqbuf_answer \<Rightarrow> nat" where
  "output_extent p fmt b =
     (let w = unat (cfg_width (mConfig p)); h = unat (cfg_height (mConfig p))
      in if \<not> (cfg_enableISP (mConfig p) \<and> mDemosaic p \<noteq> None \<and> mColorConv p \<noteq> None) then dq_bytesused b
         else if fmt = HAL_PIXEL_FORMAT_YCBCR_420_888 then w * h + (h + 1) div 2 * w + w mod 2
         else if fmt = HAL_PIXEL_FORMAT_RGBA_8888 \<or> fmt = HAL_PIXEL_FORMAT_IMPLEMENTATION_DEFINED then w * h * 4
         else mRgbBufferSize p)"

text \<open>Auto exposure looks at the frame that was just demosaiced.\<close>

definition ae_fault :: "CameraPipeline \<Rightarrow> dqbuf_answer \<Rightarrow> fault option" where
  "ae_fault p b =
     (case (mDemosaic p, mColorConv p) of
        (Some d, Some c) \<Rightarrow>
          if cfg_enableISP (mConfig p) \<and> cfg_enableAE (mConfig p) \<and> mCurrentGain p = 0 \<and>
             ae_divides_by_zero (fst (dm_process d (frame_data b p) (mRgbBuffer p))) p
          then Some Zero_Gain else None
      | _ \<Rightarrow> None)"

text \<open>The diagnostics read a 4x4 grid at (640, 360) of a frame 1280 wide, whatever the size of the frame.\<close>

definition capture_fault :: "bool \<Rightarrow> CameraPipeline \<Rightarrow> u32 \<Rightarrow> nat \<Rightarrow> dqbuf_answer \<Rightarrow> fault option" where
  "capture_fault diagnosed p fmt have b =
     first_fault [shortfall (if diagnosed then ((360 + 3) * 1280 + (640 + 3)) * 2 + 2 else 0) (length (dq_data b)),
       demosaic_fault p b, ae_fault p b,
       if cfg_enableISP (mConfig p) \<and> mDemosaic p \<noteq> None then None else shortfall (dq_bytesused b) (length (dq_data b)),
       shortfall (output_extent p fmt b) have]"

text \<open>Did the scan, or the capture into \<open>have\<close> bytes, that took \<open>p\<close> to \<open>p'\<close> leave its memory?\<close>

definition scan_faults :: "kernel \<Rightarrow> CameraPipeline \<Rightarrow> CameraPipeline \<Rightarrow> fault option" where
  "scan_faults K p p' = first_fault (map (demosaic_fault p) (new_frames K p p'))"

definition af_faults :: "kernel \<Rightarrow> mocha_camera_device \<Rightarrow> mocha_camera_device \<Rightarrow> fault option" where
  "af_faults K d d' =
     (case (d_pipeline d, d_pipeline d') of (Some p, Some p') \<Rightarrow> scan_faults K p p' | _ \<Rightarrow> None)"

definition capture_faults :: "'c hal_env \<Rightarrow> u32 \<Rightarrow> nat \<Rightarrow> CameraPipeline \<Rightarrow> CameraPipeline \<Rightarrow> fault option" where
  "capture_faults E fmt have p p' =
     first_fault (map (capture_fault (e_diagnosed E (p_log p')) p fmt have) (new_frames (e_kernel E) p p'))"

section \<open>Capture requests: filling the output buffers\<close>

text \<open>The state of a request while its outputs are filled: the device, its pipeline and the two flags.\<close>

record shot =
  sh_dev :: mocha_camera_device
  sh_pipe :: CameraPipeline
  sh_captured :: bool
  sh_blob :: bool

definition emit :: "hal_event \<Rightarrow> shot \<Rightarrow> shot" where
  "emit e s = s\<lparr>sh_dev := (sh_dev s)\<lparr>d_events := e # d_events (sh_dev s)\<rparr>\<rparr>"

definition forget_frame :: "u32 \<Rightarrow> mocha_camera_device \<Rightarrow> mocha_camera_device" where
  "forget_frame frame d = d\<lparr>d_inflight_tracker := map_option (\<lambda>t. snd (tracker_remove frame t)) (d_inflight_tracker d)\<rparr>"

definition ensure_temp :: "'c hal_env \<Rightarrow> mocha_camera_device \<Rightarrow> mocha_camera_device" where
  "ensure_temp E d =
     (let rgbaSize = unat (d_pipeline_width d * d_pipeline_height d * 4)
      in if d_temp_rgba d = None \<or> d_temp_rgba_size d < rgbaSize
         then d\<lparr>d_temp_rgba := malloc E rgbaSize, d_temp_rgba_size := rgbaSize\<rparr> else d)"

definition capture_temp :: "'c hal_env \<Rightarrow> byte list \<Rightarrow> shot \<Rightarrow> fault option \<times> int \<times> shot" where
  "capture_temp E temp s =
     (case captureFrame (e_kernel E) (Some temp) HAL_PIXEL_FORMAT_RGBA_8888 (sh_pipe s) of
        (ret, out, p) \<Rightarrow>
          (capture_faults E HAL_PIXEL_FORMAT_RGBA_8888 (length temp) (sh_pipe s) p, ret,
           s\<lparr>sh_pipe := p, sh_dev := (sh_dev s)\<lparr>d_temp_rgba := out\<rparr>\<rparr>))"

text \<open>\<open>camera3_jpeg_blob_t\<close>: a 16-bit id, two bytes of padding, the 32-bit size, low byte first.\<close>

definition jpeg_blob :: "'c hal_env \<Rightarrow> nat \<Rightarrow> byte list" where
  "jpeg_blob E n =
     (let w = word_of_nat n :: u32
      in [0xFF, 0x00, fst (e_padding E), snd (e_padding E),
          ucast w, ucast (drop_bit 8 w), ucast (drop_bit 16 w), ucast (drop_bit 24 w)])"

text \<open>The source of the encoder: the captured image, resized when the blob stream has another size.\<close>

definition encode_source :: "'c hal_env \<Rightarrow> byte list \<Rightarrow> u32 \<Rightarrow> u32 \<Rightarrow> mocha_camera_device \<Rightarrow> byte list \<times> nat \<times> nat" where
  "encode_source E temp blobW blobH d =
     (let w = unat (d_pipeline_width d); h = unat (d_pipeline_height d); bw = unat blobW; bh = unat blobH
      in if blobW \<noteq> d_pipeline_width d \<or> blobH \<noteq> d_pipeline_height d
         then case upscaleRGBA (malloc E (bw * bh * 4)) temp w h bw bh of
                Some up \<Rightarrow> (up, bw, bh)
              | None \<Rightarrow> (temp, w, h)
         else (temp, w, h))"

text \<open>The encoder reads the whole image and fills the locked memory from its start; the trailer goes to the
  last eight bytes of the \<open>blobSize\<close> bytes the stream should have.\<close>

definition encode_blob :: "'c hal_env \<Rightarrow> nat \<Rightarrow> u32 \<Rightarrow> u32 \<Rightarrow> byte list \<times> nat \<times> nat \<Rightarrow> shot \<Rightarrow> hal_result option \<times> shot" where
  "encode_blob E handle blobW blobH src s =
     (case src of (img, w, h) \<Rightarrow>
        case e_lock E handle (p_log (sh_pipe s)) of
          Mapped mem \<Rightarrow>
            let s = s\<lparr>sh_dev := (sh_dev s)\<lparr>d_jpeg_encoder := True\<rparr>\<rparr>; blobSize = unat (blobW * blobH * 2)
            in (case encodeRGBA (e_jpeg E) (malloc E (w * 3)) img w h 90 mem blobSize 0 of
                  None \<Rightarrow> (Some Hangs, s)
                | Some Exited \<Rightarrow> (Some (Crashes Process_Exit), s)
                | Some (Returned (ret, out, n)) \<Rightarrow>
                    let trailer = (ret = 0 \<and> n > 0)
                    in case first_fault [shortfall (w * h * 4) (length img), shortfall n (length mem),
                              if trailer then shortfall 8 blobSize else None,
                              if trailer then shortfall blobSize (length mem) else None] of
                         Some f \<Rightarrow> (Some (Crashes f), s)
                       | None \<Rightarrow>
                           if trailer
                           then (None, emit (Wrote handle (write_at out (blobSize - 8) (jpeg_blob E n))) (s\<lparr>sh_captured := True\<rparr>))
                           else (None, emit (Wrote handle out) s))
        | _ \<Rightarrow> (None, s))"

definition capture_blob :: "'c hal_env \<Rightarrow> u32 \<Rightarrow> nat \<Rightarrow> camera3_stream \<Rightarrow> shot \<Rightarrow> hal_result option \<times> shot" where
  "capture_blob E frame handle st s =
     (let s = s\<lparr>sh_blob := True, sh_dev := ensure_temp E (sh_dev s)\<rparr>
      in case d_temp_rgba (sh_dev s) of
           None \<Rightarrow> (None, s)
         | Some temp \<Rightarrow>
             (case capture_temp E temp s of
                (Some f, ret, s) \<Rightarrow> (Some (Crashes f), s)
              | (None, ret, s) \<Rightarrow>
                  if ret = 0
                  then encode_blob E handle (st_width st) (st_height st)
                         (encode_source E (the (d_temp_rgba (sh_dev s))) (st_width st) (st_height st) (sh_dev s)) s
                  else if ret = - EAGAIN
                  then (Some (Returns (- EAGAIN)), s\<lparr>sh_dev := forget_frame frame (sh_dev s)\<rparr>)
                  else (None, s)))"

text \<open>The two branches that capture straight into a gralloc buffer differ in the lock call only.\<close>

definition capture_locked :: "'c hal_env \<Rightarrow> u32 \<Rightarrow> nat \<Rightarrow> u32 \<Rightarrow> lock_answer \<Rightarrow> shot \<Rightarrow> hal_result option \<times> shot" where
  "capture_locked E frame handle fmt answer s =
     (case answer of
        Mapped mem \<Rightarrow>
          (case captureFrame (e_kernel E) (Some mem) fmt (sh_pipe s) of
             (ret, out, p) \<Rightarrow>
               let fault = capture_faults E fmt (length mem) (sh_pipe s) p;
                   s = emit (Wrote handle (the out)) (s\<lparr>sh_pipe := p, sh_captured := sh_captured s \<or> ret = 0\<rparr>)
               in case fault of
                    Some f \<Rightarrow> (Some (Crashes f), s)
                  | None \<Rightarrow>
                      if ret = - EAGAIN
                      then (Some (Returns (- EAGAIN)), s\<lparr>sh_dev := forget_frame frame (sh_dev s)\<rparr>)
                      else (None, s))
      | _ \<Rightarrow> (None, s))"

definition capture_ycbcr :: "'c hal_env \<Rightarrow> u32 \<Rightarrow> nat \<Rightarrow> camera3_stream \<Rightarrow> shot \<Rightarrow> hal_result option \<times> shot" where
  "capture_ycbcr E frame handle st s =
     capture_locked E frame handle (st_format st) (e_lock_ycbcr E handle (p_log (sh_pipe s))) s"

definition capture_rgba :: "'c hal_env \<Rightarrow> u32 \<Rightarrow> nat \<Rightarrow> camera3_stream \<Rightarrow> shot \<Rightarrow> hal_result option \<times> shot" where
  "capture_rgba E frame handle st s =
     capture_locked E frame handle (st_format st) (e_lock E handle (p_log (sh_pipe s))) s"

definition capture_output :: "'c hal_env \<Rightarrow> u32 \<Rightarrow> stream_buffer \<Rightarrow> shot \<Rightarrow> hal_result option \<times> shot" where
  "capture_output E frame b s =
     (case sb_buffer b of
        None \<Rightarrow> (None, s)
      | Some handle \<Rightarrow>
          let s = (if sb_acquire_fence b \<ge> 0 then emit (Close_Fence (sb_acquire_fence b)) s else s)
          in case sb_stream b of
               None \<Rightarrow> (Some (Crashes Null_Stream), s)
             | Some st \<Rightarrow>
                 if st_format st = HAL_PIXEL_FORMAT_BLOB then capture_blob E frame handle st s
                 else if st_format st = HAL_PIXEL_FORMAT_YCBCR_420_888 then capture_ycbcr E frame handle st s
                 else capture_rgba E frame handle st s)"

fun capture_outputs :: "'c hal_env \<Rightarrow> u32 \<Rightarrow> stream_buffer list \<Rightarrow> shot \<Rightarrow> hal_result option \<times> shot" where
  "capture_outputs E frame [] s = (None, s)"
| "capture_outputs E frame (b # bs) s =
     (case capture_output E frame b s of
        (Some r, s) \<Rightarrow> (Some r, s)
      | (None, s) \<Rightarrow> capture_outputs E frame bs s)"

text \<open>A pipeline that was stopped is started again first.\<close>

definition restart_stream :: "kernel \<Rightarrow> CameraPipeline \<Rightarrow> int \<times> CameraPipeline" where
  "restart_stream K p = (if mState p = PIPELINE_OPENED then startStreaming K p else (0, p))"

definition run_capture :: "'c hal_env \<Rightarrow> u32 \<Rightarrow> stream_buffer list \<Rightarrow> CameraPipeline \<Rightarrow> mocha_camera_device \<Rightarrow> hal_result option \<times> shot" where
  "run_capture E frame bs p d =
     (let (ret, p) = restart_stream (e_kernel E) p;
          s = \<lparr>sh_dev = d, sh_pipe = p, sh_captured = False, sh_blob = False\<rparr>
      in if ret \<noteq> 0 then (Some (Returns (- ENODEV)), s\<lparr>sh_dev := forget_frame frame d\<rparr>)
         else if \<not> e_gralloc E then (None, s)
         else capture_outputs E frame bs s)"

section \<open>Capture requests: the proactive JPEG\<close>

text \<open>The trailer is copied behind the JPEG data, wherever that ends in the \<open>blobSize\<close> bytes allocated.\<close>

definition encode_proactive :: "'c hal_env \<Rightarrow> camera3_stream \<Rightarrow> byte list \<Rightarrow> shot \<Rightarrow> hal_result option \<times> shot" where
  "encode_proactive E blob temp s =
     (let d = (sh_dev s)\<lparr>d_jpeg_encoder := True\<rparr>; s = s\<lparr>sh_dev := d\<rparr>;
          w = unat (d_pipeline_width d); h = unat (d_pipeline_height d);
          blobSize = unat (st_width blob * st_height blob * 2)
      in case malloc E blobSize of
           None \<Rightarrow> (None, s)
         | Some buf \<Rightarrow>
             (case encodeRGBA (e_jpeg E) (malloc E (w * 3)) temp w h 90 buf blobSize 0 of
                None \<Rightarrow> (Some Hangs, s)
              | Some Exited \<Rightarrow> (Some (Crashes Process_Exit), s)
              | Some (Returned (ret, out, n)) \<Rightarrow>
                  let trailer = (ret = 0 \<and> n > 0)
                  in case first_fault [shortfall (w * h * 4) (length temp), if trailer then shortfall (n + 8) blobSize else None] of
                       Some f \<Rightarrow> (Some (Crashes f), s)
                     | None \<Rightarrow>
                         if trailer then (None, emit (Wrote_File (take n out)) (s\<lparr>sh_captured := True\<rparr>)) else (None, s)))"

definition proactive_jpeg :: "'c hal_env \<Rightarrow> request_settings option \<Rightarrow> shot \<Rightarrow> hal_result option \<times> shot" where
  "proactive_jpeg E settings s =
     (case (sh_blob s, d_blob_stream (sh_dev s), settings) of
        (False, Some blob, Some rs) \<Rightarrow>
          if rs_capture_intent rs = Some ANDROID_CONTROL_CAPTURE_INTENT_STILL_CAPTURE
          then let s = s\<lparr>sh_dev := ensure_temp E (sh_dev s)\<rparr>
               in case d_temp_rgba (sh_dev s) of
                    None \<Rightarrow> (None, s)
                  | Some temp \<Rightarrow>
                      (case capture_temp E temp s of
                         (Some f, ret, s) \<Rightarrow> (Some (Crashes f), s)
                       | (None, ret, s) \<Rightarrow>
                           if ret = 0 then encode_proactive E blob (the (d_temp_rgba (sh_dev s))) s else (None, s))
          else (None, s)
      | _ \<Rightarrow> (None, s))"

section \<open>Capture requests: the result\<close>

definition result_af_state :: "int \<Rightarrow> byte \<Rightarrow> string" where
  "result_af_state afState afMode =
     (let continuous = (afMode = ANDROID_CONTROL_AF_MODE_CONTINUOUS_PICTURE)
      in if afState = 1 then if continuous then ''CONTROL_AF_STATE_PASSIVE_SCAN'' else ''CONTROL_AF_STATE_ACTIVE_SCAN''
         else if afState = 2 then if continuous then ''CONTROL_AF_STATE_PASSIVE_FOCUSED'' else ''CONTROL_AF_STATE_FOCUSED_LOCKED''
         else if afState = 3 then if continuous then ''CONTROL_AF_STATE_PASSIVE_UNFOCUSED'' else ''CONTROL_AF_STATE_NOT_FOCUSED_LOCKED''
         else ''CONTROL_AF_STATE_INACTIVE'')"

definition build_result_metadata ::
    "u32 \<Rightarrow> int \<Rightarrow> int \<Rightarrow> int \<Rightarrow> int \<Rightarrow> int \<Rightarrow> int \<Rightarrow> byte \<Rightarrow> metadata" where
  "build_result_metadata frameNumber timestamp exposureNs sensitivity afState focusPos frameDurNs afMode =
     [(''CONTROL_AE_MODE'', U8 [Sym ''CONTROL_AE_MODE_ON'']),
      (''CONTROL_AE_STATE'', U8 [Sym ''CONTROL_AE_STATE_CONVERGED'']),
      (''CONTROL_AWB_MODE'', U8 [Sym ''CONTROL_AWB_MODE_AUTO'']),
      (''CONTROL_AWB_STATE'', U8 [Sym ''CONTROL_AWB_STATE_CONVERGED'']),
      (''CONTROL_MODE'', U8 [Sym ''CONTROL_MODE_AUTO'']),
      (''FLASH_MODE'', U8 [Sym ''FLASH_MODE_OFF'']),
      (''JPEG_QUALITY'', U8 [Num 95]),
      (''LENS_FOCUS_DISTANCE'', Flt [if focusPos > 0 then f32 (f32 (10 * of_int focusPos) / 1023) else 0]),
      (''LENS_STATE'', U8 [if afState = 1 then Sym ''LENS_STATE_MOVING'' else Sym ''LENS_STATE_STATIONARY'']),
      (''CONTROL_AF_MODE'', U8 [Num (uint afMode)]),
      (''CONTROL_AF_TRIGGER'', U8 [Sym ''CONTROL_AF_TRIGGER_IDLE'']),
      (''CONTROL_AF_STATE'', U8 [Sym (result_af_state afState afMode)]),
      (''REQUEST_ID'', I32 [Num (sint frameNumber)]),
      (''SCALER_CROP_REGION'', I32 [Num 0, Num 0, Num 3280, Num 2464]),
      (''SENSOR_EXPOSURE_TIME'', I64 [Num exposureNs]),
      (''SENSOR_FRAME_DURATION'', I64 [Num (if frameDurNs > 0 then frameDurNs else 39682540)]),
      (''SENSOR_SENSITIVITY'', I32 [Num sensitivity]),
      (''SENSOR_TIMESTAMP'', I64 [Num timestamp])]"

definition result_metadata :: "kernel \<Rightarrow> u32 \<Rightarrow> int \<Rightarrow> mocha_camera_device \<Rightarrow> metadata \<times> mocha_camera_device" where
  "result_metadata K frame timestamp d =
     (case d_pipeline d of
        None \<Rightarrow> (build_result_metadata frame timestamp 39682540 128 0 0 0 (d_af_mode d), d)
      | Some p \<Rightarrow>
          let (sensitivity, p) = getGain K p
          in (build_result_metadata frame timestamp (getExposureNs p) sensitivity (mAfState p) (mFocusPosition p)
                (mFramePeriodNs p) (d_af_mode d), d\<lparr>d_pipeline := Some p\<rparr>))"

definition device_log :: "mocha_camera_device \<Rightarrow> sys list" where
  "device_log d = (case d_pipeline d of None \<Rightarrow> d_log d | Some p \<Rightarrow> p_log p)"

definition notify :: "'c hal_env \<Rightarrow> hal_event \<Rightarrow> mocha_camera_device \<Rightarrow> mocha_camera_device" where
  "notify E e d = (if e_notify E then d\<lparr>d_events := e # d_events d\<rparr> else d)"

definition deliver :: "'c hal_env \<Rightarrow> capture_request \<Rightarrow> bool \<Rightarrow> mocha_camera_device \<Rightarrow> mocha_camera_device" where
  "deliver E req captured d =
     (let frame = cr_frame_number req; now = e_clock E (device_log d);
          flushed = (case d_inflight_tracker d of None \<Rightarrow> False | Some t \<Rightarrow> isError frame t);
          d = forget_frame frame d;
          d = (if captured then notify E (Shutter frame now) d else d);
          bufs = map (\<lambda>b. (b\<lparr>sb_acquire_fence := - 1\<rparr>, captured \<and> \<not> flushed)) (take 16 (cr_output_buffers req));
          d = (if \<not> flushed \<and> \<not> captured then notify E (Error_Device frame) d else d);
          (meta, d) = (if captured \<and> \<not> flushed
                       then case result_metadata (e_kernel E) frame now d of (m, d) \<Rightarrow> (if e_metadata E then Some m else None, d)
                       else (None, d))
      in d\<lparr>d_events := Result frame meta bufs # d_events d\<rparr>)"

section \<open>Capture requests: the operation\<close>

text \<open>The outputs of the request, then the proactive JPEG unless the request was given up.\<close>

definition serve_request :: "'c hal_env \<Rightarrow> capture_request \<Rightarrow> CameraPipeline \<Rightarrow> mocha_camera_device \<Rightarrow> hal_result option \<times> shot" where
  "serve_request E req p d =
     (let (r, s) = (if d_streams_configured d then run_capture E (cr_frame_number req) (cr_output_buffers req) p d
                    else (None, \<lparr>sh_dev = d, sh_pipe = p, sh_captured = False, sh_blob = False\<rparr>))
      in case r of Some _ \<Rightarrow> (r, s) | None \<Rightarrow> proactive_jpeg E (cr_settings req) s)"

definition finish_capture :: "'c hal_env \<Rightarrow> capture_request \<Rightarrow> mocha_camera_device \<Rightarrow> hal_result \<times> mocha_camera_device" where
  "finish_capture E req d =
     (case d_pipeline d of
        None \<Rightarrow> (Returns 0, deliver E req False d)
      | Some p \<Rightarrow>
          let (r, s) = serve_request E req p d; d = (sh_dev s)\<lparr>d_pipeline := Some (sh_pipe s)\<rparr>
          in (case r of Some result \<Rightarrow> (result, d) | None \<Rightarrow> (Returns 0, deliver E req (sh_captured s) d)))"

definition camera_device_process_capture_request ::
    "'c hal_env \<Rightarrow> bool \<Rightarrow> capture_request \<Rightarrow> mocha_camera_device \<Rightarrow> hal_result \<times> mocha_camera_device" where
  "camera_device_process_capture_request E closing_meanwhile req d =
     (let frame = cr_frame_number req
      in if d_closing d then (Returns (- ENOSYS), d)
         else if \<not> d_is_initialized d \<or> \<not> d_callback_ops d then (Returns (- ENOSYS), d)
         else if cr_output_buffers req = [] then (Returns (- EINVAL), d)
         else if (case d_inflight_tracker d of None \<Rightarrow> False | Some t \<Rightarrow> isError frame t)
         then (Returns (- EAGAIN), forget_frame frame d)
         else
           let d = d\<lparr>d_inflight_tracker := map_option (tracker_add frame (sb_buffer (hd (cr_output_buffers req)))) (d_inflight_tracker d)\<rparr>;
               d = apply_settings (cr_settings req) d;
               fault = af_faults (e_kernel E) d (af_control (e_kernel E) (cr_output_buffers req) d);
               d = af_control (e_kernel E) (cr_output_buffers req) d;
               d = d\<lparr>d_closing := closing_meanwhile\<rparr>
           in if fault \<noteq> None then (Crashes (the fault), d)
              else if d_closing d then (Returns (- ENOSYS), forget_frame frame d)
              else finish_capture E req d)"

section \<open>Flush\<close>

definition camera_device_flush :: "'c hal_env \<Rightarrow> mocha_camera_device \<Rightarrow> int \<times> mocha_camera_device" where
  "camera_device_flush E d =
     (let d = (case d_pipeline d of
                 Some p \<Rightarrow> if d_streams_configured d then d\<lparr>d_pipeline := Some (snd (stopStreaming (e_kernel E) p))\<rparr> else d
               | None \<Rightarrow> d);
          d = (case d_inflight_tracker d of
                 None \<Rightarrow> d
               | Some t \<Rightarrow> d\<lparr>d_inflight_tracker := Some (snd (drainAll (markAllAsError t)))\<rparr>)
      in (0, d))"

end
