(* ===== verification/Hal_Contract.thy ===== *)
theory Hal_Contract
  imports Hal_Device
begin

text \<open>
  What the framework may rely on: which stream the pipeline is configured for, how stream configuration
  ends, one answer per capture request, no descriptor or mapping left behind, and how the device
  behaves after a flush. The table of requests in flight enters through the interface \<open>request_table\<close>.
\<close>

section \<open>Stream selection\<close>

definition image_streams :: "camera3_stream list \<Rightarrow> camera3_stream list" where
  "image_streams ss = filter (\<lambda>s. st_output s \<and> st_format s \<noteq> HAL_PIXEL_FORMAT_BLOB) ss"

definition sized :: "camera3_stream list \<Rightarrow> bool" where
  "sized ss = list_all (\<lambda>s. st_width s \<noteq> 0 \<and> st_height s \<noteq> 0) ss"

text \<open>The choice, in terms of the first two image streams only.\<close>

definition chosen_stream :: "camera3_stream list \<Rightarrow> camera3_stream option" where
  "chosen_stream ss =
     (case image_streams ss of
        [] \<Rightarrow> None
      | [s] \<Rightarrow> Some s
      | s # t # _ \<Rightarrow>
          if st_format s = HAL_PIXEL_FORMAT_IMPLEMENTATION_DEFINED \<and> st_format t = HAL_PIXEL_FORMAT_RGBA_8888
          then Some t else Some s)"

definition with_buffers :: "camera3_stream \<Rightarrow> camera3_stream" where
  "with_buffers s = (if st_output s then s\<lparr>st_max_buffers := 2\<rparr> else s)"

lemma with_buffers_simps [simp]:
  "st_output (with_buffers s) = st_output s" "st_width (with_buffers s) = st_width s"
  "st_height (with_buffers s) = st_height s" "st_format (with_buffers s) = st_format s"
  by (simp_all add: with_buffers_def)

lemma format_distinct [simp]:
  "HAL_PIXEL_FORMAT_RGBA_8888 \<noteq> HAL_PIXEL_FORMAT_BLOB" "HAL_PIXEL_FORMAT_IMPLEMENTATION_DEFINED \<noteq> HAL_PIXEL_FORMAT_BLOB"
  "HAL_PIXEL_FORMAT_RGBA_8888 \<noteq> HAL_PIXEL_FORMAT_IMPLEMENTATION_DEFINED"
  "HAL_PIXEL_FORMAT_IMPLEMENTATION_DEFINED \<noteq> HAL_PIXEL_FORMAT_RGBA_8888"
  by (simp_all add: HAL_PIXEL_FORMAT_RGBA_8888_def HAL_PIXEL_FORMAT_BLOB_def HAL_PIXEL_FORMAT_IMPLEMENTATION_DEFINED_def)

lemma scan_streams_fold:
  "scan_streams ss sel = (if sized ss then Some (fold (\<lambda>s. select_stream (with_buffers s)) ss sel) else None)"
  by (induction ss arbitrary: sel) (auto simp: sized_def with_buffers_def)

lemma image_streams_Cons:
  "image_streams (s # ss) = (if st_output s \<and> st_format s \<noteq> HAL_PIXEL_FORMAT_BLOB then s # image_streams ss else image_streams ss)"
  by (simp add: image_streams_def)

text \<open>One step of the scan.\<close>

lemma select_fields:
  "sel_pipeline (select_stream s sel) =
     (if st_output s \<and> st_format s \<noteq> HAL_PIXEL_FORMAT_BLOB \<and> sel_pipeline sel = None \<and>
         \<not> (sel_rgba sel = None \<and> st_format s = HAL_PIXEL_FORMAT_IMPLEMENTATION_DEFINED) then Some s else sel_pipeline sel)"
  "sel_rgba (select_stream s sel) =
     (if st_output s \<and> st_format s \<noteq> HAL_PIXEL_FORMAT_BLOB \<and> sel_pipeline sel = None \<and>
         (st_format s = HAL_PIXEL_FORMAT_RGBA_8888 \<or> sel_rgba sel = None \<and> st_format s = HAL_PIXEL_FORMAT_IMPLEMENTATION_DEFINED)
      then Some s else sel_rgba sel)"
  by (auto simp: select_stream_def Let_def)

text \<open>The three states of the scan: decided, one implementation-defined stream seen, nothing seen.\<close>

lemma select_decided:
  "sel_pipeline sel = Some p \<Longrightarrow>
   sel_pipeline (fold (\<lambda>s. select_stream (with_buffers s)) ss sel) = Some p \<and>
   sel_rgba (fold (\<lambda>s. select_stream (with_buffers s)) ss sel) = sel_rgba sel"
  by (induction ss arbitrary: sel) (simp_all add: select_fields)

lemma pipeline_stream_decided:
  "sel_pipeline sel = Some p \<Longrightarrow>
   pipeline_stream (fold (\<lambda>s. select_stream (with_buffers s)) ss sel) = (case sel_rgba sel of Some s \<Rightarrow> Some s | None \<Rightarrow> Some p)"
  using select_decided [of sel p ss] by (simp add: pipeline_stream_def split: option.split)

lemma pipeline_stream_seen:
  assumes "sel_pipeline sel = None" "sel_rgba sel = Some r"
  shows "pipeline_stream (fold (\<lambda>s. select_stream (with_buffers s)) ss sel) =
    (case image_streams ss of t # _ \<Rightarrow> if st_format t = HAL_PIXEL_FORMAT_RGBA_8888 then Some (with_buffers t) else Some r
     | [] \<Rightarrow> Some r)"
  using assms
proof (induction ss arbitrary: sel)
  case Nil
  then show ?case by (simp add: pipeline_stream_def image_streams_def)
next
  case (Cons s ss)
  show ?case
  proof (cases "st_output s \<and> st_format s \<noteq> HAL_PIXEL_FORMAT_BLOB")
    case False
    then show ?thesis using Cons by (cases "st_output s") (simp_all add: image_streams_Cons select_fields)
  next
    case True
    then show ?thesis using Cons.prems by (simp add: image_streams_Cons select_fields pipeline_stream_decided)
  qed
qed

lemma pipeline_stream_start:
  "sel_pipeline sel = None \<Longrightarrow> sel_rgba sel = None \<Longrightarrow>
   pipeline_stream (fold (\<lambda>s. select_stream (with_buffers s)) ss sel) = map_option with_buffers (chosen_stream ss)"
proof (induction ss arbitrary: sel)
  case Nil
  then show ?case by (simp add: pipeline_stream_def chosen_stream_def image_streams_def)
next
  case (Cons s ss)
  show ?case
  proof (cases "st_output s \<and> st_format s \<noteq> HAL_PIXEL_FORMAT_BLOB")
    case False
    then show ?thesis using Cons by (cases "st_output s") (simp_all add: chosen_stream_def image_streams_Cons select_fields)
  next
    case image: True
    show ?thesis
    proof (cases "st_format s = HAL_PIXEL_FORMAT_IMPLEMENTATION_DEFINED")
      case True
      then show ?thesis using image Cons.prems
        by (simp add: chosen_stream_def image_streams_Cons select_fields pipeline_stream_seen split: list.split)
    next
      case False
      then show ?thesis using image Cons.prems
        by (simp add: chosen_stream_def image_streams_Cons select_fields pipeline_stream_decided split: list.split)
    qed
  qed
qed


section \<open>Filling the outputs\<close>

text \<open>What the framework is told: notifications and results, newest first.\<close>

fun is_notice :: "hal_event \<Rightarrow> bool" where
  "is_notice (Shutter _ _) = True"
| "is_notice (Error_Device _) = True"
| "is_notice (Result _ _ _) = True"
| "is_notice _ = False"

definition notices :: "mocha_camera_device \<Rightarrow> hal_event list" where
  "notices d = filter is_notice (d_events d)"

text \<open>While a request is served nothing else is told to the framework, no resource changes hands, the
  fields that survive a request stay, and an image comes only from a pipeline with buffers.\<close>

definition same_session :: "mocha_camera_device \<Rightarrow> mocha_camera_device \<Rightarrow> bool" where
  "same_session d d' \<longleftrightarrow> notices d' = notices d \<and> d_inflight_tracker d' = d_inflight_tracker d \<and>
     d_callback_ops d' = d_callback_ops d \<and> d_is_initialized d' = d_is_initialized d \<and> d_log d' = d_log d \<and>
     d_streams_configured d' = d_streams_configured d \<and> d_closing d' = d_closing d \<and>
     d_last_config_width d' = d_last_config_width d \<and> d_last_config_height d' = d_last_config_height d"

definition fills :: "shot \<Rightarrow> shot \<Rightarrow> bool" where
  "fills s s' \<longleftrightarrow> quiet (sh_pipe s) (sh_pipe s') \<and> same_session (sh_dev s) (sh_dev s') \<and>
     (sh_captured s' \<longrightarrow> sh_captured s \<or> 0 < mBufferCount (sh_pipe s)) \<and>
     (mCurrentGain (sh_pipe s) \<noteq> 0 \<longrightarrow> mCurrentGain (sh_pipe s') \<noteq> 0)"

lemma same_session_refl [simp, intro]: "same_session d d"
  by (simp add: same_session_def)

lemma same_session_trans: "same_session a b \<Longrightarrow> same_session b c \<Longrightarrow> same_session a c"
  by (simp add: same_session_def)

lemma fills_refl [simp, intro]: "fills s s"
  by (simp add: fills_def)

lemma fills_trans [trans]: "fills a b \<Longrightarrow> fills b c \<Longrightarrow> fills a c"
  unfolding fills_def using quiet_trans same_session_trans by (metis quiet_def)

lemma captureFrame_needs_buffers:
  assumes "captureFrame K out fmt p = (0, out', p')"
  shows "0 < mBufferCount p"
proof (cases "out = None \<or> mState p \<noteq> PIPELINE_STREAMING")
  case True
  then show ?thesis using assms by (auto simp: captureFrame_def split: option.splits)
next
  case False
  then obtain buf where o: "out = Some buf" and st: "mState p = PIPELINE_STREAMING" by auto
  obtain r1 q1 r2 q2 b q3 ret4 out4 q4 r5 q5 where "poll_frame K 0 p = (r1, q1)" "quiet p q1"
    "p_log q2 = DQBuf (mFd q1) # p_log q1" "r2 = k_ret K (p_log q2)" "b = k_dqbuf K (p_log q2)"
    "adjusts q2 q3" "adjusts q3 q4" "p_log q5 = QBuf (mFd q4) (dq_index b) # p_log q4" "r5 = k_ret K (p_log q5)"
    "quiet p q2" "quiet p q3" "quiet p q5"
    and run: "captureFrame K (Some buf) fmt p =
        (if r1 < 0 then (r1, Some buf, q1) else if r2 < 0 then (r2, Some buf, q2)
         else if mBufferCount p \<le> dq_index b then (- EINVAL, Some buf, q3)
         else if r5 < 0 then (r5, out4, q5) else (ret4, out4, q5))"
    by (rule captureFrame_run [OF st, of K buf fmt])
  show ?thesis using assms unfolding o run by (auto split: if_splits)
qed

lemma fills_emit: "\<not> is_notice e \<Longrightarrow> fills s (emit e s)"
  by (simp add: fills_def emit_def same_session_def notices_def)

lemma fills_flags:
  "0 < mBufferCount (sh_pipe s) \<Longrightarrow> fills s (s\<lparr>sh_captured := c\<rparr>)" "fills s (s\<lparr>sh_blob := c\<rparr>)"
  by (simp_all add: fills_def)

lemma fills_dev: "same_session (sh_dev s) d \<Longrightarrow> fills s (s\<lparr>sh_dev := d\<rparr>)"
  by (simp add: fills_def)

lemma same_session_ensure_temp: "same_session d (ensure_temp E d)"
  by (simp add: ensure_temp_def Let_def same_session_def notices_def)

lemma same_session_encoder: "same_session d (d\<lparr>d_jpeg_encoder := b\<rparr>)" "same_session d (d\<lparr>d_temp_rgba := t\<rparr>)"
  by (simp_all add: same_session_def notices_def)

lemmas fills_intros = fills_emit fills_flags fills_dev same_session_ensure_temp same_session_encoder

lemma first_fault_in: "first_fault fs = Some f \<Longrightarrow> Some f \<in> set fs"
  by (induction fs) (auto split: option.splits)

lemma shortfall_less: "shortfall need have = Some f \<Longrightarrow> \<exists>n h. f = Out_Of_Bounds n h \<and> h < n"
  by (auto simp: shortfall_def split: if_splits)

text \<open>What an access outside of its memory says: it needed more than there was.\<close>

definition is_overrun :: "fault \<Rightarrow> bool" where
  "is_overrun f = (case f of Out_Of_Bounds need have \<Rightarrow> have < need | _ \<Rightarrow> False)"

lemma overrun_shortfall [simp]: "shortfall need have = Some f \<Longrightarrow> is_overrun f"
  by (auto simp: is_overrun_def dest: shortfall_less)

lemma overrun_demosaic: "demosaic_fault p b = Some f \<Longrightarrow> is_overrun f"
  by (auto simp: demosaic_fault_def Let_def dest!: first_fault_in split: option.splits if_splits)

lemma overrun_first:
  "first_fault fs = Some f \<Longrightarrow> (\<And>x. Some x \<in> set fs \<Longrightarrow> is_overrun x) \<Longrightarrow> is_overrun f"
  using first_fault_in by blast

text \<open>A capture may also divide by a gain of 0.\<close>

definition is_capture_fault :: "CameraPipeline \<Rightarrow> fault \<Rightarrow> bool" where
  "is_capture_fault p f \<longleftrightarrow> is_overrun f \<or> f = Zero_Gain \<and> mCurrentGain p = 0"

lemma ae_fault_gain: "ae_fault p b = Some f \<Longrightarrow> f = Zero_Gain \<and> mCurrentGain p = 0"
  by (auto simp: ae_fault_def split: option.splits if_splits)

lemma overrun_frame: "capture_fault diagnosed p fmt have b = Some f \<Longrightarrow> is_capture_fault p f"
proof -
  assume "capture_fault diagnosed p fmt have b = Some f"
  from first_fault_in [OF this [unfolded capture_fault_def]] show ?thesis
    by (auto simp: is_capture_fault_def dest: sym [of "Some _"] ae_fault_gain [OF sym] overrun_demosaic [OF sym] overrun_shortfall [OF sym]
        split: if_splits)
qed

lemma overrun_capture: "capture_faults E fmt have p p' = Some f \<Longrightarrow> is_capture_fault p f"
  unfolding capture_faults_def by (drule first_fault_in) (auto intro: overrun_frame [OF sym])

lemma overrun_af: "af_faults K d d' = Some f \<Longrightarrow> is_overrun f"
  unfolding af_faults_def scan_faults_def
  by (auto split: option.splits elim!: overrun_first intro: overrun_demosaic [OF sym])

lemma fills_capture_temp:
  assumes "capture_temp E temp s = (f, ret, s')"
  shows "fills s s' \<and> (ret = 0 \<longrightarrow> 0 < mBufferCount (sh_pipe s')) \<and> (\<forall>x. f = Some x \<longrightarrow> is_capture_fault (sh_pipe s) x)"
proof -
  obtain out p where c: "captureFrame (e_kernel E) (Some temp) HAL_PIXEL_FORMAT_RGBA_8888 (sh_pipe s) = (ret, out, p)"
    using assms by (auto simp: capture_temp_def split: prod.splits)
  have q: "quiet (sh_pipe s) p" by (rule quiet_captureFrame [OF c])
  have "0 < mBufferCount p" if "ret = 0" using captureFrame_needs_buffers c q that by (simp add: quiet_def)
  then show ?thesis using assms q by (auto simp: capture_temp_def c fills_def same_session_encoder overrun_capture captureFrame_keeps_gain [OF c])
qed

text \<open>Why a request may crash: a buffer without a stream, an access outside of its memory, or libjpeg giving
  up; and why it may hang: libjpeg does not count its scanlines as documented.\<close>

definition exits :: "('c, 'x) libjpeg_scheme \<Rightarrow> bool" where
  "exits lj \<longleftrightarrow> (\<exists>w h q dest. lj_start lj w h q dest = Exited) \<or> (\<exists>row c dest. lj_write_scanlines lj row c dest = Exited) \<or>
     (\<exists>c dest. lj_finish lj c dest = Exited)"

definition explains :: "'c hal_env \<Rightarrow> bool \<Rightarrow> stream_buffer list \<Rightarrow> hal_result \<Rightarrow> bool" where
  "explains E gainless bs res \<longleftrightarrow>
     (case res of
        Crashes Null_Stream \<Rightarrow> \<exists>b\<in>set bs. sb_buffer b \<noteq> None \<and> sb_stream b = None
      | Crashes Process_Exit \<Rightarrow> exits (e_jpeg E)
      | Crashes (Out_Of_Bounds need have) \<Rightarrow> have < need
      | Crashes Zero_Gain \<Rightarrow> gainless
      | Hangs \<Rightarrow> \<not> counts_scanlines (e_jpeg E)
      | Returns r \<Rightarrow> False)"

lemma explains_Returns [simp]: "\<not> explains E z bs (Returns r)"
  by (simp add: explains_def)

lemma explains_overrun: "is_overrun f \<Longrightarrow> explains E z bs (Crashes f)"
  by (auto simp: is_overrun_def explains_def split: fault.splits)

lemma explains_capture: "is_capture_fault p f \<Longrightarrow> explains E (mCurrentGain p = 0) bs (Crashes f)"
  by (auto simp: is_capture_fault_def explains_overrun) (simp add: explains_def)

lemma explains_mono: "explains E z bs res \<Longrightarrow> (z \<Longrightarrow> z') \<Longrightarrow> explains E z' bs res"
  by (auto simp: explains_def split: hal_result.splits fault.splits)

lemma exits_intros:
  "lj_start lj w h q dest = Exited \<Longrightarrow> exits lj" "lj_write_scanlines lj row c dest = Exited \<Longrightarrow> exits lj"
  "lj_finish lj c dest = Exited \<Longrightarrow> exits lj"
  by (auto simp: exits_def)

lemma encode_rows_exits: "encode_rows lj rgba w h row c dest = Some r \<Longrightarrow> r = Exited \<longrightarrow> exits lj"
  by (rule encode_rows.raw_induct [where P = "\<lambda>lj rgba w h row c dest r. r = Exited \<longrightarrow> exits lj"])
    (auto simp: Let_def exits_intros split: if_splits call.splits prod.splits)

lemma encode_exits: "encodeRGBA lj m rgba w h q out n k = Some Exited \<Longrightarrow> exits lj"
  by (auto simp: encodeRGBA_def Let_def exits_intros split: option.splits call.splits prod.splits dest: encode_rows_exits)

lemma length_malloc: "malloc E n = Some row \<Longrightarrow> length row = n"
  by (auto simp: malloc_def)

text \<open>How filling an output may end: it goes on, it crashes or hangs for a reason, or the frame is given up.\<close>

inductive filling :: "'c hal_env \<Rightarrow> stream_buffer list \<Rightarrow> u32 \<Rightarrow> shot \<Rightarrow> hal_result option \<Rightarrow> shot \<Rightarrow> bool" for E bs frame where
  goes_on: "fills s s' \<Longrightarrow> filling E bs frame s None s'"
| breaks: "fills s s' \<Longrightarrow> explains E (mCurrentGain (sh_pipe s) = 0) bs res \<Longrightarrow> filling E bs frame s (Some res) s'"
| gives_up: "fills s s' \<Longrightarrow> filling E bs frame s (Some (Returns (- EAGAIN))) (s'\<lparr>sh_dev := forget_frame frame (sh_dev s')\<rparr>)"

lemma filling_trans:
  assumes "fills s s'" "filling E bs frame s' r s''"
  shows "filling E bs frame s r s''"
  using assms(2)
proof cases
  case (breaks res)
  have "explains E (mCurrentGain (sh_pipe s) = 0) bs res"
    by (rule explains_mono [OF breaks(3)]) (use assms(1) in \<open>auto simp: fills_def\<close>)
  then show ?thesis using breaks fills_trans [OF assms(1)] by (auto intro: filling.breaks)
qed (use fills_trans [OF assms(1)] in \<open>auto intro: filling.intros\<close>)

lemma explains_encoder:
  "encodeRGBA (e_jpeg E) (malloc E (w * 3)) img w h q mem n k = None \<Longrightarrow> explains E z bs Hangs"
  "encodeRGBA (e_jpeg E) (malloc E (w * 3)) img w h q mem n k = Some Exited \<Longrightarrow> explains E z bs (Crashes Process_Exit)"
  using encodeRGBA_ends [of "e_jpeg E" "malloc E (w * 3)" w img h q mem n k] length_malloc [of E "w * 3"]
    encode_exits [of "e_jpeg E" "malloc E (w * 3)" img w h q mem n k]
  by (auto simp: explains_def)

lemma filling_encode_blob:
  assumes "encode_blob E handle w h src s = (r, s')" "0 < mBufferCount (sh_pipe s)"
  shows "filling E bs frame s r s'"
proof -
  have overrun: "is_overrun f" if "first_fault [shortfall a b, shortfall c d, if t then shortfall i j else None, if t then shortfall k l else None] = Some f"
    for f t a b c d i j k l
    using first_fault_in [OF that] by (auto split: if_splits)
  show ?thesis using assms unfolding encode_blob_def Let_def
    by (auto split: prod.splits lock_answer.splits option.splits call.splits if_splits
      intro!: filling.intros explains_encoder intro: fills_trans [OF fills_trans [OF fills_dev fills_flags(1)] fills_emit]
        fills_trans [OF fills_dev fills_emit] fills_intros explains_overrun overrun)
qed

lemma filling_capture_blob:
  assumes "capture_blob E frame handle st s = (r, s')"
  shows "filling E bs frame s r s'"
proof -
  define s1 where "s1 = s\<lparr>sh_blob := True, sh_dev := ensure_temp E (sh_dev s)\<rparr>"
  have 1: "fills s s1" unfolding s1_def fills_def by (simp add: same_session_ensure_temp)
  show ?thesis
  proof (cases "d_temp_rgba (sh_dev s1)")
    case None
    then have "r = None" "s' = s1" using assms unfolding capture_blob_def s1_def [symmetric] Let_def by auto
    then show ?thesis using 1 by (simp add: filling.goes_on)
  next
    case (Some temp)
    obtain f ret s2 where s2: "capture_temp E temp s1 = (f, ret, s2)" by (metis prod_cases3)
    have 2: "fills s1 s2" "ret = 0 \<longrightarrow> 0 < mBufferCount (sh_pipe s2)" "\<forall>x. f = Some x \<longrightarrow> is_capture_fault (sh_pipe s1) x"
      using fills_capture_temp [OF s2] by auto
    have "filling E bs frame s1 r s'"
      using assms unfolding capture_blob_def s1_def [symmetric] Let_def Some option.case s2 prod.case
      using 2 by (auto split: if_splits option.splits intro: filling_trans [OF 2(1)] filling_encode_blob filling.intros explains_capture)
    then show ?thesis by (rule filling_trans [OF 1])
  qed
qed

lemma filling_capture_locked: "capture_locked E frame handle fmt answer s = (r, s') \<Longrightarrow> filling E bs frame s r s'"
proof (cases answer)
  case (Mapped mem)
  assume run: "capture_locked E frame handle fmt answer s = (r, s')"
  obtain ret out p where c: "captureFrame (e_kernel E) (Some mem) fmt (sh_pipe s) = (ret, out, p)" by (metis prod_cases3)
  define s1 where "s1 = emit (Wrote handle (the out)) (s\<lparr>sh_pipe := p, sh_captured := sh_captured s \<or> ret = 0\<rparr>)"
  have "fills s (s\<lparr>sh_pipe := p, sh_captured := sh_captured s \<or> ret = 0\<rparr>)"
    using quiet_captureFrame [OF c] captureFrame_needs_buffers [of "e_kernel E" "Some mem" fmt "sh_pipe s"] captureFrame_keeps_gain [OF c] c
    by (auto simp: fills_def)
  then have "fills s s1" unfolding s1_def by (rule fills_trans) (simp add: fills_emit)
  then show ?thesis using run unfolding capture_locked_def Mapped lock_answer.case c prod.case s1_def [symmetric] Let_def
    by (auto split: if_splits option.splits intro: filling.intros explains_capture overrun_capture)
qed (auto simp: capture_locked_def intro: filling.goes_on)

lemma filling_capture_output:
  assumes "capture_output E frame b s = (r, s')" "b \<in> set bs"
  shows "filling E bs frame s r s'"
proof (cases "sb_buffer b")
  case None
  then show ?thesis using assms by (auto simp: capture_output_def intro: filling.goes_on)
next
  case (Some handle)
  define s1 where "s1 = (if sb_acquire_fence b \<ge> 0 then emit (Close_Fence (sb_acquire_fence b)) s else s)"
  have "fills s s1" by (simp add: s1_def fills_emit)
  moreover have "filling E bs frame s1 r s'"
  proof (cases "sb_stream b")
    case None
    then have "explains E z bs (Crashes Null_Stream)" for z using assms(2) Some by (auto simp: explains_def)
    then show ?thesis using assms None Some by (auto simp: capture_output_def s1_def [symmetric] Let_def intro: filling.intros)
  next
    case st: (Some st)
    then show ?thesis
      using assms unfolding capture_output_def Some option.case s1_def [symmetric] Let_def capture_ycbcr_def capture_rgba_def
      by (auto split: if_splits intro: filling_capture_blob filling_capture_locked)
  qed
  ultimately show ?thesis by (rule filling_trans)
qed

lemma filling_capture_outputs: "capture_outputs E frame ys s = (r, s') \<Longrightarrow> set ys \<subseteq> set bs \<Longrightarrow> filling E bs frame s r s'"
proof (induction ys arbitrary: s)
  case (Cons b ys)
  obtain r1 s1 where 1: "capture_output E frame b s = (r1, s1)" by fastforce
  have f: "filling E bs frame s r1 s1" using filling_capture_output [OF 1] Cons.prems(2) by simp
  show ?case
  proof (cases r1)
    case None
    then have "fills s s1" using f by (auto elim: filling.cases)
    then show ?thesis using Cons None by (auto simp: 1 intro: filling_trans)
  qed (use Cons f in \<open>auto simp: 1\<close>)
qed (auto intro: filling.goes_on)

lemma filling_encode_proactive:
  assumes run: "encode_proactive E blob temp s = (r, s')" and n: "0 < mBufferCount (sh_pipe s)"
  shows "filling E bs frame s r s'"
proof -
  define s1 where "s1 = s\<lparr>sh_dev := (sh_dev s)\<lparr>d_jpeg_encoder := True\<rparr>\<rparr>"
  have overrun: "is_overrun f" if "first_fault [shortfall a b, if t then shortfall i j else None] = Some f" for f t a b i j
    using first_fault_in [OF that] by (auto split: if_splits)
  have "fills s s1" by (simp add: s1_def fills_intros)
  moreover have "filling E bs frame s1 r s'"
    using run n unfolding encode_proactive_def Let_def s1_def [symmetric]
    by (auto simp: s1_def emit_def fills_def same_session_def notices_def split: option.splits call.splits prod.splits if_splits
        intro!: filling.intros explains_encoder intro: explains_overrun overrun)
  ultimately show ?thesis by (rule filling_trans)
qed

lemma filling_proactive: "proactive_jpeg E settings s = (r, s') \<Longrightarrow> filling E bs frame s r s'"
proof -
  assume run: "proactive_jpeg E settings s = (r, s')"
  define s1 where "s1 = s\<lparr>sh_dev := ensure_temp E (sh_dev s)\<rparr>"
  have 1: "fills s s1" by (simp add: s1_def fills_intros)
  consider "r = None" "s' = s" | "r = None" "s' = s1"
    | blob temp f ret s2 where "capture_temp E temp s1 = (f, ret, s2)"
        "r = None \<and> s' = s2 \<or> (\<exists>x. f = Some x \<and> r = Some (Crashes x) \<and> s' = s2) \<or>
         ret = 0 \<and> encode_proactive E blob (the (d_temp_rgba (sh_dev s2))) s2 = (r, s')"
    using run unfolding proactive_jpeg_def Let_def s1_def [symmetric]
    by (auto split: option.splits bool.splits if_splits prod.splits) blast
  then show ?thesis
  proof cases
    case 3
    have f: "fills s s2" "ret = 0 \<longrightarrow> 0 < mBufferCount (sh_pipe s2)" "\<forall>x. f = Some x \<longrightarrow> is_capture_fault (sh_pipe s) x"
      using fills_trans [OF 1] fills_capture_temp [OF 3(1)] by (auto simp: s1_def)
    show ?thesis using 3(2) f(2,3)
      by (auto intro: filling.goes_on filling.breaks explains_capture f(1) filling_trans [OF f(1) filling_encode_proactive])
  qed (use 1 in \<open>auto intro: filling.goes_on\<close>)
qed

section \<open>Serving a request\<close>

text \<open>A gain other than 0 stays one: only reading it back from the sensor, for the metadata of a result, can make it 0.\<close>

definition gainless :: "mocha_camera_device \<Rightarrow> bool" where
  "gainless d \<longleftrightarrow> (case d_pipeline d of None \<Rightarrow> False | Some p \<Rightarrow> mCurrentGain p = 0)"

lemma startStreaming_count: "mBufferCount (snd (startStreaming K p)) = mBufferCount p"
proof -
  have "mBufferCount (snd (setExposure K e q)) = mBufferCount q" "mBufferCount (snd (setGain K g q)) = mBufferCount q"
    "mBufferCount (ov5693_init_via_i2c fd q) = mBufferCount q" "mBufferCount (snd (queue_buffers K i q)) = mBufferCount q" for e g fd i q
    using quiet_setExposure [of q K e] quiet_setGain [of q K g] quiet_ov5693 [of q fd] queue_buffers_quiet [of K i q, OF surjective_pairing]
    by (simp_all add: quiet_def)
  then show ?thesis by (simp add: startStreaming_def Let_def case_prod_unfold syscall_def)
qed

lemma restart_stream_count: "mBufferCount (snd (restart_stream K p)) = mBufferCount p"
  by (simp add: restart_stream_def startStreaming_count)

lemma restart_keeps_gain: "mCurrentGain p \<noteq> 0 \<Longrightarrow> mCurrentGain (snd (restart_stream K p)) \<noteq> 0"
  by (simp add: restart_stream_def startStreaming_keeps_gain)

lemma filling_facts:
  assumes "filling E bs frame s r s'"
  shows "quiet (sh_pipe s) (sh_pipe s') \<and> (sh_captured s' \<longrightarrow> sh_captured s \<or> 0 < mBufferCount (sh_pipe s)) \<and>
    ((\<forall>x. r = Some x \<longrightarrow> explains E (mCurrentGain (sh_pipe s) = 0) bs x) \<and> same_session (sh_dev s) (sh_dev s') \<or>
     r = Some (Returns (- EAGAIN)) \<and> (\<exists>d. same_session (sh_dev s) d \<and> sh_dev s' = forget_frame frame d))"
  using assms by cases (auto simp: fills_def)

lemma serve_request_facts:
  assumes run: "serve_request E req p d = (r, s)"
  shows "(sh_captured s \<longrightarrow> 0 < mBufferCount p) \<and>
    (\<exists>p1. p1 \<in> {p, snd (restart_stream (e_kernel E) p)} \<and> quiet p1 (sh_pipe s)) \<and>
    ((\<forall>x. r = Some x \<longrightarrow> explains E (mCurrentGain p = 0) (cr_output_buffers req) x) \<and> same_session d (sh_dev s) \<or>
     r \<in> {Some (Returns (- EAGAIN)), Some (Returns (- ENODEV))} \<and>
       (\<exists>d'. same_session d d' \<and> sh_dev s = forget_frame (cr_frame_number req) d'))"
proof -
  let ?f = "cr_frame_number req" let ?bs = "cr_output_buffers req"
  define s0 where "s0 p = \<lparr>sh_dev = d, sh_pipe = p, sh_captured = False, sh_blob = False\<rparr>" for p
  obtain ret p1 where rs: "restart_stream (e_kernel E) p = (ret, p1)" by fastforce
  obtain r1 s1 where 1: "(if d_streams_configured d then run_capture E ?f (cr_output_buffers req) p d else (None, s0 p)) = (r1, s1)"
    by fastforce
  consider "r1 = Some (Returns (- ENODEV))" "s1 = (s0 p1)\<lparr>sh_dev := forget_frame ?f d\<rparr>"
    | q where "q \<in> {p, p1}" "filling E ?bs ?f (s0 q) r1 s1"
    using 1 unfolding run_capture_def rs s0_def [symmetric] prod.case Let_def
    by (auto split: if_splits intro: filling.goes_on filling_capture_outputs)
  then show ?thesis
  proof cases
    case 1
    then have "r = r1" "s = s1" using run \<open>_ = (r1, s1)\<close> unfolding serve_request_def s0_def by auto
    then show ?thesis using 1 rs by (auto simp: s0_def intro!: exI [of _ p1])
  next
    case (2 q)
    have "filling E ?bs ?f (s0 q) r s"
    proof (cases r1)
      case None
      then have "fills (s0 q) s1" using 2(2) by (auto elim: filling.cases)
      moreover have "filling E ?bs ?f s1 r s"
        using run None \<open>_ = (r1, s1)\<close> unfolding serve_request_def s0_def by (auto intro: filling_proactive)
      ultimately show ?thesis by (rule filling_trans)
    next
      case (Some x)
      then show ?thesis using 2(2) run \<open>_ = (r1, s1)\<close> unfolding serve_request_def s0_def by auto
    qed
    note facts = filling_facts [OF this]
    have "mCurrentGain q = 0 \<Longrightarrow> mCurrentGain p = 0"
      using 2(1) rs restart_keeps_gain [of p "e_kernel E"] by auto
    then have "explains E (mCurrentGain q = 0) ?bs x \<Longrightarrow> explains E (mCurrentGain p = 0) ?bs x" for x using explains_mono by blast
    then show ?thesis using facts 2(1) rs restart_stream_count [of "e_kernel E" p] by (auto simp: s0_def)
  qed
qed

text \<open>Settings and autofocus run before the outputs; they touch the pipeline quietly.\<close>

lemma same_session_settings: "same_session d (apply_settings rs d)" "d_pipeline (apply_settings rs d) = d_pipeline d"
  by (auto simp: apply_settings_def Let_def same_session_def notices_def split: option.split)

lemma quiet_afAgeMs: "quiet p (snd (afAgeMs K p))"
  by (simp add: afAgeMs_def Let_def quiet_issue)

lemma quiet_preshutter: "quiet p (preshutter_scan K bs p)"
proof -
  have "quiet p (startAfScan K (snd (afAgeMs K (snd (afAgeMs K p)))))"
    using quiet_trans quiet_afAgeMs quiet_startAfScan by metis
  then show ?thesis by (auto simp: preshutter_scan_def quiet_afAgeMs Let_def case_prod_unfold)
qed

lemma af_trigger_action_facts:
  "af_trigger_action K (d, p) = (d', p') \<Longrightarrow> same_session d d' \<and> d_pipeline d' = d_pipeline d \<and> quiet p p'"
  by (auto simp: af_trigger_action_def same_session_def notices_def quiet_startAfScan cancelAf_def quiet_same split: if_splits)

lemma same_session_pipeline: "same_session d (d'\<lparr>d_pipeline := p\<rparr>) = same_session d d'"
  by (simp add: same_session_def notices_def)

lemma preshutter_gain: "mCurrentGain (preshutter_scan K bs p) = mCurrentGain p"
  by (simp add: preshutter_scan_def afAgeMs_def Let_def case_prod_unfold startAfScan_gain issue_def)

lemma af_trigger_gain: "mCurrentGain (snd (af_trigger_action K (d, p))) = mCurrentGain p"
  by (simp add: af_trigger_action_def startAfScan_gain cancelAf_def)

lemma af_control_gain: "gainless (af_control K bs d) = gainless d"
  using af_trigger_gain [of K d] by (auto simp: af_control_def gainless_def preshutter_gain Let_def split: option.split prod.split) (metis snd_conv)+

lemma af_control_facts:
  "same_session d (af_control K bs d) \<and> rel_option quiet (d_pipeline d) (d_pipeline (af_control K bs d))"
proof (cases "d_pipeline d")
  case None
  then show ?thesis by (simp add: af_control_def)
next
  case (Some p)
  obtain d' p' where 1: "af_trigger_action K (d, p) = (d', p')" by fastforce
  note f = af_trigger_action_facts [OF 1]
  then have "quiet p (preshutter_scan K bs p')" using quiet_trans quiet_preshutter by blast
  then show ?thesis using f Some by (auto simp: af_control_def 1 same_session_pipeline)
qed

section \<open>The answer to a request\<close>

text \<open>What the framework receives for one served request, newest first.\<close>

definition answer :: "'c hal_env \<Rightarrow> capture_request \<Rightarrow> bool \<Rightarrow> int \<Rightarrow> metadata \<Rightarrow> hal_event list" where
  "answer E req captured ts meta =
     Result (cr_frame_number req) (if captured \<and> e_metadata E then Some meta else None)
       (map (\<lambda>b. (b\<lparr>sb_acquire_fence := - 1\<rparr>, captured)) (take 16 (cr_output_buffers req))) #
     (if e_notify E
      then [if captured then Shutter (cr_frame_number req) ts else Error_Device (cr_frame_number req)] else [])"

definition flagged :: "u32 \<Rightarrow> mocha_camera_device \<Rightarrow> bool" where
  "flagged frame d = (case d_inflight_tracker d of None \<Rightarrow> False | Some t \<Rightarrow> isError frame t)"

text \<open>A pipeline that has buffers to capture into.\<close>

definition supplied :: "mocha_camera_device \<Rightarrow> bool" where
  "supplied d = (case d_pipeline d of None \<Rightarrow> False | Some p \<Rightarrow> 0 < mBufferCount p)"

text \<open>Everything but the events, the table and the pipeline is as before.\<close>

definition same_settings :: "mocha_camera_device \<Rightarrow> mocha_camera_device \<Rightarrow> bool" where
  "same_settings d d' \<longleftrightarrow>
     d_callback_ops d' = d_callback_ops d \<and> d_is_initialized d' = d_is_initialized d \<and> d_log d' = d_log d \<and>
     d_streams_configured d' = d_streams_configured d \<and> d_closing d' = d_closing d \<and>
     d_last_config_width d' = d_last_config_width d \<and> d_last_config_height d' = d_last_config_height d"

lemma same_settings_simps [simp]:
  "same_settings d d" "same_settings d (forget_frame f d') = same_settings d d'"
  "same_settings d (d'\<lparr>d_pipeline := p\<rparr>) = same_settings d d'" "notices (forget_frame f d) = notices d"
  "notices (d\<lparr>d_pipeline := p\<rparr>) = notices d" "d_pipeline (forget_frame f d) = d_pipeline d"
  "notices (d\<lparr>d_inflight_tracker := t\<rparr>) = notices d" "notices (d\<lparr>d_closing := c\<rparr>) = notices d"
  "d_inflight_tracker (forget_frame f d) = map_option (\<lambda>t. snd (tracker_remove f t)) (d_inflight_tracker d)"
  by (simp_all add: same_settings_def forget_frame_def notices_def)

lemma same_session_facts:
  "same_session d d' \<Longrightarrow> same_settings d d'" "same_session d d' \<Longrightarrow> notices d' = notices d"
  "same_session d d' \<Longrightarrow> d_inflight_tracker d' = d_inflight_tracker d"
  by (simp_all add: same_session_def same_settings_def)

lemma same_settings_trans: "same_settings a b \<Longrightarrow> same_settings b c \<Longrightarrow> same_settings a c"
  by (simp add: same_settings_def)

lemma result_metadata_facts:
  assumes "result_metadata K frame now d = (m, d')"
  shows "same_session d d' \<and> rel_option quiet (d_pipeline d) (d_pipeline d')"
proof (cases "d_pipeline d")
  case None
  then show ?thesis using assms by (auto simp: result_metadata_def)
next
  case (Some p)
  then show ?thesis using assms quiet_getGain [of p K]
    by (auto simp: result_metadata_def same_session_def notices_def split: prod.splits)
qed

lemma option_quiet_refl [simp, intro]: "rel_option quiet x x"
  by (cases x) auto

lemma option_quiet_trans: "rel_option quiet x y \<Longrightarrow> rel_option quiet y z \<Longrightarrow> rel_option quiet x z"
  by (cases x; cases y; cases z) (auto intro: quiet_trans)

lemma deliver_facts:
  assumes clear: "\<not> flagged (cr_frame_number req) d" and d': "d' = deliver E req captured d"
  shows "(\<exists>ts meta. notices d' = answer E req captured ts meta @ notices d) \<and> same_settings d d' \<and>
    d_inflight_tracker d' = d_inflight_tracker (forget_frame (cr_frame_number req) d) \<and>
    rel_option quiet (d_pipeline d) (d_pipeline d')"
proof -
  let ?f = "cr_frame_number req" let ?now = "e_clock E (device_log d)"
  define d1 where "d1 = forget_frame ?f d"
  define d2 where "d2 = (if captured then notify E (Shutter ?f ?now) d1 else d1)"
  define d3 where "d3 = (if \<not> captured then notify E (Error_Device ?f) d2 else d2)"
  obtain m d4 where 4: "result_metadata (e_kernel E) ?f ?now d3 = (m, d4)" by fastforce
  define d5 where "d5 = (if captured then d4 else d3)"
  have nf: "(case d_inflight_tracker d of None \<Rightarrow> False | Some t \<Rightarrow> isError ?f t) = False"
    using clear by (simp add: flagged_def)
  have run: "d' = d5\<lparr>d_events := Result ?f (if captured \<and> e_metadata E then Some m else None)
      (map (\<lambda>b. (b\<lparr>sb_acquire_fence := - 1\<rparr>, captured)) (take 16 (cr_output_buffers req))) # d_events d5\<rparr>"
    unfolding d' deliver_def Let_def nf d1_def [symmetric] d2_def [symmetric]
    using 4 by (cases captured) (simp_all add: d3_def d5_def)
  have 3: "notices d3 = (if e_notify E then [if captured then Shutter ?f ?now else Error_Device ?f] else []) @ notices d"
    "same_settings d d3" "d_inflight_tracker d3 = d_inflight_tracker d1" "d_pipeline d3 = d_pipeline d"
    by (auto simp: d3_def d2_def d1_def notify_def forget_frame_def notices_def same_settings_def)
  have 5: "same_session d3 d5" "rel_option quiet (d_pipeline d3) (d_pipeline d5)"
    using result_metadata_facts [OF 4] by (auto simp: d5_def)
  have "notices d' = answer E req captured ?now m @ notices d"
    using 3(1) 5(1) by (simp add: run answer_def notices_def same_session_def)
  moreover have "same_settings d d'" "d_inflight_tracker d' = d_inflight_tracker d1" "rel_option quiet (d_pipeline d) (d_pipeline d')"
    using 3(2-) 5 by (simp_all add: run same_settings_def same_session_def)
  ultimately show ?thesis unfolding d1_def by blast
qed

text \<open>What a request does to the pipeline: quiet calls, around at most one restart of the stream.\<close>

definition serves :: "kernel \<Rightarrow> CameraPipeline \<Rightarrow> CameraPipeline \<Rightarrow> bool" where
  "serves K p p' \<longleftrightarrow> (\<exists>p0 p1. quiet p p0 \<and> p1 \<in> {p0, snd (restart_stream K p0)} \<and> quiet p1 p')"

lemma quiet_serves: "quiet p p0 \<Longrightarrow> serves K p0 p1 \<Longrightarrow> quiet p1 p' \<Longrightarrow> serves K p p'"
  unfolding serves_def using quiet_trans by blast

lemma serves_refl [simp, intro]: "serves K p p"
  unfolding serves_def by blast

lemma option_quiet_serves:
  "rel_option quiet x y \<Longrightarrow> rel_option (serves K) y z \<Longrightarrow> rel_option (serves K) x z"
  by (cases x; cases y; cases z) (auto intro: quiet_serves)

lemma serves_inv:
  assumes "serves K p p'" "pipeline_inv K p"
  shows "pipeline_inv K p'"
proof -
  obtain p0 p1 where q: "quiet p p0" "p1 \<in> {p0, snd (restart_stream K p0)}" "quiet p1 p'"
    using assms(1) unfolding serves_def by blast
  have 0: "pipeline_inv K p0" using quiet_inv [OF q(1)] assms(2) by simp
  then have "pipeline_inv K (snd (startStreaming K p0))" using startStreaming_inv [OF 0 surjective_pairing] by simp
  then have "pipeline_inv K p1" using q(2) 0 by (auto simp: restart_stream_def)
  then show ?thesis using quiet_inv [OF q(3)] by simp
qed

lemma finish_capture_facts:
  assumes clear: "\<not> flagged (cr_frame_number req) d" and run: "finish_capture E req d = (res, d')"
  shows "rel_option (serves (e_kernel E)) (d_pipeline d) (d_pipeline d') \<and> same_settings d d' \<and>
    (explains E (gainless d) (cr_output_buffers req) res \<or> d_inflight_tracker d' = d_inflight_tracker (forget_frame (cr_frame_number req) d) \<and>
      (res = Returns 0 \<and> (\<exists>captured ts meta. (captured \<longrightarrow> supplied d) \<and> notices d' = answer E req captured ts meta @ notices d) \<or>
       res \<in> {Returns (- EAGAIN), Returns (- ENODEV)} \<and> notices d' = notices d))"
proof (cases "d_pipeline d")
  case None
  then have "res = Returns 0" "d' = deliver E req False d" using run by (auto simp: finish_capture_def)
  moreover from deliver_facts [OF clear this(2)] obtain ts meta where "notices d' = answer E req False ts meta @ notices d"
    "same_settings d d'" "d_inflight_tracker d' = d_inflight_tracker (forget_frame (cr_frame_number req) d)" "d_pipeline d' = None"
    using None by (auto simp: rel_option_None1)
  moreover from this(1) have "\<exists>captured ts meta. (captured \<longrightarrow> supplied d) \<and> notices d' = answer E req captured ts meta @ notices d"
    by (intro exI [of _ False] exI [of _ ts] exI [of _ meta]) simp
  ultimately show ?thesis using None by simp
next
  case (Some p)
  let ?f = "cr_frame_number req"
  obtain r s where s: "serve_request E req p d = (r, s)" by fastforce
  define d1 where "d1 = (sh_dev s)\<lparr>d_pipeline := Some (sh_pipe s)\<rparr>"
  have r: "(res, d') = (case r of Some result \<Rightarrow> (result, d1) | None \<Rightarrow> (Returns 0, deliver E req (sh_captured s) d1))"
    using run unfolding finish_capture_def Some option.case s prod.case Let_def d1_def by simp
  note f = serve_request_facts [OF s]
  from f have sv: "serves (e_kernel E) p (sh_pipe s)" and sup: "sh_captured s \<longrightarrow> supplied d"
    and cs: "(\<forall>x. r = Some x \<longrightarrow> explains E (gainless d) (cr_output_buffers req) x) \<and> same_session d (sh_dev s) \<or>
      r \<in> {Some (Returns (- EAGAIN)), Some (Returns (- ENODEV))} \<and> (\<exists>d'. same_session d d' \<and> sh_dev s = forget_frame ?f d')"
    unfolding serves_def supplied_def gainless_def Some option.case using quiet_refl by simp_all blast
  note ss = same_session_facts
  show ?thesis
  proof (cases r)
    case None
    then have same: "same_session d (sh_dev s)" using cs by auto
    then have "\<not> flagged ?f d1" using clear ss(3) by (simp add: flagged_def d1_def)
    from deliver_facts [OF this refl, of E "sh_captured s"]
    obtain ts meta p' where e: "notices (deliver E req (sh_captured s) d1) = answer E req (sh_captured s) ts meta @ notices d1"
      "same_settings d1 (deliver E req (sh_captured s) d1)" "d_pipeline (deliver E req (sh_captured s) d1) = Some p'"
      "d_inflight_tracker (deliver E req (sh_captured s) d1) = d_inflight_tracker (forget_frame ?f d1)" "quiet (sh_pipe s) p'"
      by (auto simp: d1_def option_rel_Some1)
    have d1: "same_settings d d1" "notices d1 = notices d" "d_inflight_tracker d1 = d_inflight_tracker d"
      using ss [OF same] by (simp_all add: d1_def)
    have "res = Returns 0" "d' = deliver E req (sh_captured s) d1" using r None by simp_all
    then show ?thesis using e d1 sup same_settings_trans [OF d1(1) e(2)] quiet_serves [OF quiet_refl sv e(5)] Some by auto
  next
    case (Some x)
    then have x: "res = x" "d' = d1" using r by simp_all
    have pipe: "rel_option (serves (e_kernel E)) (d_pipeline d) (d_pipeline d')"
      using \<open>d_pipeline d = Some p\<close> sv by (simp add: x d1_def)
    from cs Some consider "explains E (gainless d) (cr_output_buffers req) x" "same_session d (sh_dev s)"
      | d2 where "x \<in> {Returns (- EAGAIN), Returns (- ENODEV)}" "same_session d d2" "sh_dev s = forget_frame ?f d2"
      by auto
    then show ?thesis
    proof cases
      case 1
      then show ?thesis using pipe ss(1) by (simp add: x d1_def)
    next
      case (2 d2)
      then show ?thesis using pipe ss [OF 2(2)] by (simp add: x d1_def)
    qed
  qed
qed

text \<open>Between requests the table of requests in flight is empty.\<close>

lemma idle_nil: "tracker.idle t \<longleftrightarrow> t = []"
  by (cases t) (auto simp: tracker.idle_def in_flight_def table_ok_def fun_eq_iff)

lemma idle_forgets: "snd (tracker_remove f (tracker_add f b [])) = []"
  using tracker.idle_after_request [of "[]" f b] by (simp add: idle_nil)

lemma idle_unflagged: "\<not> isError f []" "\<not> isError f (tracker_add f b [])"
  using tracker.idle_not_flagged [of "[]" f] tracker.added_not_flagged [of "[]" f b] by (simp_all add: idle_nil isError_in_flight)

lemma process_facts:
  assumes t: "d_inflight_tracker d = Some []"
    and run: "camera_device_process_capture_request E closing req d = (res, d')"
  shows "rel_option (serves (e_kernel E)) (d_pipeline d) (d_pipeline d') \<and> same_settings (d\<lparr>d_closing := d_closing d'\<rparr>) d' \<and>
    (explains E (gainless d) (cr_output_buffers req) res \<or> d_inflight_tracker d' = Some [] \<and>
      (res = Returns 0 \<and> (\<exists>captured ts meta. (captured \<longrightarrow> supplied d) \<and> notices d' = answer E req captured ts meta @ notices d) \<or>
       res \<in> {Returns (- ENOSYS), Returns (- EINVAL), Returns (- EAGAIN), Returns (- ENODEV)} \<and> notices d' = notices d))"
proof -
  let ?f = "cr_frame_number req" let ?bs = "cr_output_buffers req"
  define d1 where "d1 = d\<lparr>d_inflight_tracker := Some (tracker_add ?f (sb_buffer (hd ?bs)) [])\<rparr>"
  define d2 where "d2 = (af_control (e_kernel E) ?bs (apply_settings (cr_settings req) d1))\<lparr>d_closing := closing\<rparr>"
  define f where "f = af_faults (e_kernel E) (apply_settings (cr_settings req) d1)
      (af_control (e_kernel E) ?bs (apply_settings (cr_settings req) d1))"
  have 2: "notices d2 = notices d" "d_inflight_tracker d2 = d_inflight_tracker d1" "d_closing d2 = closing"
    "same_settings (d\<lparr>d_closing := closing\<rparr>) d2" "rel_option quiet (d_pipeline d) (d_pipeline d2)"
    using af_control_facts [of "apply_settings (cr_settings req) d1" "e_kernel E" ?bs] same_session_settings [where d = d1 and rs = "cr_settings req"]
    by (simp_all add: d2_def d1_def same_session_def same_settings_def notices_def)
  then have clear: "\<not> flagged ?f d2" by (simp add: flagged_def d1_def idle_unflagged)
  have "(res, d') =
      (if d_closing d then (Returns (- ENOSYS), d)
       else if \<not> d_is_initialized d \<or> \<not> d_callback_ops d then (Returns (- ENOSYS), d)
       else if ?bs = [] then (Returns (- EINVAL), d)
       else if f \<noteq> None then (Crashes (the f), d2)
       else if closing then (Returns (- ENOSYS), forget_frame ?f d2) else finish_capture E req d2)"
    unfolding run [symmetric] camera_device_process_capture_request_def Let_def t option.case option.map d1_def [symmetric]
      f_def [symmetric] d2_def [symmetric] 2(3) by (simp only: if_False idle_unflagged)
  then consider (refused) "d' = d" "res \<in> {Returns (- ENOSYS), Returns (- EINVAL)}"
    | (scan) x where "f = Some x" "d' = d2" "res = Crashes x"
    | (closing) "closing" "d' = forget_frame ?f d2" "res = Returns (- ENOSYS)"
    | (served) "finish_capture E req d2 = (res, d')"
    by (metis (no_types, lifting) insertCI not_None_eq option.sel prod.inject)
  then show ?thesis
  proof cases
    case refused
    then show ?thesis using t by (auto simp: same_settings_def option.rel_refl)
  next
    case (scan x)
    then have "explains E (gainless d) ?bs res" using overrun_af explains_overrun unfolding f_def by blast
    then show ?thesis using scan 2 option_quiet_serves [OF 2(5) option.rel_refl [of "serves (e_kernel E)"]]
      by (simp add: same_settings_def)
  next
    case closing
    then show ?thesis using 2 option_quiet_serves [OF 2(5) option.rel_refl [of "serves (e_kernel E)"]]
      by (simp add: d1_def idle_forgets same_settings_def forget_frame_def)
  next
    case served
    have g: "gainless d2 = gainless d"
      using af_control_gain [of "e_kernel E" ?bs "apply_settings (cr_settings req) d1"] same_session_settings(2) [of "cr_settings req" d1]
      by (simp add: gainless_def d2_def d1_def)
    note f = finish_capture_facts [OF clear served, unfolded g]
    have "same_settings (d\<lparr>d_closing := closing\<rparr>) d'" using same_settings_trans [OF 2(4)] f by blast
    then have "same_settings (d\<lparr>d_closing := d_closing d'\<rparr>) d'" by (simp add: same_settings_def)
    moreover have "supplied d2 = supplied d"
      using 2(5) by (cases "d_pipeline d"; cases "d_pipeline d2") (auto simp: supplied_def quiet_def)
    ultimately show ?thesis using f 2(1,2) option_quiet_serves [OF 2(5)] by (simp add: d1_def idle_forgets) blast
  qed
qed

section \<open>Configuring the streams\<close>

text \<open>Resources at the level of the device: without a pipeline nothing is open.\<close>

definition dev_ok :: "kernel \<Rightarrow> mocha_camera_device \<Rightarrow> bool" where
  "dev_ok K d \<longleftrightarrow>
     (case d_pipeline d of None \<Rightarrow> open_fds K (d_log d) = [] \<and> mappings K (d_log d) = [] | Some p \<Rightarrow> pipeline_inv K p)"

lemma new_pipeline_inv:
  assumes "open_fds K l = []" "mappings K l = []"
  shows "pipeline_inv K (new_pipeline E l)" "mBufferCount (new_pipeline E l) = 0"
  using assms by (auto simp: new_pipeline_def pipeline_inv_def CameraPipeline_new_def owns_resources_def fd_mset_def
      no_buffers_from_def flags_ok_def addr_mset_none split: prod.split)

lemma delete_pipeline_clean:
  assumes "pipeline_inv K p"
  shows "open_fds K (delete_pipeline K p) = [] \<and> mappings K (delete_pipeline K p) = []"
  using pipeline_close_inv [OF assms surjective_pairing] closed_owns_nothing by (simp add: delete_pipeline_def)

lemma close_keeps_inv: "pipeline_inv K p \<Longrightarrow> pipeline_inv K (snd (pipeline_close K p))"
  using pipeline_close_inv [OF _ surjective_pairing] by blast

lemma drop_pipeline_ok:
  assumes "dev_ok K d"
  shows "d_pipeline (drop_pipeline K d) = None \<and> dev_ok K (drop_pipeline K d)"
  using assms by (auto simp: drop_pipeline_def dev_ok_def delete_pipeline_clean close_keeps_inv split: option.splits)

lemma pipeline_open_count: "mBufferCount (snd (pipeline_open K c p)) = mBufferCount p"
  by (auto simp: pipeline_open_def open_sensor_bus_def close_video_def close_sensor_def initFocuser_def syscall_def issue_def
      Let_def split: prod.splits)

lemma start_pipeline_facts:
  assumes inv: "pipeline_inv K p" and none: "mBufferCount p = 0"
  shows "case start_pipeline K cam s p of
      None \<Rightarrow> \<exists>fd l. over_granted K (ReqBufs fd 4 # l)
    | Some (ret, None, l) \<Rightarrow> ret \<noteq> 0 \<and> open_fds K l = [] \<and> mappings K l = []
    | Some (ret, Some q, l) \<Rightarrow> ret = 0 \<and> l = p_log q \<and> pipeline_inv K q \<and> mState q = PIPELINE_STREAMING"
proof -
  obtain r1 p1 where 1: "pipeline_open K cam p = (r1, p1)" by fastforce
  have i1: "pipeline_inv K p1" "mBufferCount p1 = 0"
    using pipeline_open_inv [OF inv 1] pipeline_open_count [of K cam p] none by (simp_all add: 1)
  note c = configure_inv [OF i1, of "device_config cam s"]
  show ?thesis
  proof (cases "configure K (device_config cam s) p1")
    case None
    then show ?thesis using c i1 by (auto simp: start_pipeline_def 1 delete_pipeline_clean)
  next
    case (Some rp)
    then obtain r2 p2 where 2: "configure K (device_config cam s) p1 = Some (r2, p2)" by (cases rp) auto
    have i2: "pipeline_inv K p2" using c 2 by simp
    obtain r3 p3 where 3: "startStreaming K p2 = (r3, p3)" by fastforce
    have i3: "pipeline_inv K p3" "r3 = 0 \<longrightarrow> mState p3 = PIPELINE_STREAMING" using startStreaming_inv [OF i2 3] by auto
    show ?thesis using i1 i2 i3
      by (auto simp: start_pipeline_def 1 2 3 delete_pipeline_clean close_keeps_inv)
  qed
qed

lemma drain_idle: "d_inflight_tracker d = Some [] \<Longrightarrow> drain_in_flight d = d"
  by (simp add: drain_in_flight_def tracker_count_def)

lemma drop_pipeline_frame:
  "d_inflight_tracker (drop_pipeline K d) = d_inflight_tracker d" "d_events (drop_pipeline K d) = d_events d"
  "d_camera_id (drop_pipeline K d) = d_camera_id d"
  by (simp_all add: drop_pipeline_def split: option.split)

text \<open>The operation once the list of streams is accepted, with nothing in flight.\<close>

definition accept_streams ::
    "'c hal_env \<Rightarrow> selection \<Rightarrow> camera3_stream option \<Rightarrow> mocha_camera_device \<Rightarrow> hal_result \<times> mocha_camera_device" where
  "accept_streams E sel chosen d =
     (let d = d\<lparr>d_blob_stream := sel_blob sel\<rparr> in
      case chosen of
        None \<Rightarrow> (Crashes Null_Stream, d)
      | Some s \<Rightarrow>
          if same_capture s d then (Returns 0, d)
          else
            let d = drop_pipeline (e_kernel E) d
            in case start_pipeline (e_kernel E) (d_camera_id d) s (new_pipeline E (d_log d)) of
                 None \<Rightarrow> (Crashes (Out_Of_Bounds 5 4), d)
               | Some (ret, None, l) \<Rightarrow> (Returns ret, d\<lparr>d_log := l\<rparr>)
               | Some (ret, Some p, l) \<Rightarrow> (Returns 0, streams_ready s sel p d))"

lemma configure_streams_refused:
  "ss = [] \<or> length ss > 20 \<or> \<not> sized ss \<Longrightarrow> camera_device_configure_streams E ss d = (Returns (- EINVAL), d)"
  by (cases "sized ss") (simp_all add: camera_device_configure_streams_def scan_streams_fold)

lemma configure_streams_accepted:
  assumes "d_inflight_tracker d = Some []" "\<not> (ss = [] \<or> length ss > 20 \<or> \<not> sized ss)"
  obtains sel where
    "camera_device_configure_streams E ss d = accept_streams E sel (map_option with_buffers (chosen_stream ss)) d"
proof -
  let ?sel = "fold (\<lambda>s. select_stream (with_buffers s)) ss no_selection"
  have sel: "scan_streams ss no_selection = Some ?sel" using assms(2) by (simp add: scan_streams_fold)
  have ps: "pipeline_stream ?sel = map_option with_buffers (chosen_stream ss)"
    by (rule pipeline_stream_start) (simp_all add: no_selection_def)
  have dr: "drain_in_flight (d\<lparr>d_blob_stream := x\<rparr>) = d\<lparr>d_blob_stream := x\<rparr>" for x
    using assms(1) by (simp add: drain_idle)
  have no: "(ss = [] \<or> length ss > 20) = False" using assms(2) by simp
  show thesis
    by (rule that [of ?sel]) (simp only: camera_device_configure_streams_def accept_streams_def no if_False sel option.case Let_def ps dr)
qed

lemma configure_streams_facts:
  assumes t: "d_inflight_tracker d = Some []" and ok: "dev_ok (e_kernel E) d"
    and run: "camera_device_configure_streams E ss d = (res, d')"
  shows "d_inflight_tracker d' = Some [] \<and> d_events d' = d_events d \<and> dev_ok (e_kernel E) d' \<and>
    (if ss = [] \<or> length ss > 20 \<or> \<not> sized ss then res = Returns (- EINVAL) \<and> d' = d
     else case chosen_stream ss of
       None \<Rightarrow> res = Crashes Null_Stream
     | Some s \<Rightarrow> (case res of
           Returns r \<Rightarrow> if r = 0
             then d_last_config_width d' = st_width s \<and> d_last_config_height d' = st_height s \<and> d_streams_configured d' \<and>
               (\<exists>p. d_pipeline d' = Some p \<and> mState p = PIPELINE_STREAMING)
             else d_pipeline d' = None
         | Crashes f \<Rightarrow> f = Out_Of_Bounds 5 4 \<and> (\<exists>fd l. over_granted (e_kernel E) (ReqBufs fd 4 # l))
         | Hangs \<Rightarrow> False))"
proof (cases "ss = [] \<or> length ss > 20 \<or> \<not> sized ss")
  case True
  then show ?thesis using run t ok configure_streams_refused [OF True, of E d] by auto
next
  case False
  let ?K = "e_kernel E"
  obtain sel where eq: "camera_device_configure_streams E ss d = accept_streams E sel (map_option with_buffers (chosen_stream ss)) d"
    by (rule configure_streams_accepted [OF t False])
  define d1 where "d1 = d\<lparr>d_blob_stream := sel_blob sel\<rparr>"
  have d1: "d_inflight_tracker d1 = Some []" "d_events d1 = d_events d" "dev_ok ?K d1"
    using t ok by (simp_all add: d1_def dev_ok_def split: option.splits)
  show ?thesis
  proof (cases "chosen_stream ss")
    case None
    then show ?thesis using run d1 False unfolding eq accept_streams_def d1_def [symmetric] Let_def by auto
  next
    case (Some s)
    let ?s = "with_buffers s"
    show ?thesis
    proof (cases "same_capture ?s d1")
      case True
      then have "res = Returns 0" "d' = d1" using run Some unfolding eq accept_streams_def d1_def [symmetric] Let_def by auto
      then show ?thesis using True d1 False Some by (auto simp: same_capture_def split: option.splits)
    next
      case new: False
      define d2 where "d2 = drop_pipeline ?K d1"
      have d2: "d_inflight_tracker d2 = Some []" "d_events d2 = d_events d" "d_pipeline d2 = None" "dev_ok ?K d2"
        using drop_pipeline_ok [OF d1(3)] d1 by (simp_all add: d2_def drop_pipeline_frame)
      then have clean: "open_fds ?K (d_log d2) = []" "mappings ?K (d_log d2) = []" by (auto simp: dev_ok_def)
      define st where "st = start_pipeline ?K (d_camera_id d2) ?s (new_pipeline E (d_log d2))"
      have f: "case st of None \<Rightarrow> \<exists>fd l. over_granted ?K (ReqBufs fd 4 # l)
        | Some (ret, None, l) \<Rightarrow> ret \<noteq> 0 \<and> open_fds ?K l = [] \<and> mappings ?K l = []
        | Some (ret, Some q, l) \<Rightarrow> ret = 0 \<and> l = p_log q \<and> pipeline_inv ?K q \<and> mState q = PIPELINE_STREAMING"
        unfolding st_def by (rule start_pipeline_facts [OF new_pipeline_inv [OF clean]])
      have r: "(res, d') = (case st of None \<Rightarrow> (Crashes (Out_Of_Bounds 5 4), d2) | Some (ret, None, l) \<Rightarrow> (Returns ret, d2\<lparr>d_log := l\<rparr>)
          | Some (ret, Some p, l) \<Rightarrow> (Returns 0, streams_ready ?s sel p d2))"
        using run new Some unfolding eq accept_streams_def d1_def [symmetric] Let_def d2_def [symmetric] by (simp add: st_def)
      consider "st = None" | ret l where "st = Some (ret, None, l)" | ret p l where "st = Some (ret, Some p, l)"
        by (metis option.exhaust prod_cases3)
      then show ?thesis
      proof cases
        case 1
        then show ?thesis using r f d2 Some False by simp
      next
        case 2
        then show ?thesis using r f d2 Some False by (simp add: dev_ok_def)
      next
        case 3
        then show ?thesis using r f d2 Some False by (simp add: dev_ok_def streams_ready_def)
      qed
    qed
  qed
qed

section \<open>Sessions\<close>

text \<open>Every state a device can be in between two calls of the framework, whatever it calls.\<close>

inductive session :: "'c hal_env \<Rightarrow> mocha_camera_device \<Rightarrow> bool" for E where
  opened: "openCamera cameraId = (0, Some d) \<Longrightarrow> session E d"
| initialized: "session E d \<Longrightarrow> camera_device_initialize ops d = (r, d') \<Longrightarrow> session E d'"
| configured: "session E d \<Longrightarrow> camera_device_configure_streams E streams d = (Returns r, d') \<Longrightarrow> session E d'"
| requested: "session E d \<Longrightarrow> camera_device_process_capture_request E closing req d = (Returns r, d') \<Longrightarrow> session E d'"
| flushed: "session E d \<Longrightarrow> camera_device_flush E d = (r, d') \<Longrightarrow> session E d'"

lemma configure_streams_idle:
  assumes "d_inflight_tracker d = Some []" "camera_device_configure_streams E ss d = (res, d')"
  shows "d_inflight_tracker d' = Some []"
proof (cases "ss = [] \<or> length ss > 20 \<or> \<not> sized ss")
  case True
  then show ?thesis using assms configure_streams_refused [OF True, of E d] by simp
next
  case False
  then obtain sel where "camera_device_configure_streams E ss d = accept_streams E sel (map_option with_buffers (chosen_stream ss)) d"
    by (rule configure_streams_accepted [OF assms(1)])
  then show ?thesis using assms unfolding accept_streams_def Let_def
    by (auto simp: drop_pipeline_frame streams_ready_def split: option.splits if_splits prod.splits)
qed

text \<open>With nothing in flight a flush stops the stream and does nothing else.\<close>

lemma flush_effect:
  assumes "d_inflight_tracker d = Some []" "camera_device_flush E d = (r, d')"
  shows "r = 0" "d_inflight_tracker d' = Some []" "notices d' = notices d" "same_settings d d'"
    "d_pipeline d' = map_option (\<lambda>p. if d_streams_configured d then snd (stopStreaming (e_kernel E) p) else p) (d_pipeline d)"
proof -
  define d1 where "d1 = (case d_pipeline d of
      Some p \<Rightarrow> if d_streams_configured d then d\<lparr>d_pipeline := Some (snd (stopStreaming (e_kernel E) p))\<rparr> else d
    | None \<Rightarrow> d)"
  have t1: "d_inflight_tracker d1 = Some []" using assms(1) by (simp add: d1_def split: option.split)
  have "snd (drainAll (markAllAsError [])) = []" using tracker.idle_drain [of "[]"] by (simp add: idle_nil)
  then have "(r, d') = (0, d1\<lparr>d_inflight_tracker := Some []\<rparr>)"
    unfolding assms(2) [symmetric] camera_device_flush_def Let_def d1_def [symmetric] t1 option.case by simp
  then have r: "r = 0" "d' = d1\<lparr>d_inflight_tracker := Some []\<rparr>" by simp_all
  show "r = 0" "d_inflight_tracker d' = Some []" by (simp_all add: r)
  show "notices d' = notices d" "same_settings d d'"
    "d_pipeline d' = map_option (\<lambda>p. if d_streams_configured d then snd (stopStreaming (e_kernel E) p) else p) (d_pipeline d)"
    unfolding r d1_def by (cases "d_pipeline d"; simp add: same_settings_def)+
qed

lemma session_idle: "session E d \<Longrightarrow> d_inflight_tracker d = Some []"
proof (induction rule: session.induct)
  case (opened cameraId d)
  then show ?case by (auto simp: openCamera_def camera_device_init_def split: if_splits)
next
  case (initialized d ops r d')
  then show ?case by (auto simp: camera_device_initialize_def split: if_splits)
next
  case (configured d streams r d')
  then show ?case using configure_streams_idle by blast
next
  case (requested d closing req r d')
  then show ?case using process_facts [OF requested.IH requested.hyps(2)] by simp
next
  case (flushed d r d')
  then show ?case using flush_effect(2) by blast
qed

lemma stop_keeps_inv: "pipeline_inv K p \<Longrightarrow> pipeline_inv K (snd (stopStreaming K p))"
  using stopStreaming_inv [OF _ surjective_pairing] by blast

lemma session_ok: "session E d \<Longrightarrow> dev_ok (e_kernel E) d"
proof (induction rule: session.induct)
  case (opened cameraId d)
  then show ?case by (auto simp: openCamera_def camera_device_init_def dev_ok_def split: if_splits)
next
  case (initialized d ops r d')
  then show ?case by (auto simp: camera_device_initialize_def dev_ok_def split: if_splits option.splits)
next
  case (configured d streams r d')
  then show ?case using configure_streams_facts [OF session_idle] by blast
next
  case (requested d closing req r d')
  have "rel_option (serves (e_kernel E)) (d_pipeline d) (d_pipeline d')" "d_log d' = d_log d"
    using process_facts [OF session_idle [OF requested(1)] requested(2)] by (auto simp: same_settings_def)
  then show ?case using requested by (cases "d_pipeline d"; cases "d_pipeline d'") (auto simp: dev_ok_def serves_inv)
next
  case (flushed d r d')
  note e = flush_effect(4,5) [OF session_idle [OF flushed(1)] flushed(2)]
  show ?case using flushed e(1) unfolding dev_ok_def e(2)
    by (cases "d_pipeline d") (simp_all add: same_settings_def stop_keeps_inv)
qed



text \<open>
  C2. Resource safety of the device, at any point of any session whose calls returned, whatever the kernel
  answers: without a pipeline no descriptor is open and no buffer mapped, with one the open descriptors
  and live mappings are exactly those it names, and closing the device from there returns 0 and leaves
  none, no pipeline and no table.
\<close>

theorem device_releases_everything:
  assumes "session E d" and close: "camera_device_close E d = (r, d')"
  shows "(case d_pipeline d of
       None \<Rightarrow> open_fds (e_kernel E) (d_log d) = [] \<and> mappings (e_kernel E) (d_log d) = []
     | Some p \<Rightarrow> mset (open_fds (e_kernel E) (p_log p)) = fd_mset (mFd p) + fd_mset (mSensorFd p) \<and>
         mset (mappings (e_kernel E) (p_log p)) = addr_mset (mBuffers p)) \<and>
    r = 0 \<and> d_pipeline d' = None \<and> d_inflight_tracker d' = None \<and> d_temp_rgba d' = None \<and>
    open_fds (e_kernel E) (d_log d') = [] \<and> mappings (e_kernel E) (d_log d') = []"
proof -
  let ?K = "e_kernel E"
  have ok: "dev_ok ?K d" by (rule session_ok [OF assms(1)])
  define d1 where "d1 = d\<lparr>d_closing := True, d_jpeg_encoder := False\<rparr>"
  define d2 where "d2 = (case d_temp_rgba d1 of None \<Rightarrow> d1 | Some _ \<Rightarrow> d1\<lparr>d_temp_rgba := None, d_temp_rgba_size := 0\<rparr>)"
  define d3 where "d3 = d2\<lparr>d_inflight_tracker := None\<rparr>"
  have d3: "d_pipeline d3 = d_pipeline d" "d_log d3 = d_log d" "d_temp_rgba d3 = None" "d_inflight_tracker d3 = None"
    by (simp_all add: d3_def d2_def d1_def split: option.split)
  then have "dev_ok ?K d3" using ok by (simp add: dev_ok_def split: option.splits)
  from drop_pipeline_ok [OF this] have "d_pipeline (drop_pipeline ?K d3) = None" "dev_ok ?K (drop_pipeline ?K d3)" by auto
  moreover have "d_temp_rgba (drop_pipeline ?K d3) = None" using d3 by (simp add: drop_pipeline_def split: option.split)
  moreover have "(r, d') = (0, drop_pipeline ?K d3)"
    unfolding close [symmetric] camera_device_close_def Let_def d1_def [symmetric] d2_def [symmetric] d3_def [symmetric] by simp
  ultimately show ?thesis using ok d3
    by (auto simp: dev_ok_def drop_pipeline_frame pipeline_inv_def owns_resources_def split: option.split)
qed

section \<open>After a flush\<close>

text \<open>A run of capture requests, as long as each of them returns.\<close>

fun requests :: "'c hal_env \<Rightarrow> capture_request list \<Rightarrow> mocha_camera_device \<Rightarrow> mocha_camera_device option" where
  "requests E [] d = Some d"
| "requests E (req # reqs) d =
     (case camera_device_process_capture_request E False req d of
        (Returns _, d) \<Rightarrow> requests E reqs d
      | _ \<Rightarrow> None)"

fun delivers_image :: "hal_event \<Rightarrow> bool" where
  "delivers_image (Shutter _ _) = True"
| "delivers_image (Result _ meta bufs) = (meta \<noteq> None \<or> list_ex snd bufs)"
| "delivers_image _ = False"

lemma answer_without_image: "e \<in> set (answer E req False ts meta) \<Longrightarrow> \<not> delivers_image e"
  by (auto simp: answer_def list_ex_iff split: if_splits)

lemma serves_count: "serves K p p' \<Longrightarrow> mBufferCount p' = mBufferCount p"
  by (auto simp: serves_def restart_stream_count quiet_def)

lemma serves_supplied: "rel_option (serves K) (d_pipeline d) (d_pipeline d') \<Longrightarrow> supplied d' = supplied d"
  by (cases "d_pipeline d"; cases "d_pipeline d'") (auto simp: supplied_def serves_count)

lemma requests_unsupplied:
  assumes "requests E reqs d = Some d'" "d_inflight_tracker d = Some []" "\<not> supplied d"
  shows "d_inflight_tracker d' = Some [] \<and> \<not> supplied d' \<and>
    (\<exists>es. notices d' = es @ notices d \<and> list_all (\<lambda>e. \<not> delivers_image e) es)"
  using assms
proof (induction reqs arbitrary: d)
  case (Cons req reqs)
  obtain r d1 where 1: "camera_device_process_capture_request E False req d = (Returns r, d1)" "requests E reqs d1 = Some d'"
    using Cons.prems(1) by (auto split: prod.splits hal_result.splits)
  note f = process_facts [OF Cons.prems(2) 1(1)]
  then have d1: "d_inflight_tracker d1 = Some []" "\<not> supplied d1" using serves_supplied Cons.prems(3) by auto
  obtain es1 where es1: "notices d1 = es1 @ notices d" "\<forall>e\<in>set es1. \<not> delivers_image e"
  proof (cases "notices d1 = notices d")
    case True
    then show ?thesis using that [of "[]"] by simp
  next
    case False
    then obtain captured ts meta where "captured \<longrightarrow> supplied d" "notices d1 = answer E req captured ts meta @ notices d"
      using f by auto
    then show ?thesis using that [of "answer E req captured ts meta"] answer_without_image [of _ E req ts meta] Cons.prems(3)
      by (cases captured) auto
  qed
  obtain es where "notices d' = es @ notices d1" "list_all (\<lambda>e. \<not> delivers_image e) es"
    using Cons.IH [OF 1(2) d1] by blast
  then show ?case using Cons.IH [OF 1(2) d1] es1 by (intro conjI exI [of _ "es @ es1"]) (auto simp: list_all_iff)
qed simp


section \<open>A concrete device\<close>

definition sample_env :: "(nat \<times> nat) hal_env" where
  "sample_env = \<lparr>e_kernel = sample_kernel\<lparr>k_ret := \<lambda>l. case l of Poll _ _ # _ \<Rightarrow> 1 | _ \<Rightarrow> 0\<rparr>, e_gralloc = True,
     e_lock = \<lambda>h l. if h = 3 then Mapped (replicate 256 0) else Lock_Failed, e_lock_ycbcr = \<lambda>h l. Lock_Failed, e_malloc = \<lambda>n. Some (\<lambda>i. 0),
     e_jpeg = plain_jpeg, e_clock = \<lambda>l. int (length l), e_notify = True, e_padding = (0, 0), e_metadata = True,
     e_diagnosed = \<lambda>l. False, e_unset = (0, sample_config, replicate 16 0, replicate 256 0)\<rparr>"

definition sample_stream :: camera3_stream where
  "sample_stream = \<lparr>st_output = True, st_width = 8, st_height = 8, st_format = HAL_PIXEL_FORMAT_RGBA_8888, st_max_buffers = 0\<rparr>"

definition sample_request :: capture_request where
  "sample_request = \<lparr>cr_frame_number = 7, cr_settings = None,
     cr_output_buffers = [\<lparr>sb_stream = Some sample_stream, sb_buffer = Some 3, sb_acquire_fence = 5\<rparr>]\<rparr>"

definition sample_initialized :: mocha_camera_device where
  "sample_initialized = camera_device_init\<lparr>d_camera_id := 0, d_callback_ops := True, d_is_initialized := True\<rparr>"

lemma sample_session: "session sample_env sample_initialized"
proof -
  have "openCamera 0 = (0, Some (camera_device_init\<lparr>d_camera_id := 0\<rparr>))" by (simp add: openCamera_def kCameras_def)
  then have "session sample_env (camera_device_init\<lparr>d_camera_id := 0\<rparr>)" by (rule session.opened)
  then show ?thesis
    by (rule session.initialized [where ops = True]) (simp add: camera_device_initialize_def sample_initialized_def)
qed

text \<open>With a kernel that grants every request a pipeline starts.\<close>

definition willing :: "kernel \<Rightarrow> bool" where
  "willing K \<longleftrightarrow> (\<forall>l. (k_ret K l < 0) = False \<and> k_mmap K l \<noteq> None \<and> k_count K l = 4 \<and> k_caps K l = 0x4000001)"

lemma willing_simps:
  assumes "willing K"
  shows "(k_ret K l < 0) = False" "k_mmap K l \<noteq> None" "k_count K l = 4" "k_caps K l = 0x4000001"
  using assms by (auto simp: willing_def)

lemma willing_queue: "willing K \<Longrightarrow> fst (queue_buffers K i p) = 0"
proof (induction K i p rule: queue_buffers.induct)
  case (1 K i p)
  show ?case using 1 willing_simps(1) [OF 1(2)] by (subst queue_buffers.simps) (auto simp: syscall_def Let_def)
qed

lemma willing_start: "willing K \<Longrightarrow> mState p = PIPELINE_OPENED \<Longrightarrow> fst (startStreaming K p) = 0"
  using willing_queue [of K 0 p] willing_simps(1) [of K]
  by (auto simp: startStreaming_def syscall_def Let_def split: prod.splits)

lemma willing_map:
  assumes "willing K" "i < length (mBuffers p)"
  shows "\<exists>q. map_buffer K i p = Some (0, q) \<and> length (mBuffers q) = length (mBuffers p) \<and> mState q = mState p"
  using assms(2) willing_simps(1,2) [OF assms(1)] by (auto simp: map_buffer_def syscall_def issue_def Let_def)

lemma willing_maps: "willing K \<Longrightarrow> n \<le> length (mBuffers p) \<Longrightarrow> \<exists>q. map_buffers K i n p = Some (0, q) \<and> mState q = mState p"
proof (induction K i n p rule: map_buffers.induct)
  case (1 K i n p)
  show ?case
  proof (cases "i < n")
    case True
    obtain q where "map_buffer K i p = Some (0, q)" "length (mBuffers q) = length (mBuffers p)" "mState q = mState p"
      using willing_map [of K i p] 1 True by auto
    then show ?thesis using 1 True by (subst map_buffers.simps) auto
  qed (simp add: map_buffers.simps)
qed

lemma willing_configure:
  assumes K: "willing K" and p: "mState p = PIPELINE_OPENED" "0 \<le> mFd p" "length (mBuffers p) = 4"
    and isp: "\<And>q. fst (setup_isp K config q) = 0"
  shows "\<exists>q. configure K config p = Some (0, q) \<and> mState q = PIPELINE_OPENED"
proof -
  define p1 where "p1 = antibanding K (reset_timing (sensor_ranges (p\<lparr>mConfig := config\<rparr>)))"
  have "quiet p p1" using quiet_reset [of p K config] by (simp add: p1_def)
  then have p1: "mState p1 = PIPELINE_OPENED" "0 \<le> mFd p1" "length (mBuffers p1) = 4" using p by (simp_all add: quiet_def)
  define p2 where "p2 = issue (SetFmt (mFd p1) (unat (cfg_width config)) (unat (cfg_height config)) (cfg_pixelFormat config)) p1"
  define p3 where "p3 = (issue (ReqBufs (mFd p2) 4) p2)\<lparr>mBufferCount := 4\<rparr>"
  have "4 \<le> length (mBuffers p3)" using p1 by (simp add: p3_def p2_def issue_def)
  from willing_maps [OF K this, of 0] obtain p4 where p4: "map_buffers K 0 4 p3 = Some (0, p4)" "mState p4 = PIPELINE_OPENED"
    using p1 by (auto simp: p3_def p2_def issue_def)
  then have rb: "request_buffers K p2 = Some (0, p4)"
    using willing_simps(1,3) [OF K] by (simp add: request_buffers_def syscall_def Let_def p3_def)
  obtain v p5 where p5: "(if cfg_enableISP config then setup_isp K config p4 else (0, p4)) = (v, p5)" by fastforce
  have v: "v = 0" using p5 isp [of p4] by (auto split: if_splits)
  have q5: "quiet p4 p5" using p5 setup_isp_frame [of K config p4 v p5] by (auto split: if_splits)
  have "configure K config p = Some (0, finish_configure K config p5)"
    using p p1 rb p5 v willing_simps(1) [OF K]
    unfolding configure_def p1_def [symmetric] by (simp add: Let_def syscall_def p2_def [symmetric])
  moreover have "mState (finish_configure K config p5) = PIPELINE_OPENED"
    using quiet_trans [OF q5 quiet_finish, of K config] p4(2) by (simp add: quiet_def)
  ultimately show ?thesis by blast
qed

lemma willing_open:
  assumes "willing K" "mState p = PIPELINE_CLOSED"
  shows "\<exists>q. pipeline_open K 0 p = (0, q) \<and> mState q = PIPELINE_OPENED \<and> 0 \<le> mFd q \<and> mBuffers q = mBuffers p"
  using assms(2) willing_simps(1,4) [OF assms(1)]
  by (auto simp: pipeline_open_def syscall_def issue_def Let_def initFocuser_def V4L2_CAP_VIDEO_CAPTURE_def V4L2_CAP_STREAMING_def not_less [symmetric])

lemma willing_pipeline:
  assumes K: "willing K" and p: "mState p = PIPELINE_CLOSED" "length (mBuffers p) = 4"
    and isp: "\<And>q. fst (setup_isp K (device_config 0 s) q) = 0"
  shows "\<exists>q. start_pipeline K 0 s p = Some (0, Some q, p_log q)"
proof -
  obtain p1 where 1: "pipeline_open K 0 p = (0, p1)" "mState p1 = PIPELINE_OPENED" "0 \<le> mFd p1" "mBuffers p1 = mBuffers p"
    using willing_open [OF K p(1)] by blast
  obtain p2 where 2: "configure K (device_config 0 s) p1 = Some (0, p2)" "mState p2 = PIPELINE_OPENED"
    using willing_configure [OF K 1(2,3) _ isp] 1(4) p(2) by auto
  obtain v p3 where 3: "startStreaming K p2 = (v, p3)" by fastforce
  have "v = 0" using willing_start [OF K 2(2)] 3 by simp
  then show ?thesis using 1 2 3 by (simp add: start_pipeline_def)
qed

lemma sample_willing: "willing (e_kernel sample_env)"
  by (auto simp: willing_def sample_env_def sample_kernel_def split: list.split sys.split)

lemma sample_isp: "fst (setup_isp (e_kernel sample_env) (device_config 0 (with_buffers sample_stream)) q) = 0"
  by (simp add: setup_isp_def dm_initialize_def cc_initialize_def sample_env_def sample_kernel_def device_config_def
      with_buffers_def sample_stream_def Let_def split: prod.split)

text \<open>The device after its streams are configured: its pipeline streams.\<close>

definition sample_device :: mocha_camera_device where
  "sample_device = snd (camera_device_configure_streams sample_env [sample_stream] sample_initialized)"

lemma sample_configured:
  obtains sel p where "camera_device_configure_streams sample_env [sample_stream] sample_initialized = (Returns 0, sample_device)"
    "sample_device = streams_ready (with_buffers sample_stream) sel p (sample_initialized\<lparr>d_blob_stream := sel_blob sel\<rparr>)"
    "mState p = PIPELINE_STREAMING"
proof -
  let ?d = "sample_initialized"
  have t: "d_inflight_tracker ?d = Some []" "d_pipeline ?d = None" "d_camera_id ?d = 0" "d_streams_configured ?d = False" "d_log ?d = []"
    by (simp_all add: sample_initialized_def camera_device_init_def)
  have ss: "\<not> ([sample_stream] = [] \<or> length [sample_stream] > 20 \<or> \<not> sized [sample_stream])" "chosen_stream [sample_stream] = Some sample_stream"
    by (simp_all add: sized_def chosen_stream_def image_streams_def sample_stream_def)
  obtain sel where eq: "camera_device_configure_streams sample_env [sample_stream] ?d =
      accept_streams sample_env sel (map_option with_buffers (chosen_stream [sample_stream])) ?d"
    by (rule configure_streams_accepted [OF t(1) ss(1)])
  have new: "mState (new_pipeline sample_env []) = PIPELINE_CLOSED" "length (mBuffers (new_pipeline sample_env [])) = 4"
    by (simp_all add: new_pipeline_def CameraPipeline_new_def sample_env_def)
  from willing_pipeline [OF sample_willing new sample_isp] obtain q where
    q: "start_pipeline (e_kernel sample_env) 0 (with_buffers sample_stream) (new_pipeline sample_env []) = Some (0, Some q, p_log q)" by blast
  have "pipeline_inv (e_kernel sample_env) (new_pipeline sample_env [])" "mBufferCount (new_pipeline sample_env []) = 0"
    by (rule new_pipeline_inv; simp)+
  from start_pipeline_facts [OF this, of 0 "with_buffers sample_stream"] have st: "mState q = PIPELINE_STREAMING" by (simp add: q)
  have c: "camera_device_configure_streams sample_env [sample_stream] ?d =
      (Returns 0, streams_ready (with_buffers sample_stream) sel q (?d\<lparr>d_blob_stream := sel_blob sel\<rparr>))"
    unfolding eq ss(2) accept_streams_def Let_def by (simp add: t q same_capture_def drop_pipeline_def)
  have s: "sample_device = streams_ready (with_buffers sample_stream) sel q (?d\<lparr>d_blob_stream := sel_blob sel\<rparr>)"
    unfolding sample_device_def c by (rule snd_conv)
  show thesis by (rule that [OF c [folded s] s st])
qed

lemma sample_device_session: "session sample_env sample_device"
proof -
  obtain sel p where c: "camera_device_configure_streams sample_env [sample_stream] sample_initialized = (Returns 0, sample_device)"
    by (rule sample_configured)
  show ?thesis by (rule session.configured [OF sample_session c])
qed

lemma streams_ready_fields:
  "d_pipeline (streams_ready s sel p d) = Some p" "d_inflight_tracker (streams_ready s sel p d) = d_inflight_tracker d"
  "d_closing (streams_ready s sel p d) = d_closing d" "d_is_initialized (streams_ready s sel p d) = d_is_initialized d"
  "d_callback_ops (streams_ready s sel p d) = d_callback_ops d" "d_streams_configured (streams_ready s sel p d)"
  "d_events (streams_ready s sel p d) = d_events d"
  by (simp_all add: streams_ready_def)

lemma sample_device_fields:
  obtains p where "d_pipeline sample_device = Some p" "mState p = PIPELINE_STREAMING" "d_inflight_tracker sample_device = Some []"
    "\<not> d_closing sample_device" "d_is_initialized sample_device" "d_callback_ops sample_device" "d_streams_configured sample_device"
    "notices sample_device = []"
proof -
  obtain sel p where s: "sample_device = streams_ready (with_buffers sample_stream) sel p (sample_initialized\<lparr>d_blob_stream := sel_blob sel\<rparr>)"
    and p: "mState p = PIPELINE_STREAMING" by (rule sample_configured)
  have "d_inflight_tracker sample_initialized = Some []" "\<not> d_closing sample_initialized" "d_is_initialized sample_initialized"
    "d_callback_ops sample_initialized" "d_events sample_initialized = []"
    by (simp_all add: sample_initialized_def camera_device_init_def)
  then have "d_pipeline sample_device = Some p" "d_inflight_tracker sample_device = Some []"
    "\<not> d_closing sample_device" "d_is_initialized sample_device" "d_callback_ops sample_device" "d_streams_configured sample_device"
    "notices sample_device = []"
    unfolding s notices_def by (simp_all add: streams_ready_fields)
  with p show thesis using that by blast
qed

text \<open>A request whose buffer cannot be locked, with autofocus off.\<close>

definition unlockable_request :: capture_request where
  "unlockable_request = sample_request\<lparr>cr_settings := Some \<lparr>rs_af_mode = Some 0, rs_af_trigger = None, rs_capture_intent = None\<rparr>,
     cr_output_buffers := [\<lparr>sb_stream = Some sample_stream, sb_buffer = Some 4, sb_acquire_fence = 5\<rparr>]\<rparr>"

lemma unlockable_returns: "fst (camera_device_process_capture_request sample_env False unlockable_request sample_device) = Returns 0"
proof -
  obtain p where p: "d_pipeline sample_device = Some p" "mState p = PIPELINE_STREAMING" "d_inflight_tracker sample_device = Some []"
    "\<not> d_closing sample_device" "d_is_initialized sample_device" "d_callback_ops sample_device" "d_streams_configured sample_device"
    by (rule sample_device_fields)
  have "st_format sample_stream \<noteq> HAL_PIXEL_FORMAT_BLOB" "st_format sample_stream \<noteq> HAL_PIXEL_FORMAT_YCBCR_420_888"
    by (simp_all add: sample_stream_def HAL_PIXEL_FORMAT_RGBA_8888_def HAL_PIXEL_FORMAT_BLOB_def HAL_PIXEL_FORMAT_YCBCR_420_888_def)
  with p show ?thesis
    by (simp add: camera_device_process_capture_request_def unlockable_request_def sample_request_def idle_unflagged apply_settings_def
        af_control_def af_faults_def scan_faults_def new_frames_def finish_capture_def serve_request_def run_capture_def restart_stream_def
        capture_output_def capture_rgba_def capture_locked_def proactive_jpeg_def Let_def sample_env_def emit_def
        ANDROID_CONTROL_AF_MODE_AUTO_def ANDROID_CONTROL_AF_MODE_CONTINUOUS_PICTURE_def split: option.splits)
qed



theorem device_releases_everything_witness:
  "\<exists>p. d_pipeline sample_device = Some p \<and> mset (open_fds (e_kernel sample_env) (p_log p)) = fd_mset (mFd p) + fd_mset (mSensorFd p) \<and>
     open_fds (e_kernel sample_env) (d_log (snd (camera_device_close sample_env sample_device))) = [] \<and>
     mappings (e_kernel sample_env) (d_log (snd (camera_device_close sample_env sample_device))) = []"
proof -
  obtain p where p: "d_pipeline sample_device = Some p" by (rule sample_device_fields)
  obtain r d' where c: "camera_device_close sample_env sample_device = (r, d')" by fastforce
  show ?thesis using device_releases_everything [OF sample_device_session c] p by (simp add: c)
qed

text \<open>A device whose pipeline delivers raw frames.\<close>

definition raw_device :: mocha_camera_device where
  "raw_device = sample_initialized\<lparr>d_streams_configured := True, d_pipeline := Some sample_streaming,
     d_pipeline_width := 8, d_pipeline_height := 8, d_last_config_width := 8, d_last_config_height := 8\<rparr>"


end
