(* ===== verification/Hal_Metadata.thy ===== *)
theory Hal_Metadata
  imports Hal_Device
begin

text \<open>
  The metadata tables of \<open>camera/MochaCameraHAL.cpp\<close>: the static characteristics of the two cameras and the
  default request settings, each the sequence of \<open>add_camera_metadata_entry\<close> calls the code makes, in
  order. The metadata library is not part of the repository: it is the parameter \<open>metadata_lib\<close>, and
  \<open>metadata_laws\<close> is what its documentation promises of a buffer with a fixed capacity.
\<close>

section \<open>Static characteristics\<close>

definition cam_info :: "int \<Rightarrow> MochaCameraInfo" where
  "cam_info cameraId = kCameras ! nat cameraId"

definition stream_characteristics :: "int \<Rightarrow> metadata" where
  "stream_characteristics cameraId =
     (let cam = cam_info cameraId in
     [(''LENS_FACING'', U8 [if ci_facing_front cam then Sym ''LENS_FACING_FRONT'' else Sym ''LENS_FACING_BACK'']),
      (''SENSOR_ORIENTATION'', I32 [Num (ci_orientation cam)]),
      (''SCALER_AVAILABLE_STREAM_CONFIGURATIONS'', I32 [Sym ''HAL_PIXEL_FORMAT_IMPLEMENTATION_DEFINED'', Num 1280, Num 720,
        Sym ''CAMERA3_STREAM_OUTPUT'', Sym ''HAL_PIXEL_FORMAT_YCbCr_420_888'', Num 1280, Num 720,
        Sym ''CAMERA3_STREAM_OUTPUT'', Sym ''HAL_PIXEL_FORMAT_YV12'', Num 1280, Num 720, Sym ''CAMERA3_STREAM_OUTPUT'',
        Sym ''HAL_PIXEL_FORMAT_BLOB'', Num 1280, Num 720, Sym ''CAMERA3_STREAM_OUTPUT'', Sym ''HAL_PIXEL_FORMAT_BLOB'',
        Num 1920, Num 1080, Sym ''CAMERA3_STREAM_OUTPUT'', Sym ''HAL_PIXEL_FORMAT_BLOB'', Num 3280, Num 2464,
        Sym ''CAMERA3_STREAM_OUTPUT'']),
      (''SCALER_AVAILABLE_MIN_FRAME_DURATIONS'', I64 [Sym ''HAL_PIXEL_FORMAT_IMPLEMENTATION_DEFINED'', Num 1280, Num 720,
        Num 33333333, Sym ''HAL_PIXEL_FORMAT_YCbCr_420_888'', Num 1280, Num 720, Num 33333333,
        Sym ''HAL_PIXEL_FORMAT_YV12'', Num 1280, Num 720, Num 33333333, Sym ''HAL_PIXEL_FORMAT_BLOB'', Num 1280, Num 720,
        Num 500000000, Sym ''HAL_PIXEL_FORMAT_BLOB'', Num 1920, Num 1080, Num 500000000, Sym ''HAL_PIXEL_FORMAT_BLOB'',
        Num 3280, Num 2464, Num 500000000]),
      (''SCALER_AVAILABLE_STALL_DURATIONS'', I64 [Sym ''HAL_PIXEL_FORMAT_IMPLEMENTATION_DEFINED'', Num 1280, Num 720, Num 0,
        Sym ''HAL_PIXEL_FORMAT_YCbCr_420_888'', Num 1280, Num 720, Num 0, Sym ''HAL_PIXEL_FORMAT_YV12'', Num 1280, Num 720,
        Num 0, Sym ''HAL_PIXEL_FORMAT_BLOB'', Num 1280, Num 720, Num 500000000, Sym ''HAL_PIXEL_FORMAT_BLOB'', Num 1920,
        Num 1080, Num 500000000, Sym ''HAL_PIXEL_FORMAT_BLOB'', Num 3280, Num 2464, Num 500000000]),
      (''SCALER_AVAILABLE_PROCESSED_SIZES'', I32 [Num 1280, Num 720]),
      (''SCALER_AVAILABLE_JPEG_SIZES'', I32 [Num 1280, Num 720, Num 1920, Num 1080, Num 3280, Num 2464]),
      (''SCALER_AVAILABLE_MAX_DIGITAL_ZOOM'', Flt [4])])"

definition sensor_characteristics :: "int \<Rightarrow> metadata" where
  "sensor_characteristics cameraId =
     (let cam = cam_info cameraId in
     [(''FLASH_INFO_AVAILABLE'', U8 [Num 0]),
      (''SENSOR_INFO_ACTIVE_ARRAY_SIZE'', I32 [Num 0, Num 0, Num (ci_maxResolution cam),
        Num ((if cameraId = 0 then 2464 else 1456))]),
      (''SENSOR_INFO_PIXEL_ARRAY_SIZE'', I32 [Num (ci_maxResolution cam), Num ((if cameraId = 0 then 2464 else 1456))]),
      (''SENSOR_INFO_PRE_CORRECTION_ACTIVE_ARRAY_SIZE'', I32 [Num 0, Num 0, Num (ci_maxResolution cam),
        Num ((if cameraId = 0 then 2464 else 1456))]),
      (''SENSOR_INFO_PHYSICAL_SIZE'', Flt (if cameraId = 0 then [f32 (3676 / 1000), f32 (2757 / 1000)] else [f32 (28 / 10),
        f32 (21 / 10)])),
      (''SENSOR_INFO_TIMESTAMP_SOURCE'', I32 [Sym ''SENSOR_INFO_TIMESTAMP_SOURCE_UNKNOWN'']),
      (''INFO_SUPPORTED_HARDWARE_LEVEL'', U8 [Sym ''INFO_SUPPORTED_HARDWARE_LEVEL_LEGACY''])])"

definition request_keys :: "string list" where
  "request_keys =
     [''CONTROL_AE_MODE'', ''CONTROL_AE_TARGET_FPS_RANGE'', ''CONTROL_AF_MODE'', ''CONTROL_AF_TRIGGER'',
       ''CONTROL_AWB_MODE'', ''COLOR_CORRECTION_MODE'', ''CONTROL_MODE'', ''FLASH_MODE'', ''JPEG_QUALITY'',
       ''LENS_FOCUS_DISTANCE'', ''NOISE_REDUCTION_MODE'', ''REQUEST_ID'', ''SCALER_CROP_REGION'', ''SENSOR_FRAME_DURATION'',
       ''SENSOR_EXPOSURE_TIME'', ''SENSOR_SENSITIVITY'', ''STATISTICS_FACE_DETECT_MODE'']"

definition result_keys :: "string list" where
  "result_keys =
     [''CONTROL_AE_MODE'', ''CONTROL_AE_STATE'', ''CONTROL_AF_MODE'', ''CONTROL_AF_TRIGGER'', ''CONTROL_AWB_MODE'',
       ''CONTROL_AWB_STATE'', ''CONTROL_MODE'', ''FLASH_MODE'', ''JPEG_QUALITY'', ''LENS_FOCUS_DISTANCE'', ''LENS_STATE'',
       ''REQUEST_ID'', ''SCALER_CROP_REGION'', ''SENSOR_EXPOSURE_TIME'', ''SENSOR_FRAME_DURATION'', ''SENSOR_SENSITIVITY'',
       ''SENSOR_TIMESTAMP'']"

definition key_characteristics :: metadata where
  "key_characteristics =
     [(''REQUEST_AVAILABLE_CAPABILITIES'', U8 [Sym ''REQUEST_AVAILABLE_CAPABILITIES_BACKWARD_COMPATIBLE'',
        Sym ''REQUEST_AVAILABLE_CAPABILITIES_MANUAL_SENSOR'', Sym ''REQUEST_AVAILABLE_CAPABILITIES_MANUAL_POST_PROCESSING'']),
      (''REQUEST_AVAILABLE_REQUEST_KEYS'', I32 (map Sym request_keys)),
      (''REQUEST_AVAILABLE_RESULT_KEYS'', I32 (map Sym result_keys))]"

definition mode_characteristics :: metadata where
  "mode_characteristics =
     [(''CONTROL_AVAILABLE_SCENE_MODES'', U8 [Sym ''CONTROL_SCENE_MODE_DISABLED'']),
      (''CONTROL_AE_AVAILABLE_MODES'', U8 [Sym ''CONTROL_AE_MODE_ON'', Sym ''CONTROL_AE_MODE_OFF'']),
      (''CONTROL_AF_AVAILABLE_MODES'', U8 [Sym ''CONTROL_AF_MODE_OFF'', Sym ''CONTROL_AF_MODE_AUTO'',
        Sym ''CONTROL_AF_MODE_CONTINUOUS_PICTURE'']),
      (''CONTROL_AWB_AVAILABLE_MODES'', U8 [Sym ''CONTROL_AWB_MODE_AUTO'', Sym ''CONTROL_AWB_MODE_OFF'']),
      (''CONTROL_AE_AVAILABLE_TARGET_FPS_RANGES'', I32 [Num 15, Num 30]),
      (''JPEG_AVAILABLE_THUMBNAIL_SIZES'', I32 [Num 0, Num 0, Num 160, Num 120, Num 320, Num 240]),
      (''HOT_PIXEL_AVAILABLE_HOT_PIXEL_MODES'', U8 [Sym ''HOT_PIXEL_MODE_FAST'', Sym ''HOT_PIXEL_MODE_HIGH_QUALITY'']),
      (''EDGE_AVAILABLE_EDGE_MODES'', U8 [Sym ''EDGE_MODE_OFF'', Sym ''EDGE_MODE_FAST'', Sym ''EDGE_MODE_HIGH_QUALITY'']),
      (''NOISE_REDUCTION_AVAILABLE_NOISE_REDUCTION_MODES'', U8 [Sym ''NOISE_REDUCTION_MODE_OFF'',
        Sym ''NOISE_REDUCTION_MODE_FAST'', Sym ''NOISE_REDUCTION_MODE_HIGH_QUALITY'']),
      (''SHADING_AVAILABLE_MODES'', U8 [Sym ''SHADING_MODE_OFF'', Sym ''SHADING_MODE_FAST'',
        Sym ''SHADING_MODE_HIGH_QUALITY'']),
      (''STATISTICS_INFO_AVAILABLE_LENS_SHADING_MAP_MODES'', U8 [Sym ''STATISTICS_LENS_SHADING_MAP_MODE_OFF'']),
      (''STATISTICS_INFO_MAX_FACE_COUNT'', I32 [Num 0]),
      (''STATISTICS_INFO_AVAILABLE_FACE_DETECT_MODES'', U8 [Sym ''STATISTICS_FACE_DETECT_MODE_OFF'']),
      (''TONEMAP_AVAILABLE_TONE_MAP_MODES'', U8 [Sym ''TONEMAP_MODE_CONTRAST_CURVE'', Sym ''TONEMAP_MODE_FAST'',
        Sym ''TONEMAP_MODE_HIGH_QUALITY'']),
      (''SENSOR_INFO_COLOR_FILTER_ARRANGEMENT'', U8 [Sym ''SENSOR_INFO_COLOR_FILTER_ARRANGEMENT_RGGB''])]"

definition range_characteristics :: "int \<Rightarrow> metadata" where
  "range_characteristics cameraId =
     [(''CONTROL_AE_LOCK_AVAILABLE'', U8 [Sym ''CONTROL_AE_LOCK_AVAILABLE_TRUE'']),
      (''CONTROL_AWB_LOCK_AVAILABLE'', U8 [Sym ''CONTROL_AWB_LOCK_AVAILABLE_TRUE'']),
      (''CONTROL_AE_COMPENSATION_RANGE'', I32 [Num (- 9), Num 9]),
      (''CONTROL_AE_COMPENSATION_STEP'', Rational [(1, 3)]),
      (''SENSOR_INFO_EXPOSURE_TIME_RANGE'', I64 [Num 160000, Num 40000000]),
      (''SENSOR_INFO_SENSITIVITY_RANGE'', I32 [Num 100, Num 1600]),
      (''SENSOR_MAX_ANALOG_SENSITIVITY'', I32 [Num 1600]),
      (''JPEG_MAX_SIZE'', I32 [Num (3280 * 2464 * 2)]),
      (''REQUEST_PIPELINE_MAX_DEPTH'', U8 [Num 4]),
      (''REQUEST_MAX_NUM_INPUT_STREAMS'', I32 [Num 0]),
      (''LENS_INFO_HYPERFOCAL_DISTANCE'', Flt [0]),
      (''LENS_INFO_MINIMUM_FOCUS_DISTANCE'', Flt [if cameraId = 0 then 10 else 0]),
      (''LENS_INFO_FOCUS_DISTANCE_CALIBRATION'', U8 [Sym ''LENS_INFO_FOCUS_DISTANCE_CALIBRATION_UNCALIBRATED''])]"

definition option_characteristics :: metadata where
  "option_characteristics =
     [(''CONTROL_AVAILABLE_EFFECTS'', U8 [Sym ''CONTROL_EFFECT_MODE_OFF'']),
      (''CONTROL_AE_AVAILABLE_ANTIBANDING_MODES'', U8 [Sym ''CONTROL_AE_ANTIBANDING_MODE_AUTO'',
        Sym ''CONTROL_AE_ANTIBANDING_MODE_50HZ'', Sym ''CONTROL_AE_ANTIBANDING_MODE_60HZ'']),
      (''CONTROL_AVAILABLE_VIDEO_STABILIZATION_MODES'', U8 [Sym ''CONTROL_VIDEO_STABILIZATION_MODE_OFF'']),
      (''LENS_INFO_AVAILABLE_OPTICAL_STABILIZATION'', U8 [Sym ''LENS_OPTICAL_STABILIZATION_MODE_OFF'']),
      (''COLOR_CORRECTION_AVAILABLE_ABERRATION_MODES'', U8 [Sym ''COLOR_CORRECTION_ABERRATION_MODE_OFF'']),
      (''CONTROL_AVAILABLE_MODES'', U8 [Sym ''CONTROL_MODE_AUTO'', Sym ''CONTROL_MODE_OFF'']),
      (''SENSOR_AVAILABLE_TEST_PATTERN_MODES'', U8 [Sym ''SENSOR_TEST_PATTERN_MODE_OFF'']),
      (''LENS_INFO_AVAILABLE_FOCAL_LENGTHS'', Flt [f32 (7 / 2)]),
      (''LENS_INFO_AVAILABLE_APERTURES'', Flt [f32 (14 / 5)]),
      (''LENS_INFO_AVAILABLE_FILTER_DENSITIES'', Flt [0]),
      (''CONTROL_MAX_REGIONS'', I32 [Num 1, Num 1, Num 0]),
      (''REQUEST_MAX_NUM_OUTPUT_STREAMS'', I32 [Num 3, Num 3, Num 1]),
      (''REQUEST_PARTIAL_RESULT_COUNT'', I32 [Num 1]),
      (''SYNC_MAX_LATENCY'', I64 [Sym ''SYNC_MAX_LATENCY_PER_FRAME_CONTROL''])]"

definition characteristics_keys :: "string list" where
  "characteristics_keys =
     [''COLOR_CORRECTION_AVAILABLE_ABERRATION_MODES'', ''CONTROL_AE_AVAILABLE_ANTIBANDING_MODES'',
       ''CONTROL_AE_AVAILABLE_MODES'', ''CONTROL_AE_AVAILABLE_TARGET_FPS_RANGES'', ''CONTROL_AE_COMPENSATION_RANGE'',
       ''CONTROL_AE_COMPENSATION_STEP'', ''CONTROL_AE_LOCK_AVAILABLE'', ''CONTROL_AF_AVAILABLE_MODES'',
       ''CONTROL_AVAILABLE_EFFECTS'', ''CONTROL_AVAILABLE_MODES'', ''CONTROL_AVAILABLE_SCENE_MODES'',
       ''CONTROL_AVAILABLE_VIDEO_STABILIZATION_MODES'', ''CONTROL_AWB_AVAILABLE_MODES'', ''CONTROL_AWB_LOCK_AVAILABLE'',
       ''CONTROL_MAX_REGIONS'', ''EDGE_AVAILABLE_EDGE_MODES'', ''FLASH_INFO_AVAILABLE'',
       ''HOT_PIXEL_AVAILABLE_HOT_PIXEL_MODES'', ''INFO_SUPPORTED_HARDWARE_LEVEL'', ''JPEG_AVAILABLE_THUMBNAIL_SIZES'',
       ''JPEG_MAX_SIZE'', ''LENS_FACING'', ''LENS_INFO_AVAILABLE_APERTURES'', ''LENS_INFO_AVAILABLE_FILTER_DENSITIES'',
       ''LENS_INFO_AVAILABLE_FOCAL_LENGTHS'', ''LENS_INFO_AVAILABLE_OPTICAL_STABILIZATION'',
       ''LENS_INFO_FOCUS_DISTANCE_CALIBRATION'', ''LENS_INFO_HYPERFOCAL_DISTANCE'', ''LENS_INFO_MINIMUM_FOCUS_DISTANCE'',
       ''NOISE_REDUCTION_AVAILABLE_NOISE_REDUCTION_MODES'', ''REQUEST_AVAILABLE_CAPABILITIES'',
       ''REQUEST_AVAILABLE_CHARACTERISTICS_KEYS'', ''REQUEST_AVAILABLE_REQUEST_KEYS'', ''REQUEST_AVAILABLE_RESULT_KEYS'',
       ''REQUEST_MAX_NUM_INPUT_STREAMS'', ''REQUEST_MAX_NUM_OUTPUT_STREAMS'', ''REQUEST_PARTIAL_RESULT_COUNT'',
       ''REQUEST_PIPELINE_MAX_DEPTH'', ''SCALER_AVAILABLE_MAX_DIGITAL_ZOOM'', ''SCALER_AVAILABLE_MIN_FRAME_DURATIONS'',
       ''SCALER_AVAILABLE_STALL_DURATIONS'', ''SCALER_AVAILABLE_STREAM_CONFIGURATIONS'',
       ''SENSOR_AVAILABLE_TEST_PATTERN_MODES'', ''SENSOR_INFO_ACTIVE_ARRAY_SIZE'', ''SENSOR_INFO_COLOR_FILTER_ARRANGEMENT'',
       ''SENSOR_INFO_EXPOSURE_TIME_RANGE'', ''SENSOR_INFO_PHYSICAL_SIZE'', ''SENSOR_INFO_PIXEL_ARRAY_SIZE'',
       ''SENSOR_INFO_PRE_CORRECTION_ACTIVE_ARRAY_SIZE'', ''SENSOR_INFO_SENSITIVITY_RANGE'',
       ''SENSOR_INFO_TIMESTAMP_SOURCE'', ''SENSOR_MAX_ANALOG_SENSITIVITY'', ''SENSOR_ORIENTATION'',
       ''SHADING_AVAILABLE_MODES'', ''STATISTICS_INFO_AVAILABLE_FACE_DETECT_MODES'',
       ''STATISTICS_INFO_AVAILABLE_LENS_SHADING_MAP_MODES'', ''STATISTICS_INFO_MAX_FACE_COUNT'', ''SYNC_MAX_LATENCY'',
       ''TONEMAP_AVAILABLE_TONE_MAP_MODES'']"

definition static_entries :: "int \<Rightarrow> metadata" where
  "static_entries cameraId =
     stream_characteristics cameraId @ sensor_characteristics cameraId @ key_characteristics @ mode_characteristics @
     range_characteristics cameraId @ option_characteristics @
     [(''REQUEST_AVAILABLE_CHARACTERISTICS_KEYS'', I32 (map Sym characteristics_keys))]"

section \<open>Default request settings\<close>

definition default_entries :: metadata where
  "default_entries =
     [(''CONTROL_CAPTURE_INTENT'', U8 [Sym ''CONTROL_CAPTURE_INTENT_PREVIEW'']),
      (''REQUEST_METADATA_MODE'', U8 [Sym ''REQUEST_METADATA_MODE_FULL'']),
      (''REQUEST_ID'', I32 [Num 0]),
      (''CONTROL_AE_MODE'', I32 [Sym ''CONTROL_AE_MODE_ON'']),
      (''CONTROL_AWB_MODE'', I32 [Sym ''CONTROL_AWB_MODE_AUTO'']),
      (''CONTROL_MODE'', I32 [Sym ''CONTROL_MODE_AUTO'']),
      (''CONTROL_SCENE_MODE'', I32 [Sym ''CONTROL_SCENE_MODE_DISABLED'']),
      (''CONTROL_AE_TARGET_FPS_RANGE'', I32 [Num 15, Num 30]),
      (''CONTROL_AE_PRECAPTURE_TRIGGER'', I32 [Sym ''CONTROL_AE_PRECAPTURE_TRIGGER_IDLE'']),
      (''CONTROL_AF_MODE'', U8 [Sym ''CONTROL_AF_MODE_AUTO'']),
      (''CONTROL_AF_TRIGGER'', U8 [Sym ''CONTROL_AF_TRIGGER_IDLE'']),
      (''CONTROL_AE_LOCK'', I32 [Sym ''CONTROL_AE_LOCK_OFF'']),
      (''CONTROL_AWB_LOCK'', I32 [Sym ''CONTROL_AWB_LOCK_OFF'']),
      (''CONTROL_EFFECT_MODE'', I32 [Sym ''CONTROL_EFFECT_MODE_OFF'']),
      (''CONTROL_AE_ANTIBANDING_MODE'', U8 [Sym ''CONTROL_AE_ANTIBANDING_MODE_AUTO'']),
      (''CONTROL_VIDEO_STABILIZATION_MODE'', I32 [Sym ''CONTROL_VIDEO_STABILIZATION_MODE_OFF'']),
      (''EDGE_MODE'', I32 [Sym ''EDGE_MODE_OFF'']),
      (''NOISE_REDUCTION_MODE'', I32 [Sym ''NOISE_REDUCTION_MODE_FAST'']),
      (''COLOR_CORRECTION_MODE'', I32 [Sym ''COLOR_CORRECTION_MODE_FAST'']),
      (''COLOR_CORRECTION_TRANSFORM'', I32 [Num 1, Num 0, Num 0, Num 0, Num 1, Num 0, Num 0, Num 0, Num 1]),
      (''COLOR_CORRECTION_GAINS'', I32 [Num 1, Num 0, Num 1, Num 0]),
      (''TONEMAP_MODE'', I32 [Sym ''TONEMAP_MODE_FAST'']),
      (''SHADING_MODE'', I32 [Sym ''SHADING_MODE_FAST'']),
      (''STATISTICS_LENS_SHADING_MAP_MODE'', I32 [Sym ''STATISTICS_LENS_SHADING_MAP_MODE_OFF'']),
      (''HOT_PIXEL_MODE'', I32 [Sym ''HOT_PIXEL_MODE_FAST'']),
      (''STATISTICS_FACE_DETECT_MODE'', I32 [Sym ''STATISTICS_FACE_DETECT_MODE_OFF'']),
      (''SENSOR_TEST_PATTERN_MODE'', I32 [Sym ''SENSOR_TEST_PATTERN_MODE_OFF''])]"

datatype template = PREVIEW | VIDEO_RECORD | STILL_CAPTURE | ZERO_SHUTTER_LAG | MANUAL | Other_Template

text \<open>The entries a template adds, the capture intent last.\<close>

definition template_entries :: "template \<Rightarrow> metadata" where
  "template_entries type =
     (case type of
        STILL_CAPTURE \<Rightarrow>
          [(''JPEG_QUALITY'', U8 [Num 95]), (''JPEG_THUMBNAIL_QUALITY'', U8 [Num 95]),
           (''JPEG_THUMBNAIL_SIZE'', I32 [Num 320, Num 240])]
      | MANUAL \<Rightarrow>
          [(''CONTROL_AE_MODE'', I32 [Sym ''CONTROL_AE_MODE_OFF'']), (''CONTROL_AWB_MODE'', I32 [Sym ''CONTROL_AWB_MODE_OFF''])]
      | _ \<Rightarrow> []) @
     [(''CONTROL_CAPTURE_INTENT'', U8 [Sym
         (case type of
            PREVIEW \<Rightarrow> ''CONTROL_CAPTURE_INTENT_PREVIEW''
          | VIDEO_RECORD \<Rightarrow> ''CONTROL_CAPTURE_INTENT_VIDEO_RECORD''
          | STILL_CAPTURE \<Rightarrow> ''CONTROL_CAPTURE_INTENT_STILL_CAPTURE''
          | ZERO_SHUTTER_LAG \<Rightarrow> ''CONTROL_CAPTURE_INTENT_ZERO_SHUTTER_LAG''
          | MANUAL \<Rightarrow> ''CONTROL_CAPTURE_INTENT_MANUAL''
          | Other_Template \<Rightarrow> ''CONTROL_CAPTURE_INTENT_PREVIEW'')])]"

section \<open>The metadata library\<close>

record 'm metadata_lib =
  ml_allocate :: "nat \<Rightarrow> nat \<Rightarrow> 'm option"
  ml_add :: "string \<Rightarrow> meta_value \<Rightarrow> 'm \<Rightarrow> int \<times> 'm"
  ml_sort :: "'m \<Rightarrow> 'm"

text \<open>Every call of \<open>add_camera_metadata_entry\<close> ignores the return value.\<close>

definition add_entry :: "'m metadata_lib \<Rightarrow> string \<times> meta_value \<Rightarrow> 'm \<Rightarrow> 'm" where
  "add_entry lib e m = snd (ml_add lib (fst e) (snd e) m)"

text \<open>The cache \<open>gCameraCharacteristics\<close> has one slot per camera.\<close>

definition init_static_characteristics ::
    "'m metadata_lib \<Rightarrow> int \<Rightarrow> 'm option list \<Rightarrow> 'm option \<times> 'm option list" where
  "init_static_characteristics lib cameraId cache =
     (if cameraId < 0 \<or> cameraId \<ge> 2 then (None, cache)
      else
        case cache ! nat cameraId of
          Some m \<Rightarrow> (Some m, cache)
        | None \<Rightarrow>
            (case ml_allocate lib 100 8192 of
               None \<Rightarrow> (None, cache)
             | Some m \<Rightarrow>
                 let m = ml_sort lib (fold (add_entry lib) (static_entries cameraId) m)
                 in (Some m, cache[nat cameraId := Some m])))"

definition camera_device_construct_default_request_settings :: "'m metadata_lib \<Rightarrow> template \<Rightarrow> 'm option" where
  "camera_device_construct_default_request_settings lib type =
     (case ml_allocate lib 20 80 of
        None \<Rightarrow> None
      | Some m \<Rightarrow> Some (ml_sort lib (fold (add_entry lib) (default_entries @ template_entries type) m)))"

section \<open>What the library promises\<close>

fun elements :: "meta_value \<Rightarrow> nat" where
  "elements (U8 xs) = length xs"
| "elements (I32 xs) = length xs"
| "elements (I64 xs) = length xs"
| "elements (Flt xs) = length xs"
| "elements (Rational xs) = length xs"

definition used :: "(string \<Rightarrow> meta_value \<Rightarrow> nat) \<Rightarrow> metadata \<Rightarrow> nat" where
  "used size_of es = sum_list (map (\<lambda>e. size_of (fst e) (snd e)) es)"

text \<open>The effect of adding an entry to a buffer with room for a number of entries and of data bytes.\<close>

definition store :: "(string \<Rightarrow> meta_value \<Rightarrow> nat) \<Rightarrow> nat \<times> nat \<Rightarrow> string \<times> meta_value \<Rightarrow> metadata \<Rightarrow> metadata" where
  "store size_of room e es =
     (if length es < fst room \<and> used size_of es + size_of (fst e) (snd e) \<le> snd room then es @ [e] else es)"

text \<open>
  The documented behaviour: a new buffer is empty; an entry is appended when the buffer has room for it,
  otherwise the call fails and changes nothing; sorting keeps the entries; an entry takes at
  most eight bytes of data per element, and none when it is a single byte or 32-bit value.
\<close>

definition metadata_laws ::
    "'m metadata_lib \<Rightarrow> ('m \<Rightarrow> metadata) \<Rightarrow> ('m \<Rightarrow> nat \<times> nat) \<Rightarrow> (string \<Rightarrow> meta_value \<Rightarrow> nat) \<Rightarrow> bool" where
  "metadata_laws lib entries room size_of \<longleftrightarrow>
     (\<forall>n k m. ml_allocate lib n k = Some m \<longrightarrow> entries m = [] \<and> room m = (n, k)) \<and>
     (\<forall>t v m. entries (snd (ml_add lib t v m)) = store size_of (room m) (t, v) (entries m) \<and>
        room (snd (ml_add lib t v m)) = room m) \<and>
     (\<forall>m. mset (entries (ml_sort lib m)) = mset (entries m)) \<and>
     (\<forall>t v. size_of t v \<le> 8 * elements v) \<and> (\<forall>t c. size_of t (U8 [c]) = 0 \<and> size_of t (I32 [c]) = 0)"

lemma used_append [simp]: "used size_of (xs @ ys) = used size_of xs + used size_of ys"
  by (simp add: used_def)

lemma used_Cons [simp]: "used size_of (e # es) = size_of (fst e) (snd e) + used size_of es" "used size_of [] = 0"
  by (simp_all add: used_def)

lemma entries_fold:
  assumes "metadata_laws lib entries room size_of"
  shows "entries (fold (add_entry lib) es m) = fold (store size_of (room m)) es (entries m) \<and>
    room (fold (add_entry lib) es m) = room m"
  using assms by (induction es arbitrary: m) (simp_all add: metadata_laws_def add_entry_def)

lemma store_full: "fst room \<le> length acc \<Longrightarrow> fold (store size_of room) es acc = acc"
  by (induction es) (simp_all add: store_def)

lemma store_fits:
  "length acc + length es \<le> fst room \<Longrightarrow> used size_of acc + used size_of es \<le> snd room \<Longrightarrow>
   fold (store size_of room) es acc = acc @ es"
  by (induction es arbitrary: acc) (auto simp: store_def)

lemma used_le: "(\<And>t v. size_of t v \<le> 8 * elements v) \<Longrightarrow> used size_of es \<le> 8 * (\<Sum>e\<leftarrow>es. elements (snd e))"
proof (induction es)
  case (Cons e es)
  then have "size_of (fst e) (snd e) \<le> 8 * elements (snd e)" "used size_of es \<le> 8 * (\<Sum>e\<leftarrow>es. elements (snd e))" by auto
  then show ?case by simp
qed simp

section \<open>The advertised characteristics\<close>

lemmas static_tables = static_entries_def stream_characteristics_def sensor_characteristics_def key_characteristics_def
  mode_characteristics_def range_characteristics_def option_characteristics_def

lemma static_entries_size:
  "length (static_entries cameraId) = 61" "(\<Sum>e\<leftarrow>static_entries cameraId. elements (snd e)) \<le> 1024"
  by (simp_all add: static_tables Let_def request_keys_def result_keys_def characteristics_keys_def)

lemma static_tags_distinct: "distinct (map fst (static_entries cameraId))"
  by (simp add: static_tables Let_def)

text \<open>Where each advertised key is added.\<close>

lemma characteristics_keys_added:
  "characteristics_keys = map ((!) (map fst (static_entries cameraId)))
     [50, 47, 19, 22, 35, 36, 33, 20, 46, 51, 18, 48, 21, 34, 56, 25, 8, 24, 14, 23, 40, 0, 54, 55, 53, 49, 45, 43, 44, 26,
      15, 60, 16, 17, 42, 57, 58, 41, 7, 3, 4, 2, 52, 9, 32, 37, 12, 10, 11, 38, 13, 39, 1, 27, 30, 28, 29, 59, 31]"
  by (simp add: static_tables Let_def characteristics_keys_def)

lemma characteristics_key_in: "k \<in> set characteristics_keys \<Longrightarrow> k \<in> fst ` set (static_entries cameraId)"
proof -
  assume "k \<in> set characteristics_keys"
  then obtain i where "k = map fst (static_entries cameraId) ! i" "i < 61"
    unfolding characteristics_keys_added [of cameraId] set_map by (elim imageE) (fastforce simp del: nth_map)
  then show ?thesis using static_entries_size(1) [of cameraId] by (simp add: nth_mem)
qed

text \<open>
  The static characteristics of both cameras: when the metadata buffer can be allocated, every one of the
  61 entries is stored (the capacity is never reached), no tag is stored twice, every key advertised
  in the list of characteristics keys has exactly one value, and the buffer is cached, so that asking
  again returns the same one.
\<close>

theorem static_characteristics_stored:
  assumes laws: "metadata_laws lib entries room size_of" and id: "cameraId = 0 \<or> cameraId = 1"
    and cache: "length cache = 2" "cache ! nat cameraId = None" and new: "ml_allocate lib 100 8192 = Some m0"
  shows "\<exists>m cache'. init_static_characteristics lib cameraId cache = (Some m, cache') \<and>
    mset (entries m) = mset (static_entries cameraId) \<and> (\<forall>k\<in>set characteristics_keys. \<exists>!v. (k, v) \<in> set (entries m)) \<and>
    init_static_characteristics lib cameraId cache' = (Some m, cache')"
proof -
  define m where "m = ml_sort lib (fold (add_entry lib) (static_entries cameraId) m0)"
  have m0: "entries m0 = []" "room m0 = (100, 8192)" using laws new by (auto simp: metadata_laws_def)
  have size: "\<And>t v. size_of t v \<le> 8 * elements v" using laws by (simp add: metadata_laws_def)
  have "used size_of (static_entries cameraId) \<le> 8192"
    using used_le [of size_of "static_entries cameraId", OF size] static_entries_size(2) [of cameraId] by linarith
  then have "entries (fold (add_entry lib) (static_entries cameraId) m0) = static_entries cameraId"
    using entries_fold [OF laws, of "static_entries cameraId" m0] m0 static_entries_size(1) [of cameraId]
    by (simp add: store_fits)
  then have ms: "mset (entries m) = mset (static_entries cameraId)" using laws by (simp add: m_def metadata_laws_def)
  then have set: "set (entries m) = set (static_entries cameraId)" by (rule mset_eq_setD)
  have "\<exists>!v. (k, v) \<in> set (entries m)" if "k \<in> set characteristics_keys" for k
    using characteristics_key_in [OF that, of cameraId] static_tags_distinct [of cameraId] unfolding set
    by (auto dest: eq_key_imp_eq_value)
  moreover have "init_static_characteristics lib cameraId cache = (Some m, cache[nat cameraId := Some m])"
    "init_static_characteristics lib cameraId (cache[nat cameraId := Some m]) = (Some m, cache[nat cameraId := Some m])"
    using id cache new by (auto simp: init_static_characteristics_def m_def Let_def)
  ultimately show ?thesis using ms by blast
qed

text \<open>
  Every result carries every advertised result key exactly once. It carries one more, the autofocus state,
  which is not advertised.
\<close>

theorem result_keys_delivered:
  "distinct (map fst (build_result_metadata frame ts exposure sensitivity af focus dur mode)) \<and>
   set (map fst (build_result_metadata frame ts exposure sensitivity af focus dur mode)) =
     insert ''CONTROL_AF_STATE'' (set result_keys) \<and> ''CONTROL_AF_STATE'' \<notin> set result_keys"
  by (auto simp: build_result_metadata_def result_keys_def)

section \<open>The advertised streams\<close>

fun c_values :: "meta_value \<Rightarrow> c_value list" where
  "c_values (U8 xs) = xs"
| "c_values (I32 xs) = xs"
| "c_values (I64 xs) = xs"
| "c_values _ = []"

fun rows_of_four :: "c_value list \<Rightarrow> (c_value \<times> c_value \<times> c_value) list" where
  "rows_of_four (format # w # h # x # rest) = (format, w, h) # rows_of_four rest"
| "rows_of_four _ = []"

fun pairs :: "c_value list \<Rightarrow> (c_value \<times> c_value) list" where
  "pairs (w # h # rest) = (w, h) # pairs rest"
| "pairs _ = []"

definition static_value :: "int \<Rightarrow> string \<Rightarrow> c_value list" where
  "static_value cameraId tag = (case map_of (static_entries cameraId) tag of None \<Rightarrow> [] | Some v \<Rightarrow> c_values v)"

fun num :: "c_value \<Rightarrow> int" where
  "num (Num n) = n"
| "num (Sym s) = 0"

text \<open>
  The stream tables agree with each other: the configurations, the minimal frame durations and the stall
  durations list the same streams, the sizes listed for JPEG are exactly those of the BLOB
  configurations, and the space the device uses in a BLOB buffer (two bytes per pixel) never exceeds
  the advertised maximal JPEG size.
\<close>

theorem stream_tables_agree:
  "let streams = rows_of_four (static_value cameraId ''SCALER_AVAILABLE_STREAM_CONFIGURATIONS'');
       blobs = map snd (filter (\<lambda>s. fst s = Sym ''HAL_PIXEL_FORMAT_BLOB'') streams)
   in length streams = 6 \<and>
      rows_of_four (static_value cameraId ''SCALER_AVAILABLE_MIN_FRAME_DURATIONS'') = streams \<and>
      rows_of_four (static_value cameraId ''SCALER_AVAILABLE_STALL_DURATIONS'') = streams \<and>
      pairs (static_value cameraId ''SCALER_AVAILABLE_JPEG_SIZES'') = blobs \<and>
      list_all (\<lambda>(w, h). num w * num h * 2 \<le> num (hd (static_value cameraId ''JPEG_MAX_SIZE''))) blobs"
proof -
  have v: "static_value cameraId ''SCALER_AVAILABLE_JPEG_SIZES'' = map Num [1280, 720, 1920, 1080, 3280, 2464]"
    "static_value cameraId ''JPEG_MAX_SIZE'' = [Num (3280 * 2464 * 2)]"
    by (simp_all add: static_value_def static_tables Let_def)
  have s: "rows_of_four (static_value cameraId ''SCALER_AVAILABLE_STREAM_CONFIGURATIONS'') =
      [(Sym ''HAL_PIXEL_FORMAT_IMPLEMENTATION_DEFINED'', Num 1280, Num 720), (Sym ''HAL_PIXEL_FORMAT_YCbCr_420_888'', Num 1280, Num 720),
       (Sym ''HAL_PIXEL_FORMAT_YV12'', Num 1280, Num 720), (Sym ''HAL_PIXEL_FORMAT_BLOB'', Num 1280, Num 720),
       (Sym ''HAL_PIXEL_FORMAT_BLOB'', Num 1920, Num 1080), (Sym ''HAL_PIXEL_FORMAT_BLOB'', Num 3280, Num 2464)]"
    "rows_of_four (static_value cameraId ''SCALER_AVAILABLE_MIN_FRAME_DURATIONS'') =
      rows_of_four (static_value cameraId ''SCALER_AVAILABLE_STREAM_CONFIGURATIONS'')"
    "rows_of_four (static_value cameraId ''SCALER_AVAILABLE_STALL_DURATIONS'') =
      rows_of_four (static_value cameraId ''SCALER_AVAILABLE_STREAM_CONFIGURATIONS'')"
    by (simp_all add: static_value_def static_tables Let_def)
  show ?thesis unfolding Let_def s v by simp
qed

section \<open>The default request settings\<close>

text \<open>The base entries: nineteen of them fit for certain, whatever the size of the last ones.\<close>

lemma default_entries_parts:
  "default_entries = take 19 default_entries @ (default_entries ! 19) # (default_entries ! 20) # (default_entries ! 21) # drop 22 default_entries"
  "length default_entries = 27"
  by (simp_all add: default_entries_def)

lemma used_first_nineteen:
  assumes "metadata_laws lib entries room size_of"
  shows "used size_of (take 19 default_entries) \<le> 16" "size_of (fst (default_entries ! 21)) (snd (default_entries ! 21)) = 0"
proof -
  have z: "\<And>t c. size_of t (U8 [c]) = 0" "\<And>t c. size_of t (I32 [c]) = 0" and le: "\<And>t v. size_of t v \<le> 8 * elements v"
    using assms by (simp_all add: metadata_laws_def)
  have "used size_of (take 19 default_entries) = size_of ''CONTROL_AE_TARGET_FPS_RANGE'' (I32 [Num 15, Num 30])"
    by (simp add: default_entries_def z)
  also have "\<dots> \<le> 16" using le [of "''CONTROL_AE_TARGET_FPS_RANGE''" "I32 [Num 15, Num 30]"] by simp
  finally show "used size_of (take 19 default_entries) \<le> 16" .
  show "size_of (fst (default_entries ! 21)) (snd (default_entries ! 21)) = 0" by (simp add: default_entries_def z)
qed

lemma store_full_after:
  assumes "fst room \<le> length acc + 1" "length acc < fst room" "used size_of acc \<le> snd room" "size_of (fst c) (snd c) = 0"
  shows "\<exists>x\<in>{a, b, c}. fold (store size_of room) (a # b # c # rest) acc = acc @ [x]"
proof -
  have n: "fst room = length acc + 1" using assms(1,2) by simp
  have full: "fold (store size_of room) es (acc @ [x]) = acc @ [x]" for es x by (rule store_full) (simp add: n)
  have one: "store size_of room e acc \<in> {acc, acc @ [e]}" for e by (simp add: store_def)
  have c: "store size_of room c acc = acc @ [c]" using assms n by (simp add: store_def)
  consider "store size_of room a acc = acc @ [a]" | "store size_of room a acc = acc" "store size_of room b acc = acc @ [b]"
    | "store size_of room a acc = acc" "store size_of room b acc = acc"
    using one by blast
  then show ?thesis
  proof cases
    case 1
    then show ?thesis using full [of "b # c # rest" a] by simp
  next
    case 2
    then show ?thesis using full [of "c # rest" b] by simp
  next
    case 3
    then show ?thesis using full [of rest c] c by simp
  qed
qed

lemma default_settings_stored:
  assumes laws: "metadata_laws lib entries room size_of" and new: "ml_allocate lib 20 80 = Some m0"
  shows "\<exists>x\<in>{default_entries ! 19, default_entries ! 20, default_entries ! 21}.
    entries (fold (add_entry lib) (default_entries @ es) m0) = take 19 default_entries @ [x]"
proof -
  have m0: "entries m0 = []" "room m0 = (20, 80)" using laws new by (auto simp: metadata_laws_def)
  note u = used_first_nineteen [OF laws]
  have len: "length (take 19 default_entries) = 19" by (simp add: default_entries_parts(2))
  let ?A = "take 19 default_entries"
  have "fold (store size_of (20, 80)) ?A [] = ?A"
    using store_fits [of "[]" ?A "(20, 80)" size_of] u(1) len by simp
  then have "fold (store size_of (20, 80)) (default_entries @ es) [] =
      fold (store size_of (20, 80)) ((default_entries ! 19) # (default_entries ! 20) # (default_entries ! 21) # drop 22 default_entries @ es) ?A"
    by (subst default_entries_parts(1)) (simp del: fold_Cons add: fold_append)
  moreover obtain x where "x \<in> {default_entries ! 19, default_entries ! 20, default_entries ! 21}"
    "fold (store size_of (20, 80)) ((default_entries ! 19) # (default_entries ! 20) # (default_entries ! 21) # drop 22 default_entries @ es) ?A = ?A @ [x]"
    using store_full_after [of "(20, 80)" ?A size_of "default_entries ! 21" "default_entries ! 19" "default_entries ! 20" "drop 22 default_entries @ es"]
      u len by (fastforce simp del: fold_Cons length_take)
  ultimately show ?thesis using entries_fold [OF laws, of "default_entries @ es" m0] m0 by auto
qed

text \<open>
  The default request settings are cut off: with the 20 entries the code allocates, every template ends up
  with exactly 20 entries out of the 27 to 31 the code adds, and the entries a template adds for itself
  are all lost. In every template, still capture and manual included, the only capture intent is
  PREVIEW, the only exposure mode is ON and there is no JPEG quality.
\<close>

theorem default_settings_cut_off:
  assumes laws: "metadata_laws lib entries room size_of" and new: "ml_allocate lib 20 80 = Some m0"
  shows "\<exists>m. camera_device_construct_default_request_settings lib type = Some m \<and> length (entries m) = 20 \<and>
    27 < length (default_entries @ template_entries type) \<and>
    (\<forall>v. (''CONTROL_CAPTURE_INTENT'', v) \<in> set (entries m) \<longleftrightarrow> v = U8 [Sym ''CONTROL_CAPTURE_INTENT_PREVIEW'']) \<and>
    (\<forall>v. (''CONTROL_AE_MODE'', v) \<in> set (entries m) \<longleftrightarrow> v = I32 [Sym ''CONTROL_AE_MODE_ON'']) \<and>
    (\<forall>v. (''JPEG_QUALITY'', v) \<notin> set (entries m))"
proof -
  define f where "f = fold (add_entry lib) (default_entries @ template_entries type) m0"
  obtain x where x: "x \<in> {default_entries ! 19, default_entries ! 20, default_entries ! 21}" "entries f = take 19 default_entries @ [x]"
    using default_settings_stored [OF laws new] unfolding f_def by blast
  have run: "camera_device_construct_default_request_settings lib type = Some (ml_sort lib f)"
    using new by (simp add: camera_device_construct_default_request_settings_def f_def)
  have ms: "mset (entries (ml_sort lib f)) = mset (entries f)" using laws by (simp add: metadata_laws_def)
  then have set: "set (entries (ml_sort lib f)) = insert x (set (take 19 default_entries))" using x(2) mset_eq_setD [OF ms] by simp
  have "length (entries (ml_sort lib f)) = 20" using mset_eq_length [OF ms] x(2) by (simp add: default_entries_parts(2))
  moreover have "fst x \<noteq> ''CONTROL_CAPTURE_INTENT''" "fst x \<noteq> ''CONTROL_AE_MODE''" "fst x \<noteq> ''JPEG_QUALITY''"
    using x(1) by (auto simp: default_entries_def)
  moreover have "(''CONTROL_CAPTURE_INTENT'', v) \<in> set (take 19 default_entries) \<longleftrightarrow> v = U8 [Sym ''CONTROL_CAPTURE_INTENT_PREVIEW'']"
    "(''CONTROL_AE_MODE'', v) \<in> set (take 19 default_entries) \<longleftrightarrow> v = I32 [Sym ''CONTROL_AE_MODE_ON'']"
    "(''JPEG_QUALITY'', v) \<notin> set (take 19 default_entries)" for v
    by (simp_all add: default_entries_def)
  moreover have "27 < length (default_entries @ template_entries type)"
    by (simp add: default_entries_parts(2) template_entries_def)
  moreover have "(k, v) \<in> set (entries (ml_sort lib f)) \<longleftrightarrow> (k, v) \<in> set (take 19 default_entries)" if "fst x \<noteq> k" for k v
    using that unfolding set by auto
  ultimately show ?thesis using run by (intro exI [of _ "ml_sort lib f"]) simp
qed

section \<open>A buffer that keeps the promises\<close>

definition bytes_of :: "string \<Rightarrow> meta_value \<Rightarrow> nat" where
  "bytes_of tag v =
     (let n = (case v of U8 xs \<Rightarrow> length xs | I32 xs \<Rightarrow> 4 * length xs | Flt xs \<Rightarrow> 4 * length xs | _ \<Rightarrow> 8 * elements v)
      in if n \<le> 4 then 0 else (n + 7) div 8 * 8)"

definition list_lib :: "(metadata \<times> nat \<times> nat) metadata_lib" where
  "list_lib = \<lparr>ml_allocate = \<lambda>n k. Some ([], n, k),
     ml_add = \<lambda>t v (es, room). (if store bytes_of room (t, v) es = es then - 1 else 0, store bytes_of room (t, v) es, room),
     ml_sort = \<lambda>m. m\<rparr>"

lemma list_lib_laws: "metadata_laws list_lib fst snd bytes_of"
  by (auto simp: metadata_laws_def list_lib_def bytes_of_def Let_def split: meta_value.split)

theorem static_characteristics_stored_witness:
  "\<exists>m cache'. init_static_characteristics list_lib 1 [None, None] = (Some m, cache') \<and> mset (fst m) = mset (static_entries 1)"
  using static_characteristics_stored [OF list_lib_laws, of 1 "[None, None]" "([], 100, 8192)"] by (auto simp: list_lib_def)

theorem default_settings_cut_off_witness:
  "\<exists>m. camera_device_construct_default_request_settings list_lib STILL_CAPTURE = Some m \<and>
     (''CONTROL_CAPTURE_INTENT'', U8 [Sym ''CONTROL_CAPTURE_INTENT_STILL_CAPTURE'']) \<notin> set (fst m)"
  using default_settings_cut_off [OF list_lib_laws, of "([], 20, 80)" STILL_CAPTURE] by (auto simp: list_lib_def)

end
