(* ===== verification/C_Strings.thy ===== *)
theory C_Strings
  imports Mocha_Prelude
begin

text \<open>
  Numbers in strings as the C and C++ libraries read them: \<open>atoi\<close>, \<open>std::stoi\<close>, \<open>std::to_string\<close>, and
  \<open>android::base::Trim\<close>. Values are unbounded; the callers pass numbers that fit an \<open>int\<close>.
\<close>

text \<open>The C library's \<open>atoi\<close>: blanks, a sign, digits up to the first other character.\<close>

definition is_blank :: "char \<Rightarrow> bool" where
  "is_blank c = (c \<in> {CHR '' '', CHR 0x09, CHR 0x0A, CHR 0x0B, CHR 0x0C, CHR 0x0D})"

definition is_digit :: "char \<Rightarrow> bool" where
  "is_digit c = (48 \<le> (of_char c :: nat) \<and> (of_char c :: nat) \<le> 57)"

fun digits :: "string \<Rightarrow> int \<Rightarrow> int" where
  "digits [] n = n"
| "digits (c # cs) n = (if is_digit c then digits cs (10 * n + (of_char c - 48)) else n)"

definition atoi :: "string \<Rightarrow> int" where
  "atoi s =
     (case dropWhile is_blank s of
        [] \<Rightarrow> 0
      | c # cs \<Rightarrow> if c = CHR ''-'' then - digits cs 0 else if c = CHR ''+'' then digits cs 0 else digits (c # cs) 0)"

text \<open>\<open>std::stoi\<close> throws when no digit follows the blanks and the sign.\<close>

definition stoi :: "string \<Rightarrow> int option" where
  "stoi s =
     (let t = dropWhile is_blank s;
          u = (case t of [] \<Rightarrow> [] | c # cs \<Rightarrow> if c = CHR ''-'' \<or> c = CHR ''+'' then cs else t)
      in case u of [] \<Rightarrow> None | c # _ \<Rightarrow> if is_digit c then Some (atoi s) else None)"

definition trim :: "string \<Rightarrow> string" where
  "trim s = rev (dropWhile is_blank (rev (dropWhile is_blank s)))"

text \<open>Decimal notation.\<close>

function nat_digits :: "nat \<Rightarrow> string" where
  "nat_digits n = (if n < 10 then [char_of (48 + n)] else nat_digits (n div 10) @ [char_of (48 + n mod 10)])"
  by auto
termination nat_digits
  by (relation "measure id") auto

declare nat_digits.simps [simp del]

definition to_string :: "int \<Rightarrow> string" where
  "to_string i = (if i < 0 then CHR ''-'' # nat_digits (nat (- i)) else nat_digits (nat i))"

text \<open>\<open>strtoul\<close> with base 0 on the 32-bit target: blanks, a sign, \<open>0x\<close> for hexadecimal or \<open>0\<close> for octal, digits.
  Overflow saturates, a minus sign negates modulo \<open>2\<^sup>3\<^sup>2\<close>. The result is the value and the rest of the string,
  which is the whole string when there is no digit.\<close>

definition ULONG_MAX :: nat where
  "ULONG_MAX = 4294967295"

definition digit_value :: "char \<Rightarrow> nat" where
  "digit_value c =
     (let n = of_char c
      in if 48 \<le> n \<and> n \<le> 57 then n - 48
         else if 97 \<le> n \<and> n \<le> 122 then n - 87
         else if 65 \<le> n \<and> n \<le> 90 then n - 55
         else 36)"

fun read_digits :: "nat \<Rightarrow> string \<Rightarrow> nat \<Rightarrow> nat \<times> string" where
  "read_digits base [] n = (n, [])"
| "read_digits base (c # cs) n = (if digit_value c < base then read_digits base cs (n * base + digit_value c) else (n, c # cs))"

definition strtoul_base :: "string \<Rightarrow> nat \<times> string" where
  "strtoul_base s =
     (case s of
        z # x # d # cs \<Rightarrow>
          if z = CHR ''0'' \<and> (x = CHR ''x'' \<or> x = CHR ''X'') \<and> digit_value d < 16 then (16, d # cs)
          else if z = CHR ''0'' then (8, s) else (10, s)
      | z # cs \<Rightarrow> if z = CHR ''0'' then (8, s) else (10, s)
      | [] \<Rightarrow> (10, s))"

definition strtoul :: "string \<Rightarrow> nat \<times> string" where
  "strtoul s =
     (let t = dropWhile is_blank s;
          neg = (t \<noteq> [] \<and> hd t = CHR ''-'');
          u = (if t \<noteq> [] \<and> (hd t = CHR ''-'' \<or> hd t = CHR ''+'') then tl t else t);
          (base, ds) = strtoul_base u;
          (n, rest) = read_digits base ds 0
      in if rest = ds then (0, s)
         else (if n > ULONG_MAX then ULONG_MAX else if neg then (2 ^ 32 - n) mod 2 ^ 32 else n, rest))"

text \<open>The tokens \<open>strtok\<close> finds: the non-empty pieces between separators.\<close>

fun pieces :: "char \<Rightarrow> string \<Rightarrow> string \<Rightarrow> string list" where
  "pieces d [] acc = [rev acc]"
| "pieces d (c # cs) acc = (if c = d then rev acc # pieces d cs [] else pieces d cs (c # acc))"

definition strtok :: "char \<Rightarrow> string \<Rightarrow> string list" where
  "strtok d s = filter (\<lambda>t. t \<noteq> []) (pieces d s [])"

section \<open>Reading back what was written\<close>

lemma is_digit_char [simp]:
  assumes "d < 10"
  shows "is_digit (char_of (48 + d))" "of_char (char_of (48 + d)) = 48 + int d"
proof -
  have d: "of_char (char_of (48 + d)) = 48 + d" using assms by simp
  then show "is_digit (char_of (48 + d))" using assms by (simp add: is_digit_def)
  have "int (of_char (char_of (48 + d))) = 48 + int d" unfolding d by simp
  then show "of_char (char_of (48 + d)) = 48 + int d" by (simp only: of_nat_of_char)
qed

lemma digits_append: "\<forall>c\<in>set xs. is_digit c \<Longrightarrow> digits (xs @ ys) n = digits ys (digits xs n)"
  by (induction xs arbitrary: n) auto

lemma nat_digits_all: "\<forall>c\<in>set (nat_digits n). is_digit c"
  by (induction n rule: nat_digits.induct) (subst nat_digits.simps, auto)

lemma digits_nat_digits: "digits (nat_digits n) 0 = int n"
proof (induction n rule: nat_digits.induct)
  case (1 n)
  show ?case
  proof (cases "n < 10")
    case True
    then show ?thesis by (subst nat_digits.simps) simp
  next
    case False
    have "digits (nat_digits n) 0 = 10 * digits (nat_digits (n div 10)) 0 + int (n mod 10)"
      using False by (subst nat_digits.simps) (simp add: digits_append nat_digits_all)
    then have "digits (nat_digits n) 0 = 10 * int (n div 10) + int (n mod 10)" using 1 [OF False] by simp
    moreover have "int n = int (10 * (n div 10) + n mod 10)" by (simp only: mult_div_mod_eq)
    ultimately show ?thesis by linarith
  qed
qed

lemma nat_digits_Cons: "\<exists>c cs. nat_digits n = c # cs \<and> is_digit c"
  using nat_digits_all [of n] by (cases "nat_digits n") (auto simp: nat_digits.simps [of n] split: if_splits)

lemma digit_not_blank: "is_digit c \<Longrightarrow> \<not> is_blank c \<and> c \<noteq> CHR ''-'' \<and> c \<noteq> CHR ''+''"
  by (auto simp: is_digit_def is_blank_def)

lemma atoi_to_string: "atoi (to_string i) = i"
proof -
  obtain c cs where n: "nat_digits (nat i) = c # cs" "is_digit c" using nat_digits_Cons by blast
  have "\<not> is_blank (CHR ''-'')" by (simp add: is_blank_def)
  then show ?thesis using n digit_not_blank [OF n(2)] digits_nat_digits [of "nat i"] digits_nat_digits [of "nat (- i)"]
    by (auto simp: to_string_def atoi_def)
qed

lemma digit_value_char: "d < 10 \<Longrightarrow> digit_value (char_of (48 + d)) = d"
  by (simp add: digit_value_def Let_def)

lemma read_digits_append:
  "\<forall>c\<in>set xs. digit_value c < base \<Longrightarrow> read_digits base (xs @ ys) n = read_digits base ys (fst (read_digits base xs n))"
  by (induction xs arbitrary: n) auto

lemma nat_digits_values: "\<forall>c\<in>set (nat_digits n). digit_value c < 10"
  by (induction n rule: nat_digits.induct) (subst nat_digits.simps, auto simp: digit_value_char)

lemma read_nat_digits: "read_digits 10 (nat_digits n) 0 = (n, [])"
proof (induction n rule: nat_digits.induct)
  case (1 n)
  show ?case
  proof (cases "n < 10")
    case True
    then show ?thesis by (subst nat_digits.simps) (simp add: digit_value_char)
  next
    case False
    then have "read_digits 10 (nat_digits n) 0 = read_digits 10 [char_of (48 + n mod 10)] (fst (read_digits 10 (nat_digits (n div 10)) 0))"
      using read_digits_append [of "nat_digits (n div 10)" 10] nat_digits_values by (subst nat_digits.simps) simp
    also have "\<dots> = (n div 10 * 10 + n mod 10, [])" using 1 [OF False] by (simp add: digit_value_char)
    finally show ?thesis by simp
  qed
qed

lemma nat_digits_lead: "0 < n \<Longrightarrow> \<exists>c cs. nat_digits n = c # cs \<and> is_digit c \<and> c \<noteq> CHR ''0''"
proof (induction n rule: nat_digits.induct)
  case (1 n)
  show ?case
  proof (cases "n < 10")
    case True
    then have "nat_digits n = [char_of (48 + n)]" by (subst nat_digits.simps) simp
    moreover have "of_char (char_of (48 + n) :: char) \<noteq> (of_char (CHR ''0'') :: nat)" using True "1.prems" by simp
    ultimately show ?thesis using is_digit_char(1) [OF True] by (metis (no_types))
  next
    case False
    then have "0 < n div 10" by (simp add: div_greater_zero_iff)
    then obtain c cs where "nat_digits (n div 10) = c # cs" "is_digit c" "c \<noteq> CHR ''0''" using "1.IH" [OF False] by blast
    moreover have "nat_digits n = nat_digits (n div 10) @ [char_of (48 + n mod 10)]" using False by (subst nat_digits.simps) simp
    ultimately show ?thesis by simp
  qed
qed

lemma read_digits_stop: "ys = [] \<or> digit_value (hd ys) \<ge> base \<Longrightarrow> read_digits base ys n = (n, ys)"
  by (cases ys) auto

lemma read_nat_digits_stop: "ys = [] \<or> digit_value (hd ys) \<ge> 10 \<Longrightarrow> read_digits 10 (nat_digits n @ ys) 0 = (n, ys)"
  using read_digits_append [OF nat_digits_values] read_nat_digits by (simp add: read_digits_stop)

end
