(* ===== verification/Hal_Module.thy ===== *)
theory Hal_Module
  imports Hal_Metadata C_Strings
begin

text \<open>
  The module entry points at the end of \<open>camera/MochaCameraHAL.cpp\<close> (camera count, camera info, the two ways to
  open a camera, the torch), the thread that closes leaked fence descriptors, and the frame copy between
  two gralloc buffers.
\<close>

section \<open>Entry points\<close>

definition getNumberOfCameras :: int where
  "getNumberOfCameras = int (length kCameras)"

record 'm camera_info =
  inf_facing_front :: bool
  inf_orientation :: int
  inf_device_version :: string
  inf_characteristics :: "'m option"
  inf_resource_cost :: int

definition getCameraInfo ::
    "'m metadata_lib \<Rightarrow> int \<Rightarrow> 'm option list \<Rightarrow> int \<times> 'm camera_info option \<times> 'm option list" where
  "getCameraInfo lib cameraId cache =
     (if cameraId < 0 \<or> cameraId \<ge> int (length kCameras) then (- EINVAL, None, cache)
      else
        let cam = cam_info cameraId; (m, cache) = init_static_characteristics lib cameraId cache
        in (0, Some \<lparr>inf_facing_front = ci_facing_front cam, inf_orientation = ci_orientation cam,
              inf_device_version = ''CAMERA_DEVICE_API_VERSION_3_2'', inf_characteristics = m, inf_resource_cost = 100\<rparr>, cache))"

definition hal_open :: "string option \<Rightarrow> int \<times> mocha_camera_device option" where
  "hal_open name = (case name of None \<Rightarrow> (- EINVAL, None) | Some s \<Rightarrow> openCamera (atoi s))"

definition open_legacy :: "string option \<Rightarrow> u32 \<Rightarrow> int \<times> mocha_camera_device option" where
  "open_legacy name halVersion =
     (case name of
        None \<Rightarrow> (- EINVAL, None)
      | Some s \<Rightarrow> if halVersion \<ge> 0x30000 then openCamera (atoi s) else (- ENOSYS, None))"

definition set_torch_mode :: "string \<Rightarrow> bool \<Rightarrow> int" where
  "set_torch_mode name enabled =
     (let cameraId = atoi name
      in if cameraId < 0 \<or> cameraId \<ge> int (length kCameras) then - EINVAL
         else if cameraId \<noteq> 0 then - ENOSYS else 0)"

text \<open>The module's copy of the framework's callbacks is replaced when some are given.\<close>

definition set_callbacks :: "'k option \<Rightarrow> 'k \<Rightarrow> int \<times> 'k" where
  "set_callbacks callbacks gModuleCallbacks = (0, case callbacks of None \<Rightarrow> gModuleCallbacks | Some c \<Rightarrow> c)"

text \<open>
  No camera can be opened through \<open>open_legacy\<close> with a device version as the framework encodes it, major
  number times 256 plus minor number: HAL1 is refused as intended, but so is every HAL3 version, because
  the code compares with 0x30000. The ordinary \<open>open\<close> accepts the same name.
\<close>

theorem open_legacy_refuses_hal3:
  assumes "major < 256" "minor < 256"
  shows "open_legacy (Some name) (of_nat (256 * major + minor)) = (- ENOSYS, None)"
proof -
  define n where "n = 256 * major + minor"
  have n: "n < 0x30000" using assms by (simp add: n_def)
  then have "unat (of_nat n :: u32) = n" by (simp add: unat_of_nat)
  then have "\<not> (0x30000 :: u32) \<le> of_nat n" using n by (simp add: not_le word_less_nat_alt)
  then show ?thesis by (simp add: open_legacy_def n_def)
qed

theorem open_legacy_refuses_hal3_witness:
  "open_legacy (Some ''0'') 0x302 = (- ENOSYS, None) \<and> fst (hal_open (Some ''0'')) = 0"
proof -
  have "fst (hal_open (Some ''0'')) = 0"
    by (simp add: hal_open_def openCamera_def atoi_def is_blank_def is_digit_def kCameras_def)
  then show ?thesis using open_legacy_refuses_hal3 [of 3 2 "''0''"] by simp
qed

section \<open>Leaked fences\<close>

text \<open>A directory entry of \<open>/proc/self/fd\<close>: its name and what \<open>readlink\<close> answers.\<close>

type_synonym fd_entry = "string \<times> string option"

definition is_fence :: "fd_entry \<Rightarrow> bool" where
  "is_fence e =
     (take 1 (fst e) \<noteq> ''.'' \<and>
      (case snd e of None \<Rightarrow> False | Some target \<Rightarrow> take 21 target = ''anon_inode:sync_fence''))"

fun close_fences :: "nat \<Rightarrow> fd_entry list \<Rightarrow> int list" where
  "close_fences toClose [] = []"
| "close_fences toClose (e # es) =
     (if toClose = 0 then []
      else if is_fence e then atoi (fst e) # close_fences (toClose - 1) es
      else close_fences toClose es)"

text \<open>One round of the thread: the descriptors it closes, from the first and the second reading of the
  directory (\<open>None\<close> when it cannot be opened).\<close>

definition fence_cleanup :: "(fd_entry list \<times> fd_entry list) option \<Rightarrow> int list" where
  "fence_cleanup dir =
     (case dir of
        None \<Rightarrow> []
      | Some (pass1, pass2) \<Rightarrow>
          let fenceCount = length (filter is_fence pass1)
          in if fenceCount \<le> 200 then [] else close_fences (fenceCount - 200) pass2)"

lemma close_fences_eq: "close_fences n es = map (atoi \<circ> fst) (take n (filter is_fence es))"
  by (induction n es rule: close_fences.induct) (auto simp: take_Cons')

text \<open>
  One round of the fence cleanup closes fence descriptors only, the first ones of the second reading in
  directory order, and never more than the excess over 200 counted in the first. When both readings
  agree exactly the excess is closed, and at most 200 fences stay open.
\<close>

theorem fence_cleanup_closes_the_excess:
  "\<exists>n. fence_cleanup (Some (pass1, pass2)) = map (atoi \<circ> fst) (take n (filter is_fence pass2)) \<and>
     n = length (filter is_fence pass1) - 200 \<and>
     (pass2 = pass1 \<longrightarrow> length (fence_cleanup (Some (pass1, pass2))) = length (filter is_fence pass1) - 200 \<and>
        length (filter is_fence pass1) - length (fence_cleanup (Some (pass1, pass2))) \<le> 200)"
  by (auto simp: fence_cleanup_def Let_def close_fences_eq)

theorem fence_cleanup_closes_the_excess_witness:
  "fence_cleanup (Some (replicate 202 (''7'', Some ''anon_inode:sync_fence''), replicate 202 (''7'', Some ''anon_inode:sync_fence''))) = [7, 7]"
proof -
  let ?es = "replicate 202 (''7'', Some ''anon_inode:sync_fence'') :: fd_entry list"
  have f: "filter is_fence ?es = ?es" by (simp add: is_fence_def)
  have "atoi ''7'' = 7" by (simp add: atoi_def is_blank_def is_digit_def)
  then show ?thesis using fence_cleanup_closes_the_excess [of ?es ?es] unfolding f
    by (simp add: numeral_eq_Suc)
qed

section \<open>Copying a frame\<close>

text \<open>The bytes of the destination buffer afterwards, if the copy happens, or the fault it ends with; no
  operation of the device calls it.\<close>

definition copyFrameBetweenBuffers ::
    "'c hal_env \<Rightarrow> sys list \<Rightarrow> stream_buffer \<Rightarrow> stream_buffer \<Rightarrow> fault + byte list option" where
  "copyFrameBetweenBuffers E l src dst =
     (case (sb_buffer src, sb_buffer dst) of
        (Some s, Some d) \<Rightarrow>
          if \<not> e_gralloc E then Inr None
          else
            (case (sb_stream src, sb_stream dst) of
               (Some ss, Some ds) \<Rightarrow>
                 if st_format ss \<noteq> st_format ds then Inr None
                 else if st_width ss \<noteq> st_width ds \<or> st_height ss \<noteq> st_height ds then Inr None
                 else
                   (case (e_lock E s l, e_lock E d l) of
                      (Mapped from, Mapped to) \<Rightarrow>
                        let n = unat (st_width ds) * unat (st_height ds) * 4
                        in (case first_fault [shortfall n (length from), shortfall n (length to)] of
                              Some f \<Rightarrow> Inl f
                            | None \<Rightarrow> Inr (Some (write_at to 0 (take n from))))
                    | _ \<Rightarrow> Inr None)
             | _ \<Rightarrow> Inl Null_Stream)
      | _ \<Rightarrow> Inr None)"

end
