(* ===== verification/Hidl_Light.thy ===== *)
theory Hidl_Light
  imports Float32
begin

unbundle bit_operations_syntax

text \<open>
  \<open>hidl/light/Light.cpp\<close>: the light service. The sysfs nodes it writes and the pauses it makes are a log,
  newest first. The colour arithmetic follows C's \<open>float\<close> and \<open>double\<close> with the C library's \<open>pow\<close> and \<open>sqrt\<close>
  as parameters. Every operation holds the service's mutex, so it is one step.
\<close>

section \<open>Light states\<close>

datatype flash = FLASH_NONE | FLASH_TIMED | FLASH_HARDWARE

record LightState =
  ls_color :: u32
  ls_flashMode :: flash
  ls_flashOnMs :: int
  ls_flashOffMs :: int

datatype light_type = BACKLIGHT | KEYBOARD | BUTTONS | BATTERY | NOTIFICATIONS | ATTENTION | BLUETOOTH | WIFI

datatype light_node = LcdBacklight | ButtonBacklight | RedLed | GreenLed | BlueLed | LedSelectEngine | LedRunEngine

datatype light_event = Write light_node int | Sleep nat

definition rgbToBrightness :: "LightState \<Rightarrow> u32" where
  "rgbToBrightness state =
     (let color = ls_color state AND 0x00ffffff
      in drop_bit 8 (77 * (drop_bit 16 color AND 0xff) + 150 * (drop_bit 8 color AND 0xff) + 29 * (color AND 0xff)))"

definition isLit :: "LightState \<Rightarrow> bool" where
  "isLit state \<longleftrightarrow> ls_color state AND 0x00ffffff \<noteq> 0"

section \<open>The palette\<close>

record libm =
  m_pow :: "rat \<Rightarrow> rat \<Rightarrow> rat"
  m_sqrt :: "rat \<Rightarrow> rat"

type_synonym rgb = "nat \<times> nat \<times> nat"
type_synonym lab = "rat \<times> rat \<times> rat"

definition colors :: "rgb list" where
  "colors =
     [(255, 0, 0), (255, 255, 0), (0, 255, 0), (0, 255, 255), (0, 0, 255), (255, 0, 255), (255, 255, 255),
      (127, 127, 127), (0, 0, 0)]"

definition linear_channel :: "libm \<Rightarrow> nat \<Rightarrow> rat" where
  "linear_channel m C =
     (let c = f32 (of_nat C / 255)
      in if c \<le> f64 (4045 / 100000) then f32 (c / 12)
         else f32 (m_pow m (f64 (f64 (c + f64 (55 / 1000)) / f64 (1055 / 1000))) (f64 (24 / 10))))"

definition weigh :: "rat \<Rightarrow> rat \<Rightarrow> rat \<Rightarrow> rat \<times> rat \<times> rat \<Rightarrow> rat" where
  "weigh wr wg wb c = (case c of (r, g, b) \<Rightarrow> f32 (f32 (f32 (f32 wr * r) + f32 (f32 wg * g)) + f32 (f32 wb * b)))"

definition lab_channel :: "libm \<Rightarrow> rat \<Rightarrow> rat" where
  "lab_channel m x =
     (if x > f32 (216 / 24389) then f32 (m_pow m x (f64 (1 / 3)))
      else f32 (f64 (f64 (f32 (f32 (24389 / 27) * x) + 16) / 116)))"

definition rgb2lab :: "libm \<Rightarrow> rgb \<Rightarrow> lab" where
  "rgb2lab m c =
     (case c of (R, G, B) \<Rightarrow>
        let rgb = (linear_channel m R, linear_channel m G, linear_channel m B);
            X = weigh (436052025 / 1000000000) (385081593 / 1000000000) (143087414 / 1000000000) rgb;
            Y = weigh (222491598 / 1000000000) (71688606 / 100000000) (60621486 / 1000000000) rgb;
            Z = weigh (13929122 / 1000000000) (97097002 / 1000000000) (71418547 / 100000000) rgb;
            fx = lab_channel m (f32 (X / f32 (964221 / 1000000)));
            fy = lab_channel m (f32 (Y / 1));
            fz = lab_channel m (f32 (Z / f32 (825211 / 1000000)));
            Ls = f32 (f32 (116 * fy) - 16);
            as = f32 (500 * f32 (fx - fy));
            bs = f32 (200 * f32 (fy - fz))
        in (f32 (f64 (f64 (f64 (255 / 100) * Ls) + 1 / 2)), f32 (f64 (as + 1 / 2)), f32 (f64 (bs + 1 / 2))))"

definition lab_distance :: "libm \<Rightarrow> lab \<Rightarrow> lab \<Rightarrow> rat" where
  "lab_distance m p q =
     (case (p, q) of ((L, a, b), (L', a', b')) \<Rightarrow>
        m_sqrt m (f64 (f64 (m_pow m (f32 (L - L')) 2 + m_pow m (f32 (a - a')) 2) + m_pow m (f32 (b - b')) 2)))"

text \<open>The loop over the palette: the best colour so far and its distance.\<close>

fun nearest_loop :: "libm \<Rightarrow> lab \<Rightarrow> (rgb \<times> lab) list \<Rightarrow> rgb option \<times> rat \<Rightarrow> rgb option \<times> rat" where
  "nearest_loop m target [] best = best"
| "nearest_loop m target ((c, lab) # cs) best =
     (let total = lab_distance m target lab
      in nearest_loop m target cs (if total < snd best then (Some c, total) else best))"

definition nearest_color :: "libm \<Rightarrow> (rgb \<times> lab) list \<Rightarrow> rgb \<Rightarrow> rgb option" where
  "nearest_color m palette c = fst (nearest_loop m (rgb2lab m c) palette (None, 3 * 255))"

section \<open>The service\<close>

record Light =
  mLcdMax :: u32
  mButtonMax :: u32
  mAttentionState :: LightState
  mBatteryState :: LightState
  mNotificationState :: LightState
  mPalette :: "(rgb \<times> lab) list"
  l_log :: "light_event list"

text \<open>The constructor leaves the three states unset; the palette is filled in.\<close>

definition Light_new :: "libm \<Rightarrow> u32 \<Rightarrow> u32 \<Rightarrow> LightState \<Rightarrow> LightState \<Rightarrow> LightState \<Rightarrow> Light" where
  "Light_new m lcdMax buttonMax attention battery notification =
     \<lparr>mLcdMax = lcdMax, mButtonMax = buttonMax, mAttentionState = attention, mBatteryState = battery,
      mNotificationState = notification, mPalette = map (\<lambda>c. (c, rgb2lab m c)) colors, l_log = []\<rparr>"

definition write_node :: "light_node \<Rightarrow> int \<Rightarrow> Light \<Rightarrow> Light" where
  "write_node node v d = d\<lparr>l_log := Write node v # l_log d\<rparr>"

definition pause :: "nat \<Rightarrow> Light \<Rightarrow> Light" where
  "pause ms d = d\<lparr>l_log := Sleep ms # l_log d\<rparr>"

definition leds_off :: "Light \<Rightarrow> Light" where
  "leds_off d = write_node BlueLed 0 (write_node GreenLed 0 (write_node RedLed 0 (write_node LedRunEngine 0 d)))"

definition select_engine :: "nat \<Rightarrow> int \<Rightarrow> Light \<Rightarrow> Light" where
  "select_engine channel engine d = (if channel \<noteq> 0 then pause 100 (write_node LedSelectEngine engine d) else d)"

definition blinks :: "LightState \<Rightarrow> bool" where
  "blinks state =
     (let (onMs, offMs) = (case ls_flashMode state of FLASH_TIMED \<Rightarrow> (ls_flashOnMs state, ls_flashOffMs state) | _ \<Rightarrow> (0, 0))
      in onMs > 0 \<and> offMs > 0)"

definition channels :: "u32 \<Rightarrow> rgb" where
  "channels color = (unat (drop_bit 16 color AND 0xff), unat (drop_bit 8 color AND 0xff), unat (color AND 0xff))"

text \<open>\<open>None\<close> is the null dereference when no palette colour is near enough. The clamped on and off times
  are computed and never used.\<close>

definition setSpeakerLightLocked :: "libm \<Rightarrow> LightState \<Rightarrow> Light \<Rightarrow> Light option" where
  "setSpeakerLightLocked m state d =
     (let d = pause 100 (leds_off d)
      in if blinks state
         then case nearest_color m (mPalette d) (channels (ls_color state)) of
                None \<Rightarrow> None
              | Some (red, green, blue) \<Rightarrow>
                  Some (write_node LedRunEngine 1 (select_engine blue 3 (select_engine green 2 (select_engine red 1 d))))
         else case channels (ls_color state) of
                (red, green, blue) \<Rightarrow>
                  Some (write_node BlueLed (int blue) (write_node GreenLed (int green) (write_node RedLed (int red) d))))"

definition setSpeakerBatteryLightLocked :: "libm \<Rightarrow> Light \<Rightarrow> Light option" where
  "setSpeakerBatteryLightLocked m d =
     (if isLit (mNotificationState d) then setSpeakerLightLocked m (mNotificationState d) d
      else if isLit (mAttentionState d) then setSpeakerLightLocked m (mAttentionState d) d
      else if isLit (mBatteryState d) then setSpeakerLightLocked m (mBatteryState d) d
      else Some (leds_off d))"

definition setAttentionLight :: "libm \<Rightarrow> LightState \<Rightarrow> Light \<Rightarrow> Light option" where
  "setAttentionLight m state d = setSpeakerBatteryLightLocked m (d\<lparr>mAttentionState := state\<rparr>)"

definition setBatteryLight :: "libm \<Rightarrow> LightState \<Rightarrow> Light \<Rightarrow> Light option" where
  "setBatteryLight m state d = setSpeakerBatteryLightLocked m (d\<lparr>mBatteryState := state\<rparr>)"

definition setNotificationLight :: "libm \<Rightarrow> LightState \<Rightarrow> Light \<Rightarrow> Light option" where
  "setNotificationLight m state d = setSpeakerBatteryLightLocked m (d\<lparr>mNotificationState := state\<rparr>)"

definition scaled_brightness :: "u32 \<Rightarrow> LightState \<Rightarrow> u32" where
  "scaled_brightness maximum state =
     (let brightness = rgbToBrightness state
      in if maximum \<noteq> 255 then brightness * maximum div 255 else brightness)"

definition setLcdBacklight :: "LightState \<Rightarrow> Light \<Rightarrow> Light" where
  "setLcdBacklight state d = write_node LcdBacklight (uint (scaled_brightness (mLcdMax d) state)) d"

definition setButtonsBacklight :: "LightState \<Rightarrow> Light \<Rightarrow> Light" where
  "setButtonsBacklight state d = write_node ButtonBacklight (uint (scaled_brightness (mButtonMax d) state)) d"

datatype light_status = SUCCESS | LIGHT_NOT_SUPPORTED

definition setLight :: "libm \<Rightarrow> light_type \<Rightarrow> LightState \<Rightarrow> Light \<Rightarrow> (light_status \<times> Light) option" where
  "setLight m type state d =
     (case type of
        ATTENTION \<Rightarrow> map_option (Pair SUCCESS) (setAttentionLight m state d)
      | BACKLIGHT \<Rightarrow> Some (SUCCESS, setLcdBacklight state d)
      | BATTERY \<Rightarrow> map_option (Pair SUCCESS) (setBatteryLight m state d)
      | BUTTONS \<Rightarrow> Some (SUCCESS, setButtonsBacklight state d)
      | NOTIFICATIONS \<Rightarrow> map_option (Pair SUCCESS) (setNotificationLight m state d)
      | _ \<Rightarrow> Some (LIGHT_NOT_SUPPORTED, d))"

definition getSupportedTypes :: "light_type set" where
  "getSupportedTypes = {ATTENTION, BACKLIGHT, BATTERY, BUTTONS, NOTIFICATIONS}"

section \<open>The light that is shown\<close>

text \<open>The last value written to a node, and the engines selected since the engines were last stopped.\<close>

fun register :: "light_node \<Rightarrow> light_event list \<Rightarrow> int option" where
  "register n [] = None"
| "register n (Write n' v # l) = (if n = n' then Some v else register n l)"
| "register n (Sleep _ # l) = register n l"

fun engines :: "light_event list \<Rightarrow> int set" where
  "engines [] = {}"
| "engines (Write n v # l) =
     (if n = LedRunEngine \<and> v = 0 then {} else if n = LedSelectEngine then insert v (engines l) else engines l)"
| "engines (Sleep _ # l) = engines l"

definition winner :: "Light \<Rightarrow> LightState option" where
  "winner d = find isLit [mNotificationState d, mAttentionState d, mBatteryState d]"

definition rgb_written :: "light_event list \<Rightarrow> int option list" where
  "rgb_written l = map (\<lambda>n. register n l) [RedLed, GreenLed, BlueLed]"

definition shows_steady :: "nat \<Rightarrow> nat \<Rightarrow> nat \<Rightarrow> light_event list \<Rightarrow> bool" where
  "shows_steady r g b l \<longleftrightarrow> register LedRunEngine l = Some 0 \<and> rgb_written l = [Some (int r), Some (int g), Some (int b)]"

definition shows_blinking :: "rgb \<Rightarrow> light_event list \<Rightarrow> bool" where
  "shows_blinking c l \<longleftrightarrow>
     (case c of (r, g, b) \<Rightarrow> register LedRunEngine l = Some 1 \<and> rgb_written l = [Some 0, Some 0, Some 0] \<and>
        engines l = (if r \<noteq> 0 then {1} else {}) \<union> (if g \<noteq> 0 then {2} else {}) \<union> (if b \<noteq> 0 then {3} else {}))"

definition led_shows :: "libm \<Rightarrow> Light \<Rightarrow> bool" where
  "led_shows m d \<longleftrightarrow>
     (case winner d of
        None \<Rightarrow> shows_steady 0 0 0 (l_log d)
      | Some s \<Rightarrow>
          if blinks s
          then (case nearest_color m (mPalette d) (channels (ls_color s)) of
                  None \<Rightarrow> False | Some c \<Rightarrow> shows_blinking c (l_log d))
          else (case channels (ls_color s) of (r, g, b) \<Rightarrow> shows_steady r g b (l_log d)))"

lemmas light_writes = write_node_def pause_def leds_off_def select_engine_def

lemma speaker_light_shown:
  assumes "setSpeakerLightLocked m s d = Some d'"
  shows "if blinks s then \<exists>c. nearest_color m (mPalette d) (channels (ls_color s)) = Some c \<and> shows_blinking c (l_log d')
    else case channels (ls_color s) of (r, g, b) \<Rightarrow> shows_steady r g b (l_log d')"
    and "\<exists>l. d' = d\<lparr>l_log := l\<rparr>"
proof -
  obtain r g b where c: "channels (ls_color s) = (r, g, b)" by (metis prod_cases3)
  have p: "mPalette (pause 100 (leds_off d)) = mPalette d" by (simp add: light_writes)
  consider (steady) "\<not> blinks s" | r' g' b' where "blinks s" "nearest_color m (mPalette d) (channels (ls_color s)) = Some (r', g', b')"
    using assms by (cases "blinks s") (auto simp: setSpeakerLightLocked_def Let_def p split: option.splits)
  then have "(if blinks s then \<exists>c. nearest_color m (mPalette d) (channels (ls_color s)) = Some c \<and> shows_blinking c (l_log d')
      else case channels (ls_color s) of (r, g, b) \<Rightarrow> shows_steady r g b (l_log d')) \<and> (\<exists>l. d' = d\<lparr>l_log := l\<rparr>)"
  proof cases
    case steady
    then show ?thesis using assms
      by (auto simp: setSpeakerLightLocked_def Let_def c light_writes shows_steady_def rgb_written_def)
  next
    case (2 r' g' b')
    then have d': "d' = write_node LedRunEngine 1 (select_engine b' 3 (select_engine g' 2 (select_engine r' 1 (pause 100 (leds_off d)))))"
      using assms by (simp add: setSpeakerLightLocked_def Let_def p)
    show ?thesis unfolding d' using 2
      by (auto simp: light_writes shows_blinking_def rgb_written_def)
  qed
  then show "if blinks s then \<exists>c. nearest_color m (mPalette d) (channels (ls_color s)) = Some c \<and> shows_blinking c (l_log d')
    else case channels (ls_color s) of (r, g, b) \<Rightarrow> shows_steady r g b (l_log d')" "\<exists>l. d' = d\<lparr>l_log := l\<rparr>" by blast+
qed

lemma battery_light_shown:
  assumes "setSpeakerBatteryLightLocked m d = Some d'"
  shows "led_shows m d'"
proof (cases "winner d")
  case None
  then have "\<not> isLit (mNotificationState d)" "\<not> isLit (mAttentionState d)" "\<not> isLit (mBatteryState d)"
    by (auto simp: winner_def split: if_splits)
  then have "d' = leds_off d" using assms by (simp add: setSpeakerBatteryLightLocked_def)
  then show ?thesis using None by (simp add: led_shows_def winner_def light_writes shows_steady_def rgb_written_def)
next
  case (Some s)
  then have run: "setSpeakerLightLocked m s d = Some d'"
    using assms by (auto simp: setSpeakerBatteryLightLocked_def winner_def split: if_splits)
  obtain l where "d' = d\<lparr>l_log := l\<rparr>" using speaker_light_shown(2) [OF run] by blast
  then have "winner d' = Some s" "mPalette d' = mPalette d" using Some by (simp_all add: winner_def)
  then show ?thesis using speaker_light_shown(1) [OF run] by (auto simp: led_shows_def split: if_splits)
qed

text \<open>A run of calls of the service; \<open>None\<close> when one of them crashes.\<close>

fun light_calls :: "libm \<Rightarrow> (light_type \<times> LightState) list \<Rightarrow> Light \<Rightarrow> Light option" where
  "light_calls m [] d = Some d"
| "light_calls m ((type, state) # calls) d =
     (case setLight m type state d of None \<Rightarrow> None | Some (status, d) \<Rightarrow> light_calls m calls d)"

lemma backlight_write_unseen:
  assumes "n \<in> {LcdBacklight, ButtonBacklight}"
  shows "shows_steady r g b (Write n v # l) = shows_steady r g b l" "shows_blinking c (Write n v # l) = shows_blinking c l"
proof -
  have reg: "register k (Write n v # l) = register k l" if "k \<in> {LedRunEngine, RedLed, GreenLed, BlueLed}" for k
    using that assms by auto
  have eng: "engines (Write n v # l) = engines l" using assms by auto
  show "shows_steady r g b (Write n v # l) = shows_steady r g b l" "shows_blinking c (Write n v # l) = shows_blinking c l"
    unfolding shows_steady_def shows_blinking_def rgb_written_def eng by (simp_all add: reg del: register.simps engines.simps)
qed

lemma led_shows_backlight:
  assumes "n \<in> {LcdBacklight, ButtonBacklight}"
  shows "led_shows m (write_node n v d) = led_shows m d"
proof -
  have "winner (write_node n v d) = winner d" "mPalette (write_node n v d) = mPalette d"
    "l_log (write_node n v d) = Write n v # l_log d"
    by (simp_all add: winner_def write_node_def)
  then show ?thesis unfolding led_shows_def by (simp only: backlight_write_unseen [OF assms])
qed

lemma setLight_shown:
  assumes "setLight m type state d = Some (status, d')" "type \<in> {ATTENTION, BATTERY, NOTIFICATIONS} \<or> led_shows m d"
  shows "led_shows m d'"
proof (cases "type \<in> {ATTENTION, BATTERY, NOTIFICATIONS}")
  case True
  then show ?thesis using assms(1) battery_light_shown
    by (auto simp: setLight_def setAttentionLight_def setBatteryLight_def setNotificationLight_def)
next
  case False
  then have "led_shows m d" using assms(2) by blast
  moreover have "d' = d \<or> (\<exists>n v. n \<in> {LcdBacklight, ButtonBacklight} \<and> d' = write_node n v d)"
    using assms(1) False by (cases type) (auto simp: setLight_def setLcdBacklight_def setButtonsBacklight_def)
  ultimately show ?thesis using led_shows_backlight by metis
qed

text \<open>
  C22. Who owns the LED: once an attention, battery or notification light has been set, then after any further
  calls the LED shows the notification light if that is lit, otherwise the attention light, otherwise the
  battery light, otherwise nothing. A steady light has the engines stopped and the three channels at the
  components of its colour; a blinking one has the channels at zero and the engines running that belong
  to the non-zero components of the nearest palette colour. Backlight calls never disturb it.
\<close>

theorem leds_show_the_winner:
  assumes "setLight m type state d0 = Some (status, d1)" "type \<in> {ATTENTION, BATTERY, NOTIFICATIONS}"
    and "light_calls m calls d1 = Some d"
  shows "led_shows m d"
proof -
  have "led_shows m d1" using setLight_shown assms(1,2) by blast
  then show ?thesis using assms(3)
  proof (induction calls arbitrary: d1)
    case (Cons call calls)
    obtain ty st where call: "call = (ty, st)" by fastforce
    then obtain status d2 where "setLight m ty st d1 = Some (status, d2)" "light_calls m calls d2 = Some d"
      using Cons.prems(2) by (auto split: option.splits)
    then show ?case using Cons.IH setLight_shown Cons.prems(1) by blast
  qed simp
qed

text \<open>A red notification over a white battery light, then a backlight call.\<close>

definition unlit :: LightState where
  "unlit = \<lparr>ls_color = 0, ls_flashMode = FLASH_NONE, ls_flashOnMs = 0, ls_flashOffMs = 0\<rparr>"

definition red_light :: LightState where
  "red_light = \<lparr>ls_color = 0xFF0000, ls_flashMode = FLASH_NONE, ls_flashOnMs = 0, ls_flashOffMs = 0\<rparr>"

definition light_example :: Light where
  "light_example =
     Light_new \<lparr>m_pow = \<lambda>x y. x, m_sqrt = \<lambda>x. x\<rparr> 255 255 unlit (unlit\<lparr>ls_color := 0xFFFFFF\<rparr>) unlit"

theorem leds_show_the_winner_witness:
  "\<exists>d1 d. setLight \<lparr>m_pow = \<lambda>x y. x, m_sqrt = \<lambda>x. x\<rparr> NOTIFICATIONS red_light light_example = Some (SUCCESS, d1) \<and>
     light_calls \<lparr>m_pow = \<lambda>x y. x, m_sqrt = \<lambda>x. x\<rparr> [(BACKLIGHT, unlit)] d1 = Some d \<and>
     led_shows \<lparr>m_pow = \<lambda>x y. x, m_sqrt = \<lambda>x. x\<rparr> d \<and> winner d = Some red_light"
proof -
  define m :: libm where "m = \<lparr>m_pow = \<lambda>x y. x, m_sqrt = \<lambda>x. x\<rparr>"
  obtain d1 where d1: "setNotificationLight m red_light light_example = Some d1" "mNotificationState d1 = red_light"
    by (simp add: setNotificationLight_def setSpeakerBatteryLightLocked_def isLit_def red_light_def
        setSpeakerLightLocked_def Let_def blinks_def channels_def light_writes)
  then have set: "setLight m NOTIFICATIONS red_light light_example = Some (SUCCESS, d1)" by (simp add: setLight_def)
  have calls: "light_calls m [(BACKLIGHT, unlit)] d1 = Some (setLcdBacklight unlit d1)" by (simp add: setLight_def)
  have "winner (setLcdBacklight unlit d1) = Some red_light"
    using d1(2) by (simp add: winner_def setLcdBacklight_def write_node_def isLit_def red_light_def)
  then show ?thesis using set calls leds_show_the_winner [OF set _ calls] unfolding m_def by blast
qed

section \<open>Backlights\<close>

lemma byte_of_word: "unat (w AND 0xff :: u32) \<le> 255"
proof -
  have "w AND 0xff \<le> (0xff :: u32)" by (rule word_and_le1)
  then show ?thesis by (simp add: word_le_nat_alt)
qed

lemma unat_rgbToBrightness:
  "unat (rgbToBrightness s) =
     (77 * unat (drop_bit 16 (ls_color s AND 0xffffff) AND 0xff) + 150 * unat (drop_bit 8 (ls_color s AND 0xffffff) AND 0xff)
        + 29 * unat ((ls_color s AND 0xffffff) AND 0xff)) div 256"
proof -
  define r g b where "r = drop_bit 16 (ls_color s AND 0xffffff) AND 0xff" and "g = drop_bit 8 (ls_color s AND 0xffffff) AND 0xff"
    and "b = (ls_color s AND 0xffffff) AND 0xff"
  have "unat r \<le> 255" "unat g \<le> 255" "unat b \<le> 255" unfolding r_def g_def b_def by (rule byte_of_word)+
  then have "unat (77 * r + 150 * g + 29 * b) = 77 * unat r + 150 * unat g + 29 * unat b"
    by (simp add: unat_word_ariths)
  moreover have "rgbToBrightness s = drop_bit 8 (77 * r + 150 * g + 29 * b)"
    by (simp only: rgbToBrightness_def Let_def r_def g_def b_def)
  ultimately have "unat (rgbToBrightness s) = (77 * unat r + 150 * unat g + 29 * unat b) div 256"
    by (simp add: drop_bit_eq_div unat_div)
  then show ?thesis by (simp only: r_def g_def b_def)
qed

lemma rgbToBrightness_le: "unat (rgbToBrightness s) \<le> 255"
  unfolding unat_rgbToBrightness
  using byte_of_word [of "drop_bit 16 (ls_color s AND 0xffffff)"] byte_of_word [of "drop_bit 8 (ls_color s AND 0xffffff)"]
    byte_of_word [of "ls_color s AND 0xffffff"]
  by linarith

lemma scaled_brightness_range:
  assumes "unat maximum * 255 < 2 ^ 32"
  shows "unat (scaled_brightness maximum s) = unat (rgbToBrightness s) * unat maximum div 255"
    and "unat (scaled_brightness maximum s) \<le> unat maximum"
    and "ls_color s AND 0xffffff = 0xffffff \<Longrightarrow> scaled_brightness maximum s = maximum"
    and "ls_color s AND 0xffffff = 0 \<Longrightarrow> scaled_brightness maximum s = 0"
proof -
  define b where "b = unat (rgbToBrightness s)"
  have b: "b \<le> 255" by (simp add: b_def rgbToBrightness_le)
  have "b * unat maximum \<le> 255 * unat maximum" using b by (rule mult_right_mono) simp
  also have "\<dots> < 2 ^ 32" using assms by (simp add: mult.commute)
  finally have "b * unat maximum < 2 ^ 32" .
  then have "unat (rgbToBrightness s * maximum) = b * unat maximum" by (simp add: unat_word_ariths b_def)
  then show v: "unat (scaled_brightness maximum s) = unat (rgbToBrightness s) * unat maximum div 255"
    by (auto simp: scaled_brightness_def Let_def unat_div b_def)
  show "unat (scaled_brightness maximum s) \<le> unat maximum"
    unfolding v using div_le_mono [OF \<open>b * unat maximum \<le> 255 * unat maximum\<close>, of 255] by (simp add: b_def)
  show "scaled_brightness maximum s = maximum" if "ls_color s AND 0xffffff = 0xffffff"
  proof -
    have "unat (rgbToBrightness s) = 255" using that by (simp add: unat_rgbToBrightness)
    then show ?thesis using v by (simp add: word_unat_eq_iff)
  qed
  show "scaled_brightness maximum s = 0" if "ls_color s AND 0xffffff = 0"
  proof -
    have "unat (rgbToBrightness s) = 0" using that by (simp add: unat_rgbToBrightness)
    then show ?thesis using v by (simp add: unat_eq_0)
  qed
qed

text \<open>
  The backlight stays in the panel's range: for a maximum whose product with 255 fits 32 bits the value
  written is the luminance scaled by it, rounded down, never more than the maximum; white gives the
  maximum itself and black gives 0.
\<close>

theorem backlight_in_range:
  assumes "unat maximum * 255 < 2 ^ 32"
  shows "unat (scaled_brightness maximum s) = unat (rgbToBrightness s) * unat maximum div 255 \<and>
    unat (scaled_brightness maximum s) \<le> unat maximum \<and>
    (ls_color s AND 0xffffff = 0xffffff \<longrightarrow> scaled_brightness maximum s = maximum) \<and>
    (ls_color s AND 0xffffff = 0 \<longrightarrow> scaled_brightness maximum s = 0)"
  using scaled_brightness_range [OF assms] by blast

theorem backlight_in_range_witness:
  "unat (0x3FF :: u32) * 255 < 2 ^ 32 \<and>
   scaled_brightness 0x3FF \<lparr>ls_color = 0xFFFFFFFF, ls_flashMode = FLASH_NONE, ls_flashOnMs = 0, ls_flashOffMs = 0\<rparr> = 0x3FF"
  using backlight_in_range [of "0x3FF"
      "\<lparr>ls_color = 0xFFFFFFFF, ls_flashMode = FLASH_NONE, ls_flashOnMs = 0, ls_flashOffMs = 0\<rparr>"] by simp

end
