(* ===== verification/Hidl_Services.thy ===== *)
theory Hidl_Services
  imports Float32 C_Strings
begin

text \<open>
  The small services over one sysfs node each: \<open>hidl/vibrator/Vibrator.cpp\<close>, \<open>hidl/power/Power.cpp\<close> and
  \<open>touch/KeyDisabler.cpp\<close>. A node is what was last written to it; whether a write succeeds is a parameter of
  each call, because the kernel decides it.
\<close>

section \<open>The vibrator\<close>

datatype vib_status = VIB_OK | UNKNOWN_ERROR | BAD_VALUE | UNSUPPORTED_OPERATION

datatype effect = CLICK | OTHER_EFFECT nat

datatype effect_strength = LIGHT | MEDIUM | STRONG

text \<open>An \<open>ofstream\<close> whose write failed stays failed: every later insertion is dropped.\<close>

record ofs =
  ofs_text :: string
  ofs_good :: bool

definition insert_line :: "bool \<Rightarrow> string \<Rightarrow> ofs \<Rightarrow> ofs" where
  "insert_line ok text f =
     (if \<not> ofs_good f then f else if ok then f\<lparr>ofs_text := text @ [CHR 0x0A]\<rparr> else f\<lparr>ofs_good := False\<rparr>)"

record Vibrator =
  mEnable :: ofs
  mAmplitude :: ofs

definition MAX_INTENSITY :: int where
  "MAX_INTENSITY = 127"

definition MIN_INTENSITY :: int where
  "MIN_INTENSITY = 1"

definition CLICK_TIMING_MS :: u32 where
  "CLICK_TIMING_MS = 20"

text \<open>\<open>std::lround\<close>: to the nearest integer, halves away from zero.\<close>

definition lround :: "rat \<Rightarrow> int" where
  "lround x = (if x < 0 then - \<lfloor>- x + 1 / 2\<rfloor> else \<lfloor>x + 1 / 2\<rfloor>)"

definition on_vib :: "bool \<Rightarrow> u32 \<Rightarrow> Vibrator \<Rightarrow> vib_status \<times> Vibrator" where
  "on_vib ok timeout_ms v =
     (let f = insert_line ok (to_string (uint timeout_ms)) (mEnable v); v = v\<lparr>mEnable := f\<rparr>
      in if \<not> ofs_good f then (UNKNOWN_ERROR, v) else (VIB_OK, v))"

definition off_vib :: "bool \<Rightarrow> Vibrator \<Rightarrow> vib_status \<times> Vibrator" where
  "off_vib ok v =
     (let f = insert_line ok (to_string 0) (mEnable v); v = v\<lparr>mEnable := f\<rparr>
      in if \<not> ofs_good f then (UNKNOWN_ERROR, v) else (VIB_OK, v))"

definition supportsAmplitudeControl :: bool where
  "supportsAmplitudeControl = True"

definition intensity :: "nat \<Rightarrow> int" where
  "intensity amplitude =
     lround (f64 (f64 (f64 (of_int (int amplitude - 1) / 254) * of_int (MAX_INTENSITY - MIN_INTENSITY)) + of_int MIN_INTENSITY))"

definition setAmplitude :: "bool \<Rightarrow> byte \<Rightarrow> Vibrator \<Rightarrow> vib_status \<times> Vibrator" where
  "setAmplitude ok amplitude v =
     (if amplitude = 0 then (BAD_VALUE, v)
      else let f = insert_line ok (to_string (intensity (unat amplitude))) (mAmplitude v); v = v\<lparr>mAmplitude := f\<rparr>
           in if \<not> ofs_good f then (UNKNOWN_ERROR, v) else (VIB_OK, v))"

text \<open>The strength is ignored, and so is the status of turning the vibrator on.\<close>

definition perform :: "bool \<Rightarrow> effect \<Rightarrow> effect_strength \<Rightarrow> Vibrator \<Rightarrow> (vib_status \<times> u32) \<times> Vibrator" where
  "perform ok effect strength v =
     (if effect = CLICK then ((VIB_OK, CLICK_TIMING_MS), snd (on_vib ok CLICK_TIMING_MS v))
      else ((UNSUPPORTED_OPERATION, 0), v))"

section \<open>Power\<close>

datatype power_feature = POWER_FEATURE_DOUBLE_TAP_TO_WAKE | OTHER_POWER_FEATURE nat

datatype lineage_feature = SUPPORTED_PROFILES | OTHER_FEATURE nat

text \<open>The property store and the touch panel's node.\<close>

record power_env =
  pe_profile :: "string option"
  pe_tap_to_wake :: string

definition POWER_HINT_SET_PROFILE :: u32 where
  "POWER_HINT_SET_PROFILE = 0x111"

definition PROFILE_MAX :: int where
  "PROFILE_MAX = 4"

definition sysfs_write :: "bool \<Rightarrow> string \<Rightarrow> power_env \<Rightarrow> power_env" where
  "sysfs_write ok text e = (if ok then e\<lparr>pe_tap_to_wake := text\<rparr> else e)"

definition setInteractive :: "bool \<Rightarrow> power_env \<Rightarrow> power_env" where
  "setInteractive interactive e = e"

definition powerHint :: "bool \<Rightarrow> u32 \<Rightarrow> 32 word \<Rightarrow> power_env \<Rightarrow> power_env" where
  "powerHint ok hint data e =
     (if hint = POWER_HINT_SET_PROFILE \<and> ok then e\<lparr>pe_profile := Some (to_string (sint data))\<rparr> else e)"

definition setFeature :: "bool \<Rightarrow> power_feature \<Rightarrow> bool \<Rightarrow> power_env \<Rightarrow> power_env" where
  "setFeature ok feature activate e =
     (case feature of POWER_FEATURE_DOUBLE_TAP_TO_WAKE \<Rightarrow> sysfs_write ok (to_string (if activate then 1 else 0)) e
        | OTHER_POWER_FEATURE _ \<Rightarrow> e)"

definition getFeature :: "lineage_feature \<Rightarrow> int" where
  "getFeature feature = (if feature = SUPPORTED_PROFILES then PROFILE_MAX else - 1)"

section \<open>The key disabler\<close>

record KeyDisabler =
  mHasKeyDisabler :: bool
  kd_keys_off :: string

text \<open>\<open>None\<close> is the exception of \<open>std::stoi\<close> on a node that holds no number.\<close>

definition isEnabled :: "bool \<Rightarrow> KeyDisabler \<Rightarrow> bool option" where
  "isEnabled readable k =
     (if \<not> mHasKeyDisabler k then Some False
      else if \<not> readable then Some False
      else map_option (\<lambda>v. v = 0) (stoi (trim (kd_keys_off k))))"

definition setEnabled :: "bool \<Rightarrow> bool \<Rightarrow> KeyDisabler \<Rightarrow> bool \<times> KeyDisabler" where
  "setEnabled writable enabled k =
     (if \<not> mHasKeyDisabler k then (False, k)
      else if \<not> writable then (False, k)
      else (True, k\<lparr>kd_keys_off := (if enabled then ''1'' else ''0'')\<rparr>))"

section \<open>Amplitudes\<close>

lemma f64_between:
  "of_int a \<le> x \<Longrightarrow> x \<le> of_int b \<Longrightarrow> \<bar>a\<bar> < 2 ^ 53 \<Longrightarrow> \<bar>b\<bar> < 2 ^ 53 \<Longrightarrow> of_int a \<le> f64 x \<and> f64 x \<le> of_int b"
  using f64_mono [of "of_int a" x] f64_mono [of x "of_int b"] f64_int [of a] f64_int [of b] by simp

lemma fround_near: "\<bar>fround p emin x - x\<bar> \<le> 2 powi ulp_exp p emin x / 2"
proof (cases "x = 0")
  case False
  define u :: rat where "u = 2 powi ulp_exp p emin x"
  have u: "0 < u" by (simp add: u_def)
  have "fround p emin x - x = (of_int (round_half_even (x / u)) - x / u) * u"
    using False u by (simp add: fround_def u_def left_diff_distrib)
  then have "\<bar>fround p emin x - x\<bar> = \<bar>of_int (round_half_even (x / u)) - x / u\<bar> * u"
    using u by (simp add: abs_mult)
  also have "\<dots> \<le> 1 / 2 * u" using round_half_even_near [of "x / u"] u by (intro mult_right_mono) auto
  finally show ?thesis by (simp add: u_def)
qed simp

lemma f64_near:
  assumes "\<bar>x\<bar> < 2 ^ 7"
  shows "\<bar>f64 x - x\<bar> \<le> 1 / 2 ^ 46"
proof (cases "x = 0")
  case False
  then have "2 powi ilog2 \<bar>x\<bar> \<le> \<bar>x\<bar>" by (intro ilog2_bounds) simp
  also have "\<dots> < 2 powi 7" using assms by (simp add: power_int_def)
  finally have "ilog2 \<bar>x\<bar> < 7" using powi_2_mono [of 7 "ilog2 \<bar>x\<bar>"] by linarith
  then have "ulp_exp 52 (- 1074) x \<le> - 45" by (simp add: ulp_exp_def)
  then have "(2 :: rat) powi ulp_exp 52 (- 1074) x \<le> 2 powi (- 45)" by (rule powi_2_mono)
  also have "\<dots> = 1 / 2 ^ 45" by (simp add: power_int_def power_one_over)
  finally show ?thesis using fround_near [of 52 "- 1074" x] by (simp add: f64_def)
qed (simp add: f64_def)

text \<open>The exact scale, rounded to the nearest integer: there is never a tie.\<close>

definition exact_intensity :: "nat \<Rightarrow> int" where
  "exact_intensity amplitude = 1 + (126 * (int amplitude - 1) + 127) div 254"

lemma intensity_exact:
  assumes "1 \<le> a" "a \<le> 255"
  shows "intensity a = exact_intensity a"
proof -
  define n where "n = int a - 1"
  have n: "0 \<le> n" "n \<le> 254" using assms by (auto simp: n_def)
  define x y z :: rat where "x = f64 (of_int n / 254)" and "y = f64 (x * 126)" and "z = f64 (y + 1)"
  have near: "\<bar>x - of_int n / 254\<bar> \<le> 1 / 2 ^ 46" unfolding x_def using n by (intro f64_near) (simp add: abs_less_iff)
  have "0 \<le> x" "x \<le> 1" unfolding x_def using f64_between [of 0 "of_int n / 254" 1] n by auto
  then have "\<bar>y - x * 126\<bar> \<le> 1 / 2 ^ 46" unfolding y_def by (intro f64_near) (simp add: abs_less_iff)
  then have 1: "\<bar>y - of_int n * 126 / 254\<bar> \<le> 127 / 2 ^ 46" using near by linarith
  have "0 \<le> y" "y \<le> 126" unfolding y_def using f64_between [of 0 "x * 126" 126] \<open>0 \<le> x\<close> \<open>x \<le> 1\<close> by auto
  then have "\<bar>y + 1\<bar> < 2 ^ 7" by (simp add: abs_less_iff)
  then have 2: "\<bar>z - (y + 1)\<bar> \<le> 1 / 2 ^ 46" unfolding z_def by (rule f64_near)
  define k r where "k = (126 * n + 127) div 254" and "r = (126 * n + 127) mod 254"
  have kr: "126 * n + 127 = 254 * k + r" "0 \<le> r" "r < 254" by (auto simp: k_def r_def)
  have "odd r" using kr(1) by presburger
  then have "1 \<le> r" using kr(2) by (cases "r = 0") auto
  have "of_int (126 * n + 127) = (of_int (254 * k + r) :: rat)" using kr(1) by simp
  then have e: "of_int n * 126 / 254 + 1 / 2 = of_int k + (of_int r :: rat) / 254" by (simp add: field_simps)
  have "(1 :: rat) \<le> of_int r" "of_int r \<le> (253 :: rat)" using \<open>1 \<le> r\<close> kr(3) by (simp_all flip: of_int_le_iff)
  then have "of_int k + 1 / 254 \<le> (of_int n * 126 / 254 + 1 / 2 :: rat)" "(of_int n * 126 / 254 + 1 / 2 :: rat) \<le> of_int k + 253 / 254"
    unfolding e by simp_all
  moreover have "(127 / 2 ^ 46 :: rat) \<le> 1 / 1024" "(1 / 2 ^ 46 :: rat) \<le> 1 / 1024" by simp_all
  ultimately have "of_int k + 1 \<le> z + 1 / 2" "z + 1 / 2 < of_int k + 1 + 1" "0 \<le> z"
    using 1 2 \<open>0 \<le> y\<close> unfolding abs_le_iff by linarith+
  then have "of_int (k + 1) \<le> z + 1 / 2" "z + 1 / 2 < of_int (k + 1) + 1" by simp_all
  then have "\<lfloor>z + 1 / 2\<rfloor> = k + 1" by (intro floor_unique)
  moreover have "intensity a = lround z"
    by (simp add: intensity_def MAX_INTENSITY_def MIN_INTENSITY_def z_def y_def x_def n_def)
  ultimately show ?thesis using \<open>0 \<le> z\<close> by (simp add: lround_def exact_intensity_def k_def n_def)
qed

lemma exact_intensity_mono: "a \<le> b \<Longrightarrow> exact_intensity a \<le> exact_intensity b"
  by (auto simp: exact_intensity_def intro: zdiv_mono1)

lemma setAmplitude_cases:
  assumes "ofs_good (mAmplitude v)"
  shows "setAmplitude ok 0 v = (BAD_VALUE, v)"
    and "a \<noteq> 0 \<Longrightarrow> setAmplitude True a v =
      (VIB_OK, v\<lparr>mAmplitude := (mAmplitude v)\<lparr>ofs_text := to_string (exact_intensity (unat a)) @ [CHR 0x0A]\<rparr>\<rparr>)"
    and "a \<noteq> 0 \<Longrightarrow> fst (setAmplitude False a v) = UNKNOWN_ERROR \<and> ofs_text (mAmplitude (snd (setAmplitude False a v))) = ofs_text (mAmplitude v)"
    and "exact_intensity 1 = MIN_INTENSITY" and "exact_intensity 255 = MAX_INTENSITY"
    and "a \<le> b \<Longrightarrow> exact_intensity (unat a) \<le> exact_intensity (unat b)"
proof -
  have exact: "intensity (unat a) = exact_intensity (unat a)" if "a \<noteq> 0" for a :: byte
  proof (rule intensity_exact)
    show "1 \<le> unat a" using that by (simp add: Suc_le_eq unat_gt_0)
    show "unat a \<le> 255" using unsigned_less [of a, where ?'a = nat] by simp
  qed
  show "setAmplitude ok 0 v = (BAD_VALUE, v)" by (simp add: setAmplitude_def)
  show "setAmplitude True a v =
      (VIB_OK, v\<lparr>mAmplitude := (mAmplitude v)\<lparr>ofs_text := to_string (exact_intensity (unat a)) @ [CHR 0x0A]\<rparr>\<rparr>)" if "a \<noteq> 0"
    using that assms by (simp add: setAmplitude_def insert_line_def Let_def exact)
  show "fst (setAmplitude False a v) = UNKNOWN_ERROR \<and> ofs_text (mAmplitude (snd (setAmplitude False a v))) = ofs_text (mAmplitude v)"
    if "a \<noteq> 0" using that assms by (simp add: setAmplitude_def insert_line_def Let_def)
  show "exact_intensity 1 = MIN_INTENSITY" "exact_intensity 255 = MAX_INTENSITY"
    by (simp_all add: exact_intensity_def MIN_INTENSITY_def MAX_INTENSITY_def)
  show "exact_intensity (unat a) \<le> exact_intensity (unat b)" if "a \<le> b"
    using that by (intro exact_intensity_mono) (simp add: word_le_nat_alt)
qed

text \<open>
  Vibration amplitude: amplitude 0 is refused with \<open>BAD_VALUE\<close> and nothing is written; any other amplitude
  is accepted by a healthy node and writes the exact linear scale from 1 to 127 rounded to the nearest
  integer, despite the floating point in between: 1 gives 1, 255 gives 127, and a larger amplitude never
  gives a smaller intensity.
\<close>

theorem amplitude_scale:
  assumes "ofs_good (mAmplitude v)"
  shows "setAmplitude ok 0 v = (BAD_VALUE, v) \<and>
    (a \<noteq> 0 \<longrightarrow> setAmplitude True a v =
      (VIB_OK, v\<lparr>mAmplitude := (mAmplitude v)\<lparr>ofs_text := to_string (exact_intensity (unat a)) @ [CHR 0x0A]\<rparr>\<rparr>)) \<and>
    (a \<noteq> 0 \<longrightarrow> fst (setAmplitude False a v) = UNKNOWN_ERROR \<and>
      ofs_text (mAmplitude (snd (setAmplitude False a v))) = ofs_text (mAmplitude v)) \<and>
    exact_intensity 1 = MIN_INTENSITY \<and> exact_intensity 255 = MAX_INTENSITY \<and>
    (a \<le> b \<longrightarrow> exact_intensity (unat a) \<le> exact_intensity (unat b))"
  by (intro conjI impI setAmplitude_cases [OF assms])

theorem amplitude_scale_witness:
  "setAmplitude True 128 \<lparr>mEnable = \<lparr>ofs_text = [], ofs_good = True\<rparr>, mAmplitude = \<lparr>ofs_text = [], ofs_good = True\<rparr>\<rparr> =
     (VIB_OK, \<lparr>mEnable = \<lparr>ofs_text = [], ofs_good = True\<rparr>, mAmplitude = \<lparr>ofs_text = to_string 64 @ [CHR 0x0A], ofs_good = True\<rparr>\<rparr>)"
  using amplitude_scale [of "\<lparr>mEnable = \<lparr>ofs_text = [], ofs_good = True\<rparr>, mAmplitude = \<lparr>ofs_text = [], ofs_good = True\<rparr>\<rparr>" True 128 255]
  by (simp add: exact_intensity_def)

section \<open>Keys\<close>

text \<open>
  The key disabler contradicts itself: where the node exists and can be read and written,
  \<open>setEnabled enabled\<close> succeeds and \<open>isEnabled\<close> then answers \<open>\<not> enabled\<close>.
\<close>

theorem key_disabler_inverted:
  assumes "mHasKeyDisabler k"
  shows "fst (setEnabled True enabled k) \<and> isEnabled True (snd (setEnabled True enabled k)) = Some (\<not> enabled)"
  using assms
  by (auto simp: setEnabled_def isEnabled_def trim_def stoi_def atoi_def is_blank_def is_digit_def Let_def)

theorem key_disabler_inverted_witness:
  "isEnabled True (snd (setEnabled True True \<lparr>mHasKeyDisabler = True, kd_keys_off = ''0''\<rparr>)) = Some False"
  using key_disabler_inverted [of "\<lparr>mHasKeyDisabler = True, kd_keys_off = ''0''\<rparr>" True] by simp

text \<open>Power profiles round trip through the property.\<close>

lemma power_profile_roundtrip:
  "map_option atoi (pe_profile (powerHint True POWER_HINT_SET_PROFILE data e)) = Some (sint data)"
  by (simp add: powerHint_def atoi_to_string)

end
