(* ===== verification/Mixer.thy ===== *)
theory Mixer
  imports Mocha_Prelude
begin

text \<open>
  \<open>tinyalsa/src/mixer.c\<close>: the mixer controls of a sound card. The kernel is a parameter: every request it
  receives goes into a log, newest first, and its answers are arbitrary functions of that log. A control
  pointer is an index into the controls of the mixer, \<open>None\<close> the null pointer. Memory is never exhausted,
  and the integer ranges of a control fit the \<open>int\<close> they are returned as.
\<close>

section \<open>The control device of a card\<close>

datatype elem_type = ELEM_NONE | ELEM_BOOLEAN | ELEM_INTEGER | ELEM_ENUMERATED | ELEM_BYTES | ELEM_IEC958 | ELEM_INTEGER64

record elem_info =
  ei_numid :: nat
  ei_name :: string
  ei_type :: elem_type
  ei_count :: nat
  ei_min :: int
  ei_max :: int
  ei_items :: nat
  ei_tlv_rw :: bool

datatype snd_req =
    SndOpen nat
  | SndClose int
  | CardInfo int
  | ElemCount int
  | ElemList int nat nat
  | ElemInfo int nat
  | EnumName int nat nat
  | ElemRead int nat
  | ElemWrite int nat "int list"
  | TlvRead int nat nat
  | TlvWrite int nat "int list"
  | SubscribeEvents int int
  | PollCtl int int
  | InfoByValue int

record alsa =
  ak_ret :: "snd_req list \<Rightarrow> int"
  ak_count :: "snd_req list \<Rightarrow> nat"
  ak_numid :: "snd_req list \<Rightarrow> nat \<Rightarrow> nat"
  ak_info :: "snd_req list \<Rightarrow> elem_info"
  ak_name :: "snd_req list \<Rightarrow> string"
  ak_value :: "snd_req list \<Rightarrow> nat \<Rightarrow> int"
  ak_tlv_header_size :: nat

record mixer_ctl =
  mc_info :: elem_info
  mc_ename :: "string list option"

record mixer =
  mx_fd :: int
  mx_ctl :: "mixer_ctl list"
  mx_log :: "snd_req list"

datatype mixer_ctl_type =
    MIXER_CTL_TYPE_BOOL
  | MIXER_CTL_TYPE_INT
  | MIXER_CTL_TYPE_ENUM
  | MIXER_CTL_TYPE_BYTE
  | MIXER_CTL_TYPE_IEC958
  | MIXER_CTL_TYPE_INT64
  | MIXER_CTL_TYPE_UNKNOWN

definition UINT_MAX :: nat where
  "UINT_MAX = 4294967295"

definition ask :: "snd_req \<Rightarrow> mixer \<Rightarrow> mixer" where
  "ask r m = m\<lparr>mx_log := r # mx_log m\<rparr>"

section \<open>Opening\<close>

text \<open>The loop that asks for the description of each new control; it keeps what it got when one fails.\<close>

fun fetch_infos :: "alsa \<Rightarrow> (nat \<Rightarrow> nat) \<Rightarrow> nat list \<Rightarrow> mixer \<Rightarrow> int \<times> mixer" where
  "fetch_infos K numid [] m = (0, m)"
| "fetch_infos K numid (n # ns) m =
     (let m = ask (ElemInfo (mx_fd m) (numid n)) m
      in if ak_ret K (mx_log m) < 0 then (- 1, m)
         else fetch_infos K numid ns (m\<lparr>mx_ctl := mx_ctl m @ [\<lparr>mc_info = ak_info K (mx_log m), mc_ename = None\<rparr>]\<rparr>))"

definition add_controls :: "alsa \<Rightarrow> mixer \<Rightarrow> int \<times> mixer" where
  "add_controls K m =
     (let old_count = length (mx_ctl m); m = ask (ElemCount (mx_fd m)) m
      in if ak_ret K (mx_log m) < 0 then (- 1, m)
         else let new_count = ak_count K (mx_log m)
           in if old_count = new_count then (0, m)
              else if old_count > new_count then (- 1, m)
              else let m = ask (ElemList (mx_fd m) old_count (new_count - old_count)) m
                in if ak_ret K (mx_log m) < 0 then (- 1, m)
                   else fetch_infos K (ak_numid K (mx_log m)) [0..<new_count - old_count] m)"

definition mixer_close :: "mixer \<Rightarrow> snd_req list" where
  "mixer_close m = (if mx_fd m \<ge> 0 then SndClose (mx_fd m) # mx_log m else mx_log m)"

text \<open>Until the card information has been read the descriptor of the new mixer is the 0 of \<open>calloc\<close>.\<close>

definition mixer_open :: "alsa \<Rightarrow> nat \<Rightarrow> snd_req list \<Rightarrow> mixer option \<times> snd_req list" where
  "mixer_open K card_no l =
     (let l = SndOpen card_no # l; fd = ak_ret K l
      in if fd < 0 then (None, l)
         else let m = \<lparr>mx_fd = 0, mx_ctl = [], mx_log = CardInfo fd # l\<rparr>
           in if ak_ret K (mx_log m) < 0 then (None, mixer_close m)
              else let (r, m) = add_controls K (m\<lparr>mx_fd := fd\<rparr>)
                in if r \<noteq> 0 then (None, mixer_close m) else (Some m, mx_log m))"

definition mixer_add_new_ctls :: "alsa \<Rightarrow> mixer option \<Rightarrow> int \<times> mixer option" where
  "mixer_add_new_ctls K mx = (case mx of None \<Rightarrow> (0, None) | Some m \<Rightarrow> map_prod (\<lambda>r. r) Some (add_controls K m))"

section \<open>Finding controls\<close>

definition mixer_get_num_ctls :: "mixer option \<Rightarrow> nat" where
  "mixer_get_num_ctls mx = (case mx of None \<Rightarrow> 0 | Some m \<Rightarrow> length (mx_ctl m))"

definition ctl_name :: "mixer_ctl \<Rightarrow> string" where
  "ctl_name c = ei_name (mc_info c)"

definition mixer_get_num_ctls_by_name :: "mixer option \<Rightarrow> string \<Rightarrow> nat" where
  "mixer_get_num_ctls_by_name mx name =
     (case mx of None \<Rightarrow> 0 | Some m \<Rightarrow> length (filter (\<lambda>c. name = ctl_name c) (mx_ctl m)))"

definition mixer_get_ctl :: "mixer option \<Rightarrow> nat \<Rightarrow> nat option" where
  "mixer_get_ctl mx i =
     (case mx of None \<Rightarrow> None | Some m \<Rightarrow> if i < length (mx_ctl m) then Some i else None)"

fun nth_named :: "mixer_ctl list \<Rightarrow> nat \<Rightarrow> string \<Rightarrow> nat \<Rightarrow> nat option" where
  "nth_named [] n name index = None"
| "nth_named (c # cs) n name index =
     (if name = ctl_name c
      then case index of 0 \<Rightarrow> Some n | Suc index \<Rightarrow> nth_named cs (Suc n) name index
      else nth_named cs (Suc n) name index)"

definition mixer_get_ctl_by_name_and_index :: "mixer option \<Rightarrow> string \<Rightarrow> nat \<Rightarrow> nat option" where
  "mixer_get_ctl_by_name_and_index mx name index =
     (case mx of None \<Rightarrow> None | Some m \<Rightarrow> nth_named (mx_ctl m) 0 name index)"

definition mixer_get_ctl_by_name :: "mixer option \<Rightarrow> string \<Rightarrow> nat option" where
  "mixer_get_ctl_by_name mx name = mixer_get_ctl_by_name_and_index mx name 0"

text \<open>The description of the control a pointer points to.\<close>

definition ctl_info :: "mixer option \<Rightarrow> nat option \<Rightarrow> elem_info option" where
  "ctl_info mx ctl =
     (case (mx, ctl) of (Some m, Some n) \<Rightarrow> Some (mc_info (mx_ctl m ! n)) | _ \<Rightarrow> None)"

definition mixer_ctl_get_id :: "mixer option \<Rightarrow> nat option \<Rightarrow> nat" where
  "mixer_ctl_get_id mx ctl = (case ctl_info mx ctl of None \<Rightarrow> UINT_MAX | Some ei \<Rightarrow> ei_numid ei - 1)"

definition mixer_ctl_get_type :: "mixer option \<Rightarrow> nat option \<Rightarrow> mixer_ctl_type" where
  "mixer_ctl_get_type mx ctl =
     (case ctl_info mx ctl of
        None \<Rightarrow> MIXER_CTL_TYPE_UNKNOWN
      | Some ei \<Rightarrow>
          (case ei_type ei of
             ELEM_BOOLEAN \<Rightarrow> MIXER_CTL_TYPE_BOOL
           | ELEM_INTEGER \<Rightarrow> MIXER_CTL_TYPE_INT
           | ELEM_ENUMERATED \<Rightarrow> MIXER_CTL_TYPE_ENUM
           | ELEM_BYTES \<Rightarrow> MIXER_CTL_TYPE_BYTE
           | ELEM_IEC958 \<Rightarrow> MIXER_CTL_TYPE_IEC958
           | ELEM_INTEGER64 \<Rightarrow> MIXER_CTL_TYPE_INT64
           | ELEM_NONE \<Rightarrow> MIXER_CTL_TYPE_UNKNOWN))"

definition mixer_ctl_get_num_values :: "mixer option \<Rightarrow> nat option \<Rightarrow> nat" where
  "mixer_ctl_get_num_values mx ctl = (case ctl_info mx ctl of None \<Rightarrow> 0 | Some ei \<Rightarrow> ei_count ei)"

definition mixer_ctl_get_range_min :: "mixer option \<Rightarrow> nat option \<Rightarrow> int" where
  "mixer_ctl_get_range_min mx ctl =
     (case ctl_info mx ctl of None \<Rightarrow> - EINVAL | Some ei \<Rightarrow> if ei_type ei \<noteq> ELEM_INTEGER then - EINVAL else ei_min ei)"

definition mixer_ctl_get_range_max :: "mixer option \<Rightarrow> nat option \<Rightarrow> int" where
  "mixer_ctl_get_range_max mx ctl =
     (case ctl_info mx ctl of None \<Rightarrow> - EINVAL | Some ei \<Rightarrow> if ei_type ei \<noteq> ELEM_INTEGER then - EINVAL else ei_max ei)"

section \<open>Reading and writing values\<close>

text \<open>The value structure after a read: the kernel fills in the elements of the control.\<close>

definition read_values :: "alsa \<Rightarrow> nat \<Rightarrow> snd_req list \<Rightarrow> int list" where
  "read_values K n l = map (ak_value K l) [0..<n]"

text \<open>The element a value becomes in the value structure; \<open>None\<close> is the refusal.\<close>

definition coded_value :: "elem_info \<Rightarrow> int \<Rightarrow> int option" where
  "coded_value ei v =
     (case ei_type ei of
        ELEM_BOOLEAN \<Rightarrow> Some (if v \<noteq> 0 then 1 else 0)
      | ELEM_INTEGER \<Rightarrow> if v < ei_min ei \<or> v > ei_max ei then None else Some v
      | ELEM_ENUMERATED \<Rightarrow> Some (v mod 2 ^ 32)
      | ELEM_BYTES \<Rightarrow> Some (v mod 256)
      | _ \<Rightarrow> None)"

definition mixer_ctl_set_value :: "alsa \<Rightarrow> mixer option \<Rightarrow> nat option \<Rightarrow> nat \<Rightarrow> int \<Rightarrow> int \<times> mixer option" where
  "mixer_ctl_set_value K mx ctl i v =
     (case (mx, ctl_info mx ctl) of
        (Some m, Some ei) \<Rightarrow>
          if i \<ge> ei_count ei then (- EINVAL, mx)
          else let m = ask (ElemRead (mx_fd m) (ei_numid ei)) m; ret = ak_ret K (mx_log m)
            in if ret < 0 then (ret, Some m)
               else (case coded_value ei v of
                       None \<Rightarrow> (- EINVAL, Some m)
                     | Some w \<Rightarrow>
                         let m = ask (ElemWrite (mx_fd m) (ei_numid ei)
                                   ((read_values K (ei_count ei) (mx_log m))[i := w])) m
                         in (ak_ret K (mx_log m), Some m))
      | _ \<Rightarrow> (- EINVAL, mx))"

definition mixer_ctl_get_value :: "alsa \<Rightarrow> mixer option \<Rightarrow> nat option \<Rightarrow> nat \<Rightarrow> int \<times> mixer option" where
  "mixer_ctl_get_value K mx ctl i =
     (case (mx, ctl_info mx ctl) of
        (Some m, Some ei) \<Rightarrow>
          if i \<ge> ei_count ei then (- EINVAL, mx)
          else let m = ask (ElemRead (mx_fd m) (ei_numid ei)) m; ret = ak_ret K (mx_log m);
                   v = ak_value K (mx_log m) i
            in if ret < 0 then (ret, Some m)
               else ((case ei_type ei of
                        ELEM_BOOLEAN \<Rightarrow> if v \<noteq> 0 then 1 else 0
                      | ELEM_INTEGER \<Rightarrow> v
                      | ELEM_ENUMERATED \<Rightarrow> v
                      | ELEM_BYTES \<Rightarrow> v
                      | _ \<Rightarrow> - EINVAL), Some m)
      | _ \<Rightarrow> (- EINVAL, mx))"

definition percent_to_int :: "elem_info \<Rightarrow> int \<Rightarrow> int" where
  "percent_to_int ei percent =
     (if percent > 100 \<or> percent < 0 then - EINVAL
      else ei_min ei + ((ei_max ei - ei_min ei) * percent) sdiv 100)"

definition int_to_percent :: "elem_info \<Rightarrow> int \<Rightarrow> int" where
  "int_to_percent ei v =
     (let width = ei_max ei - ei_min ei
      in if width = 0 then 0 else ((v - ei_min ei) sdiv width) * 100)"

definition mixer_ctl_get_percent :: "alsa \<Rightarrow> mixer option \<Rightarrow> nat option \<Rightarrow> nat \<Rightarrow> int \<times> mixer option" where
  "mixer_ctl_get_percent K mx ctl i =
     (case ctl_info mx ctl of
        None \<Rightarrow> (- EINVAL, mx)
      | Some ei \<Rightarrow> if ei_type ei \<noteq> ELEM_INTEGER then (- EINVAL, mx)
                  else map_prod (int_to_percent ei) (\<lambda>x. x) (mixer_ctl_get_value K mx ctl i))"

definition mixer_ctl_set_percent :: "alsa \<Rightarrow> mixer option \<Rightarrow> nat option \<Rightarrow> nat \<Rightarrow> int \<Rightarrow> int \<times> mixer option" where
  "mixer_ctl_set_percent K mx ctl i percent =
     (case ctl_info mx ctl of
        None \<Rightarrow> (- EINVAL, mx)
      | Some ei \<Rightarrow> if ei_type ei \<noteq> ELEM_INTEGER then (- EINVAL, mx)
                  else mixer_ctl_set_value K mx ctl i (percent_to_int ei percent))"

definition array_capacity :: "alsa \<Rightarrow> elem_info \<Rightarrow> nat" where
  "array_capacity K ei = (if ei_type ei = ELEM_BYTES \<and> ei_tlv_rw ei then ei_count ei + ak_tlv_header_size K else ei_count ei)"

text \<open>The first \<open>n\<close> elements read, with the return value; \<open>None\<close> where the caller's array is left alone.\<close>

definition mixer_ctl_get_array ::
  "alsa \<Rightarrow> mixer option \<Rightarrow> nat option \<Rightarrow> nat \<Rightarrow> int \<times> int list option \<times> mixer option" where
  "mixer_ctl_get_array K mx ctl n =
     (case (mx, ctl_info mx ctl) of
        (Some m, Some ei) \<Rightarrow>
          if n = 0 \<or> n > array_capacity K ei then (- EINVAL, None, mx)
          else if ei_type ei = ELEM_BYTES \<and> ei_tlv_rw ei
          then let m = ask (TlvRead (mx_fd m) (ei_numid ei) n) m
               in (ak_ret K (mx_log m), Some (read_values K n (mx_log m)), Some m)
          else if ei_type ei \<in> {ELEM_BOOLEAN, ELEM_INTEGER, ELEM_BYTES}
          then let m = ask (ElemRead (mx_fd m) (ei_numid ei)) m; ret = ak_ret K (mx_log m)
               in if ret < 0 then (ret, None, Some m) else (0, Some (read_values K n (mx_log m)), Some m)
          else (- EINVAL, None, mx)
      | _ \<Rightarrow> (- EINVAL, None, mx))"

definition mixer_ctl_set_array :: "alsa \<Rightarrow> mixer option \<Rightarrow> nat option \<Rightarrow> int list \<Rightarrow> int \<times> mixer option" where
  "mixer_ctl_set_array K mx ctl a =
     (case (mx, ctl_info mx ctl) of
        (Some m, Some ei) \<Rightarrow>
          if a = [] \<or> length a > array_capacity K ei then (- EINVAL, mx)
          else if ei_type ei = ELEM_BYTES \<and> ei_tlv_rw ei
          then let m = ask (TlvWrite (mx_fd m) (ei_numid ei) a) m in (ak_ret K (mx_log m), Some m)
          else if ei_type ei \<in> {ELEM_BOOLEAN, ELEM_INTEGER, ELEM_BYTES}
          then let m = ask (ElemWrite (mx_fd m) (ei_numid ei) (a @ replicate (ei_count ei - length a) 0)) m
               in (ak_ret K (mx_log m), Some m)
          else (- EINVAL, mx)
      | _ \<Rightarrow> (- EINVAL, mx))"

section \<open>Enumerations\<close>

fun fetch_enames :: "alsa \<Rightarrow> nat \<Rightarrow> nat list \<Rightarrow> mixer \<Rightarrow> string list option \<times> mixer" where
  "fetch_enames K numid [] m = (Some [], m)"
| "fetch_enames K numid (i # is) m =
     (let m = ask (EnumName (mx_fd m) numid i) m
      in if ak_ret K (mx_log m) < 0 then (None, m)
         else let name = ak_name K (mx_log m); (names, m) = fetch_enames K numid is m
           in (map_option ((#) name) names, m))"

definition mixer_ctl_fill_enum_string :: "alsa \<Rightarrow> mixer \<Rightarrow> nat \<Rightarrow> int \<times> mixer" where
  "mixer_ctl_fill_enum_string K m n =
     (case mc_ename (mx_ctl m ! n) of
        Some _ \<Rightarrow> (0, m)
      | None \<Rightarrow>
          (let ei = mc_info (mx_ctl m ! n)
           in case fetch_enames K (ei_numid ei) [0..<ei_items ei] m of
                (None, m) \<Rightarrow> (- 1, m)
              | (Some names, m) \<Rightarrow> (0, m\<lparr>mx_ctl := (mx_ctl m)[n := (mx_ctl m ! n)\<lparr>mc_ename := Some names\<rparr>]\<rparr>)))"

fun position :: "string \<Rightarrow> string list \<Rightarrow> nat \<Rightarrow> nat option" where
  "position s [] i = None"
| "position s (x # xs) i = (if s = x then Some i else position s xs (Suc i))"

definition mixer_ctl_set_enum_by_string :: "alsa \<Rightarrow> mixer option \<Rightarrow> nat option \<Rightarrow> string \<Rightarrow> int \<times> mixer option" where
  "mixer_ctl_set_enum_by_string K mx ctl s =
     (case (mx, ctl) of
        (Some m, Some n) \<Rightarrow>
          if ei_type (mc_info (mx_ctl m ! n)) \<noteq> ELEM_ENUMERATED then (- EINVAL, mx)
          else (case mixer_ctl_fill_enum_string K m n of
                  (r, m) \<Rightarrow>
                    if r \<noteq> 0 then (- EINVAL, Some m)
                    else (case position s (take (ei_items (mc_info (mx_ctl m ! n))) (the (mc_ename (mx_ctl m ! n)))) 0 of
                            None \<Rightarrow> (- EINVAL, Some m)
                          | Some i \<Rightarrow>
                              let ei = mc_info (mx_ctl m ! n);
                                  m = ask (ElemWrite (mx_fd m) (ei_numid ei) (int i # replicate (ei_count ei - 1) 0)) m;
                                  ret = ak_ret K (mx_log m)
                              in (if ret < 0 then ret else 0, Some m)))
      | _ \<Rightarrow> (- EINVAL, mx))"

definition mixer_ctl_get_enum_string :: "alsa \<Rightarrow> mixer option \<Rightarrow> nat option \<Rightarrow> nat \<Rightarrow> string option \<times> mixer option" where
  "mixer_ctl_get_enum_string K mx ctl enum_id =
     (case (mx, ctl) of
        (Some m, Some n) \<Rightarrow>
          if ei_type (mc_info (mx_ctl m ! n)) \<noteq> ELEM_ENUMERATED \<or> enum_id \<ge> ei_items (mc_info (mx_ctl m ! n)) then (None, mx)
          else (case mixer_ctl_fill_enum_string K m n of
                  (r, m) \<Rightarrow> if r \<noteq> 0 then (None, Some m) else (Some (the (mc_ename (mx_ctl m ! n)) ! enum_id), Some m))
      | _ \<Rightarrow> (None, mx))"

section \<open>What an operation leaves alone\<close>

text \<open>The descriptions of the controls: fixed once the mixer is open.\<close>

definition mixer_shape :: "mixer option \<Rightarrow> elem_info list" where
  "mixer_shape mx = (case mx of None \<Rightarrow> [] | Some m \<Rightarrow> map mc_info (mx_ctl m))"

lemma ask_simps [simp]: "mx_ctl (ask r m) = mx_ctl m" "mx_fd (ask r m) = mx_fd m" "mx_log (ask r m) = r # mx_log m"
  by (simp_all add: ask_def)

lemma ctl_info_shape:
  "mixer_get_ctl mx n = Some k \<Longrightarrow> ctl_info mx (Some k) = Some (mixer_shape mx ! n) \<and> k = n \<and> n < length (mixer_shape mx)"
  by (auto simp: mixer_get_ctl_def ctl_info_def mixer_shape_def split: option.splits if_splits)

lemma mixer_get_ctl_shape: "mixer_get_ctl mx n = (if n < length (mixer_shape mx) then Some n else None)"
  by (auto simp: mixer_get_ctl_def mixer_shape_def split: option.splits)

lemma set_value_shape [frame_simps]: "mixer_shape (snd (mixer_ctl_set_value K mx ctl i v)) = mixer_shape mx"
  by (auto simp: mixer_ctl_set_value_def mixer_shape_def Let_def split: option.splits)

lemma get_array_shape [frame_simps]: "mixer_shape (snd (snd (mixer_ctl_get_array K mx ctl n))) = mixer_shape mx"
  by (auto simp: mixer_ctl_get_array_def mixer_shape_def Let_def split: option.splits)

lemma set_array_shape [frame_simps]: "mixer_shape (snd (mixer_ctl_set_array K mx ctl a)) = mixer_shape mx"
  by (auto simp: mixer_ctl_set_array_def mixer_shape_def Let_def split: option.splits)

lemma fetch_enames_ctl: "mx_ctl (snd (fetch_enames K numid is m)) = mx_ctl m"
  by (induction K numid "is" m rule: fetch_enames.induct) (auto simp: Let_def split: prod.splits)

lemma fill_enum_shape: "map mc_info (mx_ctl (snd (mixer_ctl_fill_enum_string K m n))) = map mc_info (mx_ctl m)"
  using fetch_enames_ctl [of K "ei_numid (mc_info (mx_ctl m ! n))" "[0..<ei_items (mc_info (mx_ctl m ! n))]" m]
  by (cases "n < length (mx_ctl m)")
    (auto simp: mixer_ctl_fill_enum_string_def Let_def map_update list_update_same_conv list_update_beyond split: option.splits prod.splits)

lemma set_enum_shape [frame_simps]: "mixer_shape (snd (mixer_ctl_set_enum_by_string K mx ctl s)) = mixer_shape mx"
  using fill_enum_shape
  by (auto simp: mixer_ctl_set_enum_by_string_def mixer_shape_def Let_def split: option.splits prod.splits)
    (metis snd_conv)+

section \<open>Finding and numbering\<close>

text \<open>The driver numbers the controls from 1 in the order it lists them.\<close>

definition numids_dense :: "mixer option \<Rightarrow> bool" where
  "numids_dense mx \<longleftrightarrow> (\<forall>n < length (mixer_shape mx). ei_numid (mixer_shape mx ! n) = Suc n)"

lemma nth_named_bounds: "nth_named cs n name i = Some k \<Longrightarrow> n \<le> k \<and> k < n + length cs \<and> ctl_name (cs ! (k - n)) = name"
proof (induction cs arbitrary: n i)
  case (Cons c cs)
  then show ?case
    by (cases "k = n") (fastforce split: if_splits nat.splits simp: nth_Cons')+
qed simp

lemma by_name_id_roundtrip:
  assumes "numids_dense mx" "mixer_get_ctl_by_name mx name = Some k"
  shows "mixer_get_ctl mx (mixer_ctl_get_id mx (Some k)) = Some k"
proof -
  have "k < length (mixer_shape mx)"
    using assms(2) nth_named_bounds
    by (fastforce simp: mixer_get_ctl_by_name_def mixer_get_ctl_by_name_and_index_def mixer_shape_def split: option.splits)
  moreover from this have "ctl_info mx (Some k) = Some (mixer_shape mx ! k)"
    by (auto simp: ctl_info_def mixer_shape_def split: option.splits)
  ultimately show ?thesis using assms(1) by (simp add: mixer_ctl_get_id_def numids_dense_def mixer_get_ctl_shape)
qed

section \<open>Descriptors\<close>

fun snd_fds :: "alsa \<Rightarrow> snd_req list \<Rightarrow> int list" where
  "snd_fds K [] = []"
| "snd_fds K (SndOpen c # l) = (let fd = ak_ret K (SndOpen c # l) in if fd < 0 then snd_fds K l else fd # snd_fds K l)"
| "snd_fds K (SndClose fd # l) = remove1 fd (snd_fds K l)"
| "snd_fds K (_ # l) = snd_fds K l"

lemma fetch_infos_effect:
  "fetch_infos K numid ns m = (r, m') \<Longrightarrow>
     mx_fd m' = mx_fd m \<and> snd_fds K (mx_log m') = snd_fds K (mx_log m) \<and>
     (\<exists>new. mx_ctl m' = mx_ctl m @ new \<and> length new \<le> length ns \<and> (r = 0 \<longleftrightarrow> length new = length ns) \<and> (r = 0 \<or> r = - 1))"
proof (induction K numid ns m rule: fetch_infos.induct)
  case (2 K numid n ns m)
  define m1 where "m1 = ask (ElemInfo (mx_fd m) (numid n)) m"
  define m2 where "m2 = m1\<lparr>mx_ctl := mx_ctl m1 @ [\<lparr>mc_info = ak_info K (mx_log m1), mc_ename = None\<rparr>]\<rparr>"
  show ?case
  proof (cases "ak_ret K (mx_log m1) < 0")
    case True
    then show ?thesis using "2.prems" by (auto simp: m1_def Let_def)
  next
    case False
    then have "fetch_infos K numid ns m2 = (r, m')" using "2.prems" by (simp add: m1_def m2_def Let_def)
    then obtain new where "mx_fd m' = mx_fd m2" "snd_fds K (mx_log m') = snd_fds K (mx_log m2)" "mx_ctl m' = mx_ctl m2 @ new"
      "length new \<le> length ns" "r = 0 \<longleftrightarrow> length new = length ns" "r = 0 \<or> r = - 1"
      using "2.IH" [OF m1_def] False by (auto simp: m2_def)
    then show ?thesis by (auto simp: m1_def m2_def)
  qed
qed simp

lemma add_controls_effect:
  assumes "add_controls K m = (r, m')"
  shows "mx_fd m' = mx_fd m" "snd_fds K (mx_log m') = snd_fds K (mx_log m)" "take (length (mx_ctl m)) (mx_ctl m') = mx_ctl m"
    "r = 0 \<Longrightarrow> length (mx_ctl m') = ak_count K (ElemCount (mx_fd m) # mx_log m)" "r = 0 \<or> r = - 1"
proof -
  define m1 where "m1 = ask (ElemCount (mx_fd m)) m"
  define new_count where "new_count = ak_count K (mx_log m1)"
  define m2 where "m2 = ask (ElemList (mx_fd m) (length (mx_ctl m)) (new_count - length (mx_ctl m))) m1"
  have run: "add_controls K m =
      (if ak_ret K (mx_log m1) < 0 then (- 1, m1)
       else if length (mx_ctl m) = new_count then (0, m1)
       else if length (mx_ctl m) > new_count then (- 1, m1)
       else if ak_ret K (mx_log m2) < 0 then (- 1, m2)
       else fetch_infos K (ak_numid K (mx_log m2)) [0..<new_count - length (mx_ctl m)] m2)"
    by (simp add: add_controls_def Let_def m1_def m2_def new_count_def)
  have m12: "mx_fd m1 = mx_fd m" "mx_ctl m1 = mx_ctl m" "snd_fds K (mx_log m1) = snd_fds K (mx_log m)"
    "mx_fd m2 = mx_fd m" "mx_ctl m2 = mx_ctl m" "snd_fds K (mx_log m2) = snd_fds K (mx_log m)"
    by (simp_all add: m1_def m2_def)
  define good where "good r m' \<longleftrightarrow> mx_fd m' = mx_fd m \<and> snd_fds K (mx_log m') = snd_fds K (mx_log m) \<and>
    take (length (mx_ctl m)) (mx_ctl m') = mx_ctl m \<and> (r = 0 \<longrightarrow> length (mx_ctl m') = new_count) \<and> (r = 0 \<or> r = - 1)"
    for r :: int and m' :: mixer
  have early: "good (- 1) m1" "good (- 1) m2" "length (mx_ctl m) = new_count \<Longrightarrow> good 0 m1"
    by (simp_all add: good_def m12)
  have late: "good r m'" if "length (mx_ctl m) < new_count"
    "fetch_infos K (ak_numid K (mx_log m2)) [0..<new_count - length (mx_ctl m)] m2 = (r, m')"
    using fetch_infos_effect [OF that(2)] that(1) by (auto simp: good_def m12)
  have "good r m'"
  proof (cases "ak_ret K (mx_log m1) < 0 \<or> length (mx_ctl m) > new_count \<or> length (mx_ctl m) = new_count")
    case True
    then show ?thesis using assms early(1,3) unfolding run by (auto split: if_splits)
  next
    case False
    then show ?thesis
    proof (cases "ak_ret K (mx_log m2) < 0")
      case True
      then show ?thesis using assms early(2) False unfolding run by simp
    next
      case late': False
      then have "fetch_infos K (ak_numid K (mx_log m2)) [0..<new_count - length (mx_ctl m)] m2 = (r, m')"
        using assms False unfolding run by simp
      then show ?thesis using False by (intro late) auto
    qed
  qed
  then show "mx_fd m' = mx_fd m" "snd_fds K (mx_log m') = snd_fds K (mx_log m)" "take (length (mx_ctl m)) (mx_ctl m') = mx_ctl m"
    "r = 0 \<Longrightarrow> length (mx_ctl m') = ak_count K (ElemCount (mx_fd m) # mx_log m)" "r = 0 \<or> r = - 1"
    unfolding good_def by (auto simp: new_count_def m1_def)
qed

text \<open>
  How opening a mixer ends. A mixer that is returned holds the descriptor of the card and as many controls
  as the driver reported. If the controls cannot be collected, the descriptor is closed again. If the card
  information cannot be read, however, descriptor 0 is closed instead and the one just opened stays open:
  the structure still holds the 0 of \<open>calloc\<close>.
\<close>

theorem mixer_open_outcome:
  "case mixer_open K c l of
     (Some m, l') \<Rightarrow> l' = mx_log m \<and> mx_fd m = ak_ret K (SndOpen c # l) \<and> snd_fds K l' = mx_fd m # snd_fds K l \<and>
       length (mx_ctl m) = ak_count K (ElemCount (mx_fd m) # CardInfo (mx_fd m) # SndOpen c # l)
   | (None, l') \<Rightarrow>
       (let fd = ak_ret K (SndOpen c # l)
        in if fd < 0 then l' = SndOpen c # l
           else if ak_ret K (CardInfo fd # SndOpen c # l) < 0
           then l' = SndClose 0 # CardInfo fd # SndOpen c # l \<and> snd_fds K l' = remove1 0 (fd # snd_fds K l)
           else snd_fds K l' = snd_fds K l)"
proof -
  define fd where "fd = ak_ret K (SndOpen c # l)"
  define m0 where "m0 = \<lparr>mx_fd = fd, mx_ctl = [], mx_log = CardInfo fd # SndOpen c # l\<rparr>"
  obtain r m where add: "add_controls K m0 = (r, m)" by fastforce
  consider "fd < 0" | "\<not> fd < 0" "ak_ret K (CardInfo fd # SndOpen c # l) < 0"
    | "\<not> fd < 0" "\<not> ak_ret K (CardInfo fd # SndOpen c # l) < 0" by linarith
  then show ?thesis
  proof cases
    case 3
    have "mixer_open K c l = (if r \<noteq> 0 then (None, mixer_close m) else (Some m, mx_log m))"
      using 3 add by (simp add: mixer_open_def Let_def m0_def flip: fd_def)
    moreover have "mx_fd m = fd" "snd_fds K (mx_log m) = fd # snd_fds K l"
      "r = 0 \<Longrightarrow> length (mx_ctl m) = ak_count K (ElemCount fd # CardInfo fd # SndOpen c # l)"
      using add_controls_effect(1,2,4) [OF add] 3 by (simp_all add: m0_def Let_def flip: fd_def)
    ultimately show ?thesis using 3 by (auto simp: mixer_close_def Let_def simp flip: fd_def)
  qed (auto simp: mixer_open_def Let_def mixer_close_def simp flip: fd_def)
qed

section \<open>Values\<close>

text \<open>
  Setting one value of a control. Whatever the kernel answers, the requests are a read of the control and,
  only when the read succeeded and the value is admissible, one write in which exactly the chosen element
  differs from what was read; an integer outside the range of the control is refused with \<open>- EINVAL\<close>
  and never written.
\<close>

theorem set_value_writes_one_element:
  assumes "ctl_info (Some m) (Some n) = Some ei" "i < ei_count ei"
    and "mixer_ctl_set_value K (Some m) (Some n) i v = (r, Some m')"
  shows "let l = ElemRead (mx_fd m) (ei_numid ei) # mx_log m
    in if ak_ret K l < 0 then r = ak_ret K l \<and> mx_log m' = l
       else if coded_value ei v = None then r = - EINVAL \<and> mx_log m' = l
       else \<exists>vs. mx_log m' = ElemWrite (mx_fd m) (ei_numid ei) vs # l \<and> r = ak_ret K (mx_log m') \<and> length vs = ei_count ei \<and>
         vs ! i = the (coded_value ei v) \<and> (\<forall>j < ei_count ei. j \<noteq> i \<longrightarrow> vs ! j = ak_value K l j) \<and>
         (ei_type ei = ELEM_INTEGER \<longrightarrow> ei_min ei \<le> v \<and> v \<le> ei_max ei \<and> vs ! i = v)"
proof -
  define l where "l = ElemRead (mx_fd m) (ei_numid ei) # mx_log m"
  have range: "ei_min ei \<le> v \<and> v \<le> ei_max ei \<and> w = v" if "ei_type ei = ELEM_INTEGER" "coded_value ei v = Some w" for w
    using that by (auto simp: coded_value_def split: if_splits)
  consider "ak_ret K l < 0" | "\<not> ak_ret K l < 0" "coded_value ei v = None" | w where "\<not> ak_ret K l < 0" "coded_value ei v = Some w"
    by fastforce
  then show ?thesis
  proof cases
    case 3
    have "mx_log m' = ElemWrite (mx_fd m) (ei_numid ei) ((read_values K (ei_count ei) l)[i := w]) # l \<and> r = ak_ret K (mx_log m')"
      using assms 3 by (auto simp: mixer_ctl_set_value_def Let_def l_def)
    then show ?thesis using 3 range assms(2) unfolding Let_def l_def [symmetric]
      by (auto simp: read_values_def nth_list_update)
  qed (use assms in \<open>auto simp: mixer_ctl_set_value_def Let_def l_def\<close>)
qed

theorem set_value_writes_one_element_witness:
  "\<exists>K m. ak_ret K [] = (0::int) \<and>
     (case mixer_ctl_set_value K (Some m) (Some 0) 1 7 of (r, mx) \<Rightarrow>
        \<exists>vs. mx_log (the mx) = [ElemWrite 3 1 vs, ElemRead 3 1] \<and> vs ! 1 = 7 \<and> vs ! 0 = 5)"
proof -
  define K :: alsa where "K = \<lparr>ak_ret = \<lambda>_. 0, ak_count = \<lambda>_. 0, ak_numid = \<lambda>_ n. n, ak_info = \<lambda>_. undefined, ak_name = \<lambda>_. [],
    ak_value = \<lambda>_ _. 5, ak_tlv_header_size = 8\<rparr>"
  define ei where "ei = \<lparr>ei_numid = 1, ei_name = ''Volume'', ei_type = ELEM_INTEGER, ei_count = 2, ei_min = 0, ei_max = 9, ei_items = 0, ei_tlv_rw = False\<rparr>"
  define m where "m = \<lparr>mx_fd = 3, mx_ctl = [\<lparr>mc_info = ei, mc_ename = None\<rparr>], mx_log = []\<rparr>"
  obtain r m' where run: "mixer_ctl_set_value K (Some m) (Some 0) 1 7 = (r, Some m')"
    by (auto simp: mixer_ctl_set_value_def ctl_info_def m_def ei_def Let_def K_def coded_value_def)
  have "ctl_info (Some m) (Some 0) = Some ei" by (simp add: ctl_info_def m_def)
  then obtain vs where "mx_log m' = [ElemWrite 3 1 vs, ElemRead 3 1]" "vs ! 1 = 7" "vs ! 0 = 5"
    using set_value_writes_one_element [OF _ _ run, of ei] by (auto simp: ei_def m_def K_def coded_value_def Let_def)
  then show ?thesis using run by (intro exI [of _ K] exI [of _ m]) (auto simp: K_def)
qed

text \<open>
  Percentages do not come back: a percentage maps into the range of the control, 0 to its minimum and 100 to
  its maximum, but reading one back divides before it multiplies, so every value below the maximum reads as 0.
\<close>

theorem percent_roundtrip_lost:
  assumes "ei_min ei < ei_max ei"
  shows "(0 \<le> p \<and> p \<le> 100 \<longrightarrow> ei_min ei \<le> percent_to_int ei p \<and> percent_to_int ei p \<le> ei_max ei) \<and>
    percent_to_int ei 0 = ei_min ei \<and> percent_to_int ei 100 = ei_max ei \<and>
    (ei_min ei \<le> v \<and> v \<le> ei_max ei \<longrightarrow> int_to_percent ei v = (if v = ei_max ei then 100 else 0))"
proof -
  have p: "percent_to_int ei p = ei_min ei + ((ei_max ei - ei_min ei) * p) div 100" if "0 \<le> p" "p \<le> 100" for p
    using that assms by (auto simp: percent_to_int_def signed_divide_int_def sgn_if zero_less_mult_iff)
  have b: "ei_min ei \<le> percent_to_int ei p \<and> percent_to_int ei p \<le> ei_max ei" if "0 \<le> p" "p \<le> 100"
  proof -
    have "0 \<le> (ei_max ei - ei_min ei) * p" using that assms by simp
    moreover have "(ei_max ei - ei_min ei) * p \<le> (ei_max ei - ei_min ei) * 100" using that assms by (intro mult_left_mono) auto
    ultimately show ?thesis using p [OF that] by auto
  qed
  have "int_to_percent ei v = (if v = ei_max ei then 100 else 0)" if "ei_min ei \<le> v" "v \<le> ei_max ei"
    using that assms by (auto simp: int_to_percent_def signed_divide_int_def sgn_if Let_def div_pos_pos_trivial)
  then show ?thesis using b p [of 0] p [of 100] by auto
qed

theorem percent_roundtrip_lost_witness:
  "int_to_percent \<lparr>ei_numid = 1, ei_name = ''Volume'', ei_type = ELEM_INTEGER, ei_count = 1, ei_min = 0, ei_max = 100, ei_items = 0, ei_tlv_rw = False\<rparr>
     (percent_to_int \<lparr>ei_numid = 1, ei_name = ''Volume'', ei_type = ELEM_INTEGER, ei_count = 1, ei_min = 0, ei_max = 100, ei_items = 0, ei_tlv_rw = False\<rparr> 99) = 0"
  using percent_roundtrip_lost [of "\<lparr>ei_numid = 1, ei_name = ''Volume'', ei_type = ELEM_INTEGER, ei_count = 1, ei_min = 0, ei_max = 100, ei_items = 0, ei_tlv_rw = False\<rparr>" 99 99]
  by (simp add: percent_to_int_def signed_divide_int_def)

text \<open>A card that accepts every request.\<close>

definition silent_card :: alsa where
  "silent_card = \<lparr>ak_ret = \<lambda>_. 0, ak_count = \<lambda>_. 0, ak_numid = \<lambda>_ n. n, ak_info = \<lambda>_. undefined, ak_name = \<lambda>_. [],
     ak_value = \<lambda>_ _. 0, ak_tlv_header_size = 8\<rparr>"

end
