(* ===== verification/Audio_Config.thy ===== *)
theory Audio_Config
  imports Mixer C_Strings
begin

text \<open>
  \<open>configmgr/audio_config.c\<close>, the part that runs after the configuration has been read: mixer controls and how
  they are opened and written, paths and reference-counted devices, routing, streams, volume and use cases.
  The header \<open>system/audio.h\<close> is a parameter. Every function that changes the state holds the lock of the
  configuration, so it is one step. Streams and paths are named by their position.
\<close>

section \<open>Data\<close>

record audio_h =
  BIT_IN :: u32
  IN_ALL :: u32
  OUT_ALL :: u32
  is_linear_pcm :: "nat \<Rightarrow> bool"
  device_flag :: "string \<Rightarrow> u32"

definition BYTE_ARRAY_MAX_SIZE :: nat where
  "BYTE_ARRAY_MAX_SIZE = 512"

definition INVALID_CTL_INDEX :: nat where
  "INVALID_CTL_INDEX = 0xFFFFFFFF"

definition e_path_id_off :: int where
  "e_path_id_off = 0"

definition e_path_id_on :: int where
  "e_path_id_on = 1"

datatype ctl_value = Uinteger nat | Data "int list" | String string

record audio_ctl =
  ct_id :: nat
  ct_name :: string
  ct_index :: nat
  ct_array_count :: nat
  ct_type :: mixer_ctl_type
  ct_value :: ctl_value

record audio_path =
  p_id :: int
  p_ctls :: "audio_ctl list"

record audio_device =
  dv_type :: u32
  dv_use_count :: int
  dv_paths :: "audio_path list"

record scase =
  ca_name :: string
  ca_ctls :: "audio_ctl list"

record usecase =
  uc_name :: string
  uc_cases :: "scase list"

datatype stream_type =
    e_stream_out_pcm
  | e_stream_in_pcm
  | e_stream_out_compress
  | e_stream_in_compress
  | e_stream_out_hw
  | e_stream_in_hw
  | e_stream_global

record hw_stream =
  hs_type :: stream_type
  hs_card_number :: nat
  hs_device_number :: nat
  hs_rate :: nat
  hs_period_size :: nat
  hs_period_count :: nat

record stream_control =
  sc_id :: nat
  sc_index :: nat
  sc_min :: u32
  sc_max :: u32

record audio_stream =
  s_info :: hw_stream
  s_name :: "string option"
  s_ref_count :: int
  s_max_ref_count :: int
  s_enable_path :: int
  s_disable_path :: int
  s_current_devices :: u32
  s_volume_left :: stream_control
  s_volume_right :: stream_control
  s_usecases :: "usecase list"

record config_mgr =
  cm_mixer :: "mixer option"
  cm_supported_output_devices :: u32
  cm_supported_input_devices :: u32
  cm_devices :: "audio_device list"
  cm_streams :: "audio_stream list"

definition stream_is_input :: "hw_stream \<Rightarrow> bool" where
  "stream_is_input s \<longleftrightarrow> hs_type s = e_stream_in_pcm \<or> hs_type s = e_stream_in_compress \<or> hs_type s = e_stream_in_hw"

text \<open>A \<open>uint32_t\<close> passed as an \<open>int\<close>.\<close>

definition int_of_uint :: "nat \<Rightarrow> int" where
  "int_of_uint n = (if n < 2 ^ 31 then int n else int n - 2 ^ 32)"

section \<open>Controls\<close>

text \<open>\<open>Inl\<close> is an error number, \<open>None\<close> an absent attribute.\<close>

definition string_to_uint :: "string option \<Rightarrow> int + nat" where
  "string_to_uint str =
     (case str of
        None \<Rightarrow> Inl (- ENOENT)
      | Some s \<Rightarrow>
          (let (v, rest) = strtoul s
           in if rest = [] \<and> rest \<noteq> s \<and> v \<le> 0xFFFFFFFF then Inr v else Inl (- EINVAL)))"

text \<open>The bytes of the tokens of a list, or the first error.\<close>

fun token_bytes :: "string list \<Rightarrow> int + int list" where
  "token_bytes [] = Inr []"
| "token_bytes (t # ts) =
     (case string_to_uint (Some t) of
        Inl e \<Rightarrow> Inl e
      | Inr v \<Rightarrow> (case token_bytes ts of Inl e \<Rightarrow> Inl e | Inr bs \<Rightarrow> Inr (int v mod 256 # bs)))"

text \<open>A control that has not been opened yet holds the string of the configuration file.\<close>

definition value_string :: "audio_ctl \<Rightarrow> string" where
  "value_string c = (case ct_value c of String s \<Rightarrow> s | _ \<Rightarrow> [])"

definition make_byte_array :: "mixer option \<Rightarrow> nat option \<Rightarrow> audio_ctl \<Rightarrow> int \<times> audio_ctl" where
  "make_byte_array mx ctl c =
     (let vnum = mixer_ctl_get_num_values mx ctl; tokens = strtok (CHR '','') (value_string c)
      in if vnum > BYTE_ARRAY_MAX_SIZE then (- EINVAL, c)
         else if ct_index c \<ge> vnum then (- EINVAL, c)
         else if ct_index c + length tokens > vnum then (- EINVAL, c)
         else let c = c\<lparr>ct_array_count := length tokens\<rparr>
           in case token_bytes tokens of Inl e \<Rightarrow> (e, c) | Inr bytes \<Rightarrow> (0, c\<lparr>ct_value := Data bytes\<rparr>))"

definition ctl_opened :: "mixer option \<Rightarrow> nat option \<Rightarrow> audio_ctl \<Rightarrow> audio_ctl" where
  "ctl_opened mx ctl c = c\<lparr>ct_type := mixer_ctl_get_type mx ctl, ct_id := mixer_ctl_get_id mx ctl\<rparr>"

definition ctl_open :: "mixer option \<Rightarrow> audio_ctl \<Rightarrow> int \<times> audio_ctl" where
  "ctl_open mx c =
     (if ct_id c \<noteq> UINT_MAX then (0, c)
      else case mixer_get_ctl_by_name mx (ct_name c) of
        None \<Rightarrow> (- ENOENT, c)
      | Some n \<Rightarrow>
          (case mixer_ctl_get_type mx (Some n) of
             MIXER_CTL_TYPE_BYTE \<Rightarrow>
               (case make_byte_array mx (Some n) (if ct_index c = INVALID_CTL_INDEX then c\<lparr>ct_index := 0\<rparr> else c) of
                  (ret, c) \<Rightarrow> if ret \<noteq> 0 then (ret, c) else (0, ctl_opened mx (Some n) c))
           | MIXER_CTL_TYPE_BOOL \<Rightarrow>
               (case string_to_uint (Some (value_string c)) of
                  Inl _ \<Rightarrow> (- EINVAL, c) | Inr v \<Rightarrow> (0, ctl_opened mx (Some n) (c\<lparr>ct_value := Uinteger v\<rparr>)))
           | MIXER_CTL_TYPE_INT \<Rightarrow>
               (case string_to_uint (Some (value_string c)) of
                  Inl _ \<Rightarrow> (- EINVAL, c) | Inr v \<Rightarrow> (0, ctl_opened mx (Some n) (c\<lparr>ct_value := Uinteger v\<rparr>)))
           | MIXER_CTL_TYPE_ENUM \<Rightarrow> (0, ctl_opened mx (Some n) c)
           | _ \<Rightarrow> (- EINVAL, c)))"

text \<open>The loop that writes the same value to every element, up to the first failure.\<close>

fun set_elements :: "alsa \<Rightarrow> nat option \<Rightarrow> int \<Rightarrow> nat list \<Rightarrow> mixer option \<Rightarrow> mixer option" where
  "set_elements K ctl v [] mx = mx"
| "set_elements K ctl v (n # ns) mx =
     (case mixer_ctl_set_value K mx ctl n v of (err, mx) \<Rightarrow> if err < 0 then mx else set_elements K ctl v ns mx)"

text \<open>The members of the union that holds the value.\<close>

definition as_uinteger :: "ctl_value \<Rightarrow> nat" where
  "as_uinteger v = (case v of Uinteger n \<Rightarrow> n | _ \<Rightarrow> 0)"

definition as_data :: "ctl_value \<Rightarrow> int list" where
  "as_data v = (case v of Data bs \<Rightarrow> bs | _ \<Rightarrow> [])"

definition as_string :: "ctl_value \<Rightarrow> string" where
  "as_string v = (case v of String s \<Rightarrow> s | _ \<Rightarrow> [])"

definition write_ctl :: "alsa \<Rightarrow> mixer option \<Rightarrow> audio_ctl \<Rightarrow> mixer option" where
  "write_ctl K mx c =
     (let ctl = mixer_get_ctl mx (ct_id c); vnum = mixer_ctl_get_num_values mx ctl; n = int_of_uint (as_uinteger (ct_value c))
      in case mixer_ctl_get_type mx ctl of
           MIXER_CTL_TYPE_BOOL \<Rightarrow>
             if ct_index c = INVALID_CTL_INDEX then set_elements K ctl n [0..<vnum] mx
             else snd (mixer_ctl_set_value K mx ctl (ct_index c) n)
         | MIXER_CTL_TYPE_INT \<Rightarrow>
             if ct_index c = INVALID_CTL_INDEX then set_elements K ctl n [0..<vnum] mx
             else snd (mixer_ctl_set_value K mx ctl (ct_index c) n)
         | MIXER_CTL_TYPE_BYTE \<Rightarrow>
             if ct_index c = 0 \<and> ct_array_count c = vnum
             then snd (mixer_ctl_set_array K mx ctl (take (ct_array_count c) (as_data (ct_value c))))
             else (case mixer_ctl_get_array K mx ctl vnum of
                     (err, ctl_data, mx) \<Rightarrow>
                       if err \<ge> 0
                       then snd (mixer_ctl_set_array K mx ctl
                              (write_at (the ctl_data) (ct_index c) (take (ct_array_count c) (as_data (ct_value c)))))
                       else mx)
         | MIXER_CTL_TYPE_ENUM \<Rightarrow> snd (mixer_ctl_set_enum_by_string K mx ctl (as_string (ct_value c)))
         | _ \<Rightarrow> mx)"

text \<open>The controls of a path in order; a control that cannot be opened ends the loop.\<close>

fun apply_ctls_l :: "alsa \<Rightarrow> mixer option \<Rightarrow> audio_ctl list \<Rightarrow> mixer option \<times> audio_ctl list" where
  "apply_ctls_l K mx [] = (mx, [])"
| "apply_ctls_l K mx (c # cs) =
     (case ctl_open mx c of
        (ret, c) \<Rightarrow>
          if ret \<noteq> 0 then (mx, c # cs)
          else (case apply_ctls_l K (write_ctl K mx c) cs of (mx, cs) \<Rightarrow> (mx, c # cs)))"

section \<open>Paths and devices\<close>

definition apply_path_l :: "alsa \<Rightarrow> mixer option \<Rightarrow> audio_path \<Rightarrow> mixer option \<times> audio_path" where
  "apply_path_l K mx path = (case apply_ctls_l K mx (p_ctls path) of (mx, cs) \<Rightarrow> (mx, path\<lparr>p_ctls := cs\<rparr>))"

text \<open>Path \<open>k\<close> of a device.\<close>

definition apply_device_path_l :: "alsa \<Rightarrow> nat \<Rightarrow> mixer option \<times> audio_device \<Rightarrow> mixer option \<times> audio_device" where
  "apply_device_path_l K k st =
     (case st of (mx, pdev) \<Rightarrow>
        let path = dv_paths pdev ! k;
            pdev = (if p_id path = e_path_id_off then pdev\<lparr>dv_use_count := dv_use_count pdev - 1\<rparr>
                    else if p_id path = e_path_id_on then pdev\<lparr>dv_use_count := dv_use_count pdev + 1\<rparr> else pdev)
        in if p_id path = e_path_id_off \<and> dv_use_count pdev > 0 then (mx, pdev)
           else if p_id path = e_path_id_on \<and> dv_use_count pdev > 1 then (mx, pdev)
           else (case apply_path_l K mx path of (mx, path) \<Rightarrow> (mx, pdev\<lparr>dv_paths := (dv_paths pdev)[k := path]\<rparr>)))"

text \<open>Both paths in a single walk of the list.\<close>

fun find_paths :: "audio_path list \<Rightarrow> nat \<Rightarrow> int \<Rightarrow> int \<Rightarrow> nat option \<times> nat option \<Rightarrow> nat option \<times> nat option" where
  "find_paths [] k first_id second_id found = found"
| "find_paths (p # ps) k first_id second_id found =
     (if p_id p = first_id
      then let found = (Some k, snd found)
           in if snd found \<noteq> None \<or> first_id = second_id then found else find_paths ps (Suc k) first_id second_id found
      else if p_id p = second_id
      then let found = (fst found, Some k)
           in if fst found \<noteq> None then found else find_paths ps (Suc k) first_id second_id found
      else find_paths ps (Suc k) first_id second_id found)"

definition apply_found :: "alsa \<Rightarrow> nat option \<Rightarrow> mixer option \<times> audio_device \<Rightarrow> mixer option \<times> audio_device" where
  "apply_found K found st = (case found of None \<Rightarrow> st | Some k \<Rightarrow> apply_device_path_l K k st)"

definition apply_paths_by_id_l ::
  "alsa \<Rightarrow> int \<Rightarrow> int \<Rightarrow> mixer option \<times> audio_device \<Rightarrow> mixer option \<times> audio_device" where
  "apply_paths_by_id_l K first_id second_id st =
     (let found = find_paths (dv_paths (snd st)) 0 first_id second_id (None, None)
      in apply_found K (snd found) (apply_found K (fst found) st))"

fun devices_loop ::
  "alsa \<Rightarrow> u32 \<Rightarrow> int \<Rightarrow> int \<Rightarrow> u32 \<Rightarrow> mixer option \<Rightarrow> audio_device list \<Rightarrow> mixer option \<times> audio_device list" where
  "devices_loop K input_flag first_id second_id devices mx [] = (mx, [])"
| "devices_loop K input_flag first_id second_id devices mx (pdev # pdevs) =
     (if devices = 0 then (mx, pdev # pdevs)
      else if dv_type pdev AND input_flag = input_flag \<and> dv_type pdev AND devices \<noteq> 0
      then (case apply_paths_by_id_l K first_id second_id (mx, pdev) of
              (mx, pdev') \<Rightarrow>
                case devices_loop K input_flag first_id second_id (devices AND NOT (dv_type pdev)) mx pdevs of
                  (mx, pdevs) \<Rightarrow> (mx, pdev' # pdevs))
      else (case devices_loop K input_flag first_id second_id devices mx pdevs of (mx, pdevs) \<Rightarrow> (mx, pdev # pdevs)))"

definition apply_paths_to_devices_l :: "alsa \<Rightarrow> audio_h \<Rightarrow> u32 \<Rightarrow> int \<Rightarrow> int \<Rightarrow> config_mgr \<Rightarrow> config_mgr" where
  "apply_paths_to_devices_l K H devices first_id second_id cm =
     (case devices_loop K (devices AND BIT_IN H) first_id second_id (devices AND NOT (BIT_IN H)) (cm_mixer cm) (cm_devices cm) of
        (mx, pdevs) \<Rightarrow> cm\<lparr>cm_mixer := mx, cm_devices := pdevs\<rparr>)"

fun global_loop :: "alsa \<Rightarrow> int \<Rightarrow> int \<Rightarrow> mixer option \<Rightarrow> audio_device list \<Rightarrow> mixer option \<times> audio_device list" where
  "global_loop K first_id second_id mx [] = (mx, [])"
| "global_loop K first_id second_id mx (pdev # pdevs) =
     (if dv_type pdev = 0
      then (case apply_paths_by_id_l K first_id second_id (mx, pdev) of (mx, pdev) \<Rightarrow> (mx, pdev # pdevs))
      else (case global_loop K first_id second_id mx pdevs of (mx, pdevs) \<Rightarrow> (mx, pdev # pdevs)))"

definition apply_paths_to_global_l :: "alsa \<Rightarrow> int \<Rightarrow> int \<Rightarrow> config_mgr \<Rightarrow> config_mgr" where
  "apply_paths_to_global_l K first_id second_id cm =
     (case global_loop K first_id second_id (cm_mixer cm) (cm_devices cm) of
        (mx, pdevs) \<Rightarrow> cm\<lparr>cm_mixer := mx, cm_devices := pdevs\<rparr>)"

section \<open>Routing\<close>

definition get_current_routes :: "config_mgr \<Rightarrow> nat \<Rightarrow> u32" where
  "get_current_routes cm i = s_current_devices (cm_streams cm ! i)"

definition get_routed_devices :: "config_mgr \<Rightarrow> nat \<Rightarrow> u32" where
  "get_routed_devices cm i = s_current_devices (cm_streams cm ! i)"

definition update_stream :: "nat \<Rightarrow> (audio_stream \<Rightarrow> audio_stream) \<Rightarrow> config_mgr \<Rightarrow> config_mgr" where
  "update_stream i f cm = cm\<lparr>cm_streams := (cm_streams cm)[i := f (cm_streams cm ! i)]\<rparr>"

text \<open>The set of devices a request asks for, \<open>None\<close> when the direction is wrong.\<close>

definition route_devices :: "audio_h \<Rightarrow> hw_stream \<Rightarrow> u32 \<Rightarrow> u32 option" where
  "route_devices H info devices =
     (if devices = 0 then Some 0
      else if devices AND BIT_IN H \<noteq> 0
      then if \<not> stream_is_input info then None else Some ((devices AND IN_ALL H) OR BIT_IN H)
      else if stream_is_input info then None else Some (devices AND OUT_ALL H))"

definition apply_route :: "alsa \<Rightarrow> audio_h \<Rightarrow> nat \<Rightarrow> u32 \<Rightarrow> config_mgr \<Rightarrow> config_mgr" where
  "apply_route K H i devices cm =
     (let s = cm_streams cm ! i;
          enabling = devices AND NOT (s_current_devices s);
          disabling = NOT devices AND s_current_devices s
      in case route_devices H (s_info s) devices of
           None \<Rightarrow> cm
         | Some devices \<Rightarrow>
             let cm = apply_paths_to_devices_l K H disabling (s_disable_path s) e_path_id_off cm;
                 cm = apply_paths_to_devices_l K H enabling e_path_id_on (s_enable_path s) cm
             in update_stream i (\<lambda>s. s\<lparr>s_current_devices := devices\<rparr>) cm)"

section \<open>Volume\<close>

definition volume_value :: "stream_control \<Rightarrow> u32 \<Rightarrow> u32" where
  "volume_value volctl percent =
     (if percent = 0 then sc_min volctl
      else if percent = 100 then sc_max volctl
      else sc_min volctl + percent * (sc_max volctl - sc_min volctl) div 100)"

definition set_vol_ctl :: "alsa \<Rightarrow> stream_control \<Rightarrow> u32 \<Rightarrow> mixer option \<Rightarrow> mixer option" where
  "set_vol_ctl K volctl percent mx =
     snd (mixer_ctl_set_value K mx (mixer_get_ctl mx (sc_id volctl)) (sc_index volctl) (sint (volume_value volctl percent)))"

definition set_hw_volume :: "alsa \<Rightarrow> nat \<Rightarrow> int \<Rightarrow> int \<Rightarrow> config_mgr \<Rightarrow> int \<times> config_mgr" where
  "set_hw_volume K i left_pc right_pc cm =
     (let s = cm_streams cm ! i; left = s_volume_left s; right = s_volume_right s;
          left_pc = (if sc_id right = UINT_MAX then (left_pc + right_pc) sdiv 2 else left_pc);
          (ret, mx) = (if sc_id left \<noteq> UINT_MAX then (0, set_vol_ctl K left (of_int left_pc) (cm_mixer cm)) else (- ENOSYS, cm_mixer cm));
          (ret, mx) = (if sc_id right \<noteq> UINT_MAX then (0, set_vol_ctl K right (of_int right_pc) mx) else (ret, mx))
      in (ret, cm\<lparr>cm_mixer := mx\<rparr>))"

section \<open>Streams\<close>

fun find_named :: "string \<Rightarrow> audio_stream list \<Rightarrow> nat \<Rightarrow> nat option" where
  "find_named name [] i = None"
| "find_named name (s # ss) i = (if s_name s = Some name then Some i else find_named name ss (Suc i))"

definition find_named_stream :: "config_mgr \<Rightarrow> string \<Rightarrow> nat option" where
  "find_named_stream cm name = find_named name (cm_streams cm) 0"

definition open_stream_l :: "alsa \<Rightarrow> nat \<Rightarrow> config_mgr \<Rightarrow> bool \<times> config_mgr" where
  "open_stream_l K i cm =
     (let s = cm_streams cm ! i
      in if s_ref_count s < s_max_ref_count s
         then let cm = update_stream i (\<lambda>s. s\<lparr>s_ref_count := s_ref_count s + 1\<rparr>) cm
              in (True, if s_ref_count s + 1 = 1 then apply_paths_to_global_l K e_path_id_on (s_enable_path s) cm else cm)
         else (False, cm))"

definition wanted_type :: "audio_h \<Rightarrow> u32 \<Rightarrow> nat \<Rightarrow> stream_type" where
  "wanted_type H devices format =
     (if devices AND BIT_IN H \<noteq> 0
      then if is_linear_pcm H format then e_stream_in_pcm else e_stream_in_compress
      else if is_linear_pcm H format then e_stream_out_pcm else e_stream_out_compress)"

fun open_first :: "alsa \<Rightarrow> stream_type \<Rightarrow> nat list \<Rightarrow> config_mgr \<Rightarrow> nat option \<times> config_mgr" where
  "open_first K type [] cm = (None, cm)"
| "open_first K type (i # is) cm =
     (if hs_type (s_info (cm_streams cm ! i)) = type
      then case open_stream_l K i cm of (ok, cm) \<Rightarrow> if ok then (Some i, cm) else open_first K type is cm
      else open_first K type is cm)"

definition get_stream :: "alsa \<Rightarrow> audio_h \<Rightarrow> u32 \<Rightarrow> nat \<Rightarrow> config_mgr \<Rightarrow> nat option \<times> config_mgr" where
  "get_stream K H devices format cm = open_first K (wanted_type H devices format) (rev [0..<length (cm_streams cm)]) cm"

definition get_named_stream :: "alsa \<Rightarrow> string \<Rightarrow> config_mgr \<Rightarrow> nat option \<times> config_mgr" where
  "get_named_stream K name cm =
     (case find_named_stream cm name of
        None \<Rightarrow> (None, cm)
      | Some i \<Rightarrow> (case open_stream_l K i cm of (ok, cm) \<Rightarrow> (if ok then Some i else None, cm)))"

definition is_named_stream_defined :: "config_mgr \<Rightarrow> string \<Rightarrow> bool" where
  "is_named_stream_defined cm name \<longleftrightarrow> find_named_stream cm name \<noteq> None"

definition release_stream :: "alsa \<Rightarrow> audio_h \<Rightarrow> nat option \<Rightarrow> config_mgr \<Rightarrow> config_mgr" where
  "release_stream K H stream cm =
     (case stream of
        None \<Rightarrow> cm
      | Some i \<Rightarrow>
          let s = cm_streams cm ! i;
              cm = update_stream i (\<lambda>s. s\<lparr>s_ref_count := s_ref_count s - 1\<rparr>) cm
          in if s_ref_count s - 1 = 0
             then let cm = apply_paths_to_devices_l K H (s_current_devices s) e_path_id_off (s_disable_path s) cm;
                      cm = apply_paths_to_global_l K (s_disable_path s) e_path_id_off cm
                  in update_stream i (\<lambda>s. s\<lparr>s_current_devices := 0\<rparr>) cm
             else cm)"

definition get_supported_output_devices :: "config_mgr \<Rightarrow> u32" where
  "get_supported_output_devices cm = cm_supported_output_devices cm"

definition get_supported_input_devices :: "config_mgr \<Rightarrow> u32" where
  "get_supported_input_devices cm = cm_supported_input_devices cm"

section \<open>Use cases\<close>

text \<open>The first case of that name in a use case of that name.\<close>

fun find_case :: "string \<Rightarrow> scase list \<Rightarrow> nat \<Rightarrow> nat option" where
  "find_case name [] j = None"
| "find_case name (c # cs) j = (if ca_name c = name then Some j else find_case name cs (Suc j))"

fun find_usecase :: "string \<Rightarrow> string \<Rightarrow> usecase list \<Rightarrow> nat \<Rightarrow> (nat \<times> nat) option" where
  "find_usecase setting name [] u = None"
| "find_usecase setting name (uc # ucs) u =
     (if uc_name uc = setting
      then case find_case name (uc_cases uc) 0 of Some j \<Rightarrow> Some (u, j) | None \<Rightarrow> find_usecase setting name ucs (Suc u)
      else find_usecase setting name ucs (Suc u))"

definition put_case :: "nat \<Rightarrow> nat \<Rightarrow> audio_ctl list \<Rightarrow> audio_stream \<Rightarrow> audio_stream" where
  "put_case u j cs s =
     (let uc = s_usecases s ! u
      in s\<lparr>s_usecases := (s_usecases s)[u := uc\<lparr>uc_cases := (uc_cases uc)[j := (uc_cases uc ! j)\<lparr>ca_ctls := cs\<rparr>]\<rparr>]\<rparr>)"

definition apply_use_case :: "alsa \<Rightarrow> nat \<Rightarrow> string \<Rightarrow> string \<Rightarrow> config_mgr \<Rightarrow> int \<times> config_mgr" where
  "apply_use_case K i setting case_name cm =
     (case find_usecase setting case_name (s_usecases (cm_streams cm ! i)) 0 of
        None \<Rightarrow> (- ENOSYS, cm)
      | Some (u, j) \<Rightarrow>
          (case apply_ctls_l K (cm_mixer cm) (ca_ctls (uc_cases (s_usecases (cm_streams cm ! i) ! u) ! j)) of
             (mx, cs) \<Rightarrow> (0, update_stream i (put_case u j cs) (cm\<lparr>cm_mixer := mx\<rparr>))))"

text \<open>Deleting the configuration closes its mixer; the rest is freeing memory.\<close>

definition free_audio_config :: "config_mgr option \<Rightarrow> snd_req list" where
  "free_audio_config c =
     (case c of None \<Rightarrow> [] | Some cm \<Rightarrow> (case cm_mixer cm of None \<Rightarrow> [] | Some m \<Rightarrow> mixer_close m))"

end
