(* ===== verification/Audio_Controls.thy ===== *)
theory Audio_Controls
  imports Audio_Config
begin

text \<open>
  The controls of a path as \<open>configmgr/audio_config.c\<close> opens and writes them: the union that holds the value is
  always read with the member it was stored with, byte arrays stay inside the control and the buffer on the
  stack, numbers are read back as they are printed, and the volume stays in its range.
\<close>

section \<open>Typed controls\<close>

definition value_typed :: "mixer_ctl_type \<Rightarrow> nat \<Rightarrow> audio_ctl \<Rightarrow> bool" where
  "value_typed type vnum c =
     (case type of
        MIXER_CTL_TYPE_BOOL \<Rightarrow> (case ct_value c of Uinteger n \<Rightarrow> n \<le> UINT_MAX | _ \<Rightarrow> False)
      | MIXER_CTL_TYPE_INT \<Rightarrow> (case ct_value c of Uinteger n \<Rightarrow> n \<le> UINT_MAX | _ \<Rightarrow> False)
      | MIXER_CTL_TYPE_ENUM \<Rightarrow> (case ct_value c of String _ \<Rightarrow> True | _ \<Rightarrow> False)
      | MIXER_CTL_TYPE_BYTE \<Rightarrow>
          (case ct_value c of
             Data bs \<Rightarrow> length bs = ct_array_count c \<and> ct_index c + ct_array_count c \<le> vnum \<and> vnum \<le> BYTE_ARRAY_MAX_SIZE \<and>
               list_all (\<lambda>b. 0 \<le> b \<and> b < 256) bs
           | _ \<Rightarrow> False)
      | _ \<Rightarrow> False)"

definition ctl_typed :: "mixer option \<Rightarrow> audio_ctl \<Rightarrow> bool" where
  "ctl_typed mx c \<longleftrightarrow>
     (if ct_id c = UINT_MAX then (case ct_value c of String _ \<Rightarrow> True | _ \<Rightarrow> False)
      else let ctl = mixer_get_ctl mx (ct_id c)
        in ctl \<noteq> None \<and> ct_type c = mixer_ctl_get_type mx ctl \<and> value_typed (ct_type c) (mixer_ctl_get_num_values mx ctl) c)"

lemma ctl_shape_cong:
  assumes "mixer_shape mx = mixer_shape mx'"
  shows "ctl_info mx (mixer_get_ctl mx n) = ctl_info mx' (mixer_get_ctl mx' n)"
proof (cases "n < length (mixer_shape mx)")
  case True
  then have get: "mixer_get_ctl mx n = Some n" "mixer_get_ctl mx' n = Some n" using assms by (simp_all add: mixer_get_ctl_shape)
  then show ?thesis using ctl_info_shape [OF get(1)] ctl_info_shape [OF get(2)] assms by simp
next
  case False
  then have "mixer_get_ctl mx n = None" "mixer_get_ctl mx' n = None" using assms by (simp_all add: mixer_get_ctl_shape)
  then show ?thesis by (simp add: ctl_info_def split: option.splits)
qed

lemma ctl_typed_shape:
  assumes "mixer_shape mx = mixer_shape mx'"
  shows "ctl_typed mx c = ctl_typed mx' c"
proof -
  have "mixer_get_ctl mx (ct_id c) = mixer_get_ctl mx' (ct_id c)" using assms by (simp add: mixer_get_ctl_shape)
  then show ?thesis using ctl_shape_cong [OF assms, of "ct_id c"]
    by (simp add: ctl_typed_def mixer_ctl_get_type_def mixer_ctl_get_num_values_def Let_def)
qed

lemma string_to_uint_le: "string_to_uint s = Inr v \<Longrightarrow> v \<le> UINT_MAX"
  by (auto simp: string_to_uint_def UINT_MAX_def split: option.splits prod.splits if_splits)

lemma token_bytes_ok: "token_bytes ts = Inr bs \<Longrightarrow> length bs = length ts \<and> list_all (\<lambda>b. 0 \<le> b \<and> b < 256) bs"
  by (induction ts arbitrary: bs) (auto split: sum.splits)

lemma make_byte_array_ok:
  assumes "make_byte_array mx ctl c = (0, c')" "ct_value c = String s"
  shows "value_typed MIXER_CTL_TYPE_BYTE (mixer_ctl_get_num_values mx ctl) c'"
proof -
  define vnum where "vnum = mixer_ctl_get_num_values mx ctl"
  define tokens where "tokens = strtok (CHR '','') (value_string c)"
  have run: "make_byte_array mx ctl c =
      (if vnum > BYTE_ARRAY_MAX_SIZE \<or> ct_index c \<ge> vnum \<or> ct_index c + length tokens > vnum then (- EINVAL, c)
       else case token_bytes tokens of Inl e \<Rightarrow> (e, c\<lparr>ct_array_count := length tokens\<rparr>)
              | Inr bytes \<Rightarrow> (0, c\<lparr>ct_array_count := length tokens, ct_value := Data bytes\<rparr>))"
    by (simp add: make_byte_array_def Let_def vnum_def tokens_def split: sum.split)
  have "token_bytes ts \<noteq> Inl 0" for ts
    by (induction ts) (auto simp: string_to_uint_def split: sum.splits option.splits prod.splits if_splits)
  then obtain bytes where b: "\<not> (vnum > BYTE_ARRAY_MAX_SIZE \<or> ct_index c \<ge> vnum \<or> ct_index c + length tokens > vnum)"
    "token_bytes tokens = Inr bytes" "c' = c\<lparr>ct_array_count := length tokens, ct_value := Data bytes\<rparr>"
    using assms(1) unfolding run by (auto split: if_splits sum.splits)
  then show ?thesis using token_bytes_ok [OF b(2)] by (simp add: value_typed_def vnum_def)
qed

lemma make_byte_array_keeps:
  "make_byte_array mx ctl c = (r, c') \<Longrightarrow> ct_id c' = ct_id c \<and> ct_name c' = ct_name c \<and> (r \<noteq> 0 \<longrightarrow> ct_value c' = ct_value c)"
  by (auto simp: make_byte_array_def Let_def split: if_splits sum.splits)

text \<open>What opening a control yields.\<close>

lemma ctl_open_typed:
  assumes "ctl_typed mx c" "numids_dense mx" "length (mixer_shape mx) \<le> UINT_MAX" "ctl_open mx c = (r, c')"
  shows "ctl_typed mx c' \<and> (r = 0 \<longrightarrow> ct_id c' \<noteq> UINT_MAX)"
proof (cases "ct_id c = UINT_MAX \<and> mixer_get_ctl_by_name mx (ct_name c) \<noteq> None")
  case False
  then show ?thesis using assms(1,4) by (auto simp: ctl_open_def split: if_splits option.splits)
next
  case True
  then obtain n where n: "mixer_get_ctl_by_name mx (ct_name c) = Some n" and closed: "ct_id c = UINT_MAX" by blast
  obtain s where s: "ct_value c = String s"
    using assms(1) closed by (auto simp: ctl_typed_def split: ctl_value.splits)
  have same: "mixer_get_ctl mx (mixer_ctl_get_id mx (Some n)) = Some n" by (rule by_name_id_roundtrip [OF assms(2) n])
  then have id: "mixer_ctl_get_id mx (Some n) < UINT_MAX" using assms(3) by (simp add: mixer_get_ctl_shape split: if_splits)
  have opened: "ctl_typed mx (ctl_opened mx (Some n) d) \<and> ct_id (ctl_opened mx (Some n) d) \<noteq> UINT_MAX"
    if "value_typed (mixer_ctl_get_type mx (Some n)) (mixer_ctl_get_num_values mx (Some n)) d" for d
    using that id same
    by (auto simp: ctl_typed_def ctl_opened_def value_typed_def split: mixer_ctl_type.splits ctl_value.splits)
  have kept: "ctl_typed mx d" if "ct_id d = UINT_MAX" "ct_value d = String s" for d using that by (simp add: ctl_typed_def)
  define c0 where "c0 = (if ct_index c = INVALID_CTL_INDEX then c\<lparr>ct_index := 0\<rparr> else c)"
  have c0: "ct_id c0 = UINT_MAX" "ct_value c0 = String s" using closed s by (auto simp: c0_def)
  show ?thesis
  proof (cases "mixer_ctl_get_type mx (Some n) = MIXER_CTL_TYPE_BYTE")
    case byte: True
    obtain ret c1 where m: "make_byte_array mx (Some n) c0 = (ret, c1)" by fastforce
    then have run: "(r, c') = (if ret \<noteq> 0 then (ret, c1) else (0, ctl_opened mx (Some n) c1))"
      using assms(4) n closed byte by (simp add: ctl_open_def c0_def)
    show ?thesis
    proof (cases "ret = 0")
      case True
      then show ?thesis using run opened [of c1] make_byte_array_ok [of mx "Some n" c0 c1 s] m c0 byte by simp
    next
      case False
      then show ?thesis using run kept [of c1] make_byte_array_keeps [OF m] c0 by simp
    qed
  next
    case False
    have "value_typed t v (c\<lparr>ct_value := Uinteger k\<rparr>)" if "k \<le> UINT_MAX" "t = MIXER_CTL_TYPE_BOOL \<or> t = MIXER_CTL_TYPE_INT" for t v k
      using that by (auto simp: value_typed_def)
    moreover have "value_typed MIXER_CTL_TYPE_ENUM v c" for v using s by (simp add: value_typed_def)
    ultimately show ?thesis
      using assms(4) n closed False opened kept [of c] s string_to_uint_le
      by (auto simp: ctl_open_def split: mixer_ctl_type.splits sum.splits)
  qed
qed

lemma set_elements_shape: "mixer_shape (set_elements K ctl v ns mx) = mixer_shape mx"
proof (induction ns arbitrary: mx)
  case (Cons n ns)
  obtain err mx1 where run: "mixer_ctl_set_value K mx ctl n v = (err, mx1)" by fastforce
  then have "mixer_shape mx1 = mixer_shape mx" using set_value_shape [of K mx ctl n v] by simp
  then show ?case using Cons run by simp
qed simp

lemma write_ctl_shape: "mixer_shape (write_ctl K mx c) = mixer_shape mx"
proof -
  define ctl where "ctl = mixer_get_ctl mx (ct_id c)"
  obtain err data mx1 where g: "mixer_ctl_get_array K mx ctl (mixer_ctl_get_num_values mx ctl) = (err, data, mx1)"
    by (metis prod_cases3)
  have "mixer_shape mx1 = mixer_shape mx" using get_array_shape [of K mx ctl "mixer_ctl_get_num_values mx ctl"] g by simp
  then show ?thesis using g
    by (simp add: write_ctl_def Let_def frame_simps set_elements_shape flip: ctl_def split: mixer_ctl_type.splits)
qed


definition bytes_mixer :: mixer where
  "bytes_mixer = \<lparr>mx_fd = 3,
     mx_ctl = [\<lparr>mc_info = \<lparr>ei_numid = 1, ei_name = ''EQ'', ei_type = ELEM_BYTES, ei_count = 4, ei_min = 0, ei_max = 0, ei_items = 0, ei_tlv_rw = False\<rparr>,
       mc_ename = None\<rparr>], mx_log = []\<rparr>"

definition eq_ctl :: audio_ctl where
  "eq_ctl = \<lparr>ct_id = UINT_MAX, ct_name = ''EQ'', ct_index = 1, ct_array_count = 0, ct_type = MIXER_CTL_TYPE_UNKNOWN, ct_value = String ''7,0x10''\<rparr>"


section \<open>Numbers\<close>

text \<open>
  A number of 32 bits written in decimal is read back as itself, although the reader also accepts octal and
  hexadecimal; what it accepts at all is a whole string with at least one digit, and its value fits 32 bits.
\<close>

theorem uint_roundtrip:
  "(n \<le> UINT_MAX \<longrightarrow> string_to_uint (Some (to_string (int n))) = Inr n) \<and>
   (string_to_uint str = Inr v \<longrightarrow> v \<le> UINT_MAX \<and> (\<exists>s. str = Some s \<and> s \<noteq> []))"
proof -
  have "string_to_uint (Some (nat_digits n)) = Inr n" if le: "n \<le> UINT_MAX"
  proof (cases "n = 0")
    case True
    have "nat_digits 0 = ''0''" by (subst nat_digits.simps) (simp add: char_of_def bit_0)
    then show ?thesis using True
      by (simp add: string_to_uint_def strtoul_def strtoul_base_def is_blank_def digit_value_def Let_def ULONG_MAX_def)
  next
    case False
    then obtain c cs where d: "nat_digits n = c # cs" "is_digit c" "c \<noteq> CHR ''0''" using nat_digits_lead [of n] by auto
    then have "strtoul (nat_digits n) = (n, [])"
      using read_nat_digits [of n] le digit_not_blank [OF d(2)]
      by (auto simp: strtoul_def strtoul_base_def Let_def ULONG_MAX_def UINT_MAX_def split: list.splits)
    then show ?thesis using le d(1) by (simp add: string_to_uint_def UINT_MAX_def)
  qed
  then have "n \<le> UINT_MAX \<longrightarrow> string_to_uint (Some (to_string (int n))) = Inr n" by (simp add: to_string_def)
  moreover have "string_to_uint str = Inr v \<longrightarrow> v \<le> UINT_MAX \<and> (\<exists>s. str = Some s \<and> s \<noteq> [])"
    by (auto simp: string_to_uint_def UINT_MAX_def split: option.splits prod.splits if_splits)
  ultimately show ?thesis by blast
qed

theorem uint_roundtrip_witness: "string_to_uint (Some (to_string 48000)) = Inr 48000"
  using uint_roundtrip [of 48000] by (simp add: UINT_MAX_def)

section \<open>Volume\<close>

text \<open>
  The hardware volume stays in the range of its control: for a percentage up to 100 and a range whose hundredfold
  fits 32 bits the value lies between the minimum and the maximum, is the minimum at 0 and the maximum
  at 100, and grows with the percentage.
\<close>

theorem volume_in_range:
  assumes "sc_min c \<le> sc_max c" "unat (sc_max c - sc_min c) * 100 < 2 ^ 32" "p \<le> 100" "q \<le> p"
  shows "sc_min c \<le> volume_value c p \<and> volume_value c p \<le> sc_max c \<and> volume_value c q \<le> volume_value c p \<and>
    volume_value c 0 = sc_min c \<and> volume_value c 100 = sc_max c"
proof -
  define w where "w = unat (sc_max c - sc_min c)"
  have w: "w = unat (sc_max c) - unat (sc_min c)" using assms(1) by (simp add: w_def unat_sub)
  have le: "unat (sc_min c) + w = unat (sc_max c)" using assms(1) w by (simp add: word_le_nat_alt)
  have lt: "unat (sc_max c) < 2 ^ 32" using unsigned_less [of "sc_max c", where ?'a = nat] by simp
  have val: "unat (volume_value c p) = unat (sc_min c) + unat p * w div 100" if p: "p \<le> 100" for p
  proof -
    have up: "unat p \<le> 100" using p by (simp add: word_le_nat_alt)
    have pw: "unat p * w \<le> 100 * w" using up by (rule mult_right_mono) simp
    also have "100 * w < 2 ^ 32" using assms(2) by (simp only: w_def mult.commute)
    finally have "unat p * w < 2 ^ 32" .
    then have "unat (p * (sc_max c - sc_min c)) = unat p * w" by (simp add: unat_word_ariths w_def)
    then have q: "unat (p * (sc_max c - sc_min c) div 100) = unat p * w div 100" by (simp add: unat_div)
    have "unat p * w div 100 \<le> w" using div_le_mono [OF pw, of 100] by simp
    then have "unat (sc_min c + p * (sc_max c - sc_min c) div 100) = unat (sc_min c) + unat p * w div 100"
      using q le lt by (simp add: unat_word_ariths)
    moreover have "unat p = 100" if "p = 100" using that by simp
    ultimately show ?thesis using le by (auto simp: volume_value_def)
  qed
  have q: "q \<le> 100" using assms(3,4) by simp
  have "unat p \<le> 100" "unat q \<le> unat p" using assms(3,4) by (simp_all add: word_le_nat_alt)
  then have "unat p * w div 100 \<le> w" "unat q * w div 100 \<le> unat p * w div 100"
    using div_le_mono [OF mult_right_mono [of "unat p" 100 w], of 100] by (auto intro: div_le_mono mult_right_mono)
  then show ?thesis using val [OF assms(3)] val [OF q] le by (simp add: word_le_nat_alt) (simp add: volume_value_def)
qed

theorem volume_in_range_witness:
  "volume_value \<lparr>sc_id = 4, sc_index = 0, sc_min = 10, sc_max = 210\<rparr> 25 \<le> 210 \<and>
   volume_value \<lparr>sc_id = 4, sc_index = 0, sc_min = 10, sc_max = 210\<rparr> 20 \<le> volume_value \<lparr>sc_id = 4, sc_index = 0, sc_min = 10, sc_max = 210\<rparr> 25"
  using volume_in_range [of "\<lparr>sc_id = 4, sc_index = 0, sc_min = 10, sc_max = 210\<rparr>" 25 20] by simp

end
