(* ===== verification/Audio_Parse.thy ===== *)
theory Audio_Parse
  imports Audio_Config
begin

text \<open>
  \<open>configmgr/audio_config.c\<close>, the part that reads the configuration file: the tables of elements and attributes,
  the handler of every element, the stack of open elements, and the reading of the file with its redirection
  to the file of another codec. The XML parser is a parameter: it delivers start and end events. The
  pointers into the arrays are positions. A handler returns \<open>None\<close> where the code would dereference a null pointer.
  Memory is never exhausted; an array that cannot grow any more is.
\<close>

section \<open>Arrays that grow\<close>

definition DYN_ARRAY_GRANULE :: nat where
  "DYN_ARRAY_GRANULE = 16"

record 'a dyn_array =
  da_count :: nat
  da_max_count :: nat
  da_data :: "'a list"

text \<open>\<open>z\<close> is the zeroed element; \<open>None\<close> is \<open>- ENOMEM\<close>.\<close>

definition dyn_array_extend :: "'a \<Rightarrow> 'a dyn_array \<Rightarrow> 'a dyn_array option" where
  "dyn_array_extend z a =
     (let new_count = da_count a + 1
      in if new_count > da_max_count a
         then if da_max_count a > 0xFFFF - DYN_ARRAY_GRANULE then None
              else Some (a\<lparr>da_data := take (da_max_count a) (da_data a) @ replicate DYN_ARRAY_GRANULE z,
                           da_max_count := da_max_count a + DYN_ARRAY_GRANULE, da_count := new_count\<rparr>)
         else Some (a\<lparr>da_count := new_count\<rparr>))"

definition dyn_array_fix :: "'a dyn_array \<Rightarrow> 'a dyn_array" where
  "dyn_array_fix a = a\<lparr>da_data := take (da_count a) (da_data a), da_max_count := da_count a\<rparr>"

text \<open>The elements an array holds, and storing into the last one.\<close>

definition elems :: "'a dyn_array \<Rightarrow> 'a list" where
  "elems a = take (da_count a) (da_data a)"

definition dyn_put :: "'a \<Rightarrow> 'a dyn_array \<Rightarrow> 'a dyn_array" where
  "dyn_put x a = a\<lparr>da_data := (da_data a)[da_count a - 1 := x]\<rparr>"

text \<open>The handlers below add to lists; an array filled from empty refuses at this length.\<close>

definition array_full :: "'a list \<Rightarrow> bool" where
  "array_full xs \<longleftrightarrow> length xs \<ge> 65520"

section \<open>Tables\<close>

datatype elem =
    e_elem_ctl | e_elem_path | e_elem_device | e_elem_stream | e_elem_enable | e_elem_disable | e_elem_case
  | e_elem_usecase | e_elem_stream_ctl | e_elem_init | e_elem_mixer | e_elem_audiohal | e_elem_codec_probe | e_elem_codec_case

datatype attrib =
    e_attrib_name | e_attrib_val | e_attrib_path | e_attrib_function | e_attrib_type | e_attrib_index | e_attrib_dir
  | e_attrib_card | e_attrib_device | e_attrib_instances | e_attrib_rate | e_attrib_period_size | e_attrib_period_count
  | e_attrib_min | e_attrib_max | e_attrib_file

definition elem_order :: "elem list" where
  "elem_order =
     [e_elem_ctl, e_elem_path, e_elem_device, e_elem_stream, e_elem_enable, e_elem_disable, e_elem_case, e_elem_usecase,
      e_elem_stream_ctl, e_elem_init, e_elem_mixer, e_elem_audiohal, e_elem_codec_probe, e_elem_codec_case]"

definition attrib_table :: "(attrib \<times> string) list" where
  "attrib_table =
     [(e_attrib_name, ''name''), (e_attrib_val, ''val''), (e_attrib_path, ''path''), (e_attrib_function, ''function''),
      (e_attrib_type, ''type''), (e_attrib_index, ''index''), (e_attrib_dir, ''dir''), (e_attrib_card, ''card''),
      (e_attrib_device, ''device''), (e_attrib_instances, ''instances''), (e_attrib_rate, ''rate''),
      (e_attrib_period_size, ''period_size''), (e_attrib_period_count, ''period_count''), (e_attrib_min, ''min''),
      (e_attrib_max, ''max''), (e_attrib_file, ''file'')]"

fun elem_name :: "elem \<Rightarrow> string" where
  "elem_name e_elem_ctl = ''ctl''"
| "elem_name e_elem_path = ''path''"
| "elem_name e_elem_device = ''device''"
| "elem_name e_elem_stream = ''stream''"
| "elem_name e_elem_enable = ''enable''"
| "elem_name e_elem_disable = ''disable''"
| "elem_name e_elem_case = ''case''"
| "elem_name e_elem_usecase = ''usecase''"
| "elem_name e_elem_stream_ctl = ''ctl''"
| "elem_name e_elem_init = ''init''"
| "elem_name e_elem_mixer = ''mixer''"
| "elem_name e_elem_audiohal = ''audiohal''"
| "elem_name e_elem_codec_probe = ''codec_probe''"
| "elem_name e_elem_codec_case = ''case''"

fun valid_attribs :: "elem \<Rightarrow> attrib list" where
  "valid_attribs e_elem_ctl = [e_attrib_name, e_attrib_val, e_attrib_index]"
| "valid_attribs e_elem_path = [e_attrib_name]"
| "valid_attribs e_elem_device = [e_attrib_name]"
| "valid_attribs e_elem_stream =
     [e_attrib_name, e_attrib_type, e_attrib_dir, e_attrib_card, e_attrib_device, e_attrib_instances, e_attrib_rate,
      e_attrib_period_size, e_attrib_period_count]"
| "valid_attribs e_elem_enable = [e_attrib_path]"
| "valid_attribs e_elem_disable = [e_attrib_path]"
| "valid_attribs e_elem_case = [e_attrib_name]"
| "valid_attribs e_elem_usecase = [e_attrib_name]"
| "valid_attribs e_elem_stream_ctl = [e_attrib_name, e_attrib_function, e_attrib_index, e_attrib_min, e_attrib_max]"
| "valid_attribs e_elem_init = []"
| "valid_attribs e_elem_mixer = [e_attrib_card]"
| "valid_attribs e_elem_audiohal = []"
| "valid_attribs e_elem_codec_probe = [e_attrib_file]"
| "valid_attribs e_elem_codec_case = [e_attrib_name, e_attrib_file]"

fun required_attribs :: "elem \<Rightarrow> attrib list" where
  "required_attribs e_elem_ctl = [e_attrib_name, e_attrib_val]"
| "required_attribs e_elem_path = [e_attrib_name]"
| "required_attribs e_elem_device = [e_attrib_name]"
| "required_attribs e_elem_stream = [e_attrib_type]"
| "required_attribs e_elem_enable = [e_attrib_path]"
| "required_attribs e_elem_disable = [e_attrib_path]"
| "required_attribs e_elem_case = [e_attrib_name]"
| "required_attribs e_elem_usecase = [e_attrib_name]"
| "required_attribs e_elem_stream_ctl = [e_attrib_name, e_attrib_function]"
| "required_attribs e_elem_init = []"
| "required_attribs e_elem_mixer = []"
| "required_attribs e_elem_audiohal = []"
| "required_attribs e_elem_codec_probe = [e_attrib_file]"
| "required_attribs e_elem_codec_case = [e_attrib_name, e_attrib_file]"

fun valid_subelem :: "elem \<Rightarrow> elem list" where
  "valid_subelem e_elem_path = [e_elem_ctl]"
| "valid_subelem e_elem_device = [e_elem_path]"
| "valid_subelem e_elem_stream = [e_elem_stream_ctl, e_elem_enable, e_elem_disable, e_elem_usecase]"
| "valid_subelem e_elem_case = [e_elem_ctl]"
| "valid_subelem e_elem_usecase = [e_elem_case]"
| "valid_subelem e_elem_init = [e_elem_ctl]"
| "valid_subelem e_elem_mixer = [e_elem_init]"
| "valid_subelem e_elem_audiohal = [e_elem_mixer, e_elem_codec_probe]"
| "valid_subelem e_elem_codec_probe = [e_elem_codec_case]"
| "valid_subelem _ = []"

definition MAX_PARSE_DEPTH :: nat where
  "MAX_PARSE_DEPTH = 6"

section \<open>State\<close>

datatype path_ref = Init_path | Device_path nat nat

datatype stop = Running | Suspended | Aborted | Waiting | Corrupted

record parse_state =
  ps_cm :: config_mgr
  ps_parse_error :: int
  ps_attribs :: "attrib \<Rightarrow> string option"
  ps_device :: "nat option"
  ps_stream :: "nat option"
  ps_path :: "path_ref option"
  ps_usecase :: "(nat \<times> nat) option"
  ps_scase :: "(nat \<times> nat \<times> nat) option"
  ps_codec_probe :: bool
  ps_path_names :: "string list"
  ps_init_path :: audio_path
  ps_probe_file :: "string option"
  ps_new_xml_file :: "string option"
  ps_codec_cases :: "(string \<times> string) list"
  ps_cur_xml_file :: string
  ps_stack :: "(elem \<times> elem list) list"
  ps_root_subelem :: "elem list"
  ps_stop :: stop
  ps_log :: "snd_req list"

text \<open>The environment: the kernel, \<open>system/audio.h\<close>, whether the codec probe file can be opened sooner or later, its
  first line (\<open>None\<close> when reading it fails), and the value of the variables \<open>card\<close> and \<open>device\<close> where the code leaves them unset.\<close>

record parse_env =
  pe_alsa :: alsa
  pe_h :: audio_h
  pe_codec_appears :: "string \<Rightarrow> bool"
  pe_codec_line :: "string \<Rightarrow> string option"
  pe_unset :: nat

type_synonym handler = "parse_env \<Rightarrow> parse_state \<Rightarrow> (int \<times> parse_state) option"

section \<open>Names of paths\<close>

fun last_position :: "string \<Rightarrow> string list \<Rightarrow> nat \<Rightarrow> nat option \<Rightarrow> nat option" where
  "last_position name [] i found = found"
| "last_position name (n # ns) i found = last_position name ns (Suc i) (if n = name then Some i else found)"

definition find_path_name :: "parse_state \<Rightarrow> string \<Rightarrow> int" where
  "find_path_name st name = (case last_position name (ps_path_names st) 0 None of None \<Rightarrow> - EINVAL | Some i \<Rightarrow> int i)"

definition add_path_name :: "string \<Rightarrow> parse_state \<Rightarrow> int \<times> parse_state" where
  "add_path_name name st =
     (let index = find_path_name st name
      in if index \<ge> 0 then (index, st)
         else if array_full (ps_path_names st) then (- ENOMEM, st)
         else (int (length (ps_path_names st)), st\<lparr>ps_path_names := ps_path_names st @ [name]\<rparr>))"

definition attrib_to_uint :: "parse_state \<Rightarrow> attrib \<Rightarrow> int + nat" where
  "attrib_to_uint st a = string_to_uint (ps_attribs st a)"

text \<open>A number attribute: absent keeps the old value, malformed is \<open>- EINVAL\<close>.\<close>

definition attrib_or :: "parse_state \<Rightarrow> attrib \<Rightarrow> nat \<Rightarrow> int + nat" where
  "attrib_or st a old =
     (case attrib_to_uint st a of Inr v \<Rightarrow> Inr v | Inl e \<Rightarrow> if e = - EINVAL then Inl (- EINVAL) else Inr old)"

definition the_attrib :: "parse_state \<Rightarrow> attrib \<Rightarrow> string" where
  "the_attrib st a = (case ps_attribs st a of Some s \<Rightarrow> s | None \<Rightarrow> [])"

section \<open>Controls\<close>

definition new_ctl :: "string \<Rightarrow> audio_ctl" where
  "new_ctl name =
     \<lparr>ct_id = UINT_MAX, ct_name = name, ct_index = INVALID_CTL_INDEX, ct_array_count = 0, ct_type = MIXER_CTL_TYPE_UNKNOWN,
      ct_value = String []\<rparr>"

text \<open>Where a \<open>ctl\<close> element goes: the current path if there is one, else the current case.\<close>

definition map_path :: "path_ref \<Rightarrow> (audio_ctl list \<Rightarrow> audio_ctl list) \<Rightarrow> parse_state \<Rightarrow> parse_state" where
  "map_path r f st =
     (case r of
        Init_path \<Rightarrow> st\<lparr>ps_init_path := (ps_init_path st)\<lparr>p_ctls := f (p_ctls (ps_init_path st))\<rparr>\<rparr>
      | Device_path j k \<Rightarrow>
          (let cm = ps_cm st; d = cm_devices cm ! j; p = dv_paths d ! k
           in st\<lparr>ps_cm := cm\<lparr>cm_devices := (cm_devices cm)[j := d\<lparr>dv_paths := (dv_paths d)[k := p\<lparr>p_ctls := f (p_ctls p)\<rparr>]\<rparr>]\<rparr>\<rparr>))"

definition map_case :: "nat \<times> nat \<times> nat \<Rightarrow> (audio_ctl list \<Rightarrow> audio_ctl list) \<Rightarrow> parse_state \<Rightarrow> parse_state" where
  "map_case r f st =
     (case r of (i, u, j) \<Rightarrow>
        (let cm = ps_cm st; s = cm_streams cm ! i; uc = s_usecases s ! u; ca = uc_cases uc ! j
         in st\<lparr>ps_cm := cm\<lparr>cm_streams := (cm_streams cm)[i := s\<lparr>s_usecases := (s_usecases s)[u := uc\<lparr>uc_cases :=
              (uc_cases uc)[j := ca\<lparr>ca_ctls := f (ca_ctls ca)\<rparr>]\<rparr>]\<rparr>]\<rparr>\<rparr>))"

definition target_ctls :: "parse_state \<Rightarrow> audio_ctl list option" where
  "target_ctls st =
     (case ps_path st of
        Some Init_path \<Rightarrow> Some (p_ctls (ps_init_path st))
      | Some (Device_path j k) \<Rightarrow> Some (p_ctls (dv_paths (cm_devices (ps_cm st) ! j) ! k))
      | None \<Rightarrow> (case ps_scase st of
                  None \<Rightarrow> None
                | Some (i, u, j) \<Rightarrow> Some (ca_ctls (uc_cases (s_usecases (cm_streams (ps_cm st) ! i) ! u) ! j))))"

definition map_target :: "(audio_ctl list \<Rightarrow> audio_ctl list) \<Rightarrow> parse_state \<Rightarrow> parse_state" where
  "map_target f st =
     (case ps_path st of
        Some r \<Rightarrow> map_path r f st
      | None \<Rightarrow> (case ps_scase st of None \<Rightarrow> st | Some r \<Rightarrow> map_case r f st))"

text \<open>A malformed index frees the new control, which is an element of the array: unless it is the first one this is
  no address \<open>malloc\<close> returned, and if it is, the array itself is gone, and the \<open>init\<close> path is freed once more when
  the parser is cleaned up.\<close>

definition free_element :: "audio_ctl list \<Rightarrow> parse_state \<Rightarrow> parse_state" where
  "free_element cs st = (if cs \<noteq> [] \<or> ps_path st = Some Init_path then st\<lparr>ps_stop := Corrupted\<rparr> else st)"

definition parse_ctl_start :: handler where
  "parse_ctl_start E st =
     (case target_ctls st of
        None \<Rightarrow> None
      | Some cs \<Rightarrow>
          Some (if array_full cs then (- ENOMEM, st)
                else let c = new_ctl (the_attrib st e_attrib_name)
                  in case attrib_or st e_attrib_index (ct_index c) of
                       Inl e \<Rightarrow> (- EINVAL, free_element cs (map_target (\<lambda>cs. cs @ [c]) st))
                     | Inr index \<Rightarrow>
                         (let c = c\<lparr>ct_index := index, ct_value := String (the_attrib st e_attrib_val)\<rparr>;
                              (ret, c) = ctl_open (cm_mixer (ps_cm st)) c
                          in (if ret = - ENOENT then 0 else ret, map_target (\<lambda>cs. cs @ [c]) st))))"

section \<open>Codec probing\<close>

definition parse_codec_case_start :: handler where
  "parse_codec_case_start E st =
     (if \<not> ps_codec_probe st then None
      else Some (if array_full (ps_codec_cases st) then (- ENOMEM, st)
                 else (0, st\<lparr>ps_codec_cases := ps_codec_cases st @ [(the_attrib st e_attrib_name, the_attrib st e_attrib_file)]\<rparr>)))"

definition probe_trim_spaces :: "string \<Rightarrow> string" where
  "probe_trim_spaces s = trim s"

text \<open>The loop that opens the file every 50 ms until it succeeds has no other end. The line is read into a buffer of
  40 bytes.\<close>

definition probe_config_file :: "parse_env \<Rightarrow> parse_state \<Rightarrow> int \<times> parse_state" where
  "probe_config_file E st =
     (case ps_probe_file st of
        None \<Rightarrow> (- EINVAL, st)
      | Some file \<Rightarrow>
          if \<not> pe_codec_appears E file then (0, st\<lparr>ps_stop := Waiting\<rparr>)
          else
          (case pe_codec_line E file of
             None \<Rightarrow> (- 5, st)
           | Some line \<Rightarrow>
               (let codec = probe_trim_spaces (take 39 line); st = st\<lparr>ps_new_xml_file := None\<rparr>
                in case map_of (ps_codec_cases st) codec of
                     None \<Rightarrow> (0, st)
                   | Some xml \<Rightarrow>
                       if xml = ps_cur_xml_file st then (- EINVAL, st\<lparr>ps_stop := Aborted\<rparr>)
                       else (0, st\<lparr>ps_new_xml_file := Some xml, ps_stop := Suspended\<rparr>))))"

definition parse_codec_probe_start :: handler where
  "parse_codec_probe_start E st =
     Some (if ps_probe_file st = None
           then (0, st\<lparr>ps_probe_file := Some (the_attrib st e_attrib_file), ps_codec_probe := True\<rparr>)
           else (- EINVAL, st))"

definition parse_codec_probe_end :: handler where
  "parse_codec_probe_end E st =
     (if \<not> ps_codec_probe st then None else Some (0, snd (probe_config_file E (st\<lparr>ps_codec_probe := False\<rparr>))))"

definition parse_init_start :: handler where
  "parse_init_start E st = Some (0, st\<lparr>ps_path := Some Init_path\<rparr>)"

section \<open>Paths, cases and use cases\<close>

definition new_path :: "int \<Rightarrow> audio_path" where
  "new_path i = \<lparr>p_id = i, p_ctls = []\<rparr>"

definition parse_path_start :: handler where
  "parse_path_start E st =
     (case ps_device st of
        None \<Rightarrow> None
      | Some j \<Rightarrow>
          Some (case add_path_name (the_attrib st e_attrib_name) st of
                  (i, st) \<Rightarrow>
                    if i < 0 then (i, st)
                    else let cm = ps_cm st; d = cm_devices cm ! j
                      in if array_full (dv_paths d) then (- ENOMEM, st)
                         else (0, st\<lparr>ps_cm := cm\<lparr>cm_devices := (cm_devices cm)[j := d\<lparr>dv_paths := dv_paths d @ [new_path i]\<rparr>]\<rparr>,
                                    ps_path := Some (Device_path j (length (dv_paths d)))\<rparr>)))"

definition parse_path_end :: handler where
  "parse_path_end E st = (if ps_path st = None then None else Some (0, st\<lparr>ps_path := None\<rparr>))"

definition parse_case_start :: handler where
  "parse_case_start E st =
     (case ps_usecase st of
        None \<Rightarrow> None
      | Some (i, u) \<Rightarrow>
          Some (let cm = ps_cm st; s = cm_streams cm ! i; uc = s_usecases s ! u
                in if array_full (uc_cases uc) then (- ENOMEM, st)
                   else (0, st\<lparr>ps_cm := cm\<lparr>cm_streams := (cm_streams cm)[i := s\<lparr>s_usecases := (s_usecases s)[u := uc\<lparr>uc_cases :=
                              uc_cases uc @ [\<lparr>ca_name = the_attrib st e_attrib_name, ca_ctls = []\<rparr>]\<rparr>]\<rparr>]\<rparr>,
                              ps_scase := Some (i, u, length (uc_cases uc))\<rparr>)))"

definition parse_case_end :: handler where
  "parse_case_end E st = (if ps_scase st = None then None else Some (0, st\<lparr>ps_scase := None\<rparr>))"

definition parse_usecase_start :: handler where
  "parse_usecase_start E st =
     (case ps_stream st of
        None \<Rightarrow> None
      | Some i \<Rightarrow>
          Some (let cm = ps_cm st; s = cm_streams cm ! i
                in if array_full (s_usecases s) then (- ENOMEM, st)
                   else (0, st\<lparr>ps_cm := cm\<lparr>cm_streams := (cm_streams cm)[i := s\<lparr>s_usecases :=
                              s_usecases s @ [\<lparr>uc_name = the_attrib st e_attrib_name, uc_cases = []\<rparr>]\<rparr>]\<rparr>,
                              ps_usecase := Some (i, length (s_usecases s))\<rparr>)))"

definition parse_usecase_end :: handler where
  "parse_usecase_end E st = (if ps_usecase st = None then None else Some (0, st))"

section \<open>Streams\<close>

definition set_stream :: "nat \<Rightarrow> (audio_stream \<Rightarrow> audio_stream) \<Rightarrow> parse_state \<Rightarrow> parse_state" where
  "set_stream i f st = st\<lparr>ps_cm := update_stream i f (ps_cm st)\<rparr>"

definition parse_enable_disable_start :: "bool \<Rightarrow> parse_state \<Rightarrow> (int \<times> parse_state) option" where
  "parse_enable_disable_start is_enable st =
     (let i = find_path_name st (the_attrib st e_attrib_path)
      in if i < 0 then Some (- EINVAL, st)
         else case ps_stream st of
                None \<Rightarrow> None
              | Some k \<Rightarrow>
                  Some (0, set_stream k (\<lambda>s. if is_enable then s\<lparr>s_enable_path := i\<rparr> else s\<lparr>s_disable_path := i\<rparr>) st))"

definition parse_enable_start :: handler where
  "parse_enable_start E st = parse_enable_disable_start True st"

definition parse_disable_start :: handler where
  "parse_disable_start E st = parse_enable_disable_start False st"

text \<open>The bound of a volume control: the attribute, or what the control itself reports.\<close>

definition ctl_bound :: "parse_state \<Rightarrow> attrib \<Rightarrow> int \<Rightarrow> int + u32" where
  "ctl_bound st a r =
     (case attrib_to_uint st a of
        Inr v \<Rightarrow> Inr (of_nat v)
      | Inl e \<Rightarrow> if e = - EINVAL then Inl (- EINVAL) else if r < 0 then Inl r else Inr (of_int r))"

definition update_volume :: "bool \<Rightarrow> (stream_control \<Rightarrow> stream_control) \<Rightarrow> audio_stream \<Rightarrow> audio_stream" where
  "update_volume left f s =
     (if left then s\<lparr>s_volume_left := f (s_volume_left s)\<rparr> else s\<lparr>s_volume_right := f (s_volume_right s)\<rparr>)"

definition parse_stream_ctl_start :: handler where
  "parse_stream_ctl_start E st =
     (let mx = cm_mixer (ps_cm st); ctl = mixer_get_ctl_by_name mx (the_attrib st e_attrib_name); function = the_attrib st e_attrib_function
      in if ctl = None then Some (- EINVAL, st)
         else case attrib_or st e_attrib_index 0 of
           Inl e \<Rightarrow> Some (- EINVAL, st)
         | Inr idx_val \<Rightarrow>
             if function \<noteq> ''leftvol'' \<and> function \<noteq> ''rightvol'' then Some (- EINVAL, st)
             else case ps_stream st of
               None \<Rightarrow> None
             | Some k \<Rightarrow>
                 let left = (function = ''leftvol''); st = set_stream k (update_volume left (\<lambda>c. c\<lparr>sc_index := idx_val\<rparr>)) st
                 in case ctl_bound st e_attrib_min (mixer_ctl_get_range_min mx ctl) of
                      Inl e \<Rightarrow> Some (e, st)
                    | Inr lo \<Rightarrow>
                        let st = set_stream k (update_volume left (\<lambda>c. c\<lparr>sc_min := lo\<rparr>)) st
                        in case ctl_bound st e_attrib_max (mixer_ctl_get_range_max mx ctl) of
                             Inl e \<Rightarrow> Some (e, st)
                           | Inr hi \<Rightarrow>
                               Some (0, set_stream k (update_volume left (\<lambda>c. c\<lparr>sc_max := hi, sc_id := mixer_ctl_get_id mx ctl\<rparr>)) st))"

definition new_stream :: audio_stream where
  "new_stream =
     \<lparr>s_info = \<lparr>hs_type = e_stream_out_pcm, hs_card_number = 0, hs_device_number = 0, hs_rate = 0, hs_period_size = 0, hs_period_count = 0\<rparr>,
      s_name = None, s_ref_count = 0, s_max_ref_count = 0, s_enable_path = - 1, s_disable_path = - 1, s_current_devices = 0,
      s_volume_left = \<lparr>sc_id = UINT_MAX, sc_index = 0, sc_min = 0, sc_max = 0\<rparr>,
      s_volume_right = \<lparr>sc_id = UINT_MAX, sc_index = 0, sc_min = 0, sc_max = 0\<rparr>, s_usecases = []\<rparr>"

text \<open>The type of a stream with the defaults of \<open>card\<close> and \<open>device\<close>, or \<open>None\<close> for a combination that is refused.\<close>

definition stream_kind :: "parse_env \<Rightarrow> string option \<Rightarrow> string option \<Rightarrow> string \<Rightarrow> (stream_type \<times> nat) option" where
  "stream_kind E name dir type =
     (let global = (name = Some ''global''); out = (dir = Some ''out'')
      in if dir = None \<and> \<not> global then None
         else if dir \<noteq> None \<and> dir \<noteq> Some ''out'' \<and> dir \<noteq> Some ''in'' then None
         else if global then Some (e_stream_global, pe_unset E)
         else if type = ''hw''
         then if name = None then None else Some (if out then e_stream_out_hw else e_stream_in_hw, pe_unset E)
         else if type = ''pcm'' then Some (if out then e_stream_out_pcm else e_stream_in_pcm, 0)
         else if type = ''compress'' then Some (if out then e_stream_out_compress else e_stream_in_compress, 0)
         else None)"

text \<open>The number attributes in the order they are read; the first malformed one ends the element.\<close>

definition stream_numbers :: "parse_state \<Rightarrow> nat \<Rightarrow> (nat \<times> nat \<times> nat \<times> nat \<times> nat \<times> nat) option" where
  "stream_numbers st dflt =
     (case (attrib_or st e_attrib_card dflt, attrib_or st e_attrib_device dflt, attrib_or st e_attrib_instances 2147483647,
            attrib_or st e_attrib_rate 0, attrib_or st e_attrib_period_count 0, attrib_or st e_attrib_period_size 0) of
        (Inr c, Inr d, Inr m, Inr r, Inr n, Inr s) \<Rightarrow> Some (c, d, m, r, n, s)
      | _ \<Rightarrow> None)"

text \<open>After an error the half-filled stream stays in the array, and the configuration is discarded.\<close>

definition parse_stream_start :: handler where
  "parse_stream_start E st =
     (let name = ps_attribs st e_attrib_name; cm = ps_cm st
      in Some (if name \<noteq> None \<and> find_named_stream cm (the name) \<noteq> None then (- EINVAL, st)
               else if array_full (cm_streams cm) then (- ENOMEM, st)
               else let st' = st\<lparr>ps_cm := cm\<lparr>cm_streams := cm_streams cm @ [new_stream]\<rparr>\<rparr>
                 in case stream_kind E name (ps_attribs st e_attrib_dir) (the_attrib st e_attrib_type) of
                      None \<Rightarrow> (- EINVAL, st')
                    | Some (type, dflt) \<Rightarrow>
                        (case stream_numbers st dflt of
                           None \<Rightarrow> (- EINVAL, st')
                         | Some (c, d, m, r, n, z) \<Rightarrow>
                             (let s = new_stream\<lparr>s_info := \<lparr>hs_type = type, hs_card_number = c mod 256, hs_device_number = d mod 256,
                                        hs_rate = r, hs_period_size = z, hs_period_count = n\<rparr>,
                                        s_name := name, s_max_ref_count := int_of_uint m\<rparr>
                              in (0, st\<lparr>ps_cm := cm\<lparr>cm_streams := cm_streams cm @ [s]\<rparr>, ps_stream := Some (length (cm_streams cm))\<rparr>)))))"

definition parse_stream_end :: handler where
  "parse_stream_end E st = (if ps_stream st = None then None else Some (0, st))"

section \<open>Devices and the mixer\<close>

definition device_table :: "audio_h \<Rightarrow> (string \<times> u32) list" where
  "device_table H =
     [(''global'', 0), (''speaker'', device_flag H ''AUDIO_DEVICE_OUT_SPEAKER''), (''earpiece'', device_flag H ''AUDIO_DEVICE_OUT_EARPIECE''),
      (''headset'', device_flag H ''AUDIO_DEVICE_OUT_WIRED_HEADSET''), (''headset_in'', device_flag H ''AUDIO_DEVICE_IN_WIRED_HEADSET''),
      (''headphone'', device_flag H ''AUDIO_DEVICE_OUT_WIRED_HEADPHONE''), (''sco'', device_flag H ''AUDIO_DEVICE_OUT_ALL_SCO''),
      (''sco_in'', device_flag H ''AUDIO_DEVICE_IN_ALL_SCO''), (''a2dp'', device_flag H ''AUDIO_DEVICE_OUT_ALL_A2DP''),
      (''usb'', device_flag H ''AUDIO_DEVICE_OUT_ALL_USB''), (''mic'', device_flag H ''AUDIO_DEVICE_IN_BUILTIN_MIC''),
      (''back mic'', device_flag H ''AUDIO_DEVICE_IN_BACK_MIC''), (''voice'', device_flag H ''AUDIO_DEVICE_IN_VOICE_CALL''),
      (''aux'', device_flag H ''AUDIO_DEVICE_IN_AUX_DIGITAL'')]"

definition parse_match_device :: "audio_h \<Rightarrow> string \<Rightarrow> u32 option" where
  "parse_match_device H name = map_of (device_table H) name"

definition new_device :: "u32 \<Rightarrow> audio_device" where
  "new_device type = \<lparr>dv_type = type, dv_use_count = 0, dv_paths = []\<rparr>"

definition parse_device_start :: handler where
  "parse_device_start E st =
     (let H = pe_h E; cm = ps_cm st
      in Some (case parse_match_device H (the_attrib st e_attrib_name) of
                 None \<Rightarrow> (- EINVAL, st)
               | Some flag \<Rightarrow>
                   let input = (flag AND BIT_IN H \<noteq> 0);
                       existing = (if input then cm_supported_input_devices cm else cm_supported_output_devices cm)
                   in if flag \<noteq> 0 \<and> flag AND existing = flag then (- EINVAL, st)
                      else let cm = (if flag = 0 then cm
                                     else if input then cm\<lparr>cm_supported_input_devices := existing OR flag\<rparr>
                                     else cm\<lparr>cm_supported_output_devices := existing OR flag\<rparr>)
                        in if array_full (cm_devices cm) then (- ENOMEM, st\<lparr>ps_cm := cm\<rparr>)
                           else (0, st\<lparr>ps_cm := cm\<lparr>cm_devices := cm_devices cm @ [new_device flag]\<rparr>,
                                      ps_device := Some (length (cm_devices cm))\<rparr>)))"

definition parse_device_end :: handler where
  "parse_device_end E st = (if ps_device st = None then None else Some (0, st))"

text \<open>Once the mixer is open its parent admits devices and streams, and no second mixer.\<close>

definition parse_mixer_start :: handler where
  "parse_mixer_start E st =
     Some (case attrib_or st e_attrib_card 0 of
             Inl e \<Rightarrow> (- EINVAL, st)
           | Inr c \<Rightarrow>
               (case mixer_open (pe_alsa E) c (ps_log st) of
                  (mx, l) \<Rightarrow>
                    let st = st\<lparr>ps_cm := (ps_cm st)\<lparr>cm_mixer := mx\<rparr>, ps_log := l\<rparr>
                    in if mx = None then (- EINVAL, st)
                       else (0, (case ps_stack st of
                                   x # (e, subs) # rest \<Rightarrow> st\<lparr>ps_stack := x # (e, [e_elem_device, e_elem_stream]) # rest\<rparr>
                                 | [x] \<Rightarrow> st\<lparr>ps_root_subelem := [e_elem_device, e_elem_stream]\<rparr>
                                 | [] \<Rightarrow> st))))"

section \<open>Events\<close>

definition start_fn :: "elem \<Rightarrow> handler" where
  "start_fn e =
     (case e of
        e_elem_ctl \<Rightarrow> parse_ctl_start
      | e_elem_path \<Rightarrow> parse_path_start
      | e_elem_device \<Rightarrow> parse_device_start
      | e_elem_stream \<Rightarrow> parse_stream_start
      | e_elem_enable \<Rightarrow> parse_enable_start
      | e_elem_disable \<Rightarrow> parse_disable_start
      | e_elem_case \<Rightarrow> parse_case_start
      | e_elem_usecase \<Rightarrow> parse_usecase_start
      | e_elem_stream_ctl \<Rightarrow> parse_stream_ctl_start
      | e_elem_init \<Rightarrow> parse_init_start
      | e_elem_mixer \<Rightarrow> parse_mixer_start
      | e_elem_audiohal \<Rightarrow> (\<lambda>E st. Some (ps_parse_error st, st))
      | e_elem_codec_probe \<Rightarrow> parse_codec_probe_start
      | e_elem_codec_case \<Rightarrow> parse_codec_case_start)"

definition end_fn :: "elem \<Rightarrow> handler option" where
  "end_fn e =
     (case e of
        e_elem_path \<Rightarrow> Some parse_path_end
      | e_elem_device \<Rightarrow> Some parse_device_end
      | e_elem_stream \<Rightarrow> Some parse_stream_end
      | e_elem_case \<Rightarrow> Some parse_case_end
      | e_elem_usecase \<Rightarrow> Some parse_usecase_end
      | e_elem_codec_probe \<Rightarrow> Some parse_codec_probe_end
      | _ \<Rightarrow> None)"

definition parse_set_error :: "int \<Rightarrow> parse_state \<Rightarrow> parse_state" where
  "parse_set_error e st = st\<lparr>ps_parse_error := e\<rparr>"

text \<open>The attributes of an element: \<open>None\<close> for an attribute that is not allowed or a required one that is missing.\<close>

fun read_attribs :: "elem \<Rightarrow> (string \<times> string) list \<Rightarrow> (attrib \<Rightarrow> string option) \<Rightarrow> (attrib \<Rightarrow> string option) option" where
  "read_attribs e [] vals = Some vals"
| "read_attribs e ((n, v) # as) vals =
     (case find (\<lambda>(a, name). a \<in> set (valid_attribs e) \<and> name = n) attrib_table of
        None \<Rightarrow> None
      | Some (a, _) \<Rightarrow> read_attribs e as (vals(a := Some v)))"

definition extract_attribs :: "elem \<Rightarrow> (string \<times> string) list \<Rightarrow> (attrib \<Rightarrow> string option) option" where
  "extract_attribs e as =
     (case read_attribs e as (\<lambda>_. None) of
        None \<Rightarrow> None
      | Some vals \<Rightarrow> if list_all (\<lambda>a. vals a \<noteq> None) (required_attribs e) then Some vals else None)"

definition top_subelem :: "parse_state \<Rightarrow> elem list" where
  "top_subelem st = (case ps_stack st of [] \<Rightarrow> ps_root_subelem st | (e, subs) # _ \<Rightarrow> subs)"

definition parse_section_start :: "parse_env \<Rightarrow> string \<Rightarrow> (string \<times> string) list \<Rightarrow> parse_state \<Rightarrow> parse_state option" where
  "parse_section_start E name as st =
     (if ps_parse_error st \<noteq> 0 then Some st
      else case find (\<lambda>e. e \<in> set (top_subelem st) \<and> name = elem_name e) elem_order of
        None \<Rightarrow> Some (parse_set_error (- EINVAL) st)
      | Some e \<Rightarrow>
          if length (ps_stack st) \<ge> MAX_PARSE_DEPTH then Some (parse_set_error (- EINVAL) st)
          else let st = st\<lparr>ps_stack := (e, valid_subelem e) # ps_stack st\<rparr>
            in case extract_attribs e as of
                 None \<Rightarrow> Some (parse_set_error (- EINVAL) st)
               | Some vals \<Rightarrow>
                   map_option (\<lambda>(r, st). parse_set_error r st) (start_fn e E (st\<lparr>ps_attribs := vals\<rparr>)))"

definition parse_section_end :: "parse_env \<Rightarrow> parse_state \<Rightarrow> parse_state option" where
  "parse_section_end E st =
     (if ps_parse_error st \<noteq> 0 then Some st
      else case ps_stack st of
        [] \<Rightarrow> None
      | (e, subs) # rest \<Rightarrow>
          (case end_fn e of
             None \<Rightarrow> Some (st\<lparr>ps_stack := rest\<rparr>)
           | Some f \<Rightarrow> map_option (\<lambda>(r, st). st\<lparr>ps_parse_error := r, ps_stack := tl (ps_stack st)\<rparr>) (f E st)))"

datatype xml_event = Start string "(string \<times> string) list" | End

definition parse_event :: "parse_env \<Rightarrow> xml_event \<Rightarrow> parse_state \<Rightarrow> parse_state option" where
  "parse_event E ev st =
     (case ev of Start name as \<Rightarrow> parse_section_start E name as st | End \<Rightarrow> parse_section_end E st)"

text \<open>The events the parser delivers until a handler stops it.\<close>

fun parse_events :: "parse_env \<Rightarrow> xml_event list \<Rightarrow> parse_state \<Rightarrow> parse_state option" where
  "parse_events E [] st = Some st"
| "parse_events E (ev # evs) st =
     (if ps_stop st \<noteq> Running then Some st
      else case parse_event E ev st of None \<Rightarrow> None | Some st \<Rightarrow> parse_events E evs st)"

section \<open>Files\<close>

text \<open>A file is its events and whether it is well-formed to the end.\<close>

record xml_file =
  xf_events :: "xml_event list"
  xf_wellformed :: bool

definition do_parse :: "parse_env \<Rightarrow> xml_file \<Rightarrow> parse_state \<Rightarrow> (int \<times> parse_state) option" where
  "do_parse E f st =
     (let st = st\<lparr>ps_parse_error := 0, ps_stack := [], ps_root_subelem := [e_elem_audiohal], ps_stop := Running\<rparr>
      in case parse_events E (xf_events f) st of
           None \<Rightarrow> None
         | Some st \<Rightarrow>
             if ps_stop st = Waiting \<or> ps_stop st = Corrupted then None
             else
             Some (if ps_parse_error st < 0 \<or> ps_stop st = Aborted \<or> ps_stop st = Running \<and> \<not> xf_wellformed f
                   then - EINVAL else 0, st))"

definition new_config_mgr :: config_mgr where
  "new_config_mgr =
     \<lparr>cm_mixer = None, cm_supported_output_devices = 0, cm_supported_input_devices = 0, cm_devices = [], cm_streams = []\<rparr>"

definition init_state :: "snd_req list \<Rightarrow> parse_state" where
  "init_state l =
     \<lparr>ps_cm = new_config_mgr, ps_parse_error = 0, ps_attribs = \<lambda>_. None, ps_device = None, ps_stream = None, ps_path = None,
      ps_usecase = None, ps_scase = None, ps_codec_probe = False, ps_path_names = [''off'', ''on''],
      ps_init_path = \<lparr>p_id = 0, p_ctls = []\<rparr>, ps_probe_file = None, ps_new_xml_file = None, ps_codec_cases = [],
      ps_cur_xml_file = [], ps_stack = [], ps_root_subelem = [], ps_stop = Running, ps_log = l\<rparr>"

text \<open>The loop over the files a codec probe redirects to; \<open>fuel\<close> bounds the number of redirections.
  The outer \<open>None\<close> is a null pointer, a corrupted heap, a wait without end or the end of the fuel.\<close>

fun parse_files :: "nat \<Rightarrow> parse_env \<Rightarrow> (string \<Rightarrow> xml_file option) \<Rightarrow> string \<Rightarrow> parse_state \<Rightarrow> (int \<times> parse_state) option" where
  "parse_files 0 E files name st = None"
| "parse_files (Suc fuel) E files name st =
     (let st = st\<lparr>ps_cur_xml_file := name\<rparr>
      in case files name of
           None \<Rightarrow> Some (- ENOMEM, st)
         | Some f \<Rightarrow>
             (let st = (if ps_new_xml_file st \<noteq> None then st\<lparr>ps_probe_file := None, ps_new_xml_file := None\<rparr> else st)
              in case do_parse E f st of
                   None \<Rightarrow> None
                 | Some (ret, st) \<Rightarrow>
                     (case ps_new_xml_file st of
                        None \<Rightarrow> Some (ret, st)
                      | Some next \<Rightarrow> parse_files fuel E files next st)))"

definition parse_config_file :: "nat \<Rightarrow> parse_env \<Rightarrow> (string \<Rightarrow> xml_file option) \<Rightarrow> string \<Rightarrow> snd_req list \<Rightarrow> (int \<times> config_mgr) option" where
  "parse_config_file fuel E files name l =
     (case parse_files fuel E files name (init_state l) of
        None \<Rightarrow> None
      | Some (ret, st) \<Rightarrow>
          Some (if ret \<ge> 0
                then (ret, (ps_cm st)\<lparr>cm_mixer := fst (apply_path_l (pe_alsa E) (cm_mixer (ps_cm st)) (ps_init_path st))\<rparr>)
                else (ret, ps_cm st)))"

definition init_audio_config :: "nat \<Rightarrow> parse_env \<Rightarrow> (string \<Rightarrow> xml_file option) \<Rightarrow> string \<Rightarrow> snd_req list \<Rightarrow> config_mgr option option" where
  "init_audio_config fuel E files name l =
     map_option (\<lambda>(ret, cm). if ret \<noteq> 0 then None else Some cm) (parse_config_file fuel E files name l)"

end
