(* ===== verification/Audio_Parse_Safety.thy ===== *)
theory Audio_Parse_Safety
  imports Audio_Parse
begin

text \<open>
  The reader of the configuration file is safe on every document: it never follows a null pointer, its stack
  never overflows, and what it builds is a configuration the routing can start from.
\<close>

section \<open>Arrays\<close>

definition dyn_ok :: "'a dyn_array \<Rightarrow> bool" where
  "dyn_ok a \<longleftrightarrow> da_count a \<le> da_max_count a \<and> length (da_data a) = da_max_count a \<and> da_max_count a \<le> 0xFFFF"

lemma extend_ok:
  assumes "dyn_ok a" "dyn_array_extend z a = Some b"
  shows "dyn_ok b" "da_count b = Suc (da_count a)" "elems (dyn_put x b) = elems a @ [x]"
proof -
  have b: "da_count b = Suc (da_count a)" "length (da_data b) = da_max_count b" "take (da_count a) (da_data b) = elems a"
    "da_count b \<le> da_max_count b" "da_max_count b \<le> 0xFFFF"
    using assms by (auto simp: dyn_array_extend_def Let_def dyn_ok_def elems_def DYN_ARRAY_GRANULE_def split: if_splits)
  then show "dyn_ok b" "da_count b = Suc (da_count a)" by (simp_all add: dyn_ok_def)
  have "da_count a < length (da_data b)" using b by simp
  then have "take (Suc (da_count a)) ((da_data b)[da_count a := x]) = take (da_count a) (da_data b) @ [x]"
    by (simp add: take_Suc_conv_app_nth)
  then show "elems (dyn_put x b) = elems a @ [x]" using b by (simp add: elems_def dyn_put_def)
qed

lemma fix_ok: "dyn_ok a \<Longrightarrow> dyn_ok (dyn_array_fix a) \<and> elems (dyn_array_fix a) = elems a"
  by (auto simp: dyn_ok_def dyn_array_fix_def elems_def)

text \<open>An array filled from empty is allocated in whole granules with less than one to spare, so \<open>array_full\<close> is
  the length at which \<open>dyn_array_extend\<close> refuses.\<close>

definition granular :: "'a dyn_array \<Rightarrow> bool" where
  "granular a \<longleftrightarrow> (\<exists>m. da_max_count a = 16 * m \<and> 16 * m < da_count a + 16)"

lemma extend_granular:
  assumes "dyn_ok a" "granular a"
  shows "dyn_array_extend z a = None \<longleftrightarrow> array_full (elems a)"
    "dyn_array_extend z a = Some b \<Longrightarrow> granular b"
proof -
  obtain m where m: "da_max_count a = 16 * m" "16 * m < da_count a + 16" using assms(2) by (auto simp: granular_def)
  have le: "da_count a \<le> 16 * m" "16 * m \<le> 65535" using assms(1) m by (simp_all add: dyn_ok_def)
  have len: "length (elems a) = da_count a" using assms(1) by (simp add: elems_def dyn_ok_def)
  have "m \<le> 4095" using le(2) by presburger
  then have "16 * m \<le> 65520" by simp
  then have "da_count a + 1 > 16 * m \<and> 16 * m > 0xFFFF - 16 \<longleftrightarrow> da_count a \<ge> 65520" using le(1) by auto
  then show "dyn_array_extend z a = None \<longleftrightarrow> array_full (elems a)"
    by (auto simp: dyn_array_extend_def Let_def array_full_def len DYN_ARRAY_GRANULE_def m(1))
  assume b: "dyn_array_extend z a = Some b"
  show "granular b"
  proof (cases "da_count a = 16 * m")
    case True
    then have "da_max_count b = 16 * Suc m" "da_count b = Suc (da_count a)"
      using b m by (auto simp: dyn_array_extend_def Let_def DYN_ARRAY_GRANULE_def split: if_splits)
    then show ?thesis using m True unfolding granular_def by (intro exI [of _ "Suc m"]) simp
  next
    case False
    then have "da_max_count b = 16 * m" "da_count b = Suc (da_count a)"
      using b m le by (auto simp: dyn_array_extend_def Let_def split: if_splits)
    then show ?thesis using m unfolding granular_def by (intro exI [of _ m]) simp
  qed
qed

section \<open>Pointers\<close>

definition path_valid :: "config_mgr \<Rightarrow> path_ref \<Rightarrow> bool" where
  "path_valid cm r =
     (case r of Init_path \<Rightarrow> True | Device_path j k \<Rightarrow> j < length (cm_devices cm) \<and> k < length (dv_paths (cm_devices cm ! j)))"

definition usecase_valid :: "config_mgr \<Rightarrow> nat \<times> nat \<Rightarrow> bool" where
  "usecase_valid cm r = (case r of (i, u) \<Rightarrow> i < length (cm_streams cm) \<and> u < length (s_usecases (cm_streams cm ! i)))"

definition case_valid :: "config_mgr \<Rightarrow> nat \<times> nat \<times> nat \<Rightarrow> bool" where
  "case_valid cm r =
     (case r of (i, u, j) \<Rightarrow> usecase_valid cm (i, u) \<and> j < length (uc_cases (s_usecases (cm_streams cm ! i) ! u)))"

definition pointers_valid :: "parse_state \<Rightarrow> bool" where
  "pointers_valid st \<longleftrightarrow>
     (\<forall>j. ps_device st = Some j \<longrightarrow> j < length (cm_devices (ps_cm st))) \<and>
     (\<forall>i. ps_stream st = Some i \<longrightarrow> i < length (cm_streams (ps_cm st))) \<and>
     (\<forall>r. ps_path st = Some r \<longrightarrow> path_valid (ps_cm st) r) \<and>
     (\<forall>r. ps_usecase st = Some r \<longrightarrow> usecase_valid (ps_cm st) r) \<and>
     (\<forall>r. ps_scase st = Some r \<longrightarrow> case_valid (ps_cm st) r)"

text \<open>A configuration that only grew: positions that were valid stay valid.\<close>

definition grown :: "config_mgr \<Rightarrow> config_mgr \<Rightarrow> bool" where
  "grown cm cm' \<longleftrightarrow>
     length (cm_devices cm) \<le> length (cm_devices cm') \<and> length (cm_streams cm) \<le> length (cm_streams cm') \<and>
     (\<forall>r. path_valid cm r \<longrightarrow> path_valid cm' r) \<and> (\<forall>r. usecase_valid cm r \<longrightarrow> usecase_valid cm' r) \<and>
     (\<forall>r. case_valid cm r \<longrightarrow> case_valid cm' r)"

lemma grown_refl [simp]: "grown cm cm"
  by (simp add: grown_def)

lemma grown_trans: "grown a b \<Longrightarrow> grown b c \<Longrightarrow> grown a c"
  unfolding grown_def by (meson order_trans)

lemma pointers_grown:
  assumes "pointers_valid st" "grown (ps_cm st) (ps_cm st')" "ps_device st' = ps_device st" "ps_stream st' = ps_stream st"
    "ps_path st' = ps_path st" "ps_usecase st' = ps_usecase st" "ps_scase st' = ps_scase st"
  shows "pointers_valid st'"
  using assms unfolding pointers_valid_def grown_def by (metis order_less_le_trans)

text \<open>Growing the devices and the streams.\<close>

lemma grown_devices:
  assumes "cm_streams cm' = cm_streams cm" "length (cm_devices cm) \<le> length (cm_devices cm')"
    "\<And>j. j < length (cm_devices cm) \<Longrightarrow> length (dv_paths (cm_devices cm ! j)) \<le> length (dv_paths (cm_devices cm' ! j))"
  shows "grown cm cm'"
proof -
  have "path_valid cm' r" if "path_valid cm r" for r
  proof (cases r)
    case (Device_path j k)
    then show ?thesis using that assms(2) assms(3) [of j] by (simp add: path_valid_def)
  qed (simp add: path_valid_def)
  then show ?thesis using assms(1,2) by (simp add: grown_def usecase_valid_def case_valid_def)
qed

lemma grown_streams:
  assumes "cm_devices cm' = cm_devices cm" "length (cm_streams cm) \<le> length (cm_streams cm')"
    "\<And>i. i < length (cm_streams cm) \<Longrightarrow> length (s_usecases (cm_streams cm ! i)) \<le> length (s_usecases (cm_streams cm' ! i))"
    "\<And>i u. i < length (cm_streams cm) \<Longrightarrow> u < length (s_usecases (cm_streams cm ! i)) \<Longrightarrow>
       length (uc_cases (s_usecases (cm_streams cm ! i) ! u)) \<le> length (uc_cases (s_usecases (cm_streams cm' ! i) ! u))"
  shows "grown cm cm'"
proof -
  have uc: "usecase_valid cm' (i, u)" if "usecase_valid cm (i, u)" for i u
    using that assms(2) assms(3) [of i] by (simp add: usecase_valid_def)
  moreover have "case_valid cm' (i, u, j)" if "case_valid cm (i, u, j)" for i u j
    using that uc [of i u] assms(4) [of i u] by (simp add: case_valid_def usecase_valid_def)
  ultimately show ?thesis using assms(1,2) by (auto simp: grown_def path_valid_def split: path_ref.splits)
qed

lemma nth_update: "xs[i := x] ! j = (if i = j \<and> j < length xs then x else xs ! j)"
  by (cases "i < length xs") (auto simp: nth_list_update list_update_beyond)

lemma grown_update_stream:
  assumes "\<And>s. s_usecases (f s) = s_usecases s"
  shows "grown cm (update_stream i f cm)"
  by (rule grown_streams) (auto simp: update_stream_def nth_update assms)

lemma grown_same: "cm_devices cm' = cm_devices cm \<Longrightarrow> cm_streams cm' = cm_streams cm \<Longrightarrow> grown cm cm'"
  by (rule grown_devices) auto

section \<open>Handlers\<close>

definition opened :: "parse_state \<Rightarrow> elem \<Rightarrow> bool" where
  "opened st e =
     (case e of
        e_elem_device \<Rightarrow> ps_device st \<noteq> None
      | e_elem_stream \<Rightarrow> ps_stream st \<noteq> None
      | e_elem_path \<Rightarrow> ps_path st \<noteq> None
      | e_elem_init \<Rightarrow> ps_path st \<noteq> None
      | e_elem_usecase \<Rightarrow> ps_usecase st \<noteq> None
      | e_elem_case \<Rightarrow> ps_scase st \<noteq> None
      | e_elem_codec_probe \<Rightarrow> ps_codec_probe st
      | _ \<Rightarrow> True)"

text \<open>What a start handler leaves: valid pointers, nothing closed, the same stack.\<close>

definition stack_kept :: "parse_state \<Rightarrow> parse_state \<Rightarrow> bool" where
  "stack_kept st st' \<longleftrightarrow> ps_stack st' = ps_stack st \<and> ps_root_subelem st' = ps_root_subelem st"

definition step_ok :: "parse_state \<Rightarrow> parse_state \<Rightarrow> bool" where
  "step_ok st st' \<longleftrightarrow> pointers_valid st' \<and> (\<forall>e. opened st e \<longrightarrow> opened st' e)"

lemma step_refl: "pointers_valid st \<Longrightarrow> step_ok st st"
  by (simp add: step_ok_def)

lemma step_grown:
  assumes "pointers_valid st" "grown (ps_cm st) (ps_cm st')" "ps_device st' = ps_device st" "ps_stream st' = ps_stream st"
    "ps_path st' = ps_path st" "ps_usecase st' = ps_usecase st" "ps_scase st' = ps_scase st" "ps_codec_probe st' = ps_codec_probe st"
  shows "step_ok st st'"
  using pointers_grown [OF assms(1-7)] assms(3-8) by (auto simp: step_ok_def opened_def split: elem.splits)

lemma grown_map_path:
  assumes "path_valid (ps_cm st) r"
  shows "grown (ps_cm st) (ps_cm (map_path r f st))"
proof (cases r)
  case (Device_path j k)
  have "length (dv_paths (cm_devices (ps_cm st) ! i)) \<le> length (dv_paths (cm_devices (ps_cm (map_path r f st)) ! i))" for i
    using Device_path by (simp add: map_path_def Let_def nth_update)
  then show ?thesis by (intro grown_devices) (auto simp: map_path_def Let_def Device_path)
qed (simp add: map_path_def)

lemma grown_map_case: "grown (ps_cm st) (ps_cm (map_case r f st))"
proof -
  obtain i u j where r: "r = (i, u, j)" by (metis prod_cases3)
  show ?thesis unfolding r
    by (rule grown_streams) (auto simp: map_case_def Let_def nth_update)
qed

lemma map_target_step: "pointers_valid st \<Longrightarrow> step_ok st (map_target f st) \<and> stack_kept st (map_target f st)"
proof
  assume v: "pointers_valid st"
  have "grown (ps_cm st) (ps_cm (map_target f st))"
    using v grown_map_path [of st _ f] grown_map_case [of st _ f]
    by (auto simp: map_target_def pointers_valid_def split: option.splits)
  then show "step_ok st (map_target f st)"
    by (intro step_grown [OF v])
      (auto simp: map_target_def map_path_def map_case_def Let_def split: option.splits path_ref.splits prod.splits)
  show "stack_kept st (map_target f st)"
    by (auto simp: stack_kept_def map_target_def map_path_def map_case_def Let_def split: option.splits path_ref.splits prod.splits)
qed

lemma free_element_kept:
  "pointers_valid (free_element cs st) = pointers_valid st" "step_ok a (free_element cs st) = step_ok a st"
  "stack_kept a (free_element cs st) = stack_kept a st"
proof -
  have "opened (st\<lparr>ps_stop := Corrupted\<rparr>) e = opened st e" for e by (simp add: opened_def cong: elem.case_cong)
  then show "pointers_valid (free_element cs st) = pointers_valid st" "step_ok a (free_element cs st) = step_ok a st"
    "stack_kept a (free_element cs st) = stack_kept a st"
    by (simp_all add: free_element_def pointers_valid_def step_ok_def stack_kept_def)
qed

lemma ctl_step:
  assumes "pointers_valid st" "ps_path st \<noteq> None \<or> ps_scase st \<noteq> None"
  shows "\<exists>r st'. parse_ctl_start E st = Some (r, st') \<and> step_ok st st' \<and> stack_kept st st'"
proof -
  obtain cs where cs: "target_ctls st = Some cs"
    using assms(2) unfolding target_ctls_def
    by (cases "ps_path st"; cases "ps_scase st"; cases "the (ps_path st)") auto
  have "\<exists>r st'. parse_ctl_start E st = Some (r, st') \<and>
      (st' = st \<or> (\<exists>f. st' = map_target f st) \<or> (\<exists>f cs. st' = free_element cs (map_target f st)))"
    unfolding parse_ctl_start_def cs by (auto simp: Let_def split: sum.splits prod.splits)
  then show ?thesis using map_target_step [OF assms(1)] step_refl [OF assms(1)]
    by (auto simp: free_element_kept) (auto simp: stack_kept_def)
qed

lemma path_step:
  assumes "pointers_valid st" "ps_device st \<noteq> None"
  shows "\<exists>r st'. parse_path_start E st = Some (r, st') \<and> step_ok st st' \<and> stack_kept st st' \<and> (r = 0 \<longrightarrow> ps_path st' \<noteq> None)"
proof -
  obtain j where j: "ps_device st = Some j" using assms(2) by blast
  obtain i st1 where add: "add_path_name (the_attrib st e_attrib_name) st = (i, st1)" by fastforce
  then have st1: "step_ok st st1" "stack_kept st st1" "ps_cm st1 = ps_cm st" "pointers_valid st1"
    using assms(1) by (auto simp: add_path_name_def Let_def step_ok_def stack_kept_def opened_def pointers_valid_def split: if_splits elem.splits)
  define d where "d = cm_devices (ps_cm st1) ! j"
  define st2 where "st2 = st1\<lparr>ps_cm := (ps_cm st1)\<lparr>cm_devices := (cm_devices (ps_cm st1))[j := d\<lparr>dv_paths := dv_paths d @ [new_path i]\<rparr>]\<rparr>,
    ps_path := Some (Device_path j (length (dv_paths d)))\<rparr>"
  have jl: "j < length (cm_devices (ps_cm st1))" using assms(1) j st1(3) by (simp add: pointers_valid_def)
  have "grown (ps_cm st1) (ps_cm st2)" by (rule grown_devices) (auto simp: st2_def nth_update d_def)
  then have "pointers_valid (st2\<lparr>ps_path := ps_path st1\<rparr>)" by (intro pointers_grown [OF st1(4)]) (auto simp: st2_def)
  moreover have "path_valid (ps_cm st2) (Device_path j (length (dv_paths d)))" using jl by (simp add: path_valid_def st2_def)
  ultimately have "pointers_valid st2" by (simp add: pointers_valid_def st2_def)
  then have st2: "step_ok st st2" "stack_kept st st2" "ps_path st2 \<noteq> None"
    using st1 by (auto simp: step_ok_def stack_kept_def opened_def st2_def split: elem.splits)
  have "parse_path_start E st = Some (if i < 0 then (i, st1) else if array_full (dv_paths d) then (- ENOMEM, st1) else (0, st2))"
    by (simp add: parse_path_start_def j add Let_def d_def st2_def)
  then show ?thesis using st1 st2 by auto
qed

lemma case_step:
  assumes "pointers_valid st" "ps_usecase st \<noteq> None"
  shows "\<exists>r st'. parse_case_start E st = Some (r, st') \<and> step_ok st st' \<and> stack_kept st st' \<and> (r = 0 \<longrightarrow> ps_scase st' \<noteq> None)"
proof -
  obtain i u where iu: "ps_usecase st = Some (i, u)" using assms(2) by auto
  define uc where "uc = s_usecases (cm_streams (ps_cm st) ! i) ! u"
  obtain p where "parse_case_start E st = Some p" by (simp add: parse_case_start_def iu)
  then obtain r st' where run: "parse_case_start E st = Some (r, st')" by (cases p) blast
  have valid: "usecase_valid (ps_cm st) (i, u)" using assms(1) iu by (simp add: pointers_valid_def)
  show ?thesis
  proof (cases "array_full (uc_cases uc)")
    case True
    then have "parse_case_start E st = Some (- ENOMEM, st)" by (simp add: parse_case_start_def iu Let_def uc_def)
    then show ?thesis using step_refl [OF assms(1)] by (simp add: stack_kept_def)
  next
    case False
    then have r: "r = 0" "ps_scase st' = Some (i, u, length (uc_cases uc))" "stack_kept st st'" "ps_device st' = ps_device st"
      "ps_stream st' = ps_stream st" "ps_path st' = ps_path st" "ps_usecase st' = ps_usecase st" "ps_codec_probe st' = ps_codec_probe st"
      using run by (auto simp: parse_case_start_def iu Let_def uc_def stack_kept_def)
    have g: "grown (ps_cm st) (ps_cm st')"
      using False run by (intro grown_streams) (auto simp: parse_case_start_def iu Let_def uc_def nth_update)
    then have "pointers_valid (st'\<lparr>ps_scase := ps_scase st\<rparr>)" using r by (intro pointers_grown [OF assms(1)]) auto
    moreover have "case_valid (ps_cm st') (i, u, length (uc_cases uc))"
      using False run valid by (auto simp: parse_case_start_def iu Let_def uc_def case_valid_def usecase_valid_def)
    ultimately have "pointers_valid st'" using r by (simp add: pointers_valid_def)
    then show ?thesis using run r by (auto simp: step_ok_def opened_def split: elem.splits)
  qed
qed

lemma usecase_step:
  assumes "pointers_valid st" "ps_stream st \<noteq> None"
  shows "\<exists>r st'. parse_usecase_start E st = Some (r, st') \<and> step_ok st st' \<and> stack_kept st st' \<and> (r = 0 \<longrightarrow> ps_usecase st' \<noteq> None)"
proof -
  obtain i where i: "ps_stream st = Some i" using assms(2) by auto
  define s where "s = cm_streams (ps_cm st) ! i"
  obtain p where "parse_usecase_start E st = Some p" by (simp add: parse_usecase_start_def i)
  then obtain r st' where run: "parse_usecase_start E st = Some (r, st')" by (cases p) blast
  have valid: "i < length (cm_streams (ps_cm st))" using assms(1) i by (simp add: pointers_valid_def)
  show ?thesis
  proof (cases "array_full (s_usecases s)")
    case True
    then have "parse_usecase_start E st = Some (- ENOMEM, st)" by (simp add: parse_usecase_start_def i Let_def s_def)
    then show ?thesis using step_refl [OF assms(1)] by (simp add: stack_kept_def)
  next
    case False
    then have r: "r = 0" "ps_usecase st' = Some (i, length (s_usecases s))" "stack_kept st st'" "ps_device st' = ps_device st"
      "ps_stream st' = ps_stream st" "ps_path st' = ps_path st" "ps_scase st' = ps_scase st" "ps_codec_probe st' = ps_codec_probe st"
      using run by (auto simp: parse_usecase_start_def i Let_def s_def stack_kept_def)
    have g: "grown (ps_cm st) (ps_cm st')"
      using False run by (intro grown_streams) (auto simp: parse_usecase_start_def i Let_def s_def nth_update nth_append)
    then have "pointers_valid (st'\<lparr>ps_usecase := ps_usecase st\<rparr>)" using r by (intro pointers_grown [OF assms(1)]) auto
    moreover have "usecase_valid (ps_cm st') (i, length (s_usecases s))"
      using False run valid by (auto simp: parse_usecase_start_def i Let_def s_def usecase_valid_def)
    ultimately have "pointers_valid st'" using r by (simp add: pointers_valid_def)
    then show ?thesis using run r by (auto simp: step_ok_def opened_def split: elem.splits)
  qed
qed

lemma set_stream_step:
  assumes "pointers_valid st" "\<And>s. s_usecases (f s) = s_usecases s"
  shows "step_ok st (set_stream k f st) \<and> stack_kept st (set_stream k f st)"
  using step_grown [OF assms(1), of "set_stream k f st"] grown_update_stream [OF assms(2)]
  by (simp add: set_stream_def stack_kept_def)

lemma enable_disable_step:
  assumes "pointers_valid st" "ps_stream st \<noteq> None"
  shows "\<exists>r st'. parse_enable_disable_start b st = Some (r, st') \<and> step_ok st st' \<and> stack_kept st st'"
proof -
  obtain k where k: "ps_stream st = Some k" using assms(2) by blast
  define i where "i = find_path_name st (the_attrib st e_attrib_path)"
  define f :: "audio_stream \<Rightarrow> audio_stream" where "f = (\<lambda>s. if b then s\<lparr>s_enable_path := i\<rparr> else s\<lparr>s_disable_path := i\<rparr>)"
  have "parse_enable_disable_start b st = Some (if i < 0 then (- EINVAL, st) else (0, set_stream k f st))"
    unfolding parse_enable_disable_start_def k Let_def f_def i_def [symmetric] by simp
  moreover have "step_ok st (set_stream k f st) \<and> stack_kept st (set_stream k f st)"
    by (rule set_stream_step [OF assms(1)]) (simp add: f_def)
  ultimately show ?thesis using step_refl [OF assms(1)] by (simp add: stack_kept_def)
qed

lemma step_trans: "step_ok a b \<Longrightarrow> step_ok b c \<Longrightarrow> step_ok a c"
  by (simp add: step_ok_def)

lemma stack_kept_refl [simp]: "stack_kept st st"
  by (simp add: stack_kept_def)

lemma stack_kept_trans: "stack_kept a b \<Longrightarrow> stack_kept b c \<Longrightarrow> stack_kept a c"
  by (simp add: stack_kept_def)

lemma update_volume_usecases [simp]: "s_usecases (update_volume l f s) = s_usecases s"
  by (simp add: update_volume_def)

lemma step_valid: "step_ok a b \<Longrightarrow> pointers_valid b"
  by (simp add: step_ok_def)

lemma stream_ctl_step:
  assumes "pointers_valid st" "ps_stream st \<noteq> None"
  shows "\<exists>r st'. parse_stream_ctl_start E st = Some (r, st') \<and> step_ok st st' \<and> stack_kept st st'"
proof -
  obtain k where k: "ps_stream st = Some k" using assms(2) by blast
  define good where "good x = (step_ok st x \<and> stack_kept st x)" for x
  have here: "good st" using step_refl [OF assms(1)] by (simp add: good_def)
  have set_good: "good (set_stream k (update_volume l f) x)" if "good x" for l f x
    using that set_stream_step [of x "update_volume l f" k] step_trans stack_kept_trans step_valid
    unfolding good_def by (metis update_volume_usecases)
  have "\<exists>r st'. parse_stream_ctl_start E st = Some (r, st') \<and> good st'"
    unfolding parse_stream_ctl_start_def Let_def k
    by (auto simp: here set_good split: sum.split)
  then show ?thesis by (simp add: good_def)
qed

lemma find_named_append_less: "i < length (cm_streams cm) \<Longrightarrow> (cm_streams cm @ xs) ! i = cm_streams cm ! i"
  by (simp add: nth_append)

lemma grown_add_stream: "grown cm (cm\<lparr>cm_streams := cm_streams cm @ [s]\<rparr>)"
  by (rule grown_streams) (auto simp: nth_append)

lemma grown_add_device: "grown cm (cm\<lparr>cm_devices := cm_devices cm @ [d]\<rparr>)"
  by (rule grown_devices) (auto simp: nth_append)

lemma stream_step:
  assumes "pointers_valid st"
  shows "\<exists>r st'. parse_stream_start E st = Some (r, st') \<and> step_ok st st' \<and> stack_kept st st' \<and> (r = 0 \<longrightarrow> ps_stream st' \<noteq> None)"
proof -
  define add where "add s = st\<lparr>ps_cm := (ps_cm st)\<lparr>cm_streams := cm_streams (ps_cm st) @ [s]\<rparr>\<rparr>" for s
  have add: "step_ok st (add s)" for s
    by (rule step_grown [OF assms]) (auto simp: add_def intro: grown_add_stream)
  have open_add: "step_ok st ((add s)\<lparr>ps_stream := Some (length (cm_streams (ps_cm st)))\<rparr>)" for s
    using add [of s] by (auto simp: step_ok_def pointers_valid_def opened_def add_def split: elem.splits)
  have kept: "stack_kept st (add s)" for s by (simp add: add_def stack_kept_def)
  have "\<exists>r st'. parse_stream_start E st = Some (r, st') \<and>
      (st' = st \<and> r \<noteq> 0 \<or> (\<exists>s. st' = add s \<and> r \<noteq> 0 \<or> st' = (add s)\<lparr>ps_stream := Some (length (cm_streams (ps_cm st)))\<rparr>))"
    unfolding parse_stream_start_def Let_def add_def
    by (auto split: option.split prod.split)
  then show ?thesis using add open_add kept step_refl [OF assms] by (auto simp: stack_kept_def)
qed

lemma device_step:
  assumes "pointers_valid st"
  shows "\<exists>r st'. parse_device_start E st = Some (r, st') \<and> step_ok st st' \<and> stack_kept st st' \<and> (r = 0 \<longrightarrow> ps_device st' \<noteq> None)"
proof -
  define same :: "config_mgr \<Rightarrow> bool" where "same cm = (cm_devices cm = cm_devices (ps_cm st) \<and> cm_streams cm = cm_streams (ps_cm st))" for cm
  define add where "add cm d = st\<lparr>ps_cm := cm\<lparr>cm_devices := cm_devices cm @ [d]\<rparr>\<rparr>" for cm d
  have add: "step_ok st (add cm d)" if "same cm" for cm d
  proof (rule step_grown [OF assms])
    have "grown (ps_cm st) cm" using that by (intro grown_same) (auto simp: same_def)
    then show "grown (ps_cm st) (ps_cm (add cm d))" using grown_add_device [of cm d] by (simp add: add_def grown_trans)
  qed (simp_all add: add_def)
  have open_add: "step_ok st ((add cm d)\<lparr>ps_device := Some (length (cm_devices cm))\<rparr>)" if "same cm" for cm d
    using add [OF that, of d] by (auto simp: step_ok_def pointers_valid_def opened_def add_def split: elem.splits)
  have keep: "step_ok st (st\<lparr>ps_cm := cm\<rparr>)" if "same cm" for cm
    using that by (intro step_grown [OF assms] grown_same) (auto simp: same_def)
  show ?thesis
  proof (cases "parse_match_device (pe_h E) (the_attrib st e_attrib_name)")
    case None
    then show ?thesis using step_refl [OF assms] by (simp add: parse_device_start_def)
  next
    case (Some flag)
    define input where "input \<longleftrightarrow> flag AND BIT_IN (pe_h E) \<noteq> 0"
    define existing where "existing = (if input then cm_supported_input_devices (ps_cm st) else cm_supported_output_devices (ps_cm st))"
    define cm where "cm = (if flag = 0 then ps_cm st
      else if input then (ps_cm st)\<lparr>cm_supported_input_devices := existing OR flag\<rparr>
      else (ps_cm st)\<lparr>cm_supported_output_devices := existing OR flag\<rparr>)"
    have "same cm" by (simp add: same_def cm_def)
    moreover have "parse_device_start E st = Some
        (if flag \<noteq> 0 \<and> flag AND existing = flag then (- EINVAL, st)
         else if array_full (cm_devices cm) then (- ENOMEM, st\<lparr>ps_cm := cm\<rparr>)
         else (0, (add cm (new_device flag))\<lparr>ps_device := Some (length (cm_devices cm))\<rparr>))"
      unfolding parse_device_start_def Let_def Some option.case input_def [symmetric] existing_def [symmetric]
        cm_def [symmetric] add_def by simp
    ultimately show ?thesis using open_add keep step_refl [OF assms] by (auto simp: stack_kept_def add_def)
  qed
qed

lemma mixer_step:
  assumes "pointers_valid st"
  shows "\<exists>r st'. parse_mixer_start E st = Some (r, st') \<and> step_ok st st' \<and>
           (stack_kept st st' \<or>
            (\<exists>x e subs rest. ps_stack st = x # (e, subs) # rest \<and> ps_stack st' = x # (e, [e_elem_device, e_elem_stream]) # rest \<and>
              ps_root_subelem st' = ps_root_subelem st) \<or> (\<exists>x. ps_stack st = [x]))"
proof -
  define near :: "parse_state \<Rightarrow> bool" where "near st' = (ps_device st' = ps_device st \<and> ps_stream st' = ps_stream st \<and> ps_path st' = ps_path st \<and>
    ps_usecase st' = ps_usecase st \<and> ps_scase st' = ps_scase st \<and> ps_codec_probe st' = ps_codec_probe st \<and>
    cm_devices (ps_cm st') = cm_devices (ps_cm st) \<and> cm_streams (ps_cm st') = cm_streams (ps_cm st))" for st'
  have near: "step_ok st st'" if "near st'" for st'
    using that by (intro step_grown [OF assms] grown_same) (auto simp: near_def)
  show ?thesis
    unfolding parse_mixer_start_def Let_def stack_kept_def
    by (cases "attrib_or st e_attrib_card 0")
      (auto intro!: near step_refl [OF assms] simp: near_def split: prod.split list.split)
qed

section \<open>Every start handler\<close>

definition needs :: "parse_state \<Rightarrow> elem \<Rightarrow> bool" where
  "needs st e =
     (case e of
        e_elem_ctl \<Rightarrow> ps_path st \<noteq> None \<or> ps_scase st \<noteq> None
      | e_elem_path \<Rightarrow> ps_device st \<noteq> None
      | e_elem_case \<Rightarrow> ps_usecase st \<noteq> None
      | e_elem_usecase \<Rightarrow> ps_stream st \<noteq> None
      | e_elem_enable \<Rightarrow> ps_stream st \<noteq> None
      | e_elem_disable \<Rightarrow> ps_stream st \<noteq> None
      | e_elem_stream_ctl \<Rightarrow> ps_stream st \<noteq> None
      | e_elem_codec_case \<Rightarrow> ps_codec_probe st
      | _ \<Rightarrow> True)"

definition handled :: "parse_env \<Rightarrow> elem \<Rightarrow> parse_state \<Rightarrow> bool" where
  "handled E e st \<longleftrightarrow>
     (\<exists>r st'. start_fn e E st = Some (r, st') \<and> step_ok st st' \<and> stack_kept st st' \<and> (r = 0 \<longrightarrow> opened st' e))"

lemma handled_others:
  assumes "pointers_valid st" "needs st e" "e \<in> {e_elem_init, e_elem_audiohal, e_elem_codec_probe, e_elem_codec_case}"
  shows "handled E e st"
proof -
  have "step_ok st (st\<lparr>ps_path := Some Init_path\<rparr>)"
    using assms(1) by (auto simp: step_ok_def pointers_valid_def path_valid_def opened_def split: elem.splits)
  moreover have "step_ok st (st\<lparr>ps_probe_file := f, ps_codec_probe := True\<rparr>)" "step_ok st (st\<lparr>ps_codec_cases := cs\<rparr>)" for f cs
    using assms(1) by (auto simp: step_ok_def pointers_valid_def opened_def split: elem.splits)
  ultimately show ?thesis using assms(2,3) step_refl [OF assms(1)]
    by (auto simp: handled_def needs_def start_fn_def parse_init_start_def parse_codec_probe_start_def parse_codec_case_start_def
        stack_kept_def opened_def)
qed

lemma start_step:
  assumes "pointers_valid st" "needs st e" "e \<noteq> e_elem_mixer"
  shows "handled E e st"
proof (cases "e \<in> {e_elem_init, e_elem_audiohal, e_elem_codec_probe, e_elem_codec_case}")
  case True
  then show ?thesis using handled_others [OF assms(1,2)] by blast
next
  case False
  note v = assms(1)
  have handledI: "handled E e st"
    if "\<exists>r st'. start_fn e E st = Some (r, st') \<and> step_ok st st' \<and> stack_kept st st' \<and> (r = 0 \<longrightarrow> opened st' e)"
    using that by (simp add: handled_def)
  show ?thesis
  proof (cases e)
    case e_elem_ctl
    then show ?thesis using handledI ctl_step [OF v] assms(2) by (simp add: needs_def start_fn_def opened_def)
  next
    case e_elem_path
    then show ?thesis using handledI path_step [OF v] assms(2) by (simp add: needs_def start_fn_def opened_def)
  next
    case e_elem_device
    then show ?thesis using handledI device_step [OF v] by (simp add: start_fn_def opened_def)
  next
    case e_elem_stream
    then show ?thesis using handledI stream_step [OF v] by (simp add: start_fn_def opened_def)
  next
    case e_elem_enable
    then show ?thesis using handledI enable_disable_step [OF v] assms(2)
      by (simp add: needs_def start_fn_def opened_def parse_enable_start_def)
  next
    case e_elem_disable
    then show ?thesis using handledI enable_disable_step [OF v] assms(2)
      by (simp add: needs_def start_fn_def opened_def parse_disable_start_def)
  next
    case e_elem_case
    then show ?thesis using handledI case_step [OF v] assms(2) by (simp add: needs_def start_fn_def opened_def)
  next
    case e_elem_usecase
    then show ?thesis using handledI usecase_step [OF v] assms(2) by (simp add: needs_def start_fn_def opened_def)
  next
    case e_elem_stream_ctl
    then show ?thesis using handledI stream_ctl_step [OF v] assms(2) by (simp add: needs_def start_fn_def opened_def)
  qed (use False assms(3) in simp_all)
qed

section \<open>The stack of elements\<close>

definition child :: "elem \<Rightarrow> elem \<Rightarrow> bool" where
  "child p e \<longleftrightarrow> e \<in> set (valid_subelem p) \<or> p = e_elem_audiohal \<and> (e = e_elem_device \<or> e = e_elem_stream)"

lemma child_mixer: "child p e_elem_mixer \<longleftrightarrow> p = e_elem_audiohal"
  by (cases p) (auto simp: child_def)

lemma child_audiohal: "\<not> child p e_elem_audiohal"
  by (cases p) (auto simp: child_def)

fun wf_stack :: "(elem \<times> elem list) list \<Rightarrow> bool" where
  "wf_stack [] = True"
| "wf_stack [(e, subs)] = (e = e_elem_audiohal \<and> list_all (child e) subs)"
| "wf_stack ((e, subs) # (p, ps) # rest) = (list_all (child e) subs \<and> child p e \<and> wf_stack ((p, ps) # rest))"

fun height :: "elem \<Rightarrow> nat" where
  "height e_elem_audiohal = 5"
| "height e_elem_stream = 4"
| "height e_elem_usecase = 3"
| "height e_elem_device = 3"
| "height e_elem_mixer = 3"
| "height e_elem_case = 2"
| "height e_elem_path = 2"
| "height e_elem_init = 2"
| "height e_elem_codec_probe = 2"
| "height _ = 1"

lemma child_height: "child p e \<Longrightarrow> height e < height p"
  by (cases p) (auto simp: child_def)

lemma wf_stack_height: "wf_stack (x # rest) \<Longrightarrow> length rest + height (fst x) \<le> 5"
proof (induction rest arbitrary: x)
  case Nil
  then show ?case by (cases x) simp
next
  case (Cons y ys)
  then show ?case using child_height [of "fst y" "fst x"] by (cases x; cases y) fastforce
qed

lemma height_pos: "height e \<ge> 1"
  by (cases e) auto

lemma wf_stack_length: "wf_stack s \<Longrightarrow> length s \<le> 5"
  using wf_stack_height [of "hd s" "tl s"] height_pos [of "fst (hd s)"] by (cases s) auto

lemma wf_stack_push:
  assumes "wf_stack s" "rt = [e_elem_audiohal]" "e \<in> set (case s of [] \<Rightarrow> rt | (p, subs) # _ \<Rightarrow> subs)"
  shows "wf_stack ((e, valid_subelem e) # s)"
proof (cases s)
  case Nil
  then show ?thesis using assms(2,3) by (simp add: child_def list_all_iff)
next
  case (Cons x rest)
  obtain p subs where x: "x = (p, subs)" by fastforce
  have "list_all (child p) subs" using assms(1) Cons x by (cases rest) auto
  then show ?thesis using assms Cons x by (auto simp: child_def list_all_iff)
qed

lemma wf_stack_above: "wf_stack ((e, subs) # rest) \<Longrightarrow> (p, ps) \<in> set rest \<Longrightarrow> height e < height p"
proof (induction rest arbitrary: e subs)
  case (Cons y ys)
  obtain q qs where y: "y = (q, qs)" by fastforce
  have "height e < height q" "wf_stack ((q, qs) # ys)" using Cons.prems(1) child_height by (auto simp: y)
  then show ?case using Cons.IH [of q qs] Cons.prems(2) by (auto simp: y)
qed simp

lemma wf_stack_tl: "wf_stack (x # rest) \<Longrightarrow> wf_stack rest"
  by (cases rest; cases x; cases "hd rest") auto

section \<open>Events\<close>

definition parse_inv :: "nat \<Rightarrow> parse_state \<Rightarrow> bool" where
  "parse_inv n st \<longleftrightarrow>
     pointers_valid st \<and> length (ps_stack st) \<le> 5 \<and>
     (ps_parse_error st = 0 \<longrightarrow>
        length (ps_stack st) = n \<and> wf_stack (ps_stack st) \<and> ps_root_subelem st = [e_elem_audiohal] \<and>
        (\<forall>x\<in>set (ps_stack st). opened st (fst x)))"

lemma inv_failed: "pointers_valid st \<Longrightarrow> length (ps_stack st) \<le> 5 \<Longrightarrow> ps_parse_error st \<noteq> 0 \<Longrightarrow> parse_inv n st"
  by (simp add: parse_inv_def)

text \<open>The state a handler is called in.\<close>

lemma parent_needs:
  assumes "wf_stack ((e, subs) # rest)" "\<forall>x\<in>set rest. opened st (fst x)"
  shows "needs st e"
proof (cases rest)
  case Nil
  then show ?thesis using assms(1) by (simp add: needs_def)
next
  case (Cons x ys)
  obtain p ps where x: "x = (p, ps)" by fastforce
  have "child p e" "opened st p" using assms by (simp_all add: Cons x)
  then show ?thesis by (cases p) (auto simp: child_def needs_def opened_def)
qed

lemma irrelevant_fields [simp]:
  "pointers_valid (st\<lparr>ps_parse_error := r\<rparr>) = pointers_valid st" "opened (st\<lparr>ps_parse_error := r\<rparr>) e = opened st e"
  "pointers_valid (st\<lparr>ps_stack := s\<rparr>) = pointers_valid st" "opened (st\<lparr>ps_stack := s\<rparr>) e = opened st e"
  "pointers_valid (st\<lparr>ps_attribs := a\<rparr>) = pointers_valid st" "opened (st\<lparr>ps_attribs := a\<rparr>) e = opened st e"
  by (simp_all add: pointers_valid_def opened_def cong: elem.case_cong)

lemma start_handler_inv:
  assumes "pointers_valid st" "ps_stack st = (e, valid_subelem e) # s" "wf_stack (ps_stack st)"
    "ps_root_subelem st = [e_elem_audiohal]" "\<forall>x\<in>set s. opened st (fst x)"
  shows "\<exists>r st'. start_fn e E st = Some (r, st') \<and> parse_inv (Suc (length s)) (st'\<lparr>ps_parse_error := r\<rparr>)"
proof (cases "e = e_elem_mixer")
  case False
  have "needs st e" using parent_needs [of e "valid_subelem e" s st] assms by simp
  then obtain r st' where "start_fn e E st = Some (r, st')" "step_ok st st'" "stack_kept st st'" "r = 0 \<longrightarrow> opened st' e"
    using start_step [OF assms(1) _ False, of E] by (auto simp: handled_def)
  moreover have "length (ps_stack st) \<le> 5" by (rule wf_stack_length [OF assms(3)])
  ultimately show ?thesis using assms by (auto simp: parse_inv_def step_ok_def stack_kept_def)
next
  case True
  obtain subs where s: "s = [(e_elem_audiohal, subs)]"
    using assms(2,3) True by (cases s; cases "tl s"; cases "hd s") (auto simp: child_mixer child_audiohal)
  obtain r st' where run: "start_fn e E st = Some (r, st')" "step_ok st st'"
    "stack_kept st st' \<or> ps_stack st' = [(e, valid_subelem e), (e_elem_audiohal, [e_elem_device, e_elem_stream])] \<and>
      ps_root_subelem st' = [e_elem_audiohal]"
    using mixer_step [OF assms(1), of E] assms(2,4) s by (auto simp: True start_fn_def)
  have "wf_stack (ps_stack st')" "length (ps_stack st') = 2" "ps_root_subelem st' = [e_elem_audiohal]"
    "\<forall>x\<in>set (ps_stack st'). fst x = e_elem_mixer \<or> fst x = e_elem_audiohal"
    using run(3) assms(2-4) s True by (auto simp: stack_kept_def child_def)
  moreover have "opened st' e_elem_mixer" "opened st' e_elem_audiohal" by (simp_all add: opened_def)
  ultimately show ?thesis using run(1,2) s by (auto simp: parse_inv_def step_ok_def)
qed

lemma section_start_inv:
  assumes "parse_inv n st"
  shows "\<exists>st'. parse_section_start E name as st = Some st' \<and> parse_inv (Suc n) st'"
proof (cases "ps_parse_error st = 0")
  case False
  then show ?thesis using assms by (simp add: parse_section_start_def parse_inv_def)
next
  case True
  then have inv: "pointers_valid st" "length (ps_stack st) \<le> 5" "length (ps_stack st) = n" "wf_stack (ps_stack st)"
    "ps_root_subelem st = [e_elem_audiohal]" "\<forall>x\<in>set (ps_stack st). opened st (fst x)"
    using assms by (auto simp: parse_inv_def)
  show ?thesis
  proof (cases "find (\<lambda>e. e \<in> set (top_subelem st) \<and> name = elem_name e) elem_order")
    case None
    then show ?thesis using inv(1,2) True by (auto simp: parse_section_start_def parse_set_error_def intro!: inv_failed)
  next
    case (Some e)
    define st1 where "st1 = st\<lparr>ps_stack := (e, valid_subelem e) # ps_stack st\<rparr>"
    have "e \<in> set (top_subelem st)" using Some by (auto simp: find_Some_iff)
    then have wf: "wf_stack (ps_stack st1)"
      using wf_stack_push [OF inv(4,5)] by (simp add: st1_def top_subelem_def)
    have run: "parse_section_start E name as st =
        (case extract_attribs e as of None \<Rightarrow> Some (parse_set_error (- EINVAL) st1)
         | Some vals \<Rightarrow> map_option (\<lambda>(r, st). parse_set_error r st) (start_fn e E (st1\<lparr>ps_attribs := vals\<rparr>)))"
      using True Some inv(2) by (simp add: parse_section_start_def MAX_PARSE_DEPTH_def st1_def Let_def split: option.split)
    show ?thesis
    proof (cases "extract_attribs e as")
      case None
      have "length (ps_stack st1) \<le> 5" by (rule wf_stack_length [OF wf])
      then show ?thesis using run None inv(1) by (auto simp: parse_set_error_def st1_def intro!: inv_failed)
    next
      case attribs: (Some vals)
      have "\<exists>r st'. start_fn e E (st1\<lparr>ps_attribs := vals\<rparr>) = Some (r, st') \<and> parse_inv (Suc n) (st'\<lparr>ps_parse_error := r\<rparr>)"
        using start_handler_inv [of "st1\<lparr>ps_attribs := vals\<rparr>" e "ps_stack st" E] wf inv by (simp add: st1_def)
      then show ?thesis using run attribs by (auto simp: parse_set_error_def)
    qed
  qed
qed

lemma probe_frame:
  assumes "probe_config_file E st = (r, st')"
  shows "pointers_valid st' = pointers_valid st" "opened st' e = opened st e" "ps_stack st' = ps_stack st"
    "ps_root_subelem st' = ps_root_subelem st" "ps_cm st' = ps_cm st" "ps_path_names st' = ps_path_names st"
  using assms by (auto simp: probe_config_file_def Let_def pointers_valid_def opened_def cong: elem.case_cong split: option.splits if_splits)

lemma opened_closing:
  "p \<noteq> e_elem_path \<Longrightarrow> p \<noteq> e_elem_init \<Longrightarrow> opened (st\<lparr>ps_path := None\<rparr>) p = opened st p"
  "p \<noteq> e_elem_case \<Longrightarrow> opened (st\<lparr>ps_scase := None\<rparr>) p = opened st p"
  "p \<noteq> e_elem_codec_probe \<Longrightarrow> opened (st\<lparr>ps_codec_probe := False\<rparr>) p = opened st p"
  by (auto simp: opened_def split: elem.splits)

lemma opened_pointers:
  "opened st e_elem_path \<longleftrightarrow> ps_path st \<noteq> None" "opened st e_elem_case \<longleftrightarrow> ps_scase st \<noteq> None"
  "opened st e_elem_device \<longleftrightarrow> ps_device st \<noteq> None" "opened st e_elem_stream \<longleftrightarrow> ps_stream st \<noteq> None"
  "opened st e_elem_usecase \<longleftrightarrow> ps_usecase st \<noteq> None"
  by (simp_all add: opened_def)

lemma pointers_closing:
  "pointers_valid st \<Longrightarrow> pointers_valid (st\<lparr>ps_path := None\<rparr>)" "pointers_valid st \<Longrightarrow> pointers_valid (st\<lparr>ps_scase := None\<rparr>)"
  "pointers_valid (st\<lparr>ps_codec_probe := b\<rparr>) = pointers_valid st"
  by (simp_all add: pointers_valid_def)

lemma end_handler:
  assumes "pointers_valid st" "opened st e" "end_fn e = Some f"
  shows "\<exists>r st'. f E st = Some (r, st') \<and> pointers_valid st' \<and> stack_kept st st' \<and>
           (\<forall>p. height e < height p \<longrightarrow> opened st p \<longrightarrow> opened st' p)"
proof (cases "e = e_elem_codec_probe")
  case True
  obtain r st' where probe: "probe_config_file E (st\<lparr>ps_codec_probe := False\<rparr>) = (r, st')" by fastforce
  have "f E st = Some (0, st')" using assms(2,3) True probe by (auto simp: end_fn_def parse_codec_probe_end_def opened_def)
  moreover have "opened st' p" if "height e < height p" "opened st p" for p
  proof -
    have "p \<noteq> e_elem_codec_probe" using that(1) True by auto
    then show ?thesis using that(2) probe_frame(2) [OF probe] opened_closing(3) [of p st] by simp
  qed
  ultimately show ?thesis using assms(1) probe_frame [OF probe] pointers_closing(3) by (auto simp: stack_kept_def)
next
  case False
  have higher: "opened (st\<lparr>ps_path := None\<rparr>) p" "opened (st\<lparr>ps_scase := None\<rparr>) p" if "2 < height p" "opened st p" for p
  proof -
    have "p \<noteq> e_elem_path" "p \<noteq> e_elem_init" "p \<noteq> e_elem_case" using that(1) by auto
    then show "opened (st\<lparr>ps_path := None\<rparr>) p" "opened (st\<lparr>ps_scase := None\<rparr>) p" using that(2) by (simp_all add: opened_closing)
  qed
  show ?thesis using assms False
    by (cases e) (auto simp: end_fn_def opened_pointers parse_path_end_def parse_case_end_def parse_device_end_def
        parse_stream_end_def parse_usecase_end_def stack_kept_def pointers_closing higher)
qed

lemma section_end_inv:
  assumes "parse_inv (Suc n) st"
  shows "\<exists>st'. parse_section_end E st = Some st' \<and> parse_inv n st'"
proof (cases "ps_parse_error st = 0")
  case False
  then show ?thesis using assms by (simp add: parse_section_end_def parse_inv_def)
next
  case True
  then obtain e subs rest where s: "ps_stack st = (e, subs) # rest" "length rest = n"
    using assms by (cases "ps_stack st") (auto simp: parse_inv_def)
  have inv: "pointers_valid st" "length rest \<le> 5" "wf_stack ((e, subs) # rest)" "ps_root_subelem st = [e_elem_audiohal]"
    "opened st e" "\<forall>x\<in>set rest. opened st (fst x)"
    using assms True s by (auto simp: parse_inv_def)
  note rest = wf_stack_tl [OF inv(3)]
  show ?thesis
  proof (cases "end_fn e")
    case None
    then show ?thesis using True s inv rest by (simp add: parse_section_end_def parse_inv_def)
  next
    case (Some f)
    obtain r st' where run: "f E st = Some (r, st')" "pointers_valid st'" "stack_kept st st'"
      "\<forall>p. height e < height p \<longrightarrow> opened st p \<longrightarrow> opened st' p"
      using end_handler [OF inv(1,5) Some, of E] by blast
    have "\<forall>x\<in>set rest. opened st' (fst x)"
      using run(4) inv(6) wf_stack_above [OF inv(3)] by (metis prod.collapse)
    then have "parse_inv n (st'\<lparr>ps_parse_error := r, ps_stack := tl (ps_stack st')\<rparr>)"
      using run(2,3) s inv(2,4) rest by (simp add: parse_inv_def stack_kept_def)
    then show ?thesis using True s Some run(1) by (simp add: parse_section_end_def)
  qed
qed

text \<open>Every end tag closes an element that is open, as the XML parser guarantees.\<close>

fun nested :: "nat \<Rightarrow> xml_event list \<Rightarrow> bool" where
  "nested n [] = True"
| "nested n (Start name as # evs) = nested (Suc n) evs"
| "nested n (End # evs) = (n > 0 \<and> nested (n - 1) evs)"

lemma events_inv:
  assumes "nested n evs" "parse_inv n st"
  shows "\<exists>st' m. parse_events E evs st = Some st' \<and> parse_inv m st'"
  using assms
proof (induction evs arbitrary: n st)
  case (Cons ev evs)
  obtain st' m where "parse_event E ev st = Some st'" "parse_inv m st'" "nested m evs"
  proof (cases ev)
    case (Start name as)
    then show ?thesis using that section_start_inv [OF Cons.prems(2), of E name as] Cons.prems(1) by (auto simp: parse_event_def)
  next
    case End
    then obtain k where "n = Suc k" "nested k evs" using Cons.prems(1) by (cases n) auto
    then show ?thesis using that End section_end_inv [of k st E] Cons.prems(2) by (auto simp: parse_event_def)
  qed
  then show ?case using Cons.IH [of m st'] Cons.prems(2) by auto
qed auto

text \<open>What keeps the parser from waiting forever and from corrupting the heap: the codec probe file appears, and the
  index of every control is a number.\<close>

definition index_ok :: "xml_event \<Rightarrow> bool" where
  "index_ok ev \<longleftrightarrow>
     (case ev of
        Start name as \<Rightarrow> name = ''ctl'' \<longrightarrow> (\<forall>v. (''index'', v) \<in> set as \<longrightarrow> string_to_uint (Some v) \<noteq> Inl (- EINVAL))
      | End \<Rightarrow> True)"

definition goes_on :: "parse_state \<Rightarrow> bool" where
  "goes_on st \<longleftrightarrow> ps_stop st \<noteq> Waiting \<and> ps_stop st \<noteq> Corrupted"

lemma map_target_stop [simp]: "ps_stop (map_target f st) = ps_stop st"
  by (auto simp: map_target_def map_path_def map_case_def Let_def split: option.splits path_ref.splits prod.splits)

lemma set_stream_stop [simp]: "ps_stop (set_stream k g st) = ps_stop st"
  by (simp add: set_stream_def)

lemma ctl_goes_on:
  "parse_ctl_start E st = Some (r, st') \<Longrightarrow> goes_on st \<Longrightarrow> string_to_uint (ps_attribs st e_attrib_index) \<noteq> Inl (- EINVAL) \<Longrightarrow> goes_on st'"
  unfolding parse_ctl_start_def goes_on_def
  by (auto simp: Let_def attrib_or_def attrib_to_uint_def split: option.splits if_splits sum.splits prod.splits)

lemma path_stop: "parse_path_start E st = Some (r, st') \<Longrightarrow> ps_stop st' = ps_stop st"
  by (auto simp: parse_path_start_def add_path_name_def Let_def split: option.splits if_splits)

lemma stream_ctl_stop: "parse_stream_ctl_start E st = Some (r, st') \<Longrightarrow> ps_stop st' = ps_stop st"
  unfolding parse_stream_ctl_start_def Let_def by (auto split: option.splits sum.splits if_splits)

lemma stream_stop: "parse_stream_start E st = Some (r, st') \<Longrightarrow> ps_stop st' = ps_stop st"
  unfolding parse_stream_start_def Let_def by (auto split: option.splits if_splits prod.splits)

lemma mixer_stop: "parse_mixer_start E st = Some (r, st') \<Longrightarrow> ps_stop st' = ps_stop st"
  unfolding parse_mixer_start_def Let_def by (auto split: sum.splits prod.splits if_splits list.splits)

lemma device_stop: "parse_device_start E st = Some (r, st') \<Longrightarrow> ps_stop st' = ps_stop st"
  unfolding parse_device_start_def Let_def by (auto split: option.splits if_splits)

lemma case_stop:
  "parse_case_start E st = Some (r, st') \<Longrightarrow> ps_stop st' = ps_stop st"
  "parse_usecase_start E st = Some (r, st') \<Longrightarrow> ps_stop st' = ps_stop st"
  "parse_enable_disable_start b st = Some (r, st') \<Longrightarrow> ps_stop st' = ps_stop st"
  unfolding parse_case_start_def parse_usecase_start_def parse_enable_disable_start_def Let_def
  by (auto split: option.splits if_splits)

lemma start_stop: "start_fn e E st = Some (r, st') \<Longrightarrow> e \<noteq> e_elem_ctl \<Longrightarrow> ps_stop st' = ps_stop st"
  by (cases e) (auto simp: start_fn_def parse_enable_start_def parse_disable_start_def parse_init_start_def
      parse_codec_probe_start_def parse_codec_case_start_def split: if_splits
      dest: path_stop stream_ctl_stop stream_stop mixer_stop device_stop case_stop)

lemma end_goes_on:
  assumes "end_fn e = Some f" "f E st = Some (r, st')" "goes_on st" "\<forall>file. pe_codec_appears E file"
  shows "goes_on st'"
  using assms
  by (cases e) (auto simp: end_fn_def parse_path_end_def parse_case_end_def parse_device_end_def parse_stream_end_def
      parse_usecase_end_def parse_codec_probe_end_def probe_config_file_def Let_def goes_on_def split: if_splits option.splits)

lemma read_attribs_from:
  "read_attribs e as vals = Some vals' \<Longrightarrow> vals' a = Some v \<Longrightarrow> vals a = Some v \<or> (\<exists>n. (a, n) \<in> set attrib_table \<and> (n, v) \<in> set as)"
proof (induction as arbitrary: vals)
  case (Cons nv as)
  obtain n w where nv: "nv = (n, w)" by fastforce
  obtain b m where f: "find (\<lambda>(a, name). a \<in> set (valid_attribs e) \<and> name = n) attrib_table = Some (b, m)"
    "read_attribs e as (vals(b := Some w)) = Some vals'"
    using Cons.prems(1) by (auto simp: nv split: option.splits)
  then have "(b, n) \<in> set attrib_table" by (auto simp: find_Some_iff dest: nth_mem)
  then show ?case using Cons.IH [OF f(2) Cons.prems(2)] by (auto simp: nv split: if_splits)
qed simp

lemma ctl_attrib_index:
  assumes "extract_attribs e as = Some vals" "index_ok (Start ''ctl'' as)"
  shows "string_to_uint (vals e_attrib_index) \<noteq> Inl (- EINVAL)"
proof (cases "vals e_attrib_index")
  case None
  then show ?thesis by (simp add: string_to_uint_def)
next
  case (Some v)
  have "read_attribs e as (\<lambda>_. None) = Some vals" using assms(1) by (auto simp: extract_attribs_def split: option.splits if_splits)
  from read_attribs_from [OF this Some] obtain n where "(e_attrib_index, n) \<in> set attrib_table" "(n, v) \<in> set as" by auto
  then have "(''index'', v) \<in> set as" by (auto simp: attrib_table_def)
  then show ?thesis using assms(2) Some by (simp add: index_ok_def)
qed

lemma event_goes_on:
  assumes "parse_event E ev st = Some st'" "goes_on st" "index_ok ev" "\<forall>file. pe_codec_appears E file"
  shows "goes_on st'"
proof (cases "ps_parse_error st = 0")
  case False
  then show ?thesis using assms by (auto simp: parse_event_def parse_section_start_def parse_section_end_def split: xml_event.splits)
next
  case True
  show ?thesis
  proof (cases ev)
    case End
    then show ?thesis using assms True
      by (auto simp: parse_event_def parse_section_end_def goes_on_def split: list.splits option.splits dest!: end_goes_on [unfolded goes_on_def])
  next
    case (Start name as)
    show ?thesis
    proof (cases "find (\<lambda>e. e \<in> set (top_subelem st) \<and> name = elem_name e) elem_order")
      case None
      then show ?thesis using assms True Start by (auto simp: parse_event_def parse_section_start_def parse_set_error_def goes_on_def)
    next
      case (Some e)
      then have n: "name = elem_name e" by (auto simp: find_Some_iff)
      define st1 where "st1 = st\<lparr>ps_stack := (e, valid_subelem e) # ps_stack st\<rparr>"
      have st1: "goes_on st1" using assms(2) by (simp add: st1_def goes_on_def)
      consider "ps_stop st' = ps_stop st"
        | vals r st2 where "extract_attribs e as = Some vals" "start_fn e E (st1\<lparr>ps_attribs := vals\<rparr>) = Some (r, st2)" "ps_stop st' = ps_stop st2"
        using assms(1) True Start Some
        by (auto simp: parse_event_def parse_section_start_def parse_set_error_def st1_def [symmetric] Let_def split: if_splits option.splits)
          (auto simp: st1_def)
      then show ?thesis
      proof cases
        case 1
        then show ?thesis using assms(2) by (simp add: goes_on_def)
      next
        case 2
        have g: "goes_on (st1\<lparr>ps_attribs := vals\<rparr>)" using st1 by (simp add: goes_on_def)
        show ?thesis
        proof (cases "e = e_elem_ctl")
          case True
          then have "string_to_uint (vals e_attrib_index) \<noteq> Inl (- EINVAL)"
            using ctl_attrib_index [OF 2(1)] assms(3) Start n by simp
          then have "goes_on st2" using ctl_goes_on [OF _ g] 2(2) True by (simp add: start_fn_def)
          then show ?thesis using 2(3) by (simp add: goes_on_def)
        next
          case False
          then show ?thesis using start_stop [OF 2(2)] g 2(3) by (simp add: goes_on_def)
        qed
      qed
    qed
  qed
qed

lemma events_go_on:
  "parse_events E evs st = Some st' \<Longrightarrow> goes_on st \<Longrightarrow> list_all index_ok evs \<Longrightarrow> \<forall>file. pe_codec_appears E file \<Longrightarrow> goes_on st'"
proof (induction evs arbitrary: st)
  case (Cons ev evs)
  show ?case using Cons.prems Cons.IH event_goes_on [of E ev st] by (auto split: if_splits option.splits)
qed simp

definition file_ok :: "xml_file \<Rightarrow> bool" where
  "file_ok f \<longleftrightarrow> nested 0 (xf_events f) \<and> list_all index_ok (xf_events f)"

lemma do_parse_safe:
  assumes "pointers_valid st" "file_ok f" "\<forall>file. pe_codec_appears E file"
  shows "\<exists>ret st'. do_parse E f st = Some (ret, st') \<and> pointers_valid st' \<and> length (ps_stack st') \<le> 5"
proof -
  define st0 where "st0 = st\<lparr>ps_parse_error := 0, ps_stack := [], ps_root_subelem := [e_elem_audiohal], ps_stop := Running\<rparr>"
  have "parse_inv 0 st0" using assms(1) by (simp add: parse_inv_def st0_def pointers_valid_def)
  then obtain st' m where run: "parse_events E (xf_events f) st0 = Some st'" "parse_inv m st'"
    using events_inv assms(2) unfolding file_ok_def by blast
  have "goes_on st0" by (simp add: goes_on_def st0_def)
  then have "goes_on st'" using events_go_on [OF run(1)] assms(2,3) by (simp add: file_ok_def)
  then show ?thesis using run by (auto simp: do_parse_def st0_def parse_inv_def goes_on_def)
qed

section \<open>What is built\<close>

text \<open>With \<open>n\<close> path names: devices and streams not in use, path numbers that are names.\<close>

definition device_built :: "nat \<Rightarrow> audio_device \<Rightarrow> bool" where
  "device_built n d \<longleftrightarrow> dv_use_count d = 0 \<and> list_all (\<lambda>p. 0 \<le> p_id p \<and> p_id p < int n) (dv_paths d)"

definition stream_built :: "nat \<Rightarrow> audio_stream \<Rightarrow> bool" where
  "stream_built n s \<longleftrightarrow>
     s_ref_count s = 0 \<and> s_current_devices s = 0 \<and> - 1 \<le> s_enable_path s \<and> s_enable_path s < int n \<and>
     - 1 \<le> s_disable_path s \<and> s_disable_path s < int n"

definition cm_built :: "nat \<Rightarrow> config_mgr \<Rightarrow> bool" where
  "cm_built n cm \<longleftrightarrow> list_all (device_built n) (cm_devices cm) \<and> list_all (stream_built n) (cm_streams cm)"

definition names_ok :: "string list \<Rightarrow> bool" where
  "names_ok ns \<longleftrightarrow> take 2 ns = [''off'', ''on''] \<and> distinct ns"

definition built :: "parse_state \<Rightarrow> bool" where
  "built st \<longleftrightarrow> names_ok (ps_path_names st) \<and> cm_built (length (ps_path_names st)) (ps_cm st)"

lemma cm_built_mono: "cm_built n cm \<Longrightarrow> n \<le> m \<Longrightarrow> cm_built m cm"
  unfolding cm_built_def device_built_def stream_built_def by (auto elim!: list.pred_mono_strong)

lemma list_all_change: "list_all P xs \<Longrightarrow> (\<And>x. P x \<Longrightarrow> P (f x)) \<Longrightarrow> list_all P (xs[i := f (xs ! i)])"
  by (cases "i < length xs") (auto simp: list_all_length nth_list_update list_update_beyond)

lemma last_position_found:
  "last_position name ns k found = Some i \<Longrightarrow> found = Some i \<or> k \<le> i \<and> i < k + length ns \<and> ns ! (i - k) = name"
proof (induction ns arbitrary: k found)
  case (Cons n ns)
  then show ?case using Cons.IH [of "Suc k" "if n = name then Some k else found"]
    by (auto simp: nth_Cons' split: if_splits)
qed simp

lemma last_position_none: "last_position name ns k found = None \<longleftrightarrow> name \<notin> set ns \<and> found = None"
  by (induction ns arbitrary: k found) auto

lemma find_path_name_range: "find_path_name st name < int (length (ps_path_names st))"
  using last_position_found [of name "ps_path_names st" 0 None] by (auto simp: find_path_name_def split: option.split)

lemma find_path_name_neg: "find_path_name st name < 0 \<longleftrightarrow> name \<notin> set (ps_path_names st)"
  using last_position_none [of name "ps_path_names st" 0 None] by (auto simp: find_path_name_def split: option.split)

lemma add_path_name_built:
  assumes "built st" "add_path_name name st = (i, st')"
  shows "built st'" "i < int (length (ps_path_names st'))" "ps_cm st' = ps_cm st"
proof -
  have two: "length (ps_path_names st) \<ge> 2"
    using assms(1) by (auto simp: built_def names_ok_def dest: arg_cong [of _ _ length])
  have "built (st\<lparr>ps_path_names := ps_path_names st @ [name]\<rparr>)" if "name \<notin> set (ps_path_names st)"
    using assms(1) that two by (auto simp: built_def names_ok_def intro: cm_built_mono)
  then show "built st'" "i < int (length (ps_path_names st'))" "ps_cm st' = ps_cm st"
    using assms find_path_name_range [of st name] find_path_name_neg [of st name]
    by (auto simp: add_path_name_def Let_def split: if_splits)
qed

lemma built_cm: "built st \<Longrightarrow> ps_path_names st' = ps_path_names st \<Longrightarrow> cm_built (length (ps_path_names st)) (ps_cm st') \<Longrightarrow> built st'"
  by (simp add: built_def)

lemma device_built_ctls:
  "device_built n d \<Longrightarrow> device_built n (d\<lparr>dv_paths := (dv_paths d)[k := (dv_paths d ! k)\<lparr>p_ctls := f (p_ctls (dv_paths d ! k))\<rparr>]\<rparr>)"
  using list_all_change [of "\<lambda>p. 0 \<le> p_id p \<and> p_id p < int n" "dv_paths d" "\<lambda>p. p\<lparr>p_ctls := f (p_ctls p)\<rparr>" k]
  by (simp add: device_built_def)

lemma map_path_built: "built st \<Longrightarrow> built (map_path r f st)"
proof (cases r)
  case (Device_path j k)
  assume "built st"
  then show ?thesis unfolding built_def cm_built_def
    using list_all_change [of "device_built (length (ps_path_names st))" "cm_devices (ps_cm st)"
        "\<lambda>d. d\<lparr>dv_paths := (dv_paths d)[k := (dv_paths d ! k)\<lparr>p_ctls := f (p_ctls (dv_paths d ! k))\<rparr>]\<rparr>" j] device_built_ctls
    by (simp add: map_path_def Let_def Device_path)
qed (simp add: map_path_def built_def)

lemma streams_change_built:
  assumes "cm_built n cm" "\<And>s. stream_built n s \<Longrightarrow> stream_built n (f s)"
  shows "cm_built n (cm\<lparr>cm_streams := (cm_streams cm)[i := f (cm_streams cm ! i)]\<rparr>)"
  using assms(1) list_all_change [of "stream_built n" "cm_streams cm" f i] assms(2) by (simp add: cm_built_def)

lemma stream_built_usecases [simp]: "stream_built n (s\<lparr>s_usecases := us\<rparr>) = stream_built n s"
  by (simp add: stream_built_def)

lemma streams_usecases_built:
  "cm_built n cm \<Longrightarrow> cm_built n (cm\<lparr>cm_streams := (cm_streams cm)[i := (cm_streams cm ! i)\<lparr>s_usecases := us\<rparr>]\<rparr>)"
  using streams_change_built [of n cm "\<lambda>s. s\<lparr>s_usecases := us\<rparr>" i] by simp

lemma map_target_built: "built st \<Longrightarrow> built (map_target f st)"
proof -
  assume b: "built st"
  have "built (map_case (i, u, j) f st)" for i u j
    using b by (simp add: built_def map_case_def Let_def streams_usecases_built)
  then show ?thesis using b map_path_built [OF b] by (auto simp: map_target_def split: option.splits)
qed

lemma built_irrelevant [simp]:
  "built (st\<lparr>ps_parse_error := r\<rparr>) = built st" "built (st\<lparr>ps_stack := s\<rparr>) = built st" "built (st\<lparr>ps_attribs := a\<rparr>) = built st"
  "built (st\<lparr>ps_path := p\<rparr>) = built st" "built (st\<lparr>ps_scase := c\<rparr>) = built st" "built (st\<lparr>ps_codec_probe := b\<rparr>) = built st"
  "built (st\<lparr>ps_usecase := u\<rparr>) = built st" "built (st\<lparr>ps_stream := i\<rparr>) = built st" "built (st\<lparr>ps_device := i\<rparr>) = built st"
  "built (st\<lparr>ps_codec_cases := cs\<rparr>) = built st" "built (st\<lparr>ps_probe_file := pf\<rparr>) = built st" "built (st\<lparr>ps_log := l\<rparr>) = built st"
  "built (st\<lparr>ps_root_subelem := rs\<rparr>) = built st" "built (st\<lparr>ps_stop := sp\<rparr>) = built st" "built (st\<lparr>ps_new_xml_file := x\<rparr>) = built st"
  "built (st\<lparr>ps_cur_xml_file := y\<rparr>) = built st"
  by (simp_all add: built_def)

lemma path_built:
  assumes "built st" "parse_path_start E st = Some (r, st')"
  shows "built st'"
proof -
  obtain j where j: "ps_device st = Some j" using assms(2) by (auto simp: parse_path_start_def split: option.splits)
  obtain i st1 where add: "add_path_name (the_attrib st e_attrib_name) st = (i, st1)" by fastforce
  note b1 = add_path_name_built [OF assms(1) add]
  show ?thesis
  proof (cases "i < 0")
    case True
    then show ?thesis using assms(2) b1(1) by (simp add: parse_path_start_def j add)
  next
    case False
    define n where "n = length (ps_path_names st1)"
    have "device_built n (d\<lparr>dv_paths := dv_paths d @ [new_path i]\<rparr>)" if "device_built n d" for d
      using that False b1(2) by (simp add: device_built_def new_path_def n_def)
    then have "list_all (device_built n) ((cm_devices (ps_cm st1))[j := (cm_devices (ps_cm st1) ! j)\<lparr>dv_paths := dv_paths (cm_devices (ps_cm st1) ! j) @ [new_path i]\<rparr>])"
      using b1(1) list_all_change [of "device_built n" _ "\<lambda>d. d\<lparr>dv_paths := dv_paths d @ [new_path i]\<rparr>"]
      by (simp add: built_def cm_built_def n_def)
    then show ?thesis using assms(2) b1(1) False
      by (auto simp: parse_path_start_def j add Let_def built_def cm_built_def n_def split: if_splits)
  qed
qed

lemma set_stream_built:
  assumes "built st" "\<And>s. stream_built (length (ps_path_names st)) s \<Longrightarrow> stream_built (length (ps_path_names st)) (f s)"
  shows "built (set_stream k f st)"
  using assms streams_change_built [of "length (ps_path_names st)" "ps_cm st" f k]
  by (simp add: built_def set_stream_def update_stream_def)

lemma stream_built_volume [simp]: "stream_built n (update_volume l f s) = stream_built n s"
  by (simp add: stream_built_def update_volume_def)

lemma enable_disable_built:
  assumes "built st" "parse_enable_disable_start b st = Some (r, st')"
  shows "built st'"
proof -
  define i where "i = find_path_name st (the_attrib st e_attrib_path)"
  have "built (set_stream k (\<lambda>s. if b then s\<lparr>s_enable_path := i\<rparr> else s\<lparr>s_disable_path := i\<rparr>) st)" if "0 \<le> i" for k
    using assms(1) that find_path_name_range [of st "the_attrib st e_attrib_path"]
    by (intro set_stream_built) (auto simp: stream_built_def i_def)
  then show ?thesis using assms unfolding parse_enable_disable_start_def Let_def i_def [symmetric]
    by (auto split: if_splits option.splits)
qed

lemma set_stream_names [simp]: "ps_path_names (set_stream k f st) = ps_path_names st"
  by (simp add: set_stream_def)

lemma volume_built: "built st \<Longrightarrow> built (set_stream k (update_volume l f) st)"
  by (rule set_stream_built) simp_all

lemma stream_ctl_built: "built st \<Longrightarrow> parse_stream_ctl_start E st = Some (r, st') \<Longrightarrow> built st'"
  unfolding parse_stream_ctl_start_def Let_def
  by (auto intro!: volume_built split: if_splits sum.splits option.splits)

lemma stream_start_built:
  assumes "built st" "parse_stream_start E st = Some (r, st')"
  shows "built st'"
proof -
  have n: "stream_built n new_stream" for n by (simp add: stream_built_def new_stream_def)
  then have m: "stream_built n (new_stream\<lparr>s_info := x, s_name := y, s_max_ref_count := z\<rparr>)" for n x y z
    by (simp add: stream_built_def)
  show ?thesis using assms unfolding parse_stream_start_def Let_def
    by (auto simp: built_def cm_built_def n m split: if_splits option.splits prod.splits)
qed

lemma device_start_built:
  assumes "built st" "parse_device_start E st = Some (r, st')"
  shows "built st'"
proof -
  have n: "device_built n (new_device t)" for n t by (simp add: device_built_def new_device_def)
  show ?thesis using assms unfolding parse_device_start_def Let_def
    by (auto simp: built_def cm_built_def n split: if_splits option.splits)
qed

lemma case_built: "built st \<Longrightarrow> parse_case_start E st = Some (r, st') \<Longrightarrow> built st'"
  unfolding parse_case_start_def Let_def by (auto simp: built_def streams_usecases_built split: if_splits option.splits)

lemma usecase_built: "built st \<Longrightarrow> parse_usecase_start E st = Some (r, st') \<Longrightarrow> built st'"
  unfolding parse_usecase_start_def Let_def by (auto simp: built_def streams_usecases_built split: if_splits option.splits)

lemma ctl_built: "built st \<Longrightarrow> parse_ctl_start E st = Some (r, st') \<Longrightarrow> built st'"
  unfolding parse_ctl_start_def Let_def free_element_def
  by (auto simp: map_target_built split: if_splits option.splits sum.splits prod.splits)

lemma mixer_built: "built st \<Longrightarrow> parse_mixer_start E st = Some (r, st') \<Longrightarrow> built st'"
  unfolding parse_mixer_start_def Let_def
  by (auto simp: built_def cm_built_def split: if_splits sum.splits prod.splits list.splits)

lemma start_built:
  assumes b: "built st" and run: "start_fn e E st = Some (r, st')"
  shows "built st'"
proof (cases "e \<in> {e_elem_init, e_elem_audiohal, e_elem_codec_probe, e_elem_codec_case}")
  case True
  then show ?thesis using assms
    by (auto simp: start_fn_def parse_init_start_def parse_codec_probe_start_def parse_codec_case_start_def split: if_splits)
next
  case False
  show ?thesis
  proof (cases e)
    case e_elem_ctl
    then show ?thesis using run ctl_built [OF b] by (simp add: start_fn_def)
  next
    case e_elem_path
    then show ?thesis using run path_built [OF b] by (simp add: start_fn_def)
  next
    case e_elem_device
    then show ?thesis using run device_start_built [OF b] by (simp add: start_fn_def)
  next
    case e_elem_stream
    then show ?thesis using run stream_start_built [OF b] by (simp add: start_fn_def)
  next
    case e_elem_enable
    then show ?thesis using run enable_disable_built [OF b] by (simp add: start_fn_def parse_enable_start_def)
  next
    case e_elem_disable
    then show ?thesis using run enable_disable_built [OF b] by (simp add: start_fn_def parse_disable_start_def)
  next
    case e_elem_case
    then show ?thesis using run case_built [OF b] by (simp add: start_fn_def)
  next
    case e_elem_usecase
    then show ?thesis using run usecase_built [OF b] by (simp add: start_fn_def)
  next
    case e_elem_stream_ctl
    then show ?thesis using run stream_ctl_built [OF b] by (simp add: start_fn_def)
  next
    case e_elem_mixer
    then show ?thesis using run mixer_built [OF b] by (simp add: start_fn_def)
  qed (use False in simp_all)
qed

lemma end_built:
  assumes "built st" "end_fn e = Some f" "f E st = Some (r, st')"
  shows "built st'"
proof (cases "e = e_elem_codec_probe")
  case True
  obtain r' st1 where "probe_config_file E (st\<lparr>ps_codec_probe := False\<rparr>) = (r', st1)" by fastforce
  then show ?thesis using assms True probe_frame(5,6)
    by (fastforce simp: end_fn_def parse_codec_probe_end_def built_def split: if_splits)
next
  case False
  then show ?thesis using assms
    by (cases e) (auto simp: end_fn_def parse_path_end_def parse_case_end_def parse_device_end_def parse_stream_end_def
        parse_usecase_end_def split: if_splits)
qed

lemma event_built: "built st \<Longrightarrow> parse_event E ev st = Some st' \<Longrightarrow> built st'"
  unfolding parse_event_def parse_section_start_def parse_section_end_def parse_set_error_def Let_def
  by (auto split: xml_event.splits if_splits option.splits list.splits dest!: start_built [rotated] end_built [rotated 2])

lemma events_built: "built st \<Longrightarrow> parse_events E evs st = Some st' \<Longrightarrow> built st'"
  by (induction evs arbitrary: st) (auto split: if_splits option.splits dest: event_built)

lemma do_parse_built: "built st \<Longrightarrow> do_parse E f st = Some (ret, st') \<Longrightarrow> built st'"
  using events_built [of "st\<lparr>ps_parse_error := 0, ps_stack := [], ps_root_subelem := [e_elem_audiohal], ps_stop := Running\<rparr>"]
  by (auto simp: do_parse_def split: option.splits if_splits)

section \<open>Redirection\<close>

text \<open>What only the end of a \<open>codec_probe\<close> element changes.\<close>

definition outer :: "parse_state \<Rightarrow> elem list \<times> string option \<times> string" where
  "outer st = (map fst (ps_stack st), ps_new_xml_file st, ps_cur_xml_file st)"

lemma map_target_outer [simp]: "outer (map_target f st) = outer st"
  by (auto simp: outer_def map_target_def map_path_def map_case_def Let_def split: option.splits path_ref.splits prod.splits)

lemma outer_simps [simp]:
  "outer (set_stream k g st) = outer st" "outer (st\<lparr>ps_cm := cm\<rparr>) = outer st" "outer (st\<lparr>ps_path_names := ns\<rparr>) = outer st"
  "outer (st\<lparr>ps_path := p\<rparr>) = outer st" "outer (st\<lparr>ps_scase := c\<rparr>) = outer st" "outer (st\<lparr>ps_codec_probe := b\<rparr>) = outer st"
  "outer (st\<lparr>ps_usecase := u\<rparr>) = outer st" "outer (st\<lparr>ps_stream := i\<rparr>) = outer st" "outer (st\<lparr>ps_device := j\<rparr>) = outer st"
  "outer (st\<lparr>ps_codec_cases := cs\<rparr>) = outer st" "outer (st\<lparr>ps_probe_file := pf\<rparr>) = outer st" "outer (st\<lparr>ps_log := l\<rparr>) = outer st"
  "outer (st\<lparr>ps_parse_error := r\<rparr>) = outer st" "outer (st\<lparr>ps_attribs := a\<rparr>) = outer st" "outer (st\<lparr>ps_root_subelem := rs\<rparr>) = outer st"
  "outer (st\<lparr>ps_stop := sp\<rparr>) = outer st"
  by (simp_all add: outer_def set_stream_def)

lemma path_outer: "parse_path_start E st = Some (r, st') \<Longrightarrow> outer st' = outer st"
  by (auto simp: parse_path_start_def add_path_name_def Let_def split: option.splits if_splits)

lemma stream_ctl_outer: "parse_stream_ctl_start E st = Some (r, st') \<Longrightarrow> outer st' = outer st"
  unfolding parse_stream_ctl_start_def Let_def by (auto split: option.splits sum.splits if_splits)

lemma stream_outer: "parse_stream_start E st = Some (r, st') \<Longrightarrow> outer st' = outer st"
  unfolding parse_stream_start_def Let_def by (auto split: option.splits if_splits prod.splits)

lemma mixer_outer: "parse_mixer_start E st = Some (r, st') \<Longrightarrow> outer st' = outer st"
  unfolding parse_mixer_start_def Let_def outer_def by (auto split: sum.splits prod.splits if_splits list.splits)

lemma ctl_outer: "parse_ctl_start E st = Some (r, st') \<Longrightarrow> outer st' = outer st"
  unfolding parse_ctl_start_def Let_def free_element_def by (auto split: sum.splits option.splits prod.splits if_splits)

lemma device_outer: "parse_device_start E st = Some (r, st') \<Longrightarrow> outer st' = outer st"
  unfolding parse_device_start_def Let_def by (auto split: option.splits if_splits)

lemma case_outer:
  "parse_case_start E st = Some (r, st') \<Longrightarrow> outer st' = outer st"
  "parse_usecase_start E st = Some (r, st') \<Longrightarrow> outer st' = outer st"
  "parse_enable_disable_start b st = Some (r, st') \<Longrightarrow> outer st' = outer st"
  unfolding parse_case_start_def parse_usecase_start_def parse_enable_disable_start_def Let_def
  by (auto split: option.splits if_splits)

lemma start_outer: "start_fn e E st = Some (r, st') \<Longrightarrow> outer st' = outer st"
  by (cases e) (auto simp: start_fn_def parse_enable_start_def parse_disable_start_def parse_init_start_def
      parse_codec_probe_start_def parse_codec_case_start_def split: if_splits
      dest: path_outer stream_ctl_outer stream_outer mixer_outer ctl_outer device_outer case_outer)

lemma end_outer: "end_fn e = Some f \<Longrightarrow> f E st = Some (r, st') \<Longrightarrow> e \<noteq> e_elem_codec_probe \<Longrightarrow> outer st' = outer st"
  by (cases e) (auto simp: end_fn_def parse_path_end_def parse_case_end_def parse_device_end_def parse_stream_end_def
      parse_usecase_end_def split: if_splits)

text \<open>A file never redirects to itself, and one without \<open>codec_probe\<close> elements not at all.\<close>

definition no_self_redirect :: "parse_state \<Rightarrow> bool" where
  "no_self_redirect st \<longleftrightarrow> ps_new_xml_file st \<noteq> Some (ps_cur_xml_file st)"

lemma end_no_self:
  assumes "no_self_redirect st" "end_fn e = Some f" "f E st = Some (r, st')"
  shows "no_self_redirect st' \<and> ps_cur_xml_file st' = ps_cur_xml_file st"
proof (cases "e = e_elem_codec_probe")
  case True
  then show ?thesis using assms
    by (auto simp: end_fn_def parse_codec_probe_end_def probe_config_file_def no_self_redirect_def Let_def split: if_splits option.splits)
next
  case False
  then show ?thesis using end_outer [OF assms(2,3)] assms(1) by (simp add: outer_def no_self_redirect_def)
qed

lemma event_no_self:
  assumes "no_self_redirect st" "parse_event E ev st = Some st'"
  shows "no_self_redirect st' \<and> ps_cur_xml_file st' = ps_cur_xml_file st"
  using assms unfolding parse_event_def parse_section_start_def parse_section_end_def parse_set_error_def Let_def
  by (auto split: xml_event.splits if_splits option.splits list.splits
      dest!: start_outer end_no_self [rotated] simp: outer_def no_self_redirect_def)

lemma events_no_self:
  "no_self_redirect st \<Longrightarrow> parse_events E evs st = Some st' \<Longrightarrow> no_self_redirect st' \<and> ps_cur_xml_file st' = ps_cur_xml_file st"
proof (induction evs arbitrary: st)
  case (Cons ev evs)
  show ?case using Cons.prems Cons.IH event_no_self [OF Cons.prems(1), of E ev]
    by (auto split: if_splits option.splits)
qed simp

definition no_probe :: "xml_event list \<Rightarrow> bool" where
  "no_probe evs \<longleftrightarrow> list_all (\<lambda>ev. case ev of Start name as \<Rightarrow> name \<noteq> ''codec_probe'' | End \<Rightarrow> True) evs"

definition unprobed :: "parse_state \<Rightarrow> bool" where
  "unprobed st \<longleftrightarrow> e_elem_codec_probe \<notin> fst ` set (ps_stack st) \<and> ps_new_xml_file st = None"

lemma event_unprobed:
  assumes "unprobed st" "no_probe [ev]" "parse_event E ev st = Some st'"
  shows "unprobed st'"
proof -
  have eq: "unprobed a = unprobed b" if "outer a = outer b" for a b
    using that unfolding outer_def unprobed_def by (metis list.set_map prod.inject)
  show ?thesis
  proof (cases "ps_parse_error st = 0")
    case False
    then show ?thesis using assms by (auto simp: parse_event_def parse_section_start_def parse_section_end_def split: xml_event.splits)
  next
    case True
    show ?thesis
    proof (cases ev)
      case (Start name as)
      then have run: "parse_section_start E name as st = Some st'" using assms(3) by (simp add: parse_event_def)
      show ?thesis
      proof (cases "find (\<lambda>e. e \<in> set (top_subelem st) \<and> name = elem_name e) elem_order")
        case None
        then show ?thesis using run True assms(1) eq [of st st'] by (simp add: parse_section_start_def parse_set_error_def) auto
      next
        case (Some e)
        have "e \<noteq> e_elem_codec_probe" using Some assms(2) Start by (auto simp: find_Some_iff no_probe_def)
        define st1 where "st1 = st\<lparr>ps_stack := (e, valid_subelem e) # ps_stack st\<rparr>"
        have st1: "unprobed st1" using assms(1) \<open>e \<noteq> e_elem_codec_probe\<close> by (simp add: unprobed_def st1_def)
        have "outer st' = outer st \<or> outer st' = outer st1"
          using run True Some unfolding parse_section_start_def Let_def parse_set_error_def
          by (auto simp: st1_def split: if_splits option.splits dest!: start_outer)
        then show ?thesis using st1 assms(1) eq [of st' st] eq [of st' st1] by blast
      qed
    next
      case End
      then have run: "parse_section_end E st = Some st'" using assms(3) by (simp add: parse_event_def)
      then obtain e subs rest where s: "ps_stack st = (e, subs) # rest"
        using True by (auto simp: parse_section_end_def split: list.splits)
      have "e \<noteq> e_elem_codec_probe" using assms(1) s by (auto simp: unprobed_def)
      then show ?thesis using run True s assms(1) unfolding parse_section_end_def unprobed_def
        by (auto split: option.splits dest!: end_outer simp: outer_def) (metis fst_conv image_eqI list.set_map)
    qed
  qed
qed

lemma events_unprobed: "unprobed st \<Longrightarrow> no_probe evs \<Longrightarrow> parse_events E evs st = Some st' \<Longrightarrow> unprobed st'"
proof (induction evs arbitrary: st)
  case (Cons ev evs)
  then have "no_probe [ev]" "no_probe evs" by (simp_all add: no_probe_def)
  then show ?case using Cons.prems(1,3) Cons.IH event_unprobed [OF Cons.prems(1), of ev E]
    by (auto split: if_splits option.splits)
qed simp

section \<open>Files\<close>

lemma pointers_files [simp]:
  "pointers_valid (st\<lparr>ps_cur_xml_file := x\<rparr>) = pointers_valid st" "pointers_valid (st\<lparr>ps_probe_file := p\<rparr>) = pointers_valid st"
  "pointers_valid (st\<lparr>ps_new_xml_file := y\<rparr>) = pointers_valid st"
  by (simp_all add: pointers_valid_def)

lemma do_parse_redirect:
  assumes "do_parse E f st = Some (ret, st')" "ps_new_xml_file st = None"
  shows "ps_new_xml_file st' \<noteq> Some (ps_cur_xml_file st)" "no_probe (xf_events f) \<Longrightarrow> ps_new_xml_file st' = None"
proof -
  define st0 where "st0 = st\<lparr>ps_parse_error := 0, ps_stack := [], ps_root_subelem := [e_elem_audiohal], ps_stop := Running\<rparr>"
  have run: "parse_events E (xf_events f) st0 = Some st'" using assms(1) by (auto simp: do_parse_def st0_def split: option.splits if_splits)
  have "no_self_redirect st0" "unprobed st0" "ps_cur_xml_file st0 = ps_cur_xml_file st"
    using assms(2) by (simp_all add: st0_def no_self_redirect_def unprobed_def)
  then show "ps_new_xml_file st' \<noteq> Some (ps_cur_xml_file st)" "no_probe (xf_events f) \<Longrightarrow> ps_new_xml_file st' = None"
    using events_no_self [OF _ run] events_unprobed [OF _ _ run] by (auto simp: no_self_redirect_def unprobed_def)
qed

lemma parse_files_one:
  assumes "pointers_valid st" "built st" "\<And>f. files name = Some f \<Longrightarrow> file_ok f" "\<forall>file. pe_codec_appears E file"
  shows "(\<exists>ret st'. parse_files (Suc fuel) E files name st = Some (ret, st') \<and> built st') \<or>
         (\<exists>f nx st'. files name = Some f \<and> nx \<noteq> name \<and> \<not> no_probe (xf_events f) \<and> pointers_valid st' \<and> built st' \<and>
           parse_files (Suc fuel) E files name st = parse_files fuel E files nx st')"
proof (cases "files name")
  case None
  then show ?thesis using assms(2) by simp
next
  case (Some f)
  define st1 where "st1 = (let st = st\<lparr>ps_cur_xml_file := name\<rparr>
    in if ps_new_xml_file st \<noteq> None then st\<lparr>ps_probe_file := None, ps_new_xml_file := None\<rparr> else st)"
  have st1: "pointers_valid st1" "built st1" "ps_new_xml_file st1 = None" "ps_cur_xml_file st1 = name"
    using assms(1,2) by (auto simp: st1_def Let_def)
  obtain ret st' where run: "do_parse E f st1 = Some (ret, st')" "pointers_valid st'"
    using do_parse_safe [OF st1(1) assms(3) [OF Some] assms(4)] by blast
  have "parse_files (Suc fuel) E files name st =
      (case ps_new_xml_file st' of None \<Rightarrow> Some (ret, st') | Some nx \<Rightarrow> parse_files fuel E files nx st')"
    using run(1) Some by (simp add: st1_def Let_def)
  then show ?thesis
    using do_parse_redirect [OF run(1) st1(3)] do_parse_built [OF st1(2) run(1)] run(2) Some st1(4)
    by (cases "ps_new_xml_file st'") auto
qed

lemma parse_files_two:
  assumes "pointers_valid st" "built st" "\<And>n f. files n = Some f \<Longrightarrow> file_ok f" "\<forall>file. pe_codec_appears E file"
    "\<And>n f. files n = Some f \<Longrightarrow> n \<noteq> name \<Longrightarrow> no_probe (xf_events f)"
  shows "\<exists>ret st'. parse_files (Suc (Suc fuel)) E files name st = Some (ret, st') \<and> built st'"
  using parse_files_one [of st files name E "Suc fuel"] parse_files_one [of _ files _ E fuel] assms by metis

lemma init_state_ok: "pointers_valid (init_state l)" "built (init_state l)"
  by (simp_all add: init_state_def pointers_valid_def built_def names_ok_def cm_built_def new_config_mgr_def)

lemma parse_files_built: "built st \<Longrightarrow> parse_files fuel E files name st = Some (ret, st') \<Longrightarrow> built st'"
proof (induction fuel arbitrary: name st)
  case (Suc fuel)
  then show ?case by (auto simp: Let_def split: option.splits if_splits prod.splits dest!: do_parse_built [rotated])
qed simp

lemma parsed_some: "parse_files fuel E files name (init_state l) = Some r \<Longrightarrow> \<exists>res. init_audio_config fuel E files name l = Some res"
  by (cases r) (simp add: init_audio_config_def parse_config_file_def)

lemma parsed_zero:
  "parse_files fuel E files name (init_state l) = Some (0, st) \<Longrightarrow>
     init_audio_config fuel E files name l =
       Some (Some ((ps_cm st)\<lparr>cm_mixer := fst (apply_path_l (pe_alsa E) (cm_mixer (ps_cm st)) (ps_init_path st))\<rparr>))"
  by (simp add: init_audio_config_def parse_config_file_def)

lemma loaded_built:
  assumes "init_audio_config fuel E files name l = Some (Some cm)"
  shows "\<exists>ns. names_ok ns \<and> cm_built (length ns) cm"
proof -
  obtain ret st where run: "parse_files fuel E files name (init_state l) = Some (ret, st)"
    and cm: "cm_devices cm = cm_devices (ps_cm st)" "cm_streams cm = cm_streams (ps_cm st)"
    using assms by (auto simp: init_audio_config_def parse_config_file_def split: option.splits if_splits)
  have "built st" by (rule parse_files_built [OF init_state_ok(2) run])
  then show ?thesis using cm by (auto simp: built_def cm_built_def)
qed

end
