(* ===== verification/Audio_Routing.thy ===== *)
theory Audio_Routing
  imports Audio_Config
begin

text \<open>
  What the routing of \<open>configmgr/audio_config.c\<close> promises. An abstract configuration keeps of each device
  its type, the paths it declares and its use count, and of each stream everything but its use cases; the
  operations refine it, whatever the mixer and the kernel do. On the abstract side the use counts are
  the numbers of streams routed to a device.
\<close>

section \<open>Bits of a device mask\<close>

definition bits :: "u32 \<Rightarrow> nat set" where
  "bits w = {n. bit w n}"

lemma bits_simps [simp]: "bits (a AND b) = bits a \<inter> bits b" "bits (a OR b) = bits a \<union> bits b" "bits 0 = {}"
  by (auto simp: bits_def bit_simps)

lemma u32_bit_less: "bit (a :: u32) n \<Longrightarrow> n < 32"
  using bit_imp_le_length [of a n] by simp

lemma bits_diff [simp]: "bits (a AND NOT b) = bits a - bits b" "bits (NOT b AND a) = bits a - bits b"
  by (auto simp: bits_def bit_simps dest: u32_bit_less)

lemma bits_less: "n \<in> bits a \<Longrightarrow> n < 32"
  by (simp add: bits_def u32_bit_less)

lemma bits_not: "bits (NOT b) = {..<32} - bits b"
  by (auto simp: bits_def bit_simps dest: u32_bit_less)

lemma bits_inject: "a = b \<longleftrightarrow> bits a = bits b"
  by (auto simp: bits_def bit_eq_iff dest: u32_bit_less)

lemma bits_empty [simp]: "bits a = {} \<longleftrightarrow> a = 0"
  using bits_inject [of a 0] by simp

lemma and_eq_0_iff: "a AND b = 0 \<longleftrightarrow> bits a \<inter> bits b = {}"
  using bits_inject [of "a AND b" 0] by simp

section \<open>The abstract configuration\<close>

type_synonym adev = "u32 \<times> int list \<times> int"

definition abs_dev :: "audio_device \<Rightarrow> adev" where
  "abs_dev d = (dv_type d, map p_id (dv_paths d), dv_use_count d)"

definition path_delta :: "int \<Rightarrow> int" where
  "path_delta i = (if i = e_path_id_off then - 1 else if i = e_path_id_on then 1 else 0)"

text \<open>What applying the paths \<open>first_id\<close> and \<open>second_id\<close> does to the use count of a device.\<close>

definition a_by_id :: "int \<Rightarrow> int \<Rightarrow> adev \<Rightarrow> adev" where
  "a_by_id first_id second_id d =
     (case d of (t, ids, n) \<Rightarrow>
        (t, ids, n + (if first_id \<in> set ids then path_delta first_id else 0)
                   + (if second_id \<noteq> first_id \<and> second_id \<in> set ids then path_delta second_id else 0)))"

fun matched :: "u32 \<Rightarrow> u32 \<Rightarrow> u32 list \<Rightarrow> bool list" where
  "matched flag devices [] = []"
| "matched flag devices (t # ts) =
     (if t AND flag = flag \<and> t AND devices \<noteq> 0 then True # matched flag (devices AND NOT t) ts
      else False # matched flag devices ts)"

definition apply_if :: "('a \<Rightarrow> 'a) \<Rightarrow> bool \<Rightarrow> 'a \<Rightarrow> 'a" where
  "apply_if f b x = (if b then f x else x)"

definition a_devices :: "audio_h \<Rightarrow> u32 \<Rightarrow> int \<Rightarrow> int \<Rightarrow> adev list \<Rightarrow> adev list" where
  "a_devices H devices first_id second_id ds =
     map2 (apply_if (a_by_id first_id second_id)) (matched (devices AND BIT_IN H) (devices AND NOT (BIT_IN H)) (map fst ds)) ds"

fun a_global :: "int \<Rightarrow> int \<Rightarrow> adev list \<Rightarrow> adev list" where
  "a_global first_id second_id [] = []"
| "a_global first_id second_id (d # ds) =
     (if fst d = 0 then a_by_id first_id second_id d # ds else d # a_global first_id second_id ds)"

type_synonym acfg = "adev list \<times> audio_stream list"

definition abs_cm :: "config_mgr \<Rightarrow> acfg" where
  "abs_cm cm = (map abs_dev (cm_devices cm), map (\<lambda>s. s\<lparr>s_usecases := []\<rparr>) (cm_streams cm))"

definition a_route :: "audio_h \<Rightarrow> nat \<Rightarrow> u32 \<Rightarrow> acfg \<Rightarrow> acfg" where
  "a_route H i devices c =
     (case c of (ds, ss) \<Rightarrow>
        let s = ss ! i; cur = s_current_devices s
        in case route_devices H (s_info s) devices of
             None \<Rightarrow> c
           | Some new \<Rightarrow>
               (a_devices H (devices AND NOT cur) e_path_id_on (s_enable_path s)
                  (a_devices H (NOT devices AND cur) (s_disable_path s) e_path_id_off ds),
                ss[i := s\<lparr>s_current_devices := new\<rparr>]))"

definition a_open :: "nat \<Rightarrow> acfg \<Rightarrow> bool \<times> acfg" where
  "a_open i c =
     (case c of (ds, ss) \<Rightarrow>
        let s = ss ! i
        in if s_ref_count s < s_max_ref_count s
           then (True, (if s_ref_count s + 1 = 1 then a_global e_path_id_on (s_enable_path s) ds else ds),
                 ss[i := s\<lparr>s_ref_count := s_ref_count s + 1\<rparr>])
           else (False, c))"

definition a_release :: "audio_h \<Rightarrow> nat \<Rightarrow> acfg \<Rightarrow> acfg" where
  "a_release H i c =
     (case c of (ds, ss) \<Rightarrow>
        let s = ss ! i; s' = s\<lparr>s_ref_count := s_ref_count s - 1\<rparr>
        in if s_ref_count s - 1 = 0
           then (a_global (s_disable_path s) e_path_id_off
                   (a_devices H (s_current_devices s) e_path_id_off (s_disable_path s) ds),
                 ss[i := s'\<lparr>s_current_devices := 0\<rparr>])
           else (ds, ss[i := s']))"

section \<open>Refinement\<close>

lemma apply_path_id: "p_id (snd (apply_path_l K mx p)) = p_id p"
  by (auto simp: apply_path_l_def split: prod.splits)

lemma apply_device_path_abs:
  assumes "k < length (dv_paths d)"
  shows "abs_dev (snd (apply_device_path_l K k (mx, d))) =
    (dv_type d, map p_id (dv_paths d), dv_use_count d + path_delta (p_id (dv_paths d ! k)))"
proof -
  define d1 where "d1 = d\<lparr>dv_use_count := dv_use_count d + path_delta (p_id (dv_paths d ! k))\<rparr>"
  have eq: "snd (apply_device_path_l K k (mx, d)) \<in> {d1, d1\<lparr>dv_paths := (dv_paths d)[k := snd (apply_path_l K mx (dv_paths d ! k))]\<rparr>}"
    by (auto simp: apply_device_path_l_def d1_def path_delta_def Let_def e_path_id_on_def e_path_id_off_def split: prod.splits)
  have "map p_id ((dv_paths d)[k := snd (apply_path_l K mx (dv_paths d ! k))]) = map p_id (dv_paths d)"
    using assms by (simp add: map_update apply_path_id list_update_same_conv)
  then have "abs_dev d1 = (dv_type d, map p_id (dv_paths d), dv_use_count d1)"
    "abs_dev (d1\<lparr>dv_paths := (dv_paths d)[k := snd (apply_path_l K mx (dv_paths d ! k))]\<rparr>) = (dv_type d, map p_id (dv_paths d), dv_use_count d1)"
    by (simp_all add: abs_dev_def d1_def)
  then show ?thesis using eq unfolding insert_iff empty_iff by (elim disjE) (simp_all add: d1_def)
qed

text \<open>What the single walk finds.\<close>

definition found_ok :: "audio_path list \<Rightarrow> int \<Rightarrow> nat option \<Rightarrow> bool" where
  "found_ok ps i found \<longleftrightarrow>
     (case found of None \<Rightarrow> i \<notin> set (map p_id ps) | Some k \<Rightarrow> k < length ps \<and> p_id (ps ! k) = i)"

lemma find_paths_found:
  assumes "all = pre @ ps" "k = length pre"
    and "fst found = None \<longrightarrow> f \<notin> set (map p_id pre)" "snd found = None \<longrightarrow> s \<notin> set (map p_id pre)"
    and "\<And>j. fst found = Some j \<Longrightarrow> j < length all \<and> p_id (all ! j) = f" "\<And>j. snd found = Some j \<Longrightarrow> j < length all \<and> p_id (all ! j) = s"
    and "f \<noteq> s"
  shows "found_ok all f (fst (find_paths ps k f s found)) \<and> found_ok all s (snd (find_paths ps k f s found))"
  using assms
proof (induction ps arbitrary: pre k found)
  case Nil
  then show ?case by (auto simp: found_ok_def split: option.splits)
next
  case (Cons p ps)
  have here: "all ! k = p" "k < length all" "all = (pre @ [p]) @ ps" "Suc k = length (pre @ [p])" using Cons.prems(1,2) by simp_all
  consider (first) "p_id p = f" | (second) "p_id p \<noteq> f" "p_id p = s" | (other) "p_id p \<noteq> f" "p_id p \<noteq> s" by blast
  then show ?case
  proof cases
    case first
    define found' where "found' = (Some k, snd found)"
    have ok: "found_ok all f (fst found')" "snd found' \<noteq> None \<Longrightarrow> found_ok all s (snd found')"
      using first here Cons.prems(6) by (auto simp: found'_def found_ok_def)
    have "find_paths (p # ps) k f s found = (if snd found' \<noteq> None then found' else find_paths ps (Suc k) f s found')"
      using first Cons.prems(7) by (simp add: found'_def Let_def)
    moreover have "found_ok all f (fst (find_paths ps (Suc k) f s found')) \<and> found_ok all s (snd (find_paths ps (Suc k) f s found'))"
      using Cons.prems first here by (intro Cons.IH [OF here(3,4)]) (auto simp: found'_def)
    ultimately show ?thesis using ok by auto
  next
    case second
    define found' where "found' = (fst found, Some k)"
    have ok: "found_ok all s (snd found')" "fst found' \<noteq> None \<Longrightarrow> found_ok all f (fst found')"
      using second here Cons.prems(5) by (auto simp: found'_def found_ok_def)
    have "find_paths (p # ps) k f s found = (if fst found' \<noteq> None then found' else find_paths ps (Suc k) f s found')"
      using second by (simp add: found'_def Let_def)
    moreover have "found_ok all f (fst (find_paths ps (Suc k) f s found')) \<and> found_ok all s (snd (find_paths ps (Suc k) f s found'))"
      using Cons.prems second here by (intro Cons.IH [OF here(3,4)]) (auto simp: found'_def)
    ultimately show ?thesis using ok by auto
  next
    case other
    then have "find_paths (p # ps) k f s found = find_paths ps (Suc k) f s found" by simp
    moreover have "found_ok all f (fst (find_paths ps (Suc k) f s found)) \<and> found_ok all s (snd (find_paths ps (Suc k) f s found))"
      using Cons.prems other by (intro Cons.IH [OF here(3,4)]) auto
    ultimately show ?thesis by simp
  qed
qed


lemma find_paths_same:
  assumes "all = pre @ ps" "k = length pre" "f \<notin> set (map p_id pre)"
  shows "found_ok all f (fst (find_paths ps k f f (None, None))) \<and> snd (find_paths ps k f f (None, None)) = None"
  using assms
proof (induction ps arbitrary: pre k)
  case (Cons p ps)
  show ?case
  proof (cases "p_id p = f")
    case False
    then show ?thesis using Cons.IH [of "pre @ [p]" "Suc k"] Cons.prems by simp
  qed (use Cons.prems in \<open>simp add: found_ok_def\<close>)
qed (simp add: found_ok_def)

lemma apply_found_abs:
  assumes "found_ok (dv_paths d) i found"
  shows "abs_dev (snd (apply_found K found (mx, d))) =
    (dv_type d, map p_id (dv_paths d), dv_use_count d + (if i \<in> set (map p_id (dv_paths d)) then path_delta i else 0))"
proof (cases found)
  case None
  then show ?thesis using assms by (auto simp: apply_found_def abs_dev_def found_ok_def)
next
  case (Some k)
  then have k: "k < length (dv_paths d)" "p_id (dv_paths d ! k) = i" using assms by (auto simp: found_ok_def)
  then have "i \<in> set (map p_id (dv_paths d))" by auto
  then show ?thesis using Some apply_device_path_abs [OF k(1)] k(2) by (simp add: apply_found_def)
qed

lemma found_ok_ids: "map p_id ps = map p_id qs \<Longrightarrow> found_ok ps i found = found_ok qs i found"
proof -
  assume eq: "map p_id ps = map p_id qs"
  then have "length ps = length qs" by (rule map_eq_imp_length_eq)
  moreover have "p_id (ps ! k) = p_id (qs ! k)" if "k < length ps" for k using eq that \<open>length ps = length qs\<close> by (metis nth_map)
  ultimately show ?thesis by (cases found) (auto simp: found_ok_def eq)
qed

lemma apply_paths_by_id_abs:
  "abs_dev (snd (apply_paths_by_id_l K f s (mx, d))) = a_by_id f s (abs_dev d)"
proof -
  define found where "found = find_paths (dv_paths d) 0 f s (None, None)"
  obtain mx1 d1 where st1: "apply_found K (fst found) (mx, d) = (mx1, d1)" by fastforce
  have run: "apply_paths_by_id_l K f s (mx, d) = apply_found K (snd found) (mx1, d1)"
    by (simp add: apply_paths_by_id_l_def Let_def found_def st1 [unfolded found_def])
  have 1: "found_ok (dv_paths d) f (fst found)"
    unfolding found_def using find_paths_same [of "dv_paths d" "[]" "dv_paths d" 0 f]
      find_paths_found [of "dv_paths d" "[]" "dv_paths d" 0 "(None, None)" f s] by (cases "f = s") auto
  then have d1: "dv_type d1 = dv_type d" "map p_id (dv_paths d1) = map p_id (dv_paths d)"
    "dv_use_count d1 = dv_use_count d + (if f \<in> set (map p_id (dv_paths d)) then path_delta f else 0)"
    using apply_found_abs [OF 1, of K mx] st1 by (auto simp: abs_dev_def)
  show ?thesis
  proof (cases "f = s")
    case True
    then have "snd found = None" using find_paths_same [of "dv_paths d" "[]" "dv_paths d" 0 f] by (simp add: found_def)
    then show ?thesis unfolding run using True d1 by (simp add: apply_found_def a_by_id_def abs_dev_def)
  next
    case False
    then have "found_ok (dv_paths d) s (snd found)"
      unfolding found_def using find_paths_found [of "dv_paths d" "[]" "dv_paths d" 0 "(None, None)" f s] by auto
    then have "found_ok (dv_paths d1) s (snd found)" using found_ok_ids [OF d1(2)] by simp
    from apply_found_abs [OF this, of K mx1]
    have "abs_dev (snd (apply_found K (snd found) (mx1, d1))) =
      (dv_type d, map p_id (dv_paths d), dv_use_count d1 + (if s \<in> set (map p_id (dv_paths d)) then path_delta s else 0))"
      unfolding d1(1,2) .
    then show ?thesis unfolding run using False by (simp add: d1(3) a_by_id_def abs_dev_def)
  qed
qed

lemma matched_0: "matched flag 0 ts = map (\<lambda>_. False) ts"
  by (induction ts) auto

lemma map2_apply_if_False: "map2 (apply_if f) (map (\<lambda>_. False) xs) ys = take (length xs) ys"
  by (induction xs ys rule: list_induct2') (auto simp: apply_if_def)

lemma devices_loop_abs:
  "map abs_dev (snd (devices_loop K flag f s devices mx ds)) =
     map2 (apply_if (a_by_id f s)) (matched flag devices (map dv_type ds)) (map abs_dev ds)"
proof (induction ds arbitrary: devices mx)
  case (Cons d ds)
  show ?case
  proof (cases "devices = 0")
    case True
    have "map2 (apply_if (a_by_id f s)) (map (\<lambda>_. False) (map dv_type (d # ds))) (map abs_dev (d # ds)) = map abs_dev (d # ds)"
      by (simp only: map2_apply_if_False) simp
    then show ?thesis using True by (simp only: devices_loop.simps matched_0 if_True snd_conv refl)
  next
    case False
    show ?thesis
    proof (cases "dv_type d AND flag = flag \<and> dv_type d AND devices \<noteq> 0")
      case True
      obtain mx1 d1 where st: "apply_paths_by_id_l K f s (mx, d) = (mx1, d1)" by fastforce
      obtain mx2 ds2 where rest: "devices_loop K flag f s (devices AND NOT (dv_type d)) mx1 ds = (mx2, ds2)" by fastforce
      have "abs_dev d1 = a_by_id f s (abs_dev d)" using apply_paths_by_id_abs [of K f s mx d] st by simp
      then show ?thesis using Cons [of "devices AND NOT (dv_type d)" mx1] True False st rest by (simp add: apply_if_def)
    next
      case no: False
      obtain mx2 ds2 where rest: "devices_loop K flag f s devices mx ds = (mx2, ds2)" by fastforce
      then show ?thesis using Cons [of devices mx] no False by (auto simp: apply_if_def)
    qed
  qed
qed simp

lemma global_loop_abs: "map abs_dev (snd (global_loop K f s mx ds)) = a_global f s (map abs_dev ds)"
proof (induction ds arbitrary: mx)
  case (Cons d ds)
  obtain mx1 d1 where st: "apply_paths_by_id_l K f s (mx, d) = (mx1, d1)" by fastforce
  obtain mx2 ds2 where rest: "global_loop K f s mx ds = (mx2, ds2)" by fastforce
  have "abs_dev d1 = a_by_id f s (abs_dev d)" using apply_paths_by_id_abs [of K f s mx d] st by simp
  moreover have "fst (abs_dev d) = dv_type d" by (simp add: abs_dev_def)
  ultimately show ?case using Cons [of mx] st rest by simp
qed simp

lemma fst_abs_dev: "map fst (map abs_dev ds) = map dv_type ds"
  by (simp add: abs_dev_def)

lemma to_devices_abs:
  "map abs_dev (cm_devices (apply_paths_to_devices_l K H devices f s cm)) = a_devices H devices f s (map abs_dev (cm_devices cm))"
  "cm_streams (apply_paths_to_devices_l K H devices f s cm) = cm_streams cm"
  using devices_loop_abs [of K "devices AND BIT_IN H" f s "devices AND NOT (BIT_IN H)" "cm_mixer cm" "cm_devices cm"]
  by (auto simp: apply_paths_to_devices_l_def a_devices_def fst_abs_dev simp del: map_map split: prod.splits)

lemma to_global_abs:
  "map abs_dev (cm_devices (apply_paths_to_global_l K f s cm)) = a_global f s (map abs_dev (cm_devices cm))"
  "cm_streams (apply_paths_to_global_l K f s cm) = cm_streams cm"
  using global_loop_abs [of K f s "cm_mixer cm" "cm_devices cm"]
  by (auto simp: apply_paths_to_global_l_def split: prod.splits)

lemma abs_update_stream:
  "i < length (cm_streams cm) \<Longrightarrow>
     abs_cm (update_stream i f cm) = (fst (abs_cm cm), (snd (abs_cm cm))[i := (f (cm_streams cm ! i))\<lparr>s_usecases := []\<rparr>])"
  by (simp add: abs_cm_def update_stream_def map_update)

lemma usecases_commute:
  "s\<lparr>s_usecases := u, s_current_devices := x\<rparr> = s\<lparr>s_current_devices := x, s_usecases := u\<rparr>"
  "s\<lparr>s_usecases := u, s_ref_count := n\<rparr> = s\<lparr>s_ref_count := n, s_usecases := u\<rparr>"
  "s\<lparr>s_usecases := u, s_ref_count := n, s_current_devices := x\<rparr> = s\<lparr>s_ref_count := n, s_current_devices := x, s_usecases := u\<rparr>"
  by simp_all

lemma routing_refines_all:
  assumes "i < length (cm_streams cm)"
  shows "abs_cm (apply_route K H i devices cm) = a_route H i devices (abs_cm cm) \<and>
    (fst (open_stream_l K i cm), abs_cm (snd (open_stream_l K i cm))) = a_open i (abs_cm cm) \<and>
    abs_cm (release_stream K H (Some i) cm) = a_release H i (abs_cm cm)"
proof -
  define s where "s = cm_streams cm ! i"
  have s: "snd (abs_cm cm) ! i = s\<lparr>s_usecases := []\<rparr>" "fst (abs_cm cm) = map abs_dev (cm_devices cm)"
    using assms by (simp_all add: abs_cm_def s_def)
  have pair: "abs_cm cm = (fst (abs_cm cm), snd (abs_cm cm))" by simp
  have len: "i < length (cm_streams cm')" if "cm_streams cm' = cm_streams cm" for cm' :: config_mgr using that assms by simp
  have "abs_cm (apply_route K H i devices cm) = a_route H i devices (abs_cm cm)"
    using assms by (subst pair) (auto simp: apply_route_def a_route_def Let_def s s_def [symmetric] abs_cm_def to_devices_abs
        update_stream_def map_update usecases_commute split: option.splits)
  moreover have "(fst (open_stream_l K i cm), abs_cm (snd (open_stream_l K i cm))) = a_open i (abs_cm cm)"
    using assms by (subst pair) (auto simp: usecases_commute open_stream_l_def a_open_def Let_def s s_def [symmetric] abs_cm_def to_global_abs update_stream_def map_update)
  moreover have "abs_cm (release_stream K H (Some i) cm) = a_release H i (abs_cm cm)"
    using assms by (subst pair) (auto simp: usecases_commute release_stream_def a_release_def Let_def s s_def [symmetric] abs_cm_def to_global_abs to_devices_abs update_stream_def map_update)
  ultimately show ?thesis by blast
qed

text \<open>
  C4. Reference counting refines its specification: whatever the mixer holds and whatever the kernel answers,
  routing a stream, opening it and releasing it change the use counts, routes and reference counts exactly
  as the abstract operations do, which know neither controls nor mixer. A failing mixer write never
  disturbs the bookkeeping.
\<close>

theorem routing_refines:
  assumes "i < length (cm_streams cm)"
  shows "abs_cm (apply_route K H i devices cm) = a_route H i devices (abs_cm cm) \<and>
    (fst (open_stream_l K i cm), abs_cm (snd (open_stream_l K i cm))) = a_open i (abs_cm cm) \<and>
    abs_cm (release_stream K H (Some i) cm) = a_release H i (abs_cm cm)"
  by (rule routing_refines_all [OF assms])

section \<open>Which devices a mask selects\<close>

definition output_type :: "audio_h \<Rightarrow> u32 \<Rightarrow> bool" where
  "output_type H t \<longleftrightarrow> t \<noteq> 0 \<and> t AND BIT_IN H = 0"

text \<open>
  The order of the devices that makes output masks unambiguous: two devices share a bit only when an output
  comes before an input.
\<close>

fun separated :: "audio_h \<Rightarrow> u32 list \<Rightarrow> bool" where
  "separated H [] = True"
| "separated H (t # ts) =
     ((\<forall>u\<in>set ts. t AND u AND NOT (BIT_IN H) = 0 \<or> output_type H t \<and> \<not> output_type H u) \<and> separated H ts)"

text \<open>A mask of whole output devices.\<close>

definition whole :: "audio_h \<Rightarrow> u32 list \<Rightarrow> u32 \<Rightarrow> bool" where
  "whole H ts m \<longleftrightarrow>
     m AND BIT_IN H = 0 \<and> bits m \<subseteq> (\<Union>t\<in>{t \<in> set ts. output_type H t}. bits t) \<and>
     (\<forall>t\<in>set ts. output_type H t \<longrightarrow> t AND m = 0 \<or> t AND m = t)"

lemma matched_outputs:
  assumes "separated H ts" "bits m \<inter> bits (BIT_IN H) = {}" "bits m \<subseteq> (\<Union>t\<in>{t \<in> set ts. output_type H t}. bits t)"
  shows "matched 0 m ts = map (\<lambda>t. output_type H t \<and> t AND m \<noteq> 0) ts"
  using assms
proof (induction ts arbitrary: m)
  case (Cons t ts)
  have apart: "bits t \<inter> bits u = {}" if "u \<in> set ts" "output_type H u" for u
  proof -
    have "t AND u AND NOT (BIT_IN H) = 0" using Cons.prems(1) that by auto
    moreover have "u AND BIT_IN H = 0" using that(2) by (simp add: output_type_def)
    ultimately show ?thesis unfolding and_eq_0_iff by (auto simp: bits_not dest: bits_less)
  qed
  show ?case
  proof (cases "output_type H t \<and> t AND m \<noteq> 0")
    case True
    have "matched 0 (m AND NOT t) ts = map (\<lambda>u. output_type H u \<and> u AND (m AND NOT t) \<noteq> 0) ts"
      using Cons.prems by (intro Cons.IH) (auto simp: bits_not)
    also have "\<dots> = map (\<lambda>u. output_type H u \<and> u AND m \<noteq> 0) ts"
      using apart by (intro map_cong refl) (fastforce simp: and_eq_0_iff bits_not dest: bits_less)
    finally show ?thesis using True by simp
  next
    case False
    have "bits t \<inter> bits m = {}"
    proof (cases "output_type H t")
      case True
      then show ?thesis using False by (simp add: and_eq_0_iff)
    next
      case no: False
      then show ?thesis using Cons.prems(3) apart by fastforce
    qed
    then have "t AND m = 0" "bits m \<subseteq> (\<Union>t\<in>{t \<in> set ts. output_type H t}. bits t)"
      using Cons.prems(3) by (auto simp: and_eq_0_iff)
    then show ?thesis using Cons.IH [of m] Cons.prems by simp
  qed
qed simp

lemma a_devices_outputs:
  assumes "separated H (map fst ds)" "bits m \<inter> bits (BIT_IN H) = {}"
    and "bits m \<subseteq> (\<Union>t\<in>{t \<in> set (map fst ds). output_type H t}. bits t)"
  shows "a_devices H m f s ds = map (\<lambda>d. apply_if (a_by_id f s) (output_type H (fst d) \<and> fst d AND m \<noteq> 0) d) ds"
proof -
  have "m AND BIT_IN H = 0" "m AND NOT (BIT_IN H) = m" using assms(2) by (auto simp: and_eq_0_iff bits_inject bits_not dest: bits_less)
  then have "a_devices H m f s ds = map2 (apply_if (a_by_id f s)) (map (\<lambda>t. output_type H t \<and> t AND m \<noteq> 0) (map fst ds)) ds"
    using matched_outputs [OF assms] by (simp add: a_devices_def)
  also have "\<dots> = map (\<lambda>d. apply_if (a_by_id f s) (output_type H (fst d) \<and> fst d AND m \<noteq> 0) d) ds"
    by (simp add: zip_map1 map2_map_map flip: map_map) (induction ds, auto)
  finally show ?thesis .
qed

section \<open>Use counts\<close>

definition users :: "u32 \<Rightarrow> audio_stream list \<Rightarrow> int" where
  "users t ss = int (length (filter (\<lambda>s. t AND s_current_devices s \<noteq> 0) ss))"

definition open_streams :: "audio_stream list \<Rightarrow> int" where
  "open_streams ss = int (length (filter (\<lambda>s. s_ref_count s > 0) ss))"

definition managed :: "adev \<Rightarrow> bool" where
  "managed d \<longleftrightarrow> e_path_id_on \<in> set (fst (snd d)) \<and> e_path_id_off \<in> set (fst (snd d))"

definition counts_ok :: "audio_h \<Rightarrow> acfg \<Rightarrow> bool" where
  "counts_ok H c \<longleftrightarrow>
     (case c of (ds, ss) \<Rightarrow>
        (\<forall>d\<in>set ds. managed d \<and> output_type H (fst d) \<longrightarrow> snd (snd d) = users (fst d) ss) \<and>
        (case find (\<lambda>d. fst d = 0) ds of None \<Rightarrow> True | Some d \<Rightarrow> managed d \<longrightarrow> snd (snd d) = open_streams ss))"

lemma count_update:
  "i < length xs \<Longrightarrow> int (length (filter P (xs[i := x]))) = int (length (filter P xs)) - of_bool (P (xs ! i)) + of_bool (P x)"
proof (induction xs arbitrary: i)
  case (Cons y xs)
  then show ?case by (cases i) auto
qed simp

lemma users_update:
  "i < length ss \<Longrightarrow> users t (ss[i := s]) =
     users t ss - of_bool (t AND s_current_devices (ss ! i) \<noteq> 0) + of_bool (t AND s_current_devices s \<noteq> 0)"
  by (simp add: users_def count_update)

lemma open_streams_update:
  "i < length ss \<Longrightarrow> open_streams (ss[i := s]) = open_streams ss - of_bool (s_ref_count (ss ! i) > 0) + of_bool (s_ref_count s > 0)"
  by (simp add: open_streams_def count_update)

lemma a_by_id_simps [simp]: "fst (a_by_id f s d) = fst d" "fst (snd (a_by_id f s d)) = fst (snd d)" "managed (a_by_id f s d) = managed d"
  by (auto simp: a_by_id_def managed_def split: prod.splits)

lemma a_by_id_on: "managed d \<Longrightarrow> s \<noteq> e_path_id_off \<Longrightarrow> snd (snd (a_by_id e_path_id_on s d)) = snd (snd d) + 1"
  by (auto simp: a_by_id_def managed_def path_delta_def e_path_id_on_def e_path_id_off_def split: prod.splits)

lemma a_by_id_off:
  "managed d \<Longrightarrow> s \<noteq> e_path_id_on \<Longrightarrow> snd (snd (a_by_id e_path_id_off s d)) = snd (snd d) - 1"
  "managed d \<Longrightarrow> s \<noteq> e_path_id_on \<Longrightarrow> snd (snd (a_by_id s e_path_id_off d)) = snd (snd d) - 1"
  by (auto simp: a_by_id_def managed_def path_delta_def e_path_id_on_def e_path_id_off_def split: prod.splits)

lemma a_global_types [simp]: "map fst (a_global f s ds) = map fst ds"
  by (induction f s ds rule: a_global.induct) auto

lemma a_global_find:
  "find (\<lambda>d. fst d = 0) (a_global f s ds) = map_option (a_by_id f s) (find (\<lambda>d. fst d = 0) ds)"
  by (induction f s ds rule: a_global.induct) auto

lemma a_global_outputs: "d \<in> set (a_global f s ds) \<Longrightarrow> fst d \<noteq> 0 \<Longrightarrow> d \<in> set ds"
  by (induction f s ds rule: a_global.induct) (auto split: if_splits)

lemma apply_if_simps [simp]: "fst (apply_if (a_by_id f s) b d) = fst d" "managed (apply_if (a_by_id f s) b d) = managed d"
  by (simp_all add: apply_if_def)

lemma find_SomeD: "find P xs = Some x \<Longrightarrow> P x"
  by (induction xs) (auto split: if_splits)

lemma find_map_fst: "(\<And>d. fst (g d) = fst d) \<Longrightarrow> find (\<lambda>d. fst d = 0) (map g ds) = map_option g (find (\<lambda>d. fst d = 0) ds)"
  by (induction ds) auto

lemma whole_difference:
  assumes "whole H ts m" "whole H ts c"
  shows "bits (m AND NOT c) \<inter> bits (BIT_IN H) = {}" "bits (m AND NOT c) \<subseteq> (\<Union>t\<in>{t \<in> set ts. output_type H t}. bits t)"
    "t \<in> set ts \<Longrightarrow> output_type H t \<Longrightarrow> t AND (m AND NOT c) \<noteq> 0 \<longleftrightarrow> t AND m \<noteq> 0 \<and> t AND c = 0"
proof -
  show "bits (m AND NOT c) \<inter> bits (BIT_IN H) = {}" "bits (m AND NOT c) \<subseteq> (\<Union>t\<in>{t \<in> set ts. output_type H t}. bits t)"
    using assms by (auto simp: whole_def and_eq_0_iff)
  show "t AND (m AND NOT c) \<noteq> 0 \<longleftrightarrow> t AND m \<noteq> 0 \<and> t AND c = 0" if "t \<in> set ts" "output_type H t"
  proof -
    have "t AND m = 0 \<or> t AND m = t" "t AND c = 0 \<or> t AND c = t" using assms that by (auto simp: whole_def)
    then show ?thesis unfolding and_eq_0_iff bits_inject [of _ t] by (auto simp: bits_not dest: bits_less)
  qed
qed

lemma whole_0 [simp]: "whole H ts 0"
  by (simp add: whole_def)

definition stream_paths_ok :: "audio_stream \<Rightarrow> bool" where
  "stream_paths_ok s \<longleftrightarrow> s_enable_path s \<noteq> e_path_id_off \<and> s_disable_path s \<noteq> e_path_id_on"

definition routing_inv :: "audio_h \<Rightarrow> acfg \<Rightarrow> bool" where
  "routing_inv H c \<longleftrightarrow>
     (case c of (ds, ss) \<Rightarrow>
        separated H (map fst ds) \<and> counts_ok H c \<and>
        (\<forall>s\<in>set ss. whole H (map fst ds) (s_current_devices s) \<and> stream_paths_ok s \<and> 0 \<le> s_ref_count s))"

lemma set_update_all: "(\<forall>s\<in>set ss. P s) \<Longrightarrow> P x \<Longrightarrow> \<forall>s\<in>set (ss[i := x]). P s"
  using set_update_subset_insert [of ss i x] by blast

text \<open>The counts after the paths of \<open>off\<close> and \<open>on\<close> have been applied to the devices of two masks.\<close>

lemma counts_after_masks:
  assumes inv: "routing_inv H (ds, ss)" and i: "i < length ss" and m: "whole H (map fst ds) m"
    and paths: "d1 \<noteq> e_path_id_on" "e1 \<noteq> e_path_id_off"
    and ref: "s_ref_count s = s_ref_count (ss ! i)" "s_current_devices s = m"
    and ds': "ds' = a_devices H (m AND NOT (s_current_devices (ss ! i))) e_path_id_on e1
        (a_devices H (NOT m AND s_current_devices (ss ! i)) d1 e_path_id_off ds)"
  shows "counts_ok H (ds', ss[i := s])" "map fst ds' = map fst ds"
proof -
  define c where "c = s_current_devices (ss ! i)"
  have c: "whole H (map fst ds) c" using inv i by (simp add: routing_inv_def c_def)
  have comm: "NOT m AND c = c AND NOT m" by (rule and.commute)
  define g1 where "g1 d = apply_if (a_by_id d1 e_path_id_off) (output_type H (fst d) \<and> fst d AND (c AND NOT m) \<noteq> 0) d" for d :: adev
  define g2 where "g2 d = apply_if (a_by_id e_path_id_on e1) (output_type H (fst d) \<and> fst d AND (m AND NOT c) \<noteq> 0) d" for d :: adev
  have sep: "separated H (map fst ds)" using inv by (simp add: routing_inv_def)
  have 1: "a_devices H (NOT m AND c) d1 e_path_id_off ds = map g1 ds"
    unfolding comm g1_def by (rule a_devices_outputs [OF sep whole_difference(1,2) [OF c m]])
  have fst_g: "fst (g1 d) = fst d" "fst (g2 d) = fst d" "managed (g1 d) = managed d" "managed (g2 d) = managed d" for d
    by (simp_all add: g1_def g2_def)
  have types: "map fst (map g1 ds) = map fst ds" by (simp add: fst_g)
  have 2: "ds' = map g2 (map g1 ds)" unfolding ds' c_def [symmetric] 1 unfolding g2_def
    by (rule a_devices_outputs) (use sep whole_difference(1,2) [OF m c] in \<open>simp_all only: types\<close>)
  then show "map fst ds' = map fst ds" by (simp add: fst_g)
  have old: "snd (snd d) = users (fst d) ss" if "d \<in> set ds" "managed d" "output_type H (fst d)" for d
    using inv that by (simp add: routing_inv_def counts_ok_def)
  have new: "snd (snd (g2 (g1 d))) = users (fst d) (ss[i := s])" if d: "d \<in> set ds" "managed d" "output_type H (fst d)" for d
  proof -
    have t: "fst d \<in> set (map fst ds)" using d(1) by simp
    have "snd (snd (g1 d)) = snd (snd d) - of_bool (fst d AND c \<noteq> 0 \<and> fst d AND m = 0)"
      using whole_difference(3) [OF c m t d(3)] d paths by (simp add: g1_def apply_if_def a_by_id_off)
    moreover have "snd (snd (g2 (g1 d))) = snd (snd (g1 d)) + of_bool (fst d AND m \<noteq> 0 \<and> fst d AND c = 0)"
      using whole_difference(3) [OF m c t d(3)] d paths by (simp add: g2_def apply_if_def a_by_id_on fst_g)
    ultimately show ?thesis using old [OF d] users_update [OF i, of "fst d" s] ref by (auto simp: c_def)
  qed
  have glob: "g2 (g1 d) = d" if "fst d = 0" for d using that by (simp add: g1_def g2_def apply_if_def output_type_def)
  have "find (\<lambda>d. fst d = 0) ds' = find (\<lambda>d. fst d = 0) ds"
  proof -
    have "find (\<lambda>d. fst d = 0) ds' = map_option g2 (map_option g1 (find (\<lambda>d. fst d = 0) ds))"
      unfolding 2 by (simp only: find_map_fst fst_g)
    also have "\<dots> = find (\<lambda>d. fst d = 0) ds"
      using glob by (cases "find (\<lambda>d. fst d = 0) ds") (auto dest: find_SomeD)
    finally show ?thesis .
  qed
  moreover have "open_streams (ss[i := s]) = open_streams ss" using open_streams_update [OF i, of s] ref by simp
  moreover have "case find (\<lambda>d. fst d = 0) ds of None \<Rightarrow> True | Some d \<Rightarrow> managed d \<longrightarrow> snd (snd d) = open_streams ss"
    using inv by (simp add: routing_inv_def counts_ok_def)
  ultimately show "counts_ok H (ds', ss[i := s])" using new unfolding counts_ok_def 2 by (auto simp: fst_g split: option.splits)
qed

text \<open>The counts after the global device has been switched along with a stream.\<close>

lemma counts_after_global:
  assumes ok: "counts_ok H (ds, ss)" and i: "i < length ss" and cur: "s_current_devices s = s_current_devices (ss ! i)"
    and "\<And>d. managed d \<Longrightarrow> snd (snd (a_by_id f g d)) = snd (snd d) - of_bool (s_ref_count (ss ! i) > 0) + of_bool (s_ref_count s > 0)"
  shows "counts_ok H (a_global f g ds, ss[i := s])"
proof -
  have "users t (ss[i := s]) = users t ss" for t using users_update [OF i] cur by simp
  then have "snd (snd d) = users (fst d) (ss[i := s])" if "d \<in> set (a_global f g ds)" "managed d" "output_type H (fst d)" for d
    using ok a_global_outputs [OF that(1)] that by (auto simp: counts_ok_def output_type_def)
  moreover have "case find (\<lambda>d. fst d = 0) (a_global f g ds) of None \<Rightarrow> True | Some d \<Rightarrow> managed d \<longrightarrow> snd (snd d) = open_streams (ss[i := s])"
    using ok assms(4) open_streams_update [OF i, of s] by (auto simp: counts_ok_def a_global_find split: option.splits)
  ultimately show ?thesis by (auto simp: counts_ok_def)
qed

lemma counts_same_streams:
  assumes "counts_ok H (ds, ss)" "i < length ss" "s_current_devices s = s_current_devices (ss ! i)"
    and "s_ref_count s > 0 \<longleftrightarrow> s_ref_count (ss ! i) > 0"
  shows "counts_ok H (ds, ss[i := s])"
  using assms users_update [OF assms(2)] open_streams_update [OF assms(2), of s] by (auto simp: counts_ok_def split: option.splits)

section \<open>Sessions\<close>

lemma a_by_id_commute: "a_by_id f s d = a_by_id s f d"
  by (auto simp: a_by_id_def split: prod.splits)

lemma a_devices_commute: "a_devices H m f s ds = a_devices H m s f ds"
proof -
  have "a_by_id f s = a_by_id s f" by (rule ext) (rule a_by_id_commute)
  then show ?thesis by (simp add: a_devices_def)
qed

lemma a_devices_0: "a_devices H 0 f s ds = ds"
  by (simp add: a_devices_def matched_0 map2_apply_if_False del: map_map)

lemma routing_inv_step:
  assumes "routing_inv H (ds, ss)" "counts_ok H (ds', ss[i := s])" "map fst ds' = map fst ds"
    and "whole H (map fst ds) (s_current_devices s) \<and> stream_paths_ok s \<and> 0 \<le> s_ref_count s"
  shows "routing_inv H (ds', ss[i := s])"
proof -
  have "\<forall>s\<in>set ss. whole H (map fst ds) (s_current_devices s) \<and> stream_paths_ok s \<and> 0 \<le> s_ref_count s"
    using assms(1) unfolding routing_inv_def by simp
  from set_update_all [OF this assms(4)] show ?thesis using assms(1-3) unfolding routing_inv_def by simp
qed

lemma a_route_inv:
  assumes inv: "routing_inv H c" and i: "i < length (snd c)" and out: "\<not> stream_is_input (s_info (snd c ! i))"
    and m: "whole H (map fst (fst c)) devices" and all: "devices AND OUT_ALL H = devices"
  shows "routing_inv H (a_route H i devices c)" "map fst (fst (a_route H i devices c)) = map fst (fst c)"
proof -
  obtain ds ss where c: "c = (ds, ss)" by fastforce
  define s where "s = ss ! i"
  define s' where "s' = s\<lparr>s_current_devices := devices\<rparr>"
  define ds' where "ds' = a_devices H (devices AND NOT (s_current_devices s)) e_path_id_on (s_enable_path s)
    (a_devices H (NOT devices AND s_current_devices s) (s_disable_path s) e_path_id_off ds)"
  have s: "s \<in> set ss" using i by (simp add: s_def c)
  have "route_devices H (s_info s) devices = Some devices"
    using m all out by (auto simp: route_devices_def whole_def c s_def)
  then have run: "a_route H i devices c = (ds', ss[i := s'])" by (simp add: a_route_def Let_def c ds'_def s'_def s_def)
  have paths: "s_disable_path s \<noteq> e_path_id_on" "s_enable_path s \<noteq> e_path_id_off"
    using inv s by (auto simp: c routing_inv_def stream_paths_ok_def)
  have "counts_ok H (ds', ss[i := s']) \<and> map fst ds' = map fst ds"
    using counts_after_masks [of H ds ss i devices "s_disable_path s" "s_enable_path s" s' ds'] inv i m paths
    by (simp add: c s'_def s_def ds'_def)
  moreover have "whole H (map fst ds) (s_current_devices s') \<and> stream_paths_ok s' \<and> 0 \<le> s_ref_count s'"
    using inv s m by (auto simp: c routing_inv_def s'_def stream_paths_ok_def)
  ultimately show "routing_inv H (a_route H i devices c)" "map fst (fst (a_route H i devices c)) = map fst (fst c)"
    using routing_inv_step [OF inv [unfolded c]] unfolding run unfolding c by simp_all
qed

lemma a_open_inv:
  assumes inv: "routing_inv H c" and i: "i < length (snd c)"
  shows "routing_inv H (snd (a_open i c))" "map fst (fst (snd (a_open i c))) = map fst (fst c)"
proof -
  obtain ds ss where c: "c = (ds, ss)" by fastforce
  define s where "s = ss ! i"
  define s' where "s' = s\<lparr>s_ref_count := s_ref_count s + 1\<rparr>"
  define ds' where "ds' = (if s_ref_count s + 1 = 1 then a_global e_path_id_on (s_enable_path s) ds else ds)"
  have s: "s \<in> set ss" using i by (simp add: s_def c)
  have ok: "counts_ok H (ds, ss)" "0 \<le> s_ref_count s" "s_enable_path s \<noteq> e_path_id_off"
    using inv s by (auto simp: c routing_inv_def stream_paths_ok_def)
  have run: "snd (a_open i c) = (if s_ref_count s < s_max_ref_count s then (ds', ss[i := s']) else c)"
    by (simp add: a_open_def Let_def c ds'_def s'_def s_def)
  have "counts_ok H (ds', ss[i := s'])"
  proof (cases "s_ref_count s = 0")
    case True
    then show ?thesis unfolding ds'_def using ok i
      by simp (rule counts_after_global, auto simp: c s'_def s_def a_by_id_on)
  next
    case False
    then show ?thesis unfolding ds'_def using ok i by simp (rule counts_same_streams, auto simp: c s'_def s_def)
  qed
  moreover have "whole H (map fst ds) (s_current_devices s') \<and> stream_paths_ok s' \<and> 0 \<le> s_ref_count s'"
    using inv s by (auto simp: c routing_inv_def s'_def stream_paths_ok_def)
  moreover have "map fst ds' = map fst ds" by (simp add: ds'_def)
  ultimately show "routing_inv H (snd (a_open i c))" "map fst (fst (snd (a_open i c))) = map fst (fst c)"
    using routing_inv_step [OF inv [unfolded c]] inv unfolding run unfolding c by simp_all
qed

lemma a_release_inv:
  assumes inv: "routing_inv H c" and i: "i < length (snd c)" and pos: "s_ref_count (snd c ! i) > 0"
  shows "routing_inv H (a_release H i c)" "map fst (fst (a_release H i c)) = map fst (fst c)"
proof -
  obtain ds ss where c: "c = (ds, ss)" by fastforce
  define s where "s = ss ! i"
  define s1 where "s1 = s\<lparr>s_ref_count := s_ref_count s - 1\<rparr>"
  have s: "s \<in> set ss" using i by (simp add: s_def c)
  have paths: "s_disable_path s \<noteq> e_path_id_on" "s_enable_path s \<noteq> e_path_id_off"
    using inv s by (auto simp: c routing_inv_def stream_paths_ok_def)
  have s1: "whole H (map fst ds) (s_current_devices s1) \<and> stream_paths_ok s1 \<and> 0 \<le> s_ref_count s1"
    using inv s pos by (auto simp: c routing_inv_def s1_def stream_paths_ok_def s_def)
  have "routing_inv H (a_release H i c) \<and> map fst (fst (a_release H i c)) = map fst (fst c)"
  proof (cases "s_ref_count s - 1 = 0")
    case False
    then have run: "a_release H i c = (ds, ss[i := s1])" by (simp add: a_release_def Let_def c s1_def s_def)
    have "counts_ok H (ds, ss[i := s1])"
      using inv i pos False by (intro counts_same_streams) (auto simp: c routing_inv_def s1_def s_def)
    then show ?thesis using routing_inv_step [OF inv [unfolded c] _ _ s1] unfolding run unfolding c by simp
  next
    case True
    define ds1 where "ds1 = a_devices H (s_current_devices s) e_path_id_off (s_disable_path s) ds"
    define s0 where "s0 = s\<lparr>s_current_devices := 0\<rparr>"
    define s2 where "s2 = s1\<lparr>s_current_devices := 0\<rparr>"
    have run: "a_release H i c = (a_global (s_disable_path s) e_path_id_off ds1, ss[i := s2])"
      using True by (simp add: a_release_def Let_def c ds1_def s1_def s2_def s_def)
    have "ds1 = a_devices H (0 AND NOT (s_current_devices (ss ! i))) e_path_id_on (s_enable_path s)
        (a_devices H (NOT 0 AND s_current_devices (ss ! i)) (s_disable_path s) e_path_id_off ds)"
      by (simp add: ds1_def a_devices_0 a_devices_commute [of H _ e_path_id_off] s_def)
    from counts_after_masks [OF inv [unfolded c] _ whole_0 paths _ _ this, of s0]
    have ds1: "counts_ok H (ds1, ss[i := s0])" "map fst ds1 = map fst ds" using i by (simp_all add: c s0_def s_def)
    have "counts_ok H (a_global (s_disable_path s) e_path_id_off ds1, (ss[i := s0])[i := s2])"
      using ds1(1) i pos True paths
      by (intro counts_after_global) (auto simp: c s0_def s2_def s1_def s_def a_by_id_off)
    then have "counts_ok H (a_global (s_disable_path s) e_path_id_off ds1, ss[i := s2])" by simp
    moreover have "whole H (map fst ds) (s_current_devices s2) \<and> stream_paths_ok s2 \<and> 0 \<le> s_ref_count s2"
      using s1 by (simp add: s2_def stream_paths_ok_def)
    ultimately show ?thesis using routing_inv_step [OF inv [unfolded c]] ds1(2) unfolding run unfolding c by simp
  qed
  then show "routing_inv H (a_release H i c)" "map fst (fst (a_release H i c)) = map fst (fst c)" by auto
qed

text \<open>
  Any run of the interface of the configuration in which output streams are routed to whole, declared output
  devices and only open streams are released.
\<close>

inductive routing_session :: "alsa \<Rightarrow> audio_h \<Rightarrow> config_mgr \<Rightarrow> config_mgr \<Rightarrow> bool" for K H cm0 where
  start: "routing_session K H cm0 cm0"
| get: "routing_session K H cm0 cm \<Longrightarrow> routing_session K H cm0 (snd (get_stream K H devices format cm))"
| named: "routing_session K H cm0 cm \<Longrightarrow> routing_session K H cm0 (snd (get_named_stream K name cm))"
| route: "routing_session K H cm0 cm \<Longrightarrow> i < length (cm_streams cm) \<Longrightarrow> \<not> stream_is_input (s_info (cm_streams cm ! i)) \<Longrightarrow>
    whole H (map dv_type (cm_devices cm)) devices \<Longrightarrow> devices AND OUT_ALL H = devices \<Longrightarrow>
    routing_session K H cm0 (apply_route K H i devices cm)"
| release: "routing_session K H cm0 cm \<Longrightarrow> i < length (cm_streams cm) \<Longrightarrow> s_ref_count (cm_streams cm ! i) > 0 \<Longrightarrow>
    routing_session K H cm0 (release_stream K H (Some i) cm)"
| volume: "routing_session K H cm0 cm \<Longrightarrow> routing_session K H cm0 (snd (set_hw_volume K i l r cm))"
| use_case: "routing_session K H cm0 cm \<Longrightarrow> routing_session K H cm0 (snd (apply_use_case K i setting name cm))"

lemma open_stream_inv:
  assumes "routing_inv H (abs_cm cm)" "i < length (cm_streams cm)"
  shows "routing_inv H (abs_cm (snd (open_stream_l K i cm)))"
proof -
  have "(fst (open_stream_l K i cm), abs_cm (snd (open_stream_l K i cm))) = a_open i (abs_cm cm)"
    using routing_refines_all [OF assms(2)] by blast
  then have "abs_cm (snd (open_stream_l K i cm)) = snd (a_open i (abs_cm cm))" by (metis snd_conv)
  then show ?thesis using a_open_inv [OF assms(1), of i] assms(2) by (simp add: abs_cm_def)
qed

lemma open_stream_length: "length (cm_streams (snd (open_stream_l K i cm))) = length (cm_streams cm)"
  by (simp add: open_stream_l_def Let_def to_global_abs update_stream_def)

lemma open_first_inv:
  "routing_inv H (abs_cm cm) \<Longrightarrow> \<forall>i\<in>set is. i < length (cm_streams cm) \<Longrightarrow> routing_inv H (abs_cm (snd (open_first K type is cm)))"
proof (induction "is" arbitrary: cm)
  case (Cons i "is")
  obtain ok cm1 where run: "open_stream_l K i cm = (ok, cm1)" by fastforce
  have "routing_inv H (abs_cm cm1)" "length (cm_streams cm1) = length (cm_streams cm)"
    using open_stream_inv [of H cm i K] open_stream_length [of K i cm] Cons.prems run by simp_all
  then show ?case using Cons run by simp
qed simp

lemma find_named_less: "find_named name ss k = Some i \<Longrightarrow> k \<le> i \<and> i < k + length ss"
  by (induction name ss k rule: find_named.induct) (auto split: if_splits)

lemma named_stream_inv: "routing_inv H (abs_cm cm) \<Longrightarrow> routing_inv H (abs_cm (snd (get_named_stream K name cm)))"
  using open_stream_inv [of H cm _ K] find_named_less [of name "cm_streams cm" 0]
  by (auto simp: get_named_stream_def find_named_stream_def split: option.splits prod.splits) (metis snd_conv)

lemma abs_put_case: "(put_case u j cs s)\<lparr>s_usecases := []\<rparr> = s\<lparr>s_usecases := []\<rparr>"
  by (simp add: put_case_def Let_def)

lemma abs_unchanged:
  "abs_cm (snd (set_hw_volume K i l r cm)) = abs_cm cm" "abs_cm (snd (apply_use_case K i setting name cm)) = abs_cm cm"
proof -
  have same: "map (\<lambda>s. s\<lparr>s_usecases := []\<rparr>) (ss[i := put_case u j cs (ss ! i)]) = map (\<lambda>s. s\<lparr>s_usecases := []\<rparr>) ss" for ss u j cs
    by (cases "i < length ss") (simp_all add: map_update abs_put_case list_update_same_conv list_update_beyond)
  show "abs_cm (snd (set_hw_volume K i l r cm)) = abs_cm cm"
    by (simp add: set_hw_volume_def Let_def abs_cm_def split: prod.splits)
  show "abs_cm (snd (apply_use_case K i setting name cm)) = abs_cm cm"
    using same by (auto simp: apply_use_case_def abs_cm_def update_stream_def split: option.splits prod.splits)
qed

text \<open>A configuration just read: no stream open or routed, no device in use.\<close>

definition routing_ready :: "audio_h \<Rightarrow> config_mgr \<Rightarrow> bool" where
  "routing_ready H cm \<longleftrightarrow>
     separated H (map dv_type (cm_devices cm)) \<and> list_all (\<lambda>d. dv_use_count d = 0) (cm_devices cm) \<and>
     list_all (\<lambda>s. s_ref_count s = 0 \<and> s_current_devices s = 0 \<and> stream_paths_ok s) (cm_streams cm)"

lemma ready_inv: "routing_ready H cm \<Longrightarrow> routing_inv H (abs_cm cm)"
proof -
  assume "routing_ready H cm"
  then have sep: "separated H (map dv_type (cm_devices cm))" and ds: "\<forall>d\<in>set (cm_devices cm). dv_use_count d = 0"
    and ss: "\<forall>s\<in>set (cm_streams cm). s_ref_count s = 0 \<and> s_current_devices s = 0 \<and> stream_paths_ok s"
    by (simp_all add: routing_ready_def list_all_iff)
  have "users t (snd (abs_cm cm)) = 0" "open_streams (snd (abs_cm cm)) = 0" for t
    using ss by (auto simp: users_def open_streams_def abs_cm_def filter_empty_conv)
  moreover have "snd (snd d) = 0" if "d \<in> set (fst (abs_cm cm))" for d using that ds by (auto simp: abs_cm_def abs_dev_def)
  moreover have "d \<in> set xs" if "find P xs = Some d" for P d and xs :: "adev list" using that by (induction xs) (auto split: if_splits)
  ultimately have "counts_ok H (abs_cm cm)"
    by (fastforce simp: counts_ok_def split: option.splits prod.splits)
  moreover have "map fst (fst (abs_cm cm)) = map dv_type (cm_devices cm)" by (simp add: abs_cm_def abs_dev_def)
  moreover have "\<forall>s\<in>set (snd (abs_cm cm)). s_current_devices s = 0 \<and> s_ref_count s = 0 \<and> stream_paths_ok s"
    using ss by (auto simp: abs_cm_def stream_paths_ok_def)
  ultimately show ?thesis using sep by (auto simp: routing_inv_def split: prod.splits)
qed

lemma session_inv:
  assumes "routing_session K H cm0 cm" "routing_ready H cm0"
  shows "routing_inv H (abs_cm cm)"
  using assms(1)
proof induction
  case start
  then show ?case using assms(2) by (rule ready_inv)
next
  case (get cm devices format)
  then show ?case unfolding get_stream_def by (intro open_first_inv) auto
next
  case (named cm name)
  then show ?case by (intro named_stream_inv)
next
  case (route cm i devices)
  have "map fst (fst (abs_cm cm)) = map dv_type (cm_devices cm)" by (simp add: abs_cm_def abs_dev_def)
  then have "routing_inv H (a_route H i devices (abs_cm cm))"
    using route.hyps by (intro a_route_inv(1) [OF route.IH]) (simp_all, simp_all add: abs_cm_def)
  then show ?case using routing_refines_all [OF route.hyps(2), of K H devices] by simp
next
  case (release cm i)
  then have "routing_inv H (a_release H i (abs_cm cm))"
    using a_release_inv(1) [of H "abs_cm cm" i] by (simp add: abs_cm_def)
  then show ?case using routing_refines_all [OF release.hyps(2), of K H] by simp
qed (simp_all add: abs_unchanged)

text \<open>
  Devices are in use exactly as long as a stream is routed to them: for a configuration in which two
  devices share a bit only if the output is declared before the input, after any run of the interface that
  routes output streams to whole declared devices, the use count of every output device with \<open>on\<close> and \<open>off\<close>
  paths is the number of streams routed to it, and that of the global device the number of open streams.
\<close>

theorem use_counts_are_users:
  assumes "routing_session K H cm0 cm" "routing_ready H cm0"
  shows "counts_ok H (abs_cm cm)"
  using session_inv [OF assms] by (auto simp: routing_inv_def split: prod.splits)

lemma whole_single:
  "t \<in> set ts \<Longrightarrow> output_type H t \<Longrightarrow> \<forall>u\<in>set ts. output_type H u \<longrightarrow> u AND t = 0 \<or> u AND t = u \<Longrightarrow> whole H ts t"
  by (auto simp: whole_def output_type_def)

section \<open>Examples\<close>

text \<open>Devices with the values of \<open>system/audio.h\<close>; the wired headset and the built-in microphone share bit 2.\<close>

definition mocha_h :: audio_h where
  "mocha_h = \<lparr>BIT_IN = 0x80000000, IN_ALL = 0x8FFFFFFF, OUT_ALL = 0x0FFFFFFF, is_linear_pcm = \<lambda>f. f = 1, device_flag = \<lambda>_. 0\<rparr>"

definition empty_path :: "int \<Rightarrow> audio_path" where
  "empty_path i = \<lparr>p_id = i, p_ctls = []\<rparr>"

definition example_devices :: "audio_device list" where
  "example_devices =
     [\<lparr>dv_type = 0x2, dv_use_count = 0, dv_paths = [empty_path 1, empty_path 0]\<rparr>,
      \<lparr>dv_type = 0x4, dv_use_count = 0, dv_paths = [empty_path 1, empty_path 0]\<rparr>,
      \<lparr>dv_type = 0x80000010, dv_use_count = 0, dv_paths = [empty_path 2, empty_path 3]\<rparr>,
      \<lparr>dv_type = 0x80000004, dv_use_count = 0, dv_paths = [empty_path 1, empty_path 0, empty_path 2, empty_path 3]\<rparr>]"

definition plain_stream :: "stream_type \<Rightarrow> int \<Rightarrow> int \<Rightarrow> audio_stream" where
  "plain_stream t en dis =
     \<lparr>s_info = \<lparr>hs_type = t, hs_card_number = 1, hs_device_number = 0, hs_rate = 48000, hs_period_size = 0, hs_period_count = 0\<rparr>,
      s_name = None, s_ref_count = 0, s_max_ref_count = 2147483647, s_enable_path = en, s_disable_path = dis, s_current_devices = 0,
      s_volume_left = \<lparr>sc_id = UINT_MAX, sc_index = 0, sc_min = 0, sc_max = 0\<rparr>,
      s_volume_right = \<lparr>sc_id = UINT_MAX, sc_index = 0, sc_min = 0, sc_max = 0\<rparr>, s_usecases = []\<rparr>"

definition example_cm :: config_mgr where
  "example_cm = \<lparr>cm_mixer = None, cm_supported_output_devices = 0x6, cm_supported_input_devices = 0x80000014,
     cm_devices = example_devices, cm_streams = [plain_stream e_stream_out_pcm (- 1) (- 1), plain_stream e_stream_in_pcm 2 3]\<rparr>"

lemmas example_defs = example_cm_def example_devices_def mocha_h_def plain_stream_def empty_path_def

lemma example_ready: "routing_ready mocha_h example_cm"
  by (simp add: routing_ready_def example_defs output_type_def stream_paths_ok_def e_path_id_on_def e_path_id_off_def)

lemma example_session: "routing_session silent_card mocha_h example_cm (apply_route silent_card mocha_h 0 4 example_cm)"
proof (rule routing_session.route [OF routing_session.start])
  show "whole mocha_h (map dv_type (cm_devices example_cm)) 4"
    by (rule whole_single) (auto simp: example_defs output_type_def)
qed (simp_all add: example_defs stream_is_input_def)

theorem use_counts_are_users_witness:
  "counts_ok mocha_h (abs_cm (apply_route silent_card mocha_h 0 4 example_cm)) \<and>
   get_routed_devices (apply_route silent_card mocha_h 0 4 example_cm) 0 = 4"
proof
  show "counts_ok mocha_h (abs_cm (apply_route silent_card mocha_h 0 4 example_cm))"
    by (rule use_counts_are_users [OF example_session example_ready])
  have "snd (abs_cm (apply_route silent_card mocha_h 0 4 example_cm)) ! 0 = snd (a_route mocha_h 0 4 (abs_cm example_cm)) ! 0"
    using routing_refines_all [of 0 example_cm silent_card mocha_h 4] by (simp add: example_defs)
  then show "get_routed_devices (apply_route silent_card mocha_h 0 4 example_cm) 0 = 4"
    by (simp add: get_routed_devices_def apply_route_def to_devices_abs update_stream_def Let_def route_devices_def example_defs stream_is_input_def)
qed

theorem routing_refines_witness:
  "abs_cm (apply_route silent_card mocha_h 0 4 example_cm) = a_route mocha_h 0 4 (abs_cm example_cm)"
  using routing_refines [of 0 example_cm silent_card mocha_h 4] by (simp add: example_defs)

section \<open>Switching inputs\<close>

text \<open>
  The configuration of \<open>audio/audio.mocha.xml\<close> up to its controls: speaker, headphone, headset, headset microphone
  and built-in microphone, with paths 0 to 5 named \<open>off\<close>, \<open>on\<close>, \<open>on_pcm\<close>, \<open>off_pcm\<close>, \<open>on_pcm_rec\<close> and \<open>off_pcm_rec\<close>, and
  its two streams.
\<close>

definition mocha_xml :: acfg where
  "mocha_xml =
     ([(0x2, [1, 2, 3], 0), (0x8, [1, 2, 3], 0), (0x4, [1, 2, 3], 0), (0x80000010, [4, 5], 0), (0x80000004, [1, 4, 5], 0)],
      [plain_stream e_stream_out_pcm 2 3, plain_stream e_stream_in_pcm 4 5])"

text \<open>
  Switching microphones drives the headset: with the devices of \<open>audio.mocha.xml\<close>, an input stream routed to the
  headset microphone and then to the built-in microphone switches on the headset output and leaves the
  built-in microphone alone, although the stream then reports the microphone as its route. The direction
  bit is common to both routes, so the mask of newly enabled devices does not carry it.
\<close>

theorem mic_switch_drives_headset:
  assumes "abs_cm cm = mocha_xml"
  shows "let cm' = apply_route K mocha_h 1 0x80000004 (apply_route K mocha_h 1 0x80000010 cm)
    in map dv_use_count (cm_devices cm') = [0, 0, 1, 0, 0] \<and> get_routed_devices cm' 1 = 0x80000004"
proof -
  define cm1 where "cm1 = apply_route K mocha_h 1 0x80000010 cm"
  define cm2 where "cm2 = apply_route K mocha_h 1 0x80000004 cm1"
  have len: "length (cm_streams cm) = 2" using arg_cong [OF assms, of "\<lambda>c. length (snd c)"] by (simp add: abs_cm_def mocha_xml_def)
  then have "length (cm_streams cm1) = 2"
    by (simp add: cm1_def apply_route_def Let_def update_stream_def to_devices_abs split: option.splits)
  then have "abs_cm cm2 = a_route mocha_h 1 0x80000004 (a_route mocha_h 1 0x80000010 mocha_xml)" "length (cm_streams cm2) = 2"
    using routing_refines_all [of 1 cm1 K mocha_h "0x80000004"] routing_refines_all [of 1 cm K mocha_h "0x80000010"] len assms
    by (simp_all add: cm2_def cm1_def apply_route_def Let_def update_stream_def to_devices_abs split: option.splits)
  moreover have "a_route mocha_h 1 0x80000004 (a_route mocha_h 1 0x80000010 mocha_xml) =
    ([(0x2, [1, 2, 3], 0), (0x8, [1, 2, 3], 0), (0x4, [1, 2, 3], 1), (0x80000010, [4, 5], 0), (0x80000004, [1, 4, 5], 0)],
     [plain_stream e_stream_out_pcm 2 3, (plain_stream e_stream_in_pcm 4 5)\<lparr>s_current_devices := 0x80000004\<rparr>])"
    by (simp add: a_route_def mocha_xml_def mocha_h_def plain_stream_def Let_def route_devices_def stream_is_input_def a_devices_def
        a_by_id_def apply_if_def path_delta_def e_path_id_on_def e_path_id_off_def)
  ultimately have a: "map (snd \<circ> snd) (fst (abs_cm cm2)) = [0, 0, 1, 0, 0]" "s_current_devices (snd (abs_cm cm2) ! 1) = 0x80000004"
    "length (cm_streams cm2) = 2"
    by (simp_all add: plain_stream_def)
  then have "map dv_use_count (cm_devices cm2) = [0, 0, 1, 0, 0]" "get_routed_devices cm2 1 = 0x80000004"
    by (simp_all add: abs_cm_def abs_dev_def comp_def get_routed_devices_def)
  then show ?thesis by (simp add: cm2_def cm1_def Let_def)
qed

definition mocha_cm :: config_mgr where
  "mocha_cm = \<lparr>cm_mixer = None, cm_supported_output_devices = 0xE, cm_supported_input_devices = 0x80000014,
     cm_devices = map (\<lambda>(t, ids, n). \<lparr>dv_type = t, dv_use_count = n, dv_paths = map empty_path ids\<rparr>) (fst mocha_xml),
     cm_streams = snd mocha_xml\<rparr>"

theorem mic_switch_drives_headset_witness:
  "get_routed_devices (apply_route silent_card mocha_h 1 0x80000004 (apply_route silent_card mocha_h 1 0x80000010 mocha_cm)) 1 = 0x80000004"
proof -
  have "abs_cm mocha_cm = mocha_xml" by (simp add: abs_cm_def mocha_cm_def mocha_xml_def abs_dev_def empty_path_def plain_stream_def)
  from mic_switch_drives_headset [OF this, of silent_card] show ?thesis by (simp add: Let_def)
qed

end
