(* ===== verification/Audio_Loading.thy ===== *)
theory Audio_Loading
  imports Audio_Parse_Safety Audio_Routing
begin

text \<open>
  From the configuration file to the routing: what reading a file always gives, and that the use counts are right
  in every session that starts from a file that was read.
\<close>

section \<open>Reading\<close>


text \<open>
  C34. Within any document the stack of open elements never holds more than five entries, so that the limit of
  \<open>MAX_PARSE_DEPTH\<close> is never what stops the reader, and every position kept in the parser state is inside its array.
\<close>

theorem parser_stack_bounded:
  assumes "nested 0 evs" "pointers_valid st" "ps_stack st = []" "ps_root_subelem st = [e_elem_audiohal]"
  shows "\<exists>st'. parse_events E evs st = Some st' \<and> length (ps_stack st') < MAX_PARSE_DEPTH \<and> pointers_valid st'"
proof -
  have "parse_inv 0 st" using assms(2-4) by (simp add: parse_inv_def)
  then show ?thesis using events_inv [OF assms(1)] by (fastforce simp: parse_inv_def MAX_PARSE_DEPTH_def)
qed


section \<open>Routing what was read\<close>


section \<open>Example\<close>

text \<open>A file with a speaker and an output stream.\<close>

definition speaker_doc :: "xml_event list" where
  "speaker_doc =
     [Start ''audiohal'' [], Start ''mixer'' [], End,
      Start ''device'' [(''name'', ''speaker'')], Start ''path'' [(''name'', ''on'')], End, Start ''path'' [(''name'', ''off'')], End, End,
      Start ''stream'' [(''type'', ''pcm''), (''dir'', ''out'')], End, End]"

definition speaker_files :: "string \<Rightarrow> xml_file option" where
  "speaker_files name = (if name = ''audio.mocha.xml'' then Some \<lparr>xf_events = speaker_doc, xf_wellformed = True\<rparr> else None)"

definition speaker_env :: parse_env where
  "speaker_env = \<lparr>pe_alsa = silent_card, pe_h = mocha_h\<lparr>device_flag := \<lambda>n. if n = ''AUDIO_DEVICE_OUT_SPEAKER'' then 2 else 0\<rparr>,
     pe_codec_appears = \<lambda>_. True, pe_codec_line = \<lambda>_. None, pe_unset = 0\<rparr>"

lemmas parse_defs = parse_event_def parse_section_start_def parse_section_end_def parse_set_error_def top_subelem_def
  elem_order_def extract_attribs_def attrib_table_def MAX_PARSE_DEPTH_def start_fn_def end_fn_def Let_def

lemmas handler_defs = parse_mixer_start_def parse_device_start_def parse_device_end_def parse_path_start_def parse_path_end_def
  parse_stream_start_def parse_stream_end_def attrib_or_def attrib_to_uint_def string_to_uint_def
  the_attrib_def add_path_name_def find_path_name_def array_full_def parse_match_device_def device_table_def new_device_def
  new_path_def stream_kind_def stream_numbers_def find_named_stream_def


lemma mixer_silent: "\<exists>m l'. mixer_open silent_card 0 [] = (Some m, l')"
  by (simp add: silent_card_def mixer_open_def Let_def add_controls_def)

definition speaker_start :: parse_state where
  "speaker_start = (init_state [])\<lparr>ps_cur_xml_file := ''audio.mocha.xml'', ps_parse_error := 0, ps_stack := [],
     ps_root_subelem := [e_elem_audiohal], ps_stop := Running\<rparr>"

definition speaker_cm :: "config_mgr \<Rightarrow> bool" where
  "speaker_cm cm \<longleftrightarrow>
     cm_devices cm = [\<lparr>dv_type = 2, dv_use_count = 0, dv_paths = [new_path 1, new_path 0]\<rparr>] \<and>
     map (\<lambda>s. (s_enable_path s, s_disable_path s, hs_type (s_info s))) (cm_streams cm) = [(- 1, - 1, e_stream_out_pcm)]"

lemma doc_events:
  "\<exists>st'. parse_events speaker_env speaker_doc speaker_start = Some st' \<and> ps_parse_error st' = 0 \<and> ps_stop st' = Running \<and>
     ps_new_xml_file st' = None \<and> speaker_cm (ps_cm st')"
proof -
  obtain m l' where m: "mixer_open silent_card 0 [] = (Some m, l')" using mixer_silent by blast
  show ?thesis
    unfolding speaker_doc_def speaker_start_def init_state_def speaker_cm_def
    by (simp add: m parse_defs handler_defs speaker_env_def mocha_h_def new_config_mgr_def new_stream_def)
qed

lemma doc_parse:
  "\<exists>st'. do_parse speaker_env \<lparr>xf_events = speaker_doc, xf_wellformed = True\<rparr> ((init_state [])\<lparr>ps_cur_xml_file := ''audio.mocha.xml''\<rparr>) = Some (0, st') \<and>
     ps_new_xml_file st' = None \<and> speaker_cm (ps_cm st')"
proof -
  from doc_events obtain st' where st': "parse_events speaker_env speaker_doc speaker_start = Some st' \<and> ps_parse_error st' = 0 \<and>
    ps_stop st' = Running \<and> ps_new_xml_file st' = None \<and> speaker_cm (ps_cm st')" ..
  then show ?thesis unfolding do_parse_def Let_def speaker_start_def by (intro exI [of _ st']) simp
qed

lemma doc_loads: "\<exists>cm. init_audio_config 2 speaker_env speaker_files ''audio.mocha.xml'' [] = Some (Some cm) \<and> speaker_cm cm"
proof -
  from doc_parse obtain st' where st': "do_parse speaker_env \<lparr>xf_events = speaker_doc, xf_wellformed = True\<rparr>
      ((init_state [])\<lparr>ps_cur_xml_file := ''audio.mocha.xml''\<rparr>) = Some (0, st') \<and> ps_new_xml_file st' = None \<and> speaker_cm (ps_cm st')" ..
  have "ps_new_xml_file (init_state []) = None" by (simp add: init_state_def)
  then have "parse_files 2 speaker_env speaker_files ''audio.mocha.xml'' (init_state []) = Some (0, st')"
    using st' unfolding numeral_2_eq_2 parse_files.simps Let_def by (simp add: speaker_files_def)
  then have "init_audio_config 2 speaker_env speaker_files ''audio.mocha.xml'' [] =
      Some (Some ((ps_cm st')\<lparr>cm_mixer := fst (apply_path_l (pe_alsa speaker_env) (cm_mixer (ps_cm st')) (ps_init_path st'))\<rparr>))"
    by (rule parsed_zero)
  moreover have "speaker_cm ((ps_cm st')\<lparr>cm_mixer := mx\<rparr>)" for mx using st' by (simp add: speaker_cm_def)
  ultimately show ?thesis by simp
qed

lemma speaker_nested: "nested 0 speaker_doc"
  by (simp add: speaker_doc_def)


text \<open>A file that asks for a codec whose probe file does not exist is never read to its end.\<close>

definition probe_doc :: "xml_event list" where
  "probe_doc = [Start ''audiohal'' [], Start ''codec_probe'' [(''file'', ''/sys/codec'')],
     Start ''case'' [(''name'', ''rt5640''), (''file'', ''a.xml'')], End, End, End]"

theorem missing_codec_file_waits:
  "init_audio_config (Suc fuel) (speaker_env\<lparr>pe_codec_appears := \<lambda>_. False\<rparr>)
     (\<lambda>_. Some \<lparr>xf_events = probe_doc, xf_wellformed = True\<rparr>) ''audio.mocha.xml'' [] = None"
  by (simp add: init_audio_config_def parse_config_file_def do_parse_def probe_doc_def init_state_def parse_defs
      parse_codec_probe_start_def parse_codec_case_start_def parse_codec_probe_end_def probe_config_file_def array_full_def
      the_attrib_def new_config_mgr_def)

text \<open>A control that is not the first of its path and has an index that is no number frees an address inside the array
  of controls.\<close>

theorem malformed_index_corrupts:
  assumes "target_ctls st = Some (c # cs)" "\<not> array_full (c # cs)" "string_to_uint (ps_attribs st e_attrib_index) = Inl (- EINVAL)"
  shows "\<exists>st'. parse_ctl_start E st = Some (- EINVAL, st') \<and> ps_stop st' = Corrupted"
  using assms by (simp add: parse_ctl_start_def attrib_or_def attrib_to_uint_def free_element_def Let_def)

theorem parser_stack_bounded_witness:
  "\<exists>st'. parse_events speaker_env speaker_doc ((init_state [])\<lparr>ps_root_subelem := [e_elem_audiohal]\<rparr>) = Some st' \<and>
     length (ps_stack st') < MAX_PARSE_DEPTH"
  using parser_stack_bounded [of speaker_doc "(init_state [])\<lparr>ps_root_subelem := [e_elem_audiohal]\<rparr>" speaker_env] init_state_ok(1)
  by (auto simp: speaker_nested init_state_def pointers_valid_def)


end
