(* ===== verification/Pcm.thy ===== *)
theory Pcm
  imports C_Strings
begin

text \<open>
  \<open>tinyalsa/src/pcm.c\<close>: the PCM device of a sound card. The kernel is a parameter that answers every request from
  the requests so far; a negative answer is the negated \<open>errno\<close> of a call that failed. Memory is never
  exhausted. A PCM that is not ready still has its handle, with descriptor -1. \<open>None\<close> is a call that never returns.
\<close>

section \<open>Formats\<close>

datatype pcm_format =
    PCM_FORMAT_S8 | PCM_FORMAT_S16_LE | PCM_FORMAT_S16_BE | PCM_FORMAT_S24_LE | PCM_FORMAT_S24_BE
  | PCM_FORMAT_S24_3LE | PCM_FORMAT_S24_3BE | PCM_FORMAT_S32_LE | PCM_FORMAT_S32_BE

text \<open>The numbers of \<open>SNDRV_PCM_FORMAT_\<close> in \<open>sound/asound.h\<close>.\<close>

fun pcm_format_to_alsa :: "pcm_format \<Rightarrow> nat" where
  "pcm_format_to_alsa PCM_FORMAT_S8 = 0"
| "pcm_format_to_alsa PCM_FORMAT_S16_LE = 2"
| "pcm_format_to_alsa PCM_FORMAT_S16_BE = 3"
| "pcm_format_to_alsa PCM_FORMAT_S24_LE = 6"
| "pcm_format_to_alsa PCM_FORMAT_S24_BE = 7"
| "pcm_format_to_alsa PCM_FORMAT_S24_3LE = 32"
| "pcm_format_to_alsa PCM_FORMAT_S24_3BE = 33"
| "pcm_format_to_alsa PCM_FORMAT_S32_LE = 10"
| "pcm_format_to_alsa PCM_FORMAT_S32_BE = 11"

fun pcm_format_to_bits :: "pcm_format \<Rightarrow> u32" where
  "pcm_format_to_bits PCM_FORMAT_S32_LE = 32"
| "pcm_format_to_bits PCM_FORMAT_S32_BE = 32"
| "pcm_format_to_bits PCM_FORMAT_S24_LE = 32"
| "pcm_format_to_bits PCM_FORMAT_S24_BE = 32"
| "pcm_format_to_bits PCM_FORMAT_S24_3LE = 24"
| "pcm_format_to_bits PCM_FORMAT_S24_3BE = 24"
| "pcm_format_to_bits PCM_FORMAT_S16_LE = 16"
| "pcm_format_to_bits PCM_FORMAT_S16_BE = 16"
| "pcm_format_to_bits PCM_FORMAT_S8 = 8"

section \<open>Hardware parameters\<close>

datatype hw_param =
    HW_PARAM_ACCESS | HW_PARAM_FORMAT | HW_PARAM_SUBFORMAT
  | HW_PARAM_SAMPLE_BITS | HW_PARAM_FRAME_BITS | HW_PARAM_CHANNELS | HW_PARAM_RATE | HW_PARAM_PERIOD_TIME
  | HW_PARAM_PERIOD_SIZE | HW_PARAM_PERIOD_BYTES | HW_PARAM_PERIODS | HW_PARAM_BUFFER_TIME | HW_PARAM_BUFFER_SIZE
  | HW_PARAM_BUFFER_BYTES | HW_PARAM_TICK_TIME

definition param_is_mask :: "hw_param \<Rightarrow> bool" where
  "param_is_mask n \<longleftrightarrow> n \<in> {HW_PARAM_ACCESS, HW_PARAM_FORMAT, HW_PARAM_SUBFORMAT}"

definition param_is_interval :: "hw_param \<Rightarrow> bool" where
  "param_is_interval n \<longleftrightarrow> \<not> param_is_mask n"

record snd_interval =
  iv_min :: u32
  iv_max :: u32
  iv_integer :: bool

record hw_params =
  hp_mask :: "hw_param \<Rightarrow> 256 word"
  hp_interval :: "hw_param \<Rightarrow> snd_interval"
  hp_no_period_wakeup :: bool

definition param_set_mask :: "hw_param \<Rightarrow> nat \<Rightarrow> hw_params \<Rightarrow> hw_params" where
  "param_set_mask n b p =
     (if b \<ge> 256 \<or> \<not> param_is_mask n then p
      else p\<lparr>hp_mask := (hp_mask p)(n := (hp_mask p n AND NOT (mask 64)) OR push_bit b 1)\<rparr>)"

definition param_set_min :: "hw_param \<Rightarrow> u32 \<Rightarrow> hw_params \<Rightarrow> hw_params" where
  "param_set_min n v p =
     (if param_is_interval n then p\<lparr>hp_interval := (hp_interval p)(n := (hp_interval p n)\<lparr>iv_min := v\<rparr>)\<rparr> else p)"

definition param_get_min :: "hw_params \<Rightarrow> hw_param \<Rightarrow> u32" where
  "param_get_min p n = (if param_is_interval n then iv_min (hp_interval p n) else 0)"

definition param_get_max :: "hw_params \<Rightarrow> hw_param \<Rightarrow> u32" where
  "param_get_max p n = (if param_is_interval n then iv_max (hp_interval p n) else 0)"

definition param_set_int :: "hw_param \<Rightarrow> u32 \<Rightarrow> hw_params \<Rightarrow> hw_params" where
  "param_set_int n v p =
     (if param_is_interval n
      then p\<lparr>hp_interval := (hp_interval p)(n := \<lparr>iv_min = v, iv_max = v, iv_integer = True\<rparr>)\<rparr> else p)"

definition param_get_int :: "hw_params \<Rightarrow> hw_param \<Rightarrow> u32" where
  "param_get_int p n =
     (if param_is_interval n \<and> iv_integer (hp_interval p n) then iv_max (hp_interval p n) else 0)"

definition param_init :: hw_params where
  "param_init =
     \<lparr>hp_mask = \<lambda>_. mask 64, hp_interval = \<lambda>_. \<lparr>iv_min = 0, iv_max = - 1, iv_integer = False\<rparr>, hp_no_period_wakeup = False\<rparr>"

record sw_params =
  sp_avail_min :: u32
  sp_start_threshold :: u32
  sp_stop_threshold :: u32
  sp_xfer_align :: u32
  sp_silence_threshold :: u32
  sp_boundary :: u32

section \<open>The device\<close>

datatype pcm_req =
    PcmOpen nat nat bool bool
  | PcmInfo int
  | HwRefine int hw_params
  | HwParams int hw_params
  | SwParams int sw_params
  | MapData int u32
  | UnmapData int u32
  | MapStatus int
  | MapControl int
  | UnmapStatus int
  | UnmapControl int
  | SyncPtr int
  | Ttstamp int
  | Prepare int
  | StartPcm int
  | Drop int
  | WriteI int nat
  | ReadI int nat
  | PcmDelay int
  | PollPcm int
  | LookStatus int
  | LinkPcm int int
  | UnlinkPcm int
  | PcmClose int

text \<open>The answers of the kernel: the result, the refined parameters, the frames transferred.\<close>

record pcm_kernel =
  pk_ret :: "pcm_req list \<Rightarrow> int"
  pk_hw :: "pcm_req list \<Rightarrow> hw_params"
  pk_xfer :: "pcm_req list \<Rightarrow> int"

definition PCM_IN :: u32 where
  "PCM_IN = 0x10000000"

definition PCM_OUT :: u32 where
  "PCM_OUT = 0"

definition PCM_MMAP :: u32 where
  "PCM_MMAP = 1"

definition PCM_NOIRQ :: u32 where
  "PCM_NOIRQ = 2"

definition PCM_NORESTART :: u32 where
  "PCM_NORESTART = 4"

definition PCM_MONOTONIC :: u32 where
  "PCM_MONOTONIC = 8"

definition PCM_NONBLOCK :: u32 where
  "PCM_NONBLOCK = 16"

record pcm_config =
  channels :: u32
  rate :: u32
  period_size :: u32
  period_count :: u32
  format :: pcm_format
  start_threshold :: u32
  stop_threshold :: u32
  silence_threshold :: u32

record pcm =
  pc_fd :: int
  pc_flags :: u32
  pc_running :: bool
  pc_prepared :: bool
  pc_underruns :: nat
  pc_buffer_size :: u32
  pc_boundary :: u32
  pc_config :: pcm_config
  pc_mmap_status :: bool
  pc_mmap_control :: bool
  pc_sync_ptr :: bool
  pc_appl_ptr :: u32
  pc_noirq_frames_per_msec :: u32

definition flag :: "pcm \<Rightarrow> u32 \<Rightarrow> bool" where
  "flag p f \<longleftrightarrow> pc_flags p AND f \<noteq> 0"

definition pcm_is_ready :: "pcm \<Rightarrow> bool" where
  "pcm_is_ready p \<longleftrightarrow> pc_fd p \<ge> 0"

definition frame_bytes :: "pcm_config \<Rightarrow> u32" where
  "frame_bytes c = channels c * drop_bit 3 (pcm_format_to_bits (format c))"

definition pcm_bytes_to_frames :: "pcm \<Rightarrow> u32 \<Rightarrow> u32" where
  "pcm_bytes_to_frames p bytes = bytes div frame_bytes (pc_config p)"

definition pcm_frames_to_bytes :: "pcm \<Rightarrow> u32 \<Rightarrow> u32" where
  "pcm_frames_to_bytes p frames = frames * frame_bytes (pc_config p)"

section \<open>Configuration\<close>

definition default_config :: pcm_config where
  "default_config =
     \<lparr>channels = 2, rate = 48000, period_size = 1024, period_count = 4, format = PCM_FORMAT_S16_LE,
      start_threshold = 4096, stop_threshold = 4096, silence_threshold = 0\<rparr>"

definition hw_request :: "pcm \<Rightarrow> pcm_config \<Rightarrow> hw_params" where
  "hw_request p c =
     param_set_int HW_PARAM_RATE (rate c)
      (param_set_int HW_PARAM_PERIODS (period_count c)
       (param_set_int HW_PARAM_CHANNELS (channels c)
        (param_set_int HW_PARAM_FRAME_BITS (pcm_format_to_bits (format c) * channels c)
         (param_set_int HW_PARAM_SAMPLE_BITS (pcm_format_to_bits (format c))
          (param_set_min HW_PARAM_PERIOD_SIZE (period_size c)
           (param_set_mask HW_PARAM_SUBFORMAT 0
            (param_set_mask HW_PARAM_FORMAT (pcm_format_to_alsa (format c)) param_init)))))))"

text \<open>The access mode: \<open>MMAP_INTERLEAVED\<close> is 0, \<open>RW_INTERLEAVED\<close> is 3.\<close>

definition hw_access :: "pcm \<Rightarrow> hw_params \<Rightarrow> hw_params" where
  "hw_access p h = param_set_mask HW_PARAM_ACCESS (if flag p PCM_MMAP then 0 else 3) h"

text \<open>The largest doubling of the buffer size that leaves room for one more buffer below \<open>INT_MAX\<close>.\<close>

partial_function (option) boundary_loop :: "u32 \<Rightarrow> u32 \<Rightarrow> u32 option" where
  "boundary_loop n b = (if b * 2 \<le> 0x7FFFFFFF - n then boundary_loop n (b * 2) else Some b)"

definition sw_request :: "pcm \<Rightarrow> pcm_config \<Rightarrow> sw_params" where
  "sw_request p c =
     (let total = period_count c * period_size c
      in \<lparr>sp_avail_min = 1,
          sp_start_threshold =
            (if start_threshold c = 0 then if flag p PCM_IN then 1 else total div 2 else start_threshold c),
          sp_stop_threshold =
            (if stop_threshold c = 0 then if flag p PCM_IN then total * 10 else total else stop_threshold c),
          sp_xfer_align = period_size c div 2, sp_silence_threshold = silence_threshold c, sp_boundary = pc_buffer_size p\<rparr>)"

text \<open>Once the hardware parameters are set: the buffer is mapped, the software parameters follow. \<open>seen\<close> is what the code
  reads through its \<open>config\<close> pointer: the caller's structure, or the PCM's own when the caller gave none.\<close>

definition finish_config ::
  "pcm_kernel \<Rightarrow> (pcm \<Rightarrow> pcm_config) \<Rightarrow> pcm \<Rightarrow> pcm_req list \<Rightarrow> (int \<times> pcm \<times> pcm_req list) option" where
  "finish_config K seen p l =
     (let l' = (if flag p PCM_MMAP then MapData (pc_fd p) (pcm_frames_to_bytes p (pc_buffer_size p)) # l else l)
      in if flag p PCM_MMAP \<and> pk_ret K l' < 0 then Some (pk_ret K l', p, l')
         else let s = sw_request p (seen p); c = pc_config p;
                  c = (if start_threshold (seen p) = 0 then c\<lparr>start_threshold := sp_start_threshold s\<rparr> else c);
                  c = (if stop_threshold (seen p) = 0 then c\<lparr>stop_threshold := sp_stop_threshold s\<rparr> else c)
           in case boundary_loop (pc_buffer_size p) (pc_buffer_size p) of
                None \<Rightarrow> None
              | Some b \<Rightarrow>
                  (let l'' = SwParams (pc_fd p) s # l'; p = p\<lparr>pc_config := c, pc_boundary := b\<rparr>
                   in Some (if pk_ret K l'' < 0 then pk_ret K l'' else 0, p, l'')))"

definition pcm_set_config ::
  "pcm_kernel \<Rightarrow> pcm_config option \<Rightarrow> pcm \<Rightarrow> pcm_req list \<Rightarrow> (int \<times> pcm \<times> pcm_req list) option" where
  "pcm_set_config K config p l =
     (let c = (case config of None \<Rightarrow> default_config | Some c \<Rightarrow> c);
          seen = (case config of None \<Rightarrow> pc_config | Some c \<Rightarrow> (\<lambda>_. c));
          p = p\<lparr>pc_config := c\<rparr>
      in if flag p PCM_NOIRQ \<and> \<not> flag p PCM_MMAP then Some (- EINVAL, p, l)
         else let p = (if flag p PCM_NOIRQ then p\<lparr>pc_noirq_frames_per_msec := rate c div 1000\<rparr> else p);
                  h = hw_access p ((hw_request p c)\<lparr>hp_no_period_wakeup := flag p PCM_NOIRQ\<rparr>);
                  l' = HwParams (pc_fd p) h # l
           in if pk_ret K l' < 0 then Some (pk_ret K l', p, l')
              else let h = pk_hw K l';
                       p = p\<lparr>pc_config := (pc_config p)\<lparr>period_size := param_get_int h HW_PARAM_PERIOD_SIZE,
                                                     period_count := param_get_int h HW_PARAM_PERIODS\<rparr>\<rparr>;
                       p = p\<lparr>pc_buffer_size := period_count (seen p) * period_size (seen p)\<rparr>
                in finish_config K seen p l')"

section \<open>Opening and closing\<close>

definition pcm_sync_ptr :: "pcm_kernel \<Rightarrow> pcm \<Rightarrow> pcm_req list \<Rightarrow> int \<times> pcm_req list" where
  "pcm_sync_ptr K p l =
     (if pc_sync_ptr p then (if pk_ret K (SyncPtr (pc_fd p) # l) < 0 then - 1 else 0, SyncPtr (pc_fd p) # l) else (- 1, l))"

text \<open>The status and control pages are mapped; where that fails a copy is kept and synchronised by \<open>ioctl\<close>.\<close>

definition pcm_hw_mmap_status :: "pcm_kernel \<Rightarrow> pcm \<Rightarrow> pcm_req list \<Rightarrow> pcm \<times> pcm_req list" where
  "pcm_hw_mmap_status K p l =
     (if pc_sync_ptr p then (p, l)
      else let l1 = MapStatus (pc_fd p) # l; l2 = MapControl (pc_fd p) # l1;
               sync = p\<lparr>pc_sync_ptr := True, pc_mmap_status := True, pc_mmap_control := True\<rparr>
        in if pk_ret K l1 < 0 then (sync, snd (pcm_sync_ptr K sync l1))
           else if pk_ret K l2 < 0 then (sync, snd (pcm_sync_ptr K sync (UnmapStatus (pc_fd p) # l2)))
           else (p\<lparr>pc_mmap_status := True, pc_mmap_control := True\<rparr>, l2))"

definition pcm_hw_munmap_status :: "pcm \<Rightarrow> pcm_req list \<Rightarrow> pcm \<times> pcm_req list" where
  "pcm_hw_munmap_status p l =
     (let l' = (if pc_sync_ptr p then l
                else (if pc_mmap_control p then [UnmapControl (pc_fd p)] else []) @
                     (if pc_mmap_status p then [UnmapStatus (pc_fd p)] else []) @ l)
      in (p\<lparr>pc_sync_ptr := False, pc_mmap_status := False, pc_mmap_control := False\<rparr>, l'))"

definition fresh_pcm :: "u32 \<Rightarrow> int \<Rightarrow> pcm" where
  "fresh_pcm flags fd =
     \<lparr>pc_fd = fd, pc_flags = flags, pc_running = False, pc_prepared = False, pc_underruns = 0, pc_buffer_size = 0,
      pc_boundary = 0, pc_config = \<lparr>channels = 0, rate = 0, period_size = 0, period_count = 0, format = PCM_FORMAT_S16_LE,
        start_threshold = 0, stop_threshold = 0, silence_threshold = 0\<rparr>,
      pc_mmap_status = False, pc_mmap_control = False, pc_sync_ptr = False, pc_appl_ptr = 0, pc_noirq_frames_per_msec = 0\<rparr>"

definition fail_close :: "pcm \<Rightarrow> pcm_req list \<Rightarrow> pcm \<times> pcm_req list" where
  "fail_close p l = (p\<lparr>pc_fd := - 1\<rparr>, PcmClose (pc_fd p) # l)"

definition pcm_open ::
  "pcm_kernel \<Rightarrow> nat \<Rightarrow> nat \<Rightarrow> u32 \<Rightarrow> pcm_config option \<Rightarrow> pcm_req list \<Rightarrow> (pcm \<times> pcm_req list) option" where
  "pcm_open K card_no dev flags config l =
     (let l = PcmOpen card_no dev (flags AND PCM_IN \<noteq> 0) (flags AND PCM_NONBLOCK \<noteq> 0) # l; fd = pk_ret K l; p = fresh_pcm flags fd
      in if fd < 0 then Some (p, l)
         else let l = PcmInfo fd # l
           in if pk_ret K l < 0 then Some (fail_close p l)
              else case pcm_set_config K config p l of
                     None \<Rightarrow> None
                   | Some (r, p, l) \<Rightarrow>
                       Some (if r \<noteq> 0 then fail_close p l
                             else case pcm_hw_mmap_status K p l of
                               (p, l) \<Rightarrow>
                                 if flag p PCM_MONOTONIC
                                 then let l = Ttstamp fd # l
                                   in if pk_ret K l < 0
                                      then fail_close p (if flag p PCM_MMAP
                                                         then UnmapData fd (pcm_frames_to_bytes p (pc_buffer_size p)) # l else l)
                                      else (p, l)
                                 else (p, l)))"

definition pcm_stop :: "pcm_kernel \<Rightarrow> pcm \<Rightarrow> pcm_req list \<Rightarrow> int \<times> pcm \<times> pcm_req list" where
  "pcm_stop K p l =
     (let l = Drop (pc_fd p) # l
      in if pk_ret K l < 0 then (- 1, p, l) else (0, p\<lparr>pc_prepared := False, pc_running := False\<rparr>, l))"

text \<open>The handle is freed; what is left of it is the requests.\<close>

definition pcm_close :: "pcm_kernel \<Rightarrow> pcm \<Rightarrow> pcm_req list \<Rightarrow> pcm_req list" where
  "pcm_close K p l =
     (case pcm_hw_munmap_status p l of
        (p, l) \<Rightarrow>
          let l = (if flag p PCM_MMAP
                   then UnmapData (pc_fd p) (pcm_frames_to_bytes p (pc_buffer_size p)) # snd (snd (pcm_stop K p l)) else l)
          in if pc_fd p \<ge> 0 then PcmClose (pc_fd p) # l else l)"

section \<open>Transfers\<close>

definition pcm_prepare :: "pcm_kernel \<Rightarrow> pcm \<Rightarrow> pcm_req list \<Rightarrow> int \<times> pcm \<times> pcm_req list" where
  "pcm_prepare K p l =
     (if pc_prepared p then (0, p, l)
      else let l = Prepare (pc_fd p) # l in if pk_ret K l < 0 then (- 1, p, l) else (0, p\<lparr>pc_prepared := True\<rparr>, l))"

definition pcm_start :: "pcm_kernel \<Rightarrow> pcm \<Rightarrow> pcm_req list \<Rightarrow> int \<times> pcm \<times> pcm_req list" where
  "pcm_start K p l =
     (case pcm_prepare K p l of
        (r, p, l) \<Rightarrow>
          if r \<noteq> 0 then (r, p, l)
          else let l = (if flag p PCM_MMAP then snd (pcm_sync_ptr K p l) else l); l = StartPcm (pc_fd p) # l
            in if pk_ret K l < 0 then (- 1, p, l) else (0, p\<lparr>pc_running := True\<rparr>, l))"

abbreviation (input) EPIPE :: int where "EPIPE \<equiv> 32"

definition TINYALSA_FRAMES_MAX :: nat where
  "TINYALSA_FRAMES_MAX = 4294967295 div (32 * 4)"

text \<open>After an underrun the PCM is not running and the next turn of the loop returns, so that two turns are enough.\<close>

fun writei_loop :: "nat \<Rightarrow> pcm_kernel \<Rightarrow> nat \<Rightarrow> pcm \<Rightarrow> pcm_req list \<Rightarrow> (int \<times> pcm \<times> pcm_req list) option" where
  "writei_loop 0 K n p l = None"
| "writei_loop (Suc fuel) K n p l =
     (if \<not> pc_running p
      then case pcm_prepare K p l of
             (r, p, l) \<Rightarrow>
               Some (if r \<noteq> 0 then (r, p, l)
                     else let l = WriteI (pc_fd p) n # l
                       in if pk_ret K l < 0 then (- 1, p, l) else (0, p\<lparr>pc_running := True\<rparr>, l))
      else let l = WriteI (pc_fd p) n # l
        in if pk_ret K l < 0
           then let p = p\<lparr>pc_prepared := False, pc_running := False\<rparr>
             in if pk_ret K l = - EPIPE
                then let p = p\<lparr>pc_underruns := Suc (pc_underruns p)\<rparr>
                  in if flag p PCM_NORESTART then Some (- EPIPE, p, l) else writei_loop fuel K n p l
                else Some (- 1, p, l)
           else Some (pk_xfer K l, p, l))"

definition pcm_writei :: "pcm_kernel \<Rightarrow> nat \<Rightarrow> pcm \<Rightarrow> pcm_req list \<Rightarrow> (int \<times> pcm \<times> pcm_req list) option" where
  "pcm_writei K n p l =
     (if flag p PCM_IN \<or> n > TINYALSA_FRAMES_MAX \<or> n > 0x7FFFFFFF then Some (- EINVAL, p, l) else writei_loop 2 K n p l)"

text \<open>A read restarts after every overrun, for as long as the kernel reports one. The \<open>errno\<close> of a start that failed is
  that of its last request.\<close>

partial_function (option) readi_loop :: "pcm_kernel \<Rightarrow> nat \<Rightarrow> pcm \<Rightarrow> pcm_req list \<Rightarrow> (int \<times> pcm \<times> pcm_req list) option" where
  "readi_loop K n p l =
     (case (if pc_running p then (0, p, l) else pcm_start K p l) of
        (r, p, l) \<Rightarrow>
          if r < 0 then Some (pk_ret K l, p, l)
          else let l = ReadI (pc_fd p) n # l
            in if pk_ret K l < 0
               then let p = p\<lparr>pc_prepared := False, pc_running := False\<rparr>
                 in if pk_ret K l = - EPIPE then readi_loop K n (p\<lparr>pc_underruns := Suc (pc_underruns p)\<rparr>) l else Some (- 1, p, l)
               else Some (pk_xfer K l, p, l))"

definition pcm_readi :: "pcm_kernel \<Rightarrow> nat \<Rightarrow> pcm \<Rightarrow> pcm_req list \<Rightarrow> (int \<times> pcm \<times> pcm_req list) option" where
  "pcm_readi K n p l =
     (if \<not> flag p PCM_IN \<or> n > TINYALSA_FRAMES_MAX \<or> n > 0x7FFFFFFF then Some (- EINVAL, p, l) else readi_loop K n p l)"

definition pcm_write :: "pcm_kernel \<Rightarrow> u32 \<Rightarrow> pcm \<Rightarrow> pcm_req list \<Rightarrow> (int \<times> pcm \<times> pcm_req list) option" where
  "pcm_write K bytes p l = pcm_writei K (unat (pcm_bytes_to_frames p bytes)) p l"

definition pcm_read :: "pcm_kernel \<Rightarrow> u32 \<Rightarrow> pcm \<Rightarrow> pcm_req list \<Rightarrow> (int \<times> pcm \<times> pcm_req list) option" where
  "pcm_read K bytes p l = pcm_readi K (unat (pcm_bytes_to_frames p bytes)) p l"

definition pcm_get_delay :: "pcm_kernel \<Rightarrow> pcm \<Rightarrow> pcm_req list \<Rightarrow> int \<times> pcm_req list" where
  "pcm_get_delay K p l = (let l = PcmDelay (pc_fd p) # l in (if pk_ret K l < 0 then - 1 else pk_xfer K l, l))"

text \<open>The parameters of a device, without a handle.\<close>

definition pcm_params_get :: "pcm_kernel \<Rightarrow> nat \<Rightarrow> nat \<Rightarrow> u32 \<Rightarrow> pcm_req list \<Rightarrow> hw_params option \<times> pcm_req list" where
  "pcm_params_get K card_no dev flags l =
     (let l = PcmOpen card_no dev (flags AND PCM_IN \<noteq> 0) (flags AND PCM_NONBLOCK \<noteq> 0) # l; fd = pk_ret K l
      in if fd < 0 then (None, l)
         else let l = HwRefine fd param_init # l
           in (if pk_ret K l < 0 then None else Some (pk_hw K l), PcmClose fd # l))"

definition pcm_params_get_min :: "hw_params option \<Rightarrow> hw_param option \<Rightarrow> u32" where
  "pcm_params_get_min p n = (case (p, n) of (Some p, Some n) \<Rightarrow> param_get_min p n | _ \<Rightarrow> 0)"

definition pcm_params_get_max :: "hw_params option \<Rightarrow> hw_param option \<Rightarrow> u32" where
  "pcm_params_get_max p n = (case (p, n) of (Some p, Some n) \<Rightarrow> param_get_max p n | _ \<Rightarrow> 0)"

section \<open>The boundary of the ring buffer\<close>

lemma boundary_step:
  fixes n b :: u32
  assumes "unat n \<le> 0x7FFFFFFF" "unat b \<le> 0x7FFFFFFF"
  shows "b * 2 \<le> 0x7FFFFFFF - n \<longleftrightarrow> 2 * unat b \<le> 0x7FFFFFFF - unat n" "unat (b * 2) = 2 * unat b"
proof -
  show two: "unat (b * 2) = 2 * unat b" using assms(2) by (subst unat_mult_lem [THEN iffD1]) auto
  have "unat (0x7FFFFFFF - n) = 0x7FFFFFFF - unat n" using assms(1) by (subst unat_sub) (auto simp: word_le_nat_alt)
  then show "b * 2 \<le> 0x7FFFFFFF - n \<longleftrightarrow> 2 * unat b \<le> 0x7FFFFFFF - unat n" using two by (simp add: word_le_nat_alt)
qed

lemma boundary_loop_ends:
  assumes "0 < unat b" "unat b \<le> 0x7FFFFFFF" "unat n \<le> 0x7FFFFFFF"
  shows "\<exists>k c. boundary_loop n b = Some c \<and> unat c = unat b * 2 ^ k \<and> unat c \<le> 0x7FFFFFFF \<and> 0x7FFFFFFF - unat n < 2 * unat c"
  using assms(1,2)
proof (induction "0x7FFFFFFF - unat b" arbitrary: b rule: less_induct)
  case less
  note step = boundary_step [OF assms(3) less.prems(2)]
  show ?case
  proof (cases "2 * unat b \<le> 0x7FFFFFFF - unat n")
    case False
    then have "boundary_loop n b = Some b" using step(1) by (simp add: boundary_loop.simps)
    then show ?thesis using False less.prems by (intro exI [of _ 0] exI [of _ b]) auto
  next
    case True
    have le: "unat (b * 2) \<le> 0x7FFFFFFF" "0 < unat (b * 2)" "0x7FFFFFFF - unat (b * 2) < 0x7FFFFFFF - unat b"
      using True step(2) less.prems by auto
    obtain k c where c: "boundary_loop n (b * 2) = Some c" "unat c = unat (b * 2) * 2 ^ k" "unat c \<le> 0x7FFFFFFF"
      "0x7FFFFFFF - unat n < 2 * unat c"
      using less.hyps [OF le(3,2,1)] by blast
    have "boundary_loop n b = Some c" using True step(1) c(1) by (simp add: boundary_loop.simps [of n b])
    then show ?thesis using c step(2) by (intro exI [of _ "Suc k"] exI [of _ c]) simp
  qed
qed

lemma boundary_zero_hangs: "boundary_loop 0 0 = None"
proof -
  have "\<not> (x = 0 \<and> y = 0)" if "boundary_loop x y = Some z" for x y z
    using that by (rule boundary_loop.raw_induct [rotated]) (fastforce split: if_splits)
  then show ?thesis by (metis option.exhaust)
qed

section \<open>Descriptors\<close>

fun pcm_fds :: "pcm_kernel \<Rightarrow> pcm_req list \<Rightarrow> int list" where
  "pcm_fds K [] = []"
| "pcm_fds K (r # l) =
     (case r of
        PcmOpen c d i b \<Rightarrow> if pk_ret K (r # l) < 0 then pcm_fds K l else pk_ret K (r # l) # pcm_fds K l
      | PcmClose fd \<Rightarrow> remove1 fd (pcm_fds K l)
      | _ \<Rightarrow> pcm_fds K l)"

text \<open>Requests that open and close nothing.\<close>

definition plain :: "pcm_req list \<Rightarrow> bool" where
  "plain l \<longleftrightarrow> list_all (\<lambda>r. case r of PcmOpen _ _ _ _ \<Rightarrow> False | PcmClose _ \<Rightarrow> False | _ \<Rightarrow> True) l"

definition extends :: "pcm_req list \<Rightarrow> pcm_req list \<Rightarrow> bool" where
  "extends l l' \<longleftrightarrow> (\<exists>m. l' = m @ l \<and> plain m)"

lemma extends_refl [simp]: "extends l l"
  by (simp add: extends_def plain_def)

lemma extends_trans: "extends a b \<Longrightarrow> extends b c \<Longrightarrow> extends a c"
  by (auto simp: extends_def plain_def)

lemma extends_Cons: "extends l l' \<Longrightarrow> (case r of PcmOpen _ _ _ _ \<Rightarrow> False | PcmClose _ \<Rightarrow> False | _ \<Rightarrow> True) \<Longrightarrow> extends l (r # l')"
  by (auto simp: extends_def plain_def intro: exI [of _ "r # _"])

lemma plain_fds: "plain m \<Longrightarrow> pcm_fds K (m @ l) = pcm_fds K l"
  by (induction m) (auto simp: plain_def split: pcm_req.splits)

lemma extends_fds: "extends l l' \<Longrightarrow> pcm_fds K l' = pcm_fds K l"
  by (auto simp: extends_def plain_fds)

definition same_handle :: "pcm \<Rightarrow> pcm_req list \<Rightarrow> pcm \<Rightarrow> pcm_req list \<Rightarrow> bool" where
  "same_handle p l p' l' \<longleftrightarrow> extends l l' \<and> pc_fd p' = pc_fd p \<and> pc_flags p' = pc_flags p"

lemma finish_config_extends:
  assumes "finish_config K seen p l = Some (r, p', l')"
  shows "same_handle p l p' l'"
proof -
  define l1 where "l1 = (if flag p PCM_MMAP then MapData (pc_fd p) (pcm_frames_to_bytes p (pc_buffer_size p)) # l else l)"
  have "extends l l1" by (simp add: l1_def extends_Cons)
  then show ?thesis using assms unfolding finish_config_def Let_def l1_def [symmetric] same_handle_def
    by (auto simp: extends_Cons split: if_splits option.splits)
qed

lemma set_config_extends:
  assumes "pcm_set_config K config p l = Some (r, p', l')"
  shows "same_handle p l p' l'"
proof -
  have fin: "same_handle p l p' l'"
    if "finish_config K seen q (HwParams fd h # l) = Some (r, p', l')" "pc_fd q = pc_fd p" "pc_flags q = pc_flags p" for seen q fd h
    using finish_config_extends [OF that(1)] that(2,3) extends_trans [OF extends_Cons [OF extends_refl], of "HwParams fd h" l l']
    by (simp add: same_handle_def)
  show ?thesis
  proof (cases "flag (p\<lparr>pc_config := case config of None \<Rightarrow> default_config | Some c \<Rightarrow> c\<rparr>) PCM_NOIRQ")
    case False
    then show ?thesis using assms unfolding pcm_set_config_def Let_def
      by (auto simp: same_handle_def extends_Cons split: if_splits elim!: fin [unfolded same_handle_def])
  next
    case True
    then show ?thesis using assms unfolding pcm_set_config_def Let_def
      by (auto simp: same_handle_def extends_Cons split: if_splits elim!: fin [unfolded same_handle_def])
  qed
qed

lemma sync_ptr_extends: "extends l (snd (pcm_sync_ptr K p l))"
  by (simp add: pcm_sync_ptr_def extends_Cons)

lemma mmap_status_extends:
  assumes "pcm_hw_mmap_status K p l = (p', l')"
  shows "same_handle p l p' l'"
  unfolding same_handle_def using assms by (auto simp: pcm_hw_mmap_status_def Let_def pcm_sync_ptr_def split: if_splits intro!: extends_Cons)

text \<open>Opening takes exactly one descriptor when the PCM is ready, and none otherwise.\<close>

lemma pcm_open_fds:
  assumes "pcm_open K c d flags config l = Some (p, l')"
  shows "pc_flags p = flags \<and> pcm_fds K l' = (if pcm_is_ready p then pc_fd p # pcm_fds K l else pcm_fds K l)"
proof -
  define l0 where "l0 = PcmOpen c d (flags AND PCM_IN \<noteq> 0) (flags AND PCM_NONBLOCK \<noteq> 0) # l"
  define fd where "fd = pk_ret K l0"
  have fds0: "pcm_fds K l0 = (if fd < 0 then pcm_fds K l else fd # pcm_fds K l)" by (simp add: l0_def fd_def)
  have closed: "pcm_fds K (PcmClose fd # m) = pcm_fds K l" if "extends l0 m" "\<not> fd < 0" for m
    using extends_fds [OF that(1), of K] fds0 that(2) by simp
  have flags0: "pc_fd (fresh_pcm flags fd) = fd" "pc_flags (fresh_pcm flags fd) = flags" by (simp_all add: fresh_pcm_def)
  have run: "(if fd < 0 then Some (fresh_pcm flags fd, l0)
     else if pk_ret K (PcmInfo fd # l0) < 0 then Some (fail_close (fresh_pcm flags fd) (PcmInfo fd # l0))
     else case pcm_set_config K config (fresh_pcm flags fd) (PcmInfo fd # l0) of None \<Rightarrow> None
       | Some (r, p, l) \<Rightarrow> Some (if r \<noteq> 0 then fail_close p l
           else case pcm_hw_mmap_status K p l of (p, l) \<Rightarrow>
             if flag p PCM_MONOTONIC then if pk_ret K (Ttstamp fd # l) < 0
               then fail_close p (if flag p PCM_MMAP then UnmapData fd (pcm_frames_to_bytes p (pc_buffer_size p)) # Ttstamp fd # l else Ttstamp fd # l)
               else (p, Ttstamp fd # l) else (p, l))) = Some (p, l')"
    using assms unfolding pcm_open_def Let_def l0_def [symmetric] fd_def [symmetric] .
  show ?thesis
  proof (cases "fd < 0")
    case True
    then show ?thesis using run fds0 flags0 by (auto simp: pcm_is_ready_def)
  next
    case open0: False
    have info: "extends l0 (PcmInfo fd # l0)" by (simp add: extends_Cons)
    show ?thesis
    proof (cases "pk_ret K (PcmInfo fd # l0) < 0")
      case True
      then show ?thesis using run open0 flags0 closed [OF info] by (auto simp: fail_close_def pcm_is_ready_def)
    next
      case False
      then obtain r p1 l1 where set: "pcm_set_config K config (fresh_pcm flags fd) (PcmInfo fd # l0) = Some (r, p1, l1)"
        using run open0 by (auto split: option.splits)
      have l1: "extends l0 l1" "pc_fd p1 = fd" "pc_flags p1 = flags"
        using set_config_extends [OF set] extends_trans [OF info] flags0 by (auto simp: same_handle_def)
      obtain p2 l2 where map: "pcm_hw_mmap_status K p1 l1 = (p2, l2)" by fastforce
      have l2: "extends l0 l2" "pc_fd p2 = fd" "pc_flags p2 = flags"
        using mmap_status_extends [OF map] extends_trans [OF l1(1)] l1 by (auto simp: same_handle_def)
      have more: "extends l0 (Ttstamp fd # l2)" "extends l0 (UnmapData fd x # Ttstamp fd # l2)" for x
        using l2(1) by (auto intro!: extends_Cons)
      show ?thesis
        using run open0 False set map l1 l2 closed [OF l1(1)] closed [OF more(1)] closed [OF more(2)] extends_fds [OF l2(1), of K]
          extends_fds [OF more(1), of K] fds0
        by (auto simp: fail_close_def pcm_is_ready_def split: if_splits)
    qed
  qed
qed

lemma pcm_close_fds: "pcm_fds K (pcm_close K p l) = (if pcm_is_ready p then remove1 (pc_fd p) (pcm_fds K l) else pcm_fds K l)"
proof -
  obtain p1 l1 where un: "pcm_hw_munmap_status p l = (p1, l1)" by fastforce
  have 1: "extends l l1" "pc_fd p1 = pc_fd p"
    using un by (auto simp: pcm_hw_munmap_status_def Let_def intro!: extends_Cons)
  have 2: "extends l (UnmapData fd x # snd (snd (pcm_stop K p1 l1)))" for fd x
    using 1(1) by (auto simp: pcm_stop_def Let_def intro!: extends_Cons)
  show ?thesis using extends_fds [OF 1(1), of K] extends_fds [OF 2, of K] 1(2) un
    by (auto simp: pcm_close_def Let_def pcm_is_ready_def)
qed

lemma prepare_extends: "pcm_prepare K p l = (r, p', l') \<Longrightarrow> extends l l' \<and> pc_fd p' = pc_fd p \<and> pc_flags p' = pc_flags p"
  by (auto simp: pcm_prepare_def Let_def extends_Cons split: if_splits)

lemma start_extends: "pcm_start K p l = (r, p', l') \<Longrightarrow> extends l l' \<and> pc_fd p' = pc_fd p \<and> pc_flags p' = pc_flags p"
  by (auto simp: pcm_start_def Let_def pcm_sync_ptr_def split: if_splits prod.splits dest!: prepare_extends intro!: extends_Cons)

lemma writei_extends:
  "writei_loop fuel K n p l = Some (r, p', l') \<Longrightarrow> extends l l' \<and> pc_fd p' = pc_fd p \<and> pc_flags p' = pc_flags p"
proof (induction fuel arbitrary: p l)
  case (Suc fuel)
  show ?case
  proof (cases "pc_running p")
    case False
    obtain r1 p1 l1 where prep: "pcm_prepare K p l = (r1, p1, l1)" by (metis prod_cases3)
    then show ?thesis using Suc.prems False prepare_extends [OF prep]
      by (auto simp: Let_def split: if_splits intro!: extends_Cons)
  next
    case True
    then show ?thesis using Suc.prems Suc.IH [of "p\<lparr>pc_prepared := False, pc_running := False, pc_underruns := Suc (pc_underruns p)\<rparr>" "WriteI (pc_fd p) n # l"]
        extends_trans [of l "WriteI (pc_fd p) n # l" l']
      by (auto simp: Let_def extends_Cons split: if_splits)
  qed
qed simp

lemma readi_extends:
  assumes "readi_loop K n p l = Some (r, p', l')"
  shows "same_handle p l p' l'"
proof -
  have "same_handle p l (fst (snd x)) (snd (snd x))" if "readi_loop K n p l = Some x" for K n p l x
    using that
  proof (rule readi_loop.raw_induct [rotated])
    fix loop :: "pcm_kernel \<Rightarrow> nat \<Rightarrow> pcm \<Rightarrow> pcm_req list \<Rightarrow> (int \<times> pcm \<times> pcm_req list) option" and K n p l x
    assume IH: "\<And>K n p l y. loop K n p l = Some y \<Longrightarrow> same_handle p l (fst (snd y)) (snd (snd y))"
    assume run: "(case if pc_running p then (0, p, l) else pcm_start K p l of
        (r, p, l) \<Rightarrow> if r < 0 then Some (pk_ret K l, p, l)
          else let l = ReadI (pc_fd p) n # l
            in if pk_ret K l < 0
               then let p = p\<lparr>pc_prepared := False, pc_running := False\<rparr>
                 in if pk_ret K l = - EPIPE then loop K n (p\<lparr>pc_underruns := Suc (pc_underruns p)\<rparr>) l else Some (- 1, p, l)
               else Some (pk_xfer K l, p, l)) = Some x"
    obtain r1 p1 l1 where start: "(if pc_running p then (0, p, l) else pcm_start K p l) = (r1, p1, l1)" by (metis prod_cases3)
    have 1: "same_handle p l p1 l1" using start start_extends [of K p l r1 p1 l1] by (auto simp: same_handle_def split: if_splits)
    then have 2: "same_handle p l p1 (ReadI (pc_fd p1) n # l1)" by (simp add: same_handle_def extends_Cons)
    define p2 where "p2 = p1\<lparr>pc_prepared := False, pc_running := False, pc_underruns := Suc (pc_underruns p1)\<rparr>"
    have "same_handle p l (fst (snd y)) (snd (snd y))" if "loop K n p2 (ReadI (pc_fd p1) n # l1) = Some y" for y
      using IH [OF that] 2 extends_trans by (fastforce simp: same_handle_def p2_def)
    then show "same_handle p l (fst (snd x)) (snd (snd x))"
      using run 1 2 unfolding start by (auto simp: Let_def p2_def same_handle_def split: if_splits)
  qed
  from this [OF assms] show ?thesis by simp
qed

lemma transfer_extends:
  "pcm_writei K n p l = Some (r, p', l') \<Longrightarrow> same_handle p l p' l'"
  "pcm_readi K n p l = Some (r, p', l') \<Longrightarrow> same_handle p l p' l'"
  by (auto simp: pcm_writei_def pcm_readi_def same_handle_def split: if_splits
      dest: writei_extends readi_extends [unfolded same_handle_def])

text \<open>Transfers between opening and closing.\<close>

inductive pcm_use :: "pcm_kernel \<Rightarrow> pcm \<times> pcm_req list \<Rightarrow> pcm \<times> pcm_req list \<Rightarrow> bool" for K s where
  begin_use: "pcm_use K s s"
| write_use: "pcm_use K s (p, l) \<Longrightarrow> pcm_writei K n p l = Some (r, p', l') \<Longrightarrow> pcm_use K s (p', l')"
| read_use: "pcm_use K s (p, l) \<Longrightarrow> pcm_readi K n p l = Some (r, p', l') \<Longrightarrow> pcm_use K s (p', l')"
| start_use: "pcm_use K s (p, l) \<Longrightarrow> pcm_start K p l = (r, p', l') \<Longrightarrow> pcm_use K s (p', l')"
| stop_use: "pcm_use K s (p, l) \<Longrightarrow> pcm_stop K p l = (r, p', l') \<Longrightarrow> pcm_use K s (p', l')"

lemma pcm_use_extends: "pcm_use K s t \<Longrightarrow> same_handle (fst s) (snd s) (fst t) (snd t)"
proof (induction rule: pcm_use.induct)
  case begin_use
  then show ?case by (simp add: same_handle_def)
next
  case (write_use p l n r p' l')
  then show ?case using transfer_extends(1) [OF write_use.hyps(2)] extends_trans by (fastforce simp: same_handle_def)
next
  case (read_use p l n r p' l')
  then show ?case using transfer_extends(2) [OF read_use.hyps(2)] extends_trans by (fastforce simp: same_handle_def)
next
  case (start_use p l r p' l')
  then show ?case using start_extends [OF start_use.hyps(2)] extends_trans by (fastforce simp: same_handle_def)
next
  case (stop_use p l r p' l')
  have "extends l l' \<and> pc_fd p' = pc_fd p \<and> pc_flags p' = pc_flags p"
    using stop_use.hyps(2) by (auto simp: pcm_stop_def Let_def extends_Cons split: if_splits)
  then show ?case using stop_use.IH extends_trans by (fastforce simp: same_handle_def)
qed

text \<open>
  C20. A PCM owns one descriptor, from a successful \<open>pcm_open\<close> to its \<open>pcm_close\<close>: whatever the kernel answers, a PCM
  that is not ready holds none, and closing after any transfers leaves exactly the descriptors that were open before.
\<close>

theorem pcm_life:
  assumes "pcm_open K c d flags config l = Some (p, l1)" "pcm_use K (p, l1) (p', l2)"
  shows "pcm_fds K l2 = (if pcm_is_ready p' then pc_fd p' # pcm_fds K l else pcm_fds K l) \<and>
         pcm_fds K (pcm_close K p' l2) = pcm_fds K l"
proof -
  have "same_handle p l1 p' l2" using pcm_use_extends [OF assms(2)] by simp
  then show ?thesis using pcm_open_fds [OF assms(1)] extends_fds [of l1 l2 K] pcm_close_fds [of K p' l2]
    by (auto simp: same_handle_def pcm_is_ready_def)
qed

text \<open>A kernel that answers every request with 0.\<close>

definition quiet_pcm :: pcm_kernel where
  "quiet_pcm = \<lparr>pk_ret = \<lambda>_. 0, pk_hw = \<lambda>_. param_init, pk_xfer = \<lambda>_. 0\<rparr>"

definition music_config :: pcm_config where
  "music_config =
     \<lparr>channels = 2, rate = 44100, period_size = 256, period_count = 4, format = PCM_FORMAT_S16_LE,
      start_threshold = 0, stop_threshold = 0, silence_threshold = 0\<rparr>"

lemma quiet_open: "\<exists>p l. pcm_open quiet_pcm 0 0 PCM_OUT (Some music_config) [] = Some (p, l) \<and> pc_fd p = 0"
  by (simp add: pcm_open_def quiet_pcm_def Let_def pcm_set_config_def finish_config_def flag_def PCM_OUT_def PCM_MMAP_def
      fresh_pcm_def PCM_NOIRQ_def PCM_MONOTONIC_def music_config_def boundary_loop.simps pcm_hw_mmap_status_def)

theorem pcm_life_witness:
  "\<exists>p l. pcm_open quiet_pcm 0 0 PCM_OUT (Some music_config) [] = Some (p, l) \<and> pcm_fds quiet_pcm l = [0] \<and>
     pcm_fds quiet_pcm (pcm_close quiet_pcm p l) = []"
proof -
  obtain p l where p: "pcm_open quiet_pcm 0 0 PCM_OUT (Some music_config) [] = Some (p, l)" "pc_fd p = 0" using quiet_open by blast
  show ?thesis using p(2) pcm_life [OF p(1) pcm_use.begin_use] p(1) by (auto simp: pcm_is_ready_def)
qed

text \<open>
  \<open>pcm_writei\<close> always returns, after at most two writes, and leaves the PCM running exactly when its last write
  succeeded; a write that had to start the stream reports 0 frames, one that did not the number the kernel reports.
\<close>

theorem pcm_writei_outcome:
  assumes "\<not> flag p PCM_IN" "n \<le> TINYALSA_FRAMES_MAX"
  shows "\<exists>r p' l'. pcm_writei K n p l = Some (r, p', l') \<and> length l' \<le> length l + 3 \<and> pc_underruns p' \<le> Suc (pc_underruns p) \<and>
    (if pc_running p' then hd l' = WriteI (pc_fd p) n \<and> 0 \<le> pk_ret K l' \<and> r = (if l' = WriteI (pc_fd p) n # l \<and> pc_running p then pk_xfer K l' else 0)
     else r < 0)"
proof -
  have "n \<le> 0x7FFFFFFF" using assms(2) by (simp add: TINYALSA_FRAMES_MAX_def)
  then have run: "pcm_writei K n p l = writei_loop 2 K n p l" using assms by (simp add: pcm_writei_def)
  show ?thesis unfolding run numeral_2_eq_2 writei_loop.simps
    by (auto simp: Let_def pcm_prepare_def flag_def)
qed

theorem pcm_writei_outcome_witness:
  "\<exists>r p' l'. pcm_writei quiet_pcm 256 (fresh_pcm PCM_OUT 5) [] = Some (r, p', l') \<and> length l' \<le> 3 \<and> (pc_running p' \<longrightarrow> r = 0)"
proof -
  have "\<not> flag (fresh_pcm PCM_OUT 5) PCM_IN" "256 \<le> TINYALSA_FRAMES_MAX" "\<not> pc_running (fresh_pcm PCM_OUT 5)"
    by (simp_all add: flag_def PCM_OUT_def fresh_pcm_def TINYALSA_FRAMES_MAX_def)
  then obtain r p' l' where "pcm_writei quiet_pcm 256 (fresh_pcm PCM_OUT 5) [] = Some (r, p', l')" "length l' \<le> 3" "pc_running p' \<longrightarrow> r = 0"
    using pcm_writei_outcome [of "fresh_pcm PCM_OUT 5" 256 quiet_pcm "[]"] by (auto split: if_splits)
  then show ?thesis by blast
qed

text \<open>
  The boundary at which the ring pointers wrap: for a buffer of at least one and at most \<open>INT_MAX\<close> frames the
  loop ends, with the buffer size times a power of two that no longer can be doubled below \<open>INT_MAX\<close> less one buffer,
  so that wrapping keeps the offset in the buffer; for an empty buffer it never ends.
\<close>

theorem boundary_loop_correct:
  "(0 < unat n \<and> unat n \<le> 0x7FFFFFFF \<longrightarrow>
      (\<exists>k b. boundary_loop n n = Some b \<and> unat b = unat n * 2 ^ k \<and> 0x7FFFFFFF - unat n < 2 * unat b \<and>
        (\<forall>ptr :: u32. unat ptr < unat b \<longrightarrow> (unat ptr + unat b) mod unat n = unat ptr mod unat n))) \<and>
   boundary_loop 0 0 = None"
proof (intro conjI impI)
  assume n: "0 < unat n \<and> unat n \<le> 0x7FFFFFFF"
  obtain k b where "boundary_loop n n = Some b" "unat b = unat n * 2 ^ k" "0x7FFFFFFF - unat n < 2 * unat b"
    using boundary_loop_ends [OF conjunct1 [OF n] conjunct2 [OF n] conjunct2 [OF n]] by (elim exE conjE) (rule that)
  then show "\<exists>k b. boundary_loop n n = Some b \<and> unat b = unat n * 2 ^ k \<and> 0x7FFFFFFF - unat n < 2 * unat b \<and>
        (\<forall>ptr :: u32. unat ptr < unat b \<longrightarrow> (unat ptr + unat b) mod unat n = unat ptr mod unat n)"
    by (intro exI [of _ k] exI [of _ b]) simp
qed (rule boundary_zero_hangs)

theorem boundary_loop_correct_witness:
  "\<exists>b. boundary_loop 1024 1024 = Some b \<and> unat b = 1024 * 2 ^ 20 \<and> boundary_loop 0 0 = None"
proof -
  have "\<exists>k b. boundary_loop 1024 1024 = Some b \<and> unat b = 1024 * 2 ^ k"
    using boundary_loop_correct [of 1024] by auto
  moreover have "boundary_loop 1024 1024 = Some 0x40000000" by (simp add: boundary_loop.simps)
  moreover have "boundary_loop 0 0 = None" using boundary_loop_correct [of 1024] by blast
  ultimately show ?thesis by simp
qed

end
