(* ===== verification/Audio_Out.thy ===== *)
theory Audio_Out
  imports Audio_Config Pcm
begin

text \<open>
  \<open>audio/audio_hw.c\<close>, output streams: what all streams share, PCM playback over \<open>tinyalsa\<close>, and compressed playback
  over \<open>tinycompress\<close> with its helper thread. The libraries outside the repository are parameters:
  \<open>system/audio.h\<close>, \<open>str_parms\<close> and \<open>tinycompress\<close>, which answers every request from the requests so far. \<open>None\<close> is a
  call that crashes or never returns.
\<close>

section \<open>Environment and device\<close>

datatype cmpr_req =
    COpen nat nat bool
  | CMaxPollWait int int
  | CNonblock int bool
  | CStart int
  | CGapless int int int
  | CWrite int nat
  | CRead int nat
  | CPause int
  | CResume int
  | CNextTrack int
  | CPartialDrain int
  | CDrain int
  | CTstamp int
  | CWait int
  | CStop int
  | CClose int

datatype main_format = FORMAT_MP3 | FORMAT_AAC | FORMAT_HE_AAC_V1 | FORMAT_HE_AAC_V2 | FORMAT_VORBIS | FORMAT_OTHER

text \<open>\<open>he_parm kvpairs key\<close> is the value \<open>str_parms_get_str\<close> finds. \<open>he_fragments\<close> is the product of fragment size
  and count that \<open>compress_open\<close> stores into its configuration.\<close>

record hal_env =
  he_alsa :: alsa
  he_h :: audio_h
  he_pcm :: pcm_kernel
  he_cmpr :: "cmpr_req list \<Rightarrow> int"
  he_fragments :: "cmpr_req list \<Rightarrow> u32"
  he_tstamp :: "cmpr_req list \<Rightarrow> u32"
  he_parm :: "string \<Rightarrow> string \<Rightarrow> string option"
  he_frame_size :: "nat \<Rightarrow> u32 \<Rightarrow> u32"
  he_main_format :: "nat \<Rightarrow> main_format"
  he_voice_recognition :: int
  he_join :: "cmpr_req list \<Rightarrow> bool"

datatype voice_state =
    eVoiceNone | eVoiceTriggerIdle | eVoiceTriggerArmed | eVoiceTriggerFired | eVoiceRecogIdle | eVoiceRecogArmed
  | eVoiceRecogFired | eVoiceRecogAudio | eVoiceRecogReArm

text \<open>The requests to the PCM devices and to \<open>tinycompress\<close> are kept with the device.\<close>

record audio_dev =
  ad_cm :: config_mgr
  ad_mic_mute :: bool
  ad_active_voice_control :: "nat option"
  ad_voice_st :: voice_state
  ad_voice_trig_mic :: u32
  ad_global_stream :: "nat option"
  ad_voice_stream :: "nat option"
  ad_plog :: "pcm_req list"
  ad_clog :: "cmpr_req list"

record stream_config =
  cfg_sample_rate :: u32
  cfg_channel_mask :: u32
  cfg_format :: nat

datatype 'a pointer = Null | Live 'a | Dangling

definition popcount :: "u32 \<Rightarrow> nat" where
  "popcount w = length (filter (bit w) [0..<32])"

definition hw_info :: "audio_dev \<Rightarrow> nat \<Rightarrow> hw_stream" where
  "hw_info d i = s_info (cm_streams (ad_cm d) ! i)"

section \<open>Parameters\<close>

text \<open>The text before and after the first \<open>=\<close>; without one, or with nothing after it, the pair is skipped.\<close>

definition key_value :: "string \<Rightarrow> (string \<times> string) option" where
  "key_value p =
     (case dropWhile (\<lambda>c. c \<noteq> CHR ''='') p of
        e # v # vs \<Rightarrow> Some (takeWhile (\<lambda>c. c \<noteq> CHR ''='') p, v # vs)
      | _ \<Rightarrow> None)"

fun invoke_pairs :: "alsa \<Rightarrow> nat \<Rightarrow> string list \<Rightarrow> int \<Rightarrow> config_mgr \<Rightarrow> int \<times> config_mgr" where
  "invoke_pairs K i [] ret cm = (ret, cm)"
| "invoke_pairs K i (p # ps) ret cm =
     (case key_value p of
        None \<Rightarrow> invoke_pairs K i ps ret cm
      | Some (k, v) \<Rightarrow> (case apply_use_case K i k v cm of (r, cm) \<Rightarrow> invoke_pairs K i ps (if r \<ge> 0 then 0 else ret) cm))"

abbreviation (input) ENOTSUP :: int where "ENOTSUP \<equiv> 95"
abbreviation (input) EBADFD :: int where "EBADFD \<equiv> 77"

definition stream_invoke_usecases :: "hal_env \<Rightarrow> nat option \<Rightarrow> string \<Rightarrow> config_mgr \<Rightarrow> int \<times> config_mgr" where
  "stream_invoke_usecases E stream kvpairs cm =
     (case stream of
        None \<Rightarrow> (- ENOTSUP, cm)
      | Some i \<Rightarrow> invoke_pairs (he_alsa E) i (strtok (CHR '';'') kvpairs) (- ENOTSUP) cm)"

definition common_get_routing_param :: "hal_env \<Rightarrow> string \<Rightarrow> u32 option" where
  "common_get_routing_param E kvpairs = map_option (\<lambda>v. of_int (atoi v)) (he_parm E kvpairs ''routing'')"

section \<open>What output streams share\<close>

datatype async_mode = ASYNC_NONE | ASYNC_POLL | ASYNC_EARLY_DRAIN | ASYNC_FULL_DRAIN

record out_common =
  oc_hw :: nat
  oc_standby :: bool
  oc_format :: nat
  oc_channel_mask :: u32
  oc_channel_count :: nat
  oc_sample_rate :: u32
  oc_frame_size :: u32
  oc_buffer_size :: u32
  oc_latency :: u32
  oc_use_async :: bool
  oc_async_mode :: async_mode
  oc_async_exit :: bool

definition out_get_sample_rate :: "audio_dev \<Rightarrow> 'a out_common_scheme \<Rightarrow> u32" where
  "out_get_sample_rate d out = (if oc_sample_rate out \<noteq> 0 then oc_sample_rate out else of_nat (hs_rate (hw_info d (oc_hw out))))"

definition out_get_channels :: "'a out_common_scheme \<Rightarrow> u32" where
  "out_get_channels out = (if oc_channel_mask out \<noteq> 0 then oc_channel_mask out else 3)"

definition out_set_parameters :: "hal_env \<Rightarrow> string \<Rightarrow> 'a out_common_scheme \<Rightarrow> audio_dev \<Rightarrow> audio_dev" where
  "out_set_parameters E kvpairs out d =
     (let cm = (case common_get_routing_param E kvpairs of
                  None \<Rightarrow> ad_cm d
                | Some v \<Rightarrow> apply_route (he_alsa E) (he_h E) (oc_hw out) v (ad_cm d))
      in d\<lparr>ad_cm := snd (stream_invoke_usecases E (Some (oc_hw out)) kvpairs cm)\<rparr>)"

definition out_set_callback :: "int \<Rightarrow> 'a out_common_scheme \<Rightarrow> int \<times> 'a out_common_scheme" where
  "out_set_callback rv out =
     (let out = out\<lparr>oc_async_exit := False\<rparr> in if rv \<noteq> 0 then (rv, out) else (0, out\<lparr>oc_use_async := True\<rparr>))"

definition signal_async_thread :: "async_mode \<Rightarrow> 'a out_common_scheme \<Rightarrow> int \<times> 'a out_common_scheme" where
  "signal_async_thread m out =
     (if oc_async_mode out \<noteq> ASYNC_NONE then (- EBUSY, out) else (0, out\<lparr>oc_async_mode := m\<rparr>))"

text \<open>The end of a stream: when it has a helper thread, its exit flag is set, the thread is signalled and joined, which
  returns only if the thread ends (\<open>he_join\<close>; its steps are those of \<open>Audio_Async\<close>).\<close>

definition do_close_out_common :: "hal_env \<Rightarrow> 'a out_common_scheme \<Rightarrow> audio_dev \<Rightarrow> audio_dev option" where
  "do_close_out_common E out d =
     (if oc_use_async out \<and> \<not> he_join E (ad_clog d) then None
      else Some (d\<lparr>ad_cm := release_stream (he_alsa E) (he_h E) (Some (oc_hw out)) (ad_cm d)\<rparr>))"

definition do_init_out_common ::
  "hal_env \<Rightarrow> stream_config \<Rightarrow> u32 \<Rightarrow> 'a out_common_scheme \<Rightarrow> audio_dev \<Rightarrow> 'a out_common_scheme \<times> audio_dev" where
  "do_init_out_common E config devices out d =
     (out\<lparr>oc_standby := True, oc_format := cfg_format config, oc_sample_rate := cfg_sample_rate config,
          oc_channel_mask := cfg_channel_mask config, oc_channel_count := popcount (cfg_channel_mask config),
          oc_frame_size := he_frame_size E (cfg_format config) (cfg_channel_mask config)\<rparr>,
      d\<lparr>ad_cm := apply_route (he_alsa E) (he_h E) (oc_hw out) devices (ad_cm d)\<rparr>)"

section \<open>PCM playback\<close>

record out_pcm = out_common +
  op_pcm :: "pcm pointer"
  op_hw_sample_rate :: u32
  op_hw_channel_count :: u32

definition or_default :: "nat \<Rightarrow> u32 \<Rightarrow> u32" where
  "or_default v dflt = (if v \<noteq> 0 then of_nat v else dflt)"

definition out_pcm_cfg_period_count :: "audio_dev \<Rightarrow> out_pcm \<Rightarrow> u32" where
  "out_pcm_cfg_period_count d out = or_default (hs_period_count (hw_info d (oc_hw out))) 4"

definition out_pcm_cfg_period_size :: "audio_dev \<Rightarrow> out_pcm \<Rightarrow> u32" where
  "out_pcm_cfg_period_size d out = or_default (hs_period_size (hw_info d (oc_hw out))) 256"

definition out_pcm_cfg_rate :: "audio_dev \<Rightarrow> out_pcm \<Rightarrow> u32" where
  "out_pcm_cfg_rate d out = or_default (hs_rate (hw_info d (oc_hw out))) 44100"

definition out_pcm_cfg_channel_count :: "out_pcm \<Rightarrow> u32" where
  "out_pcm_cfg_channel_count out = or_default (oc_channel_count out) 2"

definition out_pcm_config :: "audio_dev \<Rightarrow> out_pcm \<Rightarrow> pcm_config" where
  "out_pcm_config d out =
     \<lparr>channels = out_pcm_cfg_channel_count out, rate = out_pcm_cfg_rate d out, period_size = out_pcm_cfg_period_size d out,
      period_count = out_pcm_cfg_period_count d out, format = PCM_FORMAT_S16_LE, start_threshold = 0, stop_threshold = 0,
      silence_threshold = 0\<rparr>"

text \<open>Closing through a pointer that is not live crashes.\<close>

definition do_out_pcm_standby :: "hal_env \<Rightarrow> out_pcm \<Rightarrow> audio_dev \<Rightarrow> (out_pcm \<times> audio_dev) option" where
  "do_out_pcm_standby E out d =
     (if oc_standby out then Some (out, d)
      else case op_pcm out of
             Live p \<Rightarrow> Some (out\<lparr>op_pcm := Null, oc_standby := True\<rparr>, d\<lparr>ad_plog := pcm_close (he_pcm E) p (ad_plog d)\<rparr>)
           | _ \<Rightarrow> None)"

definition out_pcm_fill_params :: "pcm \<Rightarrow> pcm_config \<Rightarrow> out_pcm \<Rightarrow> out_pcm" where
  "out_pcm_fill_params p c out =
     out\<lparr>op_hw_sample_rate := rate c, op_hw_channel_count := channels c, oc_buffer_size := pcm_frames_to_bytes p (period_size c),
         oc_latency := period_size c * period_count c * 1000 div rate c\<rparr>"

definition start_output_pcm :: "hal_env \<Rightarrow> out_pcm \<Rightarrow> audio_dev \<Rightarrow> (int \<times> out_pcm \<times> audio_dev) option" where
  "start_output_pcm E out d =
     (let c = out_pcm_config d out; hw = hw_info d (oc_hw out)
      in case pcm_open (he_pcm E) (hs_card_number hw) (hs_device_number hw) PCM_OUT (Some c) (ad_plog d) of
           None \<Rightarrow> None
         | Some (p, l) \<Rightarrow>
             Some (if \<not> pcm_is_ready p
                   then (- ENOMEM, out\<lparr>op_pcm := Dangling\<rparr>, d\<lparr>ad_plog := pcm_close (he_pcm E) p l\<rparr>)
                   else (0, out_pcm_fill_params p c (out\<lparr>op_pcm := Live p\<rparr>), d\<lparr>ad_plog := l\<rparr>)))"

definition out_pcm_standby :: "hal_env \<Rightarrow> out_pcm \<Rightarrow> audio_dev \<Rightarrow> (out_pcm \<times> audio_dev) option" where
  "out_pcm_standby E out d = do_out_pcm_standby E out d"

definition write_frames :: "hal_env \<Rightarrow> nat \<Rightarrow> out_pcm \<Rightarrow> audio_dev \<Rightarrow> (int \<times> out_pcm \<times> audio_dev) option" where
  "write_frames E bytes out d =
     (case op_pcm out of
        Live p \<Rightarrow>
          (case pcm_writei (he_pcm E) (unat (pcm_bytes_to_frames p (of_nat bytes))) p (ad_plog d) of
             None \<Rightarrow> None
           | Some (r, p, l) \<Rightarrow> Some (if r \<ge> 0 then int bytes else r, out\<lparr>op_pcm := Live p\<rparr>, d\<lparr>ad_plog := l\<rparr>))
      | _ \<Rightarrow> None)"

definition out_pcm_write :: "hal_env \<Rightarrow> nat \<Rightarrow> out_pcm \<Rightarrow> audio_dev \<Rightarrow> (int \<times> out_pcm \<times> audio_dev) option" where
  "out_pcm_write E bytes out d =
     (if get_current_routes (ad_cm d) (oc_hw out) = 0 then Some (0, out, d)
      else if oc_standby out
      then case start_output_pcm E out d of
             None \<Rightarrow> None
           | Some (r, out, d) \<Rightarrow> if r \<noteq> 0 then Some (r, out, d) else write_frames E bytes (out\<lparr>oc_standby := False\<rparr>) d
      else write_frames E bytes out d)"

definition do_close_out_pcm :: "hal_env \<Rightarrow> out_pcm \<Rightarrow> audio_dev \<Rightarrow> audio_dev option" where
  "do_close_out_pcm E out d = Option.bind (out_pcm_standby E out d) (\<lambda>(out, d). do_close_out_common E out d)"

text \<open>The latency is divided by the requested rate, which must not be 0.\<close>

definition do_init_out_pcm :: "hal_env \<Rightarrow> out_pcm \<Rightarrow> audio_dev \<Rightarrow> out_pcm option" where
  "do_init_out_pcm E out d =
     (if oc_sample_rate out = 0 then None
      else Some (out\<lparr>oc_buffer_size := out_pcm_cfg_period_size d out * oc_frame_size out,
                     oc_latency := out_pcm_cfg_period_size d out * out_pcm_cfg_period_count d out * 1000 div oc_sample_rate out\<rparr>))"

section \<open>Compressed playback\<close>

record snd_codec =
  co_id :: string
  co_level :: string
  co_sample_rate :: u32
  co_ch_out :: nat

record out_compress = out_common +
  ox_compress :: "int option"
  ox_codec :: snd_codec
  ox_started :: bool
  ox_paused :: bool
  ox_encoder_delay :: int
  ox_encoder_padding :: int
  ox_refresh_gapless_meta :: bool

text \<open>A request to \<open>tinycompress\<close> through a handle; through a null one it crashes.\<close>

definition creq :: "cmpr_req \<Rightarrow> audio_dev \<Rightarrow> audio_dev" where
  "creq r d = d\<lparr>ad_clog := r # ad_clog d\<rparr>"

definition cret :: "hal_env \<Rightarrow> audio_dev \<Rightarrow> int" where
  "cret E d = he_cmpr E (ad_clog d)"

definition do_standby_compress_l :: "out_compress \<Rightarrow> audio_dev \<Rightarrow> out_compress \<times> audio_dev" where
  "do_standby_compress_l out d =
     (case ox_compress out of
        None \<Rightarrow> (out, d)
      | Some h \<Rightarrow>
          if ox_paused out then (out, d)
          else let d = (if ox_started out then creq (CStop h) d else d)
            in (out\<lparr>ox_started := False, ox_compress := None\<rparr>, creq (CClose h) d))"

definition out_compress_standby :: "out_compress \<Rightarrow> audio_dev \<Rightarrow> out_compress \<times> audio_dev" where
  "out_compress_standby out d = do_standby_compress_l out d"

definition open_output_compress :: "hal_env \<Rightarrow> out_compress \<Rightarrow> audio_dev \<Rightarrow> int \<times> out_compress \<times> audio_dev" where
  "open_output_compress E out d =
     (if ox_compress out \<noteq> None then (0, out, d)
      else let hw = hw_info d (oc_hw out); d = creq (COpen (hs_card_number hw) (hs_device_number hw) False) d; h = cret E d
        in if h < 0 then (- EBUSY, out, creq (CClose h) d)
           else (0, out\<lparr>oc_buffer_size := he_fragments E (ad_clog d), ox_compress := Some h\<rparr>,
                 creq (CNonblock h (oc_use_async out)) (creq (CMaxPollWait h (- 1)) d)))"

definition start_output_compress :: "hal_env \<Rightarrow> int \<Rightarrow> out_compress \<Rightarrow> audio_dev \<Rightarrow> int \<times> out_compress \<times> audio_dev" where
  "start_output_compress E h out d =
     (let d = creq (CStart h) d; ret = cret E d
      in if ret < 0 then (case do_standby_compress_l out d of (out, d) \<Rightarrow> (ret, out, d))
         else let out = out\<lparr>ox_started := True\<rparr>
           in if ox_refresh_gapless_meta out
              then (ret, out\<lparr>ox_refresh_gapless_meta := False, ox_encoder_delay := 0, ox_encoder_padding := 0\<rparr>,
                    creq (CGapless h (ox_encoder_delay out) (ox_encoder_padding out)) d)
              else (ret, out, d))"

definition out_compress_write :: "hal_env \<Rightarrow> nat \<Rightarrow> out_compress \<Rightarrow> audio_dev \<Rightarrow> (int \<times> out_compress \<times> audio_dev) option" where
  "out_compress_write E bytes out d =
     (case open_output_compress E out d of
        (r, out, d) \<Rightarrow>
          if r < 0 then Some (r, out, d)
          else case ox_compress out of
            None \<Rightarrow> None
          | Some h \<Rightarrow>
              (let d = creq (CWrite h bytes) d; ret = cret E d
               in if ret < 0 then Some (ret, out, d)
                  else case (if ox_started out then (0, out, d) else start_output_compress E h out d) of
                    (s, out, d) \<Rightarrow>
                      if s < 0 then Some (- 1, out, d)
                      else if oc_use_async out \<and> nat ret < bytes
                      then Some (ret, snd (signal_async_thread ASYNC_POLL out), d)
                      else Some (ret, out, d)))"

definition out_compress_pause :: "hal_env \<Rightarrow> out_compress \<Rightarrow> audio_dev \<Rightarrow> int \<times> out_compress \<times> audio_dev" where
  "out_compress_pause E out d =
     (case ox_compress out of
        Some h \<Rightarrow> if ox_paused out then (- EBADFD, out, d)
                  else let d = creq (CPause h) d in (cret E d, out\<lparr>ox_paused := True\<rparr>, d)
      | None \<Rightarrow> (- EBADFD, out, d))"

definition out_compress_resume :: "hal_env \<Rightarrow> out_compress \<Rightarrow> audio_dev \<Rightarrow> int \<times> out_compress \<times> audio_dev" where
  "out_compress_resume E out d =
     (case ox_compress out of
        Some h \<Rightarrow> if \<not> ox_paused out then (- EBADFD, out, d)
                  else let d = creq (CResume h) d in (cret E d, out\<lparr>ox_paused := False\<rparr>, d)
      | None \<Rightarrow> (- EBADFD, out, d))"

text \<open>Draining with no handle open passes a null pointer to the library.\<close>

definition out_compress_drain :: "hal_env \<Rightarrow> bool \<Rightarrow> out_compress \<Rightarrow> audio_dev \<Rightarrow> (int \<times> out_compress \<times> audio_dev) option" where
  "out_compress_drain E early out d =
     (if oc_use_async out
      then (case signal_async_thread (if early then ASYNC_EARLY_DRAIN else ASYNC_FULL_DRAIN) out of (r, out) \<Rightarrow> Some (r, out, d))
      else case ox_compress out of
        None \<Rightarrow> None
      | Some h \<Rightarrow>
          if early
          then let d = creq (CNextTrack h) d; ret = cret E d
            in if ret \<noteq> 0 then Some (ret, out, d)
               else let d = creq (CPartialDrain h) d in Some (cret E d, out\<lparr>ox_started := False\<rparr>, d)
          else let d = creq (CDrain h) d in Some (cret E d, out\<lparr>ox_started := False\<rparr>, d))"

definition out_compress_flush :: "out_compress \<Rightarrow> audio_dev \<Rightarrow> out_compress \<times> audio_dev" where
  "out_compress_flush out d =
     (case ox_compress out of
        Some h \<Rightarrow> if ox_started out then (out\<lparr>ox_paused := False, ox_started := False\<rparr>, creq (CStop h) d) else (out, d)
      | None \<Rightarrow> (out, d))"

definition out_compress_get_render_position :: "hal_env \<Rightarrow> out_compress \<Rightarrow> audio_dev \<Rightarrow> (u32 \<times> audio_dev) option" where
  "out_compress_get_render_position E out d =
     (if \<not> ox_started out then Some (0, d)
      else case ox_compress out of
        None \<Rightarrow> None
      | Some h \<Rightarrow> let d = creq (CTstamp h) d in Some (if cret E d = 0 then he_tstamp E (ad_clog d) else 0, d))"

text \<open>One round of the helper thread, with the mode it took: the requests it makes and the flag it clears.\<close>

definition out_compress_async_round :: "async_mode \<Rightarrow> out_compress \<Rightarrow> audio_dev \<Rightarrow> (out_compress \<times> audio_dev) option" where
  "out_compress_async_round m out d =
     (case (m, ox_compress out) of
        (ASYNC_NONE, _) \<Rightarrow> Some (out, d)
      | (_, None) \<Rightarrow> None
      | (ASYNC_POLL, Some h) \<Rightarrow> Some (out, creq (CWait h) d)
      | (ASYNC_EARLY_DRAIN, Some h) \<Rightarrow> Some (out\<lparr>ox_started := False\<rparr>, creq (CPartialDrain h) (creq (CNextTrack h) d))
      | (ASYNC_FULL_DRAIN, Some h) \<Rightarrow> Some (out\<lparr>ox_started := False\<rparr>, creq (CDrain h) d))"

definition out_compress_close :: "hal_env \<Rightarrow> out_compress \<Rightarrow> audio_dev \<Rightarrow> audio_dev option" where
  "out_compress_close E out d =
     (case out_compress_standby (out\<lparr>ox_paused := False\<rparr>) d of (out, d) \<Rightarrow> do_close_out_common E out d)"

definition out_compress_set_parameters :: "hal_env \<Rightarrow> string \<Rightarrow> out_compress \<Rightarrow> audio_dev \<Rightarrow> out_compress \<times> audio_dev" where
  "out_compress_set_parameters E kv out d =
     (let delay = he_parm E kv ''delay_samples''; padding = he_parm E kv ''padding_samples'';
          out = (case delay of None \<Rightarrow> out | Some v \<Rightarrow> out\<lparr>ox_encoder_delay := atoi v\<rparr>);
          out = (case padding of None \<Rightarrow> out | Some v \<Rightarrow> out\<lparr>ox_encoder_padding := atoi v\<rparr>);
          out = (if delay \<noteq> None \<or> padding \<noteq> None then out\<lparr>ox_refresh_gapless_meta := True\<rparr> else out)
      in (out, out_set_parameters E kv out d))"

fun codec_id :: "main_format \<Rightarrow> (string \<times> string) option" where
  "codec_id FORMAT_MP3 = Some (''MP3'', [])"
| "codec_id FORMAT_AAC = Some (''AAC'', [])"
| "codec_id FORMAT_HE_AAC_V1 = Some (''AAC'', ''AAC_HE'')"
| "codec_id FORMAT_HE_AAC_V2 = Some (''AAC'', ''AAC_HE'')"
| "codec_id FORMAT_VORBIS = Some (''VORBIS'', [])"
| "codec_id FORMAT_OTHER = None"

definition do_init_out_compress :: "hal_env \<Rightarrow> stream_config \<Rightarrow> out_compress \<Rightarrow> audio_dev \<Rightarrow> int \<times> out_compress \<times> audio_dev" where
  "do_init_out_compress E config out d =
     (case codec_id (he_main_format E (cfg_format config)) of
        None \<Rightarrow> (- EINVAL, out, d)
      | Some (codec, level) \<Rightarrow>
          open_output_compress E
            (out\<lparr>ox_codec := \<lparr>co_id = codec, co_level = level, co_sample_rate = cfg_sample_rate config,
                             co_ch_out = popcount (cfg_channel_mask config)\<rparr>\<rparr>) d)"

section \<open>Opening and closing\<close>

datatype out_stream = OutPcm out_pcm | OutCompress out_compress

definition new_out :: "nat \<Rightarrow> out_common" where
  "new_out i =
     \<lparr>oc_hw = i, oc_standby = False, oc_format = 0, oc_channel_mask = 0, oc_channel_count = 0, oc_sample_rate = 0,
      oc_frame_size = 0, oc_buffer_size = 0, oc_latency = 0, oc_use_async = False, oc_async_mode = ASYNC_NONE, oc_async_exit = False\<rparr>"

definition new_out_pcm :: "nat \<Rightarrow> out_pcm" where
  "new_out_pcm i = out_common.extend (new_out i) \<lparr>op_pcm = Null, op_hw_sample_rate = 0, op_hw_channel_count = 0\<rparr>"

definition new_out_compress :: "nat \<Rightarrow> out_compress" where
  "new_out_compress i = out_common.extend (new_out i)
     \<lparr>ox_compress = None, ox_codec = \<lparr>co_id = [], co_level = [], co_sample_rate = 0, co_ch_out = 0\<rparr>, ox_started = False, ox_paused = False,
      ox_encoder_delay = 0, ox_encoder_padding = 0, ox_refresh_gapless_meta = False\<rparr>"

text \<open>When the initialisation fails the stream is freed, and the stream of the configuration stays open and routed.\<close>

definition adev_open_output_stream ::
  "hal_env \<Rightarrow> u32 \<Rightarrow> stream_config \<Rightarrow> audio_dev \<Rightarrow> (int \<times> out_stream option \<times> audio_dev) option" where
  "adev_open_output_stream E devices config d =
     (let devices = devices AND OUT_ALL (he_h E)
      in case get_stream (he_alsa E) (he_h E) devices (cfg_format config) (ad_cm d) of
           (None, cm) \<Rightarrow> Some (- EINVAL, None, d\<lparr>ad_cm := cm\<rparr>)
         | (Some i, cm) \<Rightarrow>
             let d = d\<lparr>ad_cm := cm\<rparr>
             in if hs_type (hw_info d i) = e_stream_out_pcm
                then case do_init_out_common E config devices (new_out_pcm i) d of
                       (out, d) \<Rightarrow> map_option (\<lambda>out. (0, Some (OutPcm out), d)) (do_init_out_pcm E out d)
                else case do_init_out_common E config devices (new_out_compress i) d of
                       (out, d) \<Rightarrow>
                         (case do_init_out_compress E config out d of
                            (r, out, d) \<Rightarrow> Some (if r < 0 then (r, None, d) else (0, Some (OutCompress out), d))))"

definition adev_close_output_stream :: "hal_env \<Rightarrow> out_stream \<Rightarrow> audio_dev \<Rightarrow> audio_dev option" where
  "adev_close_output_stream E out d =
     (case out of OutPcm out \<Rightarrow> do_close_out_pcm E out d | OutCompress out \<Rightarrow> out_compress_close E out d)"

end
