(* ===== verification/Audio_Async.thy ===== *)
theory Audio_Async
  imports Audio_Out
begin

text \<open>
  The helper thread of compressed playback (\<open>out_compress_async_fn\<close> in \<open>audio/audio_hw.c\<close>) and its clients as an
  interleaving of steps. \<open>signal_async_thread\<close> and the end of \<open>do_close_out_common\<close> hold the mutex for all they do and are one step
  each; the thread gives the mutex up only while it waits and after it has taken a request. POSIX lets a wait end without
  a signal; that is a step of its own.
\<close>

section \<open>Steps\<close>

text \<open>At the test of the loop, before taking the mutex, waiting, woken, working on a request, returned (with the mutex
  still held when the loop was left by \<open>break\<close>).\<close>

datatype thread_pc = TCheck | TLock | TWait | TWoken | TWork async_mode | TExit bool

record helper =
  ah_out :: out_common
  ah_pc :: thread_pc
  ah_accepted :: "async_mode list"
  ah_served :: "async_mode list"

datatype actor = Signal async_mode | Close | Thread | Spurious

definition wake :: "helper \<Rightarrow> helper" where
  "wake s = (if ah_pc s = TWait then s\<lparr>ah_pc := TWoken\<rparr> else s)"

definition request :: "async_mode \<Rightarrow> async_mode list" where
  "request m = (if m = ASYNC_NONE then [] else [m])"

inductive async_step :: "actor \<Rightarrow> helper \<Rightarrow> helper \<Rightarrow> bool" where
  signalled: "ah_pc s \<noteq> TExit True \<Longrightarrow> m \<noteq> ASYNC_NONE \<Longrightarrow> signal_async_thread m (ah_out s) = (0, out) \<Longrightarrow>
    async_step (Signal m) s (wake (s\<lparr>ah_out := out, ah_accepted := ah_accepted s @ [m]\<rparr>))"
| busy: "ah_pc s \<noteq> TExit True \<Longrightarrow> signal_async_thread m (ah_out s) = (r, out) \<Longrightarrow> r \<noteq> 0 \<Longrightarrow>
    async_step (Signal m) s (s\<lparr>ah_out := out\<rparr>)"
| closing: "ah_pc s \<noteq> TExit True \<Longrightarrow> async_step Close s (wake (s\<lparr>ah_out := (ah_out s)\<lparr>oc_async_exit := True\<rparr>\<rparr>))"
| checked: "ah_pc s = TCheck \<Longrightarrow> async_step Thread s (s\<lparr>ah_pc := if oc_async_exit (ah_out s) then TExit False else TLock\<rparr>)"
| waits: "ah_pc s = TLock \<Longrightarrow> async_step Thread s (s\<lparr>ah_pc := TWait\<rparr>)"
| spurious: "ah_pc s = TWait \<Longrightarrow> async_step Spurious s (s\<lparr>ah_pc := TWoken\<rparr>)"
| leaves: "ah_pc s = TWoken \<Longrightarrow> oc_async_exit (ah_out s) \<Longrightarrow> async_step Thread s (s\<lparr>ah_pc := TExit True\<rparr>)"
| takes: "ah_pc s = TWoken \<Longrightarrow> \<not> oc_async_exit (ah_out s) \<Longrightarrow>
    async_step Thread s (s\<lparr>ah_pc := TWork (oc_async_mode (ah_out s)), ah_out := (ah_out s)\<lparr>oc_async_mode := ASYNC_NONE\<rparr>\<rparr>)"
| served: "ah_pc s = TWork m \<Longrightarrow> async_step Thread s (s\<lparr>ah_pc := TCheck, ah_served := ah_served s @ request m\<rparr>)"

inductive_cases thread_stepE: "async_step Thread s t"

text \<open>The state after \<open>out_set_callback\<close> has started the thread.\<close>

definition async_init :: "out_common \<Rightarrow> helper" where
  "async_init out = \<lparr>ah_out = snd (out_set_callback 0 (out\<lparr>oc_async_mode := ASYNC_NONE\<rparr>)), ah_pc = TCheck, ah_accepted = [], ah_served = []\<rparr>"

inductive async_reach :: "out_common \<Rightarrow> helper \<Rightarrow> bool" for out where
  init: "async_reach out (async_init out)"
| step: "async_reach out s \<Longrightarrow> async_step a s t \<Longrightarrow> async_reach out t"

section \<open>Requests are served once and in order\<close>

definition in_work :: "helper \<Rightarrow> async_mode list" where
  "in_work s = (case ah_pc s of TWork m \<Rightarrow> request m | _ \<Rightarrow> [])"

definition waiting :: "helper \<Rightarrow> async_mode list" where
  "waiting s = request (oc_async_mode (ah_out s))"

definition in_order :: "helper \<Rightarrow> bool" where
  "in_order s \<longleftrightarrow> ah_accepted s = ah_served s @ in_work s @ waiting s \<and> (ah_pc s = TWoken \<or> ah_pc s = TWait \<longrightarrow> in_work s = [])"

lemma wake_simps [simp]: "ah_out (wake s) = ah_out s" "ah_accepted (wake s) = ah_accepted s" "ah_served (wake s) = ah_served s"
  "in_work (wake s) = in_work s" "ah_pc (wake s) = TWork m \<longleftrightarrow> ah_pc s = TWork m"
  by (simp_all add: wake_def in_work_def)

lemma signal_cases:
  "signal_async_thread m out = (r, out') \<Longrightarrow>
     (if oc_async_mode out = ASYNC_NONE then r = 0 \<and> out' = out\<lparr>oc_async_mode := m\<rparr> else r = - EBUSY \<and> out' = out)"
  by (auto simp: signal_async_thread_def split: if_splits)

lemma async_step_order: "async_step a s t \<Longrightarrow> in_order s \<Longrightarrow> in_order t"
proof (induction rule: async_step.induct)
  case (signalled s m out)
  then have "waiting s = []" "out = (ah_out s)\<lparr>oc_async_mode := m\<rparr>"
    using signal_cases [OF signalled(3)] by (auto simp: waiting_def request_def split: if_splits)
  then show ?case using signalled by (auto simp: in_order_def waiting_def request_def in_work_def wake_def split: thread_pc.splits)
next
  case (busy s m r out)
  then have "out = ah_out s" using signal_cases [OF busy(2)] by (auto split: if_splits)
  then show ?case using busy by simp
next
  case (closing s)
  then show ?case by (auto simp: in_order_def waiting_def in_work_def wake_def split: thread_pc.splits)
qed (auto simp: in_order_def waiting_def in_work_def request_def)

text \<open>
  C15. In every interleaving of the helper thread with its clients the requests that \<open>signal_async_thread\<close> accepted
  are, in their order, those that were served, the one in work and the one that waits: none is served twice, none is
  dropped or overtaken, and at most two are outstanding.
\<close>

theorem requests_served_in_order:
  assumes "async_reach out s"
  shows "ah_accepted s = ah_served s @ in_work s @ waiting s \<and> length (in_work s @ waiting s) \<le> 2"
proof -
  have "in_order s" using assms
    by (induction rule: async_reach.induct)
      (auto simp: in_order_def async_init_def in_work_def waiting_def request_def out_set_callback_def Let_def dest: async_step_order)
  then show ?thesis by (auto simp: in_order_def in_work_def waiting_def request_def split: thread_pc.splits)
qed

section \<open>A signal can be lost\<close>

text \<open>Steps of anyone but a client that closes the stream and the wake-ups POSIX allows without a signal.\<close>

definition unforced :: "helper \<Rightarrow> helper \<Rightarrow> bool" where
  "unforced s t \<longleftrightarrow> (\<exists>a. a \<noteq> Close \<and> a \<noteq> Spurious \<and> async_step a s t)"

text \<open>A wait after the signal: nothing but the end of the stream or a spurious wake-up gets the thread out of it.\<close>

definition overslept :: "helper \<Rightarrow> bool" where
  "overslept s \<longleftrightarrow> ah_pc s = TWait \<and> oc_async_mode (ah_out s) \<noteq> ASYNC_NONE"

lemma overslept_stuck:
  assumes "overslept s" "async_step a s t"
  shows "t = s \<or> a = Close \<or> a = Spurious"
  using assms(2,1) by (cases rule: async_step.cases) (auto simp: overslept_def dest!: signal_cases split: if_splits)

lemma overslept_forever:
  assumes "unforced\<^sup>*\<^sup>* s t" "overslept s"
  shows "t = s"
  using assms by (induction rule: rtranclp_induct) (auto simp: unforced_def dest: overslept_stuck)

text \<open>The thread runs on its own: from a state with the exit flag set it ends unless it is about to wait or waits.\<close>

definition ends :: "helper \<Rightarrow> bool" where
  "ends s \<longleftrightarrow> (\<exists>u b. (async_step Thread)\<^sup>*\<^sup>* s u \<and> ah_pc u = TExit b)"

definition dozing :: "helper \<Rightarrow> bool" where
  "dozing s \<longleftrightarrow> ah_pc s = TLock \<or> ah_pc s = TWait"

lemma dozing_stuck: "(async_step Thread)\<^sup>*\<^sup>* s u \<Longrightarrow> dozing s \<Longrightarrow> dozing u"
  by (induction rule: rtranclp_induct) (auto simp: dozing_def elim: thread_stepE)

lemma dozing_ends: "dozing s \<Longrightarrow> \<not> ends s"
  unfolding ends_def using dozing_stuck [of s] by (fastforce simp: dozing_def)

lemma ends_now: "ah_pc s = TExit b \<Longrightarrow> ends s"
  by (auto simp: ends_def)

lemma ends_step: "async_step Thread s t \<Longrightarrow> ends t \<Longrightarrow> ends s"
  by (auto simp: ends_def intro: converse_rtranclp_into_rtranclp)

lemma exit_ends_check:
  assumes "oc_async_exit (ah_out s)" "ah_pc s = TCheck"
  shows "ends s"
  by (rule ends_step [OF async_step.checked [OF assms(2)] ends_now [of _ False]]) (simp add: assms(1))

lemma exit_ends:
  assumes "oc_async_exit (ah_out s)"
  shows "ends s \<longleftrightarrow> \<not> dozing s"
proof (cases "ah_pc s")
  case TWoken
  then have "ends s" using ends_step [OF async_step.leaves [OF TWoken assms] ends_now [of _ True]] by simp
  then show ?thesis using TWoken by (simp add: dozing_def)
next
  case (TWork m)
  have "ends s" by (rule ends_step [OF async_step.served [OF TWork] exit_ends_check]) (simp_all add: assms)
  then show ?thesis using TWork by (simp add: dozing_def)
qed (use assms dozing_ends [of s] exit_ends_check [of s] ends_now [of s] in \<open>auto simp: dozing_def\<close>)

lemma close_ends:
  assumes "async_step Close s t"
  shows "ends t \<longleftrightarrow> ah_pc s \<noteq> TLock"
proof -
  have t: "t = wake (s\<lparr>ah_out := (ah_out s)\<lparr>oc_async_exit := True\<rparr>\<rparr>)" using assms by (cases rule: async_step.cases) simp_all
  have "ends t \<longleftrightarrow> \<not> dozing t" by (rule exit_ends) (simp add: t)
  then show ?thesis by (simp add: t dozing_def wake_def)
qed

text \<open>The window: the thread has tested its exit flag and does not wait yet.\<close>

lemma window_reached:
  obtains s where "async_reach out s" "ah_pc s = TLock" "oc_async_mode (ah_out s) = ASYNC_NONE" "ah_accepted s = []" "ah_served s = []"
proof -
  have i: "ah_pc (async_init out) = TCheck" "\<not> oc_async_exit (ah_out (async_init out))" "oc_async_mode (ah_out (async_init out)) = ASYNC_NONE"
    "ah_accepted (async_init out) = []" "ah_served (async_init out) = []"
    by (simp_all add: async_init_def out_set_callback_def Let_def)
  have "async_reach out ((async_init out)\<lparr>ah_pc := TLock\<rparr>)"
    using async_reach.step [OF async_reach.init async_step.checked [OF i(1)]] i(2) by simp
  from that [OF this] show thesis using i by simp
qed

lemma window_signal:
  assumes "async_reach out s" "ah_pc s = TLock" "oc_async_mode (ah_out s) = ASYNC_NONE" "m \<noteq> ASYNC_NONE"
  shows "async_reach out (s\<lparr>ah_out := (ah_out s)\<lparr>oc_async_mode := m\<rparr>, ah_accepted := ah_accepted s @ [m], ah_pc := TWait\<rparr>)"
proof -
  have "async_step (Signal m) s (wake (s\<lparr>ah_out := (ah_out s)\<lparr>oc_async_mode := m\<rparr>, ah_accepted := ah_accepted s @ [m]\<rparr>))"
    by (rule async_step.signalled) (use assms in \<open>simp_all add: signal_async_thread_def\<close>)
  from async_reach.step [OF assms(1) this] have "async_reach out (s\<lparr>ah_out := (ah_out s)\<lparr>oc_async_mode := m\<rparr>, ah_accepted := ah_accepted s @ [m]\<rparr>)"
    using assms(2) by (simp add: wake_def)
  from async_reach.step [OF this async_step.waits] show ?thesis using assms(2) by simp
qed


theorem requests_served_in_order_witness:
  "\<exists>s. async_reach (new_out 0) s \<and> ah_accepted s = ah_served s @ in_work s @ waiting s"
  using async_reach.init requests_served_in_order [OF async_reach.init, of "new_out 0"] by blast


end
