(* ===== verification/Audio_In.thy ===== *)
theory Audio_In
  imports Audio_Out
begin

text \<open>
  \<open>audio/audio_hw.c\<close>, the rest: input streams over PCM or compressed capture with their resampler, the choice of
  the input source, the voice trigger, and the device. The resampler of \<open>audio_utils\<close> is a parameter: for a number of
  output frames it says which frame counts it asks its provider for and how many frames it produces. Reading
  shortened data (\<open>COMPRESS_PCM_USE_UNSHORTEN\<close>) is not part of the build and not modelled.
\<close>

section \<open>State of an input stream\<close>

text \<open>The union of the two handles.\<close>

datatype in_handle = HNull | HPcm pcm | HCompress int | HDangling

record in_resampler =
  rs_active :: bool
  rs_in_buffer_size :: u32
  rs_in_buffer_frames :: nat
  rs_frames_in :: nat
  rs_read_status :: int

record in_pcm =
  ic_hw :: "nat option"
  ic_standby :: bool
  ic_devices :: u32
  ic_format :: nat
  ic_channel_mask :: u32
  ic_channel_count :: nat
  ic_sample_rate :: u32
  ic_frame_size :: u32
  ic_buffer_size :: u32
  ic_input_source :: int
  ic_last_read_ns :: int
  ip_handle :: in_handle
  ip_hw_sample_rate :: u32
  ip_hw_channel_count :: u32
  ip_period_size :: u32
  ip_resampler :: in_resampler

record in_env =
  ie_hal :: hal_env
  ie_resample :: "nat \<Rightarrow> nat list \<times> nat"
  ie_create_resampler :: int

definition no_resampler :: in_resampler where
  "no_resampler = \<lparr>rs_active = False, rs_in_buffer_size = 0, rs_in_buffer_frames = 0, rs_frames_in = 0, rs_read_status = 0\<rparr>"

section \<open>What input streams share\<close>

definition in_get_sample_rate :: "audio_dev \<Rightarrow> in_pcm \<Rightarrow> u32" where
  "in_get_sample_rate d i =
     (if ic_sample_rate i \<noteq> 0 then ic_sample_rate i
      else case ic_hw i of Some h \<Rightarrow> of_nat (hs_rate (hw_info d h)) | None \<Rightarrow> 0)"

definition in_set_sample_rate :: "u32 \<Rightarrow> in_pcm \<Rightarrow> int" where
  "in_set_sample_rate r i = (if r = ic_sample_rate i then 0 else - ENOTSUP)"

definition in_get_channels :: "in_pcm \<Rightarrow> u32" where
  "in_get_channels i = (if ic_channel_mask i \<noteq> 0 then ic_channel_mask i else 0x10)"

definition do_in_set_read_timestamp :: "int \<Rightarrow> in_pcm \<Rightarrow> in_pcm" where
  "do_in_set_read_timestamp now i = i\<lparr>ic_last_read_ns := (if now = 0 then 1 else now)\<rparr>"

text \<open>The nanoseconds slept, if any; the outer \<open>None\<close> is a division by zero. A \<open>size_t\<close> has 32 bits.\<close>

definition do_in_realtime_delay :: "int \<Rightarrow> u32 \<Rightarrow> in_pcm \<Rightarrow> int option option" where
  "do_in_realtime_delay now bytes i =
     (if ic_last_read_ns i = 0 then Some None
      else if ic_frame_size i * ic_sample_rate i = 0 then None
      else let required_interval = uint (1907 * bytes div (ic_frame_size i * ic_sample_rate i));
               required_ns = required_interval * 2 ^ 19;
               elapsed_ns = now - ic_last_read_ns i
        in Some (if required_interval > elapsed_ns div 2 ^ 19 then Some (required_ns - elapsed_ns) else None))"

definition do_init_in_common :: "hal_env \<Rightarrow> stream_config \<Rightarrow> u32 \<Rightarrow> in_pcm" where
  "do_init_in_common E config devices =
     \<lparr>ic_hw = None, ic_standby = True, ic_devices = devices, ic_format = cfg_format config,
      ic_channel_mask = cfg_channel_mask config, ic_channel_count = popcount (cfg_channel_mask config),
      ic_sample_rate = cfg_sample_rate config, ic_frame_size = he_frame_size E (cfg_format config) (cfg_channel_mask config),
      ic_buffer_size = 0, ic_input_source = 0, ic_last_read_ns = 0, ip_handle = HNull, ip_hw_sample_rate = 0,
      ip_hw_channel_count = 0, ip_period_size = 0, ip_resampler = no_resampler\<rparr>"

section \<open>Resampling\<close>

text \<open>The samples are not part of the state. This is what the provider does to a stereo buffer for a mono stream, in
  place for the indices from 1: sample \<open>i\<close> becomes the left sample of frame \<open>i\<close>.\<close>

fun discard_right :: "nat list \<Rightarrow> 'a list \<Rightarrow> 'a list" where
  "discard_right [] xs = xs"
| "discard_right (i # is) xs = discard_right is (xs[i := xs ! (i * 2)])"

definition get_next_buffer ::
  "in_env \<Rightarrow> nat \<Rightarrow> in_pcm \<Rightarrow> audio_dev \<Rightarrow> (int \<times> nat \<times> in_pcm \<times> audio_dev) option" where
  "get_next_buffer E wanted i d =
     (let rsp = ip_resampler i
      in case ip_handle i of
           HPcm p \<Rightarrow>
             if rs_frames_in rsp = 0
             then case pcm_readi (he_pcm (ie_hal E)) (unat (pcm_bytes_to_frames p (rs_in_buffer_size rsp))) p (ad_plog d) of
                    None \<Rightarrow> None
                  | Some (r, p, l) \<Rightarrow>
                      (let d = d\<lparr>ad_plog := l\<rparr>; i = i\<lparr>ip_handle := HPcm p, ip_resampler := rsp\<lparr>rs_read_status := r\<rparr>\<rparr>
                       in if r < 0 then Some (r, 0, i, d)
                          else Some (r, min wanted (rs_in_buffer_frames rsp),
                                     i\<lparr>ip_resampler := rsp\<lparr>rs_read_status := r, rs_frames_in := rs_in_buffer_frames rsp\<rparr>\<rparr>, d))
             else Some (rs_read_status rsp, min wanted (rs_frames_in rsp), i, d)
         | HNull \<Rightarrow> Some (- ENODEV, 0, i\<lparr>ip_resampler := rsp\<lparr>rs_read_status := - ENODEV\<rparr>\<rparr>, d)
         | _ \<Rightarrow> None)"

definition release_buffer :: "nat \<Rightarrow> in_pcm \<Rightarrow> in_pcm" where
  "release_buffer n i = i\<lparr>ip_resampler := (ip_resampler i)\<lparr>rs_frames_in := rs_frames_in (ip_resampler i) - n\<rparr>\<rparr>"

text \<open>One call of the resampler: it asks its provider until it has what it needs or gets nothing.\<close>

fun provide :: "in_env \<Rightarrow> nat list \<Rightarrow> in_pcm \<Rightarrow> audio_dev \<Rightarrow> (in_pcm \<times> audio_dev) option" where
  "provide E [] i d = Some (i, d)"
| "provide E (n # ns) i d =
     (case get_next_buffer E n i d of
        None \<Rightarrow> None
      | Some (r, k, i, d) \<Rightarrow> if k = 0 then Some (i, d) else provide E ns (release_buffer k i) d)"

partial_function (option) read_resampled_frames ::
  "in_env \<Rightarrow> nat \<Rightarrow> nat \<Rightarrow> in_pcm \<Rightarrow> audio_dev \<Rightarrow> (int \<times> in_pcm \<times> audio_dev) option" where
  "read_resampled_frames E frames wr i d =
     (if frames \<le> wr then Some (int wr, i, d)
      else case provide E (fst (ie_resample E (frames - wr))) i d of
             None \<Rightarrow> None
           | Some (i, d) \<Rightarrow>
               if rs_read_status (ip_resampler i) \<noteq> 0 then Some (rs_read_status (ip_resampler i), i, d)
               else read_resampled_frames E frames (wr + snd (ie_resample E (frames - wr))) i d)"

definition in_resampler_init :: "in_env \<Rightarrow> u32 \<Rightarrow> u32 \<Rightarrow> in_pcm \<Rightarrow> int \<times> in_pcm" where
  "in_resampler_init E ch hw_fragment i =
     (let bytes = hw_fragment * ch * ic_frame_size i; ret = ie_create_resampler E;
          rsp = (ip_resampler i)\<lparr>rs_in_buffer_size := bytes, rs_in_buffer_frames := unat (bytes div (ch * ic_frame_size i))\<rparr>
      in (ret, i\<lparr>ip_resampler := rsp\<lparr>rs_active := (ret \<ge> 0)\<rparr>\<rparr>))"

definition in_resampler_free :: "in_pcm \<Rightarrow> in_pcm" where
  "in_resampler_free i = i\<lparr>ip_resampler := (ip_resampler i)\<lparr>rs_active := False\<rparr>\<rparr>"

section \<open>Compressed capture\<close>

text \<open>A device that cannot be opened gives its \<open>errno\<close>, a positive number.\<close>

definition do_open_compress_pcm_in :: "hal_env \<Rightarrow> in_pcm \<Rightarrow> audio_dev \<Rightarrow> int \<times> in_pcm \<times> audio_dev" where
  "do_open_compress_pcm_in E i d =
     (case ic_hw i of
        None \<Rightarrow> (- EINVAL, i, d)
      | Some h \<Rightarrow>
          (let hw = hw_info d h; d = creq (COpen (hs_card_number hw) (hs_device_number hw) True) d; c = cret E d
           in if c < 0 then (- c, i, creq (CClose c) d)
              else (0, i\<lparr>ip_handle := HCompress c, ic_buffer_size := he_fragments E (ad_clog d) * ic_frame_size i\<rparr>, creq (CStart c) d)))"

definition start_compress_pcm_input_stream :: "hal_env \<Rightarrow> in_pcm \<Rightarrow> audio_dev \<Rightarrow> (int \<times> in_pcm \<times> audio_dev) option" where
  "start_compress_pcm_input_stream E i d =
     (if \<not> ic_standby i then Some (0, i, d)
      else case do_open_compress_pcm_in E i d of
        (ret, i, d) \<Rightarrow>
          if ret < 0 then Some (ret, i, d)
          else if ic_frame_size i * ic_sample_rate i = 0 then None
          else case ip_handle i of
            HCompress c \<Rightarrow>
              (let ms = 1000 * uint (ic_buffer_size i) div uint (ic_frame_size i * ic_sample_rate i)
               in Some (0, i\<lparr>ic_standby := False\<rparr>, creq (CMaxPollWait c (ms * 2)) d))
          | _ \<Rightarrow> None)"

definition do_in_compress_pcm_standby :: "in_pcm \<Rightarrow> audio_dev \<Rightarrow> (in_pcm \<times> audio_dev) option" where
  "do_in_compress_pcm_standby i d =
     (if ic_standby i then Some (i, d)
      else case ip_handle i of
        HCompress c \<Rightarrow> Some (i\<lparr>ip_handle := HNull, ic_standby := True\<rparr>, creq (CClose c) (creq (CStop c) d))
      | _ \<Rightarrow> None)"

definition do_in_compress_pcm_read :: "hal_env \<Rightarrow> int \<Rightarrow> u32 \<Rightarrow> in_pcm \<Rightarrow> audio_dev \<Rightarrow> (int \<times> in_pcm \<times> audio_dev) option" where
  "do_in_compress_pcm_read E now bytes i d =
     (case start_compress_pcm_input_stream E i d of
        None \<Rightarrow> None
      | Some (ret, i, d) \<Rightarrow>
          if ret < 0 then Some (ret, i, d)
          else case ip_handle i of
            HCompress c \<Rightarrow>
              (let d = creq (CRead c (unat bytes)) d; ret = cret E d
               in if ret > 0 \<and> do_in_realtime_delay now (bytes div 4) i = None then None else Some (ret, i, d))
          | _ \<Rightarrow> None)"

text \<open>The handle is closed and kept.\<close>

definition do_in_compress_pcm_close :: "in_pcm \<Rightarrow> audio_dev \<Rightarrow> (in_pcm \<times> audio_dev) option" where
  "do_in_compress_pcm_close i d =
     (case ip_handle i of
        HNull \<Rightarrow> Some (i, d)
      | HCompress c \<Rightarrow> Some (i\<lparr>ip_handle := HDangling\<rparr>, creq (CClose c) (creq (CStop c) d))
      | _ \<Rightarrow> None)"

section \<open>PCM capture\<close>

definition in_pcm_config :: "audio_dev \<Rightarrow> nat \<Rightarrow> in_pcm \<Rightarrow> pcm_config" where
  "in_pcm_config d h i =
     (let hw = hw_info d h
      in \<lparr>channels = or_default (ic_channel_count i) 1, rate = or_default (hs_rate hw) 44100,
          period_size = or_default (hs_period_size hw) 256, period_count = or_default (hs_period_count hw) 4,
          format = PCM_FORMAT_S16_LE, start_threshold = 0, stop_threshold = 0, silence_threshold = 0\<rparr>)"

definition do_in_pcm_standby :: "hal_env \<Rightarrow> in_pcm \<Rightarrow> audio_dev \<Rightarrow> (in_pcm \<times> audio_dev) option" where
  "do_in_pcm_standby E i d =
     (if ic_standby i then Some (in_resampler_free i, d)
      else case ip_handle i of
        HPcm p \<Rightarrow> Some ((in_resampler_free i)\<lparr>ip_handle := HNull, ic_standby := True\<rparr>, d\<lparr>ad_plog := pcm_close (he_pcm E) p (ad_plog d)\<rparr>)
      | _ \<Rightarrow> None)"

definition in_pcm_fill_params :: "pcm_config \<Rightarrow> in_pcm \<Rightarrow> in_pcm" where
  "in_pcm_fill_params c i =
     i\<lparr>ip_hw_sample_rate := rate c, ip_hw_channel_count := channels c, ip_period_size := period_size c,
       ic_buffer_size := (period_size c * ic_sample_rate i div rate c + 15) div 16 * 16 * ic_frame_size i\<rparr>"

definition do_open_pcm_input :: "in_env \<Rightarrow> in_pcm \<Rightarrow> audio_dev \<Rightarrow> (int \<times> in_pcm \<times> audio_dev) option" where
  "do_open_pcm_input E i d =
     (case ic_hw i of
        None \<Rightarrow> Some (- EINVAL, i, d)
      | Some h \<Rightarrow>
          (let hw = hw_info d h; c = in_pcm_config d h i; K = he_pcm (ie_hal E)
           in case pcm_open K (hs_card_number hw) (hs_device_number hw) PCM_IN (Some c) (ad_plog d) of
                None \<Rightarrow> None
              | Some (p, l) \<Rightarrow>
                  if \<not> pcm_is_ready p then Some (- ENOMEM, i\<lparr>ip_handle := HNull\<rparr>, d\<lparr>ad_plog := pcm_close K p l\<rparr>)
                  else let i = in_pcm_fill_params c (i\<lparr>ip_handle := HPcm p\<rparr>); d = d\<lparr>ad_plog := l\<rparr>
                    in if in_get_sample_rate d i = rate c then Some (0, i, d)
                       else case in_resampler_init E (channels c) (pcm_frames_to_bytes p (period_size c)) i of
                         (ret, i) \<Rightarrow>
                           Some (if ret < 0 then (ret, i\<lparr>ip_handle := HNull\<rparr>, d\<lparr>ad_plog := pcm_close K p l\<rparr>) else (0, i, d))))"

definition start_pcm_input_stream :: "in_env \<Rightarrow> in_pcm \<Rightarrow> audio_dev \<Rightarrow> (int \<times> in_pcm \<times> audio_dev) option" where
  "start_pcm_input_stream E i d =
     (if \<not> ic_standby i then Some (0, i, d)
      else map_option (\<lambda>(ret, i, d). (ret, if ret = 0 then i\<lparr>ic_standby := False\<rparr> else i, d)) (do_open_pcm_input E i d))"

definition do_in_pcm_read :: "in_env \<Rightarrow> u32 \<Rightarrow> in_pcm \<Rightarrow> audio_dev \<Rightarrow> (int \<times> in_pcm \<times> audio_dev) option" where
  "do_in_pcm_read E bytes i d =
     (if ic_frame_size i = 0 then None
      else case start_pcm_input_stream E i d of
        None \<Rightarrow> None
      | Some (ret, i, d) \<Rightarrow>
          if ret < 0 then Some (ret, i, d)
          else map_option (\<lambda>(ret, i, d). (if ret \<ge> 0 then uint bytes else ret, i, d))
            (if rs_active (ip_resampler i) then read_resampled_frames E (unat (bytes div ic_frame_size i)) 0 i d
             else case ip_handle i of
               HPcm p \<Rightarrow>
                 map_option (\<lambda>(r, p, l). (r, i\<lparr>ip_handle := HPcm p\<rparr>, d\<lparr>ad_plog := l\<rparr>))
                   (pcm_readi (he_pcm (ie_hal E)) (unat (pcm_bytes_to_frames p bytes)) p (ad_plog d))
             | _ \<Rightarrow> None))"

definition stream_is_compressed_in :: "hw_stream \<Rightarrow> bool" where
  "stream_is_compressed_in s \<longleftrightarrow> hs_type s = e_stream_in_compress"

definition stream_is_compressed :: "hw_stream \<Rightarrow> bool" where
  "stream_is_compressed s \<longleftrightarrow> hs_type s = e_stream_out_compress \<or> hs_type s = e_stream_in_compress"

definition in_pcm_standby :: "hal_env \<Rightarrow> in_pcm \<Rightarrow> audio_dev \<Rightarrow> (in_pcm \<times> audio_dev) option" where
  "in_pcm_standby E i d =
     (case ic_hw i of
        None \<Rightarrow> Some (i, d)
      | Some h \<Rightarrow> if stream_is_compressed_in (hw_info d h) then do_in_compress_pcm_standby i d else do_in_pcm_standby E i d)"

text \<open>What is read: \<open>Silence\<close> when nothing could be captured or the microphone is muted.\<close>

datatype heard = Captured | Silence

definition in_pcm_read :: "in_env \<Rightarrow> int \<Rightarrow> u32 \<Rightarrow> in_pcm \<Rightarrow> audio_dev \<Rightarrow> (int \<times> heard \<times> in_pcm \<times> audio_dev) option" where
  "in_pcm_read E now bytes i d =
     (case (case ic_hw i of
              None \<Rightarrow> Some (- EINVAL, i, d)
            | Some h \<Rightarrow>
                if get_current_routes (ad_cm d) h = 0 then Some (- EINVAL, i, d)
                else if stream_is_compressed_in (hw_info d h) then do_in_compress_pcm_read (ie_hal E) now bytes i d
                else do_in_pcm_read E bytes i d) of
        None \<Rightarrow> None
      | Some (ret, i, d) \<Rightarrow>
          if ret \<le> 0 \<or> ad_mic_mute d
          then if ret \<le> 0 \<and> do_in_realtime_delay now bytes i = None then None
               else Some (uint bytes, Silence, do_in_set_read_timestamp now i, d)
          else Some (ret, Captured, do_in_set_read_timestamp now i, d))"

section \<open>Voice trigger\<close>

definition kVoiceTriggerStreamName :: string where
  "kVoiceTriggerStreamName = ''voice trigger''"

definition kVoiceRecogStreamName :: string where
  "kVoiceRecogStreamName = ''voice recognition''"

definition do_voice_trigger_open_stream :: "hal_env \<Rightarrow> string \<Rightarrow> audio_dev \<Rightarrow> audio_dev" where
  "do_voice_trigger_open_stream E name d =
     (case get_named_stream (he_alsa E) name (ad_cm d) of
        (None, cm) \<Rightarrow> d\<lparr>ad_voice_stream := None, ad_cm := cm\<rparr>
      | (Some i, cm) \<Rightarrow>
          (let mic = (if ad_voice_trig_mic d = 0 then device_flag (he_h E) ''AUDIO_DEVICE_IN_BUILTIN_MIC'' else ad_voice_trig_mic d)
           in d\<lparr>ad_voice_stream := Some i, ad_cm := apply_route (he_alsa E) (he_h E) i mic cm\<rparr>))"

text \<open>The stream is released; its last line compares the pointer with \<open>NULL\<close> where it means to clear it.\<close>

definition do_voice_trigger_close_stream :: "hal_env \<Rightarrow> audio_dev \<Rightarrow> audio_dev" where
  "do_voice_trigger_close_stream E d =
     (case ad_voice_stream d of
        None \<Rightarrow> d
      | Some i \<Rightarrow>
          d\<lparr>ad_cm := release_stream (he_alsa E) (he_h E) (Some i) (apply_route (he_alsa E) (he_h E) i 0 (ad_cm d))\<rparr>)"

definition voice_trigger_enable :: "hal_env \<Rightarrow> audio_dev \<Rightarrow> audio_dev" where
  "voice_trigger_enable E d =
     (case ad_voice_st d of
        eVoiceTriggerIdle \<Rightarrow> (do_voice_trigger_open_stream E kVoiceTriggerStreamName d)\<lparr>ad_voice_st := eVoiceTriggerArmed\<rparr>
      | eVoiceTriggerFired \<Rightarrow> (do_voice_trigger_open_stream E kVoiceTriggerStreamName d)\<lparr>ad_voice_st := eVoiceTriggerArmed\<rparr>
      | eVoiceRecogIdle \<Rightarrow> (do_voice_trigger_open_stream E kVoiceRecogStreamName d)\<lparr>ad_voice_st := eVoiceRecogArmed\<rparr>
      | eVoiceRecogAudio \<Rightarrow> d\<lparr>ad_voice_st := eVoiceRecogReArm\<rparr>
      | _ \<Rightarrow> d)"

definition voice_trigger_disable :: "hal_env \<Rightarrow> audio_dev \<Rightarrow> audio_dev" where
  "voice_trigger_disable E d =
     (case ad_voice_st d of
        eVoiceTriggerFired \<Rightarrow> (do_voice_trigger_close_stream E d)\<lparr>ad_voice_st := eVoiceTriggerIdle\<rparr>
      | eVoiceTriggerArmed \<Rightarrow> (do_voice_trigger_close_stream E d)\<lparr>ad_voice_st := eVoiceTriggerIdle\<rparr>
      | eVoiceRecogArmed \<Rightarrow> (do_voice_trigger_close_stream E d)\<lparr>ad_voice_st := eVoiceRecogIdle\<rparr>
      | eVoiceRecogReArm \<Rightarrow> d\<lparr>ad_voice_st := eVoiceRecogAudio\<rparr>
      | _ \<Rightarrow> d)"

definition voice_trigger_triggered :: "audio_dev \<Rightarrow> audio_dev" where
  "voice_trigger_triggered d =
     (case ad_voice_st d of
        eVoiceTriggerArmed \<Rightarrow> d\<lparr>ad_voice_st := eVoiceTriggerFired\<rparr>
      | eVoiceRecogArmed \<Rightarrow> d\<lparr>ad_voice_st := eVoiceRecogFired\<rparr>
      | _ \<Rightarrow> d)"

definition voice_trigger_audio_started_locked :: "audio_dev \<Rightarrow> audio_dev" where
  "voice_trigger_audio_started_locked d =
     (case ad_voice_st d of eVoiceRecogFired \<Rightarrow> d\<lparr>ad_voice_st := eVoiceRecogAudio\<rparr> | _ \<Rightarrow> d)"

definition voice_trigger_audio_ended_locked :: "hal_env \<Rightarrow> audio_dev \<Rightarrow> audio_dev" where
  "voice_trigger_audio_ended_locked E d =
     (case ad_voice_st d of
        eVoiceRecogAudio \<Rightarrow> (do_voice_trigger_close_stream E d)\<lparr>ad_voice_st := eVoiceRecogIdle\<rparr>
      | eVoiceRecogReArm \<Rightarrow> d\<lparr>ad_voice_st := eVoiceRecogArmed\<rparr>
      | _ \<Rightarrow> d)"

definition voice_trigger_set_params :: "hal_env \<Rightarrow> string \<Rightarrow> audio_dev \<Rightarrow> audio_dev" where
  "voice_trigger_set_params E kvpairs d =
     (let d = (case he_parm E kvpairs ''voice_trigger_mic'' of None \<Rightarrow> d | Some v \<Rightarrow> d\<lparr>ad_voice_trig_mic := of_int (atoi v)\<rparr>)
      in case he_parm E kvpairs ''voice_trigger'' of
           None \<Rightarrow> d
         | Some v \<Rightarrow>
             if v = ''2'' then voice_trigger_triggered d
             else if v = ''1'' then voice_trigger_enable E d
             else if v = ''0'' then voice_trigger_disable E d
             else d)"

definition voice_trigger_audio_stream_name :: "audio_dev \<Rightarrow> string option" where
  "voice_trigger_audio_stream_name d =
     (if ad_voice_st d \<in> {eVoiceNone, eVoiceTriggerIdle, eVoiceTriggerArmed, eVoiceTriggerFired, eVoiceRecogFired}
      then Some kVoiceRecogStreamName else None)"

definition voice_trigger_init :: "audio_dev \<Rightarrow> audio_dev" where
  "voice_trigger_init d =
     d\<lparr>ad_voice_st := (if is_named_stream_defined (ad_cm d) kVoiceRecogStreamName then eVoiceRecogIdle
                      else if is_named_stream_defined (ad_cm d) kVoiceTriggerStreamName then eVoiceTriggerIdle else eVoiceNone)\<rparr>"

section \<open>Input source\<close>

text \<open>\<open>me\<close> is the stream as the device knows it. The result is the error number, the stream and the device.\<close>

definition change_input_source_locked ::
  "hal_env \<Rightarrow> nat \<Rightarrow> string \<Rightarrow> u32 \<Rightarrow> in_pcm \<Rightarrow> audio_dev \<Rightarrow> int \<times> in_pcm \<times> audio_dev" where
  "change_input_source_locked E me v devices i d =
     (let new_source = atoi v
      in if \<not> ic_standby i then (- EINVAL, i, d)
         else if ic_input_source i = new_source then (0, i, d)
         else let voice_control = (new_source = he_voice_recognition E);
                  name = (if voice_control then voice_trigger_audio_stream_name d else None);
                  (hw, cm) = (case name of None \<Rightarrow> (None, ad_cm d) | Some n \<Rightarrow> get_named_stream (he_alsa E) n (ad_cm d));
                  (hw, cm) = (case hw of Some h \<Rightarrow> (Some h, cm) | None \<Rightarrow> get_stream (he_alsa E) (he_h E) devices (ic_format i) cm)
           in case hw of
                None \<Rightarrow> (- EINVAL, i, d\<lparr>ad_cm := cm\<rparr>)
              | Some h \<Rightarrow>
                  (let cm = (case ic_hw i of None \<Rightarrow> cm | Some old \<Rightarrow> release_stream (he_alsa E) (he_h E) (Some old) cm);
                       d = d\<lparr>ad_cm := cm\<rparr>;
                       d = (if voice_control then voice_trigger_audio_started_locked (d\<lparr>ad_active_voice_control := Some me\<rparr>)
                            else if ad_active_voice_control d = Some me
                            then voice_trigger_audio_ended_locked E (d\<lparr>ad_active_voice_control := None\<rparr>)
                            else d)
                   in (0, i\<lparr>ic_hw := Some h, ic_input_source := new_source\<rparr>, d)))"

definition in_pcm_set_parameters :: "hal_env \<Rightarrow> nat \<Rightarrow> string \<Rightarrow> in_pcm \<Rightarrow> audio_dev \<Rightarrow> in_pcm \<times> audio_dev" where
  "in_pcm_set_parameters E me kvpairs i d =
     (let routing = common_get_routing_param E kvpairs;
          route = (\<lambda>v i d. case ic_hw i of
             None \<Rightarrow> (i\<lparr>ic_devices := v\<rparr>, d)
           | Some h \<Rightarrow> (i\<lparr>ic_devices := v\<rparr>, d\<lparr>ad_cm := apply_route (he_alsa E) (he_h E) h v (ad_cm d)\<rparr>));
          usecases = (\<lambda>(i, d). (i, d\<lparr>ad_cm := snd (stream_invoke_usecases E (ic_hw i) kvpairs (ad_cm d))\<rparr>))
      in case he_parm E kvpairs ''input_source'' of
           Some v \<Rightarrow>
             (let devices = (case routing of Some w \<Rightarrow> w | None \<Rightarrow>
                               (case ic_hw i of Some h \<Rightarrow> get_routed_devices (ad_cm d) h | None \<Rightarrow> 0))
              in case change_input_source_locked E me v devices i d of
                   (r, i, d) \<Rightarrow> if r < 0 then (i, d) else usecases (route devices i d))
         | None \<Rightarrow> (case routing of None \<Rightarrow> usecases (i, d) | Some w \<Rightarrow> usecases (route w i d)))"

section \<open>Closing and opening\<close>

definition do_close_in_common :: "hal_env \<Rightarrow> nat \<Rightarrow> in_pcm \<Rightarrow> audio_dev \<Rightarrow> audio_dev option" where
  "do_close_in_common E me i d =
     (case in_pcm_standby E i d of
        None \<Rightarrow> None
      | Some (i, d) \<Rightarrow>
          (let d = (if ad_active_voice_control d = Some me
                    then voice_trigger_audio_ended_locked E (d\<lparr>ad_active_voice_control := None\<rparr>) else d)
           in Some (case ic_hw i of None \<Rightarrow> d | Some h \<Rightarrow> d\<lparr>ad_cm := release_stream (he_alsa E) (he_h E) (Some h) (ad_cm d)\<rparr>)))"

definition do_close_in_pcm :: "hal_env \<Rightarrow> nat \<Rightarrow> in_pcm \<Rightarrow> audio_dev \<Rightarrow> audio_dev option" where
  "do_close_in_pcm E me i d =
     (case ic_hw i of
        Some h \<Rightarrow>
          if stream_is_compressed (hw_info d h)
          then (case do_in_compress_pcm_close i d of None \<Rightarrow> None | Some (i, d) \<Rightarrow> do_close_in_common E me i d)
          else do_close_in_common E me i d
      | None \<Rightarrow> do_close_in_common E me i d)"

definition do_init_in_pcm :: "in_pcm \<Rightarrow> in_pcm" where
  "do_init_in_pcm i = i\<lparr>ic_buffer_size := 1024\<rparr>"

definition adev_open_input_stream :: "hal_env \<Rightarrow> u32 \<Rightarrow> stream_config \<Rightarrow> in_pcm" where
  "adev_open_input_stream E devices config = do_init_in_pcm (do_init_in_common E config (devices AND IN_ALL (he_h E)))"

definition adev_close_input_stream :: "hal_env \<Rightarrow> nat \<Rightarrow> in_pcm \<Rightarrow> audio_dev \<Rightarrow> audio_dev option" where
  "adev_close_input_stream E me i d = do_close_in_pcm E me i d"

definition adev_set_parameters :: "hal_env \<Rightarrow> string \<Rightarrow> audio_dev \<Rightarrow> audio_dev" where
  "adev_set_parameters E kvpairs d =
     (let d = voice_trigger_set_params E kvpairs d
      in case ad_global_stream d of
           None \<Rightarrow> d
         | Some g \<Rightarrow> d\<lparr>ad_cm := snd (stream_invoke_usecases E (Some g) kvpairs (ad_cm d))\<rparr>)"

definition adev_set_mic_mute :: "bool \<Rightarrow> audio_dev \<Rightarrow> audio_dev" where
  "adev_set_mic_mute b d = d\<lparr>ad_mic_mute := b\<rparr>"

definition adev_get_input_buffer_size :: "u32 \<Rightarrow> u32 \<Rightarrow> u32" where
  "adev_get_input_buffer_size bytes_per_sample msk =
     (let s = 256 * bytes_per_sample * of_nat (popcount msk) in if s > 1024 then 1024 else s)"

definition adev_close :: "audio_dev \<Rightarrow> snd_req list" where
  "adev_close d = free_audio_config (Some (ad_cm d))"

text \<open>\<open>loaded\<close> is what \<open>init_audio_config\<close> returned.\<close>

definition adev_open :: "hal_env \<Rightarrow> string \<Rightarrow> config_mgr option \<Rightarrow> int \<times> audio_dev option" where
  "adev_open E name loaded =
     (if name \<noteq> ''audio_hw_if'' then (- EINVAL, None)
      else case loaded of
             None \<Rightarrow> (- EINVAL, None)
           | Some cm \<Rightarrow>
               (case get_named_stream (he_alsa E) ''global'' cm of
                  (g, cm) \<Rightarrow>
                    (0, Some (voice_trigger_init
                      \<lparr>ad_cm = cm, ad_mic_mute = False, ad_active_voice_control = None, ad_voice_st = eVoiceNone,
                       ad_voice_trig_mic = 0, ad_global_stream = g, ad_voice_stream = None, ad_plog = [], ad_clog = []\<rparr>))))"

end
