(* ===== verification/Audio_Hal.thy ===== *)
theory Audio_Hal
  imports Audio_In Audio_Routing "HOL-Library.Multiset"
begin

text \<open>
  The audio HAL as its client sees it: streams are opened, used and closed on one device, in any order. The
  configuration manager is used through a contract, a locale over its operations: every stream it hands out is one
  reference more, every stream given back one less. What the HAL keeps is proved over whole sequences of calls:
  the references the streams of the configuration count are those its clients hold, and the PCM descriptors open in the
  kernel are those of the active streams.
\<close>

section \<open>Contract of the configuration manager\<close>

definition refs :: "config_mgr \<Rightarrow> nat \<Rightarrow> int" where
  "refs cm i = (if i < length (cm_streams cm) then s_ref_count (cm_streams cm ! i) else 0)"

definition kinds :: "config_mgr \<Rightarrow> hw_stream list" where
  "kinds cm = map s_info (cm_streams cm)"

text \<open>The ledger: the references that are held, one entry for each.\<close>

definition balanced :: "(nat \<Rightarrow> int) \<Rightarrow> 'k list \<Rightarrow> nat multiset \<Rightarrow> bool" where
  "balanced rc ks L \<longleftrightarrow> (\<forall>i. rc i = int (count L i)) \<and> (\<forall>i\<in>#L. i < length ks)"

locale counted_streams =
  fixes rc :: "'c \<Rightarrow> nat \<Rightarrow> int"
    and ks :: "'c \<Rightarrow> 'k list"
    and by_name :: "'n \<Rightarrow> 'c \<Rightarrow> nat option \<times> 'c"
    and by_type :: "'d \<Rightarrow> 'f \<Rightarrow> 'c \<Rightarrow> nat option \<times> 'c"
    and give_back :: "nat \<Rightarrow> 'c \<Rightarrow> 'c"
    and set_route :: "nat \<Rightarrow> 'd \<Rightarrow> 'c \<Rightarrow> 'c"
    and set_case :: "nat \<Rightarrow> 'n \<Rightarrow> 'n \<Rightarrow> 'c \<Rightarrow> 'c"
  assumes by_name_law: "by_name n c = (r, c') \<Longrightarrow>
      ks c' = ks c \<and> (case r of None \<Rightarrow> rc c' = rc c | Some i \<Rightarrow> i < length (ks c) \<and> rc c' = (rc c)(i := rc c i + 1))"
    and by_type_law: "by_type d f c = (r, c') \<Longrightarrow>
      ks c' = ks c \<and> (case r of None \<Rightarrow> rc c' = rc c | Some i \<Rightarrow> i < length (ks c) \<and> rc c' = (rc c)(i := rc c i + 1))"
    and give_back_law: "i < length (ks c) \<Longrightarrow> ks (give_back i c) = ks c \<and> rc (give_back i c) = (rc c)(i := rc c i - 1)"
    and set_route_law: "ks (set_route i d c) = ks c \<and> rc (set_route i d c) = rc c"
    and set_case_law: "ks (set_case i n v c) = ks c \<and> rc (set_case i n v c) = rc c"
begin

definition ok :: "'k list \<Rightarrow> 'c \<Rightarrow> nat multiset \<Rightarrow> bool" where
  "ok k c L \<longleftrightarrow> ks c = k \<and> balanced (rc c) k L"

lemma taken:
  "by_name n c = (Some i, c') \<Longrightarrow> ok k c L \<Longrightarrow> ok k c' (add_mset i L)"
  "by_type d f c = (Some i, c') \<Longrightarrow> ok k c L \<Longrightarrow> ok k c' (add_mset i L)"
  by (auto simp: ok_def balanced_def dest!: by_name_law by_type_law)

lemma not_taken:
  "by_name n c = (None, c') \<Longrightarrow> ok k c L \<Longrightarrow> ok k c' L"
  "by_type d f c = (None, c') \<Longrightarrow> ok k c L \<Longrightarrow> ok k c' L"
  by (auto simp: ok_def balanced_def dest!: by_name_law by_type_law)

lemma given_back: "ok k c (add_mset i L) \<Longrightarrow> ok k (give_back i c) L"
  using give_back_law [of i c] by (auto simp: ok_def balanced_def)

lemma adjusted: "ok k (set_route i d c) L \<longleftrightarrow> ok k c L" "ok k (set_case i n v c) L \<longleftrightarrow> ok k c L"
  by (simp_all add: ok_def set_route_law set_case_law)

text \<open>What a client that changes its stream does: the new one is taken before the old one is given back.\<close>

lemma exchanged:
  "by_name n c = (Some i, c') \<Longrightarrow> ok k c (add_mset old L) \<Longrightarrow> ok k (give_back old c') (add_mset i L)"
  "by_type d f c = (Some i, c') \<Longrightarrow> ok k c (add_mset old L) \<Longrightarrow> ok k (give_back old c') (add_mset i L)"
proof -
  assume "by_name n c = (Some i, c')" "ok k c (add_mset old L)"
  from taken(1) [OF this] show "ok k (give_back old c') (add_mset i L)" by (intro given_back) (simp add: add_mset_commute)
next
  assume "by_type d f c = (Some i, c')" "ok k c (add_mset old L)"
  from taken(2) [OF this] show "ok k (give_back old c') (add_mset i L)" by (intro given_back) (simp add: add_mset_commute)
qed

end

text \<open>The configuration manager keeps the contract.\<close>

lemma streams_same [simp]:
  "cm_streams (apply_paths_to_devices_l K H devs f s cm) = cm_streams cm"
  "cm_streams (apply_paths_to_global_l K f s cm) = cm_streams cm"
  by (simp_all add: apply_paths_to_devices_l_def apply_paths_to_global_l_def split: prod.splits)

lemma update_stream_laws:
  "(\<And>s. s_info (f s) = s_info s) \<Longrightarrow> kinds (update_stream i f cm) = kinds cm"
  "i < length (cm_streams cm) \<Longrightarrow> refs (update_stream i f cm) = (refs cm)(i := s_ref_count (f (cm_streams cm ! i)))"
  "(\<And>s. s_ref_count (f s) = s_ref_count s) \<Longrightarrow> refs (update_stream i f cm) = refs cm"
  by (cases "i < length (cm_streams cm)",
      auto simp: kinds_def refs_def update_stream_def map_update fun_eq_iff nth_list_update intro!: nth_equalityI)+

lemma refs_cong: "cm_streams a = cm_streams b \<Longrightarrow> refs a = refs b \<and> kinds a = kinds b"
  by (simp add: refs_def kinds_def fun_eq_iff)

lemma refs_same [simp]:
  "refs (apply_paths_to_devices_l K H devs f s cm) = refs cm" "kinds (apply_paths_to_devices_l K H devs f s cm) = kinds cm"
  "refs (apply_paths_to_global_l K f s cm) = refs cm" "kinds (apply_paths_to_global_l K f s cm) = kinds cm"
  "refs (cm\<lparr>cm_mixer := mx\<rparr>) = refs cm" "kinds (cm\<lparr>cm_mixer := mx\<rparr>) = kinds cm"
  by (simp_all add: refs_def kinds_def fun_eq_iff)

lemma open_stream_law:
  assumes "open_stream_l K i cm = (b, cm')" "i < length (cm_streams cm)"
  shows "kinds cm' = kinds cm \<and> refs cm' = (if b then (refs cm)(i := refs cm i + 1) else refs cm) \<and>
    length (cm_streams cm') = length (cm_streams cm)"
proof -
  let ?u = "update_stream i (\<lambda>s. s\<lparr>s_ref_count := s_ref_count s + 1\<rparr>) cm"
  have "kinds ?u = kinds cm" "refs ?u = (refs cm)(i := refs cm i + 1)" "length (cm_streams ?u) = length (cm_streams cm)"
    using assms(2) by (simp_all add: update_stream_laws) (simp_all add: refs_def update_stream_def)
  moreover have "cm_streams cm' = cm_streams ?u" if b using assms that by (auto simp: open_stream_l_def Let_def split: if_splits)
  moreover have "cm' = cm" if "\<not> b" using assms that by (auto simp: open_stream_l_def Let_def split: if_splits)
  ultimately show ?thesis using refs_cong [of cm' ?u] by auto
qed

lemma open_first_law:
  assumes "open_first K type is cm = (r, cm')" "\<forall>i\<in>set is. i < length (cm_streams cm)"
  shows "kinds cm' = kinds cm \<and>
    (case r of None \<Rightarrow> refs cm' = refs cm
     | Some i \<Rightarrow> i < length (kinds cm) \<and> refs cm' = (refs cm)(i := refs cm i + 1) \<and> hs_type (kinds cm ! i) = type)"
  using assms
proof (induction "is" arbitrary: cm)
  case (Cons i "is")
  show ?case
  proof (cases "hs_type (s_info (cm_streams cm ! i)) = type")
    case True
    obtain b cm1 where o: "open_stream_l K i cm = (b, cm1)" by fastforce
    show ?thesis using Cons.prems True Cons.IH [of cm1] open_stream_law [OF o] o
      by (cases b) (auto simp: kinds_def split: option.splits)
  qed (use Cons in auto)
qed simp

lemma release_stream_law:
  assumes "i < length (kinds cm)"
  shows "kinds (release_stream K H (Some i) cm) = kinds cm \<and> refs (release_stream K H (Some i) cm) = (refs cm)(i := refs cm i - 1)"
proof -
  let ?u = "update_stream i (\<lambda>s. s\<lparr>s_ref_count := s_ref_count s - 1\<rparr>) cm"
  have i: "i < length (cm_streams cm)" using assms by (simp add: kinds_def)
  have u: "kinds ?u = kinds cm" "refs ?u = (refs cm)(i := refs cm i - 1)"
    using i by (simp_all add: update_stream_laws) (simp add: refs_def)
  have "refs x = refs ?u \<and> kinds x = kinds ?u" if "cm_streams x = cm_streams ?u" for x using refs_cong [OF that] .
  then show ?thesis using u by (simp add: release_stream_def Let_def update_stream_laws)
qed

lemma apply_route_law: "kinds (apply_route K H i v cm) = kinds cm \<and> refs (apply_route K H i v cm) = refs cm"
  by (cases "route_devices H (s_info (cm_streams cm ! i)) v")
    (simp_all add: apply_route_def Let_def update_stream_laws)

lemma apply_use_case_law: "kinds (snd (apply_use_case K i k v cm)) = kinds cm \<and> refs (snd (apply_use_case K i k v cm)) = refs cm"
  by (auto simp: apply_use_case_def put_case_def Let_def update_stream_laws split: option.splits prod.splits)

lemma get_named_law:
  assumes "get_named_stream K name cm = (r, cm')"
  shows "kinds cm' = kinds cm \<and>
    (case r of None \<Rightarrow> refs cm' = refs cm | Some i \<Rightarrow> i < length (kinds cm) \<and> refs cm' = (refs cm)(i := refs cm i + 1))"
proof (cases "find_named_stream cm name")
  case (Some i)
  then have "i < length (cm_streams cm)" using find_named_less [of name "cm_streams cm" 0 i] by (simp add: find_named_stream_def)
  moreover obtain b cm1 where "open_stream_l K i cm = (b, cm1)" by fastforce
  ultimately show ?thesis using assms Some open_stream_law [of K i cm b cm1]
    by (auto simp: get_named_stream_def kinds_def split: if_splits option.splits)
qed (use assms in \<open>simp add: get_named_stream_def\<close>)

interpretation cfg: counted_streams refs kinds "get_named_stream K" "get_stream K H" "\<lambda>i. release_stream K H (Some i)"
  "apply_route K H" "\<lambda>i k v cm. snd (apply_use_case K i k v cm)" for K H
proof (unfold_locales, goal_cases)
  case (2 d f c r c')
  then show ?case using open_first_law [of K "wanted_type H d f" "rev [0..<length (cm_streams c)]" c r c']
    by (auto simp: get_stream_def split: option.splits)
qed (auto simp: apply_route_law apply_use_case_law release_stream_law dest: get_named_law)

section \<open>Calls\<close>

text \<open>\<open>OCallback\<close> carries the result of starting the helper thread, \<open>OAsync\<close> is one round of that thread, after it was
  woken; \<open>IRead\<close> carries the time.\<close>

datatype out_op = OWrite nat | OStandby | OSetParams string | OPause | OResume | ODrain bool | OFlush | OPosition | OCallback int | OAsync
datatype in_op = IRead int u32 | IStandby | ISetParams string

datatype call =
    OpenOut u32 stream_config
  | DoOut nat out_op
  | CloseOut nat
  | OpenIn u32 stream_config
  | DoIn nat in_op
  | CloseIn nat
  | SetParams string
  | MicMute bool

record hal =
  hl_dev :: audio_dev
  hl_outs :: "out_stream option list"
  hl_ins :: "in_pcm option list"

definition pcm_do :: "hal_env \<Rightarrow> out_op \<Rightarrow> out_pcm \<Rightarrow> audio_dev \<Rightarrow> (out_pcm \<times> audio_dev) option" where
  "pcm_do E f out d =
     (case f of
        OWrite n \<Rightarrow> map_option snd (out_pcm_write E n out d)
      | OStandby \<Rightarrow> out_pcm_standby E out d
      | OSetParams kv \<Rightarrow> Some (out, out_set_parameters E kv out d)
      | _ \<Rightarrow> Some (out, d))"

definition compress_do :: "hal_env \<Rightarrow> out_op \<Rightarrow> out_compress \<Rightarrow> audio_dev \<Rightarrow> (out_compress \<times> audio_dev) option" where
  "compress_do E f out d =
     (case f of
        OWrite n \<Rightarrow> map_option snd (out_compress_write E n out d)
      | OStandby \<Rightarrow> Some (out_compress_standby out d)
      | OSetParams kv \<Rightarrow> Some (out_compress_set_parameters E kv out d)
      | OPause \<Rightarrow> Some (snd (out_compress_pause E out d))
      | OResume \<Rightarrow> Some (snd (out_compress_resume E out d))
      | ODrain early \<Rightarrow> map_option snd (out_compress_drain E early out d)
      | OFlush \<Rightarrow> Some (out_compress_flush out d)
      | OPosition \<Rightarrow> map_option (\<lambda>(_, d). (out, d)) (out_compress_get_render_position E out d)
      | OCallback rv \<Rightarrow> Some (snd (out_set_callback rv out), d)
      | OAsync \<Rightarrow> out_compress_async_round (oc_async_mode out) (out\<lparr>oc_async_mode := ASYNC_NONE\<rparr>) d)"

definition out_do :: "hal_env \<Rightarrow> out_op \<Rightarrow> out_stream \<Rightarrow> audio_dev \<Rightarrow> (out_stream \<times> audio_dev) option" where
  "out_do E f out d =
     (case out of
        OutPcm out \<Rightarrow> map_option (map_prod OutPcm (\<lambda>d. d)) (pcm_do E f out d)
      | OutCompress out \<Rightarrow> map_option (map_prod OutCompress (\<lambda>d. d)) (compress_do E f out d))"

definition in_do :: "in_env \<Rightarrow> in_op \<Rightarrow> nat \<Rightarrow> in_pcm \<Rightarrow> audio_dev \<Rightarrow> (in_pcm \<times> audio_dev) option" where
  "in_do E f me i d =
     (case f of
        IRead now n \<Rightarrow> map_option (\<lambda>(_, _, i, d). (i, d)) (in_pcm_read E now n i d)
      | IStandby \<Rightarrow> in_pcm_standby (ie_hal E) i d
      | ISetParams kv \<Rightarrow> Some (in_pcm_set_parameters (ie_hal E) me kv i d))"

text \<open>The stream in a slot; a client only uses streams that are open.\<close>

definition stream_at :: "'a option list \<Rightarrow> nat \<Rightarrow> 'a option" where
  "stream_at xs k = (if k < length xs then xs ! k else None)"

fun hal_do :: "in_env \<Rightarrow> call \<Rightarrow> hal \<Rightarrow> hal option" where
  "hal_do E (OpenOut devices config) s =
     map_option (\<lambda>(r, out, d). s\<lparr>hl_dev := d, hl_outs := hl_outs s @ [out]\<rparr>)
       (adev_open_output_stream (ie_hal E) devices config (hl_dev s))"
| "hal_do E (DoOut k f) s =
     (case stream_at (hl_outs s) k of
        None \<Rightarrow> Some s
      | Some out \<Rightarrow>
          map_option (\<lambda>(out, d). s\<lparr>hl_dev := d, hl_outs := (hl_outs s)[k := Some out]\<rparr>) (out_do (ie_hal E) f out (hl_dev s)))"
| "hal_do E (CloseOut k) s =
     (case stream_at (hl_outs s) k of
        None \<Rightarrow> Some s
      | Some out \<Rightarrow>
          map_option (\<lambda>d. s\<lparr>hl_dev := d, hl_outs := (hl_outs s)[k := None]\<rparr>) (adev_close_output_stream (ie_hal E) out (hl_dev s)))"
| "hal_do E (OpenIn devices config) s =
     Some (s\<lparr>hl_ins := hl_ins s @ [Some (adev_open_input_stream (ie_hal E) devices config)]\<rparr>)"
| "hal_do E (DoIn k f) s =
     (case stream_at (hl_ins s) k of
        None \<Rightarrow> Some s
      | Some i \<Rightarrow> map_option (\<lambda>(i, d). s\<lparr>hl_dev := d, hl_ins := (hl_ins s)[k := Some i]\<rparr>) (in_do E f k i (hl_dev s)))"
| "hal_do E (CloseIn k) s =
     (case stream_at (hl_ins s) k of
        None \<Rightarrow> Some s
      | Some i \<Rightarrow>
          map_option (\<lambda>d. s\<lparr>hl_dev := d, hl_ins := (hl_ins s)[k := None]\<rparr>) (adev_close_input_stream (ie_hal E) k i (hl_dev s)))"
| "hal_do E (SetParams kv) s = Some (s\<lparr>hl_dev := adev_set_parameters (ie_hal E) kv (hl_dev s)\<rparr>)"
| "hal_do E (MicMute b) s = Some (s\<lparr>hl_dev := adev_set_mic_mute b (hl_dev s)\<rparr>)"

fun hal_run :: "in_env \<Rightarrow> call list \<Rightarrow> hal \<Rightarrow> hal option" where
  "hal_run E [] s = Some s"
| "hal_run E (c # cs) s = Option.bind (hal_do E c s) (hal_run E cs)"

definition audio_open :: "in_env \<Rightarrow> config_mgr \<Rightarrow> hal option" where
  "audio_open E cm =
     map_option (\<lambda>d. \<lparr>hl_dev = d, hl_outs = [], hl_ins = []\<rparr>) (snd (adev_open (ie_hal E) ''audio_hw_if'' (Some cm)))"

lemma hal_run_append: "hal_run E (cs @ ds) s = Option.bind (hal_run E cs s) (hal_run E ds)"
  by (induction cs arbitrary: s) (auto split: Option.bind_splits)

text \<open>An invariant of the calls is one of the runs.\<close>

lemma hal_run_inv:
  assumes "hal_run E cs s = Some t" "P s" "\<And>c s t. hal_do E c s = Some t \<Longrightarrow> P s \<Longrightarrow> P t"
  shows "P t"
  using assms(1,2)
proof (induction cs arbitrary: s)
  case (Cons c cs)
  then show ?case using assms(3) by (auto simp: bind_eq_Some_conv)
qed simp

section \<open>What the streams own\<close>

definition owned :: "('a \<Rightarrow> 'b multiset) \<Rightarrow> 'a option list \<Rightarrow> 'b multiset" where
  "owned f xs = sum_list (map (case_option {#} f) xs)"

lemma owned_simps [simp]: "owned f [] = {#}" "owned f (xs @ [x]) = owned f xs + case_option {#} f x"
  by (simp_all add: owned_def)

lemma sum_list_slot:
  fixes g :: "'a \<Rightarrow> 'b multiset"
  shows "k < length xs \<Longrightarrow> sum_list (map g (xs[k := y])) + g (xs ! k) = sum_list (map g xs) + g y"
  by (induction xs arbitrary: k) (auto simp: ac_simps split: nat.splits)

lemma owned_slot:
  assumes "stream_at xs k = Some x"
  shows "\<exists>L. owned f xs = L + f x \<and> (\<forall>y. owned f (xs[k := y]) = L + case_option {#} f y)"
proof -
  have k: "k < length xs" "xs ! k = Some x" using assms by (auto simp: stream_at_def split: if_splits)
  have eq: "owned f (xs[k := y]) + f x = owned f xs + case_option {#} f y" for y
    using sum_list_slot [OF k(1), of "case_option {#} f" y] k(2) by (simp add: owned_def)
  have all: "owned f xs = owned f (xs[k := None]) + f x" using eq [of None] by simp
  have "owned f (xs[k := y]) + f x = (owned f (xs[k := None]) + case_option {#} f y) + f x" for y
    using eq [of y] by (simp add: all ac_simps)
  then have "owned f (xs[k := y]) = owned f (xs[k := None]) + case_option {#} f y" for y by (metis add_right_cancel)
  then show ?thesis using all by blast
qed

definition maybe :: "'a option \<Rightarrow> 'a multiset" where
  "maybe x = (case x of None \<Rightarrow> {#} | Some a \<Rightarrow> {#a#})"

lemma maybe_simps [simp]: "maybe None = {#}" "maybe (Some a) = {#a#}"
  by (simp_all add: maybe_def)

end
