(* ===== verification/Audio_Resources.thy ===== *)
theory Audio_Resources
  imports Audio_Hal
begin

text \<open>
  What the audio HAL owns in the kernel: the descriptors of the PCM devices, over any sequence of calls; and which
  calls of an output stream can fail to return.
\<close>

section \<open>Descriptors of the streams\<close>

definition fds :: "hal_env \<Rightarrow> audio_dev \<Rightarrow> int multiset" where
  "fds E d = mset (pcm_fds (he_pcm E) (ad_plog d))"

fun out_fds :: "out_stream \<Rightarrow> int multiset" where
  "out_fds (OutPcm out) = (case op_pcm out of Live p \<Rightarrow> {#pc_fd p#} | _ \<Rightarrow> {#})"
| "out_fds (OutCompress out) = {#}"

definition in_fds :: "in_pcm \<Rightarrow> int multiset" where
  "in_fds i = (case ip_handle i of HPcm p \<Rightarrow> {#pc_fd p#} | _ \<Rightarrow> {#})"

text \<open>A stream that is active has a PCM that is ready; one in standby has none.\<close>

fun out_ok :: "out_stream \<Rightarrow> bool" where
  "out_ok (OutPcm out) \<longleftrightarrow>
     (case op_pcm out of Live p \<Rightarrow> \<not> oc_standby out \<and> pcm_is_ready p \<and> pc_flags p = PCM_OUT | _ \<Rightarrow> oc_standby out)"
| "out_ok (OutCompress out) \<longleftrightarrow> (ox_started out \<longrightarrow> ox_compress out \<noteq> None)"

definition in_ok :: "in_pcm \<Rightarrow> bool" where
  "in_ok i \<longleftrightarrow> (case ip_handle i of HPcm p \<Rightarrow> \<not> ic_standby i \<and> pcm_is_ready p \<and> ic_hw i \<noteq> None | _ \<Rightarrow> True)"

text \<open>\<open>L\<close> are the descriptors of the others.\<close>

definition owns_out :: "hal_env \<Rightarrow> int multiset \<Rightarrow> out_stream \<Rightarrow> audio_dev \<Rightarrow> bool" where
  "owns_out E L out d \<longleftrightarrow> out_ok out \<and> fds E d = L + out_fds out"

definition owns_in :: "hal_env \<Rightarrow> int multiset \<Rightarrow> in_pcm \<Rightarrow> audio_dev \<Rightarrow> bool" where
  "owns_in E L i d \<longleftrightarrow> in_ok i \<and> fds E d = L + in_fds i"

lemma fds_plog: "ad_plog d' = ad_plog d \<Longrightarrow> fds E d' = fds E d"
  by (simp add: fds_def)

lemma fds_extends: "extends (ad_plog d) l \<Longrightarrow> fds E (d\<lparr>ad_plog := l\<rparr>) = fds E d"
  by (simp add: fds_def extends_fds)

lemma fds_open:
  assumes "pcm_open (he_pcm E) c n flags config (ad_plog d) = Some (p, l)"
  shows "fds E (d\<lparr>ad_plog := l\<rparr>) = (if pcm_is_ready p then add_mset (pc_fd p) (fds E d) else fds E d)" "pc_flags p = flags"
  using pcm_open_fds [OF assms] by (auto simp: fds_def)

lemma fds_close: "fds E (d\<lparr>ad_plog := pcm_close (he_pcm E) p l\<rparr>) =
    (if pcm_is_ready p then fds E (d\<lparr>ad_plog := l\<rparr>) - {#pc_fd p#} else fds E (d\<lparr>ad_plog := l\<rparr>))"
  by (simp add: fds_def pcm_close_fds)

section \<open>Output streams\<close>

lemma start_output_pcm_owns:
  assumes "start_output_pcm E out d = Some (r, out', d')" "owns_out E L (OutPcm out) d" "oc_standby out"
  shows "if r = 0 then owns_out E L (OutPcm (out'\<lparr>oc_standby := False\<rparr>)) d' else owns_out E L (OutPcm out') d'"
proof -
  obtain p l where p: "pcm_open (he_pcm E) (hs_card_number (hw_info d (oc_hw out))) (hs_device_number (hw_info d (oc_hw out))) PCM_OUT
      (Some (out_pcm_config d out)) (ad_plog d) = Some (p, l)"
    using assms(1) by (auto simp: start_output_pcm_def Let_def split: option.splits)
  have L: "fds E d = L" using assms(2,3) by (auto simp: owns_out_def split: pointer.splits)
  show ?thesis
  proof (cases "pcm_is_ready p")
    case True
    then have "r = 0" "out' = out_pcm_fill_params p (out_pcm_config d out) (out\<lparr>op_pcm := Live p\<rparr>)" "d' = d\<lparr>ad_plog := l\<rparr>"
      using assms(1) p by (simp_all add: start_output_pcm_def Let_def)
    then show ?thesis using True fds_open [OF p] L by (simp add: owns_out_def out_pcm_fill_params_def)
  next
    case False
    then have "r = - ENOMEM" "out' = out\<lparr>op_pcm := Dangling\<rparr>" "d' = d\<lparr>ad_plog := pcm_close (he_pcm E) p l\<rparr>"
      using assms(1) p by (simp_all add: start_output_pcm_def Let_def)
    then show ?thesis using False fds_open(1) [OF p] fds_close [of E p l d] L assms(3) by (simp add: owns_out_def)
  qed
qed

lemma write_frames_owns:
  assumes "write_frames E n out d = Some (r, out', d')" "owns_out E L (OutPcm out) d"
  shows "owns_out E L (OutPcm out') d'"
proof -
  obtain p q k l where p: "op_pcm out = Live p" "pcm_writei (he_pcm E) (unat (pcm_bytes_to_frames p (of_nat n))) p (ad_plog d) = Some (k, q, l)"
    using assms(1) by (auto simp: write_frames_def split: pointer.splits option.splits)
  then have "out' = out\<lparr>op_pcm := Live q\<rparr>" "d' = d\<lparr>ad_plog := l\<rparr>" using assms(1) by (simp_all add: write_frames_def)
  then show ?thesis using assms(2) p(1) transfer_extends(1) [OF p(2)] fds_extends [of d l E]
    by (simp add: owns_out_def same_handle_def pcm_is_ready_def)
qed

lemma out_pcm_standby_owns:
  assumes "out_pcm_standby E out d = Some (out', d')" "owns_out E L (OutPcm out) d"
  shows "owns_out E L (OutPcm out') d' \<and> oc_standby out' \<and> oc_hw out' = oc_hw out \<and> ad_cm d' = ad_cm d"
proof (cases "oc_standby out")
  case False
  then obtain p where p: "op_pcm out = Live p" using assms(1)
    by (auto simp: out_pcm_standby_def do_out_pcm_standby_def split: pointer.splits)
  then show ?thesis using assms False fds_close [of E p "ad_plog d" d]
    by (auto simp: out_pcm_standby_def do_out_pcm_standby_def owns_out_def)
qed (use assms in \<open>auto simp: out_pcm_standby_def do_out_pcm_standby_def\<close>)

lemma out_pcm_write_owns:
  assumes "out_pcm_write E n out d = Some (r, out', d')" "owns_out E L (OutPcm out) d"
  shows "owns_out E L (OutPcm out') d'"
proof (cases "get_current_routes (ad_cm d) (oc_hw out) = 0")
  case False
  show ?thesis
  proof (cases "oc_standby out")
    case True
    obtain k out1 d1 where s: "start_output_pcm E out d = Some (k, out1, d1)"
      using assms(1) False True by (auto simp: out_pcm_write_def split: option.splits)
    note start_output_pcm_owns [OF s assms(2) True]
    then show ?thesis using assms(1) False True s write_frames_owns by (auto simp: out_pcm_write_def split: if_splits)
  qed (use assms False write_frames_owns in \<open>auto simp: out_pcm_write_def\<close>)
qed (use assms in \<open>simp add: out_pcm_write_def\<close>)

lemma set_parameters_plog [simp]: "ad_plog (out_set_parameters E kv out d) = ad_plog d"
  by (simp add: out_set_parameters_def Let_def)

lemma pcm_do_owns:
  assumes "pcm_do E f out d = Some (out', d')" "owns_out E L (OutPcm out) d"
  shows "owns_out E L (OutPcm out') d'"
proof (cases f)
  case (OWrite n)
  then show ?thesis using assms out_pcm_write_owns by (auto simp: pcm_do_def)
next
  case OStandby
  then show ?thesis using assms out_pcm_standby_owns by (auto simp: pcm_do_def)
qed (use assms in \<open>auto simp: pcm_do_def owns_out_def fds_def\<close>)

lemma creq_plog [simp]: "ad_plog (creq r d) = ad_plog d" "ad_cm (creq r d) = ad_cm d"
  by (simp_all add: creq_def)

lemma standby_compress_owns: "do_standby_compress_l out d = (out', d') \<Longrightarrow>
    ad_plog d' = ad_plog d \<and> ad_cm d' = ad_cm d \<and> oc_hw out' = oc_hw out \<and> (out_ok (OutCompress out) \<longrightarrow> out_ok (OutCompress out'))"
  by (auto simp: do_standby_compress_l_def Let_def split: option.splits if_splits)

lemma open_compress_owns: "open_output_compress E out d = (r, out', d') \<Longrightarrow>
    ad_plog d' = ad_plog d \<and> ad_cm d' = ad_cm d \<and> oc_hw out' = oc_hw out \<and> (out_ok (OutCompress out) \<longrightarrow> out_ok (OutCompress out')) \<and>
    (r \<ge> 0 \<longrightarrow> ox_compress out' \<noteq> None)"
  by (auto simp: open_output_compress_def Let_def split: if_splits)

lemma start_compress_owns: "start_output_compress E h out d = (r, out', d') \<Longrightarrow> ox_compress out \<noteq> None \<Longrightarrow>
    ad_plog d' = ad_plog d \<and> ad_cm d' = ad_cm d \<and> oc_hw out' = oc_hw out \<and> (out_ok (OutCompress out) \<longrightarrow> out_ok (OutCompress out'))"
  using standby_compress_owns [of out "creq (CStart h) d"]
  by (auto simp: start_output_compress_def Let_def split: if_splits prod.splits)

lemma signal_keeps [simp]: "ox_started (snd (signal_async_thread m out)) = ox_started out"
  "ox_compress (snd (signal_async_thread m out)) = ox_compress out" "oc_hw (snd (signal_async_thread m out)) = oc_hw out"
  by (simp_all add: signal_async_thread_def)

lemma compress_write_owns:
  assumes "out_compress_write E n out d = Some (r, out', d')" "out_ok (OutCompress out)"
  shows "ad_plog d' = ad_plog d \<and> ad_cm d' = ad_cm d \<and> oc_hw out' = oc_hw out \<and> out_ok (OutCompress out')"
proof -
  obtain k out1 d1 where o: "open_output_compress E out d = (k, out1, d1)" by (metis prod_cases3)
  note 1 = open_compress_owns [OF o]
  show ?thesis
  proof (cases "k < 0")
    case False
    then obtain h where h: "ox_compress out1 = Some h" using 1 by auto
    define d2 where "d2 = creq (CWrite h n) d1"
    obtain q out2 d3 where st: "(if ox_started out1 then (0, out1, d2) else start_output_compress E h out1 d2) = (q, out2, d3)"
      by (metis prod_cases3)
    have 2: "ad_plog d3 = ad_plog d2 \<and> ad_cm d3 = ad_cm d2 \<and> oc_hw out2 = oc_hw out1 \<and> out_ok (OutCompress out2)"
      using st start_compress_owns [of E h out1 d2 q out2 d3] 1 h assms(2) by (auto split: if_splits)
    have d2: "ad_plog d2 = ad_plog d" "ad_cm d2 = ad_cm d" using 1 by (simp_all add: d2_def)
    have run: "(if cret E d2 < 0 then Some (cret E d2, out1, d2)
        else case (if ox_started out1 then (0, out1, d2) else start_output_compress E h out1 d2) of
          (s, out, d) \<Rightarrow> if s < 0 then Some (- 1, out, d)
            else if oc_use_async out \<and> nat (cret E d2) < n then Some (cret E d2, snd (signal_async_thread ASYNC_POLL out), d)
            else Some (cret E d2, out, d)) = Some (r, out', d')"
      using assms(1) False h unfolding out_compress_write_def o Let_def d2_def by simp
    show ?thesis using run 1 2 d2 assms(2) unfolding st by (auto split: if_splits)
  qed (use assms o 1 in \<open>auto simp: out_compress_write_def\<close>)
qed

lemma compress_do_keeps:
  assumes "compress_do E f out d = Some (out', d')" "out_ok (OutCompress out)"
  shows "ad_plog d' = ad_plog d \<and> oc_hw out' = oc_hw out \<and> out_ok (OutCompress out')"
proof (cases f)
  case (OWrite n)
  then show ?thesis using assms compress_write_owns by (auto simp: compress_do_def)
next
  case OStandby
  then show ?thesis using assms standby_compress_owns [of out d out' d'] by (auto simp: compress_do_def out_compress_standby_def)
next
  case (ODrain b)
  show ?thesis
  proof (cases "oc_use_async out")
    case True
    then show ?thesis using assms ODrain by (auto simp: compress_do_def out_compress_drain_def signal_async_thread_def split: if_splits)
  qed (use assms ODrain in \<open>auto simp: compress_do_def out_compress_drain_def Let_def split: option.splits if_splits\<close>)
next
  case OAsync
  then show ?thesis using assms
    by (cases "oc_async_mode out") (auto simp: compress_do_def out_compress_async_round_def split: option.splits)
next
  case (OSetParams kv)
  then show ?thesis using assms by (auto simp: compress_do_def out_compress_set_parameters_def Let_def split: option.splits)
next
  case (OCallback rv)
  then show ?thesis using assms by (auto simp: compress_do_def out_set_callback_def Let_def split: if_splits)
qed (use assms in \<open>auto simp: compress_do_def out_compress_pause_def out_compress_resume_def out_compress_flush_def
      out_compress_get_render_position_def Let_def split: option.splits if_splits\<close>)

lemma out_do_owns:
  assumes "out_do E f out d = Some (out', d')" "owns_out E L out d"
  shows "owns_out E L out' d'"
proof (cases out)
  case (OutPcm o1)
  then obtain o2 where "pcm_do E f o1 d = Some (o2, d')" "out' = OutPcm o2" using assms(1) by (auto simp: out_do_def)
  then show ?thesis using pcm_do_owns assms(2) OutPcm by simp
next
  case (OutCompress o1)
  then obtain o2 where "compress_do E f o1 d = Some (o2, d')" "out' = OutCompress o2" using assms(1) by (auto simp: out_do_def)
  then show ?thesis using compress_do_keeps [of E f o1 d o2 d'] assms(2) OutCompress fds_plog [of d' d E] by (simp add: owns_out_def)
qed

lemma close_common_plog: "do_close_out_common E out d = Some d' \<Longrightarrow> ad_plog d' = ad_plog d"
  by (auto simp: do_close_out_common_def split: if_splits)

lemma close_out_owns:
  assumes "adev_close_output_stream E out d = Some d'" "owns_out E L out d"
  shows "fds E d' = L"
proof (cases out)
  case (OutPcm o1)
  then obtain o2 d2 where o2: "out_pcm_standby E o1 d = Some (o2, d2)" "do_close_out_common E o2 d2 = Some d'"
    using assms(1) by (auto simp: adev_close_output_stream_def do_close_out_pcm_def bind_eq_Some_conv)
  have "owns_out E L (OutPcm o2) d2 \<and> oc_standby o2" using out_pcm_standby_owns [OF o2(1)] assms(2) OutPcm by simp
  then show ?thesis using close_common_plog [OF o2(2)] fds_plog [of d' d2 E] by (auto simp: owns_out_def split: pointer.splits)
next
  case (OutCompress o1)
  obtain o2 d2 where o2: "out_compress_standby (o1\<lparr>ox_paused := False\<rparr>) d = (o2, d2)" by fastforce
  then have "ad_plog d' = ad_plog d" using assms(1) OutCompress standby_compress_owns [OF o2 [unfolded out_compress_standby_def]]
    by (auto simp: adev_close_output_stream_def out_compress_close_def dest: close_common_plog)
  then show ?thesis using assms(2) OutCompress fds_plog [of d' d E] by (simp add: owns_out_def)
qed

lemma init_common_plog [simp]: "do_init_out_common E config devices out d = (out', d') \<Longrightarrow> ad_plog d' = ad_plog d"
  by (auto simp: do_init_out_common_def)

lemma init_out_common_pcm:
  fixes out out' :: out_pcm
  shows "do_init_out_common E config devices out d = (out', d') \<Longrightarrow> op_pcm out' = op_pcm out \<and> oc_standby out' \<and> oc_hw out' = oc_hw out"
  by (auto simp: do_init_out_common_def)

lemma init_out_common_compress:
  fixes out out' :: out_compress
  shows "do_init_out_common E config devices out d = (out', d') \<Longrightarrow>
    ox_started out' = ox_started out \<and> ox_compress out' = ox_compress out \<and> oc_hw out' = oc_hw out"
  by (auto simp: do_init_out_common_def)

lemma new_out_simps [simp]: "op_pcm (new_out_pcm i) = Null" "oc_hw (new_out_pcm i) = i"
  "ox_compress (new_out_compress i) = None" "\<not> ox_started (new_out_compress i)" "oc_hw (new_out_compress i) = i"
  by (simp_all add: new_out_pcm_def new_out_compress_def new_out_def out_common.defs)

lemma init_compress_keeps:
  "do_init_out_compress E config out d = (r, out', d') \<Longrightarrow> ad_plog d' = ad_plog d \<and> ad_cm d' = ad_cm d \<and> oc_hw out' = oc_hw out \<and>
     (out_ok (OutCompress out) \<longrightarrow> out_ok (OutCompress out'))"
  by (auto simp: do_init_out_compress_def split: option.splits prod.splits dest!: open_compress_owns)

text \<open>The stream that is opened, with its stream of the configuration and what was done to the device.\<close>

lemma open_output_cases:
  assumes "adev_open_output_stream E devices config d = Some (r, out, d')"
  obtains cm where "get_stream (he_alsa E) (he_h E) (devices AND OUT_ALL (he_h E)) (cfg_format config) (ad_cm d) = (None, cm)"
      "out = None" "d' = d\<lparr>ad_cm := cm\<rparr>"
  | i cm o1 where "get_stream (he_alsa E) (he_h E) (devices AND OUT_ALL (he_h E)) (cfg_format config) (ad_cm d) = (Some i, cm)"
      "out = Some (OutPcm o1)" "op_pcm o1 = Null" "oc_standby o1" "oc_hw o1 = i"
      "d' = d\<lparr>ad_cm := apply_route (he_alsa E) (he_h E) i (devices AND OUT_ALL (he_h E)) cm\<rparr>"
  | i cm o1 where "get_stream (he_alsa E) (he_h E) (devices AND OUT_ALL (he_h E)) (cfg_format config) (ad_cm d) = (Some i, cm)"
      "out = Some (OutCompress o1)" "out_ok (OutCompress o1)" "oc_hw o1 = i"
      "ad_plog d' = ad_plog d" "ad_cm d' = apply_route (he_alsa E) (he_h E) i (devices AND OUT_ALL (he_h E)) cm"
      "ad_global_stream d' = ad_global_stream d" "ad_voice_stream d' = ad_voice_stream d" "ad_voice_st d' = ad_voice_st d"
  | i cm where "get_stream (he_alsa E) (he_h E) (devices AND OUT_ALL (he_h E)) (cfg_format config) (ad_cm d) = (Some i, cm)"
      "out = None" "ad_plog d' = ad_plog d" "ad_cm d' = apply_route (he_alsa E) (he_h E) i (devices AND OUT_ALL (he_h E)) cm"
      "ad_global_stream d' = ad_global_stream d" "ad_voice_stream d' = ad_voice_stream d" "ad_voice_st d' = ad_voice_st d"
proof -
  let ?dev = "devices AND OUT_ALL (he_h E)"
  obtain x cm where g: "get_stream (he_alsa E) (he_h E) ?dev (cfg_format config) (ad_cm d) = (x, cm)" by fastforce
  show ?thesis
  proof (cases x)
    case None
    then show ?thesis using assms g that(1) by (auto simp: adev_open_output_stream_def)
  next
    case (Some i)
    define d1 where "d1 = d\<lparr>ad_cm := cm\<rparr>"
    show ?thesis
    proof (cases "hs_type (hw_info d1 i) = e_stream_out_pcm")
      case True
      obtain o1 d2 where c: "do_init_out_common E config ?dev (new_out_pcm i) d1 = (o1, d2)" by fastforce
      obtain o2 where o2: "do_init_out_pcm E o1 d2 = Some o2" "out = Some (OutPcm o2)" "d' = d2"
        using assms g Some True c by (auto simp: adev_open_output_stream_def Let_def d1_def [symmetric])
      show ?thesis
      proof (rule that(2) [of i cm o2])
        show "d' = d\<lparr>ad_cm := apply_route (he_alsa E) (he_h E) i ?dev cm\<rparr>"
          using c o2(3) by (auto simp: do_init_out_common_def d1_def)
      qed (use g Some o2 init_out_common_pcm [OF c] in \<open>auto simp: do_init_out_pcm_def split: if_splits\<close>)
    next
      case False
      obtain o1 d2 where c: "do_init_out_common E config ?dev (new_out_compress i) d1 = (o1, d2)" by fastforce
      obtain k o2 d3 where o2: "do_init_out_compress E config o1 d2 = (k, o2, d3)" by (metis prod_cases3)
      have d2: "d2 = d1\<lparr>ad_cm := apply_route (he_alsa E) (he_h E) i ?dev cm\<rparr>" using c by (auto simp: do_init_out_common_def d1_def)
      have same: "ad_global_stream d3 = ad_global_stream d2" "ad_voice_stream d3 = ad_voice_stream d2" "ad_voice_st d3 = ad_voice_st d2"
        using o2 by (auto simp: do_init_out_compress_def open_output_compress_def Let_def creq_def split: option.splits prod.splits if_splits)
      have res: "out = (if k < 0 then None else Some (OutCompress o2))" "d' = d3"
        using assms g Some False c o2 by (auto simp: adev_open_output_stream_def Let_def d1_def [symmetric] split: if_splits)
      note keep = init_compress_keeps [OF o2]
      show ?thesis
      proof (cases "k < 0")
        case True
        show ?thesis by (rule that(4)) (use g Some True res same d2 keep in \<open>simp_all add: d1_def\<close>)
      next
        case False
        show ?thesis by (rule that(3)) (use g Some False res same d2 keep init_out_common_compress [OF c] in \<open>auto simp: d1_def\<close>)
      qed
    qed
  qed
qed

section \<open>Input streams\<close>

lemma owns_in_readi:
  assumes "pcm_readi (he_pcm E) n p (ad_plog d) = Some (r, q, l)" "ip_handle i = HPcm p" "owns_in E L i d"
  shows "owns_in E L (i\<lparr>ip_handle := HPcm q, ip_resampler := x\<rparr>) (d\<lparr>ad_plog := l\<rparr>)"
    "owns_in E L (i\<lparr>ip_handle := HPcm q\<rparr>) (d\<lparr>ad_plog := l\<rparr>)"
  using transfer_extends(2) [OF assms(1)] fds_extends [of d l E] assms(2,3)
  by (simp_all add: owns_in_def in_ok_def in_fds_def same_handle_def pcm_is_ready_def)

lemma owns_in_other [simp]: "owns_in E L (i\<lparr>ip_resampler := x\<rparr>) d = owns_in E L i d"
  "owns_in E L (i\<lparr>ic_last_read_ns := t\<rparr>) d = owns_in E L i d" "owns_in E L (i\<lparr>ic_devices := v\<rparr>) d = owns_in E L i d"
  "owns_in E L i d \<Longrightarrow> owns_in E L (i\<lparr>ic_hw := Some h, ic_input_source := src\<rparr>) d"
  by (auto simp: owns_in_def in_ok_def in_fds_def split: in_handle.splits)

lemma next_buffer_owns:
  assumes "get_next_buffer E n i d = Some (r, k, i', d')" "owns_in (ie_hal E) L i d"
  shows "owns_in (ie_hal E) L i' d'"
proof (cases "ip_handle i")
  case (HPcm p)
  show ?thesis
  proof (cases "rs_frames_in (ip_resampler i) = 0")
    case True
    obtain x q l where x: "pcm_readi (he_pcm (ie_hal E)) (unat (pcm_bytes_to_frames p (rs_in_buffer_size (ip_resampler i)))) p (ad_plog d) = Some (x, q, l)"
      using assms(1) HPcm True by (auto simp: get_next_buffer_def Let_def split: option.splits)
    show ?thesis using assms(1) HPcm True x owns_in_readi(1) [OF x HPcm assms(2)]
      by (auto simp: get_next_buffer_def Let_def split: if_splits)
  qed (use assms HPcm in \<open>auto simp: get_next_buffer_def Let_def\<close>)
qed (use assms in \<open>auto simp: get_next_buffer_def Let_def\<close>)

text \<open>What the provider of the resampler keeps, the whole read keeps.\<close>

lemma provide_inv:
  assumes "provide E ns i d = Some (i', d')" "P i d"
    and step: "\<And>n i d r k i' d'. get_next_buffer E n i d = Some (r, k, i', d') \<Longrightarrow> P i d \<Longrightarrow> P i' d'"
    and free: "\<And>k i d. P i d \<Longrightarrow> P (release_buffer k i) d"
  shows "P i' d'"
  using assms(1,2)
proof (induction ns arbitrary: i d)
  case (Cons n ns)
  obtain r k j e where g: "get_next_buffer E n i d = Some (r, k, j, e)" using Cons.prems(1) by (auto split: option.splits)
  have "P j e" using step [OF g Cons.prems(2)] .
  then show ?case using Cons.prems(1) g Cons.IH free by (auto split: if_splits)
qed simp

lemma resampled_inv:
  assumes "read_resampled_frames E n wr i d = Some (r, i', d')" "P i d"
    and step: "\<And>n i d r k i' d'. get_next_buffer E n i d = Some (r, k, i', d') \<Longrightarrow> P i d \<Longrightarrow> P i' d'"
    and free: "\<And>k i d. P i d \<Longrightarrow> P (release_buffer k i) d"
  shows "P i' d'"
proof -
  have "F = E \<longrightarrow> P i d \<longrightarrow> P (fst (snd x)) (snd (snd x))"
    if "read_resampled_frames F n wr i d = Some x" for F n wr i d x
    using that
  proof (rule read_resampled_frames.raw_induct [rotated])
    fix loop :: "in_env \<Rightarrow> nat \<Rightarrow> nat \<Rightarrow> in_pcm \<Rightarrow> audio_dev \<Rightarrow> (int \<times> in_pcm \<times> audio_dev) option" and F n wr i d x
    assume IH: "\<And>F n wr i d y. loop F n wr i d = Some y \<Longrightarrow> F = E \<longrightarrow> P i d \<longrightarrow> P (fst (snd y)) (snd (snd y))"
    assume run: "(if n \<le> wr then Some (int wr, i, d)
      else case provide F (fst (ie_resample F (n - wr))) i d of None \<Rightarrow> None
        | Some (i, d) \<Rightarrow> if rs_read_status (ip_resampler i) \<noteq> 0 then Some (rs_read_status (ip_resampler i), i, d)
            else loop F n (wr + snd (ie_resample F (n - wr))) i d) = Some x"
    show "F = E \<longrightarrow> P i d \<longrightarrow> P (fst (snd x)) (snd (snd x))"
    proof (cases "n \<le> wr")
      case False
      then obtain j e where j: "provide F (fst (ie_resample F (n - wr))) i d = Some (j, e)" using run by (auto split: option.splits)
      have "F = E \<longrightarrow> P i d \<longrightarrow> P j e" using provide_inv [of E _ i d j e P] j step free by blast
      then show ?thesis using run False j IH [of F n _ j e x] by (auto split: if_splits)
    qed (use run in auto)
  qed
  from this [OF assms(1)] show ?thesis using assms(2) by simp
qed

lemmas resampled_owns = resampled_inv [where P = "owns_in (ie_hal E) L" and E = E for E L, OF _ _ next_buffer_owns, unfolded release_buffer_def owns_in_other, simplified]

lemma in_standby_fds: "owns_in E L i d \<Longrightarrow> ic_standby i \<Longrightarrow> fds E d = L"
  by (auto simp: owns_in_def in_ok_def in_fds_def split: in_handle.splits)

lemma open_pcm_input_owns:
  assumes "do_open_pcm_input E i d = Some (r, i', d')" "owns_in (ie_hal E) L i d" "ic_standby i"
  shows "if r = 0 then owns_in (ie_hal E) L (i'\<lparr>ic_standby := False\<rparr>) d' else owns_in (ie_hal E) L i' d'"
proof (cases "ic_hw i")
  case None
  then show ?thesis using assms by (auto simp: do_open_pcm_input_def)
next
  case (Some h)
  let ?K = "he_pcm (ie_hal E)" and ?c = "in_pcm_config d h i"
  obtain p l where p: "pcm_open ?K (hs_card_number (hw_info d h)) (hs_device_number (hw_info d h)) PCM_IN (Some ?c) (ad_plog d) = Some (p, l)"
    using assms(1) Some by (auto simp: do_open_pcm_input_def Let_def split: option.splits)
  have L: "fds (ie_hal E) d = L" using in_standby_fds assms(2,3) by blast
  have closed: "fds (ie_hal E) (d\<lparr>ad_plog := pcm_close ?K p l\<rparr>) = L"
    using fds_close [of "ie_hal E" p l d] fds_open(1) [OF p] L by simp
  have failed: "owns_in (ie_hal E) L (j\<lparr>ip_handle := HNull\<rparr>) (d\<lparr>ad_plog := pcm_close ?K p l\<rparr>)" for j
    using closed by (simp add: owns_in_def in_ok_def in_fds_def)
  show ?thesis
  proof (cases "pcm_is_ready p")
    case False
    then have "r = - ENOMEM" "i' = i\<lparr>ip_handle := HNull\<rparr>" "d' = d\<lparr>ad_plog := pcm_close ?K p l\<rparr>"
      using assms(1) Some p by (simp_all add: do_open_pcm_input_def Let_def)
    then show ?thesis using failed by simp
  next
    case True
    define j where "j = in_pcm_fill_params ?c (i\<lparr>ip_handle := HPcm p\<rparr>)"
    obtain q j' where q: "in_resampler_init E (channels ?c) (pcm_frames_to_bytes p (period_size ?c)) j = (q, j')" by fastforce
    have opened: "owns_in (ie_hal E) L (j\<lparr>ip_resampler := x, ic_standby := False\<rparr>) (d\<lparr>ad_plog := l\<rparr>)" for x
      using True fds_open(1) [OF p] L Some by (simp add: owns_in_def in_ok_def in_fds_def j_def in_pcm_fill_params_def)
    have j': "\<exists>x. j' = j\<lparr>ip_resampler := x\<rparr>" using q by (auto simp: in_resampler_init_def Let_def)
    have run: "(if in_get_sample_rate (d\<lparr>ad_plog := l\<rparr>) j = rate ?c then Some (0, j, d\<lparr>ad_plog := l\<rparr>)
        else Some (if q < 0 then (q, j'\<lparr>ip_handle := HNull\<rparr>, d\<lparr>ad_plog := pcm_close ?K p l\<rparr>) else (0, j', d\<lparr>ad_plog := l\<rparr>))) = Some (r, i', d')"
      using assms(1) Some p True q unfolding do_open_pcm_input_def Let_def by (simp add: j_def [symmetric] cong: if_cong)
    show ?thesis using run opened [of "ip_resampler j"] opened j' failed by (auto split: if_splits)
  qed
qed

lemma pcm_read_owns:
  assumes "do_in_pcm_read E n i d = Some (r, i', d')" "owns_in (ie_hal E) L i d"
  shows "owns_in (ie_hal E) L i' d'"
proof -
  obtain k j e where s: "start_pcm_input_stream E i d = Some (k, j, e)"
    using assms(1) by (auto simp: do_in_pcm_read_def split: if_splits option.splits)
  have 1: "owns_in (ie_hal E) L j e"
  proof (cases "ic_standby i")
    case True
    then obtain j0 where "do_open_pcm_input E i d = Some (k, j0, e)" "j = (if k = 0 then j0\<lparr>ic_standby := False\<rparr> else j0)"
      using s by (auto simp: start_pcm_input_stream_def)
    then show ?thesis using open_pcm_input_owns [of E i d k j0 e L] assms(2) True by (auto split: if_splits)
  qed (use s assms(2) in \<open>simp add: start_pcm_input_stream_def\<close>)
  show ?thesis
  proof (cases "k < 0")
    case False
    show ?thesis
    proof (cases "rs_active (ip_resampler j)")
      case True
      then show ?thesis using assms(1) s False 1 resampled_owns by (auto simp: do_in_pcm_read_def split: if_splits)
    next
      case inactive: False
      then show ?thesis using assms(1) s False 1 owns_in_readi(2)
        by (auto simp: do_in_pcm_read_def split: if_splits in_handle.splits)
    qed
  qed (use assms(1) s 1 in \<open>auto simp: do_in_pcm_read_def split: if_splits\<close>)
qed

text \<open>Compressed capture never opens a PCM; the voice trigger and the configuration leave the requests alone.\<close>

lemma compress_read_owns:
  assumes "do_in_compress_pcm_read E now n i d = Some (r, i', d')" "owns_in E L i d"
  shows "owns_in E L i' d'"
proof -
  obtain k j e where s: "start_compress_pcm_input_stream E i d = Some (k, j, e)"
    using assms(1) by (auto simp: do_in_compress_pcm_read_def split: option.splits)
  have "ad_plog e = ad_plog d \<and> (j = i \<or> ic_standby i \<and> in_fds j = {#} \<and> in_ok j)"
    using s by (auto simp: start_compress_pcm_input_stream_def do_open_compress_pcm_in_def Let_def in_fds_def in_ok_def
        split: if_splits option.splits in_handle.splits)
  then have 1: "owns_in E L j e" using assms(2) in_standby_fds [OF assms(2)] fds_plog [of e d E] by (auto simp: owns_in_def)
  have "i' = j \<and> ad_plog d' = ad_plog e"
    using assms(1) s by (auto simp: do_in_compress_pcm_read_def Let_def split: if_splits in_handle.splits)
  then show ?thesis using 1 fds_plog [of d' e E] by (simp add: owns_in_def)
qed

lemma in_standby_owns:
  assumes "in_pcm_standby E i d = Some (i', d')" "owns_in E L i d"
  shows "owns_in E L i' d'"
proof (cases "ic_standby i")
  case True
  then show ?thesis using assms
    by (auto simp: in_pcm_standby_def do_in_compress_pcm_standby_def do_in_pcm_standby_def in_resampler_free_def split: option.splits if_splits)
next
  case False
  show ?thesis
  proof (cases "ip_handle i")
    case (HPcm p)
    have "owns_in E L ((in_resampler_free i)\<lparr>ip_handle := HNull, ic_standby := True\<rparr>) (d\<lparr>ad_plog := pcm_close (he_pcm E) p (ad_plog d)\<rparr>)"
      using assms(2) HPcm fds_close [of E p "ad_plog d" d] by (simp add: owns_in_def in_ok_def in_fds_def)
    then show ?thesis using assms False HPcm
      by (auto simp: in_pcm_standby_def do_in_compress_pcm_standby_def do_in_pcm_standby_def split: option.splits if_splits)
  next
    case (HCompress c)
    have "owns_in E L (i\<lparr>ip_handle := HNull, ic_standby := True\<rparr>) (creq (CClose c) (creq (CStop c) d))"
      using assms(2) HCompress fds_plog [of "creq (CClose c) (creq (CStop c) d)" d E] by (simp add: owns_in_def in_ok_def in_fds_def)
    then show ?thesis using assms False HCompress
      by (auto simp: in_pcm_standby_def do_in_compress_pcm_standby_def do_in_pcm_standby_def split: option.splits if_splits)
  qed (use assms False in \<open>auto simp: in_pcm_standby_def do_in_compress_pcm_standby_def do_in_pcm_standby_def split: option.splits if_splits\<close>)
qed

lemma in_standby_idle: "in_pcm_standby E i d = Some (i', d') \<Longrightarrow> in_ok i \<Longrightarrow> in_fds i' = {#}"
  by (auto simp: in_pcm_standby_def do_in_compress_pcm_standby_def do_in_pcm_standby_def in_resampler_free_def in_fds_def in_ok_def
      split: option.splits if_splits in_handle.splits)

lemma read_owns:
  assumes "in_pcm_read E now n i d = Some (r, x, i', d')" "owns_in (ie_hal E) L i d"
  shows "owns_in (ie_hal E) L i' d'"
proof -
  obtain k j where s: "(case ic_hw i of None \<Rightarrow> Some (- EINVAL, i, d)
      | Some h \<Rightarrow> if get_current_routes (ad_cm d) h = 0 then Some (- EINVAL, i, d)
          else if stream_is_compressed_in (hw_info d h) then do_in_compress_pcm_read (ie_hal E) now n i d
          else do_in_pcm_read E n i d) = Some (k, j, d')" "i' = do_in_set_read_timestamp now j"
    using assms(1) unfolding in_pcm_read_def by (auto split: option.splits if_splits)
  have "owns_in (ie_hal E) L j d'"
    using s(1) assms(2) compress_read_owns pcm_read_owns by (auto split: option.splits if_splits)
  then show ?thesis using s(2) by (simp add: do_in_set_read_timestamp_def)
qed

lemma voice_plog [simp]:
  "ad_plog (do_voice_trigger_open_stream E name d) = ad_plog d" "ad_plog (do_voice_trigger_close_stream E d) = ad_plog d"
  "ad_plog (voice_trigger_enable E d) = ad_plog d" "ad_plog (voice_trigger_disable E d) = ad_plog d"
  "ad_plog (voice_trigger_triggered d) = ad_plog d" "ad_plog (voice_trigger_audio_started_locked d) = ad_plog d"
  "ad_plog (voice_trigger_audio_ended_locked E d) = ad_plog d"
proof -
  show 1: "ad_plog (do_voice_trigger_open_stream E name d) = ad_plog d" for name
    by (auto simp: do_voice_trigger_open_stream_def Let_def split: prod.splits option.splits)
  show 2: "ad_plog (do_voice_trigger_close_stream E d) = ad_plog d"
    by (auto simp: do_voice_trigger_close_stream_def split: option.splits)
  show "ad_plog (voice_trigger_enable E d) = ad_plog d" "ad_plog (voice_trigger_disable E d) = ad_plog d"
    "ad_plog (voice_trigger_triggered d) = ad_plog d" "ad_plog (voice_trigger_audio_started_locked d) = ad_plog d"
    "ad_plog (voice_trigger_audio_ended_locked E d) = ad_plog d"
    using 1 2 by (simp_all add: voice_trigger_enable_def voice_trigger_disable_def voice_trigger_triggered_def
        voice_trigger_audio_started_locked_def voice_trigger_audio_ended_locked_def split: voice_state.splits)
qed

lemma adev_set_parameters_plog [simp]: "ad_plog (adev_set_parameters E kv d) = ad_plog d"
  by (auto simp: adev_set_parameters_def voice_trigger_set_params_def Let_def split: option.splits)

lemma change_source_owns:
  assumes "change_input_source_locked E me v devices i d = (r, i', d')"
  shows "ad_plog d' = ad_plog d \<and> (i' = i \<or> (\<exists>h src. i' = i\<lparr>ic_hw := Some h, ic_input_source := src\<rparr>))"
  using assms by (auto simp: change_input_source_locked_def Let_def split: if_splits option.splits prod.splits)

lemma set_params_owns:
  assumes "in_pcm_set_parameters E me kv i d = (i', d')" "owns_in E L i d"
  shows "owns_in E L i' d'"
proof -
  have keep: "owns_in E L j e'" if "owns_in E L j e" "ad_plog e' = ad_plog e" for j e e'
    using that fds_plog [of e' e E] by (simp add: owns_in_def)
  show ?thesis
  proof (cases "he_parm E kv ''input_source''")
    case None
    then have "ad_plog d' = ad_plog d \<and> (i' = i \<or> (\<exists>v. i' = i\<lparr>ic_devices := v\<rparr>))" using assms(1)
      by (auto simp: in_pcm_set_parameters_def Let_def split: option.splits)
    then show ?thesis using assms(2) keep [of i d d'] keep [of i' d d'] by auto
  next
    case (Some v)
    define w where "w = (case common_get_routing_param E kv of Some w \<Rightarrow> w | None \<Rightarrow>
        (case ic_hw i of Some h \<Rightarrow> get_routed_devices (ad_cm d) h | None \<Rightarrow> 0))"
    obtain r j e where c: "change_input_source_locked E me v w i d = (r, j, e)" by (metis prod_cases3)
    have "owns_in E L j d" "ad_plog e = ad_plog d" using change_source_owns [OF c] assms(2) by auto
    then have 1: "owns_in E L j e" using keep [of j d e] by simp
    have "ad_plog d' = ad_plog e \<and> (i' = j \<or> (\<exists>v. i' = j\<lparr>ic_devices := v\<rparr>))"
      using assms(1) Some c unfolding in_pcm_set_parameters_def Let_def w_def [symmetric] by (auto split: if_splits option.splits)
    then show ?thesis using 1 keep [of j e d'] keep [of i' e d'] by auto
  qed
qed

lemma in_do_owns:
  assumes "in_do E f me i d = Some (i', d')" "owns_in (ie_hal E) L i d"
  shows "owns_in (ie_hal E) L i' d'"
  using assms by (cases f) (auto simp: in_do_def dest: read_owns in_standby_owns set_params_owns)

lemma close_in_common_owns:
  assumes "do_close_in_common E me i d = Some d'" "owns_in E L i d"
  shows "fds E d' = L"
proof -
  obtain j e where j: "in_pcm_standby E i d = Some (j, e)" using assms(1) by (auto simp: do_close_in_common_def split: option.splits)
  have "in_fds j = {#}" using in_standby_idle [OF j] assms(2) by (simp add: owns_in_def)
  then have "fds E e = L" using in_standby_owns [OF j assms(2)] by (simp add: owns_in_def)
  moreover have "ad_plog d' = ad_plog e" using assms(1) j by (auto simp: do_close_in_common_def Let_def split: option.splits if_splits)
  ultimately show ?thesis using fds_plog by metis
qed

lemma close_in_owns:
  assumes "adev_close_input_stream E me i d = Some d'" "owns_in E L i d"
  shows "fds E d' = L"
proof -
  have "\<exists>j e. do_close_in_common E me j e = Some d' \<and> owns_in E L j e"
  proof (cases "\<exists>h. ic_hw i = Some h \<and> stream_is_compressed (hw_info d h)")
    case True
    then obtain j e where j: "do_in_compress_pcm_close i d = Some (j, e)" "do_close_in_common E me j e = Some d'"
      using assms(1) by (auto simp: adev_close_input_stream_def do_close_in_pcm_def split: option.splits)
    have "ad_plog e = ad_plog d \<and> in_fds j = in_fds i \<and> in_ok j"
      using j(1) by (auto simp: do_in_compress_pcm_close_def in_fds_def in_ok_def split: in_handle.splits)
    then have "owns_in E L j e" using assms(2) fds_plog [of e d E] by (simp add: owns_in_def)
    then show ?thesis using j(2) by blast
  qed (use assms in \<open>auto simp: adev_close_input_stream_def do_close_in_pcm_def split: option.splits if_splits\<close>)
  then show ?thesis using close_in_common_owns by blast
qed

section \<open>Sequences of calls\<close>

definition hal_fds :: "hal \<Rightarrow> int multiset" where
  "hal_fds s = owned out_fds (hl_outs s) + owned in_fds (hl_ins s)"

definition all_ok :: "('a \<Rightarrow> bool) \<Rightarrow> 'a option list \<Rightarrow> bool" where
  "all_ok P xs \<longleftrightarrow> (\<forall>x. Some x \<in> set xs \<longrightarrow> P x)"

lemma all_ok_simps [simp]: "all_ok P []" "all_ok P (xs @ [x]) \<longleftrightarrow> all_ok P xs \<and> (\<forall>y. x = Some y \<longrightarrow> P y)"
  by (auto simp: all_ok_def)

lemma all_ok_slot: "all_ok P xs \<Longrightarrow> stream_at xs k = Some x \<Longrightarrow> P x"
  by (auto simp: all_ok_def stream_at_def split: if_splits) (metis nth_mem)

lemma all_ok_update: "all_ok P xs \<Longrightarrow> (\<And>y. x = Some y \<Longrightarrow> P y) \<Longrightarrow> all_ok P (xs[k := x])"
  by (metis all_ok_def insertE set_update_subset_insert subsetD)

definition hal_inv :: "in_env \<Rightarrow> hal \<Rightarrow> bool" where
  "hal_inv E s \<longleftrightarrow> all_ok out_ok (hl_outs s) \<and> all_ok in_ok (hl_ins s) \<and> fds (ie_hal E) (hl_dev s) = hal_fds s"

text \<open>A call on one stream, given what it does to that stream and its descriptors.\<close>

lemma out_slot_inv:
  assumes "hal_inv E s" "stream_at (hl_outs s) k = Some out"
    and "\<And>L. owns_out (ie_hal E) L out (hl_dev s) \<Longrightarrow> (case x of None \<Rightarrow> fds (ie_hal E) d = L | Some out \<Rightarrow> owns_out (ie_hal E) L out d)"
  shows "hal_inv E (s\<lparr>hl_dev := d, hl_outs := (hl_outs s)[k := x]\<rparr>)"
proof -
  obtain L where L: "owned out_fds (hl_outs s) = L + out_fds out" "\<forall>y. owned out_fds ((hl_outs s)[k := y]) = L + case_option {#} out_fds y"
    using owned_slot [OF assms(2), of out_fds] by blast
  have "out_ok out" using assms(1,2) all_ok_slot by (auto simp: hal_inv_def)
  then have "owns_out (ie_hal E) (L + owned in_fds (hl_ins s)) out (hl_dev s)"
    using assms(1) L(1) by (simp add: hal_inv_def hal_fds_def owns_out_def ac_simps)
  from assms(3) [OF this] have "fds (ie_hal E) d = L + owned in_fds (hl_ins s) + case_option {#} out_fds x" "\<And>y. x = Some y \<Longrightarrow> out_ok y"
    by (auto simp: owns_out_def split: option.splits)
  then show ?thesis using assms(1) L(2) by (simp add: hal_inv_def hal_fds_def all_ok_update ac_simps)
qed

lemma in_slot_inv:
  assumes "hal_inv E s" "stream_at (hl_ins s) k = Some i"
    and "\<And>L. owns_in (ie_hal E) L i (hl_dev s) \<Longrightarrow> (case x of None \<Rightarrow> fds (ie_hal E) d = L | Some i \<Rightarrow> owns_in (ie_hal E) L i d)"
  shows "hal_inv E (s\<lparr>hl_dev := d, hl_ins := (hl_ins s)[k := x]\<rparr>)"
proof -
  obtain L where L: "owned in_fds (hl_ins s) = L + in_fds i" "\<forall>y. owned in_fds ((hl_ins s)[k := y]) = L + case_option {#} in_fds y"
    using owned_slot [OF assms(2), of in_fds] by blast
  have "in_ok i" using assms(1,2) all_ok_slot by (auto simp: hal_inv_def)
  then have "owns_in (ie_hal E) (L + owned out_fds (hl_outs s)) i (hl_dev s)"
    using assms(1) L(1) by (simp add: hal_inv_def hal_fds_def owns_in_def ac_simps)
  from assms(3) [OF this] have "fds (ie_hal E) d = L + owned out_fds (hl_outs s) + case_option {#} in_fds x" "\<And>y. x = Some y \<Longrightarrow> in_ok y"
    by (auto simp: owns_in_def split: option.splits)
  then show ?thesis using assms(1) L(2) by (simp add: hal_inv_def hal_fds_def all_ok_update ac_simps)
qed

lemma hal_do_inv:
  assumes "hal_do E c s = Some t" "hal_inv E s"
  shows "hal_inv E t"
proof (cases c)
  case (OpenOut devices config)
  then obtain r out d where o: "adev_open_output_stream (ie_hal E) devices config (hl_dev s) = Some (r, out, d)"
    "t = s\<lparr>hl_dev := d, hl_outs := hl_outs s @ [out]\<rparr>" using assms(1) by auto
  have "ad_plog d = ad_plog (hl_dev s) \<and> case_option {#} out_fds out = {#} \<and> (\<forall>x. out = Some x \<longrightarrow> out_ok x)"
    using o(1) by (rule open_output_cases) auto
  then show ?thesis using assms(2) o(2) fds_plog [of d "hl_dev s" "ie_hal E"] by (simp add: hal_inv_def hal_fds_def)
next
  case (DoOut k f)
  then show ?thesis using assms out_slot_inv [OF assms(2)] out_do_owns by (fastforce split: option.splits)
next
  case (CloseOut k)
  then show ?thesis using assms out_slot_inv [OF assms(2)] close_out_owns by (fastforce split: option.splits)
next
  case (DoIn k f)
  then show ?thesis using assms in_slot_inv [OF assms(2)] in_do_owns by (fastforce split: option.splits)
next
  case (CloseIn k)
  then show ?thesis using assms in_slot_inv [OF assms(2)] close_in_owns by (fastforce split: option.splits)
next
  case (OpenIn devices config)
  then show ?thesis using assms by (auto simp: hal_inv_def hal_fds_def adev_open_input_stream_def do_init_in_pcm_def
        do_init_in_common_def in_fds_def in_ok_def)
next
  case (SetParams kv)
  then show ?thesis using assms fds_plog [of "adev_set_parameters (ie_hal E) kv (hl_dev s)" "hl_dev s" "ie_hal E"]
    by (auto simp: hal_inv_def hal_fds_def)
next
  case (MicMute b)
  then show ?thesis using assms by (auto simp: hal_inv_def hal_fds_def adev_set_mic_mute_def fds_def)
qed

lemma hal_open_inv: "audio_open E cm = Some s \<Longrightarrow> hal_inv E s"
  by (auto simp: audio_open_def adev_open_def hal_inv_def hal_fds_def fds_def voice_trigger_init_def split: prod.splits)

lemmas hal_reachable_inv = hal_run_inv [of E _ _ _ "hal_inv E" for E, OF _ hal_open_inv hal_do_inv]

text \<open>
  C5. After any sequence of calls on any streams of a freshly opened device, whatever the kernel answered, the PCM
  descriptors that are open are exactly those of the streams that are active: none is leaked by a failed start, a
  standby or a close, none is closed twice, and streams in standby hold none.
\<close>

theorem descriptors_are_active:
  assumes "audio_open E cm = Some s" "hal_run E calls s = Some t"
  shows "mset (pcm_fds (he_pcm (ie_hal E)) (ad_plog (hl_dev t))) = owned out_fds (hl_outs t) + owned in_fds (hl_ins t) \<and>
    (\<forall>out. Some (OutPcm out) \<in> set (hl_outs t) \<and> oc_standby out \<longrightarrow> out_fds (OutPcm out) = {#}) \<and>
    (\<forall>i. Some i \<in> set (hl_ins t) \<and> ic_standby i \<longrightarrow> in_fds i = {#})"
proof -
  have inv: "hal_inv E t" by (rule hal_reachable_inv [OF assms(2,1)])
  then have "out_fds (OutPcm out) = {#}" if "Some (OutPcm out) \<in> set (hl_outs t)" "oc_standby out" for out
    using that by (fastforce simp: hal_inv_def all_ok_def split: pointer.splits)
  moreover have "in_fds i = {#}" if "Some i \<in> set (hl_ins t)" "ic_standby i" for i
    using that inv by (fastforce simp: hal_inv_def all_ok_def in_ok_def in_fds_def split: in_handle.splits)
  ultimately show ?thesis using inv by (simp add: hal_inv_def hal_fds_def fds_def)
qed

text \<open>Two streams of the example configuration, a kernel that answers 0 to everything.\<close>

definition quiet_hal :: hal_env where
  "quiet_hal = \<lparr>he_alsa = silent_card, he_h = mocha_h, he_pcm = quiet_pcm, he_cmpr = \<lambda>_. 0, he_fragments = \<lambda>_. 4096,
     he_tstamp = \<lambda>_. 0, he_parm = \<lambda>_ _. None, he_frame_size = \<lambda>_ _. 4, he_main_format = \<lambda>_. FORMAT_OTHER, he_voice_recognition = 6, he_join = \<lambda>_. True\<rparr>"

definition quiet_env :: in_env where
  "quiet_env = \<lparr>ie_hal = quiet_hal, ie_resample = \<lambda>n. ([n], n), ie_create_resampler = 0\<rparr>"

definition music :: stream_config where
  "music = \<lparr>cfg_sample_rate = 48000, cfg_channel_mask = 3, cfg_format = 1\<rparr>"

definition example_hal :: hal where
  "example_hal = \<lparr>hl_dev = \<lparr>ad_cm = example_cm, ad_mic_mute = False, ad_active_voice_control = None, ad_voice_st = eVoiceNone,
     ad_voice_trig_mic = 0, ad_global_stream = None, ad_voice_stream = None, ad_plog = [], ad_clog = []\<rparr>, hl_outs = [], hl_ins = []\<rparr>"

lemma example_hal_open: "audio_open quiet_env example_cm = Some example_hal"
  by (simp add: audio_open_def adev_open_def get_named_stream_def find_named_stream_def example_defs example_hal_def
      voice_trigger_init_def is_named_stream_defined_def)

lemma example_get: "get_stream silent_card mocha_h 2 (cfg_format music) example_cm = (Some 0, update_stream 0 (\<lambda>s. s\<lparr>s_ref_count := 1\<rparr>) example_cm)"
  by (simp add: get_stream_def wanted_type_def example_defs open_stream_l_def Let_def update_stream_def upt_rec
      apply_paths_to_global_l_def e_path_id_on_def music_def)

lemma routed: "i < length (cm_streams cm) \<Longrightarrow> route_devices H (s_info (cm_streams cm ! i)) v = Some w \<Longrightarrow>
    get_current_routes (apply_route K H i v cm) i = w"
  by (simp add: apply_route_def update_stream_def get_current_routes_def Let_def)

lemma example_opened:
  "\<exists>out d. adev_open_output_stream quiet_hal 2 music (hl_dev example_hal) = Some (0, Some (OutPcm out), d) \<and> oc_standby out \<and>
     oc_hw out = 0 \<and> oc_channel_count out = 2 \<and> get_current_routes (ad_cm d) 0 = 2 \<and> ad_plog d = [] \<and>
     hw_info d 0 = s_info (plain_stream e_stream_out_pcm (- 1) (- 1))"
proof -
  define cm1 where "cm1 = update_stream 0 (\<lambda>s. s\<lparr>s_ref_count := 1\<rparr>) example_cm"
  define d1 where "d1 = (hl_dev example_hal)\<lparr>ad_cm := cm1\<rparr>"
  have dev: "(2 :: u32) AND OUT_ALL (he_h quiet_hal) = 2" by (simp add: mocha_h_def quiet_hal_def)
  have g: "get_stream (he_alsa quiet_hal) (he_h quiet_hal) 2 (cfg_format music) (ad_cm (hl_dev example_hal)) = (Some 0, cm1)"
    using example_get by (simp add: quiet_hal_def example_hal_def cm1_def)
  have info: "s_info (cm_streams cm1 ! 0) = s_info (plain_stream e_stream_out_pcm (- 1) (- 1))" "length (cm_streams cm1) = 2"
    by (simp_all add: cm1_def update_stream_def example_cm_def plain_stream_def)
  define cm2 where "cm2 = apply_route (he_alsa quiet_hal) (he_h quiet_hal) 0 2 cm1"
  have routes: "get_current_routes cm2 0 = 2" unfolding cm2_def
    by (rule routed) (use info in \<open>simp_all add: quiet_hal_def mocha_h_def route_devices_def stream_is_input_def plain_stream_def\<close>)
  have info2: "s_info (cm_streams cm2 ! 0) = s_info (cm_streams cm1 ! 0)"
    using apply_route_law [of "he_alsa quiet_hal" "he_h quiet_hal" 0 2 cm1] info(2)
    by (metis cm2_def kinds_def length_map nth_map zero_less_numeral)
  obtain out d2 where c: "do_init_out_common quiet_hal music 2 (new_out_pcm 0) d1 = (out, d2)" by fastforce
  have d2: "d2 = d1\<lparr>ad_cm := cm2\<rparr>" "oc_sample_rate out = 48000" "oc_standby out" "oc_hw out = 0" "oc_channel_count out = 2"
    using c by (auto simp: do_init_out_common_def d1_def cm2_def music_def popcount_def upt_rec)
  have type: "hs_type (hw_info d1 0) = e_stream_out_pcm" using info by (simp add: d1_def hw_info_def plain_stream_def)
  have run: "adev_open_output_stream quiet_hal 2 music (hl_dev example_hal) =
      map_option (\<lambda>out. (0, Some (OutPcm out), d2)) (do_init_out_pcm quiet_hal out d2)"
    unfolding adev_open_output_stream_def Let_def dev g using type c by (simp add: d1_def [symmetric])
  show ?thesis unfolding run using d2 routes info info2
    by (simp add: do_init_out_pcm_def hw_info_def d1_def) (simp add: example_hal_def)
qed

lemma example_config_opens:
  assumes "oc_channel_count out = 2" "hw_info d (oc_hw out) = s_info (plain_stream e_stream_out_pcm (- 1) (- 1))"
  shows "\<forall>c n. \<exists>p l. pcm_open quiet_pcm c n PCM_OUT (Some (out_pcm_config d out)) [] = Some (p, l) \<and> pc_fd p = 0"
proof -
  have "out_pcm_config d out = music_config\<lparr>rate := 48000\<rparr>"
    using assms by (simp add: out_pcm_config_def music_config_def out_pcm_cfg_channel_count_def out_pcm_cfg_rate_def out_pcm_cfg_period_size_def
        out_pcm_cfg_period_count_def or_default_def plain_stream_def)
  then show ?thesis
    by (simp add: pcm_open_def quiet_pcm_def Let_def pcm_set_config_def finish_config_def flag_def PCM_OUT_def PCM_MMAP_def
      fresh_pcm_def PCM_NOIRQ_def PCM_MONOTONIC_def music_config_def boundary_loop.simps pcm_hw_mmap_status_def)
qed

lemma pcm_writei_returns: "\<exists>r p' l'. pcm_writei K n p l = Some (r, p', l')"
proof -
  have "writei_loop 2 K n p l \<noteq> None" unfolding numeral_2_eq_2 writei_loop.simps by (auto simp: Let_def split: prod.splits)
  then show ?thesis by (auto simp: pcm_writei_def)
qed

lemma example_playing:
  "\<exists>t out p. hal_run quiet_env [OpenOut 2 music, DoOut 0 (OWrite 1024)] example_hal = Some t \<and> hl_outs t = [Some (OutPcm out)] \<and>
     op_pcm out = Live p \<and> pc_fd p = 0 \<and> hl_ins t = []"
proof -
  obtain out d where o: "adev_open_output_stream quiet_hal 2 music (hl_dev example_hal) = Some (0, Some (OutPcm out), d)" "oc_standby out"
    "oc_hw out = 0" "oc_channel_count out = 2" "get_current_routes (ad_cm d) 0 = 2" "ad_plog d = []"
    "hw_info d 0 = s_info (plain_stream e_stream_out_pcm (- 1) (- 1))" using example_opened by (elim exE conjE) (rule that)
  obtain p l where p: "pcm_open quiet_pcm (hs_card_number (hw_info d 0)) (hs_device_number (hw_info d 0)) PCM_OUT (Some (out_pcm_config d out)) [] = Some (p, l)"
    "pc_fd p = 0" using example_config_opens [OF o(4) o(7) [folded o(3)]] by (metis o(3))
  define o1 where "o1 = (out_pcm_fill_params p (out_pcm_config d out) (out\<lparr>op_pcm := Live p\<rparr>))\<lparr>oc_standby := False\<rparr>"
  have pcm: "he_pcm quiet_hal = quiet_pcm" by (simp add: quiet_hal_def)
  have start: "start_output_pcm quiet_hal out d = Some (0, out_pcm_fill_params p (out_pcm_config d out) (out\<lparr>op_pcm := Live p\<rparr>), d\<lparr>ad_plog := l\<rparr>)"
    using p o(3,6) by (simp add: start_output_pcm_def pcm Let_def pcm_is_ready_def)
  obtain r q m where w: "pcm_writei quiet_pcm (unat (pcm_bytes_to_frames p (of_nat 1024))) p l = Some (r, q, m)" using pcm_writei_returns by blast
  have o1: "op_pcm o1 = Live p" by (simp add: o1_def out_pcm_fill_params_def)
  have "out_pcm_write quiet_hal 1024 out d = write_frames quiet_hal 1024 o1 (d\<lparr>ad_plog := l\<rparr>)"
    unfolding out_pcm_write_def o1_def using o(2,3,5) start by simp
  also have "\<dots> = Some (if r \<ge> 0 then 1024 else r, o1\<lparr>op_pcm := Live q\<rparr>, d\<lparr>ad_plog := m\<rparr>)"
    unfolding write_frames_def using o1 w by (simp add: pcm)
  finally have wrote: "out_pcm_write quiet_hal 1024 out d = Some (if r \<ge> 0 then 1024 else r, o1\<lparr>op_pcm := Live q\<rparr>, d\<lparr>ad_plog := m\<rparr>)" .
  have "pc_fd q = 0" using transfer_extends(1) [OF w] p(2) by (simp add: same_handle_def)
  moreover have "hl_outs example_hal = []" "hl_ins example_hal = []" by (simp_all add: example_hal_def)
  ultimately show ?thesis using o(1) wrote
    by (simp add: quiet_env_def stream_at_def out_do_def pcm_do_def)
qed

theorem descriptors_are_active_witness:
  "\<exists>t. hal_run quiet_env [OpenOut 2 music, DoOut 0 (OWrite 1024)] example_hal = Some t \<and> mset (pcm_fds quiet_pcm (ad_plog (hl_dev t))) = {#0#}"
proof -
  obtain t out p where t: "hal_run quiet_env [OpenOut 2 music, DoOut 0 (OWrite 1024)] example_hal = Some t" "hl_outs t = [Some (OutPcm out)]"
    "op_pcm out = Live p" "pc_fd p = 0" "hl_ins t = []" using example_playing by (elim exE conjE) (rule that)
  then have "owned out_fds (hl_outs t) + owned in_fds (hl_ins t) = {#0#}" by (simp add: owned_def)
  then have "mset (pcm_fds quiet_pcm (ad_plog (hl_dev t))) = {#0#}"
    using conjunct1 [OF descriptors_are_active [OF example_hal_open t(1)]] by (simp add: quiet_env_def quiet_hal_def)
  then show ?thesis using t(1) by blast
qed

end
