(* ===== verification/Audio_References.thy ===== *)
theory Audio_References
  imports Audio_Resources
begin

text \<open>
  The references to the streams of the configuration over any sequence of calls: who holds them, and the two ways the HAL
  loses one. Then which calls on an output stream return, and what a capture delivers, over PCM and compressed.
\<close>

section \<open>Ledger\<close>

definition ledger :: "hw_stream list \<Rightarrow> config_mgr \<Rightarrow> nat multiset \<Rightarrow> bool" where
  "ledger k cm L \<longleftrightarrow> kinds cm = k \<and> balanced (refs cm) k L"

lemma cfg_ok: "counted_streams.ok refs kinds = ledger"
  by (simp add: fun_eq_iff ledger_def cfg.ok_def)

lemmas ledger_taken = cfg.taken [unfolded cfg_ok]
  and ledger_not_taken = cfg.not_taken [unfolded cfg_ok]
  and ledger_given_back = cfg.given_back [unfolded cfg_ok]
  and ledger_adjusted [simp] = cfg.adjusted [unfolded cfg_ok]
  and ledger_exchanged = cfg.exchanged [unfolded cfg_ok]

lemma ledger_pairs [simp]: "ledger k (snd (invoke_pairs K i ps r cm)) L \<longleftrightarrow> ledger k cm L"
proof (induction ps arbitrary: r cm)
  case (Cons p ps)
  have "ledger k x L \<longleftrightarrow> ledger k cm L" if "apply_use_case K i a v cm = (e, x)" for a v e x
    using ledger_adjusted(2) [of k K i a v cm L] that by simp
  then show ?case using Cons.IH by (auto split: option.splits prod.splits)
qed simp

lemma ledger_usecases [simp]: "ledger k (snd (stream_invoke_usecases E st kv cm)) L \<longleftrightarrow> ledger k cm L"
  by (simp add: stream_invoke_usecases_def split: option.splits)

lemma ledger_less: "ledger k cm L \<Longrightarrow> i \<in># L \<Longrightarrow> i < length k"
  by (simp add: ledger_def balanced_def)

section \<open>Who holds a reference\<close>

fun out_hw :: "out_stream \<Rightarrow> nat" where
  "out_hw (OutPcm out) = oc_hw out"
| "out_hw (OutCompress out) = oc_hw out"

definition out_hold :: "out_stream \<Rightarrow> nat multiset" where
  "out_hold out = {#out_hw out#}"

definition in_hold :: "in_pcm \<Rightarrow> nat multiset" where
  "in_hold i = maybe (ic_hw i)"

text \<open>The voice trigger holds its stream in every state but the idle ones, where its pointer is stale.\<close>

definition voice_hold :: "audio_dev \<Rightarrow> nat multiset" where
  "voice_hold d = (if ad_voice_st d \<in> {eVoiceNone, eVoiceTriggerIdle, eVoiceRecogIdle} then {#} else maybe (ad_voice_stream d))"

definition held :: "hal \<Rightarrow> nat multiset" where
  "held s = maybe (ad_global_stream (hl_dev s)) + voice_hold (hl_dev s) + owned out_hold (hl_outs s) + owned in_hold (hl_ins s)"

text \<open>What transfers leave alone.\<close>

definition same_dev :: "audio_dev \<Rightarrow> audio_dev \<Rightarrow> bool" where
  "same_dev d d' \<longleftrightarrow> ad_cm d' = ad_cm d \<and> ad_global_stream d' = ad_global_stream d \<and> ad_voice_stream d' = ad_voice_stream d \<and>
     ad_voice_st d' = ad_voice_st d \<and> ad_active_voice_control d' = ad_active_voice_control d \<and> ad_mic_mute d' = ad_mic_mute d"

lemma same_dev_simps [simp]: "same_dev d d" "same_dev d (e\<lparr>ad_plog := l\<rparr>) = same_dev d e" "same_dev d (creq r e) = same_dev d e"
  by (simp_all add: same_dev_def creq_def)

lemma same_dev_trans: "same_dev a b \<Longrightarrow> same_dev b c \<Longrightarrow> same_dev a c"
  by (simp add: same_dev_def)

lemma same_dev_voice: "same_dev d d' \<Longrightarrow> voice_hold d' = voice_hold d"
  by (simp add: same_dev_def voice_hold_def)

section \<open>Output streams\<close>

lemma start_output_same: "start_output_pcm E out d = Some (r, out', d') \<Longrightarrow> same_dev d d' \<and> oc_hw out' = oc_hw out"
  by (auto simp: start_output_pcm_def Let_def out_pcm_fill_params_def split: option.splits if_splits)

lemma write_frames_same: "write_frames E n out d = Some (r, out', d') \<Longrightarrow> same_dev d d' \<and> oc_hw out' = oc_hw out"
  by (auto simp: write_frames_def split: option.splits pointer.splits)

lemma out_pcm_write_same: "out_pcm_write E n out d = Some (r, out', d') \<Longrightarrow> same_dev d d' \<and> oc_hw out' = oc_hw out"
  by (auto simp: out_pcm_write_def split: option.splits if_splits dest!: start_output_same write_frames_same intro: same_dev_trans)

lemma out_pcm_standby_same: "out_pcm_standby E out d = Some (out', d') \<Longrightarrow> same_dev d d' \<and> oc_hw out' = oc_hw out"
  by (auto simp: out_pcm_standby_def do_out_pcm_standby_def split: if_splits pointer.splits)

text \<open>A call on an output stream leaves the ledger and the rest of the device as they are.\<close>

definition same_refs :: "audio_dev \<Rightarrow> audio_dev \<Rightarrow> bool" where
  "same_refs d d' \<longleftrightarrow> (\<forall>k L. ledger k (ad_cm d') L = ledger k (ad_cm d) L) \<and> ad_global_stream d' = ad_global_stream d \<and>
     voice_hold d' = voice_hold d"

lemma same_dev_refs: "same_dev d d' \<Longrightarrow> same_refs d d'"
  by (simp add: same_refs_def same_dev_voice) (simp add: same_dev_def)

lemma same_refs_cm: "(\<And>k L. ledger k cm L = ledger k (ad_cm d) L) \<Longrightarrow> same_refs d (d\<lparr>ad_cm := cm\<rparr>)"
  by (simp add: same_refs_def voice_hold_def)

lemma out_set_parameters_refs: "same_refs d (out_set_parameters E kv out d)"
  by (simp add: out_set_parameters_def Let_def) (rule same_refs_cm, simp split: option.splits)

lemma pcm_do_refs: "pcm_do E f out d = Some (out', d') \<Longrightarrow> same_refs d d' \<and> oc_hw out' = oc_hw out"
  using out_set_parameters_refs
  by (cases f) (auto simp: pcm_do_def intro: same_dev_refs dest: out_pcm_write_same out_pcm_standby_same)

lemma standby_compress_same: "do_standby_compress_l out d = (out', d') \<Longrightarrow> same_dev d d' \<and> oc_hw out' = oc_hw out"
  by (auto simp: do_standby_compress_l_def Let_def split: option.splits if_splits)

lemma open_compress_same: "open_output_compress E out d = (r, out', d') \<Longrightarrow> same_dev d d' \<and> oc_hw out' = oc_hw out"
  by (auto simp: open_output_compress_def Let_def split: if_splits)

lemma start_compress_same: "start_output_compress E h out d = (r, out', d') \<Longrightarrow> same_dev d d' \<and> oc_hw out' = oc_hw out"
  using standby_compress_same [of out "creq (CStart h) d"]
  by (auto simp: start_output_compress_def Let_def same_dev_def creq_def split: if_splits prod.splits)

lemma compress_write_same:
  assumes "out_compress_write E n out d = Some (r, out', d')"
  shows "same_dev d d' \<and> oc_hw out' = oc_hw out"
proof -
  obtain k o1 d1 where o: "open_output_compress E out d = (k, o1, d1)" by (metis prod_cases3)
  have 1: "same_dev d (creq (CWrite h n) d1) \<and> oc_hw o1 = oc_hw out" for h using open_compress_same [OF o] by simp
  have 2: "same_dev d e \<and> oc_hw o2 = oc_hw out"
    if "start_output_compress E h o1 (creq (CWrite h n) d1) = (q, o2, e)" for h q o2 e
    using start_compress_same [OF that] 1 [of h] same_dev_trans [of d "creq (CWrite h n) d1" e] by simp
  show ?thesis using assms 1 2 open_compress_same [OF o] unfolding out_compress_write_def o
    by (auto simp: Let_def split: if_splits option.splits prod.splits)
qed

lemma compress_do_refs:
  assumes "compress_do E f out d = Some (out', d')"
  shows "same_refs d d' \<and> oc_hw out' = oc_hw out"
proof (cases "\<exists>kv. f = OSetParams kv")
  case True
  then show ?thesis using assms out_set_parameters_refs
    by (auto simp: compress_do_def out_compress_set_parameters_def Let_def split: option.splits)
next
  case False
  have "same_dev d d' \<and> oc_hw out' = oc_hw out"
  proof (cases f)
    case (OWrite n)
    then show ?thesis using assms compress_write_same by (auto simp: compress_do_def)
  next
    case OStandby
    then show ?thesis using assms standby_compress_same by (auto simp: compress_do_def out_compress_standby_def)
  next
    case (ODrain b)
    then show ?thesis using assms by (cases "oc_use_async out")
      (auto simp: compress_do_def out_compress_drain_def signal_async_thread_def Let_def split: if_splits option.splits)
  next
    case OAsync
    then show ?thesis using assms
      by (cases "oc_async_mode out") (auto simp: compress_do_def out_compress_async_round_def split: option.splits)
  next
    case (OCallback rv)
    then show ?thesis using assms by (auto simp: compress_do_def out_set_callback_def Let_def split: if_splits)
  qed (use assms False in \<open>auto simp: compress_do_def out_compress_pause_def out_compress_resume_def out_compress_flush_def
        out_compress_get_render_position_def Let_def split: option.splits if_splits\<close>)
  then show ?thesis using same_dev_refs by blast
qed

lemma out_do_refs: "out_do E f out d = Some (out', d') \<Longrightarrow> same_refs d d' \<and> out_hold out' = out_hold out"
  by (cases out) (auto simp: out_do_def out_hold_def dest: pcm_do_refs compress_do_refs)

text \<open>Closing gives the reference back.\<close>

lemma close_out_refs:
  assumes "adev_close_output_stream E out d = Some d'" "ledger k (ad_cm d) (out_hold out + L)"
  shows "ledger k (ad_cm d') L \<and> ad_global_stream d' = ad_global_stream d \<and> voice_hold d' = voice_hold d"
proof -
  have close: "ledger k (ad_cm d') L \<and> ad_global_stream d' = ad_global_stream d \<and> voice_hold d' = voice_hold d"
    if "same_dev d e" "oc_hw x = out_hw out" "do_close_out_common E x e = Some d'" for e and x :: "'a out_common_scheme"
    using that assms(2) ledger_given_back [of k "ad_cm e" "oc_hw x" L] same_dev_voice [OF that(1)]
    by (auto simp: do_close_out_common_def out_hold_def same_dev_def voice_hold_def split: if_splits)
  show ?thesis
  proof (cases out)
    case (OutPcm o1)
    then obtain o2 d2 where "out_pcm_standby E o1 d = Some (o2, d2)" "do_close_out_common E o2 d2 = Some d'"
      using assms(1) by (auto simp: adev_close_output_stream_def do_close_out_pcm_def bind_eq_Some_conv)
    then show ?thesis using out_pcm_standby_same close [of d2 o2] OutPcm by auto
  next
    case (OutCompress o1)
    obtain o2 d2 where o2: "do_standby_compress_l (o1\<lparr>ox_paused := False\<rparr>) d = (o2, d2)" by fastforce
    then have "do_close_out_common E o2 d2 = Some d'"
      using assms(1) OutCompress by (simp add: adev_close_output_stream_def out_compress_close_def out_compress_standby_def)
    then show ?thesis using standby_compress_same [OF o2] close [of d2 o2] OutCompress by auto
  qed
qed

section \<open>Input streams\<close>

lemma next_buffer_same: "get_next_buffer E n i d = Some (r, k, i', d') \<Longrightarrow> same_dev d d' \<and> ic_hw i' = ic_hw i"
  by (auto simp: get_next_buffer_def Let_def split: in_handle.splits option.splits if_splits)

lemma resampled_same:
  assumes "read_resampled_frames E n wr i d = Some (r, i', d')"
  shows "same_dev d d' \<and> ic_hw i' = ic_hw i"
  by (rule resampled_inv [OF assms, where P = "\<lambda>j e. same_dev d e \<and> ic_hw j = ic_hw i"])
    (auto simp: release_buffer_def dest: next_buffer_same intro: same_dev_trans)

lemma open_pcm_input_same: "do_open_pcm_input E i d = Some (r, i', d') \<Longrightarrow> same_dev d d' \<and> ic_hw i' = ic_hw i"
  by (auto simp: do_open_pcm_input_def in_resampler_init_def in_pcm_fill_params_def Let_def split: option.splits if_splits)

lemma pcm_read_same:
  assumes "do_in_pcm_read E n i d = Some (r, i', d')"
  shows "same_dev d d' \<and> ic_hw i' = ic_hw i"
proof -
  obtain k j e where s: "start_pcm_input_stream E i d = Some (k, j, e)"
    using assms by (auto simp: do_in_pcm_read_def split: if_splits option.splits)
  have 1: "same_dev d e \<and> ic_hw j = ic_hw i"
    using s by (auto simp: start_pcm_input_stream_def split: if_splits dest!: open_pcm_input_same)
  have "same_dev e d' \<and> ic_hw i' = ic_hw j"
    using assms s by (auto simp: do_in_pcm_read_def split: if_splits in_handle.splits dest: resampled_same)
  then show ?thesis using 1 same_dev_trans by auto
qed

lemma compress_read_same: "do_in_compress_pcm_read E now n i d = Some (r, i', d') \<Longrightarrow> same_dev d d' \<and> ic_hw i' = ic_hw i"
  by (auto simp: do_in_compress_pcm_read_def start_compress_pcm_input_stream_def do_open_compress_pcm_in_def Let_def
      split: option.splits if_splits in_handle.splits)

lemma read_same:
  assumes "in_pcm_read E now n i d = Some (r, x, i', d')"
  shows "same_dev d d' \<and> ic_hw i' = ic_hw i"
proof -
  obtain k j where s: "(case ic_hw i of None \<Rightarrow> Some (- EINVAL, i, d)
      | Some h \<Rightarrow> if get_current_routes (ad_cm d) h = 0 then Some (- EINVAL, i, d)
          else if stream_is_compressed_in (hw_info d h) then do_in_compress_pcm_read (ie_hal E) now n i d
          else do_in_pcm_read E n i d) = Some (k, j, d')" "i' = do_in_set_read_timestamp now j"
    using assms(1) unfolding in_pcm_read_def by (auto split: option.splits if_splits)
  then have "same_dev d d' \<and> ic_hw j = ic_hw i" using compress_read_same pcm_read_same by (auto split: option.splits if_splits)
  then show ?thesis using s(2) by (simp add: do_in_set_read_timestamp_def)
qed

lemma in_standby_same: "in_pcm_standby E i d = Some (i', d') \<Longrightarrow> same_dev d d' \<and> ic_hw i' = ic_hw i"
  by (auto simp: in_pcm_standby_def do_in_compress_pcm_standby_def do_in_pcm_standby_def in_resampler_free_def
      split: option.splits if_splits in_handle.splits)

section \<open>Voice trigger\<close>

lemma voice_open_refs:
  assumes "ledger k (ad_cm d) L"
  shows "ledger k (ad_cm (do_voice_trigger_open_stream E name d)) (maybe (ad_voice_stream (do_voice_trigger_open_stream E name d)) + L)"
    "ad_global_stream (do_voice_trigger_open_stream E name d) = ad_global_stream d"
  using assms ledger_taken(1) [of "he_alsa E" name "ad_cm d"] ledger_not_taken(1) [of "he_alsa E" name "ad_cm d"]
  by (auto simp: do_voice_trigger_open_stream_def Let_def split: prod.splits option.splits)

lemma voice_close_refs:
  assumes "ledger k (ad_cm d) (maybe (ad_voice_stream d) + L)"
  shows "ledger k (ad_cm (do_voice_trigger_close_stream E d)) L"
    "ad_global_stream (do_voice_trigger_close_stream E d) = ad_global_stream d"
  using assms by (auto simp: do_voice_trigger_close_stream_def intro!: ledger_given_back split: option.splits)

lemma voice_refs:
  assumes "ledger k (ad_cm d) (voice_hold d + L)"
  shows voice_triggered_refs: "ledger k (ad_cm (voice_trigger_triggered d)) (voice_hold (voice_trigger_triggered d) + L)"
    and voice_started_refs: "ledger k (ad_cm (voice_trigger_audio_started_locked d)) (voice_hold (voice_trigger_audio_started_locked d) + L)"
    and voice_ended_refs: "ledger k (ad_cm (voice_trigger_audio_ended_locked E d)) (voice_hold (voice_trigger_audio_ended_locked E d) + L)"
    and voice_disable_refs: "ledger k (ad_cm (voice_trigger_disable E d)) (voice_hold (voice_trigger_disable E d) + L)"
proof -
  have close: "ledger k (ad_cm (do_voice_trigger_close_stream E d)) L" if "voice_hold d = maybe (ad_voice_stream d)"
    using assms voice_close_refs(1) that by simp
  show "ledger k (ad_cm (voice_trigger_triggered d)) (voice_hold (voice_trigger_triggered d) + L)"
    "ledger k (ad_cm (voice_trigger_audio_started_locked d)) (voice_hold (voice_trigger_audio_started_locked d) + L)"
    using assms by (auto simp: voice_trigger_triggered_def voice_trigger_audio_started_locked_def voice_hold_def split: voice_state.splits)
  show "ledger k (ad_cm (voice_trigger_audio_ended_locked E d)) (voice_hold (voice_trigger_audio_ended_locked E d) + L)"
    using assms close by (cases "ad_voice_st d") (simp_all add: voice_trigger_audio_ended_locked_def voice_hold_def)
  show "ledger k (ad_cm (voice_trigger_disable E d)) (voice_hold (voice_trigger_disable E d) + L)"
    using assms close by (cases "ad_voice_st d") (simp_all add: voice_trigger_disable_def voice_hold_def)
qed

lemma voice_global [simp]:
  "ad_global_stream (voice_trigger_triggered d) = ad_global_stream d"
  "ad_global_stream (voice_trigger_audio_started_locked d) = ad_global_stream d"
  "ad_global_stream (do_voice_trigger_close_stream E d) = ad_global_stream d"
  "ad_global_stream (do_voice_trigger_open_stream E name d) = ad_global_stream d"
  by (auto simp: voice_trigger_triggered_def voice_trigger_audio_started_locked_def do_voice_trigger_close_stream_def
      do_voice_trigger_open_stream_def Let_def split: voice_state.splits option.splits prod.splits)

lemma voice_ended_global [simp]:
  "ad_global_stream (voice_trigger_audio_ended_locked E d) = ad_global_stream d"
  "ad_global_stream (voice_trigger_disable E d) = ad_global_stream d" "ad_global_stream (voice_trigger_enable E d) = ad_global_stream d"
  by (simp_all add: voice_trigger_audio_ended_locked_def voice_trigger_disable_def voice_trigger_enable_def split: voice_state.splits)

text \<open>Enabling a trigger that has fired opens its stream again and forgets the first reference.\<close>

definition rearms :: "audio_dev \<Rightarrow> bool" where
  "rearms d \<longleftrightarrow> ad_voice_st d = eVoiceTriggerFired \<and> ad_voice_stream d \<noteq> None"

lemma voice_enable_refs:
  assumes "ledger k (ad_cm d) (voice_hold d + L)"
  shows "ledger k (ad_cm (voice_trigger_enable E d)) (voice_hold (voice_trigger_enable E d) + (if rearms d then maybe (ad_voice_stream d) else {#}) + L)"
proof (cases "ad_voice_st d")
  case eVoiceTriggerFired
  let ?d = "do_voice_trigger_open_stream E kVoiceTriggerStreamName d"
  have "ledger k (ad_cm d) (maybe (ad_voice_stream d) + L)" using assms eVoiceTriggerFired by (simp add: voice_hold_def)
  from voice_open_refs(1) [OF this, of E kVoiceTriggerStreamName]
  show ?thesis using eVoiceTriggerFired by (auto simp: voice_trigger_enable_def rearms_def voice_hold_def ac_simps)
qed (use assms voice_open_refs(1) [of k d L] in \<open>auto simp: voice_trigger_enable_def rearms_def voice_hold_def\<close>)

section \<open>Changing the input source\<close>

text \<open>The stream that is taken for a source: the named one, or else any of the wanted type.\<close>

lemma source_taken:
  assumes "ledger k cm0 L"
    "(case name of None \<Rightarrow> (None, cm0) | Some n \<Rightarrow> get_named_stream (he_alsa E) n cm0) = (hw1, cm1)"
    "(case hw1 of Some h \<Rightarrow> (Some h, cm1) | None \<Rightarrow> get_stream (he_alsa E) (he_h E) w f cm1) = (hw, cm)"
  shows "ledger k cm (maybe hw + L)"
proof -
  have 1: "ledger k cm1 (maybe hw1 + L)" using assms(1,2)
    by (cases hw1) (auto split: option.splits intro: ledger_taken(1) ledger_not_taken(1))
  then show ?thesis using assms(3)
    by (cases hw1; cases hw) (auto intro: ledger_taken(2) ledger_not_taken(2))
qed

lemma voice_hold_other [simp]: "voice_hold (d\<lparr>ad_cm := cm\<rparr>) = voice_hold d" "voice_hold (d\<lparr>ad_active_voice_control := a\<rparr>) = voice_hold d"
  "voice_hold (d\<lparr>ad_voice_trig_mic := m\<rparr>) = voice_hold d"
  by (simp_all add: voice_hold_def)

lemma change_source_refs:
  assumes "change_input_source_locked E me v w i d = (r, i', d')" "ledger k (ad_cm d) (in_hold i + voice_hold d + L)"
  shows "ledger k (ad_cm d') (in_hold i' + voice_hold d' + L) \<and> ad_global_stream d' = ad_global_stream d"
proof (cases "\<not> ic_standby i \<or> ic_input_source i = atoi v")
  case False
  define vc where "vc \<longleftrightarrow> atoi v = he_voice_recognition E"
  obtain hw1 cm1 where hw1: "(case (if vc then voice_trigger_audio_stream_name d else None) of None \<Rightarrow> (None, ad_cm d)
      | Some n \<Rightarrow> get_named_stream (he_alsa E) n (ad_cm d)) = (hw1, cm1)" by fastforce
  obtain hw cm where hw: "(case hw1 of Some h \<Rightarrow> (Some h, cm1) | None \<Rightarrow> get_stream (he_alsa E) (he_h E) w (ic_format i) cm1) = (hw, cm)" by fastforce
  have taken: "ledger k cm (maybe hw + (in_hold i + voice_hold d + L))" by (rule source_taken [OF assms(2) hw1 hw])
  show ?thesis
  proof (cases hw)
    case None
    then have "i' = i \<and> d' = d\<lparr>ad_cm := cm\<rparr>"
      using assms(1) False hw1 hw unfolding change_input_source_locked_def Let_def vc_def by simp
    then show ?thesis using taken None by simp
  next
    case (Some h)
    define cm2 where "cm2 = (case ic_hw i of None \<Rightarrow> cm | Some old \<Rightarrow> release_stream (he_alsa E) (he_h E) (Some old) cm)"
    have cm2: "ledger k cm2 (voice_hold d + ({#h#} + L))" using taken Some
      by (cases "ic_hw i") (auto simp: cm2_def in_hold_def ac_simps intro!: ledger_given_back)
    define d1 where "d1 = (if vc then voice_trigger_audio_started_locked (d\<lparr>ad_cm := cm2, ad_active_voice_control := Some me\<rparr>)
        else if ad_active_voice_control d = Some me
        then voice_trigger_audio_ended_locked E (d\<lparr>ad_cm := cm2, ad_active_voice_control := None\<rparr>) else d\<lparr>ad_cm := cm2\<rparr>)"
    have "i' = i\<lparr>ic_hw := Some h, ic_input_source := atoi v\<rparr> \<and> d' = d1"
      using assms(1) False hw1 hw Some unfolding change_input_source_locked_def Let_def vc_def d1_def cm2_def by (simp cong: if_cong)
    moreover have "ledger k (ad_cm d1) (voice_hold d1 + ({#h#} + L)) \<and> ad_global_stream d1 = ad_global_stream d"
      unfolding d1_def using cm2 voice_started_refs [of k "d\<lparr>ad_cm := cm2, ad_active_voice_control := Some me\<rparr>" "{#h#} + L"]
        voice_ended_refs [of k "d\<lparr>ad_cm := cm2, ad_active_voice_control := None\<rparr>" "{#h#} + L" E] by simp
    ultimately show ?thesis by (simp add: in_hold_def)
  qed
next
  case True
  then have "i' = i \<and> d' = d" using assms(1) by (auto simp: change_input_source_locked_def Let_def split: if_splits)
  then show ?thesis using assms(2) by simp
qed

lemma set_params_refs:
  assumes "in_pcm_set_parameters E me kv i d = (i', d')" "ledger k (ad_cm d) (in_hold i + voice_hold d + L)"
  shows "ledger k (ad_cm d') (in_hold i' + voice_hold d' + L) \<and> ad_global_stream d' = ad_global_stream d"
proof (cases "he_parm E kv ''input_source''")
  case None
  then have "same_refs d d' \<and> in_hold i' = in_hold i" using assms(1)
    by (auto simp: in_pcm_set_parameters_def Let_def in_hold_def intro!: same_refs_cm split: option.splits)
  then show ?thesis using assms(2) by (simp add: same_refs_def)
next
  case (Some v)
  define w where "w = (case common_get_routing_param E kv of Some w \<Rightarrow> w | None \<Rightarrow>
      (case ic_hw i of Some h \<Rightarrow> get_routed_devices (ad_cm d) h | None \<Rightarrow> 0))"
  obtain r j e where c: "change_input_source_locked E me v w i d = (r, j, e)" by (metis prod_cases3)
  have "same_refs e d' \<and> in_hold i' = in_hold j"
    using assms(1) Some c unfolding in_pcm_set_parameters_def Let_def w_def [symmetric]
    by (auto simp: in_hold_def intro!: same_refs_cm split: if_splits option.splits) (auto simp: same_refs_def)
  then show ?thesis using change_source_refs [OF c assms(2)] by (simp add: same_refs_def)
qed

lemma in_do_refs:
  assumes "in_do E f me i d = Some (i', d')" "ledger k (ad_cm d) (in_hold i + voice_hold d + L)"
  shows "ledger k (ad_cm d') (in_hold i' + voice_hold d' + L) \<and> ad_global_stream d' = ad_global_stream d"
proof (cases "\<exists>kv. f = ISetParams kv")
  case True
  then show ?thesis using assms set_params_refs by (auto simp: in_do_def)
next
  case False
  then have s: "same_dev d d'" "ic_hw i' = ic_hw i" using assms(1) by (cases f; auto simp: in_do_def dest: read_same in_standby_same)+
  then show ?thesis using assms(2) same_dev_voice [OF s(1)] by (simp add: same_dev_def in_hold_def)
qed

lemma close_in_common_refs:
  assumes "do_close_in_common E me i d = Some d'" "ledger k (ad_cm d) (in_hold i + voice_hold d + L)"
  shows "ledger k (ad_cm d') (voice_hold d' + L) \<and> ad_global_stream d' = ad_global_stream d"
proof -
  obtain j e where j: "in_pcm_standby E i d = Some (j, e)" using assms(1) by (auto simp: do_close_in_common_def split: option.splits)
  define e1 where "e1 = (if ad_active_voice_control e = Some me
      then voice_trigger_audio_ended_locked E (e\<lparr>ad_active_voice_control := None\<rparr>) else e)"
  note s = in_standby_same [OF j]
  have "ledger k (ad_cm e) (voice_hold e + (in_hold j + L))"
    using assms(2) s same_dev_voice [of d e] by (simp add: same_dev_def in_hold_def ac_simps)
  then have e1: "ledger k (ad_cm e1) (in_hold j + (voice_hold e1 + L)) \<and> ad_global_stream e1 = ad_global_stream d"
    using voice_ended_refs [of k "e\<lparr>ad_active_voice_control := None\<rparr>" "in_hold j + L" E] s
    by (auto simp: e1_def same_dev_def ac_simps)
  have "d' = (case ic_hw j of None \<Rightarrow> e1 | Some h \<Rightarrow> e1\<lparr>ad_cm := release_stream (he_alsa E) (he_h E) (Some h) (ad_cm e1)\<rparr>)"
    using assms(1) j unfolding do_close_in_common_def e1_def Let_def by simp
  then show ?thesis using e1 ledger_given_back [of k "ad_cm e1"] by (cases "ic_hw j") (auto simp: in_hold_def)
qed

lemma close_in_refs:
  assumes "adev_close_input_stream E me i d = Some d'" "ledger k (ad_cm d) (in_hold i + voice_hold d + L)"
  shows "ledger k (ad_cm d') (voice_hold d' + L) \<and> ad_global_stream d' = ad_global_stream d"
proof -
  have "\<exists>j e. do_close_in_common E me j e = Some d' \<and> same_dev d e \<and> in_hold j = in_hold i"
  proof (cases "\<exists>h. ic_hw i = Some h \<and> stream_is_compressed (hw_info d h)")
    case True
    then obtain j e where j: "do_in_compress_pcm_close i d = Some (j, e)" "do_close_in_common E me j e = Some d'"
      using assms(1) by (auto simp: adev_close_input_stream_def do_close_in_pcm_def split: option.splits)
    have "same_dev d e \<and> in_hold j = in_hold i"
      using j(1) by (auto simp: do_in_compress_pcm_close_def in_hold_def split: in_handle.splits)
    then show ?thesis using j(2) by blast
  next
    case False
    then have "do_close_in_common E me i d = Some d'"
      using assms(1) by (auto simp: adev_close_input_stream_def do_close_in_pcm_def split: option.splits)
    then show ?thesis using same_dev_simps(1) by blast
  qed
  then obtain j e where j: "do_close_in_common E me j e = Some d'" "same_dev d e" "in_hold j = in_hold i" by blast
  have "ledger k (ad_cm e) (in_hold j + voice_hold e + L)" "ad_global_stream e = ad_global_stream d"
    using assms(2) j(2,3) same_dev_voice [OF j(2)] by (simp_all add: same_dev_def)
  then show ?thesis using close_in_common_refs [OF j(1)] by simp
qed

section \<open>Sequences of calls\<close>

text \<open>The calls that lose a reference: opening a compressed output that fails, and enabling a trigger that has fired.\<close>

fun leak :: "in_env \<Rightarrow> call \<Rightarrow> hal \<Rightarrow> nat" where
  "leak E (OpenOut devices config) s =
     (case adev_open_output_stream (ie_hal E) devices config (hl_dev s) of
        Some (r, None, d) \<Rightarrow>
          size (maybe (fst (get_stream (he_alsa (ie_hal E)) (he_h (ie_hal E)) (devices AND OUT_ALL (he_h (ie_hal E))) (cfg_format config) (ad_cm (hl_dev s)))))
      | _ \<Rightarrow> 0)"
| "leak E (SetParams kv) s = (if he_parm (ie_hal E) kv ''voice_trigger'' = Some ''1'' \<and> rearms (hl_dev s) then 1 else 0)"
| "leak E c s = 0"

fun leaks :: "in_env \<Rightarrow> call list \<Rightarrow> hal \<Rightarrow> nat" where
  "leaks E [] s = 0"
| "leaks E (c # cs) s = leak E c s + (case hal_do E c s of None \<Rightarrow> 0 | Some t \<Rightarrow> leaks E cs t)"

lemma set_parameters_refs:
  assumes "ledger k (ad_cm d) (voice_hold d + L)"
  shows "\<exists>Y. size Y = (if he_parm E kv ''voice_trigger'' = Some ''1'' \<and> rearms d then 1 else 0) \<and>
      ledger k (ad_cm (adev_set_parameters E kv d)) (voice_hold (adev_set_parameters E kv d) + Y + L) \<and>
      ad_global_stream (adev_set_parameters E kv d) = ad_global_stream d"
proof -
  define d1 where "d1 = (case he_parm E kv ''voice_trigger_mic'' of None \<Rightarrow> d | Some v \<Rightarrow> d\<lparr>ad_voice_trig_mic := of_int (atoi v)\<rparr>)"
  have d1: "ledger k (ad_cm d1) (voice_hold d1 + L)" "rearms d1 = rearms d" "ad_voice_stream d1 = ad_voice_stream d" "ad_global_stream d1 = ad_global_stream d"
    using assms by (simp_all add: d1_def rearms_def split: option.splits)
  define Y where "Y = (if he_parm E kv ''voice_trigger'' = Some ''1'' \<and> rearms d then maybe (ad_voice_stream d) else {#})"
  define d2 where "d2 = voice_trigger_set_params E kv d"
  have d2: "d2 = (case he_parm E kv ''voice_trigger'' of None \<Rightarrow> d1
      | Some v \<Rightarrow> if v = ''2'' then voice_trigger_triggered d1 else if v = ''1'' then voice_trigger_enable E d1
          else if v = ''0'' then voice_trigger_disable E d1 else d1)"
    unfolding d2_def voice_trigger_set_params_def d1_def Let_def by (rule refl)
  have "ledger k (ad_cm d2) (voice_hold d2 + Y + L) \<and> ad_global_stream d2 = ad_global_stream d"
    using voice_enable_refs [OF d1(1), of E] voice_triggered_refs [OF d1(1)] voice_disable_refs [OF d1(1), of E] d1
    unfolding d2 Y_def by (auto split: option.splits)
  moreover have "adev_set_parameters E kv d = (case ad_global_stream d2 of None \<Rightarrow> d2
      | Some g \<Rightarrow> d2\<lparr>ad_cm := snd (stream_invoke_usecases E (Some g) kv (ad_cm d2))\<rparr>)"
    unfolding adev_set_parameters_def d2_def Let_def by (rule refl)
  moreover have "size Y = (if he_parm E kv ''voice_trigger'' = Some ''1'' \<and> rearms d then 1 else 0)"
    by (auto simp: Y_def rearms_def)
  ultimately show ?thesis by (intro exI [of _ Y]) (auto split: option.splits)
qed

lemma out_slot_refs:
  assumes "ledger k (ad_cm (hl_dev s)) (held s + X)" "stream_at (hl_outs s) n = Some out"
    and "\<And>L. ledger k (ad_cm (hl_dev s)) (out_hold out + L) \<Longrightarrow>
      ledger k (ad_cm d) (case_option {#} out_hold x + L) \<and> ad_global_stream d = ad_global_stream (hl_dev s) \<and> voice_hold d = voice_hold (hl_dev s)"
  shows "ledger k (ad_cm d) (held (s\<lparr>hl_dev := d, hl_outs := (hl_outs s)[n := x]\<rparr>) + X)"
proof -
  obtain L where L: "owned out_hold (hl_outs s) = L + out_hold out" "\<forall>y. owned out_hold ((hl_outs s)[n := y]) = L + case_option {#} out_hold y"
    using owned_slot [OF assms(2), of out_hold] by blast
  have "ledger k (ad_cm (hl_dev s)) (out_hold out + (maybe (ad_global_stream (hl_dev s)) + voice_hold (hl_dev s) + L + owned in_hold (hl_ins s) + X))"
    using assms(1) L(1) by (simp add: held_def ac_simps)
  from assms(3) [OF this] show ?thesis using L(2) by (simp add: held_def ac_simps)
qed

lemma in_slot_refs:
  assumes "ledger k (ad_cm (hl_dev s)) (held s + X)" "stream_at (hl_ins s) n = Some i"
    and "\<And>L. ledger k (ad_cm (hl_dev s)) (in_hold i + voice_hold (hl_dev s) + L) \<Longrightarrow>
      ledger k (ad_cm d) (case_option {#} in_hold x + voice_hold d + L) \<and> ad_global_stream d = ad_global_stream (hl_dev s)"
  shows "ledger k (ad_cm d) (held (s\<lparr>hl_dev := d, hl_ins := (hl_ins s)[n := x]\<rparr>) + X)"
proof -
  obtain L where L: "owned in_hold (hl_ins s) = L + in_hold i" "\<forall>y. owned in_hold ((hl_ins s)[n := y]) = L + case_option {#} in_hold y"
    using owned_slot [OF assms(2), of in_hold] by blast
  have "ledger k (ad_cm (hl_dev s)) (in_hold i + voice_hold (hl_dev s) + (maybe (ad_global_stream (hl_dev s)) + L + owned out_hold (hl_outs s) + X))"
    using assms(1) L(1) by (simp add: held_def ac_simps)
  from assms(3) [OF this] show ?thesis using L(2) by (simp add: held_def ac_simps)
qed

lemma open_out_refs:
  assumes "adev_open_output_stream (ie_hal E) devices config (hl_dev s) = Some (r, out, d)" "ledger k (ad_cm (hl_dev s)) (held s + X)"
  shows "\<exists>Y. size Y = leak E (OpenOut devices config) s \<and>
    ledger k (ad_cm d) (held (s\<lparr>hl_dev := d, hl_outs := hl_outs s @ [out]\<rparr>) + (Y + X))"
  using assms(1)
proof (cases rule: open_output_cases)
  case (1 cm)
  then show ?thesis using assms ledger_not_taken(2) [OF 1(1) assms(2)] by (auto simp: held_def voice_hold_def intro!: exI [of _ "{#}"])
next
  case (2 i cm o1)
  then show ?thesis using assms(1) ledger_taken(2) [OF 2(1) assms(2)]
    by (auto simp: held_def voice_hold_def out_hold_def ac_simps intro!: exI [of _ "{#}"])
next
  case (3 i cm o1)
  then show ?thesis using assms(1) ledger_taken(2) [OF 3(1) assms(2)]
    by (auto simp: held_def voice_hold_def out_hold_def ac_simps intro!: exI [of _ "{#}"])
next
  case (4 i cm)
  then show ?thesis using assms(1) ledger_taken(2) [OF 4(1) assms(2)]
    by (auto simp: held_def voice_hold_def ac_simps intro!: exI [of _ "{#i#}"])
qed

lemma hal_do_refs:
  assumes "hal_do E c s = Some t" "ledger k (ad_cm (hl_dev s)) (held s + X)"
  shows "\<exists>Y. size Y = leak E c s \<and> ledger k (ad_cm (hl_dev t)) (held t + (Y + X))"
proof -
  have none: ?thesis if "leak E c s = 0" "ledger k (ad_cm (hl_dev t)) (held t + X)" using that by (intro exI [of _ "{#}"]) simp
  show ?thesis
  proof (cases c)
    case (OpenOut devices config)
    then obtain r out d where "adev_open_output_stream (ie_hal E) devices config (hl_dev s) = Some (r, out, d)"
      "t = s\<lparr>hl_dev := d, hl_outs := hl_outs s @ [out]\<rparr>" using assms(1) by auto
    then show ?thesis using open_out_refs [OF _ assms(2)] OpenOut by simp
  next
    case (DoOut n f)
    show ?thesis
    proof (cases "stream_at (hl_outs s) n")
      case (Some out)
      then obtain out' d where d: "out_do (ie_hal E) f out (hl_dev s) = Some (out', d)"
        "t = s\<lparr>hl_dev := d, hl_outs := (hl_outs s)[n := Some out']\<rparr>" using assms(1) DoOut by auto
      show ?thesis using out_slot_refs [OF assms(2) Some, of d "Some out'"] out_do_refs [OF d(1)] d(2) DoOut
        by (intro none) (auto simp: same_refs_def)
    qed (use assms DoOut in \<open>auto intro!: none\<close>)
  next
    case (CloseOut n)
    show ?thesis
    proof (cases "stream_at (hl_outs s) n")
      case (Some out)
      then obtain d where d: "adev_close_output_stream (ie_hal E) out (hl_dev s) = Some d"
        "t = s\<lparr>hl_dev := d, hl_outs := (hl_outs s)[n := None]\<rparr>" using assms(1) CloseOut by auto
      show ?thesis using out_slot_refs [OF assms(2) Some, of d None] close_out_refs [OF d(1)] d(2) CloseOut by (intro none) auto
    qed (use assms CloseOut in \<open>auto intro!: none\<close>)
  next
    case (DoIn n f)
    show ?thesis
    proof (cases "stream_at (hl_ins s) n")
      case (Some i)
      then obtain i' d where d: "in_do E f n i (hl_dev s) = Some (i', d)"
        "t = s\<lparr>hl_dev := d, hl_ins := (hl_ins s)[n := Some i']\<rparr>" using assms(1) DoIn by auto
      show ?thesis using in_slot_refs [OF assms(2) Some, of d "Some i'"] in_do_refs [OF d(1)] d(2) DoIn by (intro none) auto
    qed (use assms DoIn in \<open>auto intro!: none\<close>)
  next
    case (CloseIn n)
    show ?thesis
    proof (cases "stream_at (hl_ins s) n")
      case (Some i)
      then obtain d where d: "adev_close_input_stream (ie_hal E) n i (hl_dev s) = Some d"
        "t = s\<lparr>hl_dev := d, hl_ins := (hl_ins s)[n := None]\<rparr>" using assms(1) CloseIn by auto
      show ?thesis using in_slot_refs [OF assms(2) Some, of d None] close_in_refs [OF d(1)] d(2) CloseIn by (intro none) auto
    qed (use assms CloseIn in \<open>auto intro!: none\<close>)
  next
    case (OpenIn devices config)
    then show ?thesis using assms by (intro none) (auto simp: held_def adev_open_input_stream_def do_init_in_pcm_def
          do_init_in_common_def in_hold_def)
  next
    case (SetParams kv)
    define L where "L = maybe (ad_global_stream (hl_dev s)) + owned out_hold (hl_outs s) + owned in_hold (hl_ins s) + X"
    have "ledger k (ad_cm (hl_dev s)) (voice_hold (hl_dev s) + L)" using assms(2) by (simp add: held_def L_def ac_simps)
    from set_parameters_refs [OF this, of "ie_hal E" kv] show ?thesis using assms(1) SetParams
      by (auto simp: held_def L_def ac_simps)
  next
    case (MicMute b)
    then show ?thesis using assms by (intro none) (auto simp: held_def adev_set_mic_mute_def voice_hold_def)
  qed
qed

lemma hal_run_refs:
  "hal_run E cs s = Some t \<Longrightarrow> ledger k (ad_cm (hl_dev s)) (held s + X) \<Longrightarrow>
    \<exists>Y. size Y = leaks E cs s \<and> ledger k (ad_cm (hl_dev t)) (held t + (Y + X))"
proof (induction cs arbitrary: s X)
  case (Cons c cs)
  then obtain u where u: "hal_do E c s = Some u" "hal_run E cs u = Some t" by (auto simp: bind_eq_Some_conv)
  obtain Y where Y: "size Y = leak E c s" "ledger k (ad_cm (hl_dev u)) (held u + (Y + X))" using hal_do_refs [OF u(1) Cons.prems(2)] by blast
  obtain Z where Z: "size Z = leaks E cs u" "ledger k (ad_cm (hl_dev t)) (held t + (Z + (Y + X)))" using Cons.IH [OF u(2) Y(2)] by blast
  then show ?case using Y(1) u(1) by (intro exI [of _ "Z + Y"]) (simp add: ac_simps)
qed (auto intro: exI [of _ "{#}"])

lemma hal_open_refs:
  assumes "audio_open E cm = Some s" "\<forall>i. refs cm i = 0"
  shows "ledger (kinds cm) (ad_cm (hl_dev s)) (held s)"
proof -
  obtain g cm' where g: "get_named_stream (he_alsa (ie_hal E)) ''global'' cm = (g, cm')" by fastforce
  have "ledger (kinds cm) cm {#}" using assms(2) by (simp add: ledger_def balanced_def)
  then have "ledger (kinds cm) cm' (maybe g)" using ledger_taken(1) ledger_not_taken(1) g by (cases g) auto
  then show ?thesis using assms(1) g
    by (auto simp: audio_open_def adev_open_def held_def voice_trigger_init_def voice_hold_def)
qed

text \<open>
  C6. After any sequence of calls on a freshly opened device the reference count of every stream of the configuration is
  the number of its holders (open streams, the global stream, an armed voice trigger) plus the references that were
  lost, and these are exactly as many as there were failed openings of a compressed output and enablings of a trigger that
  had fired. No reference is given back twice, and without those calls none is lost.
\<close>

theorem references_are_held:
  assumes "audio_open E cm = Some s" "\<forall>i. refs cm i = 0" "hal_run E calls s = Some t"
  shows "\<exists>lost. size lost = leaks E calls s \<and> (\<forall>i. refs (ad_cm (hl_dev t)) i = int (count (held t) i) + int (count lost i))"
proof -
  have "ledger (kinds cm) (ad_cm (hl_dev s)) (held s + {#})" using hal_open_refs [OF assms(1,2)] by simp
  from hal_run_refs [OF assms(3) this] show ?thesis by (auto simp: ledger_def balanced_def)
qed

lemma example_refs: "\<forall>i. refs example_cm i = 0"
  by (auto simp: refs_def example_cm_def plain_stream_def less_Suc_eq numeral_2_eq_2)

theorem references_are_held_witness:
  "\<exists>t. hal_run quiet_env [OpenOut 2 music, DoOut 0 (OWrite 1024)] example_hal = Some t \<and> length (hl_outs t) = 1 \<and>
     (\<forall>i. refs (ad_cm (hl_dev t)) i = int (count (held t) i))"
proof -
  obtain t out p where t: "hal_run quiet_env [OpenOut 2 music, DoOut 0 (OWrite 1024)] example_hal = Some t" "hl_outs t = [Some (OutPcm out)]"
    "op_pcm out = Live p" "pc_fd p = 0" "hl_ins t = []" using example_playing by (elim exE conjE) (rule that)
  obtain o1 d where "adev_open_output_stream quiet_hal 2 music (hl_dev example_hal) = Some (0, Some (OutPcm o1), d)"
    using example_opened by blast
  then have "leaks quiet_env [OpenOut 2 music, DoOut 0 (OWrite 1024)] example_hal = 0"
    by (simp add: quiet_env_def split: option.splits)
  then have "\<forall>i. refs (ad_cm (hl_dev t)) i = int (count (held t) i)"
    using references_are_held [OF example_hal_open example_refs t(1)] by auto
  then show ?thesis using t(1,2) by auto
qed

section \<open>Playback returns\<close>

definition periods_ok :: "hw_stream \<Rightarrow> bool" where
  "periods_ok hw \<longleftrightarrow> (let n = or_default (hs_period_count hw) 4 * or_default (hs_period_size hw) 256 in 0 < n \<and> n \<le> 0x7FFFFFFF)"

fun out_call :: "call \<Rightarrow> bool" where
  "out_call (OpenOut devices config) = True"
| "out_call (DoOut k f) = True"
| "out_call (CloseOut k) = True"
| "out_call c = False"

text \<open>The calls of a client that do not return: a PCM stream opened with rate 0 and a drain, asked for or taken by the
  helper thread, when the compressed device is not open, crash; closing a stream whose helper thread does not end waits
  for it.\<close>

fun no_return :: "in_env \<Rightarrow> call \<Rightarrow> hal \<Rightarrow> bool" where
  "no_return E (OpenOut devices config) s \<longleftrightarrow>
     cfg_sample_rate config = 0 \<and>
     (case fst (get_stream (he_alsa (ie_hal E)) (he_h (ie_hal E)) (devices AND OUT_ALL (he_h (ie_hal E))) (cfg_format config) (ad_cm (hl_dev s))) of
        None \<Rightarrow> False
      | Some i \<Rightarrow> hs_type (kinds (ad_cm (hl_dev s)) ! i) = e_stream_out_pcm)"
| "no_return E (DoOut k f) s \<longleftrightarrow>
     (case stream_at (hl_outs s) k of
        Some (OutCompress out) \<Rightarrow>
          ox_compress out = None \<and>
          (case f of ODrain early \<Rightarrow> \<not> oc_use_async out | OAsync \<Rightarrow> oc_async_mode out \<noteq> ASYNC_NONE | _ \<Rightarrow> False)
      | _ \<Rightarrow> False)"
| "no_return E (CloseOut k) s \<longleftrightarrow>
     (case stream_at (hl_outs s) k of
        Some (OutPcm out) \<Rightarrow> oc_use_async out \<and> \<not> he_join (ie_hal E) (ad_clog (hl_dev s))
      | Some (OutCompress out) \<Rightarrow> oc_use_async out \<and>
          \<not> he_join (ie_hal E) (ad_clog (snd (out_compress_standby (out\<lparr>ox_paused := False\<rparr>) (hl_dev s))))
      | None \<Rightarrow> False)"
| "no_return E c s \<longleftrightarrow> False"

lemma pcm_open_returns:
  assumes "0 < period_count c * period_size c" "period_count c * period_size c \<le> 0x7FFFFFFF"
  shows "\<exists>p l'. pcm_open K a b flags (Some c) l = Some (p, l')"
proof -
  have "0 < unat (period_count c * period_size c)" "unat (period_count c * period_size c) \<le> 0x7FFFFFFF"
    using assms by (simp_all add: word_less_nat_alt word_le_nat_alt)
  then obtain x where "boundary_loop (period_count c * period_size c) (period_count c * period_size c) = Some x"
    using boundary_loop_ends by blast
  then have set: "(pcm_set_config K (Some c) p l = None) = False" for p l
    by (simp add: pcm_set_config_def finish_config_def Let_def)
  have "pcm_open K a b flags (Some c) l \<noteq> None" by (simp add: pcm_open_def Let_def set split: option.split)
  then show ?thesis by auto
qed

lemma pcm_write_returns:
  assumes "periods_ok (hw_info d (oc_hw out))" "out_ok (OutPcm out)"
  shows "out_pcm_write E n out d \<noteq> None"
proof -
  have frames: "write_frames E n x e \<noteq> None" if "op_pcm x = Live p" for x e p
    using that pcm_writei_returns [of "he_pcm E" "unat (pcm_bytes_to_frames p (of_nat n))" p "ad_plog e"]
    by (auto simp: write_frames_def)
  show ?thesis
  proof (cases "oc_standby out")
    case True
    let ?hw = "hw_info d (oc_hw out)" and ?c = "out_pcm_config d out"
    have "period_count ?c * period_size ?c = or_default (hs_period_count ?hw) 4 * or_default (hs_period_size ?hw) 256"
      by (simp add: out_pcm_config_def out_pcm_cfg_period_size_def out_pcm_cfg_period_count_def)
    then obtain p l where p: "pcm_open (he_pcm E) (hs_card_number ?hw) (hs_device_number ?hw) PCM_OUT (Some ?c) (ad_plog d) = Some (p, l)"
      using pcm_open_returns [of ?c "he_pcm E"] assms(1) unfolding periods_ok_def Let_def by metis
    define o1 where "o1 = (out_pcm_fill_params p ?c (out\<lparr>op_pcm := Live p\<rparr>))\<lparr>oc_standby := False\<rparr>"
    have "write_frames E n o1 (d\<lparr>ad_plog := l\<rparr>) \<noteq> None" by (rule frames [of _ p]) (simp add: o1_def out_pcm_fill_params_def)
    then show ?thesis using True p by (simp add: out_pcm_write_def start_output_pcm_def Let_def o1_def [symmetric])
  next
    case False
    then obtain p where "op_pcm out = Live p" using assms(2) by (auto split: pointer.splits)
    then show ?thesis using False frames [of out p d] by (auto simp: out_pcm_write_def)
  qed
qed

lemma compress_write_returns: "out_compress_write E n out d \<noteq> None"
proof -
  obtain r o1 d1 where o: "open_output_compress E out d = (r, o1, d1)" by (metis prod_cases3)
  show ?thesis
  proof (cases "r < 0")
    case False
    then obtain h where "ox_compress o1 = Some h" using open_compress_owns [OF o] by auto
    then show ?thesis unfolding out_compress_write_def o Let_def by (simp split: prod.split)
  qed (simp add: out_compress_write_def o)
qed

lemma out_do_returns:
  assumes "periods_ok (hw_info d (out_hw out))" "out_ok out"
  shows "out_do E f out d = None \<longleftrightarrow>
    (case out of OutCompress out \<Rightarrow>
        ox_compress out = None \<and> (case f of ODrain early \<Rightarrow> \<not> oc_use_async out | OAsync \<Rightarrow> oc_async_mode out \<noteq> ASYNC_NONE | _ \<Rightarrow> False)
     | _ \<Rightarrow> False)"
proof (cases out)
  case (OutPcm o1)
  have "out_pcm_standby E o1 d \<noteq> None" using assms(2) OutPcm
    by (auto simp: out_pcm_standby_def do_out_pcm_standby_def split: pointer.splits)
  moreover have "out_pcm_write E n o1 d \<noteq> None" for n using pcm_write_returns assms OutPcm by simp
  ultimately show ?thesis using OutPcm by (cases f) (simp_all add: out_do_def pcm_do_def)
next
  case (OutCompress o1)
  have "compress_do E f o1 d = None \<longleftrightarrow>
    ox_compress o1 = None \<and> (case f of ODrain early \<Rightarrow> \<not> oc_use_async o1 | OAsync \<Rightarrow> oc_async_mode o1 \<noteq> ASYNC_NONE | _ \<Rightarrow> False)"
  proof (cases f)
    case (OWrite n)
    then show ?thesis using compress_write_returns by (simp add: compress_do_def)
  next
    case OPosition
    then show ?thesis using assms(2) OutCompress by (auto simp: compress_do_def out_compress_get_render_position_def Let_def)
  next
    case (ODrain b)
    then show ?thesis by (auto simp: compress_do_def out_compress_drain_def Let_def split: option.splits prod.splits if_splits)
  next
    case OAsync
    then show ?thesis by (cases "oc_async_mode o1") (auto simp: compress_do_def out_compress_async_round_def split: option.splits)
  qed (simp_all add: compress_do_def)
  then show ?thesis using OutCompress by (simp add: out_do_def)
qed

lemma hw_info_kinds: "i < length (kinds (ad_cm d)) \<Longrightarrow> hw_info d i = kinds (ad_cm d) ! i"
  by (simp add: hw_info_def kinds_def)

lemma open_output_returns:
  "adev_open_output_stream E devices config d = None \<longleftrightarrow>
     cfg_sample_rate config = 0 \<and>
     (case fst (get_stream (he_alsa E) (he_h E) (devices AND OUT_ALL (he_h E)) (cfg_format config) (ad_cm d)) of
        None \<Rightarrow> False | Some i \<Rightarrow> hs_type (kinds (ad_cm d) ! i) = e_stream_out_pcm)"
proof -
  let ?dev = "devices AND OUT_ALL (he_h E)"
  obtain x cm where g: "get_stream (he_alsa E) (he_h E) ?dev (cfg_format config) (ad_cm d) = (x, cm)" by fastforce
  show ?thesis
  proof (cases x)
    case (Some i)
    have k: "kinds cm = kinds (ad_cm d)" "i < length (kinds (ad_cm d))"
      using cfg.by_type_law [OF g [unfolded Some]] by auto
    then have "hs_type (hw_info (d\<lparr>ad_cm := cm\<rparr>) i) = hs_type (kinds (ad_cm d) ! i)"
      by (simp add: hw_info_kinds)
    then show ?thesis using g Some
      by (auto simp: adev_open_output_stream_def Let_def do_init_out_common_def do_init_out_pcm_def split: prod.splits)
  qed (simp add: adev_open_output_stream_def g)
qed

lemma close_out_returns:
  assumes "out_ok out"
  shows "adev_close_output_stream E out d = None \<longleftrightarrow>
    (case out of
       OutPcm o1 \<Rightarrow> oc_use_async o1 \<and> \<not> he_join E (ad_clog d)
     | OutCompress o1 \<Rightarrow> oc_use_async o1 \<and> \<not> he_join E (ad_clog (snd (out_compress_standby (o1\<lparr>ox_paused := False\<rparr>) d))))"
proof (cases out)
  case (OutPcm o1)
  then show ?thesis using assms
    by (auto simp: adev_close_output_stream_def do_close_out_pcm_def out_pcm_standby_def do_out_pcm_standby_def do_close_out_common_def Let_def
        split: pointer.splits)
next
  case (OutCompress o1)
  then show ?thesis
    by (auto simp: adev_close_output_stream_def out_compress_close_def out_compress_standby_def do_standby_compress_l_def do_close_out_common_def Let_def
        split: prod.splits option.splits)
qed

text \<open>What holds of every state that is reached.\<close>

lemma reached:
  assumes "audio_open E cm = Some s" "\<forall>i. refs cm i = 0" "hal_run E calls s = Some t"
  shows "hal_inv E t" "stream_at (hl_outs t) n = Some out \<Longrightarrow> hw_info (hl_dev t) (out_hw out) \<in> set (kinds cm)"
proof -
  show "hal_inv E t" by (rule hal_reachable_inv [OF assms(3,1)])
  have "ledger (kinds cm) (ad_cm (hl_dev s)) (held s + {#})" using hal_open_refs [OF assms(1,2)] by simp
  from hal_run_refs [OF assms(3) this] obtain X where X: "ledger (kinds cm) (ad_cm (hl_dev t)) (held t + X)" by auto
  show "hw_info (hl_dev t) (out_hw out) \<in> set (kinds cm)" if n: "stream_at (hl_outs t) n = Some out"
  proof -
    obtain L where "owned out_hold (hl_outs t) = L + out_hold out" using owned_slot [OF n, of out_hold] by blast
    then have "out_hw out \<in># held t" by (simp add: held_def out_hold_def)
    then have "out_hw out < length (kinds cm)" using ledger_less [OF X, of "out_hw out"] by simp
    then show ?thesis using X hw_info_kinds [of "out_hw out" "hl_dev t"] by (simp add: ledger_def)
  qed
qed


lemma example_periods: "list_all periods_ok (kinds example_cm)"
  by (simp add: kinds_def example_cm_def plain_stream_def periods_ok_def or_default_def Let_def)


section \<open>Capture\<close>

text \<open>
  A read from an input stream never reports an error, and with the microphone muted, or when nothing could be captured, it
  fills the whole buffer with silence: nothing that was captured reaches the client while the device is muted.
\<close>

theorem muted_microphone_silent:
  assumes "in_pcm_read E now bytes i d = Some (r, x, i', d')"
  shows "0 \<le> r \<and> (ad_mic_mute d \<longrightarrow> x = Silence) \<and> (x = Silence \<longrightarrow> r = uint bytes) \<and> ad_mic_mute d' = ad_mic_mute d"
proof -
  have "ad_mic_mute d' = ad_mic_mute d" using read_same [OF assms] by (simp add: same_dev_def)
  then show ?thesis using assms by (auto simp: in_pcm_read_def split: option.splits if_splits)
qed

definition capture_stream :: in_pcm where
  "capture_stream = do_init_in_pcm (do_init_in_common quiet_hal music 0x80000004)"

theorem muted_microphone_silent_witness:
  "\<exists>r i' d'. in_pcm_read quiet_env 5 64 capture_stream ((hl_dev example_hal)\<lparr>ad_mic_mute := True\<rparr>) = Some (r, Silence, i', d') \<and> r = 64"
proof -
  have "\<exists>r x i' d'. in_pcm_read quiet_env 5 64 capture_stream ((hl_dev example_hal)\<lparr>ad_mic_mute := True\<rparr>) = Some (r, x, i', d')"
    by (simp add: in_pcm_read_def capture_stream_def do_init_in_pcm_def do_init_in_common_def do_in_realtime_delay_def)
  then obtain r x i' d' where run: "in_pcm_read quiet_env 5 64 capture_stream ((hl_dev example_hal)\<lparr>ad_mic_mute := True\<rparr>) = Some (r, x, i', d')"
    by blast
  then show ?thesis using muted_microphone_silent [OF run] by auto
qed

text \<open>
  C39. Compressed capture crashes in two ways. Closing a stream that is capturing stops and closes its device and then
  puts it in standby, which stops and closes the same handle once more. And when the device cannot be opened the
  positive error number is not taken for an error, so that the read goes on with a handle that is not there.
\<close>

theorem compressed_capture_crashes:
  assumes "stream_at (hl_ins s) k = Some i" "ic_hw i = Some h" "stream_is_compressed_in (hw_info (hl_dev s) h)"
  shows "(\<not> ic_standby i \<longrightarrow> hal_do E (CloseIn k) s = None) \<and>
    (ic_standby i \<and> ip_handle i = HNull \<and> get_current_routes (ad_cm (hl_dev s)) h \<noteq> 0 \<and>
       he_cmpr (ie_hal E) (COpen (hs_card_number (hw_info (hl_dev s) h)) (hs_device_number (hw_info (hl_dev s) h)) True # ad_clog (hl_dev s)) < 0 \<longrightarrow>
     hal_do E (DoIn k (IRead now bytes)) s = None)"
proof (intro conjI impI)
  assume act: "\<not> ic_standby i"
  have c: "stream_is_compressed (hw_info (hl_dev s) h)" using assms(3) by (simp add: stream_is_compressed_def stream_is_compressed_in_def)
  have hw: "hw_info (creq r d) h = hw_info d h" for r d by (simp add: hw_info_def)
  have "do_close_in_pcm (ie_hal E) k i (hl_dev s) = None"
    using act assms(2,3) c
    by (auto simp: do_close_in_pcm_def do_in_compress_pcm_close_def do_close_in_common_def in_pcm_standby_def do_in_compress_pcm_standby_def hw
        split: in_handle.splits)
  then show "hal_do E (CloseIn k) s = None" using assms(1) by (simp add: adev_close_input_stream_def)
next
  assume idle: "ic_standby i \<and> ip_handle i = HNull \<and> get_current_routes (ad_cm (hl_dev s)) h \<noteq> 0 \<and>
     he_cmpr (ie_hal E) (COpen (hs_card_number (hw_info (hl_dev s) h)) (hs_device_number (hw_info (hl_dev s) h)) True # ad_clog (hl_dev s)) < 0"
  then have "do_in_compress_pcm_read (ie_hal E) now bytes i (hl_dev s) = None"
    using assms(2) by (simp add: do_in_compress_pcm_read_def start_compress_pcm_input_stream_def do_open_compress_pcm_in_def Let_def cret_def creq_def)
  then show "hal_do E (DoIn k (IRead now bytes)) s = None" using assms idle by (simp add: in_do_def in_pcm_read_def)
qed

text \<open>A compressed capture stream, active with handle 7 of \<open>tinycompress\<close>.\<close>

definition capturing :: hal where
  "capturing = example_hal
     \<lparr>hl_dev := (hl_dev example_hal)\<lparr>ad_cm := example_cm\<lparr>cm_streams := [plain_stream e_stream_in_compress 2 3]\<rparr>\<rparr>,
      hl_ins := [Some (capture_stream\<lparr>ic_hw := Some 0, ic_standby := False, ip_handle := HCompress 7\<rparr>)]\<rparr>"

theorem compressed_capture_crashes_witness: "hal_do quiet_env (CloseIn 0) capturing = None"
  using compressed_capture_crashes [of capturing 0 "capture_stream\<lparr>ic_hw := Some 0, ic_standby := False, ip_handle := HCompress 7\<rparr>" 0 quiet_env]
  by (simp add: capturing_def stream_at_def stream_is_compressed_in_def hw_info_def plain_stream_def)

end
