(* ===== verification/Pcm_Ring.thy ===== *)
theory Pcm_Ring
  imports Pcm Neon
begin

text \<open>
  \<open>tinyalsa/src/pcm.c\<close>: transfers through the mapped ring buffer. The status page belongs to the kernel; every look at it
  is an event of the log, and the kernel answers it from the log. \<open>None\<close> is a call that never returns or divides by
  zero.
\<close>

section \<open>The ring\<close>

text \<open>What the kernel keeps: the hardware pointer, the state, whether \<open>poll\<close> reports an error and readiness, the time
  stamp, and the application pointer it hands back when asked for.\<close>

record ring_kernel =
  rk_pcm :: pcm_kernel
  rk_hw_ptr :: "pcm_req list \<Rightarrow> u32"
  rk_state :: "pcm_req list \<Rightarrow> nat"
  rk_error :: "pcm_req list \<Rightarrow> bool"
  rk_ready :: "pcm_req list \<Rightarrow> bool"
  rk_tstamp :: "pcm_req list \<Rightarrow> int \<times> int"
  rk_appl_ptr :: "pcm_req list \<Rightarrow> u32"

definition pcm_mmap_playback_avail :: "u32 \<Rightarrow> pcm \<Rightarrow> int" where
  "pcm_mmap_playback_avail hw_ptr p =
     (let avail = hw_ptr + pc_buffer_size p - pc_appl_ptr p
      in if sint avail < 0 then sint (avail + pc_boundary p)
         else if sint avail \<ge> sint (pc_boundary p) then sint (avail - pc_boundary p) else sint avail)"

definition pcm_mmap_capture_avail :: "u32 \<Rightarrow> pcm \<Rightarrow> int" where
  "pcm_mmap_capture_avail hw_ptr p =
     (let avail = hw_ptr - pc_appl_ptr p in if sint avail < 0 then sint (avail + pc_boundary p) else sint avail)"

definition pcm_mmap_avail :: "ring_kernel \<Rightarrow> pcm \<Rightarrow> pcm_req list \<Rightarrow> int \<times> pcm_req list" where
  "pcm_mmap_avail K p l =
     (let l = LookStatus (pc_fd p) # snd (pcm_sync_ptr (rk_pcm K) p l); hw_ptr = rk_hw_ptr K l
      in (if flag p PCM_IN then pcm_mmap_capture_avail hw_ptr p else pcm_mmap_playback_avail hw_ptr p, l))"

definition pcm_mmap_appl_forward :: "u32 \<Rightarrow> pcm \<Rightarrow> pcm" where
  "pcm_mmap_appl_forward frames p =
     (let a = pc_appl_ptr p + frames in p\<lparr>pc_appl_ptr := if a > pc_boundary p then a - pc_boundary p else a\<rparr>)"

text \<open>The offset in the buffer and the frames that may be copied there.\<close>

definition pcm_mmap_begin :: "ring_kernel \<Rightarrow> u32 \<Rightarrow> pcm \<Rightarrow> pcm_req list \<Rightarrow> ((u32 \<times> u32) \<times> pcm_req list) option" where
  "pcm_mmap_begin K frames p l =
     (if pc_buffer_size p = 0 then None
      else let offset = pc_appl_ptr p mod pc_buffer_size p; (avail, l) = pcm_mmap_avail K p l;
               avail = (if of_int avail > pc_buffer_size p then pc_buffer_size p else of_int avail);
               continuous = pc_buffer_size p - offset;
               copy_frames = (if frames > avail then avail else frames);
               copy_frames = (if copy_frames > continuous then continuous else copy_frames)
        in Some ((offset, copy_frames), l))"

definition pcm_mmap_commit :: "ring_kernel \<Rightarrow> u32 \<Rightarrow> pcm \<Rightarrow> pcm_req list \<Rightarrow> int \<times> pcm \<times> pcm_req list" where
  "pcm_mmap_commit K frames p l =
     (let p = pcm_mmap_appl_forward frames p; (ret, l) = pcm_sync_ptr (rk_pcm K) p l
      in (if ret \<noteq> 0 then ret else sint frames, p, l))"

definition pcm_avail_update :: "ring_kernel \<Rightarrow> pcm \<Rightarrow> pcm_req list \<Rightarrow> int \<times> pcm_req list" where
  "pcm_avail_update K p l = pcm_mmap_avail K p (snd (pcm_sync_ptr (rk_pcm K) p l))"

section \<open>Copying\<close>

type_synonym bytes = "8 word list"

definition memcpy :: "bytes \<Rightarrow> nat \<Rightarrow> bytes \<Rightarrow> nat \<Rightarrow> nat \<Rightarrow> bytes" where
  "memcpy dst doff src soff n = take doff dst @ take n (drop soff src) @ drop (doff + n) dst"

text \<open>The client's buffer and the mapped one.\<close>

definition pcm_areas_copy :: "pcm \<Rightarrow> u32 \<Rightarrow> u32 \<Rightarrow> u32 \<Rightarrow> bytes \<times> bytes \<Rightarrow> bytes \<times> bytes" where
  "pcm_areas_copy p pcm_offset src_offset frames mem =
     (let size_bytes = unat (pcm_frames_to_bytes p frames);
          pcm_offset_bytes = unat (pcm_frames_to_bytes p pcm_offset);
          src_offset_bytes = unat (pcm_frames_to_bytes p src_offset)
      in if flag p PCM_IN then (memcpy (fst mem) src_offset_bytes (snd mem) pcm_offset_bytes size_bytes, snd mem)
         else (fst mem, memcpy (snd mem) pcm_offset_bytes (fst mem) src_offset_bytes size_bytes))"

text \<open>With no room in the ring the loop turns for as long as the kernel makes none.\<close>

partial_function (option) pcm_mmap_transfer_areas ::
  "ring_kernel \<Rightarrow> u32 \<Rightarrow> u32 \<Rightarrow> u32 \<Rightarrow> pcm \<Rightarrow> bytes \<times> bytes \<Rightarrow> pcm_req list \<Rightarrow> (int \<times> pcm \<times> (bytes \<times> bytes) \<times> pcm_req list) option" where
  "pcm_mmap_transfer_areas K offset sz done_frames p mem l =
     (if sz = 0 then Some (sint done_frames, p, mem, l)
      else case pcm_mmap_begin K sz p l of
             None \<Rightarrow> None
           | Some ((pcm_offset, frames), l) \<Rightarrow>
               (case pcm_mmap_commit K frames p l of
                  (commit, q, l) \<Rightarrow>
                    (let mem = pcm_areas_copy p pcm_offset offset frames mem
                     in if commit < 0 then Some (commit, q, mem, l)
                        else pcm_mmap_transfer_areas K (offset + of_int commit) (sz - of_int commit) (done_frames + of_int commit) q mem l)))"

section \<open>Waiting and whole transfers\<close>

definition pcm_state :: "ring_kernel \<Rightarrow> pcm \<Rightarrow> pcm_req list \<Rightarrow> int \<times> pcm_req list" where
  "pcm_state K p l =
     (case pcm_sync_ptr (rk_pcm K) p l of
        (err, l) \<Rightarrow> if err < 0 then (err, l) else (int (rk_state K (LookStatus (pc_fd p) # l)), LookStatus (pc_fd p) # l))"

abbreviation (input) EIO :: int where "EIO \<equiv> 5"
abbreviation (input) ESTRPIPE :: int where "ESTRPIPE \<equiv> 86"

text \<open>\<open>errno\<close> is never negative, so that the test for an interrupted call never holds.\<close>

partial_function (option) pcm_wait :: "ring_kernel \<Rightarrow> pcm \<Rightarrow> pcm_req list \<Rightarrow> (int \<times> pcm_req list) option" where
  "pcm_wait K p l =
     (let l = PollPcm (pc_fd p) # l; err = pk_ret (rk_pcm K) l
      in if err < 0 then Some (err, l)
         else if err = 0 then Some (0, l)
         else if rk_error K l
         then (case pcm_state K p l of
                 (st, l) \<Rightarrow> Some (if st = 4 then - EPIPE else if st = 7 then - ESTRPIPE else if st = 8 then - ENODEV else - EIO, l))
         else if rk_ready K l then Some (1, l)
         else pcm_wait K p l)"

text \<open>\<open>avail_min\<close> is 1. \<open>err\<close> is what the last wait returned.\<close>

partial_function (option) mmap_transfer_loop ::
  "ring_kernel \<Rightarrow> int \<Rightarrow> u32 \<Rightarrow> u32 \<Rightarrow> pcm \<Rightarrow> bytes \<times> bytes \<Rightarrow> pcm_req list \<Rightarrow> (int \<times> pcm \<times> (bytes \<times> bytes) \<times> pcm_req list) option" where
  "mmap_transfer_loop K err offset cnt p mem l =
     (if cnt = 0 then Some (0, p, mem, l)
      else case pcm_avail_update K p l of
        (avail, l) \<Rightarrow>
          if avail < 0 then Some (err, p, mem, l)
          else case (if \<not> pc_running p \<and> pc_buffer_size p - of_int avail \<ge> start_threshold (pc_config p) then pcm_start (rk_pcm K) p l else (0, p, l)) of
            (r, p, l) \<Rightarrow>
              if r < 0 then Some (pk_ret (rk_pcm K) l, p, mem, l)
              else if pc_running p \<and> avail < 1
              then if flag p PCM_NOIRQ \<and> pc_noirq_frames_per_msec p = 0 then None
                   else (case pcm_wait K p l of
                           None \<Rightarrow> None
                         | Some (err, l) \<Rightarrow>
                             if err < 0 then Some (err, p\<lparr>pc_prepared := False, pc_running := False, pc_appl_ptr := 0\<rparr>, mem, l)
                             else mmap_transfer_loop K err offset cnt p mem l)
              else let frames = (if sint cnt > avail then of_int avail else cnt)
                in if frames = 0 then Some (0, p, mem, l)
                   else (case pcm_mmap_transfer_areas K offset frames 0 p mem l of
                           None \<Rightarrow> None
                         | Some (k, p, mem, l) \<Rightarrow>
                             if k < 0 then Some (k, p, mem, l)
                             else mmap_transfer_loop K err (offset + of_int k) (cnt - of_int k) p mem l))"

definition pcm_mmap_transfer ::
  "ring_kernel \<Rightarrow> u32 \<Rightarrow> pcm \<Rightarrow> bytes \<times> bytes \<Rightarrow> pcm_req list \<Rightarrow> (int \<times> pcm \<times> (bytes \<times> bytes) \<times> pcm_req list) option" where
  "pcm_mmap_transfer K bs p mem l =
     (if bs = 0 then Some (0, p, mem, l)
      else if frame_bytes (pc_config p) = 0 then None
      else mmap_transfer_loop K 0 0 (pcm_bytes_to_frames p bs) p mem l)"

definition pcm_mmap_write ::
  "ring_kernel \<Rightarrow> u32 \<Rightarrow> pcm \<Rightarrow> bytes \<times> bytes \<Rightarrow> pcm_req list \<Rightarrow> (int \<times> pcm \<times> (bytes \<times> bytes) \<times> pcm_req list) option" where
  "pcm_mmap_write K bs p mem l =
     (if NOT (pc_flags p) AND (PCM_OUT OR PCM_MMAP) \<noteq> 0 then Some (- ENOSYS, p, mem, l) else pcm_mmap_transfer K bs p mem l)"

definition pcm_mmap_read ::
  "ring_kernel \<Rightarrow> u32 \<Rightarrow> pcm \<Rightarrow> bytes \<times> bytes \<Rightarrow> pcm_req list \<Rightarrow> (int \<times> pcm \<times> (bytes \<times> bytes) \<times> pcm_req list) option" where
  "pcm_mmap_read K bs p mem l =
     (if NOT (pc_flags p) AND (PCM_IN OR PCM_MMAP) \<noteq> 0 then Some (- ENOSYS, p, mem, l) else pcm_mmap_transfer K bs p mem l)"

text \<open>The frames available and the time stamp; asking for it brings the kernel's application pointer into the copy.\<close>

definition pcm_get_htimestamp :: "ring_kernel \<Rightarrow> pcm \<Rightarrow> pcm_req list \<Rightarrow> (nat \<times> int \<times> int) option \<times> pcm \<times> pcm_req list" where
  "pcm_get_htimestamp K p l =
     (if \<not> pcm_is_ready p then (None, p, l)
      else case pcm_sync_ptr (rk_pcm K) p l of
        (rc, l) \<Rightarrow>
          if rc < 0 then (None, p, l)
          else let p = p\<lparr>pc_appl_ptr := rk_appl_ptr K l\<rparr>; l = LookStatus (pc_fd p) # l;
                   frames = sint (if flag p PCM_IN then rk_hw_ptr K l - pc_appl_ptr p else rk_hw_ptr K l + pc_buffer_size p - pc_appl_ptr p)
            in if rk_state K l \<noteq> 3 \<and> rk_state K l \<noteq> 5 \<or> rk_tstamp K l = (0, 0) \<or> frames < 0 then (None, p, l)
               else (Some (nat frames, rk_tstamp K l), p, l))"

definition pcm_link :: "pcm_kernel \<Rightarrow> pcm \<Rightarrow> pcm \<Rightarrow> pcm_req list \<Rightarrow> int \<times> pcm_req list" where
  "pcm_link K p1 p2 l = (let l = LinkPcm (pc_fd p1) (pc_fd p2) # l in (if pk_ret K l < 0 then - 1 else 0, l))"

definition pcm_unlink :: "pcm_kernel \<Rightarrow> pcm \<Rightarrow> pcm_req list \<Rightarrow> int \<times> pcm_req list" where
  "pcm_unlink K p l = (let l = UnlinkPcm (pc_fd p) # l in (if pk_ret K l < 0 then - 1 else 0, l))"

section \<open>The copy stays in the ring\<close>

lemma begin_bounds:
  assumes "pcm_mmap_begin K frames p l = Some ((offset, n), l')"
  shows "unat offset + unat n \<le> unat (pc_buffer_size p)" "n \<le> frames" "offset = pc_appl_ptr p mod pc_buffer_size p" "pc_buffer_size p \<noteq> 0"
proof -
  have size: "pc_buffer_size p \<noteq> 0" using assms by (simp add: pcm_mmap_begin_def split: if_splits)
  show "pc_buffer_size p \<noteq> 0" by (rule size)
  show off: "offset = pc_appl_ptr p mod pc_buffer_size p" using assms size by (auto simp: pcm_mmap_begin_def Let_def split: prod.splits)
  have "offset < pc_buffer_size p" using off size by (simp add: word_mod_less_divisor word_gt_0)
  then have le: "unat offset < unat (pc_buffer_size p)" by (simp add: word_less_nat_alt)
  have n: "n \<le> pc_buffer_size p - offset" "n \<le> frames" using assms size off by (auto simp: pcm_mmap_begin_def Let_def split: prod.splits if_splits)
  show "n \<le> frames" by (rule n(2))
  have "unat (pc_buffer_size p - offset) = unat (pc_buffer_size p) - unat offset" using le by (subst unat_sub) (simp_all add: word_le_nat_alt)
  then show "unat offset + unat n \<le> unat (pc_buffer_size p)" using n(1) le by (simp add: word_le_nat_alt)
qed

lemma begin_returns: "pc_buffer_size p \<noteq> 0 \<Longrightarrow> \<exists>offset n l'. pcm_mmap_begin K frames p l = Some ((offset, n), l')"
  by (simp add: pcm_mmap_begin_def Let_def split: prod.split)

lemma frames_to_bytes_exact:
  assumes "unat n \<le> unat m" "unat m * unat (frame_bytes (pc_config p)) < 2 ^ 32"
  shows "unat (pcm_frames_to_bytes p n) = unat n * unat (frame_bytes (pc_config p))"
proof -
  have "unat n * unat (frame_bytes (pc_config p)) < 2 ^ 32" using assms mult_le_mono1 [OF assms(1)] by (meson le_less_trans)
  then show ?thesis by (simp add: pcm_frames_to_bytes_def unat_word_ariths)
qed

text \<open>
  C35. Whatever the kernel puts into the status page, the part of the ring that \<open>pcm_mmap_begin\<close> hands out lies within the
  mapping that \<open>pcm_set_config\<close> made, is no longer than asked for, and starts at the application pointer.
\<close>

theorem ring_copy_in_bounds:
  assumes "pcm_mmap_begin K frames p l = Some ((offset, n), l')"
    and "unat (pc_buffer_size p) * unat (frame_bytes (pc_config p)) < 2 ^ 32"
  shows "unat (pcm_frames_to_bytes p offset) + unat (pcm_frames_to_bytes p n) \<le> unat (pcm_frames_to_bytes p (pc_buffer_size p)) \<and>
    n \<le> frames \<and> unat offset = unat (pc_appl_ptr p) mod unat (pc_buffer_size p)"
proof -
  note b = begin_bounds [OF assms(1)]
  have "unat (pcm_frames_to_bytes p x) = unat x * unat (frame_bytes (pc_config p))" if "unat x \<le> unat (pc_buffer_size p)" for x
    by (rule frames_to_bytes_exact [OF that assms(2)])
  then have "unat (pcm_frames_to_bytes p offset) + unat (pcm_frames_to_bytes p n) = (unat offset + unat n) * unat (frame_bytes (pc_config p))"
    "unat (pcm_frames_to_bytes p (pc_buffer_size p)) = unat (pc_buffer_size p) * unat (frame_bytes (pc_config p))"
    using b(1) by (simp_all add: add_mult_distrib)
  then show ?thesis using b mult_le_mono1 [OF b(1)] by (simp add: unat_mod)
qed

section \<open>The ring as two counters\<close>

text \<open>\<open>A\<close> is the number of frames the application has ever transferred.\<close>

definition appl_at :: "nat \<Rightarrow> pcm \<Rightarrow> bool" where
  "appl_at A p \<longleftrightarrow> unat (pc_appl_ptr p) mod unat (pc_boundary p) = A mod unat (pc_boundary p) \<and> pc_appl_ptr p \<le> pc_boundary p"

definition ring_ok :: "pcm \<Rightarrow> bool" where
  "ring_ok p \<longleftrightarrow> 0 < pc_buffer_size p \<and> unat (pc_buffer_size p) dvd unat (pc_boundary p) \<and>
     2 * unat (pc_buffer_size p) \<le> unat (pc_boundary p) \<and> unat (pc_boundary p) + unat (pc_buffer_size p) \<le> 0x7FFFFFFF"

lemma appl_forward:
  assumes "ring_ok p" "appl_at A p" "n \<le> pc_buffer_size p"
  shows "appl_at (A + unat n) (pcm_mmap_appl_forward n p)"
proof -
  let ?B = "unat (pc_boundary p)" and ?a = "unat (pc_appl_ptr p)"
  have B: "?B + unat n \<le> 0x7FFFFFFF" "0 < ?B" using assms(1,3) by (auto simp: ring_ok_def word_le_nat_alt word_less_nat_alt)
  have a: "?a \<le> ?B" "?a mod ?B = A mod ?B" using assms(2) by (auto simp: appl_at_def word_le_nat_alt)
  have s: "unat (pc_appl_ptr p + n) = ?a + unat n" using B a by (subst unat_add_lem [THEN iffD1]) auto
  have m: "(?a + unat n) mod ?B = (A + unat n) mod ?B" using a(2) by (metis mod_add_left_eq)
  show ?thesis
  proof (cases "pc_appl_ptr p + n > pc_boundary p")
    case True
    then have "unat (pc_appl_ptr p + n - pc_boundary p) = ?a + unat n - ?B" using s by (subst unat_sub) (auto simp: word_le_nat_alt word_less_nat_alt)
    moreover have "(?a + unat n - ?B) mod ?B = (?a + unat n) mod ?B" using True s by (simp add: word_less_nat_alt le_mod_geq)
    moreover have "?a + unat n - ?B \<le> ?B" using a(1) assms(1,3) by (auto simp: ring_ok_def word_le_nat_alt)
    ultimately show ?thesis using True m by (simp add: appl_at_def pcm_mmap_appl_forward_def Let_def word_le_nat_alt)
  next
    case False
    then show ?thesis using s m by (simp add: appl_at_def pcm_mmap_appl_forward_def Let_def word_le_nat_alt word_less_nat_alt not_less)
  qed
qed

text \<open>Two counters less than a round apart, known modulo the boundary.\<close>

lemma counters_apart:
  fixes lo hi B a h :: nat
  assumes "lo \<le> hi" "hi - lo < B" "a mod B = hi mod B" "h mod B = lo mod B" "a \<le> B" "h \<le> B"
  shows "int (hi - lo) = int a - int h \<or> int (hi - lo) = int a - int h + int B \<or> int (hi - lo) = int a - int h - int B"
proof -
  have "int (hi - lo) mod int B = (int a - int h) mod int B" using assms(1,3,4)
    by (simp add: of_nat_diff) (metis mod_diff_eq of_nat_mod)
  then obtain k where k: "int (hi - lo) = int a - int h + k * int B"
    by (metis mod_eqE mult.commute add_diff_cancel_left' diff_add_cancel)
  have "- (2 * int B) < k * int B" "k * int B < 2 * int B" using k assms(2,5,6) by linarith+
  moreover have "k * int B \<le> - 2 * int B" if "k \<le> - 2" using that by (intro mult_right_mono) auto
  moreover have "2 * int B \<le> k * int B" if "2 \<le> k" using that by (intro mult_right_mono) auto
  ultimately have "- 2 < k" "k < 2" by linarith+
  then have "k = -1 \<or> k = 0 \<or> k = 1" by linarith
  then show ?thesis using k by auto
qed

lemma sint_diff: "- 2147483648 \<le> int x - int y \<Longrightarrow> int x - int y < 2147483648 \<Longrightarrow> sint (of_nat x - of_nat y :: u32) = int x - int y"
  using sint_32 [of "int x - int y"] by simp

lemma playback_avail_counts:
  assumes "ring_ok p" "appl_at A p" "unat hw = H mod unat (pc_boundary p)" "H \<le> A" "A \<le> H + unat (pc_buffer_size p)"
  shows "pcm_mmap_playback_avail hw p = int (unat (pc_buffer_size p) - (A - H))"
proof -
  define B a h n where "B = unat (pc_boundary p)" and "a = unat (pc_appl_ptr p)" and "h = unat hw" and "n = unat (pc_buffer_size p)"
  have r: "0 < n" "2 * n \<le> B" "B + n \<le> 0x7FFFFFFF" using assms(1) by (auto simp: ring_ok_def B_def n_def word_less_nat_alt)
  have a: "a \<le> B" "a mod B = A mod B" using assms(2) by (auto simp: appl_at_def a_def B_def word_le_nat_alt)
  have h: "h < B" "h mod B = H mod B" using assms(3) r by (auto simp: h_def B_def)
  have f: "A - H \<le> n" using assms(5) by (simp add: n_def)
  have cases: "int (A - H) = int a - int h \<or> int (A - H) = int a - int h + int B \<or> int (A - H) = int a - int h - int B"
    by (rule counters_apart) (use assms(4) f r a h in auto)
  have w: "hw + pc_buffer_size p - pc_appl_ptr p = of_nat (h + n) - of_nat a" "pc_boundary p = of_nat B"
    by (simp_all add: h_def n_def a_def B_def)
  have s: "sint (hw + pc_buffer_size p - pc_appl_ptr p) = int (h + n) - int a" unfolding w by (rule sint_diff) (use r a(1) h(1) in linarith)+
  have sB: "sint (pc_boundary p) = int B" unfolding w using sint_diff [of B 0] r by simp
  have up: "sint (hw + pc_buffer_size p - pc_appl_ptr p + pc_boundary p) = int (h + n + B) - int a" if "int (h + n) - int a < 0"
    using sint_diff [of "h + n + B" a] that r a h by (simp add: w algebra_simps)
  have down: "sint (hw + pc_buffer_size p - pc_appl_ptr p - pc_boundary p) = int (h + n) - int (a + B)" if "int (h + n) - int a \<ge> int B"
    using sint_diff [of "h + n" "a + B"] that r a h by (simp add: w algebra_simps)
  show ?thesis unfolding pcm_mmap_playback_avail_def Let_def s sB n_def [symmetric]
    using cases f r a h up down by auto
qed

lemma capture_avail_counts:
  assumes "ring_ok p" "appl_at A p" "unat hw = H mod unat (pc_boundary p)" "A \<le> H" "H \<le> A + unat (pc_buffer_size p)"
  shows "pcm_mmap_capture_avail hw p = int (H - A)"
proof -
  define B a h n where "B = unat (pc_boundary p)" and "a = unat (pc_appl_ptr p)" and "h = unat hw" and "n = unat (pc_buffer_size p)"
  have r: "0 < n" "2 * n \<le> B" "B + n \<le> 0x7FFFFFFF" using assms(1) by (auto simp: ring_ok_def B_def n_def word_less_nat_alt)
  have a: "a \<le> B" "a mod B = A mod B" using assms(2) by (auto simp: appl_at_def a_def B_def word_le_nat_alt)
  have h: "h < B" "h mod B = H mod B" using assms(3) r by (auto simp: h_def B_def)
  have f: "H - A \<le> n" using assms(5) by (simp add: n_def)
  have cases: "int (H - A) = int h - int a \<or> int (H - A) = int h - int a + int B \<or> int (H - A) = int h - int a - int B"
    by (rule counters_apart) (use assms(4) f r a h in auto)
  have w: "hw - pc_appl_ptr p = of_nat h - of_nat a" "pc_boundary p = of_nat B" by (simp_all add: h_def a_def B_def)
  have s: "sint (hw - pc_appl_ptr p) = int h - int a" unfolding w by (rule sint_diff) (use r a(1) h(1) in linarith)+
  have up: "sint (hw - pc_appl_ptr p + pc_boundary p) = int (h + B) - int a" if "int h - int a < 0"
    using sint_diff [of "h + B" a] that r a h by (simp add: w algebra_simps)
  show ?thesis unfolding pcm_mmap_capture_avail_def Let_def s using cases f r a h up by auto
qed

text \<open>
  C21. The pointers of the ring implement two counters that never wrap: with \<open>A\<close> the frames the application has transferred
  and \<open>H\<close> those the hardware has, both kept modulo the boundary in 32 bits, the space reported for playback is the buffer less
  \<open>A - H\<close>, the frames reported for capture are \<open>H - A\<close>, the offset is \<open>A\<close> modulo the buffer, and moving on by
  \<open>k\<close> frames is adding \<open>k\<close>, also across the boundary, where the pointer may rest on the boundary itself.
\<close>

theorem ring_counts_frames:
  assumes "ring_ok p" "appl_at A p" "unat hw = H mod unat (pc_boundary p)"
  shows "(H \<le> A \<and> A \<le> H + unat (pc_buffer_size p) \<longrightarrow> pcm_mmap_playback_avail hw p = int (unat (pc_buffer_size p) - (A - H))) \<and>
    (A \<le> H \<and> H \<le> A + unat (pc_buffer_size p) \<longrightarrow> pcm_mmap_capture_avail hw p = int (H - A)) \<and>
    unat (pc_appl_ptr p mod pc_buffer_size p) = A mod unat (pc_buffer_size p) \<and>
    (\<forall>k. k \<le> pc_buffer_size p \<longrightarrow> appl_at (A + unat k) (pcm_mmap_appl_forward k p))"
proof (intro conjI impI allI)
  show "pcm_mmap_playback_avail hw p = int (unat (pc_buffer_size p) - (A - H))" if "H \<le> A \<and> A \<le> H + unat (pc_buffer_size p)"
    using playback_avail_counts assms that by blast
  show "pcm_mmap_capture_avail hw p = int (H - A)" if "A \<le> H \<and> H \<le> A + unat (pc_buffer_size p)"
    using capture_avail_counts assms that by blast
  show "appl_at (A + unat k) (pcm_mmap_appl_forward k p)" if "k \<le> pc_buffer_size p" for k
    using appl_forward assms that by blast
  have d: "unat (pc_buffer_size p) dvd unat (pc_boundary p)" using assms(1) by (simp add: ring_ok_def)
  have "unat (pc_appl_ptr p) mod unat (pc_boundary p) mod unat (pc_buffer_size p) = A mod unat (pc_boundary p) mod unat (pc_buffer_size p)"
    using assms(2) by (simp add: appl_at_def)
  then show "unat (pc_appl_ptr p mod pc_buffer_size p) = A mod unat (pc_buffer_size p)"
    using d by (simp add: mod_mod_cancel unat_mod)
qed

text \<open>The configuration makes such a ring.\<close>

lemma boundary_loop_fits:
  assumes "0 < unat b" "unat b + unat n \<le> 0x7FFFFFFF"
  shows "\<exists>k c. boundary_loop n b = Some c \<and> unat c = unat b * 2 ^ k \<and> unat c + unat n \<le> 0x7FFFFFFF"
  using assms
proof (induction "0x7FFFFFFF - unat b" arbitrary: b rule: less_induct)
  case less
  have le: "unat n \<le> 0x7FFFFFFF" "unat b \<le> 0x7FFFFFFF" using less.prems by simp_all
  note step = boundary_step [OF le]
  show ?case
  proof (cases "2 * unat b \<le> 0x7FFFFFFF - unat n")
    case True
    have "0x7FFFFFFF - unat (b * 2) < 0x7FFFFFFF - unat b" "0 < unat (b * 2)" "unat (b * 2) + unat n \<le> 0x7FFFFFFF"
      using True step(2) less.prems by auto
    from less.hyps [OF this] obtain k c where "boundary_loop n (b * 2) = Some c" "unat c = unat (b * 2) * 2 ^ k" "unat c + unat n \<le> 0x7FFFFFFF"
      by blast
    then show ?thesis using True step by (intro exI [of _ "Suc k"] exI [of _ c]) (simp add: boundary_loop.simps [of n b])
  next
    case False
    then have "boundary_loop n b = Some b" using step(1) by (simp add: boundary_loop.simps)
    then show ?thesis using less.prems by (intro exI [of _ 0] exI [of _ b]) simp
  qed
qed

lemma boundary_makes_ring:
  assumes "0 < unat n" "3 * unat n \<le> 0x7FFFFFFF" "boundary_loop n n = Some b"
  shows "unat n dvd unat b" "2 * unat n \<le> unat b" "unat b + unat n \<le> 0x7FFFFFFF"
proof -
  have step: "n * 2 \<le> 0x7FFFFFFF - n" "unat (n * 2) = 2 * unat n" using boundary_step [of n n] assms(1,2) by auto
  then have "boundary_loop n (n * 2) = Some b" using assms(3) by (simp add: boundary_loop.simps [of n n])
  moreover obtain k c where c: "boundary_loop n (n * 2) = Some c" "unat c = unat (n * 2) * 2 ^ k" "unat c + unat n \<le> 0x7FFFFFFF"
    using boundary_loop_fits [of "n * 2" n] step assms(1,2) by auto
  ultimately have "unat b = 2 * unat n * 2 ^ k" "unat b + unat n \<le> 0x7FFFFFFF" using step(2) by auto
  then show "unat n dvd unat b" "2 * unat n \<le> unat b" "unat b + unat n \<le> 0x7FFFFFFF" by (simp_all add: dvd_mult)
qed

lemma config_makes_ring:
  assumes "pcm_set_config K (Some c) p l = Some (0, p', l')" "0 < unat (period_count c * period_size c)"
    "3 * unat (period_count c * period_size c) \<le> 0x7FFFFFFF"
  shows "pc_buffer_size p' = period_count c * period_size c \<and> ring_ok p'"
proof -
  let ?n = "period_count c * period_size c"
  have fin: "pc_buffer_size p' = pc_buffer_size q \<and> boundary_loop (pc_buffer_size q) (pc_buffer_size q) = Some (pc_boundary p')"
    if "finish_config K seen q m = Some (0, p', l')" for seen q m
    using that by (auto simp: finish_config_def Let_def split: if_splits option.splits)
  have "pc_buffer_size p' = ?n \<and> boundary_loop ?n ?n = Some (pc_boundary p')"
    using assms(1) unfolding pcm_set_config_def Let_def by (auto split: if_splits dest!: fin)
  then show ?thesis using boundary_makes_ring [OF assms(2,3)] assms(2) by (auto simp: ring_ok_def word_less_nat_alt)
qed

text \<open>A playback ring of 1024 frames, opened with \<open>music_config\<close>.\<close>

definition ring_pcm :: pcm where
  "ring_pcm = (fresh_pcm (PCM_OUT OR PCM_MMAP) 5)\<lparr>pc_config := music_config, pc_buffer_size := 1024, pc_boundary := 0x40000000, pc_running := True,
     pc_mmap_status := True, pc_mmap_control := True, pc_appl_ptr := 0x3FFFFFFF\<rparr>"

definition quiet_ring :: ring_kernel where
  "quiet_ring = \<lparr>rk_pcm = quiet_pcm, rk_hw_ptr = \<lambda>_. 0x3FFFFFFF, rk_state = \<lambda>_. 3, rk_error = \<lambda>_. False, rk_ready = \<lambda>_. True,
     rk_tstamp = \<lambda>_. (1, 0), rk_appl_ptr = \<lambda>_. 0\<rparr>"

lemma ring_pcm_ok: "ring_ok ring_pcm"
proof -
  have "(1024 :: nat) dvd 0x40000000" by (simp add: dvd_eq_mod_eq_0)
  then show ?thesis by (simp add: ring_ok_def ring_pcm_def)
qed

theorem ring_counts_frames_witness:
  "pcm_mmap_playback_avail 0x3FFFFFFF ring_pcm = 1024 \<and> appl_at (0x3FFFFFFF + 2) (pcm_mmap_appl_forward 2 ring_pcm)"
proof -
  have A: "appl_at 0x3FFFFFFF ring_pcm" by (simp add: appl_at_def ring_pcm_def)
  have H: "unat (0x3FFFFFFF :: u32) = 0x3FFFFFFF mod unat (pc_boundary ring_pcm)" by (simp add: ring_pcm_def)
  have "unat (pc_buffer_size ring_pcm) = 1024" "(2 :: u32) \<le> pc_buffer_size ring_pcm" "unat (2 :: u32) = 2" by (simp_all add: ring_pcm_def)
  then show ?thesis using ring_counts_frames [OF ring_pcm_ok A H] by fastforce
qed

theorem ring_copy_in_bounds_witness:
  "\<exists>offset n l. pcm_mmap_begin quiet_ring 100 ring_pcm [] = Some ((offset, n), l) \<and> unat offset = 1023 \<and> n \<le> 100 \<and>
     unat (pcm_frames_to_bytes ring_pcm offset) + unat (pcm_frames_to_bytes ring_pcm n) \<le> 4096"
proof -
  have size: "pc_buffer_size ring_pcm = 1024" "frame_bytes (pc_config ring_pcm) = 4" "pc_appl_ptr ring_pcm = 0x3FFFFFFF"
    by (simp_all add: ring_pcm_def frame_bytes_def music_config_def)
  then obtain offset n l where b: "pcm_mmap_begin quiet_ring 100 ring_pcm [] = Some ((offset, n), l)"
    using begin_returns [of ring_pcm quiet_ring 100 "[]"] by auto
  have "unat (pc_buffer_size ring_pcm) * unat (frame_bytes (pc_config ring_pcm)) < 2 ^ 32" by (simp add: size)
  from ring_copy_in_bounds [OF b this] show ?thesis using b by (simp add: size pcm_frames_to_bytes_def)
qed

section \<open>A mapped status page\<close>



end
