(* ===== verification/Alsa_Queries.thy ===== *)
theory Alsa_Queries
  imports Pcm Mixer
begin

text \<open>
  The rest of \<open>tinyalsa\<close>: opening a PCM by its name and the functions that only report (\<open>src/pcm.c\<close>), the events of
  the control device and the descriptions of a control (\<open>src/mixer.c\<close>).
\<close>

section \<open>PCMs by name\<close>

text \<open>\<open>%u\<close> of \<open>sscanf\<close>: blanks, a sign, decimal digits; saturated and negated as by \<open>strtoul\<close>.\<close>

definition scan_unsigned :: "string \<Rightarrow> (nat \<times> string) option" where
  "scan_unsigned s =
     (let t = dropWhile is_blank s;
          u = (if t \<noteq> [] \<and> (hd t = CHR ''-'' \<or> hd t = CHR ''+'') then tl t else t);
          (n, rest) = read_digits 10 u 0
      in if rest = u then None
         else Some (if n > ULONG_MAX then ULONG_MAX else if hd t = CHR ''-'' then (2 ^ 32 - n) mod 2 ^ 32 else n, rest))"

text \<open>\<open>None\<close> is a call that never returns, as in \<open>pcm_open\<close>.\<close>

definition pcm_open_by_name ::
  "pcm_kernel \<Rightarrow> string \<Rightarrow> u32 \<Rightarrow> pcm_config option \<Rightarrow> pcm_req list \<Rightarrow> (pcm option \<times> pcm_req list) option" where
  "pcm_open_by_name K name flags config l =
     (if take 3 name \<noteq> ''hw:'' then Some (None, l)
      else case scan_unsigned (drop 3 name) of
             Some (card_no, c # rest) \<Rightarrow>
               (case (if c = CHR '','' then scan_unsigned rest else None) of
                  None \<Rightarrow> Some (None, l)
                | Some (dev, _) \<Rightarrow> map_option (map_prod Some (\<lambda>l. l)) (pcm_open K card_no dev flags config l))
           | _ \<Rightarrow> Some (None, l))"

section \<open>What a PCM reports\<close>

definition pcm_get_buffer_size :: "pcm \<Rightarrow> u32" where
  "pcm_get_buffer_size p = pc_buffer_size p"

definition pcm_get_channels :: "pcm \<Rightarrow> u32" where
  "pcm_get_channels p = channels (pc_config p)"

definition pcm_get_config :: "pcm option \<Rightarrow> pcm_config option" where
  "pcm_get_config p = map_option pc_config p"

definition pcm_get_rate :: "pcm \<Rightarrow> u32" where
  "pcm_get_rate p = rate (pc_config p)"

definition pcm_get_format :: "pcm \<Rightarrow> pcm_format" where
  "pcm_get_format p = format (pc_config p)"

definition pcm_get_file_descriptor :: "pcm \<Rightarrow> int" where
  "pcm_get_file_descriptor p = pc_fd p"

definition pcm_params_get_mask :: "hw_params option \<Rightarrow> hw_param option \<Rightarrow> 256 word option" where
  "pcm_params_get_mask p n =
     (case (p, n) of (Some p, Some n) \<Rightarrow> if param_is_mask n then Some (hp_mask p n) else None | _ \<Rightarrow> None)"

section \<open>What a control reports\<close>

definition mixer_get_ctl_const :: "mixer option \<Rightarrow> nat \<Rightarrow> nat option" where
  "mixer_get_ctl_const mx i = (case mx of None \<Rightarrow> None | Some m \<Rightarrow> if i < length (mx_ctl m) then Some i else None)"

text \<open>The structure is passed where the request wants its address, so that the kernel has nowhere to write the answer.\<close>

definition mixer_ctl_update :: "nat \<Rightarrow> mixer \<Rightarrow> mixer" where
  "mixer_ctl_update ctl m = ask (InfoByValue (mx_fd m)) m"

definition mixer_ctl_is_access_tlv_rw :: "elem_info \<Rightarrow> bool" where
  "mixer_ctl_is_access_tlv_rw ei = ei_tlv_rw ei"

definition mixer_ctl_get_name :: "mixer option \<Rightarrow> nat option \<Rightarrow> string option" where
  "mixer_ctl_get_name mx ctl = map_option ei_name (ctl_info mx ctl)"

definition mixer_ctl_get_type_string :: "mixer option \<Rightarrow> nat option \<Rightarrow> string" where
  "mixer_ctl_get_type_string mx ctl =
     (case ctl_info mx ctl of
        None \<Rightarrow> ''''
      | Some ei \<Rightarrow>
          (case ei_type ei of
             ELEM_BOOLEAN \<Rightarrow> ''BOOL''
           | ELEM_INTEGER \<Rightarrow> ''INT''
           | ELEM_ENUMERATED \<Rightarrow> ''ENUM''
           | ELEM_BYTES \<Rightarrow> ''BYTE''
           | ELEM_IEC958 \<Rightarrow> ''IEC958''
           | ELEM_INTEGER64 \<Rightarrow> ''INT64''
           | ELEM_NONE \<Rightarrow> ''Unknown''))"

definition mixer_ctl_get_num_enums :: "mixer option \<Rightarrow> nat option \<Rightarrow> nat" where
  "mixer_ctl_get_num_enums mx ctl = (case ctl_info mx ctl of None \<Rightarrow> 0 | Some ei \<Rightarrow> ei_items ei)"

section \<open>Events\<close>

text \<open>What \<open>poll\<close> reports of the control device: an error, or something to read or room to write.\<close>

record ctl_events =
  ce_alsa :: alsa
  ce_error :: "snd_req list \<Rightarrow> bool"
  ce_ready :: "snd_req list \<Rightarrow> bool"

definition mixer_subscribe_events :: "alsa \<Rightarrow> int \<Rightarrow> mixer \<Rightarrow> int \<times> mixer" where
  "mixer_subscribe_events K subscribe m =
     (let m = ask (SubscribeEvents (mx_fd m) subscribe) m in (if ak_ret K (mx_log m) < 0 then - 1 else 0, m))"

partial_function (option) mixer_wait_event :: "ctl_events \<Rightarrow> int \<Rightarrow> mixer \<Rightarrow> (int \<times> mixer) option" where
  "mixer_wait_event E timeout m =
     (let m = ask (PollCtl (mx_fd m) timeout) m; err = ak_ret (ce_alsa E) (mx_log m)
      in if err < 0 then Some (err, m)
         else if err = 0 then Some (0, m)
         else if ce_error E (mx_log m) then Some (- 5, m)
         else if ce_ready E (mx_log m) then Some (1, m)
         else mixer_wait_event E timeout m)"

section \<open>Names of PCMs\<close>

lemma scan_written:
  assumes "n \<le> ULONG_MAX" "ys = [] \<or> digit_value (hd ys) \<ge> 10"
  shows "scan_unsigned (nat_digits n @ ys) = Some (n, ys)"
proof -
  obtain c cs where n: "nat_digits n = c # cs" "is_digit c" using nat_digits_Cons by blast
  note c = digit_not_blank [OF n(2)]
  have "read_digits 10 (nat_digits n @ ys) 0 = (n, ys)"
    by (rule read_nat_digits_stop [OF assms(2)])
  then show ?thesis using c n(1) assms(1) by (simp add: scan_unsigned_def Let_def)
qed

text \<open>
  Names of PCMs can be read back: \<open>hw:\<close>, the card and the device in decimal, separated by a comma, open that device of that
  card; a name that does not start with \<open>hw:\<close> opens nothing and asks the kernel nothing.
\<close>

theorem open_by_name_roundtrip:
  assumes "card_no \<le> ULONG_MAX" "dev \<le> ULONG_MAX"
  shows "pcm_open_by_name K (''hw:'' @ nat_digits card_no @ '','' @ nat_digits dev) flags config l =
      map_option (map_prod Some (\<lambda>l. l)) (pcm_open K card_no dev flags config l) \<and>
    (take 3 name \<noteq> ''hw:'' \<longrightarrow> pcm_open_by_name K name flags config l = Some (None, l))"
proof -
  have "digit_value (CHR '','') \<ge> 10" by (simp add: digit_value_def)
  then have "scan_unsigned (nat_digits card_no @ CHR '','' # nat_digits dev) = Some (card_no, CHR '','' # nat_digits dev)"
    by (intro scan_written assms(1)) simp
  moreover have "scan_unsigned (nat_digits dev) = Some (dev, [])" using scan_written [OF assms(2), of "[]"] by simp
  ultimately show ?thesis by (simp add: pcm_open_by_name_def)
qed

theorem open_by_name_roundtrip_witness:
  "pcm_open_by_name quiet_pcm (''hw:'' @ nat_digits 1 @ '','' @ nat_digits 10) PCM_OUT (Some music_config) [] =
     map_option (map_prod Some (\<lambda>l. l)) (pcm_open quiet_pcm 1 10 PCM_OUT (Some music_config) [])"
  using open_by_name_roundtrip [of 1 10 quiet_pcm PCM_OUT "Some music_config" "[]" "''hw:''"] by (simp add: ULONG_MAX_def)

section \<open>Waiting for an event\<close>

text \<open>
  Waiting for an event returns after one call of \<open>poll\<close> when what it reports is an error, input or room, and then with 1 only
  for an event; a device of which only a hang-up is reported, which is neither, is polled for ever.
\<close>

theorem wait_event_outcome:
  fixes m :: mixer and timeout :: int
  defines "m' \<equiv> ask (PollCtl (mx_fd m) timeout) m"
  shows "(ak_ret (ce_alsa E) (mx_log m') \<le> 0 \<or> ce_error E (mx_log m') \<or> ce_ready E (mx_log m') \<longrightarrow>
      (\<exists>r. mixer_wait_event E timeout m = Some (r, m') \<and> (r = 1 \<longleftrightarrow>
         ak_ret (ce_alsa E) (mx_log m') > 0 \<and> \<not> ce_error E (mx_log m')))) \<and>
    ((\<forall>l. 0 < ak_ret (ce_alsa E) l \<and> \<not> ce_error E l \<and> \<not> ce_ready E l) \<longrightarrow> mixer_wait_event E timeout m = None)"
proof (intro conjI impI)
  assume "ak_ret (ce_alsa E) (mx_log m') \<le> 0 \<or> ce_error E (mx_log m') \<or> ce_ready E (mx_log m')"
  then show "\<exists>r. mixer_wait_event E timeout m = Some (r, m') \<and> (r = 1 \<longleftrightarrow> ak_ret (ce_alsa E) (mx_log m') > 0 \<and> \<not> ce_error E (mx_log m'))"
    unfolding m'_def by (subst mixer_wait_event.simps) (auto simp: Let_def)
next
  assume hup: "\<forall>l. 0 < ak_ret (ce_alsa E) l \<and> \<not> ce_error E l \<and> \<not> ce_ready E l"
  have "x \<noteq> E" if "mixer_wait_event x t n = Some z" for x t n z
    using that
  proof (rule mixer_wait_event.raw_induct [rotated])
    have quiet: "\<not> ak_ret (ce_alsa E) l < 0" "ak_ret (ce_alsa E) l \<noteq> 0" "\<not> ce_error E l" "\<not> ce_ready E l" for l
      using hup [rule_format, of l] by simp_all
    show "x \<noteq> E" if rest: "\<And>x t n z. wait x t n = Some z \<Longrightarrow> x \<noteq> E"
      and body: "(let m = ask (PollCtl (mx_fd n) t) n; err = ak_ret (ce_alsa x) (mx_log m)
         in if err < 0 then Some (err, m) else if err = 0 then Some (0, m) else if ce_error x (mx_log m) then Some (- 5, m)
            else if ce_ready x (mx_log m) then Some (1, m) else wait x t m) = Some z" for wait x t n z
    proof
      assume "x = E"
      then have "wait E t (ask (PollCtl (mx_fd n) t) n) = Some z" using body by (simp add: Let_def quiet)
      then show False using rest by blast
    qed
  qed
  then show "mixer_wait_event E timeout m = None" by (metis option.exhaust)
qed

definition unplugged :: ctl_events where
  "unplugged = \<lparr>ce_alsa = silent_card\<lparr>ak_ret := \<lambda>_. 1\<rparr>, ce_error = \<lambda>_. False, ce_ready = \<lambda>_. False\<rparr>"

theorem wait_event_outcome_witness:
  "mixer_wait_event unplugged 100 \<lparr>mx_fd = 3, mx_ctl = [], mx_log = []\<rparr> = None"
  using wait_event_outcome [of unplugged "\<lparr>mx_fd = 3, mx_ctl = [], mx_log = []\<rparr>" 100] by (simp add: unplugged_def)

end
