(* ===== verification/Gatekeeper.thy ===== *)
theory Gatekeeper
  imports Mocha_Prelude
begin

text \<open>
  The software gatekeeper (\<open>gatekeeper/SoftGateKeeper.h\<close>, \<open>gatekeeper/SoftGateKeeperDevice.cpp\<close>): its failure records, the cache of
  fast password hashes in front of \<open>GateKeeper::DoVerify\<close>, and the translation of its answers for the framework. The base class,
  the hash functions and the random numbers are not in the repository and are parameters.
\<close>

section \<open>State\<close>

type_synonym u64 = "64 word"
type_synonym octets = "byte list"

record failure_record =
  secure_user_id :: u64
  last_checked_timestamp :: u64
  failure_counter :: u32

record fast_hash =
  fh_salt :: u64
  fh_digest :: octets

text \<open>Of a password handle only the user is read here.\<close>

record password_handle =
  ph_user_id :: u64
  ph_rest :: octets

record SoftGateKeeper =
  failure_map :: "u32 \<Rightarrow> failure_record option"
  fast_hash_map :: "u64 \<Rightarrow> fast_hash option"
  random_calls :: nat

record gk_env =
  ge_sha256 :: "octets \<Rightarrow> octets"
  ge_scrypt :: "octets \<Rightarrow> octets \<Rightarrow> nat \<Rightarrow> octets"
  ge_random :: "nat \<Rightarrow> u64"
  ge_do_verify :: "password_handle \<Rightarrow> octets \<Rightarrow> bool"

definition new_SoftGateKeeper :: SoftGateKeeper where
  "new_SoftGateKeeper = \<lparr>failure_map = \<lambda>_. None, fast_hash_map = \<lambda>_. None, random_calls = 0\<rparr>"

section \<open>Keys and signatures\<close>

definition GetAuthTokenKey :: octets where
  "GetAuthTokenKey = replicate 32 0"

definition GetPasswordKey :: octets where
  "GetPasswordKey = replicate 32 0"

definition salt_bytes :: "u64 \<Rightarrow> octets" where
  "salt_bytes s = map (\<lambda>k. ucast (drop_bit (8 * k) s)) [0..<8]"

definition ComputePasswordSignature :: "gk_env \<Rightarrow> nat \<Rightarrow> octets \<Rightarrow> u64 \<Rightarrow> octets" where
  "ComputePasswordSignature E signature_length password salt = ge_scrypt E password (salt_bytes salt) signature_length"

definition ComputeSignature :: "nat \<Rightarrow> octets \<Rightarrow> octets" where
  "ComputeSignature signature_length message = replicate signature_length 0"

text \<open>A clock that cannot be read counts as 0; \<open>tv_sec\<close> is a 32-bit number.\<close>

definition GetMillisecondsSinceBoot :: "(u32 \<times> nat) option \<Rightarrow> u64" where
  "GetMillisecondsSinceBoot time = (case time of None \<Rightarrow> 0 | Some (tv_sec, tv_nsec) \<Rightarrow> scast (tv_sec * 1000 + of_nat (tv_nsec div 1000 div 1000)))"

section \<open>Failure records\<close>

text \<open>Indexing the map makes an entry of zeros where there was none.\<close>

definition stored_record :: "u32 \<Rightarrow> SoftGateKeeper \<Rightarrow> failure_record" where
  "stored_record uid g =
     (case failure_map g uid of Some r \<Rightarrow> r | None \<Rightarrow> \<lparr>secure_user_id = 0, last_checked_timestamp = 0, failure_counter = 0\<rparr>)"

definition put_record :: "u32 \<Rightarrow> failure_record \<Rightarrow> SoftGateKeeper \<Rightarrow> SoftGateKeeper" where
  "put_record uid r g = g\<lparr>failure_map := (failure_map g)(uid := Some r)\<rparr>"

definition GetFailureRecord :: "u32 \<Rightarrow> u64 \<Rightarrow> SoftGateKeeper \<Rightarrow> failure_record \<times> SoftGateKeeper" where
  "GetFailureRecord uid user g =
     (let stored = stored_record uid g;
          stored = (if user \<noteq> secure_user_id stored
                    then \<lparr>secure_user_id = user, last_checked_timestamp = 0, failure_counter = 0\<rparr> else stored)
      in (stored, put_record uid stored g))"

definition ClearFailureRecord :: "u32 \<Rightarrow> u64 \<Rightarrow> SoftGateKeeper \<Rightarrow> SoftGateKeeper" where
  "ClearFailureRecord uid user g = put_record uid \<lparr>secure_user_id = user, last_checked_timestamp = 0, failure_counter = 0\<rparr> g"

definition WriteFailureRecord :: "u32 \<Rightarrow> failure_record \<Rightarrow> SoftGateKeeper \<Rightarrow> SoftGateKeeper" where
  "WriteFailureRecord uid r g = put_record uid r g"

section \<open>Fast hashes\<close>

definition ComputeFastHash :: "gk_env \<Rightarrow> octets \<Rightarrow> u64 \<Rightarrow> fast_hash" where
  "ComputeFastHash E password salt = \<lparr>fh_salt = salt, fh_digest = ge_sha256 E (salt_bytes salt @ password)\<rparr>"

definition VerifyFast :: "gk_env \<Rightarrow> fast_hash \<Rightarrow> octets \<Rightarrow> bool" where
  "VerifyFast E h password \<longleftrightarrow> fh_digest (ComputeFastHash E password (fh_salt h)) = fh_digest h"

definition DoVerify :: "gk_env \<Rightarrow> password_handle \<Rightarrow> octets \<Rightarrow> SoftGateKeeper \<Rightarrow> bool \<times> SoftGateKeeper" where
  "DoVerify E handle password g =
     (let user = ph_user_id handle
      in if (case fast_hash_map g user of None \<Rightarrow> False | Some h \<Rightarrow> VerifyFast E h password) then (True, g)
         else if ge_do_verify E handle password
         then (True, g\<lparr>fast_hash_map := (fast_hash_map g)(user \<mapsto> ComputeFastHash E password (ge_random E (random_calls g))),
                       random_calls := Suc (random_calls g)\<rparr>)
         else (False, g))"

section \<open>Device\<close>

datatype GatekeeperStatusCode =
    STATUS_REENROLL | STATUS_OK | ERROR_GENERAL_FAILURE | ERROR_RETRY_TIMEOUT | ERROR_NOT_IMPLEMENTED

datatype gk_error = ERROR_NONE | ERROR_INVALID | ERROR_RETRY | ERROR_UNKNOWN | ERROR_MEMORY_ALLOCATION_FAILED

text \<open>What \<open>Enroll\<close> and \<open>Verify\<close> of the base class leave in their response: error, timeout, the handle or token, and whether to enroll
  again.\<close>

record gk_response =
  re_error :: gk_error
  re_retry_timeout :: u32
  re_payload :: octets
  re_request_reenroll :: bool

type_synonym gk_reply = "GatekeeperStatusCode \<times> u32 \<times> octets"

definition enroll :: "(u32 \<Rightarrow> octets \<Rightarrow> octets \<Rightarrow> octets \<Rightarrow> gk_response) \<Rightarrow> u32 \<Rightarrow> octets \<Rightarrow> octets \<Rightarrow> octets \<Rightarrow> gk_reply" where
  "enroll Enroll uid currentPasswordHandle currentPassword desiredPassword =
     (if desiredPassword = [] then (ERROR_GENERAL_FAILURE, 0, [])
      else let response = Enroll uid currentPasswordHandle desiredPassword currentPassword
        in if re_error response = ERROR_RETRY then (ERROR_RETRY_TIMEOUT, re_retry_timeout response, [])
           else if re_error response \<noteq> ERROR_NONE then (ERROR_GENERAL_FAILURE, 0, [])
           else (STATUS_OK, re_retry_timeout response, re_payload response))"

definition verify :: "(u32 \<Rightarrow> u64 \<Rightarrow> octets \<Rightarrow> octets \<Rightarrow> gk_response) \<Rightarrow> u32 \<Rightarrow> u64 \<Rightarrow> octets \<Rightarrow> octets \<Rightarrow> gk_reply" where
  "verify Verify uid challenge enrolledPasswordHandle providedPassword =
     (if enrolledPasswordHandle = [] then (ERROR_GENERAL_FAILURE, 0, [])
      else let response = Verify uid challenge enrolledPasswordHandle providedPassword
        in if re_error response = ERROR_RETRY then (ERROR_RETRY_TIMEOUT, re_retry_timeout response, [])
           else if re_error response \<noteq> ERROR_NONE then (ERROR_GENERAL_FAILURE, 0, [])
           else (if re_request_reenroll response then STATUS_REENROLL else STATUS_OK, re_retry_timeout response, re_payload response))"

definition deleteUser :: gk_reply where
  "deleteUser = (ERROR_NOT_IMPLEMENTED, 0, [])"

definition deleteAllUsers :: gk_reply where
  "deleteAllUsers = (ERROR_NOT_IMPLEMENTED, 0, [])"

section \<open>What the cache accepts\<close>

text \<open>A sequence of verifications, with the pairs \<open>GateKeeper::DoVerify\<close> accepted.\<close>

fun verifications ::
  "gk_env \<Rightarrow> (password_handle \<times> octets) list \<Rightarrow> (password_handle \<times> octets) list \<times> SoftGateKeeper \<Rightarrow> (password_handle \<times> octets) list \<times> SoftGateKeeper" where
  "verifications E [] s = s"
| "verifications E ((h, pw) # vs) (acc, g) =
     verifications E vs
       (if (case fast_hash_map g (ph_user_id h) of None \<Rightarrow> False | Some f \<Rightarrow> VerifyFast E f pw) then acc
        else if ge_do_verify E h pw then (h, pw) # acc else acc,
        snd (DoVerify E h pw g))"

definition cache_ok :: "gk_env \<Rightarrow> (password_handle \<times> octets) list \<Rightarrow> SoftGateKeeper \<Rightarrow> bool" where
  "cache_ok E acc g \<longleftrightarrow> (\<forall>user f. fast_hash_map g user = Some f \<longrightarrow>
     (\<exists>h pw. (h, pw) \<in> set acc \<and> ph_user_id h = user \<and> ge_do_verify E h pw \<and> f = ComputeFastHash E pw (fh_salt f)))"

lemma verifications_cache_ok: "cache_ok E acc g \<Longrightarrow> verifications E vs (acc, g) = (acc', g') \<Longrightarrow> cache_ok E acc' g'"
proof (induction vs arbitrary: acc g)
  case (Cons v vs)
  obtain h pw where v: "v = (h, pw)" by fastforce
  define fast where "fast \<longleftrightarrow> (case fast_hash_map g (ph_user_id h) of None \<Rightarrow> False | Some f \<Rightarrow> VerifyFast E f pw)"
  define acc1 where "acc1 = (if fast then acc else if ge_do_verify E h pw then (h, pw) # acc else acc)"
  have "cache_ok E acc1 (snd (DoVerify E h pw g))"
  proof (cases "fast \<or> \<not> ge_do_verify E h pw")
    case True
    then have "snd (DoVerify E h pw g) = g" "acc1 = acc" by (auto simp: DoVerify_def acc1_def fast_def Let_def)
    then show ?thesis using Cons.prems(1) by simp
  next
    case False
    define f0 where "f0 = ComputeFastHash E pw (ge_random E (random_calls g))"
    have map: "fast_hash_map (snd (DoVerify E h pw g)) = (fast_hash_map g)(ph_user_id h \<mapsto> f0)" and acc1: "acc1 = (h, pw) # acc"
      using False by (simp_all add: DoVerify_def acc1_def fast_def f0_def Let_def)
    have new: "x = ComputeFastHash E pw (fh_salt x)" if "x = f0" for x using that by (simp add: f0_def ComputeFastHash_def)
    show ?thesis unfolding cache_ok_def map acc1
    proof (intro allI impI)
      fix user f assume f: "((fast_hash_map g)(ph_user_id h \<mapsto> f0)) user = Some f"
      show "\<exists>h' pw'. (h', pw') \<in> set ((h, pw) # acc) \<and> ph_user_id h' = user \<and> ge_do_verify E h' pw' \<and> f = ComputeFastHash E pw' (fh_salt f)"
      proof (cases "user = ph_user_id h")
        case True
        then have ff: "f = f0" using f by simp
        show ?thesis by (intro exI [of _ h] exI [of _ pw] conjI new [OF ff]) (use True False in simp_all)
      next
        case other: False
        then have "fast_hash_map g user = Some f" using f by simp
        then obtain h' pw' where "(h', pw') \<in> set acc \<and> ph_user_id h' = user \<and> ge_do_verify E h' pw' \<and> f = ComputeFastHash E pw' (fh_salt f)"
          using Cons.prems(1) unfolding cache_ok_def by blast
        then show ?thesis by (intro exI [of _ h'] exI [of _ pw']) (elim conjE, intro conjI, simp_all only: list.set insert_iff simp_thms)
      qed
    qed
  qed
  then show ?case using Cons.IH [of acc1 "snd (DoVerify E h pw g)"] Cons.prems(2) by (simp add: v acc1_def fast_def)
qed simp

text \<open>
  C16. The cache of fast hashes is sound up to collisions: after any verifications, a password is accepted only if the base
  class accepts it for this handle, or if its digest is that of a password the base class has accepted for a handle of the
  same user, under the salt then drawn.
\<close>

theorem cache_sound:
  assumes "verifications E vs ([], new_SoftGateKeeper) = (acc, g)" "fst (DoVerify E h pw g)"
  shows "ge_do_verify E h pw \<or>
    (\<exists>h' pw' salt. (h', pw') \<in> set acc \<and> ph_user_id h' = ph_user_id h \<and> ge_do_verify E h' pw' \<and>
       ge_sha256 E (salt_bytes salt @ pw) = ge_sha256 E (salt_bytes salt @ pw'))"
proof -
  have ok: "cache_ok E acc g"
    by (rule verifications_cache_ok [OF _ assms(1)]) (simp add: cache_ok_def new_SoftGateKeeper_def)
  show ?thesis
  proof (cases "ge_do_verify E h pw")
    case False
    then obtain f where f: "fast_hash_map g (ph_user_id h) = Some f" "VerifyFast E f pw"
      using assms(2) by (auto simp: DoVerify_def Let_def split: option.splits if_splits)
    from ok f(1) obtain h' pw' where h': "(h', pw') \<in> set acc" "ph_user_id h' = ph_user_id h" "ge_do_verify E h' pw'" "f = ComputeFastHash E pw' (fh_salt f)"
      unfolding cache_ok_def by blast
    have "ge_sha256 E (salt_bytes (fh_salt f) @ pw) = ge_sha256 E (salt_bytes (fh_salt f) @ pw')"
      using f(2) h'(4) by (metis ComputeFastHash_def VerifyFast_def fast_hash.select_convs(2))
    then show ?thesis using h' by blast
  qed simp
qed

text \<open>
  C25. The cache outlives a change of password. It is kept by user and enrolling again with the old password keeps the user, so that
  once a password was accepted for one handle of a user it is accepted for every other one, whatever the new password is and
  without asking the base class, until another password of that user has been verified.
\<close>

theorem old_password_accepted:
  assumes "fst (DoVerify E old pw g)" "ph_user_id renewed = ph_user_id old" "\<not> ge_do_verify E renewed pw"
  shows "fst (DoVerify E renewed pw (snd (DoVerify E old pw g)))"
  using assms by (auto simp: DoVerify_def Let_def VerifyFast_def ComputeFastHash_def split: option.splits if_splits)

text \<open>Password 1 for the handle 10, password 2 for the handle 20 of the same user.\<close>

definition example_gk :: gk_env where
  "example_gk = \<lparr>ge_sha256 = \<lambda>bs. bs, ge_scrypt = \<lambda>a b n. a, ge_random = \<lambda>n. of_nat n,
     ge_do_verify = \<lambda>h pw. ph_rest h = [10] \<and> pw = [1] \<or> ph_rest h = [20] \<and> pw = [2]\<rparr>"

theorem cache_sound_witness:
  "\<exists>acc g. verifications example_gk [(\<lparr>ph_user_id = 7, ph_rest = [10]\<rparr>, [1])] ([], new_SoftGateKeeper) = (acc, g) \<and>
     fst (DoVerify example_gk \<lparr>ph_user_id = 7, ph_rest = [10]\<rparr> [1] g) \<and> length acc = 1"
proof -
  obtain acc g where s: "verifications example_gk [(\<lparr>ph_user_id = 7, ph_rest = [10]\<rparr>, [1])] ([], new_SoftGateKeeper) = (acc, g)" by fastforce
  have f: "fst (DoVerify example_gk \<lparr>ph_user_id = 7, ph_rest = [10]\<rparr> [1] g)" and l: "length acc = 1"
    using s by (auto simp: DoVerify_def example_gk_def new_SoftGateKeeper_def VerifyFast_def ComputeFastHash_def Let_def)
  show ?thesis using cache_sound [OF s f] s f l by blast
qed

theorem old_password_accepted_witness:
  "fst (DoVerify example_gk \<lparr>ph_user_id = 7, ph_rest = [20]\<rparr> [1] (snd (DoVerify example_gk \<lparr>ph_user_id = 7, ph_rest = [10]\<rparr> [1] new_SoftGateKeeper)))"
  by (rule old_password_accepted) (simp_all add: DoVerify_def example_gk_def new_SoftGateKeeper_def)

section \<open>Failure records are kept for one user\<close>

text \<open>
  What is written for a user is read back by that user of the uid; asking for another user of the same uid starts from zero and
  forgets the failures counted before.
\<close>

theorem failure_record_roundtrip:
  "fst (GetFailureRecord uid user (WriteFailureRecord uid r g)) =
     (if user = secure_user_id r then r else \<lparr>secure_user_id = user, last_checked_timestamp = 0, failure_counter = 0\<rparr>) \<and>
   failure_counter (fst (GetFailureRecord uid user (ClearFailureRecord uid user g))) = 0 \<and>
   (user \<noteq> secure_user_id r \<longrightarrow>
     failure_counter (fst (GetFailureRecord uid (secure_user_id r) (snd (GetFailureRecord uid user (WriteFailureRecord uid r g))))) = 0) \<and>
   (\<forall>other. other \<noteq> uid \<longrightarrow> stored_record other (WriteFailureRecord uid r g) = stored_record other g)"
  by (simp add: GetFailureRecord_def WriteFailureRecord_def ClearFailureRecord_def put_record_def stored_record_def Let_def)

theorem failure_record_roundtrip_witness:
  "failure_counter (fst (GetFailureRecord 0 5 (WriteFailureRecord 0 \<lparr>secure_user_id = 5, last_checked_timestamp = 9, failure_counter = 3\<rparr> new_SoftGateKeeper))) = 3"
  using failure_record_roundtrip [of 0 5 "\<lparr>secure_user_id = 5, last_checked_timestamp = 9, failure_counter = 3\<rparr>" new_SoftGateKeeper] by simp

end
