(* ===== verification/Camera_Parameters.thy ===== *)
theory Camera_Parameters
  imports C_Strings "HOL-Library.List_Lexorder" "HOL-Library.Char_ord"
begin

text \<open>
  The camera parameters of \<open>libmocha\<close>: \<open>camera/CameraParameters.cpp\<close>, a map from keys to values that travels as one string, and
  \<open>camera/CameraParameters2.cpp\<close>, the same with the keys in the order they were set. Strings have no null byte. The text
  of a \<open>float\<close> (\<open>%g\<close>, \<open>strtof\<close>) is a parameter. The build does not define \<open>QCOM_HARDWARE\<close>.
\<close>

section \<open>Reading and writing the string\<close>

type_synonym params = "(string \<times> string) list"

fun flatten :: "params \<Rightarrow> string" where
  "flatten [] = []"
| "flatten [(k, v)] = k @ ''='' @ v"
| "flatten ((k, v) # x # m) = k @ ''='' @ v @ '';'' @ flatten (x # m)"

text \<open>\<open>strchr\<close>: what is before the first \<open>c\<close> and what is behind it.\<close>

definition cut_at :: "char \<Rightarrow> string \<Rightarrow> (string \<times> string) option" where
  "cut_at c s = (if c \<in> set s then Some (takeWhile (\<lambda>x. x \<noteq> c) s, tl (dropWhile (\<lambda>x. x \<noteq> c) s)) else None)"

lemma cut_at_shorter: "cut_at c s = Some (a, b) \<Longrightarrow> length b < length s"
proof -
  assume cut: "cut_at c s = Some (a, b)"
  then have "dropWhile (\<lambda>x. x \<noteq> c) s \<noteq> []" by (auto simp: cut_at_def dropWhile_eq_Nil_conv split: if_splits)
  then show "length b < length s"
    using cut length_dropWhile_le [of "\<lambda>x. x \<noteq> c" s] by (cases "dropWhile (\<lambda>x. x \<noteq> c) s") (auto simp: cut_at_def split: if_splits)
qed

text \<open>The loop of \<open>unflatten\<close> in both classes; \<open>add\<close> is the container's.\<close>

function unflatten_from :: "(string \<Rightarrow> string \<Rightarrow> params \<Rightarrow> params) \<Rightarrow> string \<Rightarrow> params \<Rightarrow> params" where
  "unflatten_from add a m =
     (case cut_at (CHR ''='') a of
        None \<Rightarrow> m
      | Some (k, a) \<Rightarrow>
          (case cut_at (CHR '';'') a of
             None \<Rightarrow> add k a m
           | Some (v, a) \<Rightarrow> unflatten_from add a (add k v m)))"
  by auto
termination unflatten_from
  by (relation "measure (\<lambda>(add, a, m). length a)") (auto dest!: cut_at_shorter)

declare unflatten_from.simps [simp del]

section \<open>Two containers\<close>

text \<open>\<open>DefaultKeyedVector\<close> keeps its keys sorted; adding a key that is there replaces its value.\<close>

fun keyed_put :: "string \<Rightarrow> string \<Rightarrow> params \<Rightarrow> params" where
  "keyed_put k v [] = [(k, v)]"
| "keyed_put k v ((k', v') # m) = (if k < k' then (k, v) # (k', v') # m else if k = k' then (k, v) # m else (k', v') # keyed_put k v m)"

definition keyed_remove :: "string \<Rightarrow> params \<Rightarrow> params" where
  "keyed_remove k m = filter (\<lambda>(k', v). k' \<noteq> k) m"

definition keyed_value :: "params \<Rightarrow> string \<Rightarrow> string" where
  "keyed_value m k = (case map_of m k of None \<Rightarrow> [] | Some v \<Rightarrow> v)"

text \<open>\<open>OrderedKeyedVector\<close>: \<open>add\<close> appends. \<open>removeItem\<close> turns the -2 of a missing key into an index, which
  \<open>Vector::removeAt\<close> refuses because it is beyond the end.\<close>

fun indexOfKey :: "string \<Rightarrow> params \<Rightarrow> nat option" where
  "indexOfKey k [] = None"
| "indexOfKey k ((k', v) # m) = (if k' = k then Some 0 else map_option Suc (indexOfKey k m))"

definition ordered_add :: "string \<Rightarrow> string \<Rightarrow> params \<Rightarrow> params" where
  "ordered_add k v m = m @ [(k, v)]"

definition removeAt :: "nat \<Rightarrow> params \<Rightarrow> params" where
  "removeAt i m = (if i < length m then take i m @ drop (Suc i) m else m)"

definition ordered_remove :: "string \<Rightarrow> params \<Rightarrow> params" where
  "ordered_remove k m = removeAt (case indexOfKey k m of None \<Rightarrow> 2 ^ 32 - 2 | Some i \<Rightarrow> i) m"

definition ordered_replace :: "string \<Rightarrow> string \<Rightarrow> params \<Rightarrow> params" where
  "ordered_replace k v m = ordered_add k v (ordered_remove k m)"

section \<open>The operations\<close>

definition reserved :: "string \<Rightarrow> bool" where
  "reserved s \<longleftrightarrow> CHR ''='' \<in> set s \<or> CHR '';'' \<in> set s"

definition unflatten :: "string \<Rightarrow> params" where
  "unflatten s = unflatten_from keyed_put s []"

definition set_value :: "string option \<Rightarrow> string option \<Rightarrow> params \<Rightarrow> params" where
  "set_value key v m =
     (case (key, v) of
        (Some key, Some v) \<Rightarrow> if reserved key then m else if reserved v then m else keyed_put key v m
      | _ \<Rightarrow> m)"

definition set_int :: "string option \<Rightarrow> int \<Rightarrow> params \<Rightarrow> params" where
  "set_int key i m = set_value key (Some (to_string i)) m"

definition setFloat :: "(rat \<Rightarrow> string) \<Rightarrow> string option \<Rightarrow> rat \<Rightarrow> params \<Rightarrow> params" where
  "setFloat g_text key x m = set_value key (Some (take 15 (g_text x))) m"

definition get_value :: "params \<Rightarrow> string \<Rightarrow> string option" where
  "get_value m key = (let v = keyed_value m key in if length v = 0 then None else Some v)"

definition remove_key :: "string \<Rightarrow> params \<Rightarrow> params" where
  "remove_key key m = keyed_remove key m"

definition isEmpty :: "params \<Rightarrow> bool" where
  "isEmpty m = (m = [])"

definition unflatten2 :: "string \<Rightarrow> params" where
  "unflatten2 s = unflatten_from ordered_add s []"

text \<open>A null pointer goes to \<open>strchr\<close>: \<open>None\<close> is the crash.\<close>

definition set_value2 :: "string option \<Rightarrow> string option \<Rightarrow> params \<Rightarrow> params option" where
  "set_value2 key v m =
     (case (key, v) of
        (Some key, Some v) \<Rightarrow> Some (if reserved key then m else if reserved v then m else ordered_replace key v m)
      | (Some key, None) \<Rightarrow> if reserved key then Some m else None
      | _ \<Rightarrow> None)"

definition set_int2 :: "string option \<Rightarrow> int \<Rightarrow> params \<Rightarrow> params option" where
  "set_int2 key i m = set_value2 key (Some (to_string i)) m"

definition setFloat2 :: "(rat \<Rightarrow> string) \<Rightarrow> string option \<Rightarrow> rat \<Rightarrow> params \<Rightarrow> params option" where
  "setFloat2 g_text key x m = set_value2 key (Some (take 15 (g_text x))) m"

definition get_value2 :: "params \<Rightarrow> string \<Rightarrow> string option" where
  "get_value2 m key = (case indexOfKey key m of None \<Rightarrow> None | Some i \<Rightarrow> Some (snd (m ! i)))"

definition remove_key2 :: "string \<Rightarrow> params \<Rightarrow> params" where
  "remove_key2 key m = ordered_remove key m"

abbreviation (input) BAD_VALUE :: int where "BAD_VALUE \<equiv> - EINVAL"
abbreviation (input) NAME_NOT_FOUND :: int where "NAME_NOT_FOUND \<equiv> - ENOENT"

definition compareSetOrder :: "params \<Rightarrow> string option \<Rightarrow> string option \<Rightarrow> bool \<Rightarrow> int + int" where
  "compareSetOrder m key1 key2 order_given =
     (case (key1, key2) of
        (Some k1, Some k2) \<Rightarrow>
          if \<not> order_given then Inl BAD_VALUE
          else (case (indexOfKey k1 m, indexOfKey k2 m) of
                  (Some i, Some j) \<Rightarrow> Inr (if i = j then 0 else if i < j then - 1 else 1)
                | _ \<Rightarrow> Inl NAME_NOT_FOUND)
      | _ \<Rightarrow> Inl BAD_VALUE)"

section \<open>Numbers, sizes and formats\<close>

text \<open>\<open>strtol\<close>, with base 10 or 0, on the 32-bit target: the value and the rest, the whole string without digits.\<close>

definition signed_value :: "bool \<Rightarrow> nat \<Rightarrow> int" where
  "signed_value neg n = (if neg then max (- 2147483648) (- int n) else min 2147483647 (int n))"

definition strtol :: "bool \<Rightarrow> string \<Rightarrow> int \<times> string" where
  "strtol decimal s =
     (let t = dropWhile is_blank s;
          neg = (t \<noteq> [] \<and> hd t = CHR ''-'');
          u = (if t \<noteq> [] \<and> (hd t = CHR ''-'' \<or> hd t = CHR ''+'') then tl t else t);
          (base, ds) = (if decimal then (10, u) else strtoul_base u);
          (n, rest) = read_digits base ds 0
      in if rest = ds then (0, s) else (signed_value neg n, rest))"

definition get_int :: "(string \<Rightarrow> string option) \<Rightarrow> string \<Rightarrow> int" where
  "get_int look key = (case look key of None \<Rightarrow> - 1 | Some v \<Rightarrow> fst (strtol False v))"

definition get_float :: "(string \<Rightarrow> rat) \<Rightarrow> (string \<Rightarrow> string option) \<Rightarrow> string \<Rightarrow> rat" where
  "get_float strtof look key = (case look key of None \<Rightarrow> - 1 | Some v \<Rightarrow> strtof v)"

definition parse_pair :: "string \<Rightarrow> char \<Rightarrow> (int \<times> int \<times> string) option" where
  "parse_pair str delim =
     (let (w, e) = strtol True str
      in if e = [] \<or> hd e \<noteq> delim then None else let (h, e) = strtol True (tl e) in Some (w, h, e))"

definition print_pair :: "char \<Rightarrow> int \<Rightarrow> int \<Rightarrow> string" where
  "print_pair delim w h = to_string w @ [delim] @ to_string h"

text \<open>A pair that is not there or cannot be read leaves \<open>-1\<close>.\<close>

definition get_pair :: "(string \<Rightarrow> string option) \<Rightarrow> char \<Rightarrow> string \<Rightarrow> int \<times> int" where
  "get_pair look delim key =
     (case look key of
        None \<Rightarrow> (- 1, - 1)
      | Some s \<Rightarrow> (case parse_pair s delim of None \<Rightarrow> (- 1, - 1) | Some (w, h, _) \<Rightarrow> (w, h)))"

lemma read_digits_shorter: "length (snd (read_digits base s n)) \<le> length s"
  by (induction base s n rule: read_digits.induct) (auto intro: le_SucI)

lemma strtol_shorter: "length (snd (strtol True s)) \<le> length s"
proof -
  have "length (dropWhile is_blank s) \<le> length s" by (rule length_dropWhile_le)
  then show ?thesis
    using read_digits_shorter [of 10 "dropWhile is_blank s" 0] read_digits_shorter [of 10 "tl (dropWhile is_blank s)" 0]
    by (auto simp: strtol_def Let_def split: prod.splits)
qed

lemma parse_pair_shorter: "parse_pair s delim = Some (w, h, e) \<Longrightarrow> length e < length s"
proof -
  assume pair: "parse_pair s delim = Some (w, h, e)"
  obtain w' e' where one: "strtol True s = (w', e')" by fastforce
  have "e' \<noteq> []" "e = snd (strtol True (tl e'))" using pair one by (auto simp: parse_pair_def split: if_splits prod.splits)
  then have "length e < length e'" using strtol_shorter [of "tl e'"] by (cases e') auto
  then show "length e < length s" using strtol_shorter [of s] one by simp
qed

function parse_sizes :: "string \<Rightarrow> (int \<times> int) list \<Rightarrow> (int \<times> int) list" where
  "parse_sizes s sizes =
     (case parse_pair s (CHR ''x'') of
        None \<Rightarrow> sizes
      | Some (w, h, e) \<Rightarrow>
          if e \<noteq> [] \<and> hd e \<noteq> CHR '','' then sizes
          else if e = [] then sizes @ [(w, h)] else parse_sizes (tl e) (sizes @ [(w, h)]))"
  by auto
termination parse_sizes
  by (relation "measure (\<lambda>(s, sizes). length s)") (auto dest!: parse_pair_shorter)

declare parse_sizes.simps [simp del]

definition parseSizesList :: "string option \<Rightarrow> (int \<times> int) list \<Rightarrow> (int \<times> int) list" where
  "parseSizesList s sizes = (case s of None \<Rightarrow> sizes | Some s \<Rightarrow> parse_sizes s sizes)"

definition KEY_PREVIEW_SIZE :: string where
  "KEY_PREVIEW_SIZE = ''preview-size''"

definition KEY_SUPPORTED_PREVIEW_SIZES :: string where
  "KEY_SUPPORTED_PREVIEW_SIZES = ''preview-size-values''"

definition KEY_PREVIEW_FORMAT :: string where
  "KEY_PREVIEW_FORMAT = ''preview-format''"

definition KEY_SUPPORTED_PREVIEW_FORMATS :: string where
  "KEY_SUPPORTED_PREVIEW_FORMATS = ''preview-format-values''"

definition KEY_PREVIEW_FRAME_RATE :: string where
  "KEY_PREVIEW_FRAME_RATE = ''preview-frame-rate''"

definition KEY_PREVIEW_FPS_RANGE :: string where
  "KEY_PREVIEW_FPS_RANGE = ''preview-fps-range''"

definition KEY_PICTURE_SIZE :: string where
  "KEY_PICTURE_SIZE = ''picture-size''"

definition KEY_SUPPORTED_PICTURE_SIZES :: string where
  "KEY_SUPPORTED_PICTURE_SIZES = ''picture-size-values''"

definition KEY_PICTURE_FORMAT :: string where
  "KEY_PICTURE_FORMAT = ''picture-format''"

definition KEY_VIDEO_SIZE :: string where
  "KEY_VIDEO_SIZE = ''video-size''"

definition KEY_SUPPORTED_VIDEO_SIZES :: string where
  "KEY_SUPPORTED_VIDEO_SIZES = ''video-size-values''"

definition KEY_PREFERRED_PREVIEW_SIZE_FOR_VIDEO :: string where
  "KEY_PREFERRED_PREVIEW_SIZE_FOR_VIDEO = ''preferred-preview-size-for-video''"

text \<open>The named parameters of \<open>CameraParameters\<close>.\<close>

definition setPreviewSize :: "int \<Rightarrow> int \<Rightarrow> params \<Rightarrow> params" where
  "setPreviewSize w h m = set_value (Some KEY_PREVIEW_SIZE) (Some (print_pair (CHR ''x'') w h)) m"

definition setVideoSize :: "int \<Rightarrow> int \<Rightarrow> params \<Rightarrow> params" where
  "setVideoSize w h m = set_value (Some KEY_VIDEO_SIZE) (Some (print_pair (CHR ''x'') w h)) m"

definition setPictureSize :: "int \<Rightarrow> int \<Rightarrow> params \<Rightarrow> params" where
  "setPictureSize w h m = set_value (Some KEY_PICTURE_SIZE) (Some (print_pair (CHR ''x'') w h)) m"

definition getPreviewSize :: "params \<Rightarrow> int \<times> int" where
  "getPreviewSize m = get_pair (get_value m) (CHR ''x'') KEY_PREVIEW_SIZE"

definition getPreferredPreviewSizeForVideo :: "params \<Rightarrow> int \<times> int" where
  "getPreferredPreviewSizeForVideo m = get_pair (get_value m) (CHR ''x'') KEY_PREFERRED_PREVIEW_SIZE_FOR_VIDEO"

definition getVideoSize :: "params \<Rightarrow> int \<times> int" where
  "getVideoSize m = get_pair (get_value m) (CHR ''x'') KEY_VIDEO_SIZE"

definition getPictureSize :: "params \<Rightarrow> int \<times> int" where
  "getPictureSize m = get_pair (get_value m) (CHR ''x'') KEY_PICTURE_SIZE"

definition getPreviewFpsRange :: "params \<Rightarrow> int \<times> int" where
  "getPreviewFpsRange m = get_pair (get_value m) (CHR '','') KEY_PREVIEW_FPS_RANGE"

definition getSupportedPreviewSizes :: "params \<Rightarrow> (int \<times> int) list \<Rightarrow> (int \<times> int) list" where
  "getSupportedPreviewSizes m sizes = parseSizesList (get_value m KEY_SUPPORTED_PREVIEW_SIZES) sizes"

definition getSupportedVideoSizes :: "params \<Rightarrow> (int \<times> int) list \<Rightarrow> (int \<times> int) list" where
  "getSupportedVideoSizes m sizes = parseSizesList (get_value m KEY_SUPPORTED_VIDEO_SIZES) sizes"

definition getSupportedPictureSizes :: "params \<Rightarrow> (int \<times> int) list \<Rightarrow> (int \<times> int) list" where
  "getSupportedPictureSizes m sizes = parseSizesList (get_value m KEY_SUPPORTED_PICTURE_SIZES) sizes"

definition setPreviewFrameRate :: "int \<Rightarrow> params \<Rightarrow> params" where
  "setPreviewFrameRate fps m = set_int (Some KEY_PREVIEW_FRAME_RATE) fps m"

definition getPreviewFrameRate :: "params \<Rightarrow> int" where
  "getPreviewFrameRate m = get_int (get_value m) KEY_PREVIEW_FRAME_RATE"

definition setPreviewFormat :: "string option \<Rightarrow> params \<Rightarrow> params" where
  "setPreviewFormat fmt m = set_value (Some KEY_PREVIEW_FORMAT) fmt m"

definition getPreviewFormat :: "params \<Rightarrow> string option" where
  "getPreviewFormat m = get_value m KEY_PREVIEW_FORMAT"

definition setPictureFormat :: "string option \<Rightarrow> params \<Rightarrow> params" where
  "setPictureFormat fmt m = set_value (Some KEY_PICTURE_FORMAT) fmt m"

definition getPictureFormat :: "params \<Rightarrow> string option" where
  "getPictureFormat m = get_value m KEY_PICTURE_FORMAT"

text \<open>The numbers of \<open>system/graphics.h\<close>: NV16, NV21, YUY2, YV12, RGB565, RGBA and raw sensor data.\<close>

definition previewFormatToEnum :: "string option \<Rightarrow> int" where
  "previewFormatToEnum fmt =
     (case fmt of
        None \<Rightarrow> 0x11
      | Some f \<Rightarrow>
          if f = ''yuv422sp'' then 0x10
          else if f = ''yuv420sp'' then 0x11
          else if f = ''yuv422i-yuyv'' then 0x14
          else if f = ''yuv420p'' then 0x32315659
          else if f = ''rgb565'' then 4
          else if f = ''rgba8888'' then 1
          else if f = ''bayer-rggb'' then 0x20
          else - 1)"

definition getSupportedPreviewFormats :: "params \<Rightarrow> int list \<Rightarrow> int list" where
  "getSupportedPreviewFormats m formats =
     (case get_value m KEY_SUPPORTED_PREVIEW_FORMATS of
        None \<Rightarrow> formats
      | Some s \<Rightarrow> formats @ filter (\<lambda>f. f \<noteq> - 1) (map (\<lambda>f. previewFormatToEnum (Some f)) (strtok (CHR '','') s)))"

text \<open>Those of \<open>CameraParameters2\<close>.\<close>

definition setPreviewSize2 :: "int \<Rightarrow> int \<Rightarrow> params \<Rightarrow> params option" where
  "setPreviewSize2 w h m = set_value2 (Some KEY_PREVIEW_SIZE) (Some (print_pair (CHR ''x'') w h)) m"

definition setVideoSize2 :: "int \<Rightarrow> int \<Rightarrow> params \<Rightarrow> params option" where
  "setVideoSize2 w h m = set_value2 (Some KEY_VIDEO_SIZE) (Some (print_pair (CHR ''x'') w h)) m"

definition setPictureSize2 :: "int \<Rightarrow> int \<Rightarrow> params \<Rightarrow> params option" where
  "setPictureSize2 w h m = set_value2 (Some KEY_PICTURE_SIZE) (Some (print_pair (CHR ''x'') w h)) m"

definition getPreviewSize2 :: "params \<Rightarrow> int \<times> int" where
  "getPreviewSize2 m = get_pair (get_value2 m) (CHR ''x'') KEY_PREVIEW_SIZE"

definition getPreferredPreviewSizeForVideo2 :: "params \<Rightarrow> int \<times> int" where
  "getPreferredPreviewSizeForVideo2 m = get_pair (get_value2 m) (CHR ''x'') KEY_PREFERRED_PREVIEW_SIZE_FOR_VIDEO"

definition getVideoSize2 :: "params \<Rightarrow> int \<times> int" where
  "getVideoSize2 m = get_pair (get_value2 m) (CHR ''x'') KEY_VIDEO_SIZE"

definition getPictureSize2 :: "params \<Rightarrow> int \<times> int" where
  "getPictureSize2 m = get_pair (get_value2 m) (CHR ''x'') KEY_PICTURE_SIZE"

definition getPreviewFpsRange2 :: "params \<Rightarrow> int \<times> int" where
  "getPreviewFpsRange2 m = get_pair (get_value2 m) (CHR '','') KEY_PREVIEW_FPS_RANGE"

definition getSupportedPreviewSizes2 :: "params \<Rightarrow> (int \<times> int) list \<Rightarrow> (int \<times> int) list" where
  "getSupportedPreviewSizes2 m sizes = parseSizesList (get_value2 m KEY_SUPPORTED_PREVIEW_SIZES) sizes"

definition getSupportedVideoSizes2 :: "params \<Rightarrow> (int \<times> int) list \<Rightarrow> (int \<times> int) list" where
  "getSupportedVideoSizes2 m sizes = parseSizesList (get_value2 m KEY_SUPPORTED_VIDEO_SIZES) sizes"

definition getSupportedPictureSizes2 :: "params \<Rightarrow> (int \<times> int) list \<Rightarrow> (int \<times> int) list" where
  "getSupportedPictureSizes2 m sizes = parseSizesList (get_value2 m KEY_SUPPORTED_PICTURE_SIZES) sizes"

definition setPreviewFrameRate2 :: "int \<Rightarrow> params \<Rightarrow> params option" where
  "setPreviewFrameRate2 fps m = set_int2 (Some KEY_PREVIEW_FRAME_RATE) fps m"

definition getPreviewFrameRate2 :: "params \<Rightarrow> int" where
  "getPreviewFrameRate2 m = get_int (get_value2 m) KEY_PREVIEW_FRAME_RATE"

definition setPreviewFormat2 :: "string option \<Rightarrow> params \<Rightarrow> params option" where
  "setPreviewFormat2 fmt m = set_value2 (Some KEY_PREVIEW_FORMAT) fmt m"

definition getPreviewFormat2 :: "params \<Rightarrow> string option" where
  "getPreviewFormat2 m = get_value2 m KEY_PREVIEW_FORMAT"

definition setPictureFormat2 :: "string option \<Rightarrow> params \<Rightarrow> params option" where
  "setPictureFormat2 fmt m = set_value2 (Some KEY_PICTURE_FORMAT) fmt m"

definition getPictureFormat2 :: "params \<Rightarrow> string option" where
  "getPictureFormat2 m = get_value2 m KEY_PICTURE_FORMAT"

definition setPreviewFpsRange2 :: "int \<Rightarrow> int \<Rightarrow> params \<Rightarrow> params option" where
  "setPreviewFpsRange2 min_fps max_fps m = set_value2 (Some KEY_PREVIEW_FPS_RANGE) (Some (print_pair (CHR '','') min_fps max_fps)) m"

section \<open>What every container gives\<close>

definition pair_ok :: "string \<times> string \<Rightarrow> bool" where
  "pair_ok x \<longleftrightarrow> CHR ''='' \<notin> set (fst x) \<and> CHR '';'' \<notin> set (snd x)"

lemma cut_at_behind: "c \<notin> set a \<Longrightarrow> cut_at c (a @ c # b) = Some (a, b)"
proof -
  assume c: "c \<notin> set a"
  then have "takeWhile (\<lambda>x. x \<noteq> c) (a @ c # b) = a" "dropWhile (\<lambda>x. x \<noteq> c) (a @ c # b) = c # b"
    by (subst takeWhile_append2, auto) (subst dropWhile_append2, auto)
  then show ?thesis by (simp add: cut_at_def)
qed

lemma cut_at_none: "c \<notin> set a \<Longrightarrow> cut_at c a = None"
  by (simp add: cut_at_def)

lemma cut_at_clean: "cut_at c s = Some (a, b) \<Longrightarrow> c \<notin> set a"
  by (auto simp: cut_at_def split: if_splits dest: set_takeWhileD)

text \<open>Reading what was written adds the pairs again, one after the other.\<close>

lemma unflatten_flatten:
  "list_all pair_ok m \<Longrightarrow> unflatten_from add (flatten m) acc = fold (\<lambda>(k, v). add k v) m acc"
proof (induction m arbitrary: acc rule: flatten.induct)
  case 1
  show ?case by (simp add: unflatten_from.simps [of add "[]"] cut_at_none)
next
  case (2 k v)
  then show ?case
    by (simp add: unflatten_from.simps [of add "k @ CHR ''='' # v"] cut_at_behind cut_at_none pair_ok_def)
next
  case (3 k v x m)
  have "CHR ''='' \<notin> set k" "CHR '';'' \<notin> set v" using "3.prems" by (simp_all add: pair_ok_def)
  then have "unflatten_from add (flatten ((k, v) # x # m)) acc = unflatten_from add (flatten (x # m)) (add k v acc)"
    by (simp add: unflatten_from.simps [of add "k @ CHR ''='' # v @ CHR '';'' # flatten (x # m)"] cut_at_behind)
  then show ?case using "3.IH" [of "add k v acc"] "3.prems" by simp
qed

locale parameter_store =
  fixes wf :: "params \<Rightarrow> bool" and add :: "string \<Rightarrow> string \<Rightarrow> params \<Rightarrow> params"
  assumes new_wf: "wf []"
    and add_wf: "wf m \<Longrightarrow> wf (add k v m)"
    and add_pairs: "set (add k v m) \<subseteq> insert (k, v) (set m)"
    and rebuild: "wf m \<Longrightarrow> fold (\<lambda>(k, v). add k v) m [] = m"
begin

lemma roundtrip: "wf m \<Longrightarrow> list_all pair_ok m \<Longrightarrow> unflatten_from add (flatten m) [] = m"
  using unflatten_flatten rebuild by simp

lemma add_ok: "list_all pair_ok m \<Longrightarrow> pair_ok (k, v) \<Longrightarrow> list_all pair_ok (add k v m)"
  using add_pairs [of k v m] by (auto simp: list_all_iff)

lemma unflatten_ok: "wf m \<Longrightarrow> list_all pair_ok m \<Longrightarrow> wf (unflatten_from add s m) \<and> list_all pair_ok (unflatten_from add s m)"
proof (induction "length s" arbitrary: s m rule: less_induct)
  case less
  show ?case
  proof (cases "cut_at (CHR ''='') s")
    case None
    then show ?thesis using less.prems by (simp add: unflatten_from.simps [of add s])
  next
    case (Some x)
    then obtain k a where k: "cut_at (CHR ''='') s = Some (k, a)" by fastforce
    show ?thesis
    proof (cases "cut_at (CHR '';'') a")
      case None
      then have "pair_ok (k, a)" using cut_at_clean [OF k] by (simp add: pair_ok_def cut_at_def split: if_splits)
      then show ?thesis using None k less.prems add_wf add_ok by (simp add: unflatten_from.simps [of add s])
    next
      case (Some y)
      then obtain v b where v: "cut_at (CHR '';'') a = Some (v, b)" by fastforce
      have "pair_ok (k, v)" using cut_at_clean [OF k] cut_at_clean [OF v] by (simp add: pair_ok_def)
      moreover have "length b < length s" using cut_at_shorter [OF k] cut_at_shorter [OF v] by simp
      ultimately show ?thesis using less.hyps [of b "add k v m"] less.prems add_wf add_ok k v
        by (simp add: unflatten_from.simps [of add s])
    qed
  qed
qed

end

definition sorted_keys :: "params \<Rightarrow> bool" where
  "sorted_keys m \<longleftrightarrow> sorted_wrt (<) (map fst m)"

lemma keyed_put_pairs: "set (keyed_put k v m) \<subseteq> insert (k, v) (set m)"
  by (induction k v m rule: keyed_put.induct) auto

lemma keyed_put_keys: "fst ` set (keyed_put k v m) = insert k (fst ` set m)"
  by (induction k v m rule: keyed_put.induct) auto

lemma keyed_put_sorted: "sorted_keys m \<Longrightarrow> sorted_keys (keyed_put k v m)"
proof (induction k v m rule: keyed_put.induct)
  case (2 k v k' v' m)
  have "\<forall>x\<in>fst ` set (keyed_put k v m). k' < x" if "\<not> k < k'" "k \<noteq> k'"
    using that "2.prems" unfolding keyed_put_keys by (auto simp: sorted_keys_def)
  then show ?case using 2 by (auto simp: sorted_keys_def)
qed (simp add: sorted_keys_def)

lemma keyed_put_last: "\<forall>x\<in>fst ` set m. x < k \<Longrightarrow> keyed_put k v m = m @ [(k, v)]"
  by (induction k v m rule: keyed_put.induct) (auto dest: less_not_sym)

lemma keyed_rebuild: "sorted_keys (a @ m) \<Longrightarrow> fold (\<lambda>(k, v). keyed_put k v) m a = a @ m"
proof (induction m arbitrary: a)
  case (Cons x m)
  obtain k v where x: "x = (k, v)" by fastforce
  have "\<forall>y\<in>fst ` set a. y < k" using Cons.prems by (auto simp: sorted_keys_def sorted_wrt_append x)
  then show ?case using Cons.IH [of "a @ [(k, v)]"] Cons.prems by (simp add: x keyed_put_last)
qed simp

interpretation kv: parameter_store sorted_keys keyed_put
  by unfold_locales
    (use keyed_put_pairs keyed_put_sorted keyed_rebuild [of "[]"] in \<open>auto simp: sorted_keys_def [of "[]"]\<close>)

lemma ordered_rebuild: "fold (\<lambda>(k, v). ordered_add k v) m a = a @ m"
  by (induction m arbitrary: a) (auto simp: ordered_add_def)

interpretation ov: parameter_store "\<lambda>_. True" ordered_add
  by unfold_locales (auto simp: ordered_rebuild, auto simp: ordered_add_def)

section \<open>Round trip\<close>

text \<open>Every setter is a call of \<open>set\<close>.\<close>

datatype params_call = PSet "string option" "string option" | PRemove string | PUnflatten string

fun params_do :: "params_call \<Rightarrow> params \<Rightarrow> params" where
  "params_do (PSet k v) m = set_value k v m"
| "params_do (PRemove k) m = remove_key k m"
| "params_do (PUnflatten s) m = unflatten s"

fun params_do2 :: "params_call \<Rightarrow> params \<Rightarrow> params option" where
  "params_do2 (PSet k v) m = set_value2 k v m"
| "params_do2 (PRemove k) m = Some (remove_key2 k m)"
| "params_do2 (PUnflatten s) m = Some (unflatten2 s)"

definition params_run :: "params_call list \<Rightarrow> params" where
  "params_run cs = fold params_do cs []"

fun params_run2 :: "params_call list \<Rightarrow> params \<Rightarrow> params option" where
  "params_run2 [] m = Some m"
| "params_run2 (c # cs) m = (case params_do2 c m of None \<Rightarrow> None | Some m \<Rightarrow> params_run2 cs m)"

lemma not_reserved_ok: "\<not> reserved k \<Longrightarrow> \<not> reserved v \<Longrightarrow> pair_ok (k, v)"
  by (simp add: reserved_def pair_ok_def)

lemma sorted_keys_filter: "sorted_keys m \<Longrightarrow> sorted_keys (filter P m)"
  by (induction m) (auto simp: sorted_keys_def)

lemma params_do_ok:
  assumes "sorted_keys m" "list_all pair_ok m"
  shows "sorted_keys (params_do c m) \<and> list_all pair_ok (params_do c m)"
proof (cases c)
  case (PSet k v)
  then show ?thesis using assms keyed_put_sorted kv.add_ok not_reserved_ok
    by (auto simp: set_value_def split: option.splits)
next
  case (PRemove k)
  then show ?thesis using assms sorted_keys_filter by (auto simp: remove_key_def keyed_remove_def list_all_iff)
next
  case (PUnflatten s)
  then show ?thesis using kv.unflatten_ok [of "[]" s] by (simp add: unflatten_def sorted_keys_def)
qed

lemma params_run_ok: "sorted_keys (params_run cs) \<and> list_all pair_ok (params_run cs)"
proof -
  have "sorted_keys m \<Longrightarrow> list_all pair_ok m \<Longrightarrow> sorted_keys (fold params_do cs m) \<and> list_all pair_ok (fold params_do cs m)" for m
    by (induction cs arbitrary: m) (use params_do_ok in auto)
  then show ?thesis by (simp add: params_run_def sorted_keys_def)
qed

lemma ordered_remove_pairs: "set (ordered_remove k m) \<subseteq> set m"
  by (auto simp: ordered_remove_def removeAt_def dest: in_set_takeD in_set_dropD)

lemma params_do2_ok: "list_all pair_ok m \<Longrightarrow> params_do2 c m = Some m' \<Longrightarrow> list_all pair_ok m'"
proof (cases c)
  case (PSet k v)
  assume ok: "list_all pair_ok m" and r: "params_do2 c m = Some m'"
  have "list_all pair_ok (ordered_replace k v m)" if "\<not> reserved k" "\<not> reserved v" for k v
    using ok ordered_remove_pairs [of k m] not_reserved_ok [OF that] by (auto simp: ordered_replace_def ordered_add_def list_all_iff)
  then show ?thesis using ok r PSet by (auto simp: set_value2_def split: option.splits if_splits)
next
  case (PRemove k)
  assume "list_all pair_ok m" "params_do2 c m = Some m'"
  then show ?thesis using PRemove ordered_remove_pairs [of k m] by (auto simp: remove_key2_def list_all_iff)
next
  case (PUnflatten s)
  assume "params_do2 c m = Some m'"
  then show ?thesis using PUnflatten ov.unflatten_ok [of "[]" s] by (auto simp: unflatten2_def)
qed

lemma params_run2_ok: "list_all pair_ok m \<Longrightarrow> params_run2 cs m = Some m' \<Longrightarrow> list_all pair_ok m'"
  by (induction cs m rule: params_run2.induct) (auto split: option.splits dest: params_do2_ok)

text \<open>
  C19. The string carries the parameters: after any calls on a new object, of either class, reading the string it is written as
  gives the same object back, whatever strings were read before, and for \<open>CameraParameters2\<close> in the same order.
\<close>

theorem parameters_roundtrip:
  "unflatten (flatten (params_run cs)) = params_run cs \<and> (params_run2 cs [] = Some m \<longrightarrow> unflatten2 (flatten m) = m)"
  using kv.roundtrip [of "params_run cs"] params_run_ok [of cs] ov.roundtrip [of m] params_run2_ok [of "[]" cs m]
  by (simp add: unflatten_def unflatten2_def)

theorem parameters_roundtrip_witness:
  "\<exists>m. params_run2 [PUnflatten ''a=1;;b=2=3'', PSet (Some ''c'') (Some ''4'')] [] = Some m \<and> unflatten2 (flatten m) = m"
proof -
  obtain m where "params_run2 [PUnflatten ''a=1;;b=2=3'', PSet (Some ''c'') (Some ''4'')] [] = Some m"
    by (simp add: set_value2_def)
  then show ?thesis using parameters_roundtrip [of "[PUnflatten ''a=1;;b=2=3'', PSet (Some ''c'') (Some ''4'')]" m] by blast
qed

section \<open>Setting and getting\<close>

lemma keyed_put_lookup: "sorted_keys m \<Longrightarrow> map_of (keyed_put k v m) = (map_of m)(k \<mapsto> v)"
proof (induction k v m rule: keyed_put.induct)
  case (2 k v k' v' m)
  then show ?case by (auto simp: sorted_keys_def fun_eq_iff)
qed auto

lemma indexOfKey_lookup: "get_value2 m k = map_of m k"
  unfolding get_value2_def by (induction k m rule: indexOfKey.induct) (auto split: option.splits)

lemma indexOfKey_bound: "indexOfKey k m = Some i \<Longrightarrow> i < length m"
  by (induction k m arbitrary: i rule: indexOfKey.induct) (auto split: if_splits)

lemma ordered_remove_first:
  assumes "length m < 2 ^ 32 - 2"
  shows "ordered_remove k m = takeWhile (\<lambda>x. fst x \<noteq> k) m @ tl (dropWhile (\<lambda>x. fst x \<noteq> k) m)"
proof -
  have "removeAt i m = takeWhile (\<lambda>x. fst x \<noteq> k) m @ tl (dropWhile (\<lambda>x. fst x \<noteq> k) m)" if "indexOfKey k m = Some i" for i
    using that by (induction k m arbitrary: i rule: indexOfKey.induct) (auto simp: removeAt_def split: if_splits)
  moreover have "takeWhile (\<lambda>x. fst x \<noteq> k) m @ tl (dropWhile (\<lambda>x. fst x \<noteq> k) m) = m" if "indexOfKey k m = None"
    using that by (induction k m rule: indexOfKey.induct) (auto split: if_splits)
  ultimately show ?thesis using assms by (cases "indexOfKey k m") (simp_all add: ordered_remove_def, simp add: removeAt_def)
qed

lemma ordered_remove_other:
  assumes "length m < 2 ^ 32 - 2" "k' \<noteq> k"
  shows "map_of (ordered_remove k m) k' = map_of m k'"
  unfolding ordered_remove_first [OF assms(1)] using assms(2) by (induction m) auto

lemma ordered_remove_once:
  assumes "length m < 2 ^ 32 - 2" "distinct (map fst m)"
  shows "map_of (ordered_remove k m) k = None" "distinct (map fst (ordered_remove k m))"
proof -
  have "map_of (takeWhile (\<lambda>x. fst x \<noteq> k) m @ tl (dropWhile (\<lambda>x. fst x \<noteq> k) m)) k = None \<and>
    distinct (map fst (takeWhile (\<lambda>x. fst x \<noteq> k) m @ tl (dropWhile (\<lambda>x. fst x \<noteq> k) m))) \<and>
    fst ` set (takeWhile (\<lambda>x. fst x \<noteq> k) m @ tl (dropWhile (\<lambda>x. fst x \<noteq> k) m)) \<subseteq> fst ` set m"
    using assms(2) by (induction m) (auto simp: map_of_eq_None_iff)
  then show "map_of (ordered_remove k m) k = None" "distinct (map fst (ordered_remove k m))"
    unfolding ordered_remove_first [OF assms(1)] by blast+
qed

text \<open>
  A value that is set is the value that is got, and no other key changes: in \<open>CameraParameters\<close> after any calls, where the
  empty value counts as absent; in \<open>CameraParameters2\<close> as long as no key occurs twice, where the key is then the last in the order.
\<close>

theorem set_then_get:
  assumes "\<not> reserved k" "\<not> reserved v" "distinct (map fst m)" "length m < 2 ^ 32 - 2"
  shows "get_value (set_value (Some k) (Some v) (params_run cs)) k' =
      (if k' = k then (if v = [] then None else Some v) else get_value (params_run cs) k') \<and>
    (\<exists>m'. set_value2 (Some k) (Some v) m = Some m' \<and> distinct (map fst m') \<and>
       get_value2 m' k' = (if k' = k then Some v else get_value2 m k') \<and>
       (k' \<noteq> k \<longrightarrow> get_value2 m k' \<noteq> None \<longrightarrow> compareSetOrder m' (Some k') (Some k) True = Inr (- 1)))"
proof
  show "get_value (set_value (Some k) (Some v) (params_run cs)) k' =
      (if k' = k then (if v = [] then None else Some v) else get_value (params_run cs) k')"
    using assms(1,2) params_run_ok [of cs] by (auto simp: get_value_def set_value_def keyed_value_def keyed_put_lookup Let_def)
  define r where "r = ordered_remove k m"
  have r: "map_of r k = None" "distinct (map fst r)" "k' \<noteq> k \<Longrightarrow> map_of r k' = map_of m k'"
    using ordered_remove_once [OF assms(4,3)] ordered_remove_other [OF assms(4)] by (simp_all add: r_def)
  have s: "set_value2 (Some k) (Some v) m = Some (r @ [(k, v)])"
    using assms(1,2) by (simp add: set_value2_def ordered_replace_def ordered_add_def r_def)
  have fresh: "k \<notin> fst ` set r" using r(1) by (simp add: map_of_eq_None_iff)
  have last_index: "indexOfKey k (r @ [(k, v)]) = Some (length r)" using fresh by (induction r) auto
  have keep: "indexOfKey k' (r @ [(k, v)]) = Some i" if "indexOfKey k' r = Some i" for i
    using that by (induction r arbitrary: i) (auto split: if_splits)
  have "compareSetOrder (r @ [(k, v)]) (Some k') (Some k) True = Inr (- 1)" if other: "k' \<noteq> k" "get_value2 m k' \<noteq> None"
  proof -
    have "get_value2 r k' \<noteq> None" using other r(3) by (simp add: indexOfKey_lookup)
    then obtain i where i: "indexOfKey k' r = Some i" by (auto simp: get_value2_def split: option.splits)
    then show ?thesis using keep [OF i] last_index indexOfKey_bound [OF i] by (simp add: compareSetOrder_def)
  qed
  moreover have "get_value2 (r @ [(k, v)]) k' = (if k' = k then Some v else get_value2 m k')"
    using r(1,3) unfolding indexOfKey_lookup by (auto simp: map_of_append map_add_def split: option.splits)
  moreover have "distinct (map fst (r @ [(k, v)]))" using r(2) fresh by auto
  ultimately show "\<exists>m'. set_value2 (Some k) (Some v) m = Some m' \<and> distinct (map fst m') \<and>
       get_value2 m' k' = (if k' = k then Some v else get_value2 m k') \<and>
       (k' \<noteq> k \<longrightarrow> get_value2 m k' \<noteq> None \<longrightarrow> compareSetOrder m' (Some k') (Some k) True = Inr (- 1))"
    using s by blast
qed

theorem set_then_get_witness:
  "get_value (set_value (Some ''zoom'') (Some ''3'') (params_run [PUnflatten ''zoom=1;iso=100''])) ''zoom'' = Some ''3'' \<and>
   (\<exists>m'. set_value2 (Some ''zoom'') (Some ''3'') [(''zoom'', ''1''), (''iso'', ''100'')] = Some m' \<and> get_value2 m' ''zoom'' = Some ''3'')"
  using set_then_get [of "''zoom''" "''3''" "[(''zoom'', ''1''), (''iso'', ''100'')]" "[PUnflatten ''zoom=1;iso=100'']" "''zoom''"]
  by (auto simp: reserved_def)



section \<open>Sizes\<close>

lemma nat_digits_length: "n < 10 ^ Suc k \<Longrightarrow> length (nat_digits n) \<le> Suc k"
proof (induction k arbitrary: n)
  case 0
  then show ?case by (subst nat_digits.simps) simp
next
  case (Suc k)
  show ?case
  proof (cases "n < 10")
    case True
    then show ?thesis by (subst nat_digits.simps) simp
  next
    case False
    have "n div 10 < 10 ^ Suc k" using Suc.prems by (simp add: div_less_iff_less_mult)
    then show ?thesis using Suc.IH [of "n div 10"] False by (subst nat_digits.simps) simp
  qed
qed

definition int_range :: "int \<Rightarrow> bool" where
  "int_range i \<longleftrightarrow> - 2147483648 \<le> i \<and> i \<le> 2147483647"

lemma to_string_length:
  assumes "int_range i"
  shows "length (to_string i) \<le> 11"
proof -
  have "nat i < 10 ^ Suc 9" "nat (- i) < 10 ^ Suc 9" using assms by (auto simp: int_range_def)
  then have "length (nat_digits (nat i)) \<le> Suc 9" "length (nat_digits (nat (- i))) \<le> Suc 9"
    using nat_digits_length by blast+
  then show ?thesis by (simp add: to_string_def)
qed

text \<open>A number and what follows it.\<close>

lemma strtol_written:
  assumes "int_range i" "ys = [] \<or> digit_value (hd ys) \<ge> 10"
  shows "strtol True (to_string i @ ys) = (i, ys)"
proof -
  obtain c cs where n: "nat_digits (nat i) = c # cs" "is_digit c" using nat_digits_Cons by blast
  have minus: "\<not> is_blank (CHR ''-'')" by (simp add: is_blank_def)
  have read: "read_digits 10 (nat_digits k @ ys) 0 = (k, ys)" for k by (rule read_nat_digits_stop [OF assms(2)])
  have some: "nat_digits k \<noteq> []" for k using nat_digits_Cons [of k] by auto
  show ?thesis
  proof (cases "i < 0")
    case True
    then show ?thesis using assms(1) minus read [of "nat (- i)"] some [of "nat (- i)"]
      by (simp add: strtol_def to_string_def Let_def signed_value_def int_range_def)
  next
    case False
    then show ?thesis using assms(1) digit_not_blank [OF n(2)] read [of "nat i"] n(1)
      by (simp add: strtol_def to_string_def Let_def signed_value_def int_range_def)
  qed
qed

lemma to_string_clean: "\<not> reserved (to_string i)"
proof -
  have "c \<noteq> CHR ''='' \<and> c \<noteq> CHR '';''" if "is_digit c" for c using that by (auto simp: is_digit_def)
  then have "\<not> reserved (nat_digits n)" for n using nat_digits_all [of n] by (auto simp: reserved_def)
  then show ?thesis by (simp add: to_string_def reserved_def)
qed

lemma parse_print_pair:
  assumes "int_range w" "int_range h" "d \<in> {CHR ''x'', CHR '',''}" "ys = [] \<or> digit_value (hd ys) \<ge> 10"
  shows "parse_pair (print_pair d w h @ ys) d = Some (w, h, ys)"
proof -
  have d: "digit_value d \<ge> 10" using assms(3) by (auto simp: digit_value_def)
  have "strtol True (to_string w @ d # to_string h @ ys) = (w, d # to_string h @ ys)"
    by (rule strtol_written [OF assms(1)]) (simp add: d)
  then show ?thesis using strtol_written [OF assms(2,4)] by (simp add: parse_pair_def print_pair_def)
qed

text \<open>A list of sizes in the notation the drivers use.\<close>

fun sizes_text :: "(int \<times> int) list \<Rightarrow> string" where
  "sizes_text [] = []"
| "sizes_text [(w, h)] = print_pair (CHR ''x'') w h"
| "sizes_text ((w, h) # x # xs) = print_pair (CHR ''x'') w h @ '','' @ sizes_text (x # xs)"

lemma parse_sizes_text:
  "\<forall>(w, h)\<in>set xs. int_range w \<and> int_range h \<Longrightarrow> parse_sizes (sizes_text xs) acc = acc @ xs"
proof (induction xs arbitrary: acc rule: sizes_text.induct)
  case 1
  show ?case by (subst parse_sizes.simps) (simp add: parse_pair_def strtol_def)
next
  case (2 w h)
  then show ?case using parse_print_pair [of w h "CHR ''x''" "[]"] by (subst parse_sizes.simps) simp
next
  case (3 w h x xs)
  have "digit_value (CHR '','') \<ge> 10" by (simp add: digit_value_def)
  then show ?case using 3 parse_print_pair [of w h "CHR ''x''" "'','' @ sizes_text (x # xs)"]
    by (subst parse_sizes.simps) simp
qed

text \<open>
  Sizes, rates and ranges of any \<open>int\<close> values can be read back by their getters from what the setters store, the text fits the
  buffer it is printed into (16 bytes for a number, 32 for a pair, with the null byte), and a list of sizes is read in order.
\<close>

theorem sizes_roundtrip:
  assumes "int_range w" "int_range h" "\<forall>(w, h)\<in>set xs. int_range w \<and> int_range h"
  shows "getPreviewSize (setPreviewSize w h (params_run cs)) = (w, h) \<and>
    getVideoSize (setVideoSize w h (params_run cs)) = (w, h) \<and>
    getPictureSize (setPictureSize w h (params_run cs)) = (w, h) \<and>
    map_option getPreviewFpsRange2 (setPreviewFpsRange2 w h []) = Some (w, h) \<and>
    length (to_string w) < 16 \<and> length (print_pair (CHR ''x'') w h) < 32 \<and>
    parseSizesList (Some (sizes_text xs)) [] = xs"
proof -
  have clean: "\<not> reserved (print_pair d w h)" if "d \<in> {CHR ''x'', CHR '',''}" for d
    using that to_string_clean [of w] to_string_clean [of h] by (auto simp: reserved_def print_pair_def)
  have keys: "\<not> reserved KEY_PREVIEW_SIZE" "\<not> reserved KEY_VIDEO_SIZE" "\<not> reserved KEY_PICTURE_SIZE" "\<not> reserved KEY_PREVIEW_FPS_RANGE"
    by (simp_all add: reserved_def KEY_PREVIEW_SIZE_def KEY_VIDEO_SIZE_def KEY_PICTURE_SIZE_def KEY_PREVIEW_FPS_RANGE_def)
  have stored: "get_value (set_value (Some k) (Some (print_pair (CHR ''x'') w h)) (params_run cs)) k = Some (print_pair (CHR ''x'') w h)"
    if "\<not> reserved k" for k
    using that clean params_run_ok [of cs]
    by (simp add: get_value_def set_value_def keyed_value_def keyed_put_lookup Let_def) (simp add: print_pair_def)
  have pair: "parse_pair (print_pair d w h) d = Some (w, h, [])" if "d \<in> {CHR ''x'', CHR '',''}" for d
    using parse_print_pair [OF assms(1,2) that, of "[]"] by simp
  have range: "map_option getPreviewFpsRange2 (setPreviewFpsRange2 w h []) = Some (w, h)"
    using clean [of "CHR '',''"] keys(4) pair [of "CHR '',''"]
    by (simp add: setPreviewFpsRange2_def getPreviewFpsRange2_def set_value2_def ordered_replace_def ordered_remove_def removeAt_def
        ordered_add_def get_pair_def get_value2_def)
  have "length (print_pair (CHR ''x'') w h) < 32" "length (to_string w) < 16"
    using to_string_length [OF assms(1)] to_string_length [OF assms(2)] by (simp_all add: print_pair_def)
  then show ?thesis using range stored keys pair parse_sizes_text [OF assms(3), of "[]"]
    by (simp add: getPreviewSize_def setPreviewSize_def getVideoSize_def setVideoSize_def getPictureSize_def setPictureSize_def
        get_pair_def parseSizesList_def)
qed

theorem sizes_roundtrip_witness:
  "getPreviewSize (setPreviewSize 1920 1080 (params_run [])) = (1920, 1080) \<and>
   parseSizesList (Some (sizes_text [(640, 480), (1920, 1080)])) [] = [(640, 480), (1920, 1080)]"
  using sizes_roundtrip [of 1920 1080 "[(640, 480), (1920, 1080)]" "[]"] by (simp add: int_range_def)

end
