(* ===== verification/Boot_Services.thy ===== *)
theory Boot_Services
  imports Mocha_Prelude
begin

text \<open>
  Two small programs: \<open>conn_init/conn_init.c\<close>, which reads the network addresses from a partition at boot, over files named by
  their paths; and the memory tracker (\<open>hardware/nvidia/memtrack/nvmap.cpp\<close>, \<open>Memtrack.cpp\<close>), over the entries the
  kernel lists for a process.
\<close>

section \<open>Network addresses\<close>

datatype file_attr = Owner nat | Mode nat

text \<open>Files that can be read, paths that can be opened for writing, the properties set and the changes of mode, last first.\<close>

record machine =
  mc_files :: "string \<Rightarrow> string option"
  mc_writable :: "string \<Rightarrow> bool"
  mc_props :: "(string \<times> string) list"
  mc_modes :: "(string \<times> file_attr) list"

definition MAC_PARTITION1 :: string where
  "MAC_PARTITION1 = ''/dev/block/platform/sdhci-tegra.3/by-name/BKB''"

definition MAC_PARTITION2 :: string where
  "MAC_PARTITION2 = ''/dev/block/platform/700b0600.sdhci/by-name/BKB''"

definition WIFI_MAC_FILE :: string where
  "WIFI_MAC_FILE = ''/data/mocha_macaddr.txt''"

definition BT_MAC_FILE :: string where
  "BT_MAC_FILE = ''/data/mocha_btmacaddr.txt''"

definition hex_digit :: "nat \<Rightarrow> char" where
  "hex_digit n = ''0123456789abcdef'' ! n"

definition hex2 :: "char \<Rightarrow> string" where
  "hex2 c = [hex_digit (of_char c div 16), hex_digit (of_char c mod 16)]"

text \<open>The buffer after reading at most \<open>n\<close> bytes: what was not read is what was on the stack.\<close>

definition fread :: "string \<Rightarrow> nat \<Rightarrow> nat \<Rightarrow> string \<Rightarrow> string" where
  "fread stack off n file = (let got = take n (drop off file) in got @ drop (length got) stack)"

definition mac_text :: "string \<Rightarrow> string" where
  "mac_text buf =
     hex2 (buf ! 14) @ '':'' @ hex2 (buf ! 13) @ '':'' @ hex2 (buf ! 12) @ '':'' @ hex2 (buf ! 11) @ '':'' @ hex2 (buf ! 10) @ '':'' @ hex2 (buf ! 9)"

definition write_file :: "string \<Rightarrow> string \<Rightarrow> machine \<Rightarrow> machine" where
  "write_file path body w = w\<lparr>mc_files := (mc_files w)(path \<mapsto> body)\<rparr>"

definition bt_props :: "string \<Rightarrow> machine \<Rightarrow> machine" where
  "bt_props addr w =
     w\<lparr>mc_props := [(''ro.boot.btmacaddr'', addr), (''persist.service.bdroid.bdaddr'', addr), (''ro.bt.bdaddr_path'', BT_MAC_FILE)] @ mc_props w\<rparr>"

definition set_bt_mac :: "string \<Rightarrow> string \<Rightarrow> machine \<Rightarrow> machine" where
  "set_bt_mac stack part w =
     (let buf = fread stack 0 22 part
      in if take 9 buf \<noteq> ''XIAOMIBT!'' then w
         else if \<not> mc_writable w BT_MAC_FILE then w
         else let w = bt_props (mac_text buf) (write_file BT_MAC_FILE (mac_text buf) w)
           in w\<lparr>mc_modes := (BT_MAC_FILE, Mode 420) # (BT_MAC_FILE, Owner 1002) # mc_modes w\<rparr>)"

definition set_wifi_mac :: "string \<Rightarrow> string \<Rightarrow> machine \<Rightarrow> machine" where
  "set_wifi_mac stack part w =
     (let buf = fread stack 22 22 part
      in if take 9 buf \<noteq> ''XIAOMIWF!'' then w
         else if \<not> mc_writable w WIFI_MAC_FILE then w
         else let w = write_file WIFI_MAC_FILE (mac_text buf) w in w\<lparr>mc_modes := (WIFI_MAC_FILE, Mode 420) # mc_modes w\<rparr>)"

text \<open>The Bluetooth address is read back from its file as a C string.\<close>

definition announce_bt :: "string \<Rightarrow> string \<Rightarrow> machine \<Rightarrow> machine" where
  "announce_bt stack file w = bt_props (takeWhile (\<lambda>c. c \<noteq> CHR 0x00) (take 17 (fread stack 0 17 file))) w"

definition conn_init :: "string \<Rightarrow> machine \<Rightarrow> machine" where
  "conn_init stack w =
     (let w = (case mc_files w BT_MAC_FILE of None \<Rightarrow> w | Some file \<Rightarrow> announce_bt stack file w);
          bt_mac_exist = (mc_files w BT_MAC_FILE \<noteq> None); wifi_mac_exist = (mc_files w WIFI_MAC_FILE \<noteq> None)
      in if bt_mac_exist \<and> wifi_mac_exist then w
         else case (case mc_files w MAC_PARTITION1 of Some part \<Rightarrow> Some part | None \<Rightarrow> mc_files w MAC_PARTITION2) of
                None \<Rightarrow> w
              | Some part \<Rightarrow>
                  let w = (if wifi_mac_exist then w else set_wifi_mac stack part w)
                  in if bt_mac_exist then w else set_bt_mac stack part w)"

lemma paths_differ [simp]: "BT_MAC_FILE \<noteq> WIFI_MAC_FILE" "WIFI_MAC_FILE \<noteq> BT_MAC_FILE"
  "MAC_PARTITION1 \<noteq> WIFI_MAC_FILE" "MAC_PARTITION2 \<noteq> WIFI_MAC_FILE"
  by (simp_all add: BT_MAC_FILE_def WIFI_MAC_FILE_def MAC_PARTITION1_def MAC_PARTITION2_def)

lemma fread_length: "n \<le> length stack \<Longrightarrow> length (fread stack off n file) = length stack"
  by (simp add: fread_def Let_def)

lemma hex_digit_visible: "n < 16 \<Longrightarrow> hex_digit n \<noteq> CHR 0x00"
proof -
  have "list_all (\<lambda>n. hex_digit n \<noteq> CHR 0x00) [0..<16]" by (simp add: hex_digit_def upt_rec)
  then show "n < 16 \<Longrightarrow> hex_digit n \<noteq> CHR 0x00" by (simp add: list_all_iff)
qed

lemma mac_text_shape: "length (mac_text buf) = 17" "CHR 0x00 \<notin> set (mac_text buf)"
proof -
  have "(of_char c :: nat) < 256" for c :: char
    using mod_less_divisor [of 256 "of_char c :: nat"] by (simp del: mod_less_divisor)
  then have "hex_digit (of_char c div 16) \<noteq> CHR 0x00" "hex_digit (of_char c mod 16) \<noteq> CHR 0x00" for c :: char
    by (simp_all add: hex_digit_visible div_less_iff_less_mult)
  then have "CHR 0x00 \<notin> set (hex2 c)" for c by (metis hex2_def list.set(1) list.set(2) empty_iff insert_iff)
  then show "CHR 0x00 \<notin> set (mac_text buf)" by (simp add: mac_text_def)
  show "length (mac_text buf) = 17" by (simp add: mac_text_def hex2_def)
qed

lemma announce_written: "announce_bt stack (mac_text buf) w = bt_props (mac_text buf) w"
proof -
  have "take 17 (fread stack 0 17 (mac_text buf)) = mac_text buf" using mac_text_shape(1) [of buf] by (simp add: fread_def Let_def)
  moreover have "takeWhile (\<lambda>c. c \<noteq> CHR 0x00) (mac_text buf) = mac_text buf"
    unfolding takeWhile_eq_all_conv using mac_text_shape(2) [of buf] by metis
  ultimately show ?thesis by (simp only: announce_bt_def)
qed

text \<open>The files of the first boot.\<close>

definition provisioned :: "string \<Rightarrow> string \<Rightarrow> machine \<Rightarrow> bool" where
  "provisioned stack part w \<longleftrightarrow> mc_files w BT_MAC_FILE = None \<and> mc_files w WIFI_MAC_FILE = None \<and>
     mc_writable w BT_MAC_FILE \<and> mc_writable w WIFI_MAC_FILE \<and>
     (mc_files w MAC_PARTITION1 = Some part \<or> mc_files w MAC_PARTITION1 = None \<and> mc_files w MAC_PARTITION2 = Some part) \<and>
     take 9 part = ''XIAOMIBT!'' \<and> take 9 (drop 22 part) = ''XIAOMIWF!'' \<and> 44 \<le> length part"

lemma fread_within: "off + n \<le> length file \<Longrightarrow> k < n \<Longrightarrow> fread stack off n file ! k = file ! (off + k)"
  by (simp add: fread_def Let_def nth_append)

lemma fread_take: "off + n \<le> length file \<Longrightarrow> m \<le> n \<Longrightarrow> take m (fread stack off n file) = take m (drop off file)"
proof -
  assume le: "off + n \<le> length file" "m \<le> n"
  then have "m \<le> length (take n (drop off file))" by simp
  then have "take m (fread stack off n file) = take m (take n (drop off file))" unfolding fread_def Let_def by (subst take_append) simp
  then show ?thesis using le(2) by (simp add: min_absorb1)
qed

text \<open>
  On the first boot of a device whose partition holds both tags the two address files hold the six bytes behind each tag, last
  byte first, as 17 characters; a second boot changes no file and announces the same Bluetooth address as the first.
\<close>

theorem conn_init_twice:
  assumes "provisioned stack part w"
  defines "once \<equiv> conn_init stack w" and "twice \<equiv> conn_init stack (conn_init stack w)"
  shows "mc_files once = (mc_files w)(WIFI_MAC_FILE \<mapsto> mac_text (drop 22 part), BT_MAC_FILE \<mapsto> mac_text part) \<and>
    mc_files twice = mc_files once \<and> mc_props once = take 3 (mc_props once) @ mc_props w \<and>
    mc_props twice = take 3 (mc_props once) @ mc_props once"
proof -
  note p = assms(1) [unfolded provisioned_def]
  have len: "0 + 22 \<le> length part" "22 + 22 \<le> length part" using p by simp_all
  have addr: "mac_text (fread stack 0 22 part) = mac_text part" "mac_text (fread stack 22 22 part) = mac_text (drop 22 part)"
    using fread_within [OF len(1)] fread_within [OF len(2)] len by (simp_all add: mac_text_def)
  have magic: "take 9 (fread stack 0 22 part) = ''XIAOMIBT!''" "take 9 (fread stack 22 22 part) = ''XIAOMIWF!''"
    using fread_take [OF len(1), of 9 stack] fread_take [OF len(2), of 9 stack] p by simp_all
  define w1 where "w1 = (write_file WIFI_MAC_FILE (mac_text (drop 22 part)) w)\<lparr>mc_modes := (WIFI_MAC_FILE, Mode 420) # mc_modes w\<rparr>"
  have wifi: "set_wifi_mac stack part w = w1"
    using p magic(2) addr(2) by (simp add: set_wifi_mac_def w1_def Let_def write_file_def)
  have once: "once = set_bt_mac stack part w1"
    unfolding once_def conn_init_def using p wifi by (auto simp: Let_def)
  have bt: "mc_files (set_bt_mac stack part w1) = (mc_files w)(WIFI_MAC_FILE \<mapsto> mac_text (drop 22 part), BT_MAC_FILE \<mapsto> mac_text part)"
    "mc_props (set_bt_mac stack part w1) = mc_props (bt_props (mac_text part) w)"
    using p magic(1) addr(1) by (simp_all add: set_bt_mac_def w1_def Let_def write_file_def bt_props_def)
  have again: "twice = bt_props (mac_text part) once"
    unfolding twice_def once_def [symmetric] using bt once
    by (simp add: conn_init_def Let_def announce_written) (simp add: bt_props_def)
  show ?thesis using bt once again by (simp add: bt_props_def)
qed

definition example_part :: string where
  "example_part = ''XIAOMIBT!abcdef'' @ replicate 7 CHR 0x00 @ ''XIAOMIWF!ghijkl'' @ replicate 7 CHR 0x00"

definition first_boot :: machine where
  "first_boot = \<lparr>mc_files = [MAC_PARTITION1 \<mapsto> example_part], mc_writable = \<lambda>_. True, mc_props = [], mc_modes = []\<rparr>"

theorem conn_init_twice_witness:
  "mc_files (conn_init (replicate 30 CHR 0x00) first_boot) BT_MAC_FILE = Some ''66:65:64:63:62:61''"
proof -
  have "provisioned (replicate 30 CHR 0x00) example_part first_boot"
    by (simp add: provisioned_def first_boot_def example_part_def BT_MAC_FILE_def WIFI_MAC_FILE_def MAC_PARTITION1_def)
  from conjunct1 [OF conn_init_twice [OF this]] show ?thesis by (simp add: example_part_def mac_text_def hex2_def hex_digit_def)
qed

section \<open>Memory tracker\<close>

record nvmap_entry =
  ne_size :: "64 word"
  ne_flags :: u32
  ne_share_count :: u32
  ne_mapped_size :: "64 word"

definition add_at :: "nat \<Rightarrow> 64 word \<Rightarrow> 64 word list \<Rightarrow> 64 word list" where
  "add_at k v rs = rs[k := rs ! k + v]"

definition account_entry :: "nvmap_entry \<Rightarrow> 64 word list \<Rightarrow> 64 word list" where
  "account_entry e rs =
     (let secure = (ne_flags e AND 4 \<noteq> 0); shared = (ne_share_count e > 1); n = ucast (ne_share_count e);
          rest = ne_size e - ne_mapped_size e
      in if secure \<and> shared then add_at 7 (rest div n) (add_at 6 (ne_mapped_size e div n) rs)
         else if secure then add_at 5 rest (add_at 4 (ne_mapped_size e) rs)
         else if shared then add_at 3 (rest div n) (add_at 2 (ne_mapped_size e div n) rs)
         else add_at 1 rest (add_at 0 (ne_mapped_size e) rs))"

text \<open>The file of a process: its version and its entries. The records are a copy of the caller's vector.\<close>

definition getNvmapMemory :: "(nat \<times> nvmap_entry list) option \<Rightarrow> 64 word list \<Rightarrow> 64 word list" where
  "getNvmapMemory file records =
     (let records = replicate 8 0
      in case file of None \<Rightarrow> records | Some (version, es) \<Rightarrow> if version = 1 then fold account_entry es records else records)"

datatype MemtrackType = MT_OTHER | MT_GL | MT_GRAPHICS | MT_MULTIMEDIA | MT_CAMERA

text \<open>What is answered is the caller's vector, which the copy leaves as it was.\<close>

definition getMemory :: "(nat \<times> nvmap_entry list) option \<Rightarrow> MemtrackType \<Rightarrow> 64 word list" where
  "getMemory file type =
     (let records = []; discarded = (case type of MT_GL \<Rightarrow> getNvmapMemory file records | _ \<Rightarrow> []) in records)"

lemma account_length [simp]: "length (account_entry e rs) = length rs"
  by (simp add: account_entry_def add_at_def Let_def)

lemma account_sum:
  assumes "ne_share_count e \<le> 1" "length rs = 8"
  shows "sum_list (account_entry e rs) = sum_list rs + ne_size e"
proof -
  have "sum_list (add_at k v xs) = sum_list xs + v" if "k < length xs" for k v xs
    using that unfolding add_at_def
    by (induction xs arbitrary: k) (simp_all add: algebra_simps split: nat.split)
  moreover have "length (add_at k v xs) = length xs" for k v xs by (simp add: add_at_def)
  ultimately show ?thesis using assms by (simp add: account_entry_def Let_def not_le [symmetric])
qed

text \<open>
  The tracker accounts for every byte of the buffers a process does not share, each once, modulo 64 bits; and it answers none
  of it: the records are filled in a copy of the vector, and the answer is empty for every process and type.
\<close>

theorem memtrack_answers_nothing:
  assumes "list_all (\<lambda>e. ne_share_count e \<le> 1) es"
  shows "sum_list (getNvmapMemory (Some (1, es)) []) = sum_list (map ne_size es) \<and> getMemory file type = []"
proof -
  have "sum_list (fold account_entry es rs) = sum_list rs + sum_list (map ne_size es)" if "length rs = 8" for rs
    using assms that by (induction es arbitrary: rs) (simp_all add: account_sum add.assoc)
  from this [of "replicate 8 0"] show ?thesis by (simp add: getNvmapMemory_def getMemory_def Let_def sum_list_replicate)
qed

theorem memtrack_answers_nothing_witness:
  "sum_list (getNvmapMemory (Some (1, [\<lparr>ne_size = 4096, ne_flags = 0, ne_share_count = 1, ne_mapped_size = 1024\<rparr>])) []) = 4096 \<and>
   getMemory (Some (1, [\<lparr>ne_size = 4096, ne_flags = 0, ne_share_count = 1, ne_mapped_size = 1024\<rparr>])) MT_GL = []"
  using memtrack_answers_nothing [of "[\<lparr>ne_size = 4096, ne_flags = 0, ne_share_count = 1, ne_mapped_size = 1024\<rparr>]"] by simp

end
